(* ===== verification/Prelude.thy ===== *)
theory Prelude
  imports Main
begin

text \<open>
  Shared vocabulary of the development: errors as values, time as nanoseconds, and the
  relational tables the PostgreSQL repository works on.  A table is the list of its rows;
  a \<open>SELECT\<close> is \<open>filter\<close> or \<open>sel1\<close>, an \<open>UPDATE ... WHERE\<close> is \<open>upd_where\<close>, the number of
  rows it reports is \<open>affected\<close>, and a primary key is a projection that is distinct over the
  rows.  The laws of these operations are collected in \<open>tbl\<close>.
\<close>

named_theorems tbl \<open>laws of the table operations\<close>
named_theorems key_keep \<open>updates that keep the primary key of a row\<close>

section \<open>Errors and results\<close>

text \<open>The sentinel errors of the source, up to \<open>errors.Is\<close>: wrapping adds text only.\<close>

datatype go_error =
    ErrInvalidInput
  | ErrInvalidUpload
  | ErrNotFound
  | ErrForbidden
  | ErrUnauthorized
  | ErrConflict
  | ErrCommitOutcomeUnknown
  | ErrAuditUnavailable
  | ErrPersonalAssetNotReady
  | ErrPersonalQuotaExceeded int int int
  | ErrCaptureMissingObjects
  | ErrCaptureExpired
  | ErrRecordingSourceTooLarge
  | ErrRecordingPackageTooLarge
  | ErrRecordingPackageEstimateTooLarge
  | ErrRecordingStorageUnavailable
  | ErrOther string

type_synonym 'a result = "go_error + 'a"

abbreviation Err :: "go_error \<Rightarrow> 'a result" where "Err \<equiv> Inl"
abbreviation Ok :: "'a \<Rightarrow> 'a result" where "Ok \<equiv> Inr"

text \<open>A fallible step followed by the rest: an early return on error.\<close>

fun bindR :: "'a result \<Rightarrow> ('a \<Rightarrow> 'b result) \<Rightarrow> 'b result" where
  "bindR (Inl e) f = Inl e"
| "bindR (Inr x) f = f x"

lemma bindR_Ok_iff [simp]: "bindR r f = Inr y \<longleftrightarrow> (\<exists>x. r = Inr x \<and> f x = Inr y)"
  by (cases r) auto

lemma bindR_Err_iff: "bindR r f = Inl e \<longleftrightarrow> r = Inl e \<or> (\<exists>x. r = Inr x \<and> f x = Inl e)"
  by (cases r) auto

fun is_ok :: "'a result \<Rightarrow> bool" where
  "is_ok (Inl _) = False"
| "is_ok (Inr _) = True"

section \<open>Time\<close>

text \<open>
  An instant is its distance in nanoseconds from Go's zero time, so \<open>IsZero\<close> is equality
  with \<open>0\<close>; a nullable timestamp column read through
  \<open>COALESCE(..., '0001-01-01')\<close> is \<open>0\<close> where the column is NULL.  \<open>UTC()\<close> is the identity.
\<close>

type_synonym time = int

abbreviation zero_time :: time where "zero_time \<equiv> 0"

definition millisecond :: int where [simp]: "millisecond = 1000000"
definition second :: int where [simp]: "second = 1000000000"
definition minute :: int where [simp]: "minute = 60000000000"
definition hour :: int where [simp]: "hour = 3600000000000"

section \<open>Tables\<close>

type_synonym 'r tbl = "'r list"

definition sel1 :: "('r \<Rightarrow> bool) \<Rightarrow> 'r tbl \<Rightarrow> 'r option" where
  "sel1 P t = find P t"

definition upd_where :: "('r \<Rightarrow> bool) \<Rightarrow> ('r \<Rightarrow> 'r) \<Rightarrow> 'r tbl \<Rightarrow> 'r tbl" where
  "upd_where P f t = map (\<lambda>r. if P r then f r else r) t"

definition affected :: "('r \<Rightarrow> bool) \<Rightarrow> 'r tbl \<Rightarrow> nat" where
  "affected P t = length (filter P t)"

definition del_where :: "('r \<Rightarrow> bool) \<Rightarrow> 'r tbl \<Rightarrow> 'r tbl" where
  "del_where P t = filter (\<lambda>r. \<not> P r) t"

definition exists_row :: "('r \<Rightarrow> bool) \<Rightarrow> 'r tbl \<Rightarrow> bool" where
  "exists_row P t = list_ex P t"

text \<open>\<open>ORDER BY k LIMIT 1\<close>: the first row among those with the least sort key.\<close>

fun min_row :: "('r \<Rightarrow> 'k::linorder) \<Rightarrow> 'r tbl \<Rightarrow> 'r option" where
  "min_row k [] = None"
| "min_row k (r # t) = (case min_row k t of None \<Rightarrow> Some r
                        | Some m \<Rightarrow> if k m < k r then Some m else Some r)"

definition keyed :: "('r \<Rightarrow> 'k) \<Rightarrow> 'r tbl \<Rightarrow> bool" where
  "keyed k t = distinct (map k t)"

lemma sel1_Some [tbl]: "sel1 P t = Some r \<Longrightarrow> r \<in> set t \<and> P r"
  unfolding sel1_def by (auto simp: find_Some_iff)

lemma sel1_in [dest]: "sel1 P t = Some r \<Longrightarrow> r \<in> set t"
  by (simp add: sel1_Some)

lemma sel1_pred [dest]: "sel1 P t = Some r \<Longrightarrow> P r"
  by (simp add: sel1_Some)

lemma sel1_None [tbl]: "sel1 P t = None \<longleftrightarrow> (\<forall>r\<in>set t. \<not> P r)"
  unfolding sel1_def by (auto simp: find_None_iff)

lemma sel1_Nil [simp]: "sel1 P [] = None"
  by (simp add: sel1_def)

lemma sel1_Cons [simp]: "sel1 P (r # t) = (if P r then Some r else sel1 P t)"
  by (simp add: sel1_def)

lemma sel1_append: "sel1 P (t @ u) = (case sel1 P t of Some r \<Rightarrow> Some r | None \<Rightarrow> sel1 P u)"
  by (induction t) auto

lemma keyed_Nil [simp]: "keyed k []"
  by (simp add: keyed_def)

lemma keyed_Cons [simp]: "keyed k (r # t) \<longleftrightarrow> k r \<notin> k ` set t \<and> keyed k t"
  by (simp add: keyed_def)

lemma keyed_snoc [simp]: "keyed k (t @ [r]) \<longleftrightarrow> k r \<notin> k ` set t \<and> keyed k t"
  by (auto simp: keyed_def)

lemma keyed_eq:
  assumes "keyed k t" "r \<in> set t" "s \<in> set t" "k r = k s"
  shows "r = s"
  using assms unfolding keyed_def by (induction t) (auto simp: rev_image_eqI)

lemma keyed_sel1:
  assumes "keyed k t" "r \<in> set t"
  shows "sel1 (\<lambda>x. k x = k r) t = Some r"
  using assms by (induction t) (auto simp: rev_image_eqI)

lemma affected_Nil [simp]: "affected P [] = 0"
  by (simp add: affected_def)

lemma affected_Cons [simp]: "affected P (r # t) = (if P r then Suc (affected P t) else affected P t)"
  by (simp add: affected_def)

lemma affected_0_iff [tbl]: "affected P t = 0 \<longleftrightarrow> (\<forall>r\<in>set t. \<not> P r)"
  by (induction t) auto

lemma affected_pos_iff [tbl]: "affected P t > 0 \<longleftrightarrow> (\<exists>r\<in>set t. P r)"
  using affected_0_iff [of P t] by auto

lemma affected_keyed_le1:
  assumes "keyed k t" "\<And>r. P r \<Longrightarrow> k r = x"
  shows "affected P t \<le> 1"
  using assms
proof (induction t)
  case (Cons a t)
  show ?case
  proof (cases "P a")
    case True
    have "\<forall>r\<in>set t. \<not> P r"
    proof
      fix r assume "r \<in> set t"
      then show "\<not> P r"
        using Cons.prems(1) Cons.prems(2)[of a] Cons.prems(2)[of r] True
        by (metis keyed_Cons rev_image_eqI)
    qed
    then have "affected P t = 0" by (simp add: affected_0_iff)
    then show ?thesis by simp
  next
    case False
    then show ?thesis using Cons by auto
  qed
qed simp

lemma affected_one:
  assumes "keyed k t" "\<And>r. P r \<Longrightarrow> k r = x"
  shows "affected P t = 1 \<longleftrightarrow> (\<exists>r\<in>set t. P r)"
proof -
  have "affected P t \<le> 1" by (rule affected_keyed_le1 [where k = k and x = x]) (use assms in auto)
  then show ?thesis using affected_pos_iff [of P t] by linarith
qed

lemma upd_where_Nil [simp]: "upd_where P f [] = []"
  by (simp add: upd_where_def)

lemma upd_where_Cons [simp]:
  "upd_where P f (r # t) = (if P r then f r else r) # upd_where P f t"
  by (simp add: upd_where_def)

lemma upd_where_none [tbl]: "\<forall>r\<in>set t. \<not> P r \<Longrightarrow> upd_where P f t = t"
  by (induction t) auto

lemma length_upd_where [simp]: "length (upd_where P f t) = length t"
  by (simp add: upd_where_def)

lemma set_upd_where: "set (upd_where P f t) = (\<lambda>r. if P r then f r else r) ` set t"
  by (simp add: upd_where_def)

lemma in_upd_whereE:
  assumes "r \<in> set (upd_where P f t)"
  obtains s where "s \<in> set t" "r = (if P s then f s else s)"
  using assms by (auto simp: set_upd_where)

lemma map_key_upd_where [simp]:
  assumes "\<And>r. k (f r) = k r"
  shows "map k (upd_where P f t) = map k t"
  using assms by (induction t) auto

lemma keyed_upd_where:
  assumes "\<And>r. k (f r) = k r"
  shows "keyed k (upd_where P f t) = keyed k t"
  using map_key_upd_where [where k = k and f = f, OF assms] by (simp add: keyed_def)

lemma sel1_upd_where:
  assumes "\<And>r. k (f r) = k r"
  shows "sel1 (\<lambda>r. k r = x) (upd_where P f t)
       = map_option (\<lambda>r. if P r then f r else r) (sel1 (\<lambda>r. k r = x) t)"
  using assms by (induction t) auto

lemma sel1_upd_other:
  assumes "\<And>r. k (f r) = k r" "\<And>r. P r \<Longrightarrow> k r \<noteq> x"
  shows "sel1 (\<lambda>r. k r = x) (upd_where P f t) = sel1 (\<lambda>r. k r = x) t"
  using assms by (induction t) auto

lemma upd_where_pred:
  assumes "\<forall>r\<in>set t. Q r" "\<And>r. r \<in> set t \<Longrightarrow> P r \<Longrightarrow> Q r \<Longrightarrow> Q (f r)"
  shows "\<forall>r\<in>set (upd_where P f t). Q r"
  using assms by (induction t) auto

lemma set_del_where [simp]: "set (del_where P t) = {r \<in> set t. \<not> P r}"
  by (auto simp: del_where_def)

lemma keyed_del_where [tbl]: "keyed k t \<Longrightarrow> keyed k (del_where P t)"
  unfolding keyed_def del_where_def by (simp add: distinct_map_filter)

lemma exists_row_iff [simp]: "exists_row P t \<longleftrightarrow> (\<exists>r\<in>set t. P r)"
  by (simp add: exists_row_def list_ex_iff)

lemma min_row_in: "min_row k t = Some r \<Longrightarrow> r \<in> set t"
  by (induction t arbitrary: r) (auto split: option.splits if_splits)

lemma min_row_None [simp]: "min_row k t = None \<longleftrightarrow> t = []"
  by (cases t) (auto split: option.splits)

lemma min_row_le: "min_row k t = Some r \<Longrightarrow> s \<in> set t \<Longrightarrow> k r \<le> k s"
  by (induction t arbitrary: r s) (fastforce split: option.splits if_splits)+

section \<open>Strings\<close>

text \<open>The ASCII cutset of \<open>strings.TrimSpace\<close>; the source's inputs are ASCII identifiers.\<close>

definition is_space :: "char \<Rightarrow> bool" where
  "is_space c \<longleftrightarrow> of_char c \<in> set [9, 10, 11, 12, 13, 32 :: nat]"

definition TrimSpace :: "string \<Rightarrow> string" where
  "TrimSpace s = rev (dropWhile is_space (rev (dropWhile is_space s)))"

lemma TrimSpace_Nil [simp]: "TrimSpace [] = []"
  by (simp add: TrimSpace_def)

lemma length_TrimSpace: "length (TrimSpace s) \<le> length s"
  unfolding TrimSpace_def
  by (metis length_dropWhile_le length_rev order_trans)

end
