(* ===== verification/Domain.thy ===== *)
theory Domain
  imports Prelude
begin

text \<open>
  The data model of \<open>internal/assets/types.go\<close>: the enumerations, the persisted structs and
  the inputs and results of the operations.  The string-typed enumerations that an untrusted
  caller fills in (visibility, subject type, permission, scan status) have one more
  constructor for the strings that are none of the declared constants.  \<open>int64\<close> fields are
  integers; where the code does arithmetic that could leave the range this is said there.
\<close>

section \<open>Enumerations\<close>

datatype visibility =
    VisibilityPublic | VisibilityAuthenticated | VisibilityRestricted | VisibilityPrivate
  | VisibilityOther string

datatype upload_status = UploadCreated | UploadCompleted | UploadFailed

datatype scan_status = ScanPending | ScanClean | ScanInfected | ScanFailed | ScanOther string

datatype processing_status =
    ProcessingPending | ProcessingReady | ProcessingNotRequired | ProcessingFailed

datatype processing_claim_state = ProcessingClaimed | ProcessingDeferred | ProcessingTerminal

datatype scan_claim_state = ScanClaimed | ScanBusy | ScanTerminal

datatype subject_type =
    SubjectPublic | SubjectUser | SubjectRole | SubjectService | SubjectLineGroup
  | SubjectAppClient | SubjectOther string

datatype permission = PermissionRead | PermissionDelete | PermissionOther string

section \<open>Persisted structs\<close>

record asset =
  a_id :: string
  a_namespace :: string
  a_owner_service :: string
  a_owner_type :: string
  a_owner_id :: string
  a_purpose :: string
  a_locale :: string
  a_file_name :: string
  a_object_key :: string
  a_expected_mime :: string
  a_detected_mime :: string
  a_size :: int
  a_checksum :: string
  a_etag :: string
  a_upload_status :: upload_status
  a_scan_status :: scan_status
  a_scan_details :: string
  a_scan_signature :: string
  a_scan_failure :: string
  a_processing_status :: processing_status
  a_visibility :: visibility
  a_created :: time
  a_updated :: time
  a_deleted :: time
  a_purged :: time
  a_scan_attempts :: int
  a_scan_event :: string
  a_processing_attempts :: int
  a_processing_error :: string
  a_processing_next :: time
  a_processing_claimed :: time

record upload_session =
  us_id :: string
  us_asset :: string
  us_key :: string
  us_caller :: string
  us_operation :: string
  us_fingerprint :: string
  us_staging_key :: string
  us_max_size :: int
  us_status :: upload_status
  us_expires :: time
  us_created :: time
  us_completed :: time

record grant =
  g_id :: string
  g_asset :: string
  g_subject_type :: subject_type
  g_subject_id :: string
  g_permission :: permission
  g_key :: string
  g_caller :: string
  g_operation :: string
  g_fingerprint :: string
  g_expires :: time
  g_created :: time
  g_revoked :: time

record derivative =
  d_asset :: string
  d_variant :: string
  d_object_key :: string
  d_mime :: string
  d_width :: int
  d_height :: int
  d_size :: int
  d_etag :: string
  d_created :: time

record collection =
  c_id :: string
  c_namespace :: string
  c_name :: string
  c_revision :: int
  c_retention_days :: int
  c_created_by :: string
  c_created :: time
  c_updated :: time
  c_deleted :: time

record collection_acl =
  acl_id :: string
  acl_collection :: string
  acl_subject_type :: subject_type
  acl_subject_id :: string
  acl_permission :: permission
  acl_created :: time
  acl_revoked :: time

record collection_item =
  ci_id :: string
  ci_collection :: string
  ci_asset :: string
  ci_remote :: string
  ci_name :: string
  ci_source_revision :: string
  ci_created_rev :: int
  ci_exempt :: bool
  ci_updated_rev :: int
  ci_deleted_rev :: int
  ci_mime :: string
  ci_size :: int
  ci_etag :: string
  ci_created :: time
  ci_updated :: time
  ci_deleted :: time

record collection_tombstone =
  t_id :: string
  t_remote :: string
  t_deleted_rev :: int
  t_deleted :: time

record content_ticket =
  ct_hash :: string
  ct_collection :: string
  ct_item :: string
  ct_etag :: string
  ct_user :: string
  ct_roles :: "string list"
  ct_access_mode :: string
  ct_expires :: time
  ct_created :: time

section \<open>Inputs and results of the operations\<close>

record create_upload_input =
  cu_namespace :: string
  cu_owner_service :: string
  cu_owner_type :: string
  cu_owner_id :: string
  cu_purpose :: string
  cu_locale :: string
  cu_file_name :: string
  cu_mime :: string
  cu_max_size :: int
  cu_visibility :: visibility

record complete_upload_input =
  co_size :: int
  co_checksum :: string
  co_mime :: string

record scan_request =
  sr_event :: string
  sr_asset :: string
  sr_etag :: string
  sr_attempts :: int
  sr_created :: time

record create_grant_input =
  cg_subject_type :: subject_type
  cg_subject_id :: string
  cg_permission :: permission
  cg_expires :: time
  cg_key :: string

record scan_result =
  res_event :: string
  res_asset :: string
  res_status :: scan_status
  res_details :: string
  res_signature :: string
  res_failure :: string
  res_etag :: string
  res_expected_attempt :: int

text \<open>\<open>ScanPoison\<close> and \<open>DerivativePoison\<close> have the same fields.\<close>

record poison =
  po_id :: string
  po_event :: string
  po_asset :: string
  po_etag :: string
  po_reason :: string
  po_details :: string
  po_dequeue :: int
  po_source :: string
  po_body :: string

record processing_failure =
  pf_asset :: string
  pf_etag :: string
  pf_expected_attempt :: int
  pf_details :: string

record upload_target =
  ut_url :: string
  ut_method :: string
  ut_headers :: "(string \<times> string) list"
  ut_expires :: time

record created_upload =
  cr_asset :: asset
  cr_session :: upload_session
  cr_target :: upload_target

record blob_properties =
  bp_size :: int
  bp_mime :: string
  bp_checksum :: string
  bp_etag :: string

record blob_metadata =
  bm_size :: int
  bm_mime :: string
  bm_etag :: string
  bm_modified :: time

record byte_range =
  br_offset :: int
  br_count :: int
  br_suffix :: int

record public_metadata =
  pm_size :: int
  pm_mime :: string
  pm_file_name :: string
  pm_etag :: string
  pm_modified :: time
  pm_cache_control :: string
  pm_object_key :: string

record collection_subject =
  cs_user :: string
  cs_roles :: "string list"

record item_mutation =
  im_collection :: collection
  im_item :: collection_item
  im_tombstone :: collection_tombstone

record managed_item =
  mi_id :: string
  mi_name :: string
  mi_mime :: string
  mi_size :: int
  mi_created :: time
  mi_exempt :: bool

record acl_mutation =
  am_collection :: collection
  am_acl :: collection_acl

record delete_items_result =
  di_deleted :: int
  di_already_removed :: int
  di_exempt_skipped :: int

text \<open>
  A cursor is handed to the client as the unpadded base64 of the JSON of a struct.  The model keeps
  what such a text decodes to: the empty text, a struct, or a text that is neither.
\<close>

datatype 'c token = NoToken | Token 'c | BadToken string

record list_cursor =
  lc_last :: string

record managed_cursor =
  mc_value :: string
  mc_last :: string
  mc_sort :: string
  mc_direction :: string

datatype change_mode = ModeReset | ModeDelta | ModeOther string

record change_cursor =
  cc_mode :: change_mode
  cc_coll :: string
  cc_high :: int
  cc_last_item :: string
  cc_from :: int
  cc_to :: int
  cc_after_rev :: int
  cc_after_kind :: int
  cc_after_id :: string

record change_page =
  cp_collection :: collection
  cp_items :: "collection_item list"
  cp_tombstones :: "collection_tombstone list"
  cp_cursor :: "change_cursor token"
  cp_has_more :: bool
  cp_reset :: bool

record managed_collection =
  mg_collection :: collection
  mg_acls :: "collection_acl list"

text \<open>\<open>CollectionPage\<close>, \<open>ManagedCollectionPage\<close> and \<open>ManagedCollectionItemPage\<close> differ in their rows.\<close>

record ('r, 'c) page =
  pg_rows :: "'r list"
  pg_cursor :: "'c token"
  pg_more :: bool

text \<open>The zero values of the structs the code returns when there is nothing to return.\<close>

definition zero_asset :: asset where
  "zero_asset = \<lparr>a_id = [], a_namespace = [], a_owner_service = [], a_owner_type = [],
     a_owner_id = [], a_purpose = [], a_locale = [], a_file_name = [], a_object_key = [],
     a_expected_mime = [], a_detected_mime = [], a_size = 0, a_checksum = [], a_etag = [],
     a_upload_status = UploadCreated, a_scan_status = ScanOther [], a_scan_details = [],
     a_scan_signature = [], a_scan_failure = [], a_processing_status = ProcessingPending,
     a_visibility = VisibilityOther [], a_created = 0, a_updated = 0, a_deleted = 0,
     a_purged = 0, a_scan_attempts = 0, a_scan_event = [], a_processing_attempts = 0,
     a_processing_error = [], a_processing_next = 0, a_processing_claimed = 0\<rparr>"

definition zero_item :: collection_item where
  "zero_item = \<lparr>ci_id = [], ci_collection = [], ci_asset = [], ci_remote = [], ci_name = [],
     ci_source_revision = [], ci_created_rev = 0, ci_exempt = False, ci_updated_rev = 0,
     ci_deleted_rev = 0, ci_mime = [], ci_size = 0, ci_etag = [], ci_created = 0,
     ci_updated = 0, ci_deleted = 0\<rparr>"

definition zero_tombstone :: collection_tombstone where
  "zero_tombstone = \<lparr>t_id = [], t_remote = [], t_deleted_rev = 0, t_deleted = 0\<rparr>"

definition zero_request :: scan_request where
  "zero_request = \<lparr>sr_event = [], sr_asset = [], sr_etag = [], sr_attempts = 0, sr_created = 0\<rparr>"

text \<open>
  The statuses of an upload are ordered by the way an upload may move: created first, then
  one of the two final states.
\<close>

instantiation upload_status :: linorder
begin

fun upload_rank :: "upload_status \<Rightarrow> nat" where
  "upload_rank UploadCreated = 0"
| "upload_rank UploadCompleted = 1"
| "upload_rank UploadFailed = 2"

definition less_eq_upload_status :: "upload_status \<Rightarrow> upload_status \<Rightarrow> bool" where
  "less_eq_upload_status a b \<longleftrightarrow> upload_rank a \<le> upload_rank b"

definition less_upload_status :: "upload_status \<Rightarrow> upload_status \<Rightarrow> bool" where
  "less_upload_status a b \<longleftrightarrow> upload_rank a < upload_rank b"

instance
proof
  fix x y z :: upload_status
  show "x < y \<longleftrightarrow> x \<le> y \<and> \<not> y \<le> x"
    by (auto simp: less_eq_upload_status_def less_upload_status_def)
  show "x \<le> x" by (simp add: less_eq_upload_status_def)
  show "x \<le> y \<Longrightarrow> y \<le> z \<Longrightarrow> x \<le> z" by (simp add: less_eq_upload_status_def)
  show "x \<le> y \<Longrightarrow> y \<le> x \<Longrightarrow> x = y"
    by (cases x; cases y) (simp_all add: less_eq_upload_status_def)
  show "x \<le> y \<or> y \<le> x" by (auto simp: less_eq_upload_status_def)
qed

end

lemma upload_created_le [simp]: "UploadCreated \<le> s"
  by (simp add: less_eq_upload_status_def)

end
