(* ===== verification/Store_Base.thy ===== *)
theory Store_Base
  imports Domain
begin

text \<open>
  The PostgreSQL schema the repository of \<open>internal/postgres\<close> works on, as a record of
  tables, and the transactional vocabulary: rollback on error (\<open>tx\<close>), inserts that check the
  UNIQUE, CHECK and REFERENCES constraints of \<open>internal/migrations/sql\<close>, and the audit
  events a transaction enqueues (\<open>enqueueAuditTx\<close>, \<open>internal/auditoutbox/store.go\<close>).

  Each repository operation is one atomic step on the store: the row locks of the code make
  it so.  Connection failures, cancelled contexts and the rounding of timestamps to
  microseconds are not modelled.  A clock reading, a random identifier and the SHA-256
  fingerprints are arguments.
\<close>

section \<open>Rows\<close>

text \<open>The columns of \<open>assets\<close> that the struct \<open>Asset\<close> does not carry.\<close>

record asset_row = asset +
  ar_scan_next :: time
  ar_scan_claimed :: time
  ar_purge_next :: time
  ar_purge_claimed :: time
  ar_purge_error :: string
  ar_download_until :: time

record scan_event =
  se_event :: string
  se_asset :: string
  se_status :: scan_status
  se_details :: string
  se_etag :: string
  se_created :: time

record outbox_row =
  ob_event :: string
  ob_asset :: string
  ob_etag :: string
  ob_attempts :: int
  ob_available :: time
  ob_claimed :: time
  ob_delivered :: time
  ob_error :: string
  ob_created :: time

record poison_row = poison +
  pr_created :: time
  pr_forwarded :: time
  pr_replayed :: time
  pr_replay_event :: string

record acl_audit_row =
  aa_id :: string
  aa_collection :: string
  aa_acl :: string
  aa_action :: string
  aa_subject_type :: subject_type
  aa_subject_id :: string
  aa_actor :: string
  aa_request :: string
  aa_created :: time

text \<open>The stored responses of the mutation log, as their JSON reads back.\<close>

datatype response =
    RespCollection collection
  | RespACL acl_mutation
  | RespItem item_mutation
  | RespDelete delete_items_result
  | RespManaged managed_item
  | RespEmpty

record mutation_row =
  mu_caller :: string
  mu_operation :: string
  mu_key :: string
  mu_fingerprint :: string
  mu_response :: "response option"
  mu_created :: time

record cleanup_row =
  cl_key :: string
  cl_subject :: string
  cl_completed :: bool
  cl_affected :: int
  cl_created :: time
  cl_updated :: time

section \<open>Audit events and the environment of a request\<close>

datatype meta_value = MStr string | MInt int

type_synonym metadata = "(string \<times> meta_value) list"

record provenance =
  pv_actor_type :: string
  pv_actor_id :: string
  pv_request :: string

text \<open>
  An audit event; the fields that the contract of its action fixes (category, severity,
  outcome, retention class and so on) are functions of \<open>ev_action\<close> and left out.
\<close>

record audit_event =
  ev_id :: string
  ev_occurred :: time
  ev_request :: string
  ev_actor_type :: string
  ev_actor_id :: string
  ev_action :: string
  ev_resource :: string
  ev_metadata :: metadata

text \<open>The requests whose fingerprint guards an idempotency key, one per mutation.\<close>

datatype mutation_request =
    FpCreate string string
  | FpRename string string
  | FpDelete string
  | FpAddACL string subject_type string permission string
  | FpRevokeACL string string string
  | FpAddItem string string string string string
  | FpDeleteItem string string
  | FpDeleteItems string "string list"
  | FpRenameItem string string string
  | FpSetRetention string "string list" bool
  | FpUpdateRetention string int

text \<open>
  What an operation takes from its surroundings: whether an audit outbox is attached
  (\<open>Store.audit\<close>), the provenance in the context, the construction and comparison of audit
  events, the SHA-256 digest and the fingerprint of a mutation request (the digest of its
  JSON).
\<close>

record env =
  env_audit :: bool
  env_provenance :: "provenance option"
  env_new_event :: "string \<Rightarrow> string \<Rightarrow> provenance \<Rightarrow> time \<Rightarrow> metadata \<Rightarrow> audit_event option"
  env_equivalent :: "audit_event \<Rightarrow> audit_event \<Rightarrow> bool"
  env_sha256 :: "string \<Rightarrow> string"
  env_fingerprint :: "mutation_request \<Rightarrow> string"

section \<open>The store\<close>

record store =
  st_assets :: "asset_row tbl"
  st_sessions :: "upload_session tbl"
  st_grants :: "grant tbl"
  st_scan_events :: "scan_event tbl"
  st_scan_outbox :: "outbox_row tbl"
  st_derivative_outbox :: "outbox_row tbl"
  st_scan_poison :: "poison_row tbl"
  st_derivative_poison :: "poison_row tbl"
  st_derivatives :: "derivative tbl"
  st_collections :: "collection tbl"
  st_acls :: "collection_acl tbl"
  st_acl_audit :: "acl_audit_row tbl"
  st_items :: "collection_item tbl"
  st_mutations :: "mutation_row tbl"
  st_tickets :: "content_ticket tbl"
  st_cleanups :: "cleanup_row tbl"
  st_audit :: "audit_event tbl"

definition empty_store :: store where
  "empty_store = \<lparr>st_assets = [], st_sessions = [], st_grants = [], st_scan_events = [],
     st_scan_outbox = [], st_derivative_outbox = [], st_scan_poison = [],
     st_derivative_poison = [], st_derivatives = [], st_collections = [], st_acls = [],
     st_acl_audit = [], st_items = [], st_mutations = [], st_tickets = [], st_cleanups = [],
     st_audit = []\<rparr>"

text \<open>A transaction: the body's error rolls every change back.\<close>

fun tx :: "store \<Rightarrow> ('a \<times> store) result \<Rightarrow> 'a result \<times> store" where
  "tx st (Inl e) = (Inl e, st)"
| "tx st (Inr (x, st')) = (Inr x, st')"

lemma tx_Ok [simp]: "tx st r = (Inr x, st') \<longleftrightarrow> r = Inr (x, st')"
  by (cases r) (auto split: prod.splits)

lemma tx_Err_iff: "tx st r = (Inl e, st') \<longleftrightarrow> r = Inl e \<and> st' = st"
  by (cases r) auto

lemma tx_Err [simp]: "fst (tx st r) = Inl e \<longleftrightarrow> r = Inl e"
  by (cases r) auto

lemma tx_rollback: "fst (tx st r) = Inl e \<Longrightarrow> snd (tx st r) = st"
  by (cases r) auto

text \<open>The SQLSTATE of a unique violation, and the one of a CHECK or REFERENCES violation.\<close>

definition unique_violation :: go_error where
  "unique_violation = ErrOther ''23505''"

definition check_violation :: go_error where
  "check_violation = ErrOther ''23514''"

definition insert_row ::
  "('r \<Rightarrow> bool) \<Rightarrow> ('r \<Rightarrow> 'r \<Rightarrow> bool) \<Rightarrow> 'r \<Rightarrow> 'r tbl \<Rightarrow> 'r tbl result" where
  "insert_row ok clash r t =
     (if \<not> ok r then Err check_violation
      else if exists_row (clash r) t then Err unique_violation
      else Ok (t @ [r]))"

lemma insert_row_Ok [simp]:
  "insert_row ok clash r t = Inr t' \<longleftrightarrow> ok r \<and> (\<forall>s\<in>set t. \<not> clash r s) \<and> t' = t @ [r]"
  by (auto simp: insert_row_def)

text \<open>\<open>INSERT ... ON CONFLICT DO NOTHING\<close>: the new table and whether a row was inserted.\<close>

definition insert_ignore :: "('r \<Rightarrow> 'r \<Rightarrow> bool) \<Rightarrow> 'r \<Rightarrow> 'r tbl \<Rightarrow> 'r tbl \<times> bool" where
  "insert_ignore clash r t = (if exists_row (clash r) t then (t, False) else (t @ [r], True))"

section \<open>Audit\<close>

text \<open>
  \<open>auditoutbox.Store.EnqueueTx\<close>: a new event is appended; an event whose id is already
  stored is accepted when the stored one is equivalent and refused otherwise.
\<close>

definition EnqueueTx :: "env \<Rightarrow> audit_event \<Rightarrow> store \<Rightarrow> store result" where
  "EnqueueTx env ev st =
     (case sel1 (\<lambda>e. ev_id e = ev_id ev) (st_audit st) of
        None \<Rightarrow> Ok (st\<lparr>st_audit := st_audit st @ [ev]\<rparr>)
      | Some stored \<Rightarrow> if stored = ev \<or> env_equivalent env stored ev then Ok st
                       else Err ErrConflict)"

definition enqueueAuditTx ::
  "env \<Rightarrow> string \<Rightarrow> string \<Rightarrow> metadata \<Rightarrow> time \<Rightarrow> store \<Rightarrow> store result" where
  "enqueueAuditTx env action resource meta now st =
     (if \<not> env_audit env then Ok st
      else case env_provenance env of
        None \<Rightarrow> Err ErrAuditUnavailable
      | Some pv \<Rightarrow>
          (case env_new_event env action resource pv now meta of
             None \<Rightarrow> Err ErrAuditUnavailable
           | Some ev \<Rightarrow>
               (case EnqueueTx env ev st of
                  Inl _ \<Rightarrow> Err ErrAuditUnavailable
                | Inr st' \<Rightarrow> Ok st')))"

text \<open>The only thing auditing changes is the audit outbox, which only grows.\<close>

lemma enqueueAuditTx_frame:
  assumes "enqueueAuditTx env action resource meta now st = Inr st'"
  shows "\<exists>evs. st' = st\<lparr>st_audit := st_audit st @ evs\<rparr>"
proof -
  have *: "\<exists>evs. st = st\<lparr>st_audit := st_audit st @ evs\<rparr>" by (rule exI [of _ "[]"]) simp
  show ?thesis
    using assms * unfolding enqueueAuditTx_def EnqueueTx_def
    by (auto split: if_splits option.splits sum.splits)
qed

lemma enqueueAuditTx_Err: "enqueueAuditTx env action resource meta now st = Inl e \<Longrightarrow> e = ErrAuditUnavailable"
  unfolding enqueueAuditTx_def by (auto split: if_splits option.splits sum.splits)

text \<open>With an audit outbox attached, a successful mutation has its event in the outbox.\<close>

lemma enqueueAuditTx_recorded:
  assumes "enqueueAuditTx env action resource meta now st = Inr st'" "env_audit env"
  shows "\<exists>pv ev. env_provenance env = Some pv \<and> env_new_event env action resource pv now meta = Some ev
           \<and> ev_id ev \<in> ev_id ` set (st_audit st')"
  using assms unfolding enqueueAuditTx_def EnqueueTx_def
  by (auto split: if_splits option.splits sum.splits dest!: sel1_Some) (metis imageI)

text \<open>\<open>ValidUploadMetadata\<close> on the metadata \<open>auditUploadMetadata\<close> builds from an asset.\<close>

definition upload_tuple :: "string \<Rightarrow> string \<Rightarrow> string \<Rightarrow> string" where
  "upload_tuple ns ot pu = ns @ CHR 0x00 # ot @ CHR 0x00 # pu"

definition audited_uploads :: "string list" where
  "audited_uploads =
     [upload_tuple ''cms.weekly.pdf'' ''bulletin_issue'' ''weekly_bulletin'',
      upload_tuple ''cms.home.banner'' ''page'' ''home_banner'',
      upload_tuple ''cms.news.cover'' ''news'' '''',
      upload_tuple ''cms.news.cover'' ''news'' ''news_cover'',
      upload_tuple ''cms.news.cover'' ''news'' ''news_detail_cover'',
      upload_tuple ''cms.news.cover'' ''news'' ''news_home_cover'']"

definition auditUploadMetadata :: "('a asset_scheme) \<Rightarrow> metadata \<times> bool" where
  "auditUploadMetadata a =
     ([(''namespace'', MStr (a_namespace a)), (''ownerType'', MStr (a_owner_type a)),
       (''purpose'', MStr (a_purpose a))],
      upload_tuple (a_namespace a) (a_owner_type a) (a_purpose a) \<in> set audited_uploads)"

text \<open>The audit step of an upload operation: only audited kinds of upload enqueue an event.\<close>

definition audit_upload :: "env \<Rightarrow> string \<Rightarrow> ('a asset_scheme) \<Rightarrow> time \<Rightarrow> store \<Rightarrow> store result" where
  "audit_upload env action a now st =
     (case auditUploadMetadata a of (meta, audited) \<Rightarrow>
        if audited then enqueueAuditTx env action (a_id a) meta now st else Ok st)"

lemma audit_upload_frame:
  assumes "audit_upload env action a now st = Inr st'"
  shows "\<exists>evs. st' = st\<lparr>st_audit := st_audit st @ evs\<rparr>"
proof (cases "snd (auditUploadMetadata a)")
  case True
  then show ?thesis using assms enqueueAuditTx_frame
    by (fastforce simp: audit_upload_def split: prod.splits)
next
  case False
  then have "st' = st\<lparr>st_audit := st_audit st @ []\<rparr>"
    using assms by (auto simp: audit_upload_def split: prod.splits)
  then show ?thesis by blast
qed

section \<open>Assets\<close>

definition live :: "('a asset_scheme) \<Rightarrow> bool" where
  "live r \<longleftrightarrow> a_deleted r = 0 \<and> a_purged r = 0"

definition getAsset :: "store \<Rightarrow> string \<Rightarrow> bool \<Rightarrow> asset result" where
  "getAsset st i includePurged =
     (case sel1 (\<lambda>r. a_id r = i \<and> (includePurged \<or> a_purged r = 0)) (st_assets st) of
        None \<Rightarrow> Err ErrNotFound
      | Some r \<Rightarrow> Ok (asset.truncate r))"

definition GetAsset :: "store \<Rightarrow> string \<Rightarrow> asset result" where
  "GetAsset st i = getAsset st i False"

definition UPDATE_assets :: "(asset_row \<Rightarrow> bool) \<Rightarrow> (asset_row \<Rightarrow> asset_row) \<Rightarrow> store \<Rightarrow> store" where
  "UPDATE_assets P f st = st\<lparr>st_assets := upd_where P f (st_assets st)\<rparr>"

text \<open>
  The constraints of the schema that the operations rely on: primary keys, the unique
  session of an asset and the unique idempotency scopes.
\<close>

definition wf_assets :: "store \<Rightarrow> bool" where
  "wf_assets st \<longleftrightarrow> keyed a_id (st_assets st)"

definition wf_sessions :: "store \<Rightarrow> bool" where
  "wf_sessions st \<longleftrightarrow> keyed us_asset (st_sessions st)
     \<and> keyed (\<lambda>u. (us_caller u, us_operation u, us_key u)) (st_sessions st)"

definition asset_of :: "store \<Rightarrow> string \<Rightarrow> asset_row option" where
  "asset_of st i = sel1 (\<lambda>r. a_id r = i) (st_assets st)"

lemma asset_of_Some [dest]: "asset_of st i = Some r \<Longrightarrow> r \<in> set (st_assets st) \<and> a_id r = i"
  by (auto simp: asset_of_def dest: sel1_Some)

lemma asset_of_mem:
  assumes "wf_assets st" "r \<in> set (st_assets st)"
  shows "asset_of st (a_id r) = Some r"
  using assms keyed_sel1 [of a_id "st_assets st" r] by (simp add: wf_assets_def asset_of_def)

lemma asset_of_UPDATE:
  assumes "\<And>r. a_id (f r) = a_id r"
  shows "asset_of (UPDATE_assets P f st) i = map_option (\<lambda>r. if P r then f r else r) (asset_of st i)"
  unfolding asset_of_def UPDATE_assets_def
  by (simp add: sel1_upd_where [where k = a_id, OF assms])

lemma wf_assets_UPDATE:
  assumes "\<And>r. a_id (f r) = a_id r"
  shows "wf_assets (UPDATE_assets P f st) = wf_assets st"
  unfolding wf_assets_def UPDATE_assets_def
  by (simp add: keyed_upd_where [where k = a_id, OF assms])

text \<open>An UPDATE by primary key affects a row exactly when the row is there and matches.\<close>

lemma affected_asset:
  assumes "wf_assets st" "\<And>r. P r \<Longrightarrow> a_id r = i"
  shows "affected P (st_assets st) = 1 \<longleftrightarrow> (\<exists>r. asset_of st i = Some r \<and> P r)"
proof -
  have k: "keyed a_id (st_assets st)" using assms(1) by (simp add: wf_assets_def)
  have "affected P (st_assets st) = 1 \<longleftrightarrow> (\<exists>r\<in>set (st_assets st). P r)"
    by (rule affected_one [where x = i, OF k assms(2)])
  also have "\<dots> \<longleftrightarrow> (\<exists>r. asset_of st i = Some r \<and> P r)"
    using assms asset_of_mem asset_of_Some by metis
  finally show ?thesis .
qed

section \<open>A concrete environment\<close>

text \<open>
  The environment the witnesses evaluate in: an audit outbox is attached, a user made the
  request and the digest is the identity.
\<close>

definition demo_env :: env where
  "demo_env = \<lparr>env_audit = True,
     env_provenance = Some \<lparr>pv_actor_type = ''service'', pv_actor_id = ''hhc-web-api'', pv_request = ''r-1''\<rparr>,
     env_new_event = (\<lambda>action resource pv now meta. Some
       \<lparr>ev_id = action @ resource, ev_occurred = now, ev_request = pv_request pv,
        ev_actor_type = pv_actor_type pv, ev_actor_id = pv_actor_id pv, ev_action = action,
        ev_resource = resource, ev_metadata = meta\<rparr>),
     env_equivalent = (\<lambda>_ _. False), env_sha256 = (\<lambda>s. s),
     env_fingerprint = (\<lambda>r. case r of FpCreate a b \<Rightarrow> ''c'' @ a @ b | FpRename a b \<Rightarrow> ''r'' @ a @ b
       | FpDelete a \<Rightarrow> ''d'' @ a | FpDeleteItem a b \<Rightarrow> ''i'' @ a @ b | FpAddItem a b c d e \<Rightarrow> ''n'' @ a @ b @ c @ d @ e
       | _ \<Rightarrow> ''x'')\<rparr>"

end
