(* ===== verification/Store_Uploads.thy ===== *)
theory Store_Uploads
  imports Store_Base
begin

text \<open>
  The upload part of \<open>internal/postgres/store.go\<close>: creating an upload with its session,
  looking it up by its idempotency key, completing and failing it, and the access grants of
  an asset.  The lemmas give the effect of each operation on every branch: which rows change
  and how, that an error leaves the store as it was, and that an upload only moves forward.
\<close>

definition TrustedBulletinWatermark :: string where
  "TrustedBulletinWatermark = ''trusted-bulletin-watermark-v1''"

definition accountCleanupSubjectRef :: "env \<Rightarrow> string \<Rightarrow> string" where
  "accountCleanupSubjectRef env user = env_sha256 env (''asset-account-cleanup:'' @ user)"

section \<open>Creating an upload\<close>

text \<open>The row an INSERT of the sixteen given columns creates: the others take their defaults.\<close>

definition new_asset_row :: "asset \<Rightarrow> asset_row" where
  "new_asset_row a =
     \<lparr>a_id = a_id a, a_namespace = a_namespace a, a_owner_service = a_owner_service a,
      a_owner_type = a_owner_type a, a_owner_id = a_owner_id a, a_purpose = a_purpose a,
      a_locale = a_locale a, a_file_name = a_file_name a, a_object_key = a_object_key a,
      a_expected_mime = a_expected_mime a, a_detected_mime = [], a_size = 0, a_checksum = [],
      a_etag = [], a_upload_status = a_upload_status a, a_scan_status = a_scan_status a,
      a_scan_details = [], a_scan_signature = [], a_scan_failure = [],
      a_processing_status = a_processing_status a, a_visibility = a_visibility a,
      a_created = a_created a, a_updated = a_updated a, a_deleted = 0, a_purged = 0,
      a_scan_attempts = 0, a_scan_event = [], a_processing_attempts = 0,
      a_processing_error = [], a_processing_next = 0, a_processing_claimed = 0,
      ar_scan_next = 0, ar_scan_claimed = 0, ar_purge_next = 0, ar_purge_claimed = 0,
      ar_purge_error = [], ar_download_until = 0\<rparr>"

text \<open>The CHECK constraints of \<open>assets\<close>.\<close>

fun known_visibility :: "visibility \<Rightarrow> bool" where
  "known_visibility (VisibilityOther _) = False"
| "known_visibility _ = True"

fun known_scan :: "scan_status \<Rightarrow> bool" where
  "known_scan (ScanOther _) = False"
| "known_scan _ = True"

definition asset_check :: "asset_row \<Rightarrow> bool" where
  "asset_check r \<longleftrightarrow> known_visibility (a_visibility r) \<and> known_scan (a_scan_status r)
     \<and> (a_scan_status r = ScanPending \<longrightarrow> a_upload_status r = UploadCompleted \<longrightarrow> a_scan_event r \<noteq> [])"

definition INSERT_asset :: "asset \<Rightarrow> store \<Rightarrow> store result" where
  "INSERT_asset a st = bindR
     (insert_row asset_check (\<lambda>r s. a_id r = a_id s \<or> a_object_key r = a_object_key s)
        (new_asset_row a) (st_assets st))
     (\<lambda>t. Ok (st\<lparr>st_assets := t\<rparr>))"

definition INSERT_session :: "upload_session \<Rightarrow> store \<Rightarrow> store result" where
  "INSERT_session u st = bindR
     (insert_row (\<lambda>u. exists_row (\<lambda>r. a_id r = us_asset u) (st_assets st))
        (\<lambda>u v. us_id u = us_id v \<or> us_asset u = us_asset v
             \<or> (us_caller u, us_operation u, us_key u) = (us_caller v, us_operation v, us_key v))
        (u\<lparr>us_completed := 0\<rparr>) (st_sessions st))
     (\<lambda>t. Ok (st\<lparr>st_sessions := t\<rparr>))"

definition account_cleaned :: "env \<Rightarrow> string \<Rightarrow> store \<Rightarrow> bool" where
  "account_cleaned env owner st =
     exists_row (\<lambda>c. cl_subject c = accountCleanupSubjectRef env owner \<and> cl_completed c)
       (st_cleanups st)"

definition CreateUpload :: "env \<Rightarrow> asset \<Rightarrow> upload_session \<Rightarrow> store \<Rightarrow> unit result \<times> store" where
  "CreateUpload env a u st = tx st
     (if a_owner_service a = ''account-api'' \<and> a_namespace a = ''account.avatar''
         \<and> account_cleaned env (a_owner_id a) st
      then Err ErrConflict
      else bindR (INSERT_asset a st) (\<lambda>st1.
           bindR (INSERT_session u st1) (\<lambda>st2.
           bindR (audit_upload env ''asset.upload_session.create'' a (a_created a) st2) (\<lambda>st3.
           Ok ((), st3)))))"

definition GetUploadSession :: "store \<Rightarrow> string \<Rightarrow> upload_session result" where
  "GetUploadSession st i =
     (case sel1 (\<lambda>u. us_asset u = i) (st_sessions st) of
        None \<Rightarrow> Err ErrNotFound
      | Some u \<Rightarrow> Ok u)"

definition FindUploadByIdempotency ::
  "store \<Rightarrow> string \<Rightarrow> string \<Rightarrow> string \<Rightarrow> (asset \<times> upload_session) result" where
  "FindUploadByIdempotency st caller operation key =
     (case sel1 (\<lambda>u. us_caller u = caller \<and> us_operation u = operation \<and> us_key u = key)
            (st_sessions st) of
        None \<Rightarrow> Err ErrNotFound
      | Some u \<Rightarrow>
          bindR (getAsset st (us_asset u) True) (\<lambda>a.
          bindR (GetUploadSession st (us_asset u)) (\<lambda>s. Ok (a, s))))"

section \<open>Completing and failing an upload\<close>

text \<open>\<open>SELECT a.upload_status, u.status ... JOIN\<close> of an unpurged asset and its session.\<close>

definition upload_state :: "store \<Rightarrow> string \<Rightarrow> (upload_status \<times> upload_status) option" where
  "upload_state st i =
     (case sel1 (\<lambda>r. a_id r = i \<and> a_purged r = 0) (st_assets st) of
        None \<Rightarrow> None
      | Some r \<Rightarrow> (case sel1 (\<lambda>u. us_asset u = i) (st_sessions st) of
                     None \<Rightarrow> None
                   | Some u \<Rightarrow> Some (a_upload_status r, us_status u)))"

definition trusted_asset :: "asset \<Rightarrow> bool" where
  "trusted_asset a \<longleftrightarrow> a_scan_status a = ScanClean \<and> a_scan_signature a = TrustedBulletinWatermark"

definition complete_row :: "asset \<Rightarrow> scan_request \<Rightarrow> asset_row \<Rightarrow> asset_row" where
  "complete_row a q r = r\<lparr>a_detected_mime := a_detected_mime a, a_size := a_size a,
     a_checksum := a_checksum a, a_etag := a_etag a, a_upload_status := a_upload_status a,
     a_scan_status := a_scan_status a, a_scan_event := sr_event q, a_updated := a_updated a,
     a_scan_signature := a_scan_signature a, a_scan_details := a_scan_details a\<rparr>"

definition new_outbox_row :: "string \<Rightarrow> string \<Rightarrow> string \<Rightarrow> time \<Rightarrow> outbox_row" where
  "new_outbox_row ev i etag t = \<lparr>ob_event = ev, ob_asset = i, ob_etag = etag, ob_attempts = 0,
     ob_available = t, ob_claimed = 0, ob_delivered = 0, ob_error = [], ob_created = t\<rparr>"

definition INSERT_scan_outbox :: "scan_request \<Rightarrow> store \<Rightarrow> store result" where
  "INSERT_scan_outbox q st = bindR
     (insert_row (\<lambda>o'. ob_event o' \<noteq> [] \<and> ob_etag o' \<noteq> []
                    \<and> exists_row (\<lambda>r. a_id r = ob_asset o') (st_assets st))
        (\<lambda>o' p. ob_event o' = ob_event p)
        (new_outbox_row (sr_event q) (sr_asset q) (sr_etag q) (sr_created q)) (st_scan_outbox st))
     (\<lambda>t. Ok (st\<lparr>st_scan_outbox := t\<rparr>))"

definition complete_input_ok :: "asset \<Rightarrow> scan_request \<Rightarrow> bool" where
  "complete_input_ok a q \<longleftrightarrow>
     \<not> ((trusted_asset a \<and> q \<noteq> zero_request)
        \<or> (\<not> trusted_asset a \<and> (sr_event q = [] \<or> sr_asset q \<noteq> a_id a \<or> sr_etag q = []
             \<or> sr_etag q \<noteq> a_etag a \<or> sr_created q = 0)))"

definition CompleteUpload ::
  "env \<Rightarrow> asset \<Rightarrow> upload_session \<Rightarrow> scan_request \<Rightarrow> store \<Rightarrow> unit result \<times> store" where
  "CompleteUpload env a u q st = tx st
     (if \<not> complete_input_ok a q then Err ErrInvalidInput
      else case upload_state st (a_id a) of
        None \<Rightarrow> Err ErrNotFound
      | Some (sa, su) \<Rightarrow>
          if sa = UploadCompleted \<and> su = UploadCompleted then Ok ((), st)
          else if sa \<noteq> UploadCreated \<or> su \<noteq> UploadCreated then Err ErrConflict
          else
            let P = (\<lambda>r. a_id r = a_id a);
                st1 = UPDATE_assets P (complete_row a q) st;
                S = (\<lambda>s. us_asset s = a_id a);
                st2 = st1\<lparr>st_sessions := upd_where S
                        (\<lambda>s. s\<lparr>us_status := us_status u, us_completed := us_completed u\<rparr>)
                        (st_sessions st1)\<rparr>
            in if \<exists>r\<in>set (st_assets st1). P r \<and> \<not> asset_check r then Err check_violation
               else if affected P (st_assets st) \<noteq> 1 then Err ErrNotFound
               else if affected S (st_sessions st) \<noteq> 1 then Err ErrNotFound
               else bindR (if trusted_asset a then Ok st2 else INSERT_scan_outbox q st2) (\<lambda>st3.
                    bindR (audit_upload env ''asset.upload.complete'' a (a_updated a) st3) (\<lambda>st4.
                    Ok ((), st4))))"

definition FailUpload :: "string \<Rightarrow> time \<Rightarrow> store \<Rightarrow> unit result \<times> store" where
  "FailUpload i now st = tx st
     (case upload_state st i of
        None \<Rightarrow> Err ErrNotFound
      | Some (sa, su) \<Rightarrow>
          if sa = UploadFailed \<and> su = UploadFailed then Ok ((), st)
          else if sa \<noteq> UploadCreated \<or> su \<noteq> UploadCreated then Err ErrConflict
          else
            let st1 = UPDATE_assets (\<lambda>r. a_id r = i)
                        (\<lambda>r. r\<lparr>a_upload_status := UploadFailed, a_updated := now\<rparr>) st;
                S = (\<lambda>s. us_asset s = i)
            in if affected S (st_sessions st) \<noteq> 1 then Err ErrConflict
               else Ok ((), st1\<lparr>st_sessions := upd_where S (\<lambda>s. s\<lparr>us_status := UploadFailed\<rparr>)
                                  (st_sessions st1)\<rparr>))"

section \<open>Grants\<close>

fun known_subject :: "subject_type \<Rightarrow> bool" where
  "known_subject (SubjectOther _) = False"
| "known_subject _ = True"

fun known_permission :: "permission \<Rightarrow> bool" where
  "known_permission (PermissionOther _) = False"
| "known_permission _ = True"

definition same_scope :: "grant \<Rightarrow> grant \<Rightarrow> bool" where
  "same_scope g h \<longleftrightarrow> g_caller g = g_caller h \<and> g_operation g = g_operation h \<and> g_key g = g_key h"

text \<open>
  \<open>INSERT ... ON CONFLICT (caller_service, operation, idempotency_key) DO NOTHING\<close>, then the
  row of that scope: a replay answers with the stored grant.
\<close>

definition CreateGrant :: "grant \<Rightarrow> store \<Rightarrow> grant result \<times> store" where
  "CreateGrant g st =
     (if \<not> known_subject (g_subject_type g) \<or> \<not> known_permission (g_permission g)
      then (Err check_violation, st)
      else case sel1 (\<lambda>h. same_scope g h) (st_grants st) of
        Some h \<Rightarrow> (Ok h, st)
      | None \<Rightarrow>
          if exists_row (\<lambda>h. g_id h = g_id g) (st_grants st) then (Err unique_violation, st)
          else if \<not> exists_row (\<lambda>r. a_id r = g_asset g) (st_assets st) then (Err check_violation, st)
          else (let row = g\<lparr>g_revoked := 0\<rparr> in
                (Ok row, st\<lparr>st_grants := st_grants st @ [row]\<rparr>)))"

definition RevokeGrant :: "env \<Rightarrow> string \<Rightarrow> string \<Rightarrow> time \<Rightarrow> store \<Rightarrow> unit result \<times> store" where
  "RevokeGrant env assetID grantID now st = tx st
     (let P = (\<lambda>g. g_id g = grantID \<and> g_asset g = assetID \<and> g_revoked g = 0) in
      case sel1 P (st_grants st) of
        None \<Rightarrow> Err ErrNotFound
      | Some g \<Rightarrow>
          if affected P (st_grants st) \<noteq> 1 then Err ErrNotFound
          else
            let st1 = st\<lparr>st_grants := upd_where P (\<lambda>g. g\<lparr>g_revoked := now\<rparr>) (st_grants st)\<rparr>
            in if g_subject_type g = SubjectPublic
               then bindR (enqueueAuditTx env ''asset.public_grant.revoke'' assetID [] now st1)
                      (\<lambda>st2. Ok ((), st2))
               else Ok ((), st1))"

definition HasActiveGrant ::
  "store \<Rightarrow> string \<Rightarrow> subject_type \<Rightarrow> string \<Rightarrow> permission \<Rightarrow> time \<Rightarrow> bool" where
  "HasActiveGrant st assetID subject subjectID permission now =
     exists_row (\<lambda>g. g_asset g = assetID \<and> g_subject_type g = subject \<and> g_subject_id g = subjectID
        \<and> g_permission g = permission \<and> g_revoked g = 0 \<and> (g_expires g = 0 \<or> g_expires g > now))
       (st_grants st)"

section \<open>What the operations do\<close>

lemma complete_row_keeps [simp, key_keep]:
  "a_id (complete_row a q r) = a_id r" "a_purged (complete_row a q r) = a_purged r"
  "a_deleted (complete_row a q r) = a_deleted r"
  "a_upload_status (complete_row a q r) = a_upload_status a"
  by (simp_all add: complete_row_def)

lemma upload_state_Some:
  "upload_state st i = Some (x, y) \<longleftrightarrow>
     (\<exists>r u. sel1 (\<lambda>r. a_id r = i \<and> a_purged r = 0) (st_assets st) = Some r
        \<and> sel1 (\<lambda>u. us_asset u = i) (st_sessions st) = Some u
        \<and> a_upload_status r = x \<and> us_status u = y)"
  by (auto simp: upload_state_def split: option.splits)

text \<open>Updating the asset and the session of an upload updates the state the join reads.\<close>

lemma sel1_upd_upd:
  assumes "\<And>r. P (f r) = P r" "\<And>r. P r \<Longrightarrow> Q r"
  shows "sel1 P (upd_where Q f t) = map_option f (sel1 P t)"
  using assms by (induction t) auto

lemma upload_state_upd:
  assumes "upload_state st i = Some s"
    and f: "\<And>r. a_id (f r) = a_id r" "\<And>r. a_purged (f r) = a_purged r"
           "\<And>r. a_upload_status (f r) = x"
    and g: "\<And>u. us_asset (g u) = us_asset u" "\<And>u. us_status (g u) = y"
    and st': "st_assets st' = upd_where (\<lambda>r. a_id r = i) f (st_assets st)"
             "st_sessions st' = upd_where (\<lambda>u. us_asset u = i) g (st_sessions st)"
  shows "upload_state st' i = Some (x, y)"
proof -
  have "sel1 (\<lambda>r. a_id r = i \<and> a_purged r = 0) (st_assets st')
      = map_option f (sel1 (\<lambda>r. a_id r = i \<and> a_purged r = 0) (st_assets st))"
    unfolding st' by (rule sel1_upd_upd) (use f in auto)
  moreover have "sel1 (\<lambda>u. us_asset u = i) (st_sessions st')
      = map_option g (sel1 (\<lambda>u. us_asset u = i) (st_sessions st))"
    unfolding st' by (rule sel1_upd_upd) (use g in auto)
  ultimately show ?thesis
    using assms(1) f(3) g(2) by (cases s) (auto simp: upload_state_Some)
qed

text \<open>
  The effect of a completion that found the upload open: exactly the asset row, the session
  and (for an untrusted upload) one scan request change.
\<close>

definition completed_store ::
  "asset \<Rightarrow> upload_session \<Rightarrow> scan_request \<Rightarrow> store \<Rightarrow> audit_event list \<Rightarrow> store" where
  "completed_store a u q st evs =
     st\<lparr>st_assets := upd_where (\<lambda>r. a_id r = a_id a) (complete_row a q) (st_assets st),
        st_sessions := upd_where (\<lambda>s. us_asset s = a_id a)
          (\<lambda>s. s\<lparr>us_status := us_status u, us_completed := us_completed u\<rparr>) (st_sessions st),
        st_scan_outbox := st_scan_outbox st @ (if trusted_asset a then []
          else [new_outbox_row (sr_event q) (sr_asset q) (sr_etag q) (sr_created q)]),
        st_audit := st_audit st @ evs\<rparr>"

lemma INSERT_scan_outbox_Ok:
  "INSERT_scan_outbox q st = Inr st' \<longleftrightarrow>
     sr_event q \<noteq> [] \<and> sr_etag q \<noteq> [] \<and> (\<exists>r\<in>set (st_assets st). a_id r = sr_asset q)
     \<and> (\<forall>p\<in>set (st_scan_outbox st). ob_event p \<noteq> sr_event q)
     \<and> st' = st\<lparr>st_scan_outbox := st_scan_outbox st
            @ [new_outbox_row (sr_event q) (sr_asset q) (sr_etag q) (sr_created q)]\<rparr>"
  by (auto simp: INSERT_scan_outbox_def new_outbox_row_def)

lemma CompleteUpload_cases:
  assumes "CompleteUpload env a u q st = (Ok (), st')"
  obtains (replay) "complete_input_ok a q"
      "upload_state st (a_id a) = Some (UploadCompleted, UploadCompleted)" "st' = st"
  | (fresh) evs where "complete_input_ok a q"
      "upload_state st (a_id a) = Some (UploadCreated, UploadCreated)"
      "\<not> trusted_asset a \<Longrightarrow> \<forall>p\<in>set (st_scan_outbox st). ob_event p \<noteq> sr_event q"
      "st' = completed_store a u q st evs"
proof -
  note assms' = assms [unfolded CompleteUpload_def Let_def tx_Ok]
  show thesis
  proof (cases "upload_state st (a_id a) = Some (UploadCompleted, UploadCompleted)")
    case True
    then show thesis using assms' replay by (auto split: if_splits)
  next
    case False
    then have ok: "complete_input_ok a q"
      and open': "upload_state st (a_id a) = Some (UploadCreated, UploadCreated)"
      using assms' by (auto split: if_splits option.splits prod.splits)
    from assms' ok open' obtain st3 where
      st3: "(if trusted_asset a then Ok (UPDATE_assets (\<lambda>r. a_id r = a_id a) (complete_row a q) st
               \<lparr>st_sessions := upd_where (\<lambda>s. us_asset s = a_id a)
                  (\<lambda>s. s\<lparr>us_status := us_status u, us_completed := us_completed u\<rparr>)
                  (st_sessions (UPDATE_assets (\<lambda>r. a_id r = a_id a) (complete_row a q) st))\<rparr>)
             else INSERT_scan_outbox q (UPDATE_assets (\<lambda>r. a_id r = a_id a) (complete_row a q) st
               \<lparr>st_sessions := upd_where (\<lambda>s. us_asset s = a_id a)
                  (\<lambda>s. s\<lparr>us_status := us_status u, us_completed := us_completed u\<rparr>)
                  (st_sessions (UPDATE_assets (\<lambda>r. a_id r = a_id a) (complete_row a q) st))\<rparr>))
             = Inr st3"
      and audit: "audit_upload env ''asset.upload.complete'' a (a_updated a) st3 = Inr st'"
      by (auto split: if_splits)
    obtain evs where evs: "st' = st3\<lparr>st_audit := st_audit st3 @ evs\<rparr>"
      using audit_upload_frame [OF audit] by blast
    have "st' = completed_store a u q st evs"
    proof (cases "trusted_asset a")
      case True
      then show ?thesis
        using st3 [symmetric] evs by (simp add: completed_store_def UPDATE_assets_def)
    next
      case False
      then show ?thesis
        using st3 [symmetric] evs
        by (simp add: completed_store_def UPDATE_assets_def INSERT_scan_outbox_Ok eq_commute [of "Inr st3"])
    qed
    moreover have "\<not> trusted_asset a \<Longrightarrow> \<forall>p\<in>set (st_scan_outbox st). ob_event p \<noteq> sr_event q"
      using st3 by (simp add: INSERT_scan_outbox_Ok UPDATE_assets_def)
    ultimately show thesis using fresh ok open' by blast
  qed
qed

lemma completed_store_state:
  assumes "upload_state st (a_id a) = Some s"
  shows "upload_state (completed_store a u q st evs) (a_id a) = Some (a_upload_status a, us_status u)"
  by (rule upload_state_upd [OF assms,
        where f = "complete_row a q" and g = "\<lambda>s. s\<lparr>us_status := us_status u, us_completed := us_completed u\<rparr>"])
     (simp_all add: completed_store_def)

lemma INSERT_scan_outbox_Err:
  "INSERT_scan_outbox q st = Inl e \<Longrightarrow> e = check_violation \<or> e = unique_violation"
  by (auto simp: INSERT_scan_outbox_def insert_row_def bindR_Err_iff split: if_splits)

lemma audit_upload_Err: "audit_upload env action a now st = Inl e \<Longrightarrow> e = ErrAuditUnavailable"
  by (auto simp: audit_upload_def split: prod.splits if_splits dest: enqueueAuditTx_Err)

lemma not_conflict [simp]:
  "INSERT_scan_outbox q st \<noteq> Inl ErrConflict"
  "audit_upload env action a now st \<noteq> Inl ErrConflict"
  using INSERT_scan_outbox_Err [of q st ErrConflict] audit_upload_Err [of env action a now st ErrConflict]
  by (auto simp: check_violation_def unique_violation_def)

lemma FailUpload_cases:
  assumes "FailUpload i now st = (Ok (), st')"
  obtains (replay) "upload_state st i = Some (UploadFailed, UploadFailed)" "st' = st"
  | (fresh) "upload_state st i = Some (UploadCreated, UploadCreated)"
      "st' = st\<lparr>st_assets := upd_where (\<lambda>r. a_id r = i)
                 (\<lambda>r. r\<lparr>a_upload_status := UploadFailed, a_updated := now\<rparr>) (st_assets st),
                st_sessions := upd_where (\<lambda>s. us_asset s = i)
                 (\<lambda>s. s\<lparr>us_status := UploadFailed\<rparr>) (st_sessions st)\<rparr>"
proof -
  obtain sa su where s: "upload_state st i = Some (sa, su)"
    using assms by (cases "upload_state st i") (auto simp: FailUpload_def Let_def)
  show thesis
  proof (cases "sa = UploadFailed \<and> su = UploadFailed")
    case True
    show thesis
    proof (rule replay)
      show "upload_state st i = Some (UploadFailed, UploadFailed)" using s True by simp
      show "st' = st" using assms s True by (simp add: FailUpload_def)
    qed
  next
    case False
    with assms s have c: "sa = UploadCreated" "su = UploadCreated"
      by (simp_all add: FailUpload_def Let_def split: if_split_asm)
    show thesis
    proof (rule fresh)
      show "upload_state st i = Some (UploadCreated, UploadCreated)" using s c by simp
      show "st' = st\<lparr>st_assets := upd_where (\<lambda>r. a_id r = i)
                 (\<lambda>r. r\<lparr>a_upload_status := UploadFailed, a_updated := now\<rparr>) (st_assets st),
                st_sessions := upd_where (\<lambda>s. us_asset s = i)
                 (\<lambda>s. s\<lparr>us_status := UploadFailed\<rparr>) (st_sessions st)\<rparr>"
        using assms s c by (simp add: FailUpload_def Let_def UPDATE_assets_def split: if_split_asm)
    qed
  qed
qed

lemma CreateUpload_cases:
  assumes "CreateUpload env a u st = (Ok (), st')"
  obtains evs where
    "asset_check (new_asset_row a)"
    "\<forall>s\<in>set (st_assets st). a_id a \<noteq> a_id s \<and> a_object_key a \<noteq> a_object_key s"
    "\<forall>v\<in>set (st_sessions st). us_id u \<noteq> us_id v \<and> us_asset u \<noteq> us_asset v
        \<and> (us_caller u, us_operation u, us_key u) \<noteq> (us_caller v, us_operation v, us_key v)"
    "\<not> (a_owner_service a = ''account-api'' \<and> a_namespace a = ''account.avatar''
        \<and> account_cleaned env (a_owner_id a) st)"
    "st' = st\<lparr>st_assets := st_assets st @ [new_asset_row a],
              st_sessions := st_sessions st @ [u\<lparr>us_completed := 0\<rparr>],
              st_audit := st_audit st @ evs\<rparr>"
proof -
  obtain st1 st2 where
    1: "INSERT_asset a st = Inr st1" and 2: "INSERT_session u st1 = Inr st2"
    and 3: "audit_upload env ''asset.upload_session.create'' a (a_created a) st2 = Inr st'"
    and 4: "\<not> (a_owner_service a = ''account-api'' \<and> a_namespace a = ''account.avatar''
        \<and> account_cleaned env (a_owner_id a) st)"
    using assms unfolding CreateUpload_def tx_Ok by (auto split: if_splits)
  obtain evs where 5: "st' = st2\<lparr>st_audit := st_audit st2 @ evs\<rparr>"
    using audit_upload_frame [OF 3] by blast
  show thesis
    by (rule that [of evs])
       (use 1 2 4 5 in \<open>auto simp: INSERT_asset_def INSERT_session_def new_asset_row_def\<close>)
qed

lemmas upload_cases = CreateUpload_cases CompleteUpload_cases FailUpload_cases

lemma new_asset_row_simps [simp]:
  "a_id (new_asset_row a) = a_id a" "a_purged (new_asset_row a) = 0"
  "a_deleted (new_asset_row a) = 0" "a_upload_status (new_asset_row a) = a_upload_status a"
  by (simp_all add: new_asset_row_def)

text \<open>Creation keeps the keys of both tables.\<close>

lemma CreateUpload_wf:
  assumes "CreateUpload env a u st = (Ok (), st')" "wf_assets st" "wf_sessions st"
  shows "wf_assets st' \<and> wf_sessions st'"
proof -
  obtain evs where
    a: "\<forall>s\<in>set (st_assets st). a_id a \<noteq> a_id s \<and> a_object_key a \<noteq> a_object_key s"
    and u: "\<forall>v\<in>set (st_sessions st). us_id u \<noteq> us_id v \<and> us_asset u \<noteq> us_asset v
        \<and> (us_caller u, us_operation u, us_key u) \<noteq> (us_caller v, us_operation v, us_key v)"
    and st': "st' = st\<lparr>st_assets := st_assets st @ [new_asset_row a],
              st_sessions := st_sessions st @ [u\<lparr>us_completed := 0\<rparr>],
              st_audit := st_audit st @ evs\<rparr>"
    using CreateUpload_cases [OF assms(1)] by metis
  have "wf_assets st'"
    using assms(2) a by (auto simp: wf_assets_def st')
  moreover have "wf_sessions st'"
    using assms(3) u by (auto simp: wf_sessions_def st')
  ultimately show ?thesis by blast
qed

section \<open>Properties\<close>

definition demo_upload :: asset where
  "demo_upload = zero_asset\<lparr>a_id := ''a1'', a_namespace := ''cms.weekly.pdf'',
     a_owner_service := ''hhc-web-api'', a_owner_type := ''bulletin_issue'', a_owner_id := ''7'',
     a_purpose := ''weekly_bulletin'', a_object_key := ''k1'', a_expected_mime := ''application/pdf'',
     a_scan_status := ScanPending, a_processing_status := ProcessingNotRequired,
     a_visibility := VisibilityPrivate, a_created := 5, a_updated := 5\<rparr>"

definition demo_session :: upload_session where
  "demo_session = \<lparr>us_id = ''s1'', us_asset = ''a1'', us_key = ''key'', us_caller = ''hhc-web-api'',
     us_operation = ''create_upload'', us_fingerprint = ''fp'', us_staging_key = ''staging'',
     us_max_size = 100, us_status = UploadCreated, us_expires = 50, us_created = 5, us_completed = 0\<rparr>"

definition demo_opened :: store where
  "demo_opened = snd (CreateUpload demo_env demo_upload demo_session empty_store)"

definition demo_completed_asset :: asset where
  "demo_completed_asset = demo_upload\<lparr>a_detected_mime := ''application/pdf'', a_size := 10,
     a_checksum := ''sum'', a_etag := ''e1'', a_upload_status := UploadCompleted, a_updated := 9\<rparr>"

definition demo_completed_session :: upload_session where
  "demo_completed_session = demo_session\<lparr>us_status := UploadCompleted, us_completed := 9\<rparr>"

definition demo_request :: scan_request where
  "demo_request = \<lparr>sr_event = ''ev'', sr_asset = ''a1'', sr_etag = ''e1'', sr_attempts = 0, sr_created = 9\<rparr>"

lemmas demo_defs = demo_env_def demo_upload_def demo_session_def demo_opened_def
  demo_completed_asset_def demo_completed_session_def demo_request_def empty_store_def zero_asset_def

lemmas upload_eval = CreateUpload_def INSERT_asset_def INSERT_session_def insert_row_def
  new_asset_row_def asset_check_def audit_upload_def auditUploadMetadata_def audited_uploads_def
  upload_tuple_def enqueueAuditTx_def EnqueueTx_def CompleteUpload_def complete_input_ok_def
  trusted_asset_def TrustedBulletinWatermark_def upload_state_def UPDATE_assets_def
  complete_row_def INSERT_scan_outbox_def new_outbox_row_def FailUpload_def Let_def zero_request_def

text \<open>
  A completion that found its upload open changes exactly the row of the asset (with the
  inspected MIME type, size, checksum and ETag), the session, and, unless the asset carries
  the trusted watermark signature, appends one scan request whose event was not in the outbox;
  every other table but the audit outbox is untouched.
\<close>

theorem complete_upload_effect:
  assumes "CompleteUpload env a u q st = (Ok (), st')"
    and "upload_state st (a_id a) = Some (UploadCreated, su)"
  shows "\<exists>evs. st' = completed_store a u q st evs \<and> su = UploadCreated \<and> complete_input_ok a q
           \<and> (trusted_asset a \<or> sr_event q \<notin> ob_event ` set (st_scan_outbox st))"
  using assms(1)
proof (cases rule: CompleteUpload_cases)
  case replay
  then show ?thesis using assms(2) by simp
next
  case (fresh evs)
  then show ?thesis using assms(2) by (intro exI [of _ evs]) (cases "trusted_asset a"; auto)
qed

lemma demo_opened_state: "upload_state demo_opened ''a1'' = Some (UploadCreated, UploadCreated)"
  by (simp add: demo_defs upload_eval)

lemma demo_complete_ok:
  "fst (CompleteUpload demo_env demo_completed_asset demo_completed_session demo_request demo_opened) = Ok ()"
  by (simp add: demo_defs upload_eval)

theorem complete_upload_effect_witness:
  "\<exists>evs. snd (CompleteUpload demo_env demo_completed_asset demo_completed_session demo_request demo_opened)
       = completed_store demo_completed_asset demo_completed_session demo_request demo_opened evs"
proof -
  have "CompleteUpload demo_env demo_completed_asset demo_completed_session demo_request demo_opened
      = (Ok (), snd (CompleteUpload demo_env demo_completed_asset demo_completed_session demo_request demo_opened))"
    using demo_complete_ok by (simp add: prod_eq_iff)
  from complete_upload_effect [OF this] demo_opened_state show ?thesis
    by (simp add: demo_completed_asset_def demo_upload_def)
qed

text \<open>
  A refused completion leaves the store as it was, and it is refused as a conflict exactly
  when the request is well-formed and the upload or its session is in a state that is neither
  open nor completed on both sides.
\<close>

theorem complete_upload_refused:
  "(\<forall>e. fst (CompleteUpload env a u q st) = Inl e \<longrightarrow> snd (CompleteUpload env a u q st) = st)
   \<and> (fst (CompleteUpload env a u q st) = Inl ErrConflict \<longleftrightarrow> complete_input_ok a q
     \<and> (\<exists>s. upload_state st (a_id a) = Some s
           \<and> s \<notin> {(UploadCreated, UploadCreated), (UploadCompleted, UploadCompleted)}))"
proof (intro conjI allI impI)
  fix e assume "fst (CompleteUpload env a u q st) = Inl e"
  then show "snd (CompleteUpload env a u q st) = st"
    unfolding CompleteUpload_def by (rule tx_rollback)
next
  show "fst (CompleteUpload env a u q st) = Inl ErrConflict \<longleftrightarrow> complete_input_ok a q
     \<and> (\<exists>s. upload_state st (a_id a) = Some s
           \<and> s \<notin> {(UploadCreated, UploadCreated), (UploadCompleted, UploadCompleted)})"
  proof (cases "upload_state st (a_id a)")
    case None
    then show ?thesis by (simp add: CompleteUpload_def)
  next
    case (Some s)
    obtain sa su where s: "s = (sa, su)" by (cases s)
    show ?thesis
    proof (cases "sa = UploadCreated \<and> su = UploadCreated")
      case True
      then show ?thesis using Some s
        by (auto simp: CompleteUpload_def Let_def bindR_Err_iff check_violation_def)
    next
      case False
      then show ?thesis using Some s by (auto simp: CompleteUpload_def)
    qed
  qed
qed

theorem complete_upload_refused_witness:
  "fst (CompleteUpload demo_env demo_completed_asset demo_completed_session demo_request
     (snd (FailUpload ''a1'' 8 demo_opened))) = Inl ErrConflict"
proof -
  have "upload_state (snd (FailUpload ''a1'' 8 demo_opened)) ''a1'' = Some (UploadFailed, UploadFailed)"
    by (simp add: demo_defs upload_eval)
  moreover have "complete_input_ok demo_completed_asset demo_request"
    by (simp add: demo_defs upload_eval)
  moreover have "a_id demo_completed_asset = ''a1''" by (simp add: demo_defs)
  ultimately show ?thesis
    using complete_upload_refused [of demo_env demo_completed_asset demo_completed_session
        demo_request "snd (FailUpload ''a1'' 8 demo_opened)"] by simp
qed

text \<open>
  C1.  A completed upload is final: once a completion with completed states has succeeded, any
  further well-formed completion of that asset succeeds without changing the store, and
  failing the upload is refused as a conflict without changing the store.
\<close>

theorem completed_upload_final:
  assumes "CompleteUpload env a u q st = (Ok (), st')"
    and "a_upload_status a = UploadCompleted" "us_status u = UploadCompleted"
    and "a_id b = a_id a" "complete_input_ok b p"
  shows "CompleteUpload env' b v p st' = (Ok (), st')
       \<and> FailUpload (a_id a) now st' = (Err ErrConflict, st')"
proof -
  have "upload_state st' (a_id a) = Some (UploadCompleted, UploadCompleted)"
    using assms(1)
  proof (cases rule: CompleteUpload_cases)
    case replay
    then show ?thesis by simp
  next
    case (fresh evs)
    then show ?thesis using completed_store_state [OF fresh(2), of u q evs] assms(2,3) by simp
  qed
  then show ?thesis using assms(4,5) by (simp add: CompleteUpload_def FailUpload_def)
qed

theorem completed_upload_final_witness:
  "(let st' = snd (CompleteUpload demo_env demo_completed_asset demo_completed_session demo_request demo_opened)
    in CompleteUpload demo_env demo_completed_asset demo_completed_session demo_request st' = (Ok (), st')
     \<and> FailUpload ''a1'' 20 st' = (Err ErrConflict, st'))"
proof -
  let ?r = "CompleteUpload demo_env demo_completed_asset demo_completed_session demo_request demo_opened"
  have 1: "?r = (Ok (), snd ?r)" using demo_complete_ok by (simp add: prod_eq_iff)
  have 2: "complete_input_ok demo_completed_asset demo_request" by (simp add: demo_defs upload_eval)
  show ?thesis
    using completed_upload_final [OF 1 _ _ refl 2] demo_complete_ok
    by (simp add: Let_def) (simp add: demo_completed_asset_def demo_completed_session_def demo_upload_def)
qed

text \<open>
  An upload that was created is found again under its caller, operation and idempotency
  key, as the very row and session that were inserted, so a retried request meets the first
  one; an account whose data was erased cannot open a new avatar upload.
\<close>

theorem create_upload_found:
  assumes "CreateUpload env a u st = (Ok (), st')" and "us_asset u = a_id a"
  shows "FindUploadByIdempotency st' (us_caller u) (us_operation u) (us_key u)
           = Ok (asset.truncate (new_asset_row a), u\<lparr>us_completed := 0\<rparr>)
       \<and> \<not> (a_owner_service a = ''account-api'' \<and> a_namespace a = ''account.avatar''
             \<and> account_cleaned env (a_owner_id a) st)"
proof -
  obtain evs where
    a: "\<forall>s\<in>set (st_assets st). a_id a \<noteq> a_id s \<and> a_object_key a \<noteq> a_object_key s"
    and u: "\<forall>v\<in>set (st_sessions st). us_id u \<noteq> us_id v \<and> us_asset u \<noteq> us_asset v
        \<and> (us_caller u, us_operation u, us_key u) \<noteq> (us_caller v, us_operation v, us_key v)"
    and acc: "\<not> (a_owner_service a = ''account-api'' \<and> a_namespace a = ''account.avatar''
        \<and> account_cleaned env (a_owner_id a) st)"
    and st': "st' = st\<lparr>st_assets := st_assets st @ [new_asset_row a],
              st_sessions := st_sessions st @ [u\<lparr>us_completed := 0\<rparr>],
              st_audit := st_audit st @ evs\<rparr>"
    using CreateUpload_cases [OF assms(1)] by metis
  have "sel1 (\<lambda>v. us_caller v = us_caller u \<and> us_operation v = us_operation u \<and> us_key v = us_key u)
          (st_sessions st) = None"
    using u by (auto simp: sel1_None)
  moreover have "sel1 (\<lambda>v. us_asset v = a_id a) (st_sessions st) = None"
    using u assms(2) by (auto simp: sel1_None)
  moreover have "sel1 (\<lambda>r. a_id r = a_id a) (st_assets st) = None"
    using a by (auto simp: sel1_None)
  ultimately show ?thesis
    using acc assms(2)
    by (simp add: FindUploadByIdempotency_def GetUploadSession_def getAsset_def st' sel1_append)
qed

theorem create_upload_found_witness:
  "FindUploadByIdempotency demo_opened ''hhc-web-api'' ''create_upload'' ''key''
     = Ok (asset.truncate (new_asset_row demo_upload), demo_session)"
proof -
  have "CreateUpload demo_env demo_upload demo_session empty_store = (Ok (), demo_opened)"
    by (simp add: demo_opened_def prod_eq_iff) (simp add: demo_defs upload_eval)
  from create_upload_found [OF this] show ?thesis
    by (simp add: demo_session_def demo_upload_def)
qed

text \<open>
  Granting is idempotent in its scope (caller, operation, key): after a grant was stored,
  repeating any request of the same scope answers with the stored grant and changes nothing.
\<close>

theorem create_grant_replay:
  assumes "CreateGrant g st = (Ok h, st')" "same_scope g k"
    and "known_subject (g_subject_type k)" "known_permission (g_permission k)"
  shows "CreateGrant k st' = (Ok h, st') \<and> same_scope g h"
proof -
  have eq: "same_scope k = same_scope g" using assms(2) by (auto simp: same_scope_def fun_eq_iff)
  show ?thesis
  proof (cases "sel1 (\<lambda>h. same_scope g h) (st_grants st)")
    case None
    then have "h = g\<lparr>g_revoked := 0\<rparr>" "st' = st\<lparr>st_grants := st_grants st @ [g\<lparr>g_revoked := 0\<rparr>]\<rparr>"
      using assms(1) by (auto simp: CreateGrant_def Let_def split: if_splits)
    then show ?thesis using None assms(3,4)
      by (simp add: CreateGrant_def eq sel1_append) (simp add: same_scope_def)
  next
    case (Some h')
    then have "h' = h" "st' = st" using assms(1) by (auto simp: CreateGrant_def split: if_splits)
    then show ?thesis using Some assms(3,4) by (auto simp: CreateGrant_def eq)
  qed
qed

definition demo_grant :: grant where
  "demo_grant = \<lparr>g_id = ''g1'', g_asset = ''a1'', g_subject_type = SubjectPublic, g_subject_id = '''',
     g_permission = PermissionRead, g_key = ''gk'', g_caller = ''hhc-web-api'', g_operation = ''create_grant'',
     g_fingerprint = ''gf'', g_expires = 0, g_created = 9, g_revoked = 0\<rparr>"

lemma demo_granted:
  "CreateGrant demo_grant demo_opened = (Ok demo_grant, demo_opened\<lparr>st_grants := [demo_grant]\<rparr>)"
  by (simp add: demo_grant_def CreateGrant_def demo_defs upload_eval)

theorem create_grant_replay_witness:
  "CreateGrant (demo_grant\<lparr>g_id := ''g2''\<rparr>) (demo_opened\<lparr>st_grants := [demo_grant]\<rparr>)
     = (Ok demo_grant, demo_opened\<lparr>st_grants := [demo_grant]\<rparr>)"
proof -
  have s: "same_scope demo_grant (demo_grant\<lparr>g_id := ''g2''\<rparr>)" by (simp add: same_scope_def)
  show ?thesis
    using create_grant_replay [OF demo_granted s] by (simp add: demo_grant_def)
qed

text \<open>
  Revoking a grant ends it at once and ends nothing else: afterwards a subject has access
  exactly when another grant than the revoked one gives it.
\<close>

theorem revoke_grant_effect:
  assumes "RevokeGrant env i gid now st = (Ok (), st')" "keyed g_id (st_grants st)" "now \<noteq> 0"
  shows "HasActiveGrant st' j subject sid perm t \<longleftrightarrow>
     HasActiveGrant (st\<lparr>st_grants := del_where (\<lambda>g. g_id g = gid) (st_grants st)\<rparr>) j subject sid perm t"
proof -
  let ?P = "\<lambda>g. g_id g = gid \<and> g_asset g = i \<and> g_revoked g = 0"
  obtain g where g: "sel1 ?P (st_grants st) = Some g"
    using assms(1) by (cases "sel1 ?P (st_grants st)") (auto simp: RevokeGrant_def Let_def)
  have grants: "st_grants st' = upd_where ?P (\<lambda>g. g\<lparr>g_revoked := now\<rparr>) (st_grants st)"
    using assms(1) g enqueueAuditTx_frame
    by (fastforce simp: RevokeGrant_def Let_def split: if_splits)
  have only: "h = g" if "h \<in> set (st_grants st)" "g_id h = gid" for h
    using keyed_eq [OF assms(2) that(1)] sel1_Some [OF g] that(2) by auto
  have "(\<exists>h\<in>set (st_grants st'). Q h) \<longleftrightarrow> (\<exists>h\<in>set (st_grants st). g_id h \<noteq> gid \<and> Q h)"
    if Q: "\<And>h. Q h \<Longrightarrow> g_revoked h = 0" for Q
    using only sel1_Some [OF g] Q assms(3) by (fastforce simp: grants set_upd_where)
  note key = this
  show ?thesis
    unfolding HasActiveGrant_def exists_row_iff by (subst key) auto
qed

theorem revoke_grant_effect_witness:
  "\<not> HasActiveGrant (snd (RevokeGrant demo_env ''a1'' ''g1'' 30 (demo_opened\<lparr>st_grants := [demo_grant]\<rparr>)))
       ''a1'' SubjectPublic '''' PermissionRead 31"
proof -
  let ?s = "demo_opened\<lparr>st_grants := [demo_grant]\<rparr>"
  have "RevokeGrant demo_env ''a1'' ''g1'' 30 ?s = (Ok (), snd (RevokeGrant demo_env ''a1'' ''g1'' 30 ?s))"
    by (simp add: prod_eq_iff) (simp add: RevokeGrant_def demo_grant_def demo_defs upload_eval)
  from revoke_grant_effect [OF this] show ?thesis
    by (simp add: HasActiveGrant_def demo_grant_def)
qed

end
