(* ===== verification/Outbox.thy ===== *)
theory Outbox
  imports Store_Uploads "HOL-Library.Product_Lexorder"
begin

text \<open>
  The transactional outboxes and their dispatchers: the claim, delivery and retry operations of
  \<open>asset_scan_outbox\<close> and \<open>asset_derivative_outbox\<close> in \<open>internal/postgres/store.go\<close>, and
  \<open>DispatchOnce\<close> of \<open>internal/scanqueue/dispatcher.go\<close> and
  \<open>internal/derivativequeue/dispatcher.go\<close>.  The two tables have the same columns and the same
  statements, so the statements are given once on a table and lifted to each.

  The interface between the repository and the dispatcher is the locale \<open>outbox\<close>: what a
  claim, a delivery and a rescheduling promise.  The dispatcher's lemmas are proved from these
  promises and hold for both outboxes by interpretation.
\<close>

section \<open>The statements on an outbox table\<close>

definition due :: "time \<Rightarrow> outbox_row \<Rightarrow> bool" where
  "due now r \<longleftrightarrow> ob_delivered r = 0 \<and> ob_available r \<le> now \<and> (ob_claimed r = 0 \<or> ob_claimed r < now)"

definition outbox_request :: "outbox_row \<Rightarrow> scan_request" where
  "outbox_request r = \<lparr>sr_event = ob_event r, sr_asset = ob_asset r, sr_etag = ob_etag r,
     sr_attempts = ob_attempts r + 1, sr_created = ob_created r\<rparr>"

definition claim_row :: "time \<Rightarrow> int \<Rightarrow> outbox_row \<Rightarrow> outbox_row" where
  "claim_row now lease r = r\<lparr>ob_attempts := ob_attempts r + 1, ob_claimed := now + lease\<rparr>"

definition claim_outbox :: "time \<Rightarrow> int \<Rightarrow> outbox_row tbl \<Rightarrow> scan_request option \<times> outbox_row tbl" where
  "claim_outbox now lease t =
     (case min_row (\<lambda>r. (ob_available r, ob_created r)) (filter (due now) t) of
        None \<Rightarrow> (None, t)
      | Some r \<Rightarrow> (Some (outbox_request r),
                   upd_where (\<lambda>s. ob_event s = ob_event r)
                     (\<lambda>s. s\<lparr>ob_attempts := ob_attempts r + 1, ob_claimed := now + lease\<rparr>) t))"

definition transition_error :: "string \<Rightarrow> outbox_row tbl \<Rightarrow> go_error" where
  "transition_error e t = (if exists_row (\<lambda>r. ob_event r = e) t then ErrConflict else ErrNotFound)"

text \<open>The guarded UPDATE both transitions share: event, expected attempt, not delivered.\<close>

definition settle_outbox ::
  "string \<Rightarrow> int \<Rightarrow> (outbox_row \<Rightarrow> outbox_row) \<Rightarrow> outbox_row tbl \<Rightarrow> unit result \<times> outbox_row tbl" where
  "settle_outbox e attempt f t =
     (let P = (\<lambda>r. ob_event r = e \<and> ob_attempts r = attempt \<and> ob_delivered r = 0) in
      if affected P t \<noteq> 1 then (Err (transition_error e t), upd_where P f t)
      else (Ok (), upd_where P f t))"

definition deliver_outbox :: "string \<Rightarrow> int \<Rightarrow> time \<Rightarrow> outbox_row tbl \<Rightarrow> unit result \<times> outbox_row tbl" where
  "deliver_outbox e attempt now =
     settle_outbox e attempt (\<lambda>r. r\<lparr>ob_delivered := now, ob_claimed := 0, ob_error := []\<rparr>)"

definition retry_outbox ::
  "string \<Rightarrow> int \<Rightarrow> string \<Rightarrow> time \<Rightarrow> outbox_row tbl \<Rightarrow> unit result \<times> outbox_row tbl" where
  "retry_outbox e attempt details next =
     settle_outbox e attempt (\<lambda>r. r\<lparr>ob_available := next, ob_claimed := 0, ob_error := details\<rparr>)"

section \<open>The repository operations\<close>

definition on_scan :: "(outbox_row tbl \<Rightarrow> 'a \<times> outbox_row tbl) \<Rightarrow> store \<Rightarrow> 'a \<times> store" where
  "on_scan f st = (case f (st_scan_outbox st) of (x, t) \<Rightarrow> (x, st\<lparr>st_scan_outbox := t\<rparr>))"

definition on_derivative :: "(outbox_row tbl \<Rightarrow> 'a \<times> outbox_row tbl) \<Rightarrow> store \<Rightarrow> 'a \<times> store" where
  "on_derivative f st = (case f (st_derivative_outbox st) of (x, t) \<Rightarrow> (x, st\<lparr>st_derivative_outbox := t\<rparr>))"

definition ClaimScanRequest :: "time \<Rightarrow> int \<Rightarrow> store \<Rightarrow> scan_request option \<times> store" where
  "ClaimScanRequest now lease = on_scan (claim_outbox now lease)"

definition MarkScanRequestDelivered :: "string \<Rightarrow> int \<Rightarrow> time \<Rightarrow> store \<Rightarrow> unit result \<times> store" where
  "MarkScanRequestDelivered e attempt now = on_scan (deliver_outbox e attempt now)"

definition ScheduleScanRequestRetry ::
  "string \<Rightarrow> int \<Rightarrow> string \<Rightarrow> time \<Rightarrow> time \<Rightarrow> store \<Rightarrow> unit result \<times> store" where
  "ScheduleScanRequestRetry e attempt details next _ = on_scan (retry_outbox e attempt details next)"

definition ClaimDerivativeRequest :: "time \<Rightarrow> int \<Rightarrow> store \<Rightarrow> scan_request option \<times> store" where
  "ClaimDerivativeRequest now lease = on_derivative (claim_outbox now lease)"

definition MarkDerivativeRequestDelivered :: "string \<Rightarrow> int \<Rightarrow> time \<Rightarrow> store \<Rightarrow> unit result \<times> store" where
  "MarkDerivativeRequestDelivered e attempt now = on_derivative (deliver_outbox e attempt now)"

definition ScheduleDerivativeRequestRetry ::
  "string \<Rightarrow> int \<Rightarrow> string \<Rightarrow> time \<Rightarrow> time \<Rightarrow> store \<Rightarrow> unit result \<times> store" where
  "ScheduleDerivativeRequestRetry e attempt details next _ =
     on_derivative (retry_outbox e attempt details next)"

section \<open>The dispatcher\<close>

definition dispatchLease :: int where
  "dispatchLease = 30 * second"

definition retryDelay :: "int \<Rightarrow> int" where
  "retryDelay attempt =
     (let a = (if attempt < 1 then 1 else attempt); b = (if a > 6 then 6 else a)
      in second * 2 ^ nat (b - 1))"

record queue_event =
  qe_type :: string
  qe_version :: int
  qe_event :: string
  qe_asset :: string
  qe_etag :: string

text \<open>
  \<open>DispatchOnce\<close> over the operations of a repository; \<open>send\<close> is the queue, which answers an
  event with nothing or an error text.  The result is whether there was work and its outcome.
\<close>

definition DispatchOnce ::
  "(time \<Rightarrow> int \<Rightarrow> 's \<Rightarrow> scan_request option \<times> 's)
   \<Rightarrow> (string \<Rightarrow> int \<Rightarrow> time \<Rightarrow> 's \<Rightarrow> unit result \<times> 's)
   \<Rightarrow> (string \<Rightarrow> int \<Rightarrow> string \<Rightarrow> time \<Rightarrow> time \<Rightarrow> 's \<Rightarrow> unit result \<times> 's)
   \<Rightarrow> string \<Rightarrow> string \<Rightarrow> (queue_event \<Rightarrow> string option) \<Rightarrow> time \<Rightarrow> 's \<Rightarrow> (bool \<times> unit result) \<times> 's" where
  "DispatchOnce claim deliver retry typ prefix send now s =
     (case claim now dispatchLease s of
        (None, s1) \<Rightarrow> ((False, Ok ()), s1)
      | (Some q, s1) \<Rightarrow>
          (case send \<lparr>qe_type = typ, qe_version = 1, qe_event = sr_event q,
                      qe_asset = sr_asset q, qe_etag = sr_etag q\<rparr> of
             Some err \<Rightarrow>
               (case retry (sr_event q) (sr_attempts q) (prefix @ take 400 err)
                       (now + retryDelay (sr_attempts q)) now s1 of
                  (r, s2) \<Rightarrow> ((True, r), s2))
           | None \<Rightarrow>
               (case deliver (sr_event q) (sr_attempts q) now s1 of
                  (r, s2) \<Rightarrow> ((True, r), s2))))"

definition DispatchScan ::
  "(queue_event \<Rightarrow> string option) \<Rightarrow> time \<Rightarrow> store \<Rightarrow> (bool \<times> unit result) \<times> store" where
  "DispatchScan = DispatchOnce ClaimScanRequest MarkScanRequestDelivered ScheduleScanRequestRetry
     ''asset.scan.requested.v1'' ''send scan request: ''"

definition DispatchDerivative ::
  "(queue_event \<Rightarrow> string option) \<Rightarrow> time \<Rightarrow> store \<Rightarrow> (bool \<times> unit result) \<times> store" where
  "DispatchDerivative = DispatchOnce ClaimDerivativeRequest MarkDerivativeRequestDelivered
     ScheduleDerivativeRequestRetry ''asset.derivative.requested.v1'' ''send derivative request: ''"

lemma retryDelay_bounds: "second \<le> retryDelay n \<and> retryDelay n \<le> 32 * second"
proof -
  define b where "b = (let a = (if n < 1 then 1 else n) in if a > 6 then 6 else a)"
  have b: "1 \<le> b" "b \<le> 6" by (auto simp: b_def Let_def)
  then have "b \<in> {1, 2, 3, 4, 5, 6}" by auto
  moreover have "retryDelay n = second * 2 ^ nat (b - 1)"
    by (simp add: retryDelay_def b_def Let_def)
  ultimately show ?thesis by auto
qed

lemma retryDelay_mono: "m \<le> n \<Longrightarrow> retryDelay m \<le> retryDelay n"
  unfolding retryDelay_def Let_def by (auto intro!: power_increasing nat_mono)

section \<open>The interface\<close>

text \<open>
  \<open>row s e\<close> is the request the outbox holds for the event \<open>e\<close>.  A claim picks a due request
  that is first in the order of availability, counts the attempt and leases it; a settlement
  by its event and attempt changes that request only, and fails without effect when the
  attempt is stale or the request was delivered.
\<close>

locale outbox =
  fixes wf :: "'s \<Rightarrow> bool"
    and row :: "'s \<Rightarrow> string \<Rightarrow> outbox_row option"
    and claim :: "time \<Rightarrow> int \<Rightarrow> 's \<Rightarrow> scan_request option \<times> 's"
    and deliver :: "string \<Rightarrow> int \<Rightarrow> time \<Rightarrow> 's \<Rightarrow> unit result \<times> 's"
    and retry :: "string \<Rightarrow> int \<Rightarrow> string \<Rightarrow> time \<Rightarrow> time \<Rightarrow> 's \<Rightarrow> unit result \<times> 's"
  assumes claim_none: "wf s \<Longrightarrow> claim now lease s = (None, s') \<Longrightarrow>
      s' = s \<and> (\<forall>e r. row s e = Some r \<longrightarrow> \<not> due now r)"
    and claim_some: "wf s \<Longrightarrow> claim now lease s = (Some q, s') \<Longrightarrow>
      wf s' \<and> (\<exists>r. row s (sr_event q) = Some r \<and> due now r \<and> q = outbox_request r
        \<and> (\<forall>e x. row s e = Some x \<longrightarrow> due now x \<longrightarrow> ob_available r \<le> ob_available x)
        \<and> row s' = (row s)(sr_event q \<mapsto> claim_row now lease r))"
    and deliver_ok: "wf s \<Longrightarrow> row s e = Some r \<Longrightarrow> ob_attempts r = n \<Longrightarrow> ob_delivered r = 0 \<Longrightarrow>
      \<exists>s'. deliver e n now s = (Ok (), s') \<and> wf s'
        \<and> row s' = (row s)(e \<mapsto> r\<lparr>ob_delivered := now, ob_claimed := 0, ob_error := []\<rparr>)"
    and retry_ok: "wf s \<Longrightarrow> row s e = Some r \<Longrightarrow> ob_attempts r = n \<Longrightarrow> ob_delivered r = 0 \<Longrightarrow>
      \<exists>s'. retry e n details next now s = (Ok (), s') \<and> wf s'
        \<and> row s' = (row s)(e \<mapsto> r\<lparr>ob_available := next, ob_claimed := 0, ob_error := details\<rparr>)"
    and deliver_stale: "wf s \<Longrightarrow> row s e = Some r \<Longrightarrow> ob_attempts r \<noteq> n \<or> ob_delivered r \<noteq> 0 \<Longrightarrow>
      deliver e n now s = (Err ErrConflict, s)"
    and finite_rows: "wf s \<Longrightarrow> finite (dom (row s))"
    and retry_stale: "wf s \<Longrightarrow> row s e = Some r \<Longrightarrow> ob_attempts r \<noteq> n \<or> ob_delivered r \<noteq> 0 \<Longrightarrow>
      retry e n details next now s = (Err ErrConflict, s)"
begin

text \<open>A leased request is not handed out again before its lease ends.\<close>

lemma lease_exclusive:
  assumes "wf s" "claim now lease s = (Some q, s1)" "lease > 0" "now > 0"
    and "now' \<le> now + lease" "claim now' lease' s1 = (Some q', s2)"
  shows "sr_event q' \<noteq> sr_event q"
proof
  assume same: "sr_event q' = sr_event q"
  obtain r where wf1: "wf s1" and r: "row s1 = (row s)(sr_event q \<mapsto> claim_row now lease r)"
    using claim_some [OF assms(1,2)] by auto
  obtain r' where "row s1 (sr_event q') = Some r'" "due now' r'"
    using claim_some [OF wf1 assms(6)] by auto
  then show False using r same assms(3-5) by (auto simp: due_def claim_row_def)
qed

text \<open>A worker whose lease was taken over cannot settle the request any more.\<close>

lemma stale_worker:
  assumes "wf s" "claim now lease s = (Some q, s1)" "wf s2"
    and "claim now' lease' s1 = (Some q', s2)" "sr_event q' = sr_event q"
  shows "deliver (sr_event q) (sr_attempts q) t s2 = (Err ErrConflict, s2)
       \<and> retry (sr_event q) (sr_attempts q) d n' t s2 = (Err ErrConflict, s2)"
proof -
  obtain r where wf1: "wf s1" and r: "q = outbox_request r"
      "row s1 = (row s)(sr_event q \<mapsto> claim_row now lease r)"
    using claim_some [OF assms(1,2)] by auto
  obtain r' where "row s1 (sr_event q') = Some r'"
      "row s2 = (row s1)(sr_event q' \<mapsto> claim_row now' lease' r')"
    using claim_some [OF wf1 assms(4)] by auto
  then have "row s2 (sr_event q) = Some (claim_row now' lease' (claim_row now lease r))"
    using r assms(5) by simp
  then show ?thesis
    using deliver_stale [OF assms(3)] retry_stale [OF assms(3)] r(1)
    by (simp add: claim_row_def outbox_request_def)
qed

text \<open>One dispatch: nothing due, a delivery, or a rescheduling with back-off; never an error.\<close>

lemma dispatch_none:
  assumes "wf s" "\<forall>e r. row s e = Some r \<longrightarrow> \<not> due now r"
  shows "DispatchOnce claim deliver retry typ prefix send now s = ((False, Ok ()), s)"
proof (cases "claim now dispatchLease s")
  case (Pair o' s1)
  show ?thesis
  proof (cases o')
    case None
    then show ?thesis using Pair claim_none [OF assms(1)] by (simp add: DispatchOnce_def)
  next
    case (Some q)
    then show ?thesis using Pair claim_some [OF assms(1)] assms(2) by blast
  qed
qed

lemma dispatch_some:
  assumes "wf s" "row s e0 = Some r0" "due now r0"
  shows "\<exists>e r s'. row s e = Some r \<and> due now r
     \<and> DispatchOnce claim deliver retry typ prefix send now s = ((True, Ok ()), s') \<and> wf s'
     \<and> (case send \<lparr>qe_type = typ, qe_version = 1, qe_event = e, qe_asset = ob_asset r, qe_etag = ob_etag r\<rparr> of
          None \<Rightarrow> row s' = (row s)(e \<mapsto> r\<lparr>ob_attempts := ob_attempts r + 1, ob_delivered := now,
                                      ob_claimed := 0, ob_error := []\<rparr>)
        | Some err \<Rightarrow> row s' = (row s)(e \<mapsto> r\<lparr>ob_attempts := ob_attempts r + 1,
             ob_available := now + retryDelay (ob_attempts r + 1), ob_claimed := 0,
             ob_error := prefix @ take 400 err\<rparr>))"
proof -
  obtain o' s1 where c: "claim now dispatchLease s = (o', s1)" by force
  then obtain q where q: "o' = Some q"
    using claim_none [OF assms(1), of now dispatchLease s1] assms(2,3) by (cases o') auto
  from claim_some [OF assms(1) c [unfolded q]] obtain r where
    wf1: "wf s1" and r: "row s (sr_event q) = Some r" "due now r" "q = outbox_request r"
      "row s1 = (row s)(sr_event q \<mapsto> claim_row now dispatchLease r)" by auto
  have ev: "sr_event q = ob_event r" "sr_asset q = ob_asset r" "sr_etag q = ob_etag r"
      "sr_attempts q = ob_attempts r + 1"
    by (simp_all add: r(3) outbox_request_def)
  have row1: "row s1 (sr_event q) = Some (claim_row now dispatchLease r)" by (simp add: r(4))
  have n: "ob_attempts (claim_row now dispatchLease r) = sr_attempts q"
      "ob_delivered (claim_row now dispatchLease r) = 0"
    using r(2) by (simp_all add: claim_row_def ev due_def)
  show ?thesis
  proof (cases "send \<lparr>qe_type = typ, qe_version = 1, qe_event = sr_event q, qe_asset = ob_asset r,
      qe_etag = ob_etag r\<rparr>")
    case None
    obtain s' where "deliver (sr_event q) (sr_attempts q) now s1 = (Ok (), s')" "wf s'"
        "row s' = (row s1)(sr_event q \<mapsto> (claim_row now dispatchLease r)
             \<lparr>ob_delivered := now, ob_claimed := 0, ob_error := []\<rparr>)"
      using deliver_ok [OF wf1 row1 n] by blast
    then show ?thesis
      using None c q r(1,2,4) ev
      by (intro exI [of _ "sr_event q"] exI [of _ r] exI [of _ s'])
         (simp add: DispatchOnce_def claim_row_def)
  next
    case (Some err)
    obtain s' where "retry (sr_event q) (sr_attempts q) (prefix @ take 400 err)
          (now + retryDelay (sr_attempts q)) now s1 = (Ok (), s')" "wf s'"
        "row s' = (row s1)(sr_event q \<mapsto> (claim_row now dispatchLease r)
             \<lparr>ob_available := now + retryDelay (sr_attempts q), ob_claimed := 0,
              ob_error := prefix @ take 400 err\<rparr>)"
      using retry_ok [OF wf1 row1 n] by blast
    then show ?thesis
      using Some c q r(1,2,4) ev
      by (intro exI [of _ "sr_event q"] exI [of _ r] exI [of _ s'])
         (simp add: DispatchOnce_def claim_row_def)
  qed
qed

text \<open>As many dispatches as there are due requests leave none due, whatever the queue answers.\<close>

definition due_events :: "time \<Rightarrow> 's \<Rightarrow> string set" where
  "due_events now s = {e. \<exists>r. row s e = Some r \<and> due now r}"

lemma finite_due: "wf s \<Longrightarrow> finite (due_events now s)"
  by (rule finite_subset [OF _ finite_rows [of s]]) (auto simp: due_events_def)

lemma dispatch_shrinks:
  assumes "wf s" "e \<in> due_events now s" "now > 0"
  shows "\<exists>e s'. e \<in> due_events now s
     \<and> DispatchOnce claim deliver retry typ prefix send now s = ((True, Ok ()), s') \<and> wf s'
     \<and> due_events now s' = due_events now s - {e}"
proof -
  obtain r0 where "row s e = Some r0" "due now r0" using assms(2) by (auto simp: due_events_def)
  from dispatch_some [OF assms(1) this, of "typ" prefix send] obtain d r s' where
    r: "row s d = Some r" "due now r"
    and s': "DispatchOnce claim deliver retry typ prefix send now s = ((True, Ok ()), s')" "wf s'"
    and row': "case send \<lparr>qe_type = typ, qe_version = 1, qe_event = d, qe_asset = ob_asset r, qe_etag = ob_etag r\<rparr> of
          None \<Rightarrow> row s' = (row s)(d \<mapsto> r\<lparr>ob_attempts := ob_attempts r + 1, ob_delivered := now,
                                      ob_claimed := 0, ob_error := []\<rparr>)
        | Some err \<Rightarrow> row s' = (row s)(d \<mapsto> r\<lparr>ob_attempts := ob_attempts r + 1,
             ob_available := now + retryDelay (ob_attempts r + 1), ob_claimed := 0,
             ob_error := prefix @ take 400 err\<rparr>)"
    by blast
  obtain x where x: "row s' = (row s)(d \<mapsto> x)" "\<not> due now x"
  proof (cases "send \<lparr>qe_type = typ, qe_version = 1, qe_event = d, qe_asset = ob_asset r, qe_etag = ob_etag r\<rparr>")
    case None
    then show thesis using row' assms(3) that by (simp add: due_def)
  next
    case (Some err)
    then show thesis using row' that retryDelay_bounds [of "ob_attempts r + 1"] by (simp add: due_def)
  qed
  have "due_events now s' = due_events now s - {d}"
    using x by (auto simp: due_events_def split: if_splits)
  moreover have "d \<in> due_events now s" using r by (auto simp: due_events_def)
  ultimately show ?thesis using s' by blast
qed

lemma dispatch_drains:
  assumes "wf s" "now > 0" "card (due_events now s) \<le> n"
  shows "due_events now (((\<lambda>s. snd (DispatchOnce claim deliver retry typ prefix send now s)) ^^ n) s) = {}"
  using assms
proof (induction n arbitrary: s)
  case 0
  then show ?case using finite_due by simp
next
  case (Suc n)
  show ?case
  proof (cases "due_events now s = {}")
    case True
    then have "DispatchOnce claim deliver retry typ prefix send now s = ((False, Ok ()), s)"
      by (intro dispatch_none Suc.prems) (auto simp: due_events_def)
    then show ?thesis using Suc True by (simp add: funpow_Suc_right del: funpow.simps)
  next
    case False
    then obtain e where e: "e \<in> due_events now s" by blast
    obtain d s' where d: "d \<in> due_events now s"
      and s': "DispatchOnce claim deliver retry typ prefix send now s = ((True, Ok ()), s')" "wf s'"
        "due_events now s' = due_events now s - {d}"
      using dispatch_shrinks [OF Suc.prems(1) e Suc.prems(2)] by metis
    have "card (due_events now s') \<le> n"
      using s'(3) d Suc.prems(3) finite_due [OF Suc.prems(1), of now] by (simp add: card_Diff_singleton)
    then show ?thesis
      using Suc.IH [OF s'(2) Suc.prems(2)] s'(1) by (simp add: funpow_Suc_right del: funpow.simps)
  qed
qed

end

section \<open>The code's outboxes keep the promises\<close>

definition outbox_row_of :: "outbox_row tbl \<Rightarrow> string \<Rightarrow> outbox_row option" where
  "outbox_row_of t e = sel1 (\<lambda>r. ob_event r = e) t"

lemma outbox_row_of_mem: "keyed ob_event t \<Longrightarrow> r \<in> set t \<Longrightarrow> outbox_row_of t (ob_event r) = Some r"
  by (simp add: outbox_row_of_def keyed_sel1)

lemma outbox_row_of_Some [dest]: "outbox_row_of t e = Some r \<Longrightarrow> r \<in> set t \<and> ob_event r = e"
  by (auto simp: outbox_row_of_def dest: sel1_Some)

lemma outbox_row_of_upd:
  assumes "outbox_row_of t e = Some r" "P r" "\<And>x. x \<in> set t \<Longrightarrow> P x \<Longrightarrow> x = r" "ob_event (f r) = e"
  shows "outbox_row_of (upd_where P f t) = (outbox_row_of t)(e \<mapsto> f r)"
proof
  fix e'
  have er: "ob_event r = e" using assms(1) by auto
  have keep: "ob_event (if P x then f x else x) = ob_event x" if "x \<in> set t" for x
    using assms(3) [OF that] assms(4) er by auto
  have "outbox_row_of (upd_where P f t) e'
      = map_option (\<lambda>x. if P x then f x else x) (outbox_row_of t e')"
    using keep unfolding outbox_row_of_def by (induction t) auto
  moreover have "x = r" if "outbox_row_of t e' = Some x" "P x" for x
    using that assms(3) by auto
  moreover have "\<not> P x" if "outbox_row_of t e' = Some x" "e' \<noteq> e" for x
    using that assms(3) er by auto
  ultimately show "outbox_row_of (upd_where P f t) e' = ((outbox_row_of t)(e \<mapsto> f r)) e'"
    using assms(1,2) by (cases "outbox_row_of t e'") auto
qed

lemma finite_outbox_row_of: "finite (dom (outbox_row_of t))"
  by (rule finite_subset [of _ "ob_event ` set t"]) auto

lemma claim_outbox_none:
  assumes "claim_outbox now lease t = (None, t')" "keyed ob_event t"
  shows "t' = t \<and> (\<forall>e r. outbox_row_of t e = Some r \<longrightarrow> \<not> due now r)"
  using assms by (auto simp: claim_outbox_def filter_empty_conv split: option.splits)

lemma claim_outbox_some:
  assumes "claim_outbox now lease t = (Some q, t')" "keyed ob_event t"
  shows "keyed ob_event t' \<and> (\<exists>r. outbox_row_of t (sr_event q) = Some r \<and> due now r \<and> q = outbox_request r
     \<and> (\<forall>e x. outbox_row_of t e = Some x \<longrightarrow> due now x \<longrightarrow> ob_available r \<le> ob_available x)
     \<and> outbox_row_of t' = (outbox_row_of t)(sr_event q \<mapsto> claim_row now lease r))"
proof -
  obtain r where r: "min_row (\<lambda>r. (ob_available r, ob_created r)) (filter (due now) t) = Some r"
    and q: "q = outbox_request r"
    and t': "t' = upd_where (\<lambda>s. ob_event s = ob_event r)
                (\<lambda>s. s\<lparr>ob_attempts := ob_attempts r + 1, ob_claimed := now + lease\<rparr>) t"
    using assms(1) by (auto simp: claim_outbox_def split: option.splits)
  have mem: "r \<in> set t" "due now r" using min_row_in [OF r] by auto
  have row: "outbox_row_of t (ob_event r) = Some r" using outbox_row_of_mem [OF assms(2) mem(1)] .
  have min: "ob_available r \<le> ob_available x" if "outbox_row_of t e = Some x" "due now x" for e x
    using min_row_le [OF r, of x] that by (fastforce simp: less_eq_prod_def)
  have upd: "outbox_row_of t' = (outbox_row_of t)(ob_event r \<mapsto> claim_row now lease r)"
    unfolding t' using outbox_row_of_upd [OF row, of "\<lambda>s. ob_event s = ob_event r"
        "\<lambda>s. s\<lparr>ob_attempts := ob_attempts r + 1, ob_claimed := now + lease\<rparr>"]
      keyed_eq [OF assms(2) _ mem(1)] by (simp add: claim_row_def)
  have "keyed ob_event t'" unfolding t' using assms(2) by (subst keyed_upd_where) auto
  then show ?thesis using row mem min upd q by (auto simp: outbox_request_def)
qed

lemma settle_ok:
  assumes "keyed ob_event t" "outbox_row_of t e = Some r" "ob_attempts r = n" "ob_delivered r = 0"
    and f: "\<And>r. ob_event (f r) = ob_event r"
  shows "\<exists>t'. settle_outbox e n f t = (Ok (), t') \<and> keyed ob_event t'
     \<and> outbox_row_of t' = (outbox_row_of t)(e \<mapsto> f r)"
proof -
  let ?P = "\<lambda>r. ob_event r = e \<and> ob_attempts r = n \<and> ob_delivered r = 0"
  have r: "r \<in> set t" "?P r" using assms(2-4) by auto
  have "(affected ?P t = 1) = (\<exists>r\<in>set t. ?P r)"
    by (rule affected_one [where k = ob_event and x = e, OF assms(1)]) simp
  then have "affected ?P t = 1" using r by blast
  moreover have "outbox_row_of (upd_where ?P f t) = (outbox_row_of t)(e \<mapsto> f r)"
  proof (rule outbox_row_of_upd [where P = ?P, OF assms(2) r(2)])
    fix x assume "x \<in> set t" "?P x"
    then show "x = r" using keyed_eq [OF assms(1) _ r(1), of x] r(2) by simp
  next
    show "ob_event (f r) = e" using r(2) f [of r] by simp
  qed
  moreover have "keyed ob_event (upd_where ?P f t)"
    using assms(1) keyed_upd_where [where k = ob_event and f = f, OF f] by blast
  ultimately show ?thesis unfolding settle_outbox_def Let_def by simp
qed

lemma settle_stale:
  assumes "keyed ob_event t" "outbox_row_of t e = Some r" "ob_attempts r \<noteq> n \<or> ob_delivered r \<noteq> 0"
  shows "settle_outbox e n f t = (Err ErrConflict, t)"
proof -
  let ?P = "\<lambda>r. ob_event r = e \<and> ob_attempts r = n \<and> ob_delivered r = 0"
  have none: "\<forall>x\<in>set t. \<not> ?P x"
    using keyed_eq [OF assms(1)] assms(2,3) by (metis outbox_row_of_Some)
  then have "affected ?P t = 0" by (simp add: affected_0_iff)
  moreover have "upd_where ?P f t = t" by (rule upd_where_none [OF none])
  moreover have "exists_row (\<lambda>r. ob_event r = e) t" using assms(2) by auto
  ultimately show ?thesis by (simp add: settle_outbox_def transition_error_def)
qed

definition wf_scan_outbox :: "store \<Rightarrow> bool" where
  "wf_scan_outbox st \<longleftrightarrow> keyed ob_event (st_scan_outbox st)"

definition scan_outbox_row :: "store \<Rightarrow> string \<Rightarrow> outbox_row option" where
  "scan_outbox_row st = outbox_row_of (st_scan_outbox st)"

definition wf_derivative_outbox :: "store \<Rightarrow> bool" where
  "wf_derivative_outbox st \<longleftrightarrow> keyed ob_event (st_derivative_outbox st)"

definition derivative_outbox_row :: "store \<Rightarrow> string \<Rightarrow> outbox_row option" where
  "derivative_outbox_row st = outbox_row_of (st_derivative_outbox st)"

lemmas scan_ob_defs = wf_scan_outbox_def scan_outbox_row_def on_scan_def ClaimScanRequest_def
  MarkScanRequestDelivered_def ScheduleScanRequestRetry_def deliver_outbox_def retry_outbox_def

lemmas derivative_ob_defs = wf_derivative_outbox_def derivative_outbox_row_def on_derivative_def
  ClaimDerivativeRequest_def MarkDerivativeRequestDelivered_def ScheduleDerivativeRequestRetry_def
  deliver_outbox_def retry_outbox_def

interpretation scan_ob: outbox wf_scan_outbox scan_outbox_row ClaimScanRequest
  MarkScanRequestDelivered ScheduleScanRequestRetry
proof (unfold_locales, goal_cases)
  case (1 s now lease s')
  then show ?case using claim_outbox_none by (fastforce simp: scan_ob_defs split: prod.splits)
next
  case (2 s now lease q s')
  then show ?case using claim_outbox_some by (fastforce simp: scan_ob_defs split: prod.splits)
next
  case (3 s e r n now)
  then show ?case
    using settle_ok [of "st_scan_outbox s" e r n "\<lambda>r. r\<lparr>ob_delivered := now, ob_claimed := 0, ob_error := []\<rparr>"]
    by (auto simp: scan_ob_defs)
next
  case (4 s e r n details nxt now)
  then show ?case
    using settle_ok [of "st_scan_outbox s" e r n "\<lambda>r. r\<lparr>ob_available := nxt, ob_claimed := 0, ob_error := details\<rparr>"]
    by (auto simp: scan_ob_defs)
next
  case (5 s e r n now)
  then show ?case using settle_stale by (fastforce simp: scan_ob_defs)
next
  case (6 s)
  then show ?case by (simp add: scan_ob_defs finite_outbox_row_of)
next
  case (7 s e r n details nxt now)
  then show ?case using settle_stale by (fastforce simp: scan_ob_defs)
qed

interpretation derivative_ob: outbox wf_derivative_outbox derivative_outbox_row ClaimDerivativeRequest
  MarkDerivativeRequestDelivered ScheduleDerivativeRequestRetry
proof (unfold_locales, goal_cases)
  case (1 s now lease s')
  then show ?case using claim_outbox_none by (fastforce simp: derivative_ob_defs split: prod.splits)
next
  case (2 s now lease q s')
  then show ?case using claim_outbox_some by (fastforce simp: derivative_ob_defs split: prod.splits)
next
  case (3 s e r n now)
  then show ?case
    using settle_ok [of "st_derivative_outbox s" e r n "\<lambda>r. r\<lparr>ob_delivered := now, ob_claimed := 0, ob_error := []\<rparr>"]
    by (auto simp: derivative_ob_defs)
next
  case (4 s e r n details nxt now)
  then show ?case
    using settle_ok [of "st_derivative_outbox s" e r n "\<lambda>r. r\<lparr>ob_available := nxt, ob_claimed := 0, ob_error := details\<rparr>"]
    by (auto simp: derivative_ob_defs)
next
  case (5 s e r n now)
  then show ?case using settle_stale by (fastforce simp: derivative_ob_defs)
next
  case (6 s)
  then show ?case by (simp add: derivative_ob_defs finite_outbox_row_of)
next
  case (7 s e r n details nxt now)
  then show ?case using settle_stale by (fastforce simp: derivative_ob_defs)
qed

section \<open>Properties\<close>

lemma due_events_le:
  "card (scan_ob.due_events now st) \<le> length (filter (due now) (st_scan_outbox st))"
proof -
  have "scan_ob.due_events now st \<subseteq> ob_event ` set (filter (due now) (st_scan_outbox st))"
    by (auto simp: scan_ob.due_events_def scan_outbox_row_def)
  then have "card (scan_ob.due_events now st) \<le> card (ob_event ` set (filter (due now) (st_scan_outbox st)))"
    by (intro card_mono) auto
  also have "\<dots> \<le> card (set (filter (due now) (st_scan_outbox st)))" by (rule card_image_le) simp
  also have "\<dots> \<le> length (filter (due now) (st_scan_outbox st))" by (rule card_length)
  finally show ?thesis .
qed

definition demo_outbox :: store where
  "demo_outbox = empty_store\<lparr>st_scan_outbox :=
     [new_outbox_row ''e1'' ''a1'' ''t1'' 3, (new_outbox_row ''e2'' ''a2'' ''t2'' 2)\<lparr>ob_attempts := 4\<rparr>]\<rparr>"

lemma wf_demo_outbox: "wf_scan_outbox demo_outbox"
  by (simp add: demo_outbox_def wf_scan_outbox_def new_outbox_row_def)

text \<open>
  Draining the scan outbox: as many dispatches at an instant as the outbox has due requests
  leave no request due at that instant, whatever the queue answers to each; a request that
  could not be sent has moved to the future.
\<close>

theorem scan_dispatch_drains:
  assumes "wf_scan_outbox st" "now > 0" "length (filter (due now) (st_scan_outbox st)) \<le> n"
    and "scan_outbox_row (((\<lambda>s. snd (DispatchScan send now s)) ^^ n) st) e = Some r"
  shows "\<not> due now r"
  using scan_ob.dispatch_drains [OF assms(1,2) order_trans [OF due_events_le assms(3)],
      of "''asset.scan.requested.v1''" "''send scan request: ''" send] assms(4)
  unfolding DispatchScan_def by (auto simp: scan_ob.due_events_def)

theorem scan_dispatch_drains_witness:
  "\<not> due 10 (the (scan_outbox_row (((\<lambda>s. snd (DispatchScan
        (\<lambda>ev. if qe_event ev = ''e1'' then Some ''down'' else None) 10 s)) ^^ 2) demo_outbox) ''e1''))"
proof -
  let ?send = "\<lambda>ev. if qe_event ev = ''e1'' then Some ''down'' else None"
  let ?s = "((\<lambda>s. snd (DispatchScan ?send 10 s)) ^^ 2) demo_outbox"
  have n: "length (filter (due 10) (st_scan_outbox demo_outbox)) \<le> 2"
    by (simp add: demo_outbox_def new_outbox_row_def due_def)
  have "\<exists>r. scan_outbox_row ?s ''e1'' = Some r"
    by (simp add: numeral_2_eq_2 DispatchScan_def DispatchOnce_def demo_outbox_def scan_ob_defs
        claim_outbox_def due_def new_outbox_row_def outbox_request_def outbox_row_of_def
        settle_outbox_def Let_def less_prod_def retryDelay_def)
  then obtain r where r: "scan_outbox_row ?s ''e1'' = Some r" by blast
  show ?thesis
    using scan_dispatch_drains [OF wf_demo_outbox _ n r] r by simp
qed

text \<open>
  One dispatch of the scan outbox with something due: it takes a due request, sends it under
  its own identity, and on success marks exactly that request delivered; when the queue
  refuses, the request becomes available again after a back-off between one and 32 seconds
  that depends on its attempts; no other request is touched and no error arises.
\<close>

theorem scan_dispatch_effect:
  assumes "wf_scan_outbox st" "scan_outbox_row st e0 = Some r0" "due now r0"
  shows "\<exists>e r st'. scan_outbox_row st e = Some r \<and> due now r
     \<and> DispatchScan send now st = ((True, Ok ()), st') \<and> wf_scan_outbox st'
     \<and> second \<le> retryDelay (ob_attempts r + 1) \<and> retryDelay (ob_attempts r + 1) \<le> 32 * second
     \<and> (case send \<lparr>qe_type = ''asset.scan.requested.v1'', qe_version = 1, qe_event = e,
                    qe_asset = ob_asset r, qe_etag = ob_etag r\<rparr> of
          None \<Rightarrow> scan_outbox_row st' = (scan_outbox_row st)(e \<mapsto> r\<lparr>ob_attempts := ob_attempts r + 1,
             ob_delivered := now, ob_claimed := 0, ob_error := []\<rparr>)
        | Some err \<Rightarrow> scan_outbox_row st' = (scan_outbox_row st)(e \<mapsto> r\<lparr>ob_attempts := ob_attempts r + 1,
             ob_available := now + retryDelay (ob_attempts r + 1), ob_claimed := 0,
             ob_error := ''send scan request: '' @ take 400 err\<rparr>))"
  using scan_ob.dispatch_some [OF assms, of "''asset.scan.requested.v1''" "''send scan request: ''" send]
    retryDelay_bounds
  unfolding DispatchScan_def by blast

theorem scan_dispatch_effect_witness:
  "fst (DispatchScan (\<lambda>_. Some ''down'') 10 demo_outbox) = (True, Ok ())"
proof -
  have "scan_outbox_row demo_outbox ''e1'' = Some (new_outbox_row ''e1'' ''a1'' ''t1'' 3)"
    by (simp add: demo_outbox_def scan_outbox_row_def outbox_row_of_def new_outbox_row_def)
  moreover have "due 10 (new_outbox_row ''e1'' ''a1'' ''t1'' 3)" by (simp add: due_def new_outbox_row_def)
  ultimately obtain st' where "DispatchScan (\<lambda>_. Some ''down'') 10 demo_outbox = ((True, Ok ()), st')"
    using scan_dispatch_effect [OF wf_demo_outbox] by blast
  then show ?thesis by simp
qed

text \<open>
  The lease of the derivative outbox excludes: while a claim's lease runs no other claim
  gets the same request, and once another worker has claimed it later, the first worker can
  neither mark it delivered nor reschedule it: both are conflicts without effect.
\<close>

theorem derivative_lease_exclusive:
  assumes "wf_derivative_outbox st" "now > 0" "lease > 0"
    and "ClaimDerivativeRequest now lease st = (Some q, st1)"
    and "ClaimDerivativeRequest now' lease' st1 = (Some q', st2)"
  shows "(now' \<le> now + lease \<longrightarrow> sr_event q' \<noteq> sr_event q)
     \<and> (sr_event q' = sr_event q \<longrightarrow>
          MarkDerivativeRequestDelivered (sr_event q) (sr_attempts q) t st2 = (Err ErrConflict, st2)
        \<and> ScheduleDerivativeRequestRetry (sr_event q) (sr_attempts q) d n t st2 = (Err ErrConflict, st2))"
proof (intro conjI impI)
  assume "now' \<le> now + lease"
  then show "sr_event q' \<noteq> sr_event q"
    using derivative_ob.lease_exclusive [OF assms(1,4,3,2) _ assms(5)] by blast
next
  have wf1: "wf_derivative_outbox st1" using derivative_ob.claim_some [OF assms(1,4)] by blast
  have wf2: "wf_derivative_outbox st2" using derivative_ob.claim_some [OF wf1 assms(5)] by blast
  assume "sr_event q' = sr_event q"
  from derivative_ob.stale_worker [OF assms(1,4) wf2 assms(5) this]
  show "MarkDerivativeRequestDelivered (sr_event q) (sr_attempts q) t st2 = (Err ErrConflict, st2)"
    and "ScheduleDerivativeRequestRetry (sr_event q) (sr_attempts q) d n t st2 = (Err ErrConflict, st2)"
    by blast+
qed

definition demo_derivative_outbox :: store where
  "demo_derivative_outbox = empty_store\<lparr>st_derivative_outbox := [new_outbox_row ''e1'' ''a1'' ''t1'' 3]\<rparr>"

lemmas outbox_eval = demo_derivative_outbox_def derivative_ob_defs claim_outbox_def due_def
  new_outbox_row_def outbox_request_def outbox_row_of_def settle_outbox_def transition_error_def Let_def
  empty_store_def

theorem derivative_lease_exclusive_witness:
  "(let st2 = snd (ClaimDerivativeRequest 60 30 (snd (ClaimDerivativeRequest 10 30 demo_derivative_outbox)))
    in MarkDerivativeRequestDelivered ''e1'' 1 61 st2 = (Err ErrConflict, st2))"
proof -
  let ?c1 = "ClaimDerivativeRequest 10 30 demo_derivative_outbox"
  let ?c2 = "ClaimDerivativeRequest 60 30 (snd ?c1)"
  let ?q = "\<lparr>sr_event = ''e1'', sr_asset = ''a1'', sr_etag = ''t1'', sr_attempts = 1, sr_created = 3\<rparr>"
  have wf: "wf_derivative_outbox demo_derivative_outbox" by (simp add: outbox_eval)
  have 1: "?c1 = (Some ?q, snd ?c1)" by (simp add: outbox_eval)
  have 2: "?c2 = (Some (?q\<lparr>sr_attempts := 2\<rparr>), snd ?c2)" by (simp add: outbox_eval)
  show ?thesis
    using derivative_lease_exclusive [OF wf _ _ 1 2] by (simp add: Let_def)
qed

end
