(* ===== verification/Store_Scan.thy ===== *)
theory Store_Scan
  imports Outbox
begin

text \<open>
  The scan state of an asset in \<open>internal/postgres/store.go\<close>: leasing a scan, applying its
  result, rescheduling it, failing it into the poison table and requeueing a failed scan.
  Each UPDATE is fenced by the status, the ETag, the event and the attempt number; the lemmas
  say that a result is applied at most once, only by the attempt that owns the scan, and that
  nothing else changes.
\<close>

definition derivable_mime :: "string \<Rightarrow> bool" where
  "derivable_mime m \<longleftrightarrow> m \<in> set [''image/jpeg'', ''image/png'', ''image/webp'']"

section \<open>Applying a scan result\<close>

definition has_scan_event :: "store \<Rightarrow> string \<Rightarrow> bool" where
  "has_scan_event st e = exists_row (\<lambda>v. se_event v = e) (st_scan_events st)"

text \<open>\<open>INSERT INTO asset_scan_events ... ON CONFLICT DO NOTHING\<close> with its foreign key.\<close>

definition INSERT_scan_event :: "scan_result \<Rightarrow> time \<Rightarrow> store \<Rightarrow> (bool \<times> store) result" where
  "INSERT_scan_event res now st =
     (if has_scan_event st (res_event res) then Ok (False, st)
      else if \<not> exists_row (\<lambda>r. a_id r = res_asset res) (st_assets st) then Err check_violation
      else Ok (True, st\<lparr>st_scan_events := st_scan_events st @
        [\<lparr>se_event = res_event res, se_asset = res_asset res, se_status = res_status res,
          se_details = res_details res, se_etag = res_etag res, se_created = now\<rparr>]\<rparr>))"

definition scan_fence :: "scan_result \<Rightarrow> asset_row \<Rightarrow> bool" where
  "scan_fence res r \<longleftrightarrow> a_id r = res_asset res \<and> a_scan_status r = ScanPending
     \<and> a_etag r = res_etag res \<and> a_scan_attempts r = res_expected_attempt res
     \<and> a_scan_event r = res_event res \<and> live r"

definition scanned_row :: "scan_status \<Rightarrow> scan_result \<Rightarrow> time \<Rightarrow> asset_row \<Rightarrow> asset_row" where
  "scanned_row s res now r = r\<lparr>a_scan_status := s, a_scan_details := res_details res,
     a_scan_signature := res_signature res, a_scan_failure := res_failure res,
     ar_scan_claimed := 0, a_updated := now\<rparr>"

definition derivative_ready :: "string \<Rightarrow> asset_row \<Rightarrow> bool" where
  "derivative_ready i r \<longleftrightarrow> a_id r = i \<and> a_upload_status r = UploadCompleted
     \<and> a_scan_status r = ScanClean \<and> a_processing_status r = ProcessingPending
     \<and> derivable_mime (a_detected_mime r) \<and> live r"

definition enqueue_derivative :: "string \<Rightarrow> string \<Rightarrow> time \<Rightarrow> store \<Rightarrow> store result" where
  "enqueue_derivative e i now st =
     (case sel1 (derivative_ready i) (st_assets st) of
        None \<Rightarrow> Ok st
      | Some r \<Rightarrow>
          if e = [] \<or> a_etag r = [] then Err check_violation
          else if exists_row (\<lambda>o'. ob_asset o' = i \<and> ob_etag o' = a_etag r) (st_derivative_outbox st)
          then Ok st
          else if exists_row (\<lambda>o'. ob_event o' = e) (st_derivative_outbox st) then Err unique_violation
          else Ok (st\<lparr>st_derivative_outbox := st_derivative_outbox st
                       @ [new_outbox_row e i (a_etag r) now]\<rparr>))"

definition ApplyScanResult :: "scan_result \<Rightarrow> time \<Rightarrow> store \<Rightarrow> bool result \<times> store" where
  "ApplyScanResult res now st = tx st
     (bindR (INSERT_scan_event res now st) (\<lambda>(inserted, st1).
        if \<not> inserted then Ok (False, st)
        else if affected (scan_fence res) (st_assets st1) \<noteq> 1 then Err ErrConflict
        else if \<not> known_scan (res_status res) then Err check_violation
        else bindR (enqueue_derivative (res_event res) (res_asset res) now
               (UPDATE_assets (scan_fence res) (scanned_row (res_status res) res now) st1))
             (\<lambda>st3. Ok (True, st3))))"

section \<open>Leasing and rescheduling\<close>

definition scan_claimable :: "time \<Rightarrow> asset_row \<Rightarrow> bool" where
  "scan_claimable now r \<longleftrightarrow> a_upload_status r = UploadCompleted \<and> a_scan_status r = ScanPending \<and> live r
     \<and> (ar_scan_next r = 0 \<or> ar_scan_next r \<le> now) \<and> (ar_scan_claimed r = 0 \<or> ar_scan_claimed r < now)"

definition lease_fence :: "string \<Rightarrow> string \<Rightarrow> string \<Rightarrow> time \<Rightarrow> asset_row \<Rightarrow> bool" where
  "lease_fence e i etag now r \<longleftrightarrow> a_id r = i \<and> a_etag r = etag \<and> a_scan_event r = e \<and> scan_claimable now r"

definition leased_row :: "time \<Rightarrow> int \<Rightarrow> asset_row \<Rightarrow> asset_row" where
  "leased_row now lease r = r\<lparr>a_scan_attempts := a_scan_attempts r + 1,
     ar_scan_claimed := now + lease, a_updated := now\<rparr>"

definition ClaimAssetScan ::
  "string \<Rightarrow> string \<Rightarrow> string \<Rightarrow> time \<Rightarrow> int \<Rightarrow> store \<Rightarrow> (asset \<times> scan_claim_state) result \<times> store" where
  "ClaimAssetScan e i etag now lease st =
     (let st1 = UPDATE_assets (lease_fence e i etag now) (leased_row now lease) st
      in if affected (lease_fence e i etag now) (st_assets st) = 1
         then (bindR (GetAsset st1 i) (\<lambda>a. Ok (a, ScanClaimed)), st1)
         else (case GetAsset st1 i of
                 Inl e \<Rightarrow> if e = ErrNotFound then Ok (zero_asset, ScanTerminal) else Err e
               | Inr a \<Rightarrow> if a_scan_status a = ScanPending \<and> a_etag a = etag \<and> a_scan_event a = e
                         then Ok (a, ScanBusy) else Ok (a, ScanTerminal), st1))"

definition ClaimPendingScan :: "time \<Rightarrow> int \<Rightarrow> store \<Rightarrow> asset option result \<times> store" where
  "ClaimPendingScan now lease st =
     (case min_row (\<lambda>r. (if ar_scan_next r = 0 then a_created r else ar_scan_next r, a_created r))
             (filter (scan_claimable now) (st_assets st)) of
        None \<Rightarrow> (Ok None, st)
      | Some r \<Rightarrow>
          let st1 = UPDATE_assets (\<lambda>s. a_id s = a_id r \<and> a_purged s = 0)
                (\<lambda>s. s\<lparr>a_scan_attempts := a_scan_attempts s + 1, ar_scan_claimed := now + lease\<rparr>) st
          in (bindR (GetAsset st1 (a_id r)) (\<lambda>a. Ok (Some a)), st1))"

definition retry_fence :: "string \<Rightarrow> int \<Rightarrow> asset_row \<Rightarrow> bool" where
  "retry_fence i n r \<longleftrightarrow> a_id r = i \<and> a_scan_attempts r = n \<and> a_scan_status r = ScanPending \<and> live r"

definition ScheduleScanRetry ::
  "string \<Rightarrow> int \<Rightarrow> string \<Rightarrow> time \<Rightarrow> time \<Rightarrow> store \<Rightarrow> unit result \<times> store" where
  "ScheduleScanRetry i n details nextAttempt now st =
     (let st1 = UPDATE_assets (retry_fence i n) (\<lambda>r. r\<lparr>a_scan_details := details,
                  ar_scan_next := nextAttempt, ar_scan_claimed := 0, a_updated := now\<rparr>) st
      in if affected (retry_fence i n) (st_assets st) \<noteq> 1
         then (Err (if exists_row (\<lambda>r. a_id r = i \<and> live r) (st_assets st1)
                    then ErrConflict else ErrNotFound), st1)
         else (Ok (), st1))"

definition ScheduleAssetScanRetry ::
  "string \<Rightarrow> int \<Rightarrow> string \<Rightarrow> string \<Rightarrow> time \<Rightarrow> time \<Rightarrow> store \<Rightarrow> unit result \<times> store" where
  "ScheduleAssetScanRetry i n details category nextAttempt now st =
     (let st1 = UPDATE_assets (retry_fence i n) (\<lambda>r. r\<lparr>a_scan_details := details,
                  a_scan_failure := category, ar_scan_next := nextAttempt,
                  ar_scan_claimed := 0, a_updated := now\<rparr>) st
      in if affected (retry_fence i n) (st_assets st) \<noteq> 1 then (Err ErrConflict, st1)
         else (Ok (), st1))"

section \<open>Poison\<close>

definition poison_ok :: "poison_row \<Rightarrow> bool" where
  "poison_ok p \<longleftrightarrow> po_id p \<noteq> [] \<and> po_reason p \<noteq> [] \<and> po_dequeue p \<ge> 0 \<and> po_source p \<noteq> []"

definition new_poison_row :: "poison \<Rightarrow> time \<Rightarrow> poison_row" where
  "new_poison_row p now = poison.extend p (poison_row.fields now 0 0 [])"

text \<open>
  Insert a poison record unless its id is there, then tell whether it still has to be forwarded.
\<close>

definition record_poison :: "poison \<Rightarrow> time \<Rightarrow> poison_row tbl \<Rightarrow> (bool \<times> poison_row tbl) result" where
  "record_poison p now t =
     (if \<not> poison_ok (new_poison_row p now) then Err check_violation
      else case sel1 (\<lambda>q. po_id q = po_id p) t of
        Some q \<Rightarrow> Ok (pr_forwarded q = 0, t)
      | None \<Rightarrow> Ok (True, t @ [new_poison_row p now]))"

definition forward_poison :: "string \<Rightarrow> time \<Rightarrow> poison_row tbl \<Rightarrow> poison_row tbl" where
  "forward_poison i now t = upd_where (\<lambda>q. po_id q = i)
     (\<lambda>q. q\<lparr>pr_forwarded := (if pr_forwarded q = 0 then now else pr_forwarded q)\<rparr>) t"

definition RecordScanPoison :: "poison \<Rightarrow> time \<Rightarrow> store \<Rightarrow> bool result \<times> store" where
  "RecordScanPoison p now st = tx st
     (bindR (record_poison p now (st_scan_poison st)) (\<lambda>(b, t). Ok (b, st\<lparr>st_scan_poison := t\<rparr>)))"

definition FailScanToPoison :: "scan_result \<Rightarrow> poison \<Rightarrow> time \<Rightarrow> store \<Rightarrow> bool result \<times> store" where
  "FailScanToPoison res p now st = tx st
     (bindR (INSERT_scan_event res now st) (\<lambda>(inserted, st1).
        bindR (if \<not> inserted then Ok st1
               else if affected (scan_fence res) (st_assets st1) \<noteq> 1 then Err ErrConflict
               else Ok (UPDATE_assets (scan_fence res) (scanned_row ScanFailed res now) st1))
          (\<lambda>st2. bindR (record_poison p now (st_scan_poison st2))
             (\<lambda>(b, t). Ok (b, st2\<lparr>st_scan_poison := t\<rparr>)))))"

definition MarkScanPoisonForwarded :: "string \<Rightarrow> time \<Rightarrow> store \<Rightarrow> unit result \<times> store" where
  "MarkScanPoisonForwarded i now st =
     (Ok (), st\<lparr>st_scan_poison := forward_poison i now (st_scan_poison st)\<rparr>)"

section \<open>Requeueing a failed scan\<close>

definition requeued_row :: "scan_request \<Rightarrow> time \<Rightarrow> asset_row \<Rightarrow> asset_row" where
  "requeued_row q now s = s\<lparr>a_scan_status := ScanPending, a_scan_details := [],
     a_scan_signature := [], a_scan_failure := [], a_scan_event := sr_event q,
     a_scan_attempts := 0, ar_scan_next := now, ar_scan_claimed := 0, a_updated := now\<rparr>"

definition RequeueFailedScan ::
  "env \<Rightarrow> string \<Rightarrow> string \<Rightarrow> scan_request \<Rightarrow> time \<Rightarrow> store \<Rightarrow> unit result \<times> store" where
  "RequeueFailedScan env i owner q now st = tx st
     (if sr_event q = [] \<or> sr_asset q \<noteq> i \<or> sr_etag q = [] \<or> sr_created q = 0 then Err ErrInvalidInput
      else case sel1 (\<lambda>r. a_id r = i \<and> a_owner_service r = owner \<and> a_etag r = sr_etag q
                        \<and> a_scan_status r = ScanFailed \<and> live r) (st_assets st) of
        None \<Rightarrow> Err ErrInvalidInput
      | Some r \<Rightarrow>
          let P = (\<lambda>s. a_id s = i);
              st1 = UPDATE_assets P (requeued_row q now) st
          in if affected P (st_assets st) \<noteq> 1 then Err ErrConflict
             else bindR (INSERT_scan_outbox q st1) (\<lambda>st2.
               let st3 = (if a_scan_event r \<noteq> []
                    then st2\<lparr>st_scan_poison := upd_where
                           (\<lambda>p. po_event p = a_scan_event r \<and> pr_replayed p = 0)
                           (\<lambda>p. p\<lparr>pr_replayed := now,
                                 pr_replay_event := (if pr_replay_event p = [] then sr_event q
                                                     else pr_replay_event p)\<rparr>) (st_scan_poison st2)\<rparr>
                    else st2)
               in bindR (audit_upload env ''asset.scan.retry'' r now st3) (\<lambda>st4. Ok ((), st4))))"

section \<open>What the operations do\<close>

lemma scanned_row_keeps [simp, key_keep]:
  "a_id (scanned_row s res now r) = a_id r" "a_upload_status (scanned_row s res now r) = a_upload_status r"
  "a_etag (scanned_row s res now r) = a_etag r" "live (scanned_row s res now r) = live r"
  "a_scan_status (scanned_row s res now r) = s"
  "a_processing_status (scanned_row s res now r) = a_processing_status r"
  "a_detected_mime (scanned_row s res now r) = a_detected_mime r"
  by (simp_all add: scanned_row_def live_def)

lemma enqueue_derivative_frame:
  assumes "enqueue_derivative e i now st = Inr st'"
  shows "\<exists>rows. st' = st\<lparr>st_derivative_outbox := st_derivative_outbox st @ rows\<rparr>
     \<and> (\<forall>o'\<in>set rows. ob_event o' = e \<and> ob_asset o' = i)"
proof (cases "sel1 (derivative_ready i) (st_assets st)")
  case None
  then show ?thesis using assms by (intro exI [of _ "[]"]) (simp add: enqueue_derivative_def)
next
  case (Some r)
  show ?thesis
  proof (cases "exists_row (\<lambda>o'. ob_asset o' = i \<and> ob_etag o' = a_etag r) (st_derivative_outbox st)")
    case True
    then have "st' = st\<lparr>st_derivative_outbox := st_derivative_outbox st @ []\<rparr>"
      using assms Some by (auto simp: enqueue_derivative_def split: if_splits)
    then show ?thesis by (intro exI [of _ "[]"]) simp
  next
    case False
    then have "st' = st\<lparr>st_derivative_outbox := st_derivative_outbox st @ [new_outbox_row e i (a_etag r) now]\<rparr>"
      using assms Some by (auto simp: enqueue_derivative_def split: if_splits)
    then show ?thesis by (intro exI [of _ "[new_outbox_row e i (a_etag r) now]"]) (simp add: new_outbox_row_def)
  qed
qed

lemma INSERT_scan_event_Ok:
  "INSERT_scan_event res now st = Inr (b, st') \<longleftrightarrow>
     (if has_scan_event st (res_event res) then \<not> b \<and> st' = st
      else b \<and> (\<exists>r\<in>set (st_assets st). a_id r = res_asset res)
        \<and> st' = st\<lparr>st_scan_events := st_scan_events st @
        [\<lparr>se_event = res_event res, se_asset = res_asset res, se_status = res_status res,
          se_details = res_details res, se_etag = res_etag res, se_created = now\<rparr>]\<rparr>)"
  by (auto simp: INSERT_scan_event_def)

lemma scan_fence_affected:
  assumes "wf_assets st" "affected (scan_fence res) (st_assets st) = 1"
  obtains r where "asset_of st (res_asset res) = Some r" "scan_fence res r"
  using affected_asset [OF assms(1), of "scan_fence res" "res_asset res"] assms(2)
  by (auto simp: scan_fence_def)

text \<open>A result was applied: what it required and what it changed.\<close>

lemma ApplyScanResult_applied:
  assumes "ApplyScanResult res now st = (Ok True, st')" "wf_assets st"
  obtains r where "\<not> has_scan_event st (res_event res)"
    "asset_of st (res_asset res) = Some r" "scan_fence res r" "known_scan (res_status res)"
    "asset_of st' = (asset_of st)(res_asset res \<mapsto> scanned_row (res_status res) res now r)"
    "has_scan_event st' (res_event res)" "wf_assets st'"
    "st_sessions st' = st_sessions st" "st_scan_outbox st' = st_scan_outbox st"
proof -
  obtain st1 st3 where ev: "INSERT_scan_event res now st = Inr (True, st1)"
    and aff: "affected (scan_fence res) (st_assets st1) = 1" and known: "known_scan (res_status res)"
    and enq: "enqueue_derivative (res_event res) (res_asset res) now
        (UPDATE_assets (scan_fence res) (scanned_row (res_status res) res now) st1) = Inr st'"
    using assms(1) unfolding ApplyScanResult_def tx_Ok by (auto split: if_splits prod.splits)
  have new: "\<not> has_scan_event st (res_event res)" and st1: "st_assets st1 = st_assets st"
      "has_scan_event st1 (res_event res)" "st_sessions st1 = st_sessions st"
      "st_scan_outbox st1 = st_scan_outbox st"
    using ev by (auto simp: INSERT_scan_event_Ok has_scan_event_def split: if_splits)
  have wf1: "wf_assets st1" using assms(2) st1 by (simp add: wf_assets_def)
  obtain r where r: "asset_of st1 (res_asset res) = Some r" "scan_fence res r"
    using scan_fence_affected [OF wf1 aff] by blast
  have same: "asset_of st1 = asset_of st" using st1(1) by (simp add: asset_of_def fun_eq_iff)
  obtain rows where st': "st' = UPDATE_assets (scan_fence res) (scanned_row (res_status res) res now) st1
      \<lparr>st_derivative_outbox := st_derivative_outbox
         (UPDATE_assets (scan_fence res) (scanned_row (res_status res) res now) st1) @ rows\<rparr>"
    using enqueue_derivative_frame [OF enq] by blast
  have assets': "st_assets st' = st_assets (UPDATE_assets (scan_fence res)
        (scanned_row (res_status res) res now) st1)"
    by (simp add: st')
  have "asset_of st' i = asset_of (UPDATE_assets (scan_fence res)
        (scanned_row (res_status res) res now) st1) i" for i
    by (simp add: asset_of_def assets')
  then have "asset_of st' i = map_option (\<lambda>x. if scan_fence res x
        then scanned_row (res_status res) res now x else x) (asset_of st1 i)" for i
    by (simp add: asset_of_UPDATE)
  then have upd: "asset_of st' = (asset_of st)(res_asset res \<mapsto> scanned_row (res_status res) res now r)"
    using r by (auto simp: fun_eq_iff same map_option_case scan_fence_def split: option.splits)
  have "wf_assets st'"
    using wf1 wf_assets_UPDATE [of "scanned_row (res_status res) res now" "scan_fence res" st1] assets'
    by (simp add: wf_assets_def)
  then show thesis
    using that [OF new _ r(2) known upd] r(1) same st' st1 by (simp add: has_scan_event_def UPDATE_assets_def)
qed

lemma ApplyScanResult_seen:
  "has_scan_event st (res_event res) \<Longrightarrow> ApplyScanResult res now st = (Ok False, st)"
  by (simp add: ApplyScanResult_def INSERT_scan_event_def)

lemma ApplyScanResult_unfenced:
  assumes "wf_assets st" "\<not> has_scan_event st (res_event res)" "asset_of st (res_asset res) = Some r"
    and "\<not> scan_fence res r"
  shows "ApplyScanResult res now st = (Err ErrConflict, st)"
proof -
  obtain st1 where ev: "INSERT_scan_event res now st = Inr (True, st1)" "st_assets st1 = st_assets st"
    using assms(2,3) by (cases "INSERT_scan_event res now st")
      (auto simp: INSERT_scan_event_def split: if_splits)
  have "affected (scan_fence res) (st_assets st) \<noteq> 1"
    using scan_fence_affected [OF assms(1)] assms(3,4) by (metis option.inject)
  then show ?thesis using ev by (simp add: ApplyScanResult_def)
qed

lemma GetAsset_of:
  assumes "asset_of st i = Some r" "a_purged r = 0" "wf_assets st"
  shows "GetAsset st i = Ok (asset.truncate r)"
proof -
  have "sel1 (\<lambda>r. a_id r = i \<and> a_purged r = 0) (st_assets st) = Some r"
  proof (cases "sel1 (\<lambda>r. a_id r = i \<and> a_purged r = 0) (st_assets st)")
    case None
    then show ?thesis using assms by (auto simp: sel1_None)
  next
    case (Some s)
    then have "s \<in> set (st_assets st)" "a_id s = i" by (auto dest: sel1_Some)
    then have "s = r" using asset_of_mem [OF assms(3), of s] assms(1) by simp
    then show ?thesis using Some by simp
  qed
  then show ?thesis by (simp add: GetAsset_def getAsset_def)
qed

lemma leased_row_keeps [simp, key_keep]:
  "a_id (leased_row now lease r) = a_id r" "a_purged (leased_row now lease r) = a_purged r"
  "a_upload_status (leased_row now lease r) = a_upload_status r"
  "a_scan_status (leased_row now lease r) = a_scan_status r"
  "live (leased_row now lease r) = live r"
  by (simp_all add: leased_row_def live_def)

lemma ClaimAssetScan_claimed:
  assumes "ClaimAssetScan e i etag now lease st = (Ok (a, ScanClaimed), st1)" "wf_assets st"
  obtains r where "asset_of st i = Some r" "lease_fence e i etag now r"
    "a = asset.truncate (leased_row now lease r)"
    "asset_of st1 = (asset_of st)(i \<mapsto> leased_row now lease r)" "wf_assets st1"
    "st_scan_events st1 = st_scan_events st"
proof -
  have aff: "affected (lease_fence e i etag now) (st_assets st) = 1"
    using assms(1) by (auto simp: ClaimAssetScan_def Let_def split: if_splits sum.splits)
  have st1: "st1 = UPDATE_assets (lease_fence e i etag now) (leased_row now lease) st"
    and a: "GetAsset st1 i = Ok a"
    using assms(1) aff by (auto simp: ClaimAssetScan_def Let_def)
  obtain r where r: "asset_of st i = Some r" "lease_fence e i etag now r"
    using affected_asset [OF assms(2), of "lease_fence e i etag now" i] aff by (auto simp: lease_fence_def)
  have wf1: "wf_assets st1" using assms(2) by (simp add: st1 wf_assets_UPDATE)
  have upd: "asset_of st1 = (asset_of st)(i \<mapsto> leased_row now lease r)"
    using r by (auto simp: fun_eq_iff st1 asset_of_UPDATE map_option_case lease_fence_def split: option.splits)
  have "GetAsset st1 i = Ok (asset.truncate (leased_row now lease r))"
    by (rule GetAsset_of [OF _ _ wf1]) (use upd r in \<open>auto simp: lease_fence_def scan_claimable_def live_def\<close>)
  then show thesis using that r a upd wf1 by (simp add: st1 UPDATE_assets_def)
qed

section \<open>Properties\<close>

text \<open>
  C3.  A scan verdict is applied exactly once, and only by the attempt that owns the scan: an
  applied verdict found the asset pending, alive, with the ETag, the event and the attempt of
  the result, and set its status; every other asset is untouched; the same event again answers
  "already applied" without effect, and any other new event for the asset is a conflict
  without effect.
\<close>

theorem scan_verdict_once:
  assumes "ApplyScanResult res now st = (Ok True, st')" "wf_assets st" "res_status res \<noteq> ScanPending"
  shows "(\<exists>r. asset_of st (res_asset res) = Some r \<and> scan_fence res r
        \<and> asset_of st' = (asset_of st)(res_asset res \<mapsto> scanned_row (res_status res) res now r))
     \<and> (res_event res2 = res_event res \<longrightarrow> ApplyScanResult res2 now2 st' = (Ok False, st'))
     \<and> (res_asset res2 = res_asset res \<and> \<not> has_scan_event st' (res_event res2) \<longrightarrow>
          ApplyScanResult res2 now2 st' = (Err ErrConflict, st'))"
proof -
  obtain r where r: "asset_of st (res_asset res) = Some r" "scan_fence res r"
      "asset_of st' = (asset_of st)(res_asset res \<mapsto> scanned_row (res_status res) res now r)"
    and st': "has_scan_event st' (res_event res)" "wf_assets st'"
    using ApplyScanResult_applied [OF assms(1,2)] by metis
  have "\<not> scan_fence res2 (scanned_row (res_status res) res now r)"
    using assms(3) by (simp add: scan_fence_def)
  then show ?thesis
    using r st' ApplyScanResult_seen [of st' res2] ApplyScanResult_unfenced [OF st'(2), of res2] by auto
qed

definition demo_scanning :: store where
  "demo_scanning = snd (CompleteUpload demo_env demo_completed_asset demo_completed_session demo_request demo_opened)"

definition demo_claimed :: store where
  "demo_claimed = snd (ClaimAssetScan ''ev'' ''a1'' ''e1'' 20 30 demo_scanning)"

definition demo_verdict :: scan_result where
  "demo_verdict = \<lparr>res_event = ''ev'', res_asset = ''a1'', res_status = ScanClean, res_details = [],
     res_signature = ''sig'', res_failure = [], res_etag = ''e1'', res_expected_attempt = 1\<rparr>"

lemmas scan_eval = demo_scanning_def demo_claimed_def demo_verdict_def ClaimAssetScan_def
  lease_fence_def leased_row_def
  scan_claimable_def live_def GetAsset_def getAsset_def ApplyScanResult_def INSERT_scan_event_def
  has_scan_event_def scan_fence_def scanned_row_def enqueue_derivative_def derivative_ready_def
  derivable_mime_def wf_assets_def upload_eval demo_defs

lemma wf_demo_scanning: "wf_assets demo_scanning"
  by (simp add: scan_eval)

lemma demo_claim:
  "\<exists>a. ClaimAssetScan ''ev'' ''a1'' ''e1'' 20 30 demo_scanning = (Ok (a, ScanClaimed), demo_claimed)
     \<and> a_scan_attempts a = 1"
  by (simp add: scan_eval asset.defs)

lemma wf_demo_claimed: "wf_assets demo_claimed"
  by (simp add: scan_eval)

lemma demo_applied: "fst (ApplyScanResult demo_verdict 25 demo_claimed) = Ok True"
  by (simp add: scan_eval)

theorem scan_verdict_once_witness:
  "(let st' = snd (ApplyScanResult demo_verdict 25 demo_claimed)
    in ApplyScanResult (demo_verdict\<lparr>res_status := ScanInfected\<rparr>) 26 st' = (Ok False, st'))"
proof -
  have 1: "ApplyScanResult demo_verdict 25 demo_claimed = (Ok True, snd (ApplyScanResult demo_verdict 25 demo_claimed))"
    using demo_applied by (simp add: prod_eq_iff)
  have 2: "res_status demo_verdict \<noteq> ScanPending" by (simp add: demo_verdict_def)
  show ?thesis
    using scan_verdict_once [OF 1 wf_demo_claimed 2, of "demo_verdict\<lparr>res_status := ScanInfected\<rparr>" 26]
    by (simp add: Let_def)
qed

text \<open>
  The lease of a scan fences: a claim found the asset scannable with its lease over, counts
  one attempt, and until the lease ends every further claim of that event answers "busy" and
  changes nothing; a verdict that carries an attempt number other than the claimed one is a
  conflict without effect.
\<close>

theorem scan_lease_fences:
  assumes "ClaimAssetScan e i etag now lease st = (Ok (a, ScanClaimed), st1)" "wf_assets st"
    and "0 < now" "0 < lease"
  shows "(\<exists>r. asset_of st i = Some r \<and> scan_claimable now r \<and> a_scan_attempts a = a_scan_attempts r + 1)
     \<and> (now' \<le> now + lease \<longrightarrow> ClaimAssetScan e i etag now' lease' st1 = (Ok (a, ScanBusy), st1))
     \<and> (res_asset res = i \<and> res_expected_attempt res \<noteq> a_scan_attempts a
          \<and> \<not> has_scan_event st1 (res_event res) \<longrightarrow>
          ApplyScanResult res t st1 = (Err ErrConflict, st1))"
proof -
  obtain r where r: "asset_of st i = Some r" "lease_fence e i etag now r"
      "a = asset.truncate (leased_row now lease r)"
    and upd: "asset_of st1 = (asset_of st)(i \<mapsto> leased_row now lease r)" and wf1: "wf_assets st1"
    using ClaimAssetScan_claimed [OF assms(1,2)] by metis
  have row1: "asset_of st1 i = Some (leased_row now lease r)" using upd by simp
  have get: "GetAsset st1 i = Ok a"
    unfolding r(3) by (rule GetAsset_of [OF row1 _ wf1])
       (use r(2) in \<open>simp add: lease_fence_def scan_claimable_def live_def\<close>)
  have fields: "a_scan_attempts a = a_scan_attempts r + 1" "a_scan_status a = ScanPending"
      "a_etag a = etag" "a_scan_event a = e"
    using r(2,3) by (simp_all add: asset.defs leased_row_def lease_fence_def scan_claimable_def)
  have busy: "ClaimAssetScan e i etag now' lease' st1 = (Ok (a, ScanBusy), st1)" if "now' \<le> now + lease"
  proof -
    have none: "\<forall>x\<in>set (st_assets st1). \<not> lease_fence e i etag now' x"
    proof
      fix x assume "x \<in> set (st_assets st1)"
      then show "\<not> lease_fence e i etag now' x"
        using asset_of_mem [OF wf1, of x] row1 that assms(3,4)
        by (auto simp: lease_fence_def scan_claimable_def leased_row_def)
    qed
    then have "affected (lease_fence e i etag now') (st_assets st1) = 0"
      by (simp add: affected_0_iff)
    moreover have "UPDATE_assets (lease_fence e i etag now') (leased_row now' lease') st1 = st1"
      using none by (simp add: UPDATE_assets_def upd_where_none)
    ultimately show ?thesis using get fields by (simp add: ClaimAssetScan_def)
  qed
  have "ApplyScanResult res t st1 = (Err ErrConflict, st1)"
    if "res_asset res = i" "res_expected_attempt res \<noteq> a_scan_attempts a" "\<not> has_scan_event st1 (res_event res)"
    using that fields(1) row1
    by (intro ApplyScanResult_unfenced [OF wf1]) (auto simp: scan_fence_def leased_row_def)
  then show ?thesis using r(1,2) fields(1) busy by (auto simp: lease_fence_def)
qed

theorem scan_lease_fences_witness:
  "ApplyScanResult (demo_verdict\<lparr>res_expected_attempt := 0\<rparr>) 25 demo_claimed = (Err ErrConflict, demo_claimed)"
proof -
  obtain a where a: "ClaimAssetScan ''ev'' ''a1'' ''e1'' 20 30 demo_scanning = (Ok (a, ScanClaimed), demo_claimed)"
      "a_scan_attempts a = 1"
    using demo_claim by blast
  have "\<not> has_scan_event demo_claimed ''ev''" by (simp add: scan_eval)
  then show ?thesis
    using scan_lease_fences [OF a(1) wf_demo_scanning, where res = "demo_verdict\<lparr>res_expected_attempt := 0\<rparr>"] a(2)
    by (simp add: demo_verdict_def)
qed

lemma requeued_row_keeps [simp, key_keep]:
  "a_id (requeued_row q now r) = a_id r" "live (requeued_row q now r) = live r"
  "a_upload_status (requeued_row q now r) = a_upload_status r"
  "a_etag (requeued_row q now r) = a_etag r"
  by (simp_all add: requeued_row_def live_def)

lemma RequeueFailedScan_cases:
  assumes "RequeueFailedScan env i owner q now st = (Ok (), st')" "wf_assets st"
  obtains r evs poison where "asset_of st i = Some r" "a_owner_service r = owner" "a_etag r = sr_etag q"
    "a_scan_status r = ScanFailed" "live r" "sr_event q \<noteq> []" "sr_asset q = i"
    "sr_event q \<notin> ob_event ` set (st_scan_outbox st)"
    "st' = st\<lparr>st_assets := upd_where (\<lambda>s. a_id s = i) (requeued_row q now) (st_assets st),
              st_scan_outbox := st_scan_outbox st
                @ [new_outbox_row (sr_event q) (sr_asset q) (sr_etag q) (sr_created q)],
              st_scan_poison := poison, st_audit := st_audit st @ evs\<rparr>"
proof -
  let ?P = "\<lambda>r. a_id r = i \<and> a_owner_service r = owner \<and> a_etag r = sr_etag q
                        \<and> a_scan_status r = ScanFailed \<and> live r"
  have q: "sr_event q \<noteq> []" "sr_asset q = i"
    using assms(1) by (auto simp: RequeueFailedScan_def split: if_splits)
  obtain r where r: "sel1 ?P (st_assets st) = Some r"
    using assms(1) by (cases "sel1 ?P (st_assets st)") (auto simp: RequeueFailedScan_def split: if_splits)
  let ?st1 = "UPDATE_assets (\<lambda>s. a_id s = i) (requeued_row q now) st"
  obtain st2 where ins: "INSERT_scan_outbox q ?st1 = Inr st2"
    using assms(1) r by (auto simp: RequeueFailedScan_def Let_def split: if_splits)
  define poison where "poison = (if a_scan_event r \<noteq> [] then upd_where
                           (\<lambda>p. po_event p = a_scan_event r \<and> pr_replayed p = 0)
                           (\<lambda>p. p\<lparr>pr_replayed := now,
                                 pr_replay_event := (if pr_replay_event p = [] then sr_event q
                                                     else pr_replay_event p)\<rparr>) (st_scan_poison st2)
                    else st_scan_poison st2)"
  have audit: "audit_upload env ''asset.scan.retry'' r now (st2\<lparr>st_scan_poison := poison\<rparr>) = Inr st'"
    using assms(1) r ins by (auto simp: RequeueFailedScan_def Let_def poison_def split: if_splits)
  obtain evs where st': "st' = st2\<lparr>st_scan_poison := poison, st_audit := st_audit (st2\<lparr>st_scan_poison := poison\<rparr>) @ evs\<rparr>"
    using audit_upload_frame [OF audit] by blast
  have mem: "r \<in> set (st_assets st)" "?P r" using sel1_Some [OF r] by auto
  show thesis
  proof (rule that)
    show "asset_of st i = Some r" using asset_of_mem [OF assms(2) mem(1)] mem(2) by simp
    show "a_owner_service r = owner" "a_etag r = sr_etag q" "a_scan_status r = ScanFailed" "live r"
      using mem(2) by auto
    show "sr_event q \<noteq> []" "sr_asset q = i" by (rule q)+
    show "sr_event q \<notin> ob_event ` set (st_scan_outbox st)"
      using ins by (auto simp: INSERT_scan_outbox_Ok UPDATE_assets_def)
    show "st' = st\<lparr>st_assets := upd_where (\<lambda>s. a_id s = i) (requeued_row q now) (st_assets st),
              st_scan_outbox := st_scan_outbox st
                @ [new_outbox_row (sr_event q) (sr_asset q) (sr_etag q) (sr_created q)],
              st_scan_poison := poison, st_audit := st_audit st @ evs\<rparr>"
      using ins st' by (simp add: INSERT_scan_outbox_Ok UPDATE_assets_def)
  qed
qed

text \<open>
  Requeueing a failed scan starts it afresh: only a live asset of the owner whose scan failed
  is requeued; it is pending again under the new event with no attempts and can be claimed at
  once, its request is appended to the outbox, and a late verdict of the earlier event is a
  conflict without effect.
\<close>

theorem requeue_restarts_scan:
  assumes "RequeueFailedScan env i owner q now st = (Ok (), st')" "wf_assets st"
  shows "\<exists>r. asset_of st i = Some r \<and> a_scan_status r = ScanFailed \<and> a_owner_service r = owner
     \<and> asset_of st' = (asset_of st)(i \<mapsto> requeued_row q now r)
     \<and> st_scan_outbox st' = st_scan_outbox st @ [new_outbox_row (sr_event q) i (sr_etag q) (sr_created q)]
     \<and> (a_upload_status r = UploadCompleted \<longrightarrow> scan_claimable now (requeued_row q now r))
     \<and> (\<forall>res. res_asset res = i \<and> res_event res \<noteq> sr_event q \<and> \<not> has_scan_event st' (res_event res)
          \<longrightarrow> ApplyScanResult res t st' = (Err ErrConflict, st'))"
  using assms
proof (cases rule: RequeueFailedScan_cases)
  case (1 r evs poison)
  have upd: "asset_of st' = (asset_of st)(i \<mapsto> requeued_row q now r)"
  proof -
    have "asset_of st' j = asset_of (UPDATE_assets (\<lambda>s. a_id s = i) (requeued_row q now) st) j" for j
      by (simp add: asset_of_def 1(9) UPDATE_assets_def)
    then show ?thesis using 1(1)
      by (auto simp: fun_eq_iff asset_of_UPDATE map_option_case split: option.splits)
  qed
  have wf': "wf_assets st'"
    using assms(2) wf_assets_UPDATE [of "requeued_row q now" "\<lambda>s. a_id s = i" st]
    by (simp add: wf_assets_def 1(9) UPDATE_assets_def)
  have "ApplyScanResult res t st' = (Err ErrConflict, st')"
    if "res_asset res = i" "res_event res \<noteq> sr_event q" "\<not> has_scan_event st' (res_event res)" for res
    using that upd by (intro ApplyScanResult_unfenced [OF wf']) (auto simp: scan_fence_def requeued_row_def)
  moreover have "a_upload_status r = UploadCompleted \<longrightarrow> scan_claimable now (requeued_row q now r)"
    using 1(5) by (simp add: scan_claimable_def) (simp add: requeued_row_def)
  ultimately show ?thesis
    using 1 upd by (intro exI [of _ r]) simp
qed

definition demo_failed :: store where
  "demo_failed = snd (FailScanToPoison (demo_verdict\<lparr>res_status := ScanFailed\<rparr>)
     \<lparr>po_id = ''p'', po_event = ''ev'', po_asset = ''a1'', po_etag = ''e1'', po_reason = ''encrypted'',
      po_details = [], po_dequeue = 1, po_source = ''m'', po_body = ''b''\<rparr> 25 demo_claimed)"

definition demo_requeue :: scan_request where
  "demo_requeue = \<lparr>sr_event = ''ev2'', sr_asset = ''a1'', sr_etag = ''e1'', sr_attempts = 0, sr_created = 30\<rparr>"

lemmas requeue_eval = demo_failed_def demo_requeue_def FailScanToPoison_def record_poison_def
  poison_ok_def new_poison_row_def poison_row.defs poison.defs RequeueFailedScan_def requeued_row_def scan_eval

lemma demo_requeued: "fst (RequeueFailedScan demo_env ''a1'' ''hhc-web-api'' demo_requeue 30 demo_failed) = Ok ()"
  by (simp add: requeue_eval)

theorem requeue_restarts_scan_witness:
  "\<exists>r. asset_of (snd (RequeueFailedScan demo_env ''a1'' ''hhc-web-api'' demo_requeue 30 demo_failed)) ''a1''
      = Some (requeued_row demo_requeue 30 r)"
proof -
  have 1: "RequeueFailedScan demo_env ''a1'' ''hhc-web-api'' demo_requeue 30 demo_failed
     = (Ok (), snd (RequeueFailedScan demo_env ''a1'' ''hhc-web-api'' demo_requeue 30 demo_failed))"
    using demo_requeued by (simp add: prod_eq_iff)
  have 2: "wf_assets demo_failed" by (simp add: requeue_eval)
  show ?thesis using requeue_restarts_scan [OF 1 2, where t = 0] by fastforce
qed

end
