(* ===== verification/Store_Processing.thy ===== *)
theory Store_Processing
  imports Store_Scan
begin

text \<open>
  The derivative processing of an asset in \<open>internal/postgres/store.go\<close>: claiming an attempt
  (at most five, under a lease), completing it with the produced derivatives, rescheduling it,
  failing it, and the derivative poison table.
\<close>

section \<open>Claiming an attempt\<close>

abbreviation max_attempts :: int where "max_attempts \<equiv> 5"

definition processable :: "asset_row \<Rightarrow> bool" where
  "processable r \<longleftrightarrow> a_upload_status r = UploadCompleted \<and> a_scan_status r = ScanClean
     \<and> a_processing_status r = ProcessingPending \<and> live r"

definition processing_claimable :: "time \<Rightarrow> asset_row \<Rightarrow> bool" where
  "processing_claimable now r \<longleftrightarrow> processable r \<and> a_processing_attempts r < max_attempts
     \<and> (a_processing_next r = 0 \<or> a_processing_next r \<le> now)
     \<and> (a_processing_claimed r = 0 \<or> a_processing_claimed r < now)"

definition processing_exhausted :: "time \<Rightarrow> asset_row \<Rightarrow> bool" where
  "processing_exhausted now r \<longleftrightarrow> processable r \<and> a_processing_attempts r \<ge> max_attempts
     \<and> (a_processing_claimed r = 0 \<or> a_processing_claimed r < now)"

definition failed_row :: "string \<Rightarrow> time \<Rightarrow> asset_row \<Rightarrow> asset_row" where
  "failed_row details now r = r\<lparr>a_processing_status := ProcessingFailed, a_processing_error := details,
     a_processing_next := 0, a_processing_claimed := 0, a_updated := now\<rparr>"

definition attempt_row :: "time \<Rightarrow> int \<Rightarrow> asset_row \<Rightarrow> asset_row" where
  "attempt_row now lease r = r\<lparr>a_processing_attempts := a_processing_attempts r + 1,
     a_processing_claimed := now + lease\<rparr>"

definition ClaimPendingProcessing :: "time \<Rightarrow> int \<Rightarrow> store \<Rightarrow> asset option result \<times> store" where
  "ClaimPendingProcessing now lease st =
     (let st1 = UPDATE_assets (processing_exhausted now)
                  (failed_row ''processing lease expired after maximum attempts'' now) st
      in case min_row (\<lambda>r. (if a_processing_next r = 0 then a_updated r else a_processing_next r, a_updated r))
                (filter (processing_claimable now) (st_assets st1)) of
           None \<Rightarrow> (Ok None, st1)
         | Some r \<Rightarrow>
             let st2 = UPDATE_assets (\<lambda>s. a_id s = a_id r \<and> a_purged s = 0) (attempt_row now lease) st1
             in (bindR (GetAsset st2 (a_id r)) (\<lambda>a. Ok (Some a)), st2))"

definition ClaimProcessing ::
  "string \<Rightarrow> string \<Rightarrow> time \<Rightarrow> int \<Rightarrow> store \<Rightarrow> (asset \<times> processing_claim_state) result \<times> store" where
  "ClaimProcessing i etag now lease st =
     (case sel1 (\<lambda>r. a_id r = i \<and> a_etag r = etag \<and> derivable_mime (a_detected_mime r)
                    \<and> processing_claimable now r) (st_assets st) of
        None \<Rightarrow>
          (case GetAsset st i of
             Inl e \<Rightarrow> if e = ErrNotFound then Ok (zero_asset, ProcessingTerminal) else Err e
           | Inr a \<Rightarrow>
               if a_etag a = etag \<and> a_upload_status a = UploadCompleted \<and> a_scan_status a = ScanClean
                  \<and> a_processing_status a = ProcessingPending \<and> a_processing_attempts a < max_attempts
                  \<and> derivable_mime (a_detected_mime a) \<and> a_deleted a = 0
               then Ok (a, ProcessingDeferred) else Ok (a, ProcessingTerminal), st)
      | Some r \<Rightarrow>
          let st1 = UPDATE_assets (\<lambda>s. a_id s = a_id r) (attempt_row now lease) st
          in (bindR (GetAsset st1 (a_id r)) (\<lambda>a. Ok (a, ProcessingClaimed)), st1))"

section \<open>Finishing an attempt\<close>

definition processing_fence :: "string \<Rightarrow> string \<Rightarrow> int \<Rightarrow> asset_row \<Rightarrow> bool" where
  "processing_fence i etag n r \<longleftrightarrow> a_id r = i \<and> a_processing_status r = ProcessingPending
     \<and> a_etag r = etag \<and> a_processing_attempts r = n \<and> live r"

definition ready_row :: "time \<Rightarrow> asset_row \<Rightarrow> asset_row" where
  "ready_row now r = r\<lparr>a_processing_status := ProcessingReady, a_processing_error := [],
     a_processing_next := 0, a_processing_claimed := 0, a_updated := now\<rparr>"

definition derivative_check :: "derivative \<Rightarrow> bool" where
  "derivative_check d \<longleftrightarrow> d_variant d \<in> set [''small'', ''medium'', ''large'']
     \<and> d_width d > 0 \<and> d_height d > 0 \<and> d_size d > 0"

text \<open>\<open>INSERT ... ON CONFLICT (asset_id, variant) DO UPDATE\<close>.\<close>

definition upsert_derivative :: "derivative \<Rightarrow> derivative tbl \<Rightarrow> derivative tbl result" where
  "upsert_derivative d t =
     (let same = (\<lambda>x. d_asset x = d_asset d \<and> d_variant x = d_variant d) in
      if \<not> derivative_check d then Err check_violation
      else if exists_row (\<lambda>x. \<not> same x \<and> d_object_key x = d_object_key d) t then Err unique_violation
      else if exists_row same t then Ok (upd_where same (\<lambda>_. d) t)
      else Ok (t @ [d]))"

fun upsert_derivatives :: "string \<Rightarrow> derivative list \<Rightarrow> derivative tbl \<Rightarrow> derivative tbl result" where
  "upsert_derivatives i [] t = Ok t"
| "upsert_derivatives i (d # ds) t =
     bindR (upsert_derivative (d\<lparr>d_asset := i\<rparr>) t) (\<lambda>t'. upsert_derivatives i ds t')"

text \<open>The map from variants to the expected derivatives: a later entry wins.\<close>

definition by_variant :: "derivative list \<Rightarrow> string \<Rightarrow> derivative option" where
  "by_variant ds v = map_of (rev (map (\<lambda>d. (d_variant d, d)) ds)) v"

definition same_derivative :: "derivative \<Rightarrow> derivative \<Rightarrow> bool" where
  "same_derivative d w \<longleftrightarrow> d_asset d = d_asset w \<and> d_object_key d = d_object_key w
     \<and> d_mime d = d_mime w \<and> d_width d = d_width w \<and> d_height d = d_height w
     \<and> d_size d = d_size w \<and> d_etag d = d_etag w"

definition processingCommitted :: "store \<Rightarrow> string \<Rightarrow> string \<Rightarrow> int \<Rightarrow> derivative list \<Rightarrow> bool" where
  "processingCommitted st i etag n expected =
     (case sel1 (\<lambda>r. a_id r = i \<and> a_purged r = 0) (st_assets st) of
        None \<Rightarrow> False
      | Some r \<Rightarrow>
          if a_processing_status r \<noteq> ProcessingReady \<or> a_etag r \<noteq> etag \<or> a_processing_attempts r \<noteq> n
          then False
          else let rows = filter (\<lambda>d. d_asset d = i) (st_derivatives st)
               in list_all (\<lambda>d. case by_variant expected (d_variant d) of
                                  None \<Rightarrow> False | Some w \<Rightarrow> same_derivative d w) rows
                  \<and> length rows = length (remdups (map d_variant expected)))"

definition CompleteProcessing ::
  "string \<Rightarrow> string \<Rightarrow> int \<Rightarrow> derivative list \<Rightarrow> time \<Rightarrow> store \<Rightarrow> unit result \<times> store" where
  "CompleteProcessing i etag n ds now st =
     (if affected (processing_fence i etag n) (st_assets st) \<noteq> 1
      then (if processingCommitted st i etag n ds then Ok ()
            else if GetAsset st i = Err ErrNotFound then Err ErrNotFound
            else Err ErrConflict, st)
      else tx st
        (bindR (upsert_derivatives i ds (st_derivatives st)) (\<lambda>t.
           Ok ((), (UPDATE_assets (processing_fence i etag n) (ready_row now) st)\<lparr>st_derivatives := t\<rparr>))))"

definition FailProcessing ::
  "string \<Rightarrow> string \<Rightarrow> int \<Rightarrow> string \<Rightarrow> time \<Rightarrow> store \<Rightarrow> unit result \<times> store" where
  "FailProcessing i etag n details now st =
     (let st1 = UPDATE_assets (processing_fence i etag n) (failed_row details now) st
      in if affected (processing_fence i etag n) (st_assets st) \<noteq> 1 then (Err ErrNotFound, st1)
         else (Ok (), st1))"

definition ScheduleProcessingRetry ::
  "string \<Rightarrow> string \<Rightarrow> int \<Rightarrow> string \<Rightarrow> time \<Rightarrow> time \<Rightarrow> store \<Rightarrow> unit result \<times> store" where
  "ScheduleProcessingRetry i etag n details nextAttempt now st =
     (let st1 = UPDATE_assets (processing_fence i etag n)
                  (\<lambda>r. r\<lparr>a_processing_error := details, a_processing_next := nextAttempt,
                       a_processing_claimed := 0, a_updated := now\<rparr>) st
      in if affected (processing_fence i etag n) (st_assets st) \<noteq> 1 then (Err ErrNotFound, st1)
         else (Ok (), st1))"

definition GetDerivative :: "store \<Rightarrow> string \<Rightarrow> string \<Rightarrow> derivative result" where
  "GetDerivative st i variant =
     (case sel1 (\<lambda>d. d_asset d = i \<and> d_variant d = variant
               \<and> exists_row (\<lambda>r. a_id r = i \<and> a_purged r = 0) (st_assets st)) (st_derivatives st) of
        None \<Rightarrow> Err ErrNotFound
      | Some d \<Rightarrow> Ok d)"

section \<open>Derivative poison\<close>

definition RecordDerivativePoison :: "poison \<Rightarrow> time \<Rightarrow> store \<Rightarrow> bool result \<times> store" where
  "RecordDerivativePoison p now st = tx st
     (bindR (record_poison p now (st_derivative_poison st))
        (\<lambda>(b, t). Ok (b, st\<lparr>st_derivative_poison := t\<rparr>)))"

definition FailDerivativeToPoison ::
  "processing_failure \<Rightarrow> poison \<Rightarrow> time \<Rightarrow> store \<Rightarrow> bool result \<times> store" where
  "FailDerivativeToPoison f p now st = tx st
     (let P = processing_fence (pf_asset f) (pf_etag f) (pf_expected_attempt f) in
      bindR (if affected P (st_assets st) = 1
             then Ok (UPDATE_assets P (failed_row (pf_details f) now) st)
             else case sel1 (\<lambda>r. a_id r = pf_asset f \<and> a_purged r = 0) (st_assets st) of
               None \<Rightarrow> Err ErrNotFound
             | Some r \<Rightarrow> if a_processing_status r \<noteq> ProcessingFailed \<or> a_etag r \<noteq> pf_etag f
                        then Err ErrConflict else Ok st)
        (\<lambda>st1. bindR (record_poison p now (st_derivative_poison st1))
           (\<lambda>(b, t). Ok (b, st1\<lparr>st_derivative_poison := t\<rparr>))))"

definition MarkDerivativePoisonForwarded :: "string \<Rightarrow> time \<Rightarrow> store \<Rightarrow> unit result \<times> store" where
  "MarkDerivativePoisonForwarded i now st =
     (Ok (), st\<lparr>st_derivative_poison := forward_poison i now (st_derivative_poison st)\<rparr>)"

section \<open>What the operations do\<close>

lemma processing_rows_keep [simp, key_keep]:
  "a_id (failed_row d now r) = a_id r" "a_id (attempt_row now lease r) = a_id r" "a_id (ready_row now r) = a_id r"
  "live (failed_row d now r) = live r" "live (attempt_row now lease r) = live r" "live (ready_row now r) = live r"
  "a_purged (ready_row now r) = a_purged r" "a_purged (attempt_row now lease r) = a_purged r"
  "a_processing_attempts (failed_row d now r) = a_processing_attempts r"
  "a_processing_attempts (ready_row now r) = a_processing_attempts r"
  "a_upload_status (failed_row d now r) = a_upload_status r"
  "a_upload_status (attempt_row now lease r) = a_upload_status r"
  "a_upload_status (ready_row now r) = a_upload_status r"
  by (simp_all add: failed_row_def attempt_row_def ready_row_def live_def)

text \<open>The bound on the attempts, which every processing operation keeps.\<close>

definition attempts_bounded :: "store \<Rightarrow> bool" where
  "attempts_bounded st \<longleftrightarrow> (\<forall>r\<in>set (st_assets st). a_processing_attempts r \<le> max_attempts)"

lemma attempts_bounded_UPDATE:
  assumes "attempts_bounded st"
    and "\<And>r. r \<in> set (st_assets st) \<Longrightarrow> P r \<Longrightarrow> a_processing_attempts (f r) \<le> max_attempts"
  shows "attempts_bounded (UPDATE_assets P f st)"
  using assms unfolding attempts_bounded_def UPDATE_assets_def by (auto simp: set_upd_where)

lemma ClaimProcessing_bounded:
  assumes "attempts_bounded st" "wf_assets st"
  shows "attempts_bounded (snd (ClaimProcessing i etag now lease st))"
proof (cases "sel1 (\<lambda>r. a_id r = i \<and> a_etag r = etag \<and> derivable_mime (a_detected_mime r)
                    \<and> processing_claimable now r) (st_assets st)")
  case None
  then show ?thesis using assms(1) by (simp add: ClaimProcessing_def)
next
  case (Some r)
  then have r: "r \<in> set (st_assets st)" "a_processing_attempts r < max_attempts"
    by (auto simp: processing_claimable_def dest!: sel1_Some)
  have "attempts_bounded (UPDATE_assets (\<lambda>s. a_id s = a_id r) (attempt_row now lease) st)"
  proof (rule attempts_bounded_UPDATE [OF assms(1)])
    fix s assume "s \<in> set (st_assets st)" "a_id s = a_id r"
    then have "s = r" using keyed_eq [of a_id] assms(2) r(1) by (auto simp: wf_assets_def)
    then show "a_processing_attempts (attempt_row now lease s) \<le> max_attempts"
      using r(2) by (simp add: attempt_row_def)
  qed
  then show ?thesis using Some by (simp add: ClaimProcessing_def Let_def)
qed

lemma ClaimPendingProcessing_bounded:
  assumes "attempts_bounded st" "wf_assets st"
  shows "attempts_bounded (snd (ClaimPendingProcessing now lease st))"
proof -
  let ?st1 = "UPDATE_assets (processing_exhausted now)
                  (failed_row ''processing lease expired after maximum attempts'' now) st"
  let ?m = "min_row (\<lambda>r. (if a_processing_next r = 0 then a_updated r else a_processing_next r, a_updated r))
                (filter (processing_claimable now) (st_assets ?st1))"
  have 1: "attempts_bounded ?st1"
    by (rule attempts_bounded_UPDATE [OF assms(1)]) (use assms(1) in \<open>auto simp: attempts_bounded_def\<close>)
  have wf1: "wf_assets ?st1" using assms(2) by (simp add: wf_assets_UPDATE)
  show ?thesis
  proof (cases ?m)
    case None
    then show ?thesis using 1 by (simp add: ClaimPendingProcessing_def Let_def)
  next
    case (Some r)
    then have r: "r \<in> set (st_assets ?st1)" "a_processing_attempts r < max_attempts"
      using min_row_in [OF Some] by (auto simp: processing_claimable_def)
    have "attempts_bounded (UPDATE_assets (\<lambda>s. a_id s = a_id r \<and> a_purged s = 0) (attempt_row now lease) ?st1)"
    proof (rule attempts_bounded_UPDATE [OF 1])
      fix s assume "s \<in> set (st_assets ?st1)" "a_id s = a_id r \<and> a_purged s = 0"
      then have "s = r" using keyed_eq [of a_id "st_assets ?st1" s r] wf1 r(1) by (auto simp: wf_assets_def)
      then show "a_processing_attempts (attempt_row now lease s) \<le> max_attempts"
        using r(2) by (simp add: attempt_row_def)
    qed
    then show ?thesis using Some by (simp add: ClaimPendingProcessing_def Let_def)
  qed
qed

text \<open>The derivative table as a map from variants, and what the upserts make of it.\<close>

definition drow :: "derivative tbl \<Rightarrow> string \<Rightarrow> string \<Rightarrow> derivative option" where
  "drow t i v = sel1 (\<lambda>x. d_asset x = i \<and> d_variant x = v) t"

abbreviation dkey :: "derivative \<Rightarrow> string \<times> string" where
  "dkey x \<equiv> (d_asset x, d_variant x)"

lemma drow_Some [dest]: "drow t i v = Some d \<Longrightarrow> d \<in> set t \<and> d_asset d = i \<and> d_variant d = v"
  by (auto simp: drow_def dest: sel1_Some)

lemma drow_mem:
  assumes "keyed dkey t" "d \<in> set t"
  shows "drow t (d_asset d) (d_variant d) = Some d"
  using keyed_sel1 [OF assms] by (simp add: drow_def)

lemma drow_upd_same:
  assumes "exists_row (\<lambda>x. d_asset x = d_asset d \<and> d_variant x = d_variant d) t"
  shows "drow (upd_where (\<lambda>x. d_asset x = d_asset d \<and> d_variant x = d_variant d) (\<lambda>_. d) t) i v
       = (if d_asset d = i \<and> d_variant d = v then Some d else drow t i v)"
proof (cases "d_asset d = i \<and> d_variant d = v")
  case True
  obtain x where "x \<in> set t" "d_asset x = i" "d_variant x = v" using assms True by auto
  then have "sel1 (\<lambda>x. d_asset x = i \<and> d_variant x = v)
      (upd_where (\<lambda>x. d_asset x = i \<and> d_variant x = v) (\<lambda>_. d) t) = Some d"
    using True by (induction t) auto
  then show ?thesis using True by (simp add: drow_def)
next
  case False
  then have "sel1 (\<lambda>x. d_asset x = i \<and> d_variant x = v)
      (upd_where (\<lambda>x. d_asset x = d_asset d \<and> d_variant x = d_variant d) (\<lambda>_. d) t)
      = sel1 (\<lambda>x. d_asset x = i \<and> d_variant x = v) t"
    by (induction t) auto
  then show ?thesis using False by (auto simp: drow_def)
qed

lemma upsert_derivative_drow:
  assumes "upsert_derivative d t = Inr t'"
  shows "drow t' i v = (if d_asset d = i \<and> d_variant d = v then Some d else drow t i v)"
proof (cases "exists_row (\<lambda>x. d_asset x = d_asset d \<and> d_variant x = d_variant d) t")
  case True
  then have "t' = upd_where (\<lambda>x. d_asset x = d_asset d \<and> d_variant x = d_variant d) (\<lambda>_. d) t"
    using assms by (simp add: upsert_derivative_def Let_def split: if_splits)
  then show ?thesis using drow_upd_same [OF True] by simp
next
  case False
  then have t': "t' = t @ [d]"
    using assms by (auto simp: upsert_derivative_def Let_def split: if_splits)
  have "drow t (d_asset d) (d_variant d) = None"
    using False by (auto simp: drow_def sel1_None)
  then show ?thesis by (auto simp: t' drow_def sel1_append split: option.splits)
qed

lemma upsert_derivative_keyed:
  assumes "upsert_derivative d t = Inr t'" "keyed dkey t"
  shows "keyed dkey t'"
proof (cases "exists_row (\<lambda>x. d_asset x = d_asset d \<and> d_variant x = d_variant d) t")
  case True
  then have "t' = upd_where (\<lambda>x. d_asset x = d_asset d \<and> d_variant x = d_variant d) (\<lambda>_. d) t"
    using assms by (simp add: upsert_derivative_def Let_def split: if_splits)
  moreover have "map dkey (upd_where (\<lambda>x. d_asset x = d_asset d \<and> d_variant x = d_variant d) (\<lambda>_. d) t)
      = map dkey t"
    by (induction t) auto
  ultimately show ?thesis using assms(2) by (simp add: keyed_def)
next
  case False
  then have "t' = t @ [d]"
    using assms by (auto simp: upsert_derivative_def Let_def split: if_splits)
  then show ?thesis using False assms(2) by auto
qed

lemma by_variant_Cons:
  "by_variant (d # ds) v = (case by_variant ds v of Some w \<Rightarrow> Some w
      | None \<Rightarrow> if d_variant d = v then Some d else None)"
  by (auto simp: by_variant_def map_add_def split: option.splits)

lemma by_variant_dom: "dom (by_variant ds) = d_variant ` set ds"
  by (induction ds) (auto simp: by_variant_Cons dom_def by_variant_def split: option.splits if_splits)

lemma by_variant_in: "by_variant ds v = Some w \<Longrightarrow> w \<in> set ds \<and> d_variant w = v"
  by (induction ds) (auto simp: by_variant_Cons by_variant_def split: option.splits if_splits)

text \<open>The comparison of a committed completion ignores the creation times.\<close>

abbreviation untimed :: "derivative \<Rightarrow> derivative" where
  "untimed d \<equiv> d\<lparr>d_created := 0\<rparr>"

lemma by_variant_untimed: "by_variant (map untimed ds) v = map_option untimed (by_variant ds v)"
proof (induction ds)
  case (Cons d ds)
  then show ?case by (auto simp: by_variant_Cons split: option.splits)
qed (simp add: by_variant_def)

lemma same_derivative_untimed: "same_derivative d (untimed w) = same_derivative d w"
  by (simp add: same_derivative_def)

lemma by_variant_same:
  assumes "map untimed ds = map untimed es" "by_variant es v = Some w" "same_derivative d w"
  shows "\<exists>w'. by_variant ds v = Some w' \<and> same_derivative d w'"
proof -
  have "map_option untimed (by_variant ds v) = Some (untimed w)"
    using assms(1,2) by (metis by_variant_untimed option.map(2))
  then obtain w' where "by_variant ds v = Some w'" "untimed w' = untimed w" by auto
  then show ?thesis using assms(3) same_derivative_untimed by metis
qed

lemma variants_untimed:
  assumes "map untimed ds = map untimed es"
  shows "map d_variant ds = map d_variant es"
proof -
  have "map d_variant (map untimed xs) = map d_variant xs" for xs by simp
  then show ?thesis using assms by metis
qed

lemma upsert_derivatives_drow:
  assumes "upsert_derivatives i ds t = Inr t'" "keyed dkey t" "\<forall>d\<in>set ds. d_asset d = i"
  shows "keyed dkey t' \<and> drow t' i v = (case by_variant ds v of Some w \<Rightarrow> Some w | None \<Rightarrow> drow t i v)"
  using assms
proof (induction ds arbitrary: t)
  case Nil
  then show ?case by (simp add: by_variant_def)
next
  case (Cons d ds)
  obtain t1 where t1: "upsert_derivative (d\<lparr>d_asset := i\<rparr>) t = Inr t1" "upsert_derivatives i ds t1 = Inr t'"
    using Cons.prems(1) by auto
  have same: "d\<lparr>d_asset := i\<rparr> = d" using Cons.prems(3) by simp
  show ?case
    using Cons.IH [OF t1(2) upsert_derivative_keyed [OF t1(1) Cons.prems(2)]] Cons.prems(3)
      upsert_derivative_drow [OF t1(1), of i v] same
    by (auto simp: by_variant_Cons split: option.splits)
qed

lemma rows_of_asset:
  assumes "keyed dkey t"
  shows "length (filter (\<lambda>d. d_asset d = i) t) = card (dom (drow t i))"
proof -
  let ?rows = "filter (\<lambda>d. d_asset d = i) t"
  have "distinct (map dkey ?rows)"
    using assms unfolding keyed_def by (simp add: distinct_map_filter)
  then have "distinct (map d_variant ?rows)"
    by (auto simp: distinct_map inj_on_def)
  then have "length ?rows = card (d_variant ` set ?rows)"
    by (metis distinct_card length_map list.set_map)
  moreover have "d_variant ` set ?rows = dom (drow t i)"
    using drow_mem [OF assms] by (force simp: dom_def)
  ultimately show ?thesis by simp
qed

lemma processing_fence_row:
  assumes "wf_assets st" "affected (processing_fence i etag n) (st_assets st) = 1"
  obtains r where "asset_of st i = Some r" "processing_fence i etag n r"
  using affected_asset [OF assms(1), of "processing_fence i etag n" i] assms(2)
  by (auto simp: processing_fence_def)

lemma asset_of_fenced_UPDATE:
  assumes "asset_of st i = Some r" "P r" "\<And>x. P x \<Longrightarrow> a_id x = i" "\<And>r. a_id (f r) = a_id r"
  shows "asset_of (UPDATE_assets P f st) = (asset_of st)(i \<mapsto> f r)"
  using assms by (auto simp: fun_eq_iff asset_of_UPDATE map_option_case split: option.splits)

lemma ready_row_closed [simp]: "\<not> processing_fence i etag n (ready_row now r)"
  by (simp add: processing_fence_def ready_row_def)

lemma find_unpurged:
  assumes "asset_of st i = Some r" "a_purged r = 0" "wf_assets st"
  shows "sel1 (\<lambda>r. a_id r = i \<and> a_purged r = 0) (st_assets st) = Some r"
proof (cases "sel1 (\<lambda>r. a_id r = i \<and> a_purged r = 0) (st_assets st)")
  case None
  then show ?thesis using assms by (auto simp: sel1_None)
next
  case (Some s)
  then have "s \<in> set (st_assets st)" "a_id s = i" by (auto dest: sel1_Some)
  then show ?thesis using asset_of_mem [OF assms(3), of s] assms(1) Some by simp
qed

lemma CompleteProcessing_fresh:
  assumes "CompleteProcessing i etag n ds now st = (Ok (), st')" "wf_assets st"
    and "affected (processing_fence i etag n) (st_assets st) = 1"
  obtains r t where "asset_of st i = Some r" "processing_fence i etag n r"
    "upsert_derivatives i ds (st_derivatives st) = Inr t"
    "asset_of st' = (asset_of st)(i \<mapsto> ready_row now r)" "wf_assets st'" "st_derivatives st' = t"
proof -
  obtain t where t: "upsert_derivatives i ds (st_derivatives st) = Inr t"
    and st': "st' = (UPDATE_assets (processing_fence i etag n) (ready_row now) st)\<lparr>st_derivatives := t\<rparr>"
    using assms(1,3) by (auto simp: CompleteProcessing_def)
  obtain r where r: "asset_of st i = Some r" "processing_fence i etag n r"
    using processing_fence_row [OF assms(2,3)] by blast
  have upd: "asset_of (UPDATE_assets (processing_fence i etag n) (ready_row now) st) = (asset_of st)(i \<mapsto> ready_row now r)"
    by (rule asset_of_fenced_UPDATE [where P = "processing_fence i etag n", OF r]) (auto simp: processing_fence_def)
  have wf': "wf_assets (UPDATE_assets (processing_fence i etag n) (ready_row now) st)"
    using assms(2) by (simp add: wf_assets_UPDATE)
  show thesis
    by (rule that [OF r t]) (use upd wf' in \<open>simp_all add: st' asset_of_def fun_eq_iff wf_assets_def\<close>)
qed

lemma completed_rows:
  assumes "CompleteProcessing i etag n ds now st = (Ok (), st')" "wf_assets st"
    and "affected (processing_fence i etag n) (st_assets st) = 1"
    and "keyed dkey (st_derivatives st)" "\<forall>d\<in>set ds. d_asset d = i"
    and "dom (drow (st_derivatives st) i) \<subseteq> d_variant ` set ds"
  shows "keyed dkey (st_derivatives st') \<and> drow (st_derivatives st') i v = by_variant ds v"
proof -
  obtain t where t: "upsert_derivatives i ds (st_derivatives st) = Inr t" "st_derivatives st' = t"
    using CompleteProcessing_fresh [OF assms(1-3)] by metis
  show ?thesis
  proof (cases "by_variant ds v")
    case None
    then have "v \<notin> d_variant ` set ds" using by_variant_dom [of ds] by auto
    then have "drow (st_derivatives st) i v = None" using assms(6) by auto
    then show ?thesis using upsert_derivatives_drow [OF t(1) assms(4,5), of v] None t(2) by simp
  next
    case (Some w)
    then show ?thesis using upsert_derivatives_drow [OF t(1) assms(4,5), of v] t(2) by simp
  qed
qed

lemma completed_closed:
  assumes "CompleteProcessing i etag n ds now st = (Ok (), st')" "wf_assets st"
    and "affected (processing_fence i etag n) (st_assets st) = 1"
  shows "affected (processing_fence i etag n) (st_assets st') \<noteq> 1"
  using CompleteProcessing_fresh [OF assms] processing_fence_row
  by (metis fun_upd_same option.inject ready_row_closed)

lemma completed_recognised:
  assumes "CompleteProcessing i etag n ds now st = (Ok (), st')" "wf_assets st"
    and "affected (processing_fence i etag n) (st_assets st) = 1"
    and "keyed dkey (st_derivatives st)" "\<forall>d\<in>set ds. d_asset d = i"
    and "dom (drow (st_derivatives st) i) \<subseteq> d_variant ` set ds"
    and "map untimed es = map untimed ds"
  shows "processingCommitted st' i etag n es"
proof -
  obtain r where r: "asset_of st i = Some r" "processing_fence i etag n r"
    and st': "asset_of st' = (asset_of st)(i \<mapsto> ready_row now r)" "wf_assets st'"
    using CompleteProcessing_fresh [OF assms(1-3)] by metis
  let ?t = "st_derivatives st'"
  have keyed': "keyed dkey ?t" and drows: "\<And>v. drow ?t i v = by_variant ds v"
    using completed_rows [OF assms(1-6)] by blast+
  have "asset_of st' i = Some (ready_row now r)" using st'(1) by simp
  then have found: "sel1 (\<lambda>r. a_id r = i \<and> a_purged r = 0) (st_assets st') = Some (ready_row now r)"
    using find_unpurged [OF _ _ st'(2)] r(2) by (simp add: processing_fence_def live_def)
  have rows: "\<exists>w. by_variant es (d_variant d) = Some w \<and> same_derivative d w" if "d \<in> set ?t" "d_asset d = i" for d
    by (rule by_variant_same [OF assms(7)])
       (use drow_mem [OF keyed' that(1)] drows that(2) in \<open>auto simp: same_derivative_def\<close>)
  have "length (filter (\<lambda>d. d_asset d = i) ?t) = card (dom (by_variant ds))"
    using rows_of_asset [OF keyed', of i] drows by (simp add: dom_def)
  also have "\<dots> = length (remdups (map d_variant ds))"
    by (simp add: by_variant_dom length_remdups_card_conv)
  finally have count: "length (filter (\<lambda>d. d_asset d = i) ?t) = length (remdups (map d_variant es))"
    using variants_untimed [OF assms(7)] by simp
  have "list_all (\<lambda>d. case by_variant es (d_variant d) of None \<Rightarrow> False
      | Some w \<Rightarrow> same_derivative d w) (filter (\<lambda>d. d_asset d = i) ?t)"
    using rows by (fastforce simp: list_all_iff)
  then show ?thesis
    using count r(2) by (simp add: processingCommitted_def found Let_def) (simp add: ready_row_def processing_fence_def)
qed

section \<open>Properties\<close>

text \<open>
  No asset is ever given more than five processing attempts: claiming an attempt, by the
  polling worker or for a queue message, keeps the bound.
\<close>

theorem processing_attempts_bounded:
  assumes "attempts_bounded st" "wf_assets st"
  shows "attempts_bounded (snd (ClaimProcessing i etag now lease st))
       \<and> attempts_bounded (snd (ClaimPendingProcessing now lease st))"
  using ClaimProcessing_bounded [OF assms] ClaimPendingProcessing_bounded [OF assms] by blast

definition demo_image_row :: asset_row where
  "demo_image_row = (new_asset_row (demo_upload\<lparr>a_processing_status := ProcessingPending\<rparr>))
     \<lparr>a_detected_mime := ''image/png'', a_etag := ''e1'', a_upload_status := UploadCompleted,
      a_scan_status := ScanClean, a_processing_attempts := 4\<rparr>"

definition demo_processing :: store where
  "demo_processing = empty_store\<lparr>st_assets := [demo_image_row]\<rparr>"

lemmas processing_eval = demo_processing_def demo_image_row_def new_asset_row_def demo_defs
  ClaimProcessing_def processing_claimable_def processable_def live_def derivable_mime_def
  attempt_row_def UPDATE_assets_def GetAsset_def getAsset_def wf_assets_def attempts_bounded_def
  processing_fence_def ready_row_def CompleteProcessing_def upsert_derivative_def derivative_check_def Let_def

theorem processing_attempts_bounded_witness:
  "attempts_bounded (snd (ClaimProcessing ''a1'' ''e1'' 50 30 demo_processing))
     \<and> (\<exists>a. fst (ClaimProcessing ''a1'' ''e1'' 50 30 demo_processing) = Ok (a, ProcessingClaimed)
          \<and> a_processing_attempts a = 5)"
proof -
  have "attempts_bounded demo_processing" "wf_assets demo_processing" by (simp_all add: processing_eval)
  from processing_attempts_bounded [OF this, of "''a1''" "''e1''" 50 30]
  show ?thesis by (simp add: processing_eval asset.defs)
qed

text \<open>
  Completing an attempt publishes its derivatives and can be repeated: a completion that
  found its attempt open makes the asset ready with exactly the given derivatives (when no
  foreign variant was stored before), and the same completion again, with any creation times,
  succeeds without changing the store, so a worker that lost the commit's answer may retry.
\<close>

theorem complete_processing_repeatable:
  assumes "CompleteProcessing i etag n ds now st = (Ok (), st')" "wf_assets st"
    and "affected (processing_fence i etag n) (st_assets st) = 1"
    and "keyed dkey (st_derivatives st)" "\<forall>d\<in>set ds. d_asset d = i"
    and "dom (drow (st_derivatives st) i) \<subseteq> d_variant ` set ds"
    and "map untimed es = map untimed ds"
  shows "(\<exists>r. asset_of st' i = Some r \<and> a_processing_status r = ProcessingReady)
     \<and> (\<forall>v. drow (st_derivatives st') i v = by_variant ds v)
     \<and> CompleteProcessing i etag n es now' st' = (Ok (), st')"
proof (intro conjI)
  obtain r where r: "asset_of st i = Some r" "asset_of st' = (asset_of st)(i \<mapsto> ready_row now r)"
    using CompleteProcessing_fresh [OF assms(1-3)] by metis
  then show "\<exists>r. asset_of st' i = Some r \<and> a_processing_status r = ProcessingReady"
    by (intro exI [of _ "ready_row now r"]) (simp add: ready_row_def)
  show "\<forall>v. drow (st_derivatives st') i v = by_variant ds v" using completed_rows [OF assms(1-6)] by blast
  show "CompleteProcessing i etag n es now' st' = (Ok (), st')"
    using completed_closed [OF assms(1-3)] completed_recognised [OF assms] by (simp add: CompleteProcessing_def)
qed

definition demo_derivative :: derivative where
  "demo_derivative = \<lparr>d_asset = ''a1'', d_variant = ''small'', d_object_key = ''k/small.jpg'',
     d_mime = ''image/jpeg'', d_width = 480, d_height = 320, d_size = 900, d_etag = ''x'', d_created = 55\<rparr>"

theorem complete_processing_repeatable_witness:
  "(let st' = snd (CompleteProcessing ''a1'' ''e1'' 4 [demo_derivative] 60 demo_processing)
    in CompleteProcessing ''a1'' ''e1'' 4 [demo_derivative\<lparr>d_created := 70\<rparr>] 70 st' = (Ok (), st'))"
proof -
  let ?r = "CompleteProcessing ''a1'' ''e1'' 4 [demo_derivative] 60 demo_processing"
  have 1: "?r = (Ok (), snd ?r)"
    by (simp add: prod_eq_iff) (simp add: processing_eval demo_derivative_def)
  have 2: "wf_assets demo_processing" by (simp add: processing_eval)
  have 3: "affected (processing_fence ''a1'' ''e1'' 4) (st_assets demo_processing) = 1"
    by (simp add: processing_eval)
  have 4: "keyed dkey (st_derivatives demo_processing)" "dom (drow (st_derivatives demo_processing) ''a1'') \<subseteq> A" for A
    by (auto simp add: demo_processing_def empty_store_def drow_def dom_def)
  have 5: "\<forall>d\<in>set [demo_derivative]. d_asset d = ''a1''" by (simp add: demo_derivative_def)
  show ?thesis
    using complete_processing_repeatable [OF 1 2 3 4(1) 5 4(2), of "[demo_derivative\<lparr>d_created := 70\<rparr>]" 70]
    by (simp add: Let_def)
qed

end
