(* ===== verification/Mutation_Log.thy ===== *)
theory Mutation_Log
  imports Store_Processing "HOL-Library.List_Lexorder" "HOL-Library.Char_ord"
begin

text \<open>
  The idempotency log of the collection mutations in \<open>internal/postgres/store.go\<close>:
  \<open>claimMutation\<close>, \<open>finishAuditedMutation\<close> and the frame every collection mutation puts around its
  body (claim the key, replay a stored response, otherwise run the body and store its response
  with an audit event in the same transaction).

  The locale \<open>mutation_log\<close> is the interface between the log and the mutations; its lemma
  \<open>replay\<close> is what makes every mutation idempotent, and is used through the interpretation on
  the code's log.
\<close>

section \<open>The frame of a mutation\<close>

type_synonym mutation_key = "string \<times> string \<times> string"

type_synonym audit_args = "string \<times> string \<times> metadata"

datatype mutation_claim = Claimed | Replay response

definition run_mutation ::
  "(mutation_key \<Rightarrow> string \<Rightarrow> time \<Rightarrow> 's \<Rightarrow> (mutation_claim \<times> 's) result)
   \<Rightarrow> (mutation_key \<Rightarrow> response \<Rightarrow> audit_args \<Rightarrow> time \<Rightarrow> 's \<Rightarrow> 's result)
   \<Rightarrow> ('v \<Rightarrow> response) \<Rightarrow> (response \<Rightarrow> 'v result) \<Rightarrow> ('s \<Rightarrow> ('v \<times> audit_args \<times> 's) result)
   \<Rightarrow> mutation_key \<Rightarrow> string \<Rightarrow> time \<Rightarrow> 's \<Rightarrow> ('v \<times> 's) result" where
  "run_mutation claim finish marshal unmarshal body k fp now s =
     bindR (claim k fp now s) (\<lambda>(c, s1).
       case c of
         Replay r \<Rightarrow> bindR (unmarshal r) (\<lambda>v. Ok (v, s1))
       | Claimed \<Rightarrow> bindR (body s1) (\<lambda>(v, a, s2).
           bindR (finish k (marshal v) a now s2) (\<lambda>s3. Ok (v, s3))))"

locale mutation_log =
  fixes logged :: "'s \<Rightarrow> mutation_key \<Rightarrow> (string \<times> response option) option"
    and claim :: "mutation_key \<Rightarrow> string \<Rightarrow> time \<Rightarrow> 's \<Rightarrow> (mutation_claim \<times> 's) result"
    and finish :: "mutation_key \<Rightarrow> response \<Rightarrow> audit_args \<Rightarrow> time \<Rightarrow> 's \<Rightarrow> 's result"
  assumes claim_fresh: "logged s k = None \<Longrightarrow> claim k fp now s = Inr (c, s') \<Longrightarrow>
      c = Claimed \<and> logged s' = (logged s)(k \<mapsto> (fp, None))"
    and claim_done: "logged s k = Some (fp, Some r) \<Longrightarrow> claim k fp now s = Inr (Replay r, s)"
    and claim_other: "logged s k = Some (fp', ro) \<Longrightarrow> fp' \<noteq> fp \<or> ro = None \<Longrightarrow>
      claim k fp now s = Inl ErrConflict"
    and finish_logs: "logged s k = Some (fp, None) \<Longrightarrow> finish k r a now s = Inr s' \<Longrightarrow>
      logged s' = (logged s)(k \<mapsto> (fp, Some r))"
begin

lemma fresh_success:
  assumes "run_mutation claim finish marshal unmarshal body k fp now s = Inr (v, s')"
    and "logged s k = None"
    and frame: "\<And>s1 v a s2. body s1 = Inr (v, a, s2) \<Longrightarrow> logged s2 = logged s1"
  shows "logged s' = (logged s)(k \<mapsto> (fp, Some (marshal v)))"
proof -
  obtain c s1 where c: "claim k fp now s = Inr (c, s1)"
    using assms(1) by (cases "claim k fp now s") (auto simp: run_mutation_def)
  then have claimed: "c = Claimed" "logged s1 = (logged s)(k \<mapsto> (fp, None))"
    using claim_fresh [OF assms(2)] by auto
  obtain a s2 where body: "body s1 = Inr (v, a, s2)" and fin: "finish k (marshal v) a now s2 = Inr s'"
    using assms(1) c claimed(1) by (auto simp: run_mutation_def)
  have l2: "logged s2 = (logged s)(k \<mapsto> (fp, None))" using frame [OF body] claimed(2) by simp
  then have "logged s2 k = Some (fp, None)" by simp
  from finish_logs [OF this fin] l2 show ?thesis by simp
qed

lemma success_logged:
  assumes "run_mutation claim finish marshal unmarshal body k fp now s = Inr (v, s')"
    and "\<And>s1 v a s2. body s1 = Inr (v, a, s2) \<Longrightarrow> logged s2 = logged s1"
    and "\<And>r v. unmarshal r = Inr v \<Longrightarrow> unmarshal (marshal v) = Inr v"
  shows "\<exists>r. logged s' k = Some (fp, Some r) \<and> (logged s k = None \<longrightarrow> r = marshal v)
           \<and> (logged s k \<noteq> None \<longrightarrow> s' = s \<and> unmarshal r = Inr v)"
proof (cases "logged s k")
  case None
  then show ?thesis using fresh_success [OF assms(1) None assms(2)] by simp
next
  case (Some x)
  obtain fp' r' where x: "x = (fp', r')" by (cases x)
  have "claim k fp now s \<noteq> Inl ErrConflict" using assms(1) by (auto simp: run_mutation_def)
  then have "\<not> (fp' \<noteq> fp \<or> r' = None)" using claim_other [of s k fp' r' fp now] Some x by blast
  then obtain r where r: "x = (fp, Some r)" using x by auto
  then show ?thesis using claim_done [of s k fp r now] Some assms(1) by (simp add: run_mutation_def)
qed

text \<open>Repeating a mutation that succeeded answers with its stored response and changes nothing.\<close>

lemma replay:
  assumes "run_mutation claim finish marshal unmarshal body k fp now s = Inr (v, s')"
    and "\<And>s1 v a s2. body s1 = Inr (v, a, s2) \<Longrightarrow> logged s2 = logged s1"
    and "\<And>v. unmarshal (marshal v) = Inr (norm v)"
    and "\<And>r v. unmarshal r = Inr v \<Longrightarrow> norm v = v"
  shows "run_mutation claim finish marshal unmarshal body' k fp now' s' = Inr (norm v, s')"
proof -
  have "\<exists>r. logged s' k = Some (fp, Some r) \<and> (logged s k = None \<longrightarrow> r = marshal v)
           \<and> (logged s k \<noteq> None \<longrightarrow> s' = s \<and> unmarshal r = Inr v)"
    by (rule success_logged [OF assms(1,2)]) (use assms(3,4) in auto)
  then obtain r where r: "logged s' k = Some (fp, Some r)" and
    v: "logged s k = None \<longrightarrow> r = marshal v" "logged s k \<noteq> None \<longrightarrow> unmarshal r = Inr v"
    by auto
  have "unmarshal r = Inr (norm v)"
    using v assms(3,4) by (cases "logged s k") auto
  then show ?thesis using claim_done [OF r] by (simp add: run_mutation_def)
qed

text \<open>A key that was used for another request is refused.\<close>

lemma other_request:
  assumes "logged s k = Some (fp', r)" "fp' \<noteq> fp"
  shows "run_mutation claim finish marshal unmarshal body k fp now s = Inl ErrConflict"
  using claim_other [OF assms(1), of fp now] assms(2) by (simp add: run_mutation_def)

end

section \<open>The code's log\<close>

definition mutation_at :: "mutation_key \<Rightarrow> mutation_row \<Rightarrow> bool" where
  "mutation_at k r \<longleftrightarrow> (mu_caller r, mu_operation r, mu_key r) = k"

definition claimMutation ::
  "mutation_key \<Rightarrow> string \<Rightarrow> time \<Rightarrow> store \<Rightarrow> (mutation_claim \<times> store) result" where
  "claimMutation k fp now st =
     (case k of (caller, operation, key) \<Rightarrow>
      case sel1 (mutation_at k) (st_mutations st) of
        None \<Rightarrow>
          if caller = [] \<or> operation = [] \<or> key = [] then Err check_violation
          else Ok (Claimed, st\<lparr>st_mutations := st_mutations st @
            [\<lparr>mu_caller = caller, mu_operation = operation, mu_key = key, mu_fingerprint = fp,
              mu_response = None, mu_created = now\<rparr>]\<rparr>)
      | Some r \<Rightarrow>
          (case mu_response r of
             None \<Rightarrow> Err ErrConflict
           | Some resp \<Rightarrow> if mu_fingerprint r \<noteq> fp then Err ErrConflict else Ok (Replay resp, st)))"

definition finishAuditedMutation ::
  "env \<Rightarrow> mutation_key \<Rightarrow> response \<Rightarrow> audit_args \<Rightarrow> time \<Rightarrow> store \<Rightarrow> store result" where
  "finishAuditedMutation env k resp a now st =
     (case a of (action, resource, meta) \<Rightarrow>
      let P = (\<lambda>r. mutation_at k r \<and> mu_response r = None);
          st1 = st\<lparr>st_mutations := upd_where P (\<lambda>r. r\<lparr>mu_response := Some resp\<rparr>) (st_mutations st)\<rparr>
      in if affected P (st_mutations st) \<noteq> 1 then Err ErrConflict
         else enqueueAuditTx env action resource meta now st1)"

definition logged_mutation :: "store \<Rightarrow> mutation_key \<Rightarrow> (string \<times> response option) option" where
  "logged_mutation st k = map_option (\<lambda>r. (mu_fingerprint r, mu_response r))
     (sel1 (mutation_at k) (st_mutations st))"

lemma mutation_at_upd [simp]: "mutation_at k (r\<lparr>mu_response := x\<rparr>) = mutation_at k r"
  by (simp add: mutation_at_def)

lemma mutation_at_other: "mutation_at k r \<Longrightarrow> mutation_at k' r \<longleftrightarrow> k' = k"
  by (auto simp: mutation_at_def)

text \<open>An UPDATE of the pending row of a key that affects one row fills in its response.\<close>

lemma logged_upd:
  assumes "logged_mutation st k = Some (fp, None)"
    and "affected (\<lambda>r. mutation_at k r \<and> mu_response r = None) (st_mutations st) = 1"
    and "st_mutations st' = upd_where (\<lambda>r. mutation_at k r \<and> mu_response r = None)
           (\<lambda>r. r\<lparr>mu_response := Some resp\<rparr>) (st_mutations st)"
  shows "logged_mutation st' = (logged_mutation st)(k \<mapsto> (fp, Some resp))"
proof
  fix k'
  let ?f = "\<lambda>r. if mutation_at k r \<and> mu_response r = None then r\<lparr>mu_response := Some resp\<rparr> else r"
  have "sel1 (mutation_at k') (upd_where (\<lambda>r. mutation_at k r \<and> mu_response r = None)
        (\<lambda>r. r\<lparr>mu_response := Some resp\<rparr>) t) = map_option ?f (sel1 (mutation_at k') t)" for t
    by (induction t) auto
  then have upd: "logged_mutation st' k' = map_option (\<lambda>r. (mu_fingerprint (?f r), mu_response (?f r)))
       (sel1 (mutation_at k') (st_mutations st))"
    unfolding logged_mutation_def assms(3) by (simp add: option.map_comp comp_def)
  show "logged_mutation st' k' = ((logged_mutation st)(k \<mapsto> (fp, Some resp))) k'"
  proof (cases "k' = k")
    case True
    obtain z where "sel1 (mutation_at k) (st_mutations st) = Some z" "mu_fingerprint z = fp"
        "mu_response z = None" "mutation_at k z"
      using assms(1) by (auto simp: logged_mutation_def dest: sel1_pred)
    then show ?thesis using upd True by simp
  next
    case False
    then have "\<And>r. sel1 (mutation_at k') (st_mutations st) = Some r \<Longrightarrow> ?f r = r"
      by (auto simp: mutation_at_def dest!: sel1_Some)
    then show ?thesis using upd False
      by (cases "sel1 (mutation_at k') (st_mutations st)") (auto simp: logged_mutation_def)
  qed
qed

lemma logged_frame: "st_mutations s2 = st_mutations s1 \<Longrightarrow> logged_mutation s2 = logged_mutation s1"
  by (simp add: logged_mutation_def fun_eq_iff)

interpretation store_log: mutation_log logged_mutation claimMutation "finishAuditedMutation env" for env
proof (unfold_locales, goal_cases)
  case (1 s k fp now c s')
  obtain caller operation key where k: "k = (caller, operation, key)" by (cases k)
  have none: "sel1 (mutation_at k) (st_mutations s) = None" using 1(1) by (simp add: logged_mutation_def)
  then have s': "c = Claimed" "s' = s\<lparr>st_mutations := st_mutations s @
            [\<lparr>mu_caller = caller, mu_operation = operation, mu_key = key, mu_fingerprint = fp,
              mu_response = None, mu_created = now\<rparr>]\<rparr>"
    using 1(2) k by (auto simp: claimMutation_def split: if_splits)
  have "logged_mutation s' k' = ((logged_mutation s)(k \<mapsto> (fp, None))) k'" for k'
    using none by (cases "sel1 (mutation_at k') (st_mutations s)"; cases "k' = k")
      (auto simp: logged_mutation_def s'(2) sel1_append mutation_at_def k)
  then show ?case using s'(1) by (simp add: fun_eq_iff)
next
  case (2 s k fp r now)
  then show ?case by (auto simp: logged_mutation_def claimMutation_def split: prod.splits)
next
  case (3 s k fp' ro fp now)
  obtain caller operation key where k: "k = (caller, operation, key)" by (cases k)
  obtain z where "sel1 (mutation_at k) (st_mutations s) = Some z" "mu_fingerprint z = fp'" "mu_response z = ro"
    using 3(1) by (auto simp: logged_mutation_def)
  then show ?case using 3(2) k by (cases ro) (auto simp: claimMutation_def)
next
  case (4 s k fp r a now s')
  obtain action resource meta where a: "a = (action, resource, meta)" by (cases a)
  let ?P = "\<lambda>r. mutation_at k r \<and> mu_response r = None"
  let ?s1 = "s\<lparr>st_mutations := upd_where ?P (\<lambda>x. x\<lparr>mu_response := Some r\<rparr>) (st_mutations s)\<rparr>"
  have aff: "affected ?P (st_mutations s) = 1"
    and enq: "enqueueAuditTx env action resource meta now ?s1 = Inr s'"
    using 4(2) by (auto simp: finishAuditedMutation_def a Let_def split: if_splits)
  obtain evs where "s' = ?s1\<lparr>st_audit := st_audit ?s1 @ evs\<rparr>"
    using enqueueAuditTx_frame [OF enq] by blast
  then have "st_mutations s' = upd_where ?P (\<lambda>x. x\<lparr>mu_response := Some r\<rparr>) (st_mutations s)" by simp
  then show ?case by (rule logged_upd [OF 4(1) aff])
qed

end
