(* ===== verification/Encoding.thy ===== *)
theory Encoding
  imports Prelude "HOL-Library.Char_ord"
begin

text \<open>
  The text encodings of Go's standard library that the sources use on bytes, which are characters
  here: lower-case hexadecimal (\<open>encoding/hex\<close>) and unpadded URL-safe base64
  (\<open>base64.RawURLEncoding\<close>), which skips line breaks and ignores spare trailing bits when decoding.
\<close>

section \<open>Hexadecimal\<close>

definition hex_digit :: "nat \<Rightarrow> char" where
  "hex_digit n = (''0123456789abcdef'' ! n)"

definition unhex :: "char \<Rightarrow> nat option" where
  "unhex c = (let n = of_char c :: nat in
     if 48 \<le> n \<and> n \<le> 57 then Some (n - 48)
     else if 97 \<le> n \<and> n \<le> 102 then Some (n - 87)
     else if 65 \<le> n \<and> n \<le> 70 then Some (n - 55)
     else None)"

fun hex_encode :: "string \<Rightarrow> string" where
  "hex_encode [] = []"
| "hex_encode (c # cs) = hex_digit (of_char c div 16) # hex_digit (of_char c mod 16) # hex_encode cs"

fun hex_decode :: "string \<Rightarrow> string option" where
  "hex_decode [] = Some []"
| "hex_decode [c] = None"
| "hex_decode (a # b # cs) = (case (unhex a, unhex b, hex_decode cs) of
     (Some x, Some y, Some r) \<Rightarrow> Some (char_of (16 * x + y) # r) | _ \<Rightarrow> None)"

lemma less_16_cases: "n < 16 \<Longrightarrow> n \<in> set [0 ..< 16 :: nat]"
  by simp

lemma unhex_hex_digit [simp]: "n < 16 \<Longrightarrow> unhex (hex_digit n) = Some n"
proof -
  have "list_all (\<lambda>n. unhex (hex_digit n) = Some n) [0 ..< 16]" by code_simp
  then show "n < 16 \<Longrightarrow> unhex (hex_digit n) = Some n" by (simp add: list_all_iff)
qed

lemma char_less_256 [simp]: "(of_char c :: nat) < 256"
proof -
  have "(of_char c :: nat) mod 256 < 256" by simp
  then show ?thesis by (simp only: of_char_mod_256)
qed

lemma hex_decode_encode [simp]: "hex_decode (hex_encode s) = Some s"
proof (induction s)
  case (Cons c cs)
  have "(of_char c :: nat) div 16 < 16" "(of_char c :: nat) mod 16 < 16"
    using char_less_256 [of c] by (simp_all add: div_less_iff_less_mult)
  moreover have "16 * ((of_char c :: nat) div 16) + of_char c mod 16 = of_char c" by simp
  ultimately show ?case using Cons by simp
qed simp

lemma length_hex_encode [simp]: "length (hex_encode s) = 2 * length s"
  by (induction s) simp_all

lemma length_hex_decode: "hex_decode s = Some r \<Longrightarrow> length s = 2 * length r"
  by (induction s arbitrary: r rule: hex_decode.induct) (auto split: option.splits)

text \<open>The canonical text of a hexadecimal string is the lower-case one.\<close>

lemma hex_encode_digits: "set (hex_encode s) \<subseteq> set ''0123456789abcdef''"
proof (induction s)
  case (Cons c cs)
  have "hex_digit n \<in> set ''0123456789abcdef''" if "n < 16" for n
    unfolding hex_digit_def by (rule nth_mem) (use that in simp)
  moreover have "(of_char c :: nat) div 16 < 16" "(of_char c :: nat) mod 16 < 16"
    using char_less_256 [of c] by (simp_all add: div_less_iff_less_mult)
  ultimately show ?case using Cons by simp
qed simp

lemma hex_decode_inj:
  assumes "hex_decode s = Some r" "set s \<subseteq> set ''0123456789abcdef''"
  shows "s = hex_encode r"
proof -
  have digit: "hex_digit n = c" if "unhex c = Some n" "c \<in> set ''0123456789abcdef''" for c n
  proof -
    have "list_all (\<lambda>c. map_option hex_digit (unhex c) = Some c) ''0123456789abcdef''" by code_simp
    then have "map_option hex_digit (unhex c) = Some c" using that(2) unfolding list_all_iff by blast
    then show ?thesis using that(1) by simp
  qed
  have less: "n < 16" if "unhex c = Some n" for c n
    using that by (auto simp: unhex_def Let_def split: if_splits)
  show ?thesis using assms
  proof (induction s arbitrary: r rule: hex_decode.induct)
    case (3 a b cs)
    obtain x y t where xy: "unhex a = Some x" "unhex b = Some y" "hex_decode cs = Some t"
        "r = char_of (16 * x + y) # t"
      using "3.prems"(1) by (auto split: option.splits)
    have "cs = hex_encode t" using "3.IH" xy "3.prems"(2) by simp
    moreover have "hex_digit x = a" "hex_digit y = b" using digit xy "3.prems"(2) by simp_all
    moreover have "(of_char (char_of (16 * x + y) :: char) :: nat) = 16 * x + y"
      using less [OF xy(1)] less [OF xy(2)] by simp
    moreover have "(16 * x + y) div 16 = x" "(16 * x + y) mod 16 = y" using less [OF xy(2)] by simp_all
    ultimately show ?case by (simp add: xy(4))
  qed simp_all
qed

section \<open>Base64\<close>

definition b64_char :: "nat \<Rightarrow> char" where
  "b64_char n = char_of (if n < 26 then n + 65 else if n < 52 then n + 71 else if n < 62 then n - 4
     else if n = 62 then 45 else 95)"

definition unb64 :: "char \<Rightarrow> nat option" where
  "unb64 c = (let n = of_char c :: nat in
     if 65 \<le> n \<and> n \<le> 90 then Some (n - 65)
     else if 97 \<le> n \<and> n \<le> 122 then Some (n - 71)
     else if 48 \<le> n \<and> n \<le> 57 then Some (n + 4)
     else if n = 45 then Some 62
     else if n = 95 then Some 63
     else None)"

fun sextets :: "nat list \<Rightarrow> nat list" where
  "sextets [] = []"
| "sextets [a] = [a div 4, (a mod 4) * 16]"
| "sextets [a, b] = [a div 4, (a mod 4) * 16 + b div 16, (b mod 16) * 4]"
| "sextets (a # b # c # r) = (a div 4) # ((a mod 4) * 16 + b div 16) # ((b mod 16) * 4 + c div 64) # (c mod 64) # sextets r"

fun octets :: "nat list \<Rightarrow> nat list option" where
  "octets [] = Some []"
| "octets [a] = None"
| "octets [a, b] = Some [a * 4 + b div 16]"
| "octets [a, b, c] = Some [a * 4 + b div 16, (b mod 16) * 16 + c div 4]"
| "octets (a # b # c # d # r) =
     map_option (\<lambda>t. (a * 4 + b div 16) # ((b mod 16) * 16 + c div 4) # ((c mod 4) * 64 + d) # t) (octets r)"

definition RawURLEncode :: "string \<Rightarrow> string" where
  "RawURLEncode s = map b64_char (sextets (map of_char s))"

definition RawURLDecode :: "string \<Rightarrow> string option" where
  "RawURLDecode s = Option.bind (those (map unb64 (filter (\<lambda>c. c \<noteq> CHR 0x0A \<and> c \<noteq> CHR 0x0D) s)))
     (\<lambda>ds. map_option (map char_of) (octets ds))"

lemma octets_sextets: "\<forall>x\<in>set bs. x < 256 \<Longrightarrow> octets (sextets bs) = Some bs"
proof (induction bs rule: sextets.induct)
  case (3 a b)
  have "(a mod 4 * 16 + b div 16) div 16 = a mod 4" "(a mod 4 * 16 + b div 16) mod 16 = b div 16"
    using 3 by (simp_all add: div_less_iff_less_mult)
  then show ?case by simp
next
  case (4 a b c r)
  have "(a mod 4 * 16 + b div 16) div 16 = a mod 4" "(a mod 4 * 16 + b div 16) mod 16 = b div 16"
      "(b mod 16 * 4 + c div 64) div 4 = b mod 16" "(b mod 16 * 4 + c div 64) mod 4 = c div 64"
    using 4 by (simp_all add: div_less_iff_less_mult)
  then show ?case using 4 by simp
qed simp_all

lemma sextets_less: "\<forall>x\<in>set bs. x < 256 \<Longrightarrow> \<forall>d\<in>set (sextets bs). d < 64"
proof (induction bs rule: sextets.induct)
  case (2 a)
  have "a div 4 < 64" "a mod 4 * 16 < 64" using 2 by (simp_all add: div_less_iff_less_mult)
  then show ?case by simp
next
  case (3 a b)
  have lt: "b div 16 < 16" "a mod 4 < 4" "b mod 16 < 16" "a div 4 < 64" using 3 by (simp_all add: div_less_iff_less_mult)
  have "a mod 4 * 16 + b div 16 < 64" "b mod 16 * 4 < 64" using lt by linarith+
  then show ?case using lt(4) by simp
next
  case (4 a b c r)
  have lt: "b div 16 < 16" "a mod 4 < 4" "b mod 16 < 16" "a div 4 < 64" "c div 64 < 4"
    using 4 by (simp_all add: div_less_iff_less_mult)
  have "a mod 4 * 16 + b div 16 < 64" "b mod 16 * 4 + c div 64 < 64" "c mod 64 < 64" using lt by simp_all
  moreover have "\<forall>d\<in>set (sextets r). d < 64" using 4 by simp
  ultimately show ?case using lt(4) by (simp only: sextets.simps list.set ball_simps simp_thms)
qed simp

lemma b64_inverse: "n < 64 \<Longrightarrow> unb64 (b64_char n) = Some n \<and> b64_char n \<noteq> CHR 0x0A \<and> b64_char n \<noteq> CHR 0x0D"
proof -
  assume n: "n < 64"
  have "of_char (char_of m :: char) = m" if "m < 256" for m :: nat using that by simp
  then have inv: "unb64 (b64_char n) = Some n" using n by (simp add: unb64_def b64_char_def Let_def) linarith
  have "unb64 (CHR 0x0A) = None" "unb64 (CHR 0x0D) = None" by code_simp+
  then show ?thesis using inv by auto
qed

text \<open>Decoding inverts encoding, so different bytes have different texts.\<close>

lemma RawURL_inverse [simp]: "RawURLDecode (RawURLEncode s) = Some s"
proof -
  let ?ds = "sextets (map of_char s) :: nat list"
  have ds: "\<forall>d\<in>set ?ds. d < 64" by (rule sextets_less) simp
  then have "filter (\<lambda>c. c \<noteq> CHR 0x0A \<and> c \<noteq> CHR 0x0D) (map b64_char ?ds) = map b64_char ?ds"
    using b64_inverse by (simp add: filter_id_conv)
  moreover have "those (map unb64 (map b64_char ns)) = Some ns" if "\<forall>d\<in>set ns. d < 64" for ns
    using that b64_inverse by (induction ns) simp_all
  moreover have "octets ?ds = Some (map of_char s)" by (rule octets_sextets) simp
  ultimately show ?thesis using ds
    by (simp add: RawURLDecode_def RawURLEncode_def comp_def)
qed

text \<open>The encoded text has no character with a meaning in a URL.\<close>

lemma b64_plain: "n < 64 \<Longrightarrow> b64_char n \<notin> {CHR ''?'', CHR ''&'', CHR ''/'', CHR ''.''}"
proof -
  assume n: "n < 64"
  have "unb64 (CHR ''?'') = None" "unb64 (CHR ''&'') = None" "unb64 (CHR ''/'') = None" "unb64 (CHR ''.'') = None" by code_simp+
  then show ?thesis using b64_inverse [OF n] by auto
qed

lemma RawURLEncode_plain: "set (RawURLEncode s) \<inter> {CHR ''?'', CHR ''&'', CHR ''/'', CHR ''.''} = {}"
proof -
  have "\<forall>d\<in>set (sextets (map of_char s)). d < 64" by (rule sextets_less) simp
  then show ?thesis using b64_plain by (fastforce simp: RawURLEncode_def)
qed

section \<open>UTF-8\<close>

text \<open>
  One step of ranging over a string: the code point, or \<open>None\<close> where the bytes are not valid UTF-8
  and Go yields \<open>U+FFFD\<close> for a single byte, and the rest.
\<close>

definition tail_byte :: "nat \<Rightarrow> bool" where
  "tail_byte b \<longleftrightarrow> 128 \<le> b \<and> b \<le> 191"

fun utf8_two :: "nat \<Rightarrow> nat list \<Rightarrow> nat option \<times> nat list" where
  "utf8_two a (b # r) = (if tail_byte b then (Some ((a - 192) * 64 + (b - 128)), r) else (None, b # r))"
| "utf8_two a r = (None, r)"

fun utf8_three :: "nat \<Rightarrow> nat list \<Rightarrow> nat option \<times> nat list" where
  "utf8_three a (b # c # r) =
     (if (if a = 224 then 160 else 128) \<le> b \<and> b \<le> (if a = 237 then 159 else 191) \<and> tail_byte c
      then (Some ((a - 224) * 4096 + (b - 128) * 64 + (c - 128)), r) else (None, b # c # r))"
| "utf8_three a r = (None, r)"

fun utf8_four :: "nat \<Rightarrow> nat list \<Rightarrow> nat option \<times> nat list" where
  "utf8_four a (b # c # d # r) =
     (if (if a = 240 then 144 else 128) \<le> b \<and> b \<le> (if a = 244 then 143 else 191) \<and> tail_byte c \<and> tail_byte d
      then (Some ((a - 240) * 262144 + (b - 128) * 4096 + (c - 128) * 64 + (d - 128)), r)
      else (None, b # c # d # r))"
| "utf8_four a r = (None, r)"

definition utf8_next :: "nat \<Rightarrow> nat list \<Rightarrow> nat option \<times> nat list" where
  "utf8_next a r =
     (if a < 128 then (Some a, r)
      else if 194 \<le> a \<and> a \<le> 223 then utf8_two a r
      else if 224 \<le> a \<and> a \<le> 239 then utf8_three a r
      else if 240 \<le> a \<and> a \<le> 244 then utf8_four a r
      else (None, r))"

lemma utf8_next_shorter: "length (snd (utf8_next a r)) \<le> length r"
proof -
  have "length (snd (utf8_two a r)) \<le> length r" by (cases "(a, r)" rule: utf8_two.cases) simp_all
  moreover have "length (snd (utf8_three a r)) \<le> length r" by (cases "(a, r)" rule: utf8_three.cases) simp_all
  moreover have "length (snd (utf8_four a r)) \<le> length r" by (cases "(a, r)" rule: utf8_four.cases) simp_all
  ultimately show ?thesis by (simp add: utf8_next_def)
qed

function utf8_runes :: "nat list \<Rightarrow> nat option list" where
  "utf8_runes [] = []"
| "utf8_runes (a # r) = fst (utf8_next a r) # utf8_runes (snd (utf8_next a r))"
  by pat_completeness auto
termination
  by (relation "measure length") (auto simp: le_imp_less_Suc utf8_next_shorter)

definition runes :: "string \<Rightarrow> nat option list" where
  "runes s = utf8_runes (map of_char s)"

definition utf8_ValidString :: "string \<Rightarrow> bool" where
  "utf8_ValidString s \<longleftrightarrow> None \<notin> set (runes s)"

fun IsControl :: "nat option \<Rightarrow> bool" where
  "IsControl None = False"
| "IsControl (Some n) = (n < 32 \<or> 127 \<le> n \<and> n < 160)"

definition has_control :: "string \<Rightarrow> bool" where
  "has_control s \<longleftrightarrow> list_ex IsControl (runes s)"

text \<open>Plain ASCII text is valid and is its own runes.\<close>

lemma runes_ascii:
  assumes "\<forall>c\<in>set s. (of_char c :: nat) < 128"
  shows "runes s = map (\<lambda>c. Some (of_char c)) s"
  using assms unfolding runes_def by (induction s) (simp_all add: utf8_next_def)

end
