(* ===== verification/Collections.thy ===== *)
theory Collections
  imports Mutation_Log Encoding
begin

text \<open>
  The media collections of \<open>internal/postgres/store.go\<close>: creating, renaming and deleting a
  collection, its access list, its items and their retention.  Every mutation runs in the frame
  of \<open>Mutation_Log\<close>; every visible change raises the revision of the collection by one and stamps
  the changed items with it, and a deletion leaves a tombstone and releases the ingested media
  no other item uses.
\<close>

section \<open>Inputs\<close>

record create_collection_input =
  cc_namespace :: string
  cc_name :: string
  cc_caller :: string
  cc_key :: string

record rename_collection_input =
  rc_collection :: string
  rc_name :: string
  rc_caller :: string
  rc_key :: string

record delete_collection_input =
  dc_collection :: string
  dc_caller :: string
  dc_key :: string

record add_acl_input =
  aci_collection :: string
  aci_subject_type :: subject_type
  aci_subject_id :: string
  aci_permission :: permission
  aci_caller :: string
  aci_actor :: string
  aci_request :: string
  aci_key :: string

record revoke_acl_input =
  rai_collection :: string
  rai_acl :: string
  rai_caller :: string
  rai_actor :: string
  rai_request :: string
  rai_key :: string

record add_item_input =
  ai_collection :: string
  ai_asset :: string
  ai_remote :: string
  ai_name :: string
  ai_source_revision :: string
  ai_caller :: string
  ai_key :: string

record delete_item_input =
  dii_collection :: string
  dii_item :: string
  dii_caller :: string
  dii_key :: string

record set_retention_input =
  sri_collection :: string
  sri_items :: "string list"
  sri_exempt :: bool
  sri_caller :: string
  sri_key :: string

record delete_items_input =
  dis_collection :: string
  dis_items :: "string list"
  dis_caller :: string
  dis_key :: string

record rename_item_input =
  rii_collection :: string
  rii_item :: string
  rii_name :: string
  rii_caller :: string
  rii_key :: string

record update_retention_input =
  uri_collection :: string
  uri_days :: int
  uri_caller :: string
  uri_key :: string

section \<open>Helpers\<close>

text \<open>\<open>uniqueStrings\<close>: nonempty values, first occurrences, in order.\<close>

fun unique_after :: "string list \<Rightarrow> string list \<Rightarrow> string list" where
  "unique_after seen [] = []"
| "unique_after seen (v # vs) =
     (if v \<noteq> [] \<and> v \<notin> set seen then v # unique_after (v # seen) vs else unique_after seen vs)"

definition uniqueStrings :: "string list \<Rightarrow> string list" where
  "uniqueStrings vs = unique_after [] vs"

definition uniqueSortedStrings :: "string list \<Rightarrow> string list" where
  "uniqueSortedStrings vs = sort (uniqueStrings vs)"

text \<open>\<open>mapCollectionError\<close>: a unique violation is a conflict.\<close>

definition mapCollectionError :: "go_error \<Rightarrow> go_error" where
  "mapCollectionError e = (if e = unique_violation then ErrConflict else e)"

fun map_error :: "(go_error \<Rightarrow> go_error) \<Rightarrow> 'a result \<Rightarrow> 'a result" where
  "map_error f (Inl e) = Inl (f e)"
| "map_error f (Inr x) = Inr x"

lemma map_error_Ok [simp]: "map_error f r = Inr x \<longleftrightarrow> r = Inr x"
  by (cases r) auto

definition validCollectionItemDisplayName :: "string \<Rightarrow> bool" where
  "validCollectionItemDisplayName v \<longleftrightarrow> v \<noteq> [] \<and> length v \<le> 255
     \<and> list_all (\<lambda>c. c \<noteq> CHR ''/'' \<and> c \<noteq> CHR 0x5C) v \<and> \<not> has_control v"

text \<open>\<open>path.Ext\<close>: from the last dot of the last path element; \<open>strings.EqualFold\<close> on ASCII.\<close>

definition path_ext :: "string \<Rightarrow> string" where
  "path_ext p = (let plain = (\<lambda>c. c \<noteq> CHR ''/'' \<and> c \<noteq> CHR ''.'') in
     case dropWhile plain (rev p) of
       c # _ \<Rightarrow> if c = CHR ''.'' then CHR ''.'' # rev (takeWhile plain (rev p)) else []
     | [] \<Rightarrow> [])"

definition to_lower :: "char \<Rightarrow> char" where
  "to_lower c = (if (65 :: nat) \<le> of_char c \<and> of_char c \<le> (90 :: nat)
                 then char_of (of_char c + (32 :: nat)) else c)"

definition EqualFold :: "string \<Rightarrow> string \<Rightarrow> bool" where
  "EqualFold a b \<longleftrightarrow> map to_lower a = map to_lower b"

text \<open>Reading the stored responses back: the JSON leaves out the creating service.\<close>

definition strip_collection :: "collection \<Rightarrow> collection" where
  "strip_collection c = c\<lparr>c_created_by := []\<rparr>"

definition json_error :: go_error where
  "json_error = ErrOther ''json''"

fun collection_response :: "string \<Rightarrow> response \<Rightarrow> collection result" where
  "collection_response caller (RespCollection c) = Ok (c\<lparr>c_created_by := caller\<rparr>)"
| "collection_response caller _ = Err json_error"

fun acl_response :: "string \<Rightarrow> response \<Rightarrow> acl_mutation result" where
  "acl_response caller (RespACL m) =
     Ok (m\<lparr>am_collection := (am_collection m)\<lparr>c_created_by := caller\<rparr>\<rparr>)"
| "acl_response caller _ = Err json_error"

fun item_response :: "string \<Rightarrow> response \<Rightarrow> item_mutation result" where
  "item_response caller (RespItem m) =
     Ok (m\<lparr>im_collection := (im_collection m)\<lparr>c_created_by := caller\<rparr>\<rparr>)"
| "item_response caller _ = Err json_error"

fun delete_response :: "response \<Rightarrow> delete_items_result result" where
  "delete_response (RespDelete d) = Ok d"
| "delete_response _ = Err json_error"

fun managed_response :: "response \<Rightarrow> managed_item result" where
  "managed_response (RespManaged m) = Ok m"
| "managed_response _ = Err json_error"

definition of_collection :: "collection \<Rightarrow> response" where
  "of_collection c = RespCollection (strip_collection c)"

definition of_acl :: "acl_mutation \<Rightarrow> response" where
  "of_acl m = RespACL (m\<lparr>am_collection := strip_collection (am_collection m)\<rparr>)"

definition of_item :: "item_mutation \<Rightarrow> response" where
  "of_item m = RespItem (m\<lparr>im_collection := strip_collection (im_collection m)\<rparr>)"

definition of_delete :: "delete_items_result \<Rightarrow> response" where
  "of_delete d = RespDelete (d\<lparr>di_exempt_skipped := 0\<rparr>)"

section \<open>Collections\<close>

text \<open>A mutation: the frame of the log around its body, in one transaction.\<close>

definition mutation ::
  "env \<Rightarrow> ('v \<Rightarrow> response) \<Rightarrow> (response \<Rightarrow> 'v result) \<Rightarrow> mutation_key \<Rightarrow> mutation_request \<Rightarrow> time
   \<Rightarrow> (store \<Rightarrow> ('v \<times> audit_args \<times> store) result) \<Rightarrow> store \<Rightarrow> 'v result \<times> store" where
  "mutation env marshal unmarshal k req now body st =
     tx st (run_mutation claimMutation (finishAuditedMutation env) marshal unmarshal body k
              (env_fingerprint env req) now st)"

definition lockManagedCollection :: "store \<Rightarrow> string \<Rightarrow> string \<Rightarrow> collection result" where
  "lockManagedCollection st i caller =
     (case sel1 (\<lambda>c. c_id c = i) (st_collections st) of
        None \<Rightarrow> Err ErrNotFound
      | Some c \<Rightarrow> if c_deleted c \<noteq> 0 then Err ErrNotFound
                  else if c_created_by c \<noteq> caller then Err ErrForbidden else Ok c)"

definition UPDATE_collection :: "string \<Rightarrow> (collection \<Rightarrow> collection) \<Rightarrow> store \<Rightarrow> store" where
  "UPDATE_collection i f st = st\<lparr>st_collections := upd_where (\<lambda>c. c_id c = i) f (st_collections st)\<rparr>"

definition CreateCollection ::
  "env \<Rightarrow> string \<Rightarrow> create_collection_input \<Rightarrow> time \<Rightarrow> store \<Rightarrow> collection result \<times> store" where
  "CreateCollection env newID x now = mutation env of_collection (collection_response (cc_caller x))
     (cc_caller x, ''create_collection'', cc_key x) (FpCreate (cc_namespace x) (cc_name x)) now
     (\<lambda>st.
        let c = \<lparr>c_id = newID, c_namespace = cc_namespace x, c_name = cc_name x, c_revision = 1,
                 c_retention_days = 14, c_created_by = cc_caller x, c_created = now,
                 c_updated = now, c_deleted = 0\<rparr>
        in bindR (map_error mapCollectionError
              (insert_row (\<lambda>c. c_id c \<noteq> [] \<and> c_namespace c \<noteq> [] \<and> c_name c \<noteq> [] \<and> c_created_by c \<noteq> [])
                 (\<lambda>c d. c_id c = c_id d) c (st_collections st)))
           (\<lambda>t. Ok (c, (''asset.collection.create'', newID, []), st\<lparr>st_collections := t\<rparr>)))"

definition RenameCollection ::
  "env \<Rightarrow> rename_collection_input \<Rightarrow> time \<Rightarrow> store \<Rightarrow> collection result \<times> store" where
  "RenameCollection env x now = mutation env of_collection (collection_response (rc_caller x))
     (rc_caller x, ''rename_collection'', rc_key x) (FpRename (rc_collection x) (rc_name x)) now
     (\<lambda>st. bindR (lockManagedCollection st (rc_collection x) (rc_caller x)) (\<lambda>c.
        if rc_name x = [] then Err check_violation
        else let v = c\<lparr>c_name := rc_name x, c_revision := c_revision c + 1, c_updated := now\<rparr>
             in Ok (v, (''asset.collection.rename'', c_id v, []),
                    UPDATE_collection (c_id v) (\<lambda>d. d\<lparr>c_name := c_name v, c_revision := c_revision v,
                                                     c_updated := now\<rparr>) st)))"

section \<open>Deleting items\<close>

record items_deletion =
  idl_collection :: collection
  idl_items :: "collection_item list"
  idl_tombstones :: "collection_tombstone list"
  idl_result :: delete_items_result

definition day :: int where [simp]: "day = 24 * hour"

text \<open>The ingested media that a deletion may release.\<close>

definition media_sync_asset :: "asset_row \<Rightarrow> bool" where
  "media_sync_asset r \<longleftrightarrow> a_namespace r = ''line.group.media-sync''
     \<and> a_owner_service r = ''hhc-line-function-bot'' \<and> a_owner_type r = ''media_sync_ingest'' \<and> live r"

text \<open>The rows the deletion looks at, and the ones it deletes.\<close>

definition deletable_rows :: "store \<Rightarrow> string \<Rightarrow> string list \<Rightarrow> collection_item list" where
  "deletable_rows st i ids = sort_key ci_id
     (filter (\<lambda>r. ci_collection r = i \<and> ci_id r \<in> set ids \<and> ci_deleted_rev r = 0) (st_items st))"

definition still_retained :: "collection \<Rightarrow> time \<Rightarrow> collection_item \<Rightarrow> bool" where
  "still_retained c now r \<longleftrightarrow> ci_created r + c_retention_days c * day > now"

definition tombstone_of :: "collection_item \<Rightarrow> collection_tombstone" where
  "tombstone_of r = \<lparr>t_id = ci_id r, t_remote = ci_remote r, t_deleted_rev = ci_deleted_rev r,
     t_deleted = ci_deleted r\<rparr>"

text \<open>The final UPDATE: a candidate without a remaining active item is deleted.\<close>

definition release_assets :: "string list \<Rightarrow> time \<Rightarrow> store \<Rightarrow> store" where
  "release_assets ids now st = UPDATE_assets
     (\<lambda>r. a_id r \<in> set ids \<and> media_sync_asset r
        \<and> \<not> exists_row (\<lambda>i. ci_asset i = a_id r \<and> ci_deleted_rev i = 0) (st_items st))
     (\<lambda>r. r\<lparr>a_deleted := now, a_updated := now\<rparr>) st"

definition deleteCollectionItems ::
  "string \<Rightarrow> string \<Rightarrow> string list \<Rightarrow> time \<Rightarrow> bool \<Rightarrow> store \<Rightarrow> (items_deletion \<times> store) result" where
  "deleteCollectionItems i caller itemIDs now respect st =
     (let ids = uniqueSortedStrings itemIDs in
      bindR (lockManagedCollection st i caller) (\<lambda>c.
        let rows = deletable_rows st i ids;
            exempt = (\<lambda>r. respect \<and> ci_exempt r);
            items = filter (\<lambda>r. \<not> exempt r \<and> \<not> (respect \<and> still_retained c now r)) rows;
            skipped = int (length (filter exempt rows));
            res = \<lparr>di_deleted = int (length items),
                   di_already_removed = int (length ids) - int (length items) - skipped,
                   di_exempt_skipped = skipped\<rparr>
        in if items = [] then Ok (\<lparr>idl_collection = c, idl_items = [], idl_tombstones = [], idl_result = res\<rparr>, st)
           else
             let rev = c_revision c + 1;
                 gone = map (\<lambda>r. r\<lparr>ci_deleted_rev := rev, ci_deleted := now\<rparr>) items;
                 gids = map ci_id items;
                 st1 = st\<lparr>st_items := upd_where
                         (\<lambda>r. ci_collection r = i \<and> ci_id r \<in> set gids \<and> ci_deleted_rev r = 0)
                         (\<lambda>r. r\<lparr>ci_deleted_rev := rev, ci_deleted := now\<rparr>) (st_items st)\<rparr>;
                 st2 = UPDATE_collection i (\<lambda>d. d\<lparr>c_revision := rev, c_updated := now\<rparr>) st1;
                 assetIDs = uniqueSortedStrings (map ci_asset items);
                 candidates = map a_id (filter (\<lambda>r. a_id r \<in> set assetIDs \<and> media_sync_asset r) (st_assets st2))
             in Ok (\<lparr>idl_collection = c\<lparr>c_revision := rev, c_updated := now\<rparr>, idl_items = gone,
                      idl_tombstones = map tombstone_of gone, idl_result = res\<rparr>,
                    if candidates = [] then st2 else release_assets candidates now st2)))"

definition DeleteCollection ::
  "env \<Rightarrow> delete_collection_input \<Rightarrow> time \<Rightarrow> store \<Rightarrow> collection result \<times> store" where
  "DeleteCollection env x now = mutation env of_collection (collection_response (dc_caller x))
     (dc_caller x, ''delete_collection'', dc_key x) (FpDelete (dc_collection x)) now
     (\<lambda>st. bindR (lockManagedCollection st (dc_collection x) (dc_caller x)) (\<lambda>c.
        let nextRevision = c_revision c + 1;
            itemIDs = sort (map ci_id (filter (\<lambda>r. ci_collection r = dc_collection x \<and> ci_deleted_rev r = 0)
                                         (st_items st)))
        in bindR (deleteCollectionItems (dc_collection x) (dc_caller x) itemIDs now False st) (\<lambda>(d, st1).
             let v = (idl_collection d)\<lparr>c_revision := nextRevision, c_updated := now, c_deleted := now\<rparr>
             in Ok (v, (''asset.collection.delete'', c_id v, []),
                    UPDATE_collection (c_id v) (\<lambda>e. e\<lparr>c_revision := nextRevision, c_updated := now,
                                                     c_deleted := now\<rparr>) st1))))"

definition DeleteCollectionItem ::
  "env \<Rightarrow> delete_item_input \<Rightarrow> time \<Rightarrow> store \<Rightarrow> item_mutation result \<times> store" where
  "DeleteCollectionItem env x now = mutation env of_item (item_response (dii_caller x))
     (dii_caller x, ''delete_collection_item'', dii_key x) (FpDeleteItem (dii_collection x) (dii_item x)) now
     (\<lambda>st. bindR (deleteCollectionItems (dii_collection x) (dii_caller x) [dii_item x] now False st) (\<lambda>(d, st1).
        let v = (case (idl_items d, idl_tombstones d) of
                   ([item], tomb # _) \<Rightarrow> \<lparr>im_collection = idl_collection d, im_item = item, im_tombstone = tomb\<rparr>
                 | _ \<Rightarrow> \<lparr>im_collection = idl_collection d, im_item = zero_item, im_tombstone = zero_tombstone\<rparr>)
        in Ok (v, (''asset.collection_item.delete'', dii_item x, [(''collectionId'', MStr (dii_collection x))]), st1)))"

definition DeleteCollectionItems ::
  "env \<Rightarrow> delete_items_input \<Rightarrow> time \<Rightarrow> store \<Rightarrow> delete_items_result result \<times> store" where
  "DeleteCollectionItems env x now =
     (let ids = uniqueSortedStrings (dis_items x) in
      mutation env of_delete delete_response (dis_caller x, ''delete_collection_items'', dis_key x)
        (FpDeleteItems (dis_collection x) ids) now
        (\<lambda>st. bindR (deleteCollectionItems (dis_collection x) (dis_caller x) ids now False st) (\<lambda>(d, st1).
           Ok (idl_result d, (''asset.collection_items.delete'', dis_collection x,
                 [(''normalizedUniqueItemCount'', MInt (int (length ids))),
                  (''deletedCount'', MInt (di_deleted (idl_result d))),
                  (''alreadyAbsentCount'', MInt (di_already_removed (idl_result d)))]), st1))))"

text \<open>The retention sweep's deletion: it has no mutation log and respects exemptions.\<close>

definition DeleteExpiredCollectionItems ::
  "string \<Rightarrow> string list \<Rightarrow> time \<Rightarrow> store \<Rightarrow> delete_items_result result \<times> store" where
  "DeleteExpiredCollectionItems i ids now st = tx st
     (bindR (deleteCollectionItems i ''hhc-line-function-bot'' ids now True st)
        (\<lambda>(d, st1). Ok (idl_result d, st1)))"

section \<open>Access lists\<close>

definition INSERT_acl_audit ::
  "string \<Rightarrow> string \<Rightarrow> collection_acl \<Rightarrow> string \<Rightarrow> string \<Rightarrow> time \<Rightarrow> store \<Rightarrow> store result" where
  "INSERT_acl_audit newID action acl actor request now st = bindR
     (insert_row (\<lambda>r. aa_id r \<noteq> [] \<and> aa_actor r \<noteq> [] \<and> aa_request r \<noteq> []) (\<lambda>r s. aa_id r = aa_id s)
        \<lparr>aa_id = newID, aa_collection = acl_collection acl, aa_acl = acl_id acl, aa_action = action,
         aa_subject_type = acl_subject_type acl, aa_subject_id = acl_subject_id acl,
         aa_actor = actor, aa_request = request, aa_created = now\<rparr> (st_acl_audit st))
     (\<lambda>t. Ok (st\<lparr>st_acl_audit := t\<rparr>))"

fun subject_name :: "subject_type \<Rightarrow> string" where
  "subject_name SubjectPublic = ''public''"
| "subject_name SubjectUser = ''user''"
| "subject_name SubjectRole = ''role''"
| "subject_name SubjectService = ''service''"
| "subject_name SubjectLineGroup = ''line_group''"
| "subject_name SubjectAppClient = ''app_client''"
| "subject_name (SubjectOther s) = s"

definition acl_check :: "collection_acl \<Rightarrow> bool" where
  "acl_check a \<longleftrightarrow> acl_id a \<noteq> [] \<and> acl_subject_type a \<in> {SubjectUser, SubjectRole}
     \<and> acl_subject_id a \<noteq> [] \<and> acl_permission a = PermissionRead"

definition acl_clash :: "collection_acl \<Rightarrow> collection_acl \<Rightarrow> bool" where
  "acl_clash a b \<longleftrightarrow> acl_id a = acl_id b \<or>
     (acl_revoked b = 0 \<and> (acl_collection a, acl_subject_type a, acl_subject_id a, acl_permission a)
        = (acl_collection b, acl_subject_type b, acl_subject_id b, acl_permission b))"

definition AddCollectionACL ::
  "env \<Rightarrow> string \<Rightarrow> string \<Rightarrow> add_acl_input \<Rightarrow> time \<Rightarrow> store \<Rightarrow> acl_mutation result \<times> store" where
  "AddCollectionACL env newID auditID x now = mutation env of_acl (acl_response (aci_caller x))
     (aci_caller x, ''add_collection_acl'', aci_key x)
     (FpAddACL (aci_collection x) (aci_subject_type x) (aci_subject_id x) (aci_permission x) (aci_actor x)) now
     (\<lambda>st. bindR (lockManagedCollection st (aci_collection x) (aci_caller x)) (\<lambda>c.
        let v = c\<lparr>c_revision := c_revision c + 1, c_updated := now\<rparr>;
            acl = \<lparr>acl_id = newID, acl_collection = c_id v, acl_subject_type = aci_subject_type x,
                   acl_subject_id = aci_subject_id x, acl_permission = aci_permission x,
                   acl_created = now, acl_revoked = 0\<rparr>
        in bindR (map_error mapCollectionError (insert_row acl_check acl_clash acl (st_acls st))) (\<lambda>t.
           bindR (INSERT_acl_audit auditID ''add'' acl (aci_actor x) (aci_request x) now
             (UPDATE_collection (c_id v) (\<lambda>d. d\<lparr>c_revision := c_revision v, c_updated := now\<rparr>)
                (st\<lparr>st_acls := t\<rparr>))) (\<lambda>st2.
           Ok (\<lparr>am_collection = v, am_acl = acl\<rparr>,
               (''asset.collection_acl.add'', acl_id acl, [(''collectionId'', MStr (c_id v)),
                  (''subjectType'', MStr (subject_name (acl_subject_type acl)))]), st2)))))"

definition RevokeCollectionACL ::
  "env \<Rightarrow> string \<Rightarrow> revoke_acl_input \<Rightarrow> time \<Rightarrow> store \<Rightarrow> acl_mutation result \<times> store" where
  "RevokeCollectionACL env auditID x now = mutation env of_acl (acl_response (rai_caller x))
     (rai_caller x, ''revoke_collection_acl'', rai_key x)
     (FpRevokeACL (rai_collection x) (rai_acl x) (rai_actor x)) now
     (\<lambda>st. bindR (lockManagedCollection st (rai_collection x) (rai_caller x)) (\<lambda>c.
        case sel1 (\<lambda>a. acl_id a = rai_acl x \<and> acl_collection a = rai_collection x \<and> acl_revoked a = 0)
               (st_acls st) of
          None \<Rightarrow> Err ErrNotFound
        | Some a \<Rightarrow>
            let v = c\<lparr>c_revision := c_revision c + 1, c_updated := now\<rparr>;
                acl = a\<lparr>acl_revoked := now\<rparr>
            in bindR (INSERT_acl_audit auditID ''revoke'' acl (rai_actor x) (rai_request x) now
                 (UPDATE_collection (c_id v) (\<lambda>d. d\<lparr>c_revision := c_revision v, c_updated := now\<rparr>)
                    (st\<lparr>st_acls := upd_where (\<lambda>b. acl_id b = acl_id acl) (\<lambda>b. b\<lparr>acl_revoked := now\<rparr>)
                                  (st_acls st)\<rparr>))) (\<lambda>st2.
               Ok (\<lparr>am_collection = v, am_acl = acl\<rparr>,
                   (''asset.collection_acl.revoke'', acl_id acl, [(''collectionId'', MStr (c_id v)),
                      (''subjectType'', MStr (subject_name (acl_subject_type acl)))]), st2))))"

section \<open>Items\<close>

definition item_check :: "collection_item \<Rightarrow> bool" where
  "item_check r \<longleftrightarrow> ci_id r \<noteq> [] \<and> ci_remote r \<noteq> [] \<and> ci_name r \<noteq> [] \<and> ci_source_revision r \<noteq> []"

definition item_clash :: "collection_item \<Rightarrow> collection_item \<Rightarrow> bool" where
  "item_clash r s \<longleftrightarrow> ci_id r = ci_id s \<or>
     (ci_deleted_rev s = 0 \<and> ci_collection r = ci_collection s
        \<and> (ci_asset r = ci_asset s \<or> ci_remote r = ci_remote s))"

text \<open>The row of an item has no media columns: they are read from its asset.\<close>

definition bare_item :: "collection_item \<Rightarrow> collection_item" where
  "bare_item r = r\<lparr>ci_mime := [], ci_size := 0, ci_etag := []\<rparr>"

definition servable :: "('a asset_scheme) \<Rightarrow> bool" where
  "servable a \<longleftrightarrow> a_upload_status a = UploadCompleted \<and> a_scan_status a = ScanClean
     \<and> (a_processing_status a = ProcessingReady \<or> a_processing_status a = ProcessingNotRequired)"

definition AddCollectionItem ::
  "env \<Rightarrow> string \<Rightarrow> add_item_input \<Rightarrow> time \<Rightarrow> store \<Rightarrow> item_mutation result \<times> store" where
  "AddCollectionItem env newID x now = mutation env of_item (item_response (ai_caller x))
     (ai_caller x, ''add_collection_item'', ai_key x)
     (FpAddItem (ai_collection x) (ai_asset x) (ai_remote x) (ai_name x) (ai_source_revision x)) now
     (\<lambda>st. bindR (lockManagedCollection st (ai_collection x) (ai_caller x)) (\<lambda>c.
        case sel1 (\<lambda>r. a_id r = ai_asset x \<and> live r) (st_assets st) of
          None \<Rightarrow> Err ErrNotFound
        | Some a \<Rightarrow>
            if a_owner_service a \<noteq> ai_caller x then Err ErrForbidden
            else if \<not> servable a then Err ErrConflict
            else if a_namespace a \<noteq> c_namespace c then Err ErrConflict
            else
              let v = c\<lparr>c_revision := c_revision c + 1, c_updated := now\<rparr>;
                  item = \<lparr>ci_id = newID, ci_collection = c_id v, ci_asset = ai_asset x,
                    ci_remote = ai_remote x, ci_name = ai_name x,
                    ci_source_revision = ai_source_revision x, ci_created_rev = c_revision v,
                    ci_exempt = False, ci_updated_rev = c_revision v, ci_deleted_rev = 0,
                    ci_mime = a_detected_mime a, ci_size = a_size a, ci_etag = a_etag a,
                    ci_created = now, ci_updated = now, ci_deleted = 0\<rparr>
              in bindR (map_error mapCollectionError
                   (insert_row item_check item_clash (bare_item item) (st_items st))) (\<lambda>t.
                 Ok (\<lparr>im_collection = v, im_item = item, im_tombstone = zero_tombstone\<rparr>,
                     (''asset.collection_item.add'', newID, [(''collectionId'', MStr (c_id v))]),
                     UPDATE_collection (c_id v) (\<lambda>d. d\<lparr>c_revision := c_revision v, c_updated := now\<rparr>)
                       (st\<lparr>st_items := t\<rparr>)))))"

text \<open>\<open>LEFT JOIN assets\<close>: the media columns of an item.\<close>

definition with_media :: "store \<Rightarrow> collection_item \<Rightarrow> collection_item" where
  "with_media st r = (case asset_of st (ci_asset r) of
     None \<Rightarrow> bare_item r
   | Some a \<Rightarrow> r\<lparr>ci_mime := a_detected_mime a, ci_size := a_size a, ci_etag := a_etag a\<rparr>)"

definition RenameCollectionItem ::
  "env \<Rightarrow> rename_item_input \<Rightarrow> time \<Rightarrow> store \<Rightarrow> managed_item result \<times> store" where
  "RenameCollectionItem env x now st =
     (let name = TrimSpace (rii_name x) in
      if \<not> validCollectionItemDisplayName name then (Err ErrInvalidInput, st)
      else mutation env RespManaged managed_response (rii_caller x, ''rename_collection_item'', rii_key x)
        (FpRenameItem (rii_collection x) (rii_item x) name) now
        (\<lambda>st. bindR (lockManagedCollection st (rii_collection x) (rii_caller x)) (\<lambda>c.
           case sel1 (\<lambda>r. ci_id r = rii_item x \<and> ci_collection r = rii_collection x \<and> ci_deleted_rev r = 0)
                  (st_items st) of
             None \<Rightarrow> Err ErrNotFound
           | Some r \<Rightarrow>
               let item = with_media st r;
                   rev = c_revision c + 1;
                   v = \<lparr>mi_id = ci_id item, mi_name = name, mi_mime = ci_mime item,
                        mi_size = ci_size item, mi_created = ci_created item, mi_exempt = ci_exempt item\<rparr>;
                   args = (''asset.collection_item.rename'', rii_item x, [(''collectionId'', MStr (rii_collection x))])
               in if \<not> EqualFold (path_ext (ci_name item)) (path_ext name) then Err ErrInvalidInput
                  else if ci_name item \<noteq> name
                  then Ok (v, args, UPDATE_collection (c_id c) (\<lambda>d. d\<lparr>c_revision := rev, c_updated := now\<rparr>)
                         (st\<lparr>st_items := upd_where (\<lambda>s. ci_id s = ci_id item)
                            (\<lambda>s. s\<lparr>ci_name := name, ci_updated_rev := rev, ci_updated := now\<rparr>) (st_items st)\<rparr>))
                  else Ok (v, args, st))) st)"

section \<open>Retention settings\<close>

definition UpdateCollectionRetention ::
  "env \<Rightarrow> update_retention_input \<Rightarrow> time \<Rightarrow> store \<Rightarrow> collection result \<times> store" where
  "UpdateCollectionRetention env x now = mutation env of_collection (collection_response (uri_caller x))
     (uri_caller x, ''update_collection_retention'', uri_key x)
     (FpUpdateRetention (uri_collection x) (uri_days x)) now
     (\<lambda>st. bindR (lockManagedCollection st (uri_collection x) (uri_caller x)) (\<lambda>c.
        if uri_days x < 1 \<or> uri_days x > 365 then Err check_violation
        else let v = c\<lparr>c_retention_days := uri_days x, c_updated := now\<rparr>
             in Ok (v, (''asset.collection.retention.update'', uri_collection x, []),
                    UPDATE_collection (c_id v) (\<lambda>d. d\<lparr>c_retention_days := uri_days x, c_updated := now\<rparr>) st)))"

definition SetCollectionItemsRetention ::
  "env \<Rightarrow> set_retention_input \<Rightarrow> time \<Rightarrow> store \<Rightarrow> unit result \<times> store" where
  "SetCollectionItemsRetention env x now =
     (let ids = uniqueSortedStrings (sri_items x) in
      mutation env (\<lambda>_. RespEmpty) (\<lambda>_. Ok ()) (sri_caller x, ''set_collection_items_retention'', sri_key x)
        (FpSetRetention (sri_collection x) ids (sri_exempt x)) now
        (\<lambda>st. bindR (lockManagedCollection st (sri_collection x) (sri_caller x)) (\<lambda>c.
           let active = map ci_id (deletable_rows st (sri_collection x) ids);
               st1 = (if active = [] then st else st\<lparr>st_items := upd_where
                       (\<lambda>r. ci_id r \<in> set active \<and> ci_deleted_rev r = 0)
                       (\<lambda>r. r\<lparr>ci_exempt := sri_exempt x, ci_updated := now\<rparr>) (st_items st)\<rparr>)
           in Ok ((), (''asset.collection_items.retention.update'', sri_collection x,
                 [(''normalizedUniqueItemCount'', MInt (int (length ids))),
                  (''updatedCount'', MInt (int (length active))),
                  (''alreadyAbsentCount'', MInt (int (length ids) - int (length active)))]), st1))))"

end
