(* ===== verification/Collection_Laws.thy ===== *)
theory Collection_Laws
  imports Collections
begin

text \<open>
  The invariant of the collections: every item belongs to a stored collection and its revisions
  lie between its creation and the revision of the collection.  Each mutation of \<open>Collections\<close>
  keeps it and raises the revision by exactly one where it changes what readers see; repeating
  a mutation replays its response.
\<close>

section \<open>The invariant\<close>

definition item_ok :: "int \<Rightarrow> collection_item \<Rightarrow> bool" where
  "item_ok h r \<longleftrightarrow> ci_id r \<noteq> [] \<and> 1 \<le> ci_created_rev r \<and> ci_created_rev r \<le> ci_updated_rev r \<and> ci_updated_rev r \<le> h
     \<and> (ci_deleted_rev r \<noteq> 0 \<longrightarrow> ci_updated_rev r \<le> ci_deleted_rev r \<and> ci_deleted_rev r \<le> h)"

definition rev_inv :: "store \<Rightarrow> bool" where
  "rev_inv st \<longleftrightarrow> keyed c_id (st_collections st) \<and> keyed ci_id (st_items st)
     \<and> (\<forall>c\<in>set (st_collections st). 1 \<le> c_revision c)
     \<and> (\<forall>r\<in>set (st_items st). \<exists>c\<in>set (st_collections st). c_id c = ci_collection r \<and> item_ok (c_revision c) r)"

lemma rev_inv_cong:
  assumes "st_collections s = st_collections t" "st_items s = st_items t"
  shows "rev_inv s = rev_inv t"
  using assms by (simp add: rev_inv_def)

lemma item_ok_mono: "item_ok h r \<Longrightarrow> h \<le> h' \<Longrightarrow> item_ok h' r"
  by (auto simp: item_ok_def)

text \<open>
  The shape of every mutation of an existing collection: its row moves to a revision that is
  not smaller, and each item is old or belongs to it and respects that revision.
\<close>

lemma rev_inv_bump:
  assumes inv: "rev_inv st" and c: "c \<in> set (st_collections st)" "c_id c = i" "c_revision c \<le> rv"
    and colls: "st_collections st' = upd_where (\<lambda>d. c_id d = i) f (st_collections st)"
    and f: "\<And>d. c_id (f d) = c_id d" "c_revision (f c) = rv"
    and keyed': "keyed ci_id (st_items st')"
    and items: "\<And>r. r \<in> set (st_items st') \<Longrightarrow> r \<in> set (st_items st) \<or> ci_collection r = i \<and> item_ok rv r"
  shows "rev_inv st'"
proof -
  have keyc: "keyed c_id (st_collections st)" using inv by (simp add: rev_inv_def)
  have only: "d = c" if "d \<in> set (st_collections st)" "c_id d = i" for d
    using keyed_eq [OF keyc that(1) c(1)] that(2) c(2) by simp
  have fc: "f c \<in> set (st_collections st')" using c by (auto simp: colls set_upd_where)
  have other: "d \<in> set (st_collections st')" if "d \<in> set (st_collections st)" "c_id d \<noteq> i" for d
    using that by (auto simp: colls set_upd_where rev_image_eqI)
  have one: "1 \<le> c_revision c" using inv c(1) by (auto simp: rev_inv_def)
  have "1 \<le> c_revision d" if "d \<in> set (st_collections st')" for d
    using that only one c(3) f(2) inv by (auto simp: colls set_upd_where rev_inv_def split: if_splits)
  moreover have "\<exists>d\<in>set (st_collections st'). c_id d = ci_collection r \<and> item_ok (c_revision d) r"
    if r: "r \<in> set (st_items st')" for r
  proof (cases "ci_collection r = i \<and> item_ok rv r")
    case True
    then show ?thesis using fc f c(2) by (intro bexI [of _ "f c"]) simp_all
  next
    case False
    then have "r \<in> set (st_items st)" using items [OF r] by blast
    then obtain d where d: "d \<in> set (st_collections st)" "c_id d = ci_collection r" "item_ok (c_revision d) r"
      using inv by (auto simp: rev_inv_def)
    show ?thesis
    proof (cases "c_id d = i")
      case True
      then have "item_ok rv r" using only d c(3) item_ok_mono by blast
      then show ?thesis using False True d(2) by simp
    next
      case False
      then show ?thesis using other d by blast
    qed
  qed
  moreover have "keyed c_id (st_collections st')"
    using keyc keyed_upd_where [where k = c_id and f = f, OF f(1)] by (simp add: colls)
  ultimately show ?thesis using keyed' by (simp add: rev_inv_def)
qed

lemma lock_Ok:
  "lockManagedCollection st i caller = Inr c \<longleftrightarrow>
     sel1 (\<lambda>c. c_id c = i) (st_collections st) = Some c \<and> c_deleted c = 0 \<and> c_created_by c = caller"
  by (auto simp: lockManagedCollection_def split: option.splits)

lemma lock_Ok_mem:
  assumes "lockManagedCollection st i caller = Inr c"
  shows "c \<in> set (st_collections st)" "c_id c = i" "c_deleted c = 0" "c_created_by c = caller"
  using assms by (auto simp: lock_Ok dest!: sel1_Some)

section \<open>The frame of a mutation\<close>

text \<open>
  A successful mutation is a replay that changes nothing, or its body ran on the store and
  afterwards only the log and the audit outbox were touched.
\<close>

lemma mutation_cases:
  assumes "mutation env marshal unmarshal k req now body st = (Ok v, st')"
  obtains (replay) r where "st' = st" "unmarshal r = Inr v"
      "logged_mutation st k = Some (env_fingerprint env req, Some r)"
  | (ran) ms a s2 where "logged_mutation st k = None" "body (st\<lparr>st_mutations := ms\<rparr>) = Inr (v, a, s2)"
      "st_collections st' = st_collections s2" "st_items st' = st_items s2"
      "st_assets st' = st_assets s2" "st_acls st' = st_acls s2"
proof -
  have run: "run_mutation claimMutation (finishAuditedMutation env) marshal unmarshal body k
              (env_fingerprint env req) now st = Inr (v, st')"
    using assms by (simp add: mutation_def)
  then obtain c s1 where c: "claimMutation k (env_fingerprint env req) now st = Inr (c, s1)"
    by (auto simp: run_mutation_def)
  show thesis
  proof (cases c)
    case (Replay r)
    have "s1 = st" "logged_mutation st k = Some (env_fingerprint env req, Some r)"
      using c Replay
      by (auto simp: claimMutation_def logged_mutation_def split: prod.splits option.splits if_splits)
    then show thesis using run c Replay replay by (auto simp: run_mutation_def)
  next
    case Claimed
    obtain a s2 where body: "body s1 = Inr (v, a, s2)"
      and fin: "finishAuditedMutation env k (marshal v) a now s2 = Inr st'"
      using run c Claimed by (auto simp: run_mutation_def)
    have none: "logged_mutation st k = None"
      using c Claimed by (auto simp: claimMutation_def logged_mutation_def
          split: prod.splits option.splits if_splits)
    then obtain ms where s1: "s1 = st\<lparr>st_mutations := ms\<rparr>"
      using c Claimed by (auto simp: claimMutation_def logged_mutation_def
          split: prod.splits option.splits if_splits)
    obtain action resource meta where a: "a = (action, resource, meta)" by (cases a)
    obtain t where t: "enqueueAuditTx env action resource meta now (s2\<lparr>st_mutations := t\<rparr>) = Inr st'"
      using fin by (auto simp: finishAuditedMutation_def a Let_def split: if_splits)
    obtain evs where "st' = (s2\<lparr>st_mutations := t\<rparr>)\<lparr>st_audit := st_audit (s2\<lparr>st_mutations := t\<rparr>) @ evs\<rparr>"
      using enqueueAuditTx_frame [OF t] by blast
    then show thesis using ran [OF none, of ms a s2] body s1 by simp
  qed
qed

text \<open>Replaying: the response read back is the value the log normalises to.\<close>

lemma mutation_replay:
  assumes "mutation env marshal unmarshal k req now body st = (Ok v, st')"
    and "\<And>s1 v a s2. body s1 = Inr (v, a, s2) \<Longrightarrow> st_mutations s2 = st_mutations s1"
    and "\<And>v. unmarshal (marshal v) = Inr (norm v)"
    and "\<And>r v. unmarshal r = Inr v \<Longrightarrow> norm v = v"
  shows "mutation env marshal unmarshal k req now' body' st' = (Ok (norm v), st')"
proof -
  have 1: "run_mutation claimMutation (finishAuditedMutation env) marshal unmarshal body k
              (env_fingerprint env req) now st = Inr (v, st')"
    using assms(1) by (simp add: mutation_def)
  have 2: "logged_mutation s2 = logged_mutation s1" if "body s1 = Inr (v, a, s2)" for s1 v a s2
    using logged_frame [OF assms(2) [OF that]] .
  have "run_mutation claimMutation (finishAuditedMutation env) marshal unmarshal body' k
              (env_fingerprint env req) now' st' = Inr (norm v, st')"
    by (rule store_log.replay [OF 1 2 assms(3,4)])
  then show ?thesis by (simp add: mutation_def)
qed

lemma mutation_other_request:
  assumes "logged_mutation st k = Some (fp, r)" "fp \<noteq> env_fingerprint env req"
  shows "mutation env marshal unmarshal k req now body st = (Err ErrConflict, st)"
  by (simp add: mutation_def store_log.other_request [OF assms])

section \<open>Deleting items\<close>

lemma deletable_rows_set:
  "set (deletable_rows st i ids) = {r \<in> set (st_items st). ci_collection r = i \<and> ci_id r \<in> set ids \<and> ci_deleted_rev r = 0}"
  by (auto simp: deletable_rows_def)

lemma unique_after_set: "set (unique_after seen vs) = {v \<in> set vs. v \<noteq> [] \<and> v \<notin> set seen}"
  by (induction vs arbitrary: seen) auto

lemma set_uniqueStrings: "set (uniqueStrings vs) = {v \<in> set vs. v \<noteq> []}"
  using unique_after_set [of "[]" vs] by (simp add: uniqueStrings_def)

lemma distinct_unique_after: "distinct (unique_after seen vs)"
  by (induction vs arbitrary: seen) (auto simp: unique_after_set)

lemma uniqueSortedStrings_laws [simp]:
  "set (uniqueSortedStrings vs) = {v \<in> set vs. v \<noteq> []}"
  "distinct (uniqueSortedStrings vs)" "sorted (uniqueSortedStrings vs)"
  using distinct_unique_after [of "[]" vs]
  by (simp_all add: uniqueSortedStrings_def set_uniqueStrings) (simp add: uniqueStrings_def)

lemma uniqueSortedStrings_idem: "uniqueSortedStrings (uniqueSortedStrings vs) = uniqueSortedStrings vs"
proof -
  have "set (uniqueSortedStrings (uniqueSortedStrings vs)) = set (uniqueSortedStrings vs)" by auto
  then show ?thesis by (rule sorted_distinct_set_unique [rotated 4]) simp_all
qed

text \<open>What a deletion of items did.\<close>

definition deleted_items :: "string \<Rightarrow> int \<Rightarrow> time \<Rightarrow> string set \<Rightarrow> collection_item tbl \<Rightarrow> collection_item tbl" where
  "deleted_items i rv now gone = upd_where (\<lambda>r. ci_collection r = i \<and> ci_id r \<in> gone \<and> ci_deleted_rev r = 0)
     (\<lambda>r. r\<lparr>ci_deleted_rev := rv, ci_deleted := now\<rparr>)"

lemma deleteCollectionItems_cases:
  assumes "deleteCollectionItems i caller itemIDs now respect st = Inr (d, st')"
  obtains (none) c where "lockManagedCollection st i caller = Inr c" "st' = st" "idl_collection d = c"
      "idl_items d = []" "idl_tombstones d = []"
      "\<And>r. r \<in> set (deletable_rows st i (uniqueSortedStrings itemIDs)) \<Longrightarrow>
         respect \<and> (ci_exempt r \<or> still_retained c now r)"
  | (some) c gone assets where "lockManagedCollection st i caller = Inr c" "gone \<noteq> {}"
      "gone = ci_id ` {r \<in> set (deletable_rows st i (uniqueSortedStrings itemIDs)).
                 \<not> (respect \<and> (ci_exempt r \<or> still_retained c now r))}"
      "idl_collection d = c\<lparr>c_revision := c_revision c + 1, c_updated := now\<rparr>"
      "st' = st\<lparr>st_items := deleted_items i (c_revision c + 1) now gone (st_items st),
                st_collections := upd_where (\<lambda>c. c_id c = i)
                   (\<lambda>d. d\<lparr>c_revision := c_revision c + 1, c_updated := now\<rparr>) (st_collections st),
                st_assets := assets\<rparr>"
      "assets = st_assets st \<or> (\<exists>ids. assets = st_assets (release_assets ids now
          (st\<lparr>st_items := deleted_items i (c_revision c + 1) now gone (st_items st)\<rparr>)))"
proof -
  let ?ids = "uniqueSortedStrings itemIDs"
  obtain c where c: "lockManagedCollection st i caller = Inr c"
    using assms by (auto simp: deleteCollectionItems_def Let_def)
  let ?ex = "\<lambda>r. respect \<and> ci_exempt r"
  let ?items = "filter (\<lambda>r. \<not> ?ex r \<and> \<not> (respect \<and> still_retained c now r)) (deletable_rows st i ?ids)"
  show thesis
  proof (cases "?items = []")
    case True
    show thesis
    proof (rule none [OF c])
      show "st' = st" "idl_collection d = c" "idl_items d = []" "idl_tombstones d = []"
        using assms [symmetric] c True by (simp_all add: deleteCollectionItems_def Let_def)
      fix r assume "r \<in> set (deletable_rows st i ?ids)"
      then show "respect \<and> (ci_exempt r \<or> still_retained c now r)"
        using True by (auto simp: filter_empty_conv)
    qed
  next
    case False
    define gone where "gone = set (map ci_id ?items)"
    define st1 where "st1 = st\<lparr>st_items := deleted_items i (c_revision c + 1) now gone (st_items st)\<rparr>"
    define st2 where "st2 = UPDATE_collection i (\<lambda>d. d\<lparr>c_revision := c_revision c + 1, c_updated := now\<rparr>) st1"
    define cand where "cand = map a_id (filter (\<lambda>r. a_id r \<in> set (uniqueSortedStrings (map ci_asset ?items))
        \<and> media_sync_asset r) (st_assets st2))"
    have eq: "st' = (if cand = [] then st2 else release_assets cand now st2)"
      and dc: "idl_collection d = c\<lparr>c_revision := c_revision c + 1, c_updated := now\<rparr>"
      using assms [symmetric] c False
      by (simp_all add: deleteCollectionItems_def Let_def deleted_items_def st1_def st2_def cand_def gone_def
          split: if_split_asm)
    show thesis
    proof (rule some [OF c])
      show "gone \<noteq> {}" using False unfolding gone_def set_empty map_is_Nil_conv .
      show "gone = ci_id ` {r \<in> set (deletable_rows st i ?ids). \<not> (respect \<and> (ci_exempt r \<or> still_retained c now r))}"
        by (auto simp: gone_def)
      show "idl_collection d = c\<lparr>c_revision := c_revision c + 1, c_updated := now\<rparr>" by (rule dc)
      show "st' = st\<lparr>st_items := deleted_items i (c_revision c + 1) now gone (st_items st),
                st_collections := upd_where (\<lambda>c. c_id c = i)
                   (\<lambda>d. d\<lparr>c_revision := c_revision c + 1, c_updated := now\<rparr>) (st_collections st),
                st_assets := st_assets st'\<rparr>"
        unfolding eq by (simp add: st2_def st1_def UPDATE_collection_def release_assets_def UPDATE_assets_def)
      have "st_assets (release_assets cand now st2) = st_assets (release_assets cand now st1)"
        by (simp add: release_assets_def UPDATE_assets_def st2_def UPDATE_collection_def)
      moreover have "st_assets st2 = st_assets st" by (simp add: st2_def st1_def UPDATE_collection_def)
      ultimately show "st_assets st' = st_assets st \<or> (\<exists>ids. st_assets st' = st_assets (release_assets ids now
          (st\<lparr>st_items := deleted_items i (c_revision c + 1) now gone (st_items st)\<rparr>)))"
        unfolding eq st1_def by (cases "cand = []") auto
    qed
  qed
qed

lemma deleted_items_keyed [simp]: "keyed ci_id (deleted_items i rv now gone t) = keyed ci_id t"
  unfolding deleted_items_def by (rule keyed_upd_where) simp

lemma deleted_items_ok:
  assumes "r \<in> set (deleted_items i rv now gone t)" "\<And>s. s \<in> set t \<Longrightarrow> ci_collection s = i \<Longrightarrow> item_ok h s" "h \<le> rv"
  shows "r \<in> set t \<or> ci_collection r = i \<and> item_ok rv r"
proof -
  obtain s where s: "s \<in> set t"
    "r = (if ci_collection s = i \<and> ci_id s \<in> gone \<and> ci_deleted_rev s = 0
          then s\<lparr>ci_deleted_rev := rv, ci_deleted := now\<rparr> else s)"
    using assms(1) unfolding deleted_items_def by (rule in_upd_whereE)
  then show ?thesis using assms(2) [OF s(1)] assms(3) by (auto simp: item_ok_def)
qed

lemma items_of_collection_ok:
  assumes "rev_inv st" "c \<in> set (st_collections st)" "s \<in> set (st_items st)" "ci_collection s = c_id c"
  shows "item_ok (c_revision c) s"
proof -
  obtain d where "d \<in> set (st_collections st)" "c_id d = ci_collection s" "item_ok (c_revision d) s"
    using assms(1,3) by (auto simp: rev_inv_def)
  then show ?thesis using keyed_eq [of c_id "st_collections st" d c] assms by (simp add: rev_inv_def)
qed

lemma deleteCollectionItems_inv:
  assumes "deleteCollectionItems i caller itemIDs now respect st = Inr (d, st')" "rev_inv st"
  shows "rev_inv st'"
  using assms(1)
proof (cases rule: deleteCollectionItems_cases)
  case (none c)
  then show ?thesis using assms(2) by simp
next
  case (some c gone assets)
  note c = lock_Ok_mem [OF some(1)]
  show ?thesis
  proof (rule rev_inv_bump [OF assms(2) c(1,2), where rv = "c_revision c + 1"])
    show "st_collections st' = upd_where (\<lambda>d. c_id d = i)
        (\<lambda>d. d\<lparr>c_revision := c_revision c + 1, c_updated := now\<rparr>) (st_collections st)"
      by (simp add: some(5))
    show "keyed ci_id (st_items st')" using assms(2) by (simp add: some(5) rev_inv_def)
    fix r assume "r \<in> set (st_items st')"
    then show "r \<in> set (st_items st) \<or> ci_collection r = i \<and> item_ok (c_revision c + 1) r"
      using items_of_collection_ok [OF assms(2) c(1)] c(2)
      by (intro deleted_items_ok [where h = "c_revision c"]) (auto simp: some(5))
  qed simp_all
qed

section \<open>Every mutation keeps the invariant and the history\<close>

text \<open>
  What later states keep of earlier ones: collections stay, their revisions do not fall; items
  stay with their identity, a deleted item never changes again, and an item is added, changed or
  deleted only at a revision that its collection had not reached before (\<open>beyond\<close>), which is
  what makes the revisions usable as a change feed.
\<close>

definition beyond :: "store \<Rightarrow> string \<Rightarrow> int \<Rightarrow> bool" where
  "beyond s i n \<longleftrightarrow> (\<forall>c\<in>set (st_collections s). c_id c = i \<longrightarrow> c_revision c < n)"

definition evolves :: "store \<Rightarrow> collection_item \<Rightarrow> collection_item \<Rightarrow> bool" where
  "evolves s r q \<longleftrightarrow> ci_id q = ci_id r \<and> ci_collection q = ci_collection r
     \<and> ci_created_rev q = ci_created_rev r \<and> ci_updated_rev r \<le> ci_updated_rev q
     \<and> (ci_deleted_rev r \<noteq> 0 \<longrightarrow> q = r)
     \<and> (ci_updated_rev q = ci_updated_rev r \<or> beyond s (ci_collection r) (ci_updated_rev q))
     \<and> (ci_deleted_rev q = ci_deleted_rev r \<or> beyond s (ci_collection r) (ci_deleted_rev q))"

definition hist_le :: "store \<Rightarrow> store \<Rightarrow> bool" where
  "hist_le s t \<longleftrightarrow>
     (\<forall>c\<in>set (st_collections s). \<exists>d\<in>set (st_collections t). c_id d = c_id c \<and> c_revision c \<le> c_revision d)
   \<and> (\<forall>r\<in>set (st_items s). \<exists>q\<in>set (st_items t). evolves s r q)
   \<and> (\<forall>q\<in>set (st_items t). (\<exists>r\<in>set (st_items s). evolves s r q) \<or> beyond s (ci_collection q) (ci_created_rev q))"

lemma evolves_refl [simp]: "evolves s r r"
  by (simp add: evolves_def)

lemma hist_le_refl [simp, intro]: "hist_le s s"
  unfolding hist_le_def by (blast intro: evolves_refl)

lemma beyond_mono:
  assumes "hist_le s t" "beyond t i n"
  shows "beyond s i n"
proof -
  have "c_revision c < n" if c: "c \<in> set (st_collections s)" "c_id c = i" for c
  proof -
    obtain d where "d \<in> set (st_collections t)" "c_id d = c_id c" "c_revision c \<le> c_revision d"
      using assms(1) c(1) unfolding hist_le_def by blast
    then show ?thesis using assms(2) c(2) by (force simp: beyond_def)
  qed
  then show ?thesis by (simp add: beyond_def)
qed

lemma evolves_trans:
  assumes "hist_le s t" "evolves s r q" "evolves t q p"
  shows "evolves s r p"
proof -
  have "ci_updated_rev p = ci_updated_rev q \<or> beyond s (ci_collection r) (ci_updated_rev p)"
       "ci_deleted_rev p = ci_deleted_rev q \<or> beyond s (ci_collection r) (ci_deleted_rev p)"
    using assms(2,3) beyond_mono [OF assms(1)] unfolding evolves_def by metis+
  then show ?thesis using assms(2,3) unfolding evolves_def by (metis order_trans)
qed

lemma hist_le_trans:
  assumes "hist_le s t" "hist_le t u"
  shows "hist_le s u"
proof -
  have "\<exists>e\<in>set (st_collections u). c_id e = c_id c \<and> c_revision c \<le> c_revision e"
    if "c \<in> set (st_collections s)" for c
    using that assms unfolding hist_le_def by (metis order_trans)
  moreover have "\<exists>q\<in>set (st_items u). evolves s r q" if r: "r \<in> set (st_items s)" for r
  proof -
    obtain q where q: "q \<in> set (st_items t)" "evolves s r q"
      using assms(1) r unfolding hist_le_def by blast
    obtain p where p: "p \<in> set (st_items u)" "evolves t q p"
      using assms(2) q(1) unfolding hist_le_def by blast
    then show ?thesis using evolves_trans [OF assms(1) q(2)] by blast
  qed
  moreover have "(\<exists>r\<in>set (st_items s). evolves s r p) \<or> beyond s (ci_collection p) (ci_created_rev p)"
    if p: "p \<in> set (st_items u)" for p
  proof -
    consider (old) q where "q \<in> set (st_items t)" "evolves t q p" | (fresh) "beyond t (ci_collection p) (ci_created_rev p)"
      using assms(2) p unfolding hist_le_def by blast
    then show ?thesis
    proof cases
      case old
      then have same: "ci_collection p = ci_collection q" "ci_created_rev p = ci_created_rev q"
        by (simp_all add: evolves_def)
      consider r where "r \<in> set (st_items s)" "evolves s r q" | "beyond s (ci_collection q) (ci_created_rev q)"
        using assms(1) old(1) unfolding hist_le_def by blast
      then show ?thesis using evolves_trans [OF assms(1) _ old(2)] same by cases auto
    next
      case fresh
      then show ?thesis using beyond_mono [OF assms(1)] by blast
    qed
  qed
  ultimately show ?thesis unfolding hist_le_def by blast
qed

lemma hist_le_cong:
  assumes "st_collections t = st_collections t'" "st_items t = st_items t'"
  shows "hist_le s t = hist_le s t'" "hist_le t s = hist_le t' s"
  using assms by (simp_all add: hist_le_def evolves_def beyond_def)

text \<open>The invariant is kept and the history extended.\<close>

definition keeps :: "store \<Rightarrow> store \<Rightarrow> bool" where
  "keeps s t \<longleftrightarrow> rev_inv s \<longrightarrow> rev_inv t \<and> hist_le s t"

lemma keeps_refl [simp, intro]: "keeps s s"
  by (simp add: keeps_def)

lemma keeps_trans: "keeps s t \<Longrightarrow> keeps t u \<Longrightarrow> keeps s u"
  using hist_le_trans by (auto simp: keeps_def)

lemma keeps_cong:
  assumes "st_collections t = st_collections t'" "st_items t = st_items t'"
  shows "keeps s t = keeps s t'" "keeps t s = keeps t' s"
  using assms rev_inv_cong [OF assms] hist_le_cong [OF assms] by (simp_all add: keeps_def)

lemma keeps_same:
  assumes "st_collections t = st_collections s" "st_items t = st_items s"
  shows "keeps s t"
  using keeps_cong(1) [OF assms, of s] by simp

lemma bump_keeps:
  assumes c: "c \<in> set (st_collections s)" "c_id c = i" "c_revision c \<le> rv"
    and colls: "st_collections t = upd_where (\<lambda>d. c_id d = i) f (st_collections s)"
    and f: "\<And>d. c_id (f d) = c_id d" "c_revision (f c) = rv"
    and items: "st_items t = upd_where Q g (st_items s) @ new"
    and Q: "\<And>r. rev_inv s \<Longrightarrow> r \<in> set (st_items s) \<Longrightarrow> Q r \<Longrightarrow> ci_collection r = i \<and> ci_deleted_rev r = 0"
    and g: "\<And>r. ci_id (g r) = ci_id r" "\<And>r. ci_collection (g r) = ci_collection r"
        "\<And>r. ci_created_rev (g r) = ci_created_rev r"
        "\<And>r. item_ok (c_revision c) r \<Longrightarrow> ci_deleted_rev r = 0 \<Longrightarrow>
           item_ok rv (g r) \<and> ci_updated_rev r \<le> ci_updated_rev (g r)"
        "\<And>r. ci_updated_rev (g r) = ci_updated_rev r \<or> c_revision c < ci_updated_rev (g r)"
        "\<And>r. ci_deleted_rev (g r) = ci_deleted_rev r \<or> c_revision c < ci_deleted_rev (g r)"
    and new: "\<And>r. rev_inv s \<Longrightarrow> r \<in> set new \<Longrightarrow> ci_collection r = i \<and> item_ok rv r"
        "keyed ci_id (st_items s) \<Longrightarrow> keyed ci_id (st_items s @ new)"
        "\<And>r. r \<in> set new \<Longrightarrow> c_revision c < ci_created_rev r"
  shows "keeps s t"
  unfolding keeps_def
proof (intro impI conjI)
  assume inv: "rev_inv s"
  have keyc: "keyed c_id (st_collections s)" using inv by (simp add: rev_inv_def)
  have ok: "item_ok (c_revision c) r" if "r \<in> set (st_items s)" "ci_collection r = i" for r
    using items_of_collection_ok [OF inv c(1) that(1)] c(2) that(2) by simp
  show "rev_inv t"
  proof (rule rev_inv_bump [OF inv c colls f])
    have "map ci_id (upd_where Q g (st_items s)) = map ci_id (st_items s)"
      by (rule map_key_upd_where [where k = ci_id and f = g, OF g(1)])
    then show "keyed ci_id (st_items t)"
      using new(2) inv by (simp add: items keyed_def rev_inv_def)
  next
    fix r assume "r \<in> set (st_items t)"
    then consider (fresh) "r \<in> set new" | (upd) "r \<in> set (upd_where Q g (st_items s))"
      by (auto simp: items)
    then show "r \<in> set (st_items s) \<or> ci_collection r = i \<and> item_ok rv r"
    proof cases
      case fresh
      then show ?thesis using new(1) [OF inv] by blast
    next
      case upd
      then obtain q where q: "q \<in> set (st_items s)" "r = (if Q q then g q else q)"
        by (rule in_upd_whereE)
      then show ?thesis using Q [OF inv q(1)] ok [OF q(1)] g(2,4) by (cases "Q q") auto
    qed
  qed
  have "\<exists>d\<in>set (st_collections t). c_id d = c_id e \<and> c_revision e \<le> c_revision d"
    if e: "e \<in> set (st_collections s)" for e
  proof (cases "c_id e = i")
    case True
    then have "e = c" using keyed_eq [OF keyc e c(1)] c(2) by simp
    then show ?thesis using c f by (intro bexI [of _ "f c"]) (auto simp: colls set_upd_where)
  next
    case False
    then have "e \<in> set (st_collections t)" using e by (auto simp: colls set_upd_where rev_image_eqI)
    then show ?thesis by blast
  qed
  moreover have beyond: "beyond s i n \<longleftrightarrow> c_revision c < n" for n
  proof -
    have "e = c" if "e \<in> set (st_collections s)" "c_id e = i" for e
      using keyed_eq [OF keyc that(1) c(1)] c(2) that(2) by simp
    then show ?thesis unfolding beyond_def using c(1,2) by metis
  qed
  have moved: "evolves s r (g r)" if "r \<in> set (st_items s)" "Q r" for r
  proof -
    have r: "ci_collection r = i" "ci_deleted_rev r = 0" using Q [OF inv that] by auto
    have "ci_updated_rev r \<le> ci_updated_rev (g r)" using g(4) [OF ok [OF that(1) r(1)] r(2)] by simp
    then show ?thesis using g(5,6) [of r] by (simp add: evolves_def g(1-3) r beyond)
  qed
  have "\<exists>q\<in>set (st_items t). evolves s r q" if r: "r \<in> set (st_items s)" for r
  proof (cases "Q r")
    case True
    then have "g r \<in> set (st_items t)" using r by (auto simp: items set_upd_where)
    then show ?thesis using moved [OF r True] by blast
  next
    case False
    then have "r \<in> set (st_items t)" using r by (auto simp: items set_upd_where rev_image_eqI)
    then show ?thesis using evolves_refl by blast
  qed
  moreover have "(\<exists>r\<in>set (st_items s). evolves s r q) \<or> beyond s (ci_collection q) (ci_created_rev q)"
    if q: "q \<in> set (st_items t)" for q
  proof -
    consider (fresh) "q \<in> set new" | (upd) "q \<in> set (upd_where Q g (st_items s))"
      using q by (auto simp: items)
    then show ?thesis
    proof cases
      case fresh
      then show ?thesis using new(1) [OF inv fresh] new(3) [OF fresh] beyond by simp
    next
      case upd
      then obtain r where r: "r \<in> set (st_items s)" "q = (if Q r then g r else r)"
        by (rule in_upd_whereE)
      then have "evolves s r q" using moved by (cases "Q r") simp_all
      then show ?thesis using r(1) by blast
    qed
  qed
  ultimately show "hist_le s t" unfolding hist_le_def by blast
qed

lemma mutation_keeps:
  assumes "\<And>s v a s2. body s = Inr (v, a, s2) \<Longrightarrow> keeps s s2"
  shows "keeps st (snd (mutation env marshal unmarshal k req now body st))"
proof (cases "fst (mutation env marshal unmarshal k req now body st)")
  case (Inl e)
  then have "snd (mutation env marshal unmarshal k req now body st) = st"
    unfolding mutation_def by (rule tx_rollback)
  then show ?thesis by simp
next
  case (Inr v)
  then have "mutation env marshal unmarshal k req now body st
      = (Ok v, snd (mutation env marshal unmarshal k req now body st))" by (simp add: prod_eq_iff)
  then show ?thesis
  proof (cases rule: mutation_cases)
    case replay
    then show ?thesis by simp
  next
    case (ran ms a s2)
    have "keeps (st\<lparr>st_mutations := ms\<rparr>) s2" by (rule assms [OF ran(2)])
    then show ?thesis using keeps_cong(1) [OF ran(3,4)] keeps_cong(2) [of st "st\<lparr>st_mutations := ms\<rparr>"] by simp
  qed
qed

lemma upd_where_id: "upd_where (\<lambda>_. False) g t = t"
  by (induction t) auto

text \<open>A mutation that moves the collection's row and leaves the items alone.\<close>

lemma keeps_frame:
  "keeps s t \<Longrightarrow> st_collections u = st_collections t \<Longrightarrow> st_items u = st_items t \<Longrightarrow> keeps s u"
  using keeps_cong(1) [of t u s] by simp

lemma collection_only_keeps:
  assumes "lockManagedCollection s i caller = Inr c"
    and "\<And>d. c_id (f d) = c_id d" "c_revision c \<le> c_revision (f c)"
    and "st_collections t = st_collections s" "st_items t = st_items s"
  shows "keeps s (UPDATE_collection (c_id c) f t)"
proof (rule bump_keeps [where Q = "\<lambda>_. False" and g = "\<lambda>r. r" and new = "[]" and f = f])
  show "c \<in> set (st_collections s)" by (rule lock_Ok_mem(1) [OF assms(1)])
  show "c_revision c \<le> c_revision (f c)" by (rule assms(3))
  show "st_collections (UPDATE_collection (c_id c) f t) = upd_where (\<lambda>d. c_id d = c_id c) f (st_collections s)"
    by (simp add: UPDATE_collection_def assms(4))
  show "st_items (UPDATE_collection (c_id c) f t) = upd_where (\<lambda>_. False) (\<lambda>r. r) (st_items s) @ []"
    by (simp add: UPDATE_collection_def assms(5) upd_where_id)
  show "item_ok (c_revision (f c)) r \<and> ci_updated_rev r \<le> ci_updated_rev r"
    if "item_ok (c_revision c) r" for r
    using item_ok_mono [OF that assms(3)] by simp
qed (use assms(2) in auto)

lemma INSERT_acl_audit_frame:
  assumes "INSERT_acl_audit newID action acl actor request now s = Inr t"
  shows "st_collections t = st_collections s" "st_items t = st_items s"
  using assms by (auto simp: INSERT_acl_audit_def)

lemma deleteCollectionItems_keeps:
  assumes "deleteCollectionItems i caller itemIDs now respect st = Inr (d, st')"
  shows "keeps st st'"
  using assms
proof (cases rule: deleteCollectionItems_cases)
  case (none c)
  then show ?thesis by simp
next
  case (some c gone assets)
  note c = lock_Ok_mem [OF some(1)]
  show ?thesis
  proof (rule bump_keeps [OF c(1,2), where rv = "c_revision c + 1" and new = "[]"])
    show "st_collections st' = upd_where (\<lambda>d. c_id d = i)
        (\<lambda>d. d\<lparr>c_revision := c_revision c + 1, c_updated := now\<rparr>) (st_collections st)"
      by (simp add: some(5))
    show "st_items st' = upd_where (\<lambda>r. ci_collection r = i \<and> ci_id r \<in> gone \<and> ci_deleted_rev r = 0)
        (\<lambda>r. r\<lparr>ci_deleted_rev := c_revision c + 1, ci_deleted := now\<rparr>) (st_items st) @ []"
      by (simp add: some(5) deleted_items_def)
  qed (auto simp: item_ok_def)
qed

lemma collection_audit_keeps:
  assumes "INSERT_acl_audit newID action acl actor request now (UPDATE_collection (c_id c) f t) = Inr u"
    and "lockManagedCollection s i caller = Inr c"
    and "\<And>d. c_id (f d) = c_id d" "c_revision c \<le> c_revision (f c)"
    and "st_collections t = st_collections s" "st_items t = st_items s"
  shows "keeps s u"
  using keeps_frame [OF collection_only_keeps [OF assms(2-6)] INSERT_acl_audit_frame [OF assms(1)]] .

lemma CreateCollection_keeps: "keeps st (snd (CreateCollection env newID x now st))"
  unfolding CreateCollection_def
proof (rule mutation_keeps)
  fix s :: store and v :: collection and a s2
  assume "(let c = \<lparr>c_id = newID, c_namespace = cc_namespace x, c_name = cc_name x, c_revision = 1,
                 c_retention_days = 14, c_created_by = cc_caller x, c_created = now,
                 c_updated = now, c_deleted = 0\<rparr>
        in bindR (map_error mapCollectionError
              (insert_row (\<lambda>c. c_id c \<noteq> [] \<and> c_namespace c \<noteq> [] \<and> c_name c \<noteq> [] \<and> c_created_by c \<noteq> [])
                 (\<lambda>c d. c_id c = c_id d) c (st_collections s)))
           (\<lambda>t. Ok (c, (''asset.collection.create'', newID, []), s\<lparr>st_collections := t\<rparr>))) = Inr (v, a, s2)"
  then obtain c where s2: "s2 = s\<lparr>st_collections := st_collections s @ [c]\<rparr>" "c_revision c = 1"
      "\<forall>d\<in>set (st_collections s). c_id c \<noteq> c_id d"
    by (auto simp: Let_def)
  have "rev_inv s2" if "rev_inv s"
    using that s2(2,3) unfolding rev_inv_def s2(1) by auto
  moreover have "hist_le s s2"
  proof -
    have "st_items s2 = st_items s" "set (st_collections s) \<subseteq> set (st_collections s2)" by (auto simp: s2(1))
    then show ?thesis unfolding hist_le_def by (metis evolves_refl order_refl subsetD)
  qed
  ultimately show "keeps s s2" by (simp add: keeps_def)
qed

lemma RenameCollection_keeps: "keeps st (snd (RenameCollection env x now st))"
  unfolding RenameCollection_def
  by (rule mutation_keeps) (auto simp: Let_def split: if_splits intro!: collection_only_keeps)

lemma UpdateCollectionRetention_keeps: "keeps st (snd (UpdateCollectionRetention env x now st))"
  unfolding UpdateCollectionRetention_def
  by (rule mutation_keeps) (auto simp: Let_def split: if_splits intro!: collection_only_keeps)

lemma AddCollectionACL_keeps: "keeps st (snd (AddCollectionACL env newID auditID x now st))"
  unfolding AddCollectionACL_def
  by (rule mutation_keeps)
     (auto simp: Let_def intro: collection_audit_keeps)

lemma RevokeCollectionACL_keeps: "keeps st (snd (RevokeCollectionACL env auditID x now st))"
  unfolding RevokeCollectionACL_def
  by (rule mutation_keeps)
     (auto simp: Let_def split: option.splits intro: collection_audit_keeps)

lemma DeleteCollection_keeps: "keeps st (snd (DeleteCollection env x now st))"
  unfolding DeleteCollection_def
proof (rule mutation_keeps, goal_cases)
  case (1 s v a s2)
  obtain c d s1 where c: "lockManagedCollection s (dc_collection x) (dc_caller x) = Inr c"
    and d: "deleteCollectionItems (dc_collection x) (dc_caller x)
          (sort (map ci_id (filter (\<lambda>r. ci_collection r = dc_collection x \<and> ci_deleted_rev r = 0) (st_items s))))
          now False s = Inr (d, s1)"
    and s2: "s2 = UPDATE_collection (c_id (idl_collection d))
          (\<lambda>e. e\<lparr>c_revision := c_revision c + 1, c_updated := now, c_deleted := now\<rparr>) s1"
    using 1 by (auto simp: Let_def)
  have s1: "keeps s s1" by (rule deleteCollectionItems_keeps [OF d])
  from d show "keeps s s2"
  proof (cases rule: deleteCollectionItems_cases)
    case (none c')
    then have "c' = c" using c by simp
    then show ?thesis unfolding s2 none(2,3)
      by (simp add: collection_only_keeps [OF c])
  next
    case (some c' gone assets)
    then have c': "c' = c" using c by simp
    have m: "c\<lparr>c_revision := c_revision c + 1, c_updated := now\<rparr> \<in> set (st_collections s1)"
      using lock_Ok_mem(1,2) [OF c] by (force simp: some(5) c' set_upd_where)
    show ?thesis
    proof (rule keeps_trans [OF s1])
      show "keeps s1 s2"
      proof (rule bump_keeps [where Q = "\<lambda>_. False" and g = "\<lambda>r. r" and new = "[]" and rv = "c_revision c + 1",
            OF m refl])
        show "st_collections s2 = upd_where (\<lambda>d. c_id d = c_id (c\<lparr>c_revision := c_revision c + 1, c_updated := now\<rparr>))
            (\<lambda>e. e\<lparr>c_revision := c_revision c + 1, c_updated := now, c_deleted := now\<rparr>) (st_collections s1)"
          by (simp add: s2 UPDATE_collection_def some(4) c')
        show "st_items s2 = upd_where (\<lambda>_. False) (\<lambda>r. r) (st_items s1) @ []"
          by (simp add: s2 UPDATE_collection_def upd_where_id)
      qed auto
    qed
  qed
qed

lemma DeleteCollectionItem_keeps: "keeps st (snd (DeleteCollectionItem env x now st))"
  unfolding DeleteCollectionItem_def
  by (rule mutation_keeps) (auto simp: Let_def dest: deleteCollectionItems_keeps)

lemma DeleteCollectionItems_keeps: "keeps st (snd (DeleteCollectionItems env x now st))"
  unfolding DeleteCollectionItems_def Let_def
  by (rule mutation_keeps) (auto simp: Let_def dest: deleteCollectionItems_keeps)

lemma DeleteExpiredCollectionItems_keeps: "keeps st (snd (DeleteExpiredCollectionItems i ids now st))"
  by (cases "deleteCollectionItems i ''hhc-line-function-bot'' ids now True st")
     (auto simp: DeleteExpiredCollectionItems_def dest: deleteCollectionItems_keeps)

lemma with_media_keeps [simp]:
  "ci_id (with_media st r) = ci_id r" "ci_collection (with_media st r) = ci_collection r"
  "ci_name (with_media st r) = ci_name r" "ci_created (with_media st r) = ci_created r"
  "ci_exempt (with_media st r) = ci_exempt r"
  by (simp_all add: with_media_def bare_item_def split: option.splits)

lemma upd_where_idem: "upd_where P (\<lambda>d. d) t = t"
  by (induction t) auto

lemma AddCollectionItem_keeps: "keeps st (snd (AddCollectionItem env newID x now st))"
  unfolding AddCollectionItem_def
proof (rule mutation_keeps, goal_cases)
  case (1 s v a s2)
  then obtain c where c: "lockManagedCollection s (ai_collection x) (ai_caller x) = Inr c" by auto
  with 1 obtain m where m: "sel1 (\<lambda>r. a_id r = ai_asset x \<and> live r) (st_assets s) = Some m"
    by (cases "sel1 (\<lambda>r. a_id r = ai_asset x \<and> live r) (st_assets s)") auto
  define item where "item = \<lparr>ci_id = newID, ci_collection = c_id c, ci_asset = ai_asset x,
      ci_remote = ai_remote x, ci_name = ai_name x, ci_source_revision = ai_source_revision x,
      ci_created_rev = c_revision c + 1, ci_exempt = False, ci_updated_rev = c_revision c + 1,
      ci_deleted_rev = 0, ci_mime = a_detected_mime m, ci_size = a_size m, ci_etag = a_etag m,
      ci_created = now, ci_updated = now, ci_deleted = 0\<rparr>"
  have fresh: "\<forall>r\<in>set (st_items s). \<not> item_clash (bare_item item) r"
    and chk: "item_check (bare_item item)"
    and s2: "s2 = UPDATE_collection (c_id c) (\<lambda>d. d\<lparr>c_revision := c_revision c + 1, c_updated := now\<rparr>)
               (s\<lparr>st_items := st_items s @ [bare_item item]\<rparr>)"
    using 1 [symmetric] c m by (auto simp: Let_def item_def eq_commute [of "Inr (v, a, s2)"] split: if_split_asm)
  have item: "ci_collection item = c_id c" "ci_created_rev item = c_revision c + 1"
      "ci_updated_rev item = c_revision c + 1" "ci_deleted_rev item = 0" "ci_id item \<noteq> []"
    using chk by (simp_all add: item_check_def bare_item_def) (simp_all add: item_def)
  have bare: "ci_id (bare_item item) = ci_id item" "ci_collection (bare_item item) = c_id c"
      "ci_created_rev (bare_item item) = ci_created_rev item"
      "item_ok h (bare_item item) = item_ok h item" for h
    by (simp_all add: bare_item_def item item_ok_def)
  note mem = lock_Ok_mem [OF c]
  show "keeps s s2"
  proof (rule bump_keeps [where Q = "\<lambda>_. False" and g = "\<lambda>r. r" and new = "[bare_item item]"
        and rv = "c_revision c + 1", OF mem(1) refl])
    show "st_collections s2 = upd_where (\<lambda>d. c_id d = c_id c)
        (\<lambda>d. d\<lparr>c_revision := c_revision c + 1, c_updated := now\<rparr>) (st_collections s)"
      by (simp add: s2 UPDATE_collection_def)
    show "st_items s2 = upd_where (\<lambda>_. False) (\<lambda>r. r) (st_items s) @ [bare_item item]"
      by (simp add: s2 UPDATE_collection_def upd_where_id)
    show "keyed ci_id (st_items s @ [bare_item item])" if "keyed ci_id (st_items s)"
      using that fresh by (auto simp: item_clash_def bare(1))
    show "ci_collection r = c_id c \<and> item_ok (c_revision c + 1) r"
      if "rev_inv s" "r \<in> set [bare_item item]" for r
    proof -
      have "1 \<le> c_revision c" using that(1) mem(1) by (auto simp: rev_inv_def)
      then show ?thesis using that(2) item by (simp add: bare) (simp add: item_ok_def)
    qed
  qed (auto intro: item_ok_mono simp: bare item)
qed

lemma RenameCollectionItem_keeps: "keeps st (snd (RenameCollectionItem env x now st))"
proof (cases "validCollectionItemDisplayName (TrimSpace (rii_name x))")
  case False
  then show ?thesis by (simp add: RenameCollectionItem_def)
next
  case True
  show ?thesis
    unfolding RenameCollectionItem_def Let_def using True
  proof (simp, intro mutation_keeps, goal_cases)
    case (1 s v a s2)
    let ?P = "\<lambda>r. ci_id r = rii_item x \<and> ci_collection r = rii_collection x \<and> ci_deleted_rev r = 0"
    from 1 obtain c r where c: "lockManagedCollection s (rii_collection x) (rii_caller x) = Inr c"
      and r: "sel1 ?P (st_items s) = Some r"
      by (auto split: option.splits)
    note mem = lock_Ok_mem [OF c]
    have rm: "r \<in> set (st_items s)" "?P r" using sel1_Some [OF r] by auto
    let ?t = "UPDATE_collection (c_id c) (\<lambda>d. d\<lparr>c_revision := c_revision c + 1, c_updated := now\<rparr>)
         (s\<lparr>st_items := upd_where (\<lambda>q. ci_id q = ci_id r)
            (\<lambda>q. q\<lparr>ci_name := TrimSpace (rii_name x), ci_updated_rev := c_revision c + 1, ci_updated := now\<rparr>) (st_items s)\<rparr>)"
    have "keeps s ?t"
    proof (rule bump_keeps [where Q = "\<lambda>q. ci_id q = ci_id r" and new = "[]"
          and g = "\<lambda>q. q\<lparr>ci_name := TrimSpace (rii_name x), ci_updated_rev := c_revision c + 1, ci_updated := now\<rparr>"
          and rv = "c_revision c + 1", OF mem(1) refl])
      show "st_collections ?t = upd_where (\<lambda>d. c_id d = c_id c)
          (\<lambda>d. d\<lparr>c_revision := c_revision c + 1, c_updated := now\<rparr>) (st_collections s)"
        by (simp add: UPDATE_collection_def)
      show "ci_collection q = c_id c \<and> ci_deleted_rev q = 0"
        if "rev_inv s" "q \<in> set (st_items s)" "ci_id q = ci_id r" for q
        using keyed_eq [of ci_id "st_items s" q r] that rm mem(2) by (simp add: rev_inv_def)
    qed (auto simp: UPDATE_collection_def item_ok_def)
    then show "keeps s s2" using 1 c r by (auto split: if_splits)
  qed
qed

lemma SetCollectionItemsRetention_keeps: "keeps st (snd (SetCollectionItemsRetention env x now st))"
  unfolding SetCollectionItemsRetention_def Let_def
proof (rule mutation_keeps, goal_cases)
  case (1 s v a s2)
  let ?active = "map ci_id (deletable_rows s (sri_collection x) (uniqueSortedStrings (sri_items x)))"
  from 1 obtain c where c: "lockManagedCollection s (sri_collection x) (sri_caller x) = Inr c"
    and s2: "s2 = (if ?active = [] then s else s\<lparr>st_items := upd_where
                       (\<lambda>r. ci_id r \<in> set ?active \<and> ci_deleted_rev r = 0)
                       (\<lambda>r. r\<lparr>ci_exempt := sri_exempt x, ci_updated := now\<rparr>) (st_items s)\<rparr>)"
    by auto
  note mem = lock_Ok_mem [OF c]
  show "keeps s s2"
  proof (cases "?active = []")
    case True
    then show ?thesis by (simp add: s2)
  next
    case False
    show ?thesis
    proof (rule bump_keeps [where Q = "\<lambda>r. ci_id r \<in> set ?active \<and> ci_deleted_rev r = 0" and new = "[]"
          and f = "\<lambda>d. d" and g = "\<lambda>r. r\<lparr>ci_exempt := sri_exempt x, ci_updated := now\<rparr>"
          and rv = "c_revision c", OF mem(1) refl])
      show "st_items s2 = upd_where (\<lambda>r. ci_id r \<in> set ?active \<and> ci_deleted_rev r = 0)
          (\<lambda>r. r\<lparr>ci_exempt := sri_exempt x, ci_updated := now\<rparr>) (st_items s) @ []"
        using False by (simp add: s2)
      show "ci_collection r = c_id c \<and> ci_deleted_rev r = 0"
        if inv: "rev_inv s" and r: "r \<in> set (st_items s)" "ci_id r \<in> set ?active \<and> ci_deleted_rev r = 0" for r
      proof -
        obtain q where "q \<in> set (st_items s)" "ci_collection q = sri_collection x" "ci_id q = ci_id r"
          using r(2) by (auto simp: deletable_rows_set)
        then show ?thesis using keyed_eq [of ci_id "st_items s" q r] inv r mem(2) by (simp add: rev_inv_def)
      qed
      show "st_collections s2 = upd_where (\<lambda>d. c_id d = c_id c) (\<lambda>d. d) (st_collections s)"
        by (simp add: s2 upd_where_idem)
    qed (auto simp: item_ok_def)
  qed
qed

end
