(* ===== verification/Asset_Deletion.thy ===== *)
theory Asset_Deletion
  imports Collection_Laws
begin

text \<open>
  Deleting an asset (\<open>SoftDeleteAsset\<close>, \<open>softDeleteAsset\<close> and \<open>activeAssetCollectionIDs\<close> of
  \<open>internal/postgres/store.go\<close>).  The transaction reads which collections hold the asset before
  it locks anything, so an attempt takes what each of its reads returned: \<open>ids\<close> is the first,
  unlocked query, \<open>seen\<close> the collections of the items it locks next, and the store is the one
  from the lock on the asset row on.  An attempt that finds a collection it did not lock answers
  "retry" and the loop of \<open>SoftDeleteAsset\<close> starts over; the list argument of the loop is what
  its successive attempts read.
\<close>

section \<open>The operation\<close>

definition activeAssetCollectionIDs :: "store \<Rightarrow> string \<Rightarrow> string list" where
  "activeAssetCollectionIDs st i =
     sort (remdups (map ci_collection (filter (\<lambda>r. ci_asset r = i \<and> ci_deleted_rev r = 0) (st_items st))))"

definition locked_revisions :: "string list \<Rightarrow> store \<Rightarrow> (string \<times> int) list" where
  "locked_revisions ids st =
     map (\<lambda>c. (c_id c, c_revision c)) (filter (\<lambda>c. c_id c \<in> set ids) (st_collections st))"

text \<open>One round of the loop over the collections: tombstones, and the revision if there are any.\<close>

definition tombstone_asset :: "string \<Rightarrow> string \<Rightarrow> int \<Rightarrow> time \<Rightarrow> store \<Rightarrow> store" where
  "tombstone_asset i c n now st =
     (let P = (\<lambda>r. ci_collection r = c \<and> ci_asset r = i \<and> ci_deleted_rev r = 0);
          st1 = st\<lparr>st_items := upd_where P (\<lambda>r. r\<lparr>ci_deleted_rev := n, ci_deleted := now\<rparr>) (st_items st)\<rparr>
      in if affected P (st_items st) = 0 then st1
         else UPDATE_collection c (\<lambda>d. d\<lparr>c_revision := n, c_updated := now\<rparr>) st1)"

fun tombstone_all :: "string \<Rightarrow> (string \<times> int) list \<Rightarrow> string list \<Rightarrow> time \<Rightarrow> store \<Rightarrow> store" where
  "tombstone_all i revs [] now st = st"
| "tombstone_all i revs (c # cs) now st =
     tombstone_all i revs cs now
       (tombstone_asset i c ((case map_of revs c of None \<Rightarrow> 0 | Some n \<Rightarrow> n) + 1) now st)"

definition softDeleteAsset ::
  "string list \<Rightarrow> string list \<Rightarrow> string \<Rightarrow> string \<Rightarrow> time \<Rightarrow> store \<Rightarrow> bool result \<times> store" where
  "softDeleteAsset ids seen i owner now st =
     (let revs = locked_revisions ids st;
          unlocked = (\<lambda>c. c \<notin> fst ` set revs)
      in if list_ex unlocked seen then (Ok True, st)
         else case sel1 (\<lambda>r. a_id r = i \<and> a_owner_service r = owner \<and> a_purged r = 0) (st_assets st) of
           None \<Rightarrow> (Err ErrNotFound, st)
         | Some a \<Rightarrow>
             if a_deleted a \<noteq> 0 then (Ok False, st)
             else if list_ex unlocked (activeAssetCollectionIDs st i) then (Ok True, st)
             else (Ok False, UPDATE_assets (\<lambda>r. a_id r = i) (\<lambda>r. r\<lparr>a_deleted := now, a_updated := now\<rparr>)
                               (tombstone_all i revs ids now st)))"

fun SoftDeleteAsset ::
  "(string list \<times> string list \<times> store) list \<Rightarrow> string \<Rightarrow> string \<Rightarrow> time \<Rightarrow> (unit result \<times> store) option" where
  "SoftDeleteAsset [] i owner now = None"
| "SoftDeleteAsset ((ids, seen, st) # attempts) i owner now =
     (case softDeleteAsset ids seen i owner now st of
        (Inl e, st') \<Rightarrow> Some (Err e, st')
      | (Inr retry, st') \<Rightarrow> if retry then SoftDeleteAsset attempts i owner now else Some (Ok (), st'))"

section \<open>Its effect on the collections\<close>

lemma in_activeAssetCollectionIDs [simp]:
  "c \<in> set (activeAssetCollectionIDs st i) \<longleftrightarrow>
     (\<exists>r\<in>set (st_items st). ci_asset r = i \<and> ci_deleted_rev r = 0 \<and> ci_collection r = c)"
  by (auto simp: activeAssetCollectionIDs_def)

lemma distinct_activeAssetCollectionIDs [simp]: "distinct (activeAssetCollectionIDs st i)"
  by (simp add: activeAssetCollectionIDs_def)

lemma locked_revisions_fst: "fst ` set (locked_revisions ids st) = c_id ` {c \<in> set (st_collections st). c_id c \<in> set ids}"
  by (force simp: locked_revisions_def)

lemma locked_revisions_at:
  assumes "keyed c_id (st_collections st)" "c \<in> set (st_collections st)" "c_id c \<in> set ids"
  shows "map_of (locked_revisions ids st) (c_id c) = Some (c_revision c)"
proof -
  have "map fst (locked_revisions ids st) = map c_id (filter (\<lambda>c. c_id c \<in> set ids) (st_collections st))"
    by (simp add: locked_revisions_def comp_def)
  then have "distinct (map fst (locked_revisions ids st))"
    using assms(1) by (simp add: keyed_def distinct_map_filter)
  moreover have "(c_id c, c_revision c) \<in> set (locked_revisions ids st)"
    using assms(2,3) by (auto simp: locked_revisions_def)
  ultimately show ?thesis by (simp add: map_of_eq_Some_iff)
qed

lemma tombstone_asset_keeps:
  assumes "c \<in> set (st_collections st)"
  shows "keeps st (tombstone_asset i (c_id c) (c_revision c + 1) now st)"
proof -
  let ?P = "\<lambda>r. ci_collection r = c_id c \<and> ci_asset r = i \<and> ci_deleted_rev r = 0"
  let ?n = "c_revision c + 1"
  show ?thesis
  proof (cases "affected ?P (st_items st) = 0")
    case True
    then have "upd_where ?P (\<lambda>r. r\<lparr>ci_deleted_rev := ?n, ci_deleted := now\<rparr>) (st_items st) = st_items st"
      by (intro upd_where_none) (simp add: affected_0_iff)
    then show ?thesis using True by (simp add: tombstone_asset_def Let_def)
  next
    case False
    show ?thesis
    proof (rule bump_keeps [OF assms refl, where rv = ?n and new = "[]" and Q = ?P
          and g = "\<lambda>r. r\<lparr>ci_deleted_rev := ?n, ci_deleted := now\<rparr>"
          and f = "\<lambda>d. d\<lparr>c_revision := ?n, c_updated := now\<rparr>"])
    qed (use False in \<open>auto simp: tombstone_asset_def UPDATE_collection_def Let_def item_ok_def\<close>)
  qed
qed

lemma tombstone_asset_items:
  "st_items (tombstone_asset i c n now st) =
     upd_where (\<lambda>r. ci_collection r = c \<and> ci_asset r = i \<and> ci_deleted_rev r = 0)
       (\<lambda>r. r\<lparr>ci_deleted_rev := n, ci_deleted := now\<rparr>) (st_items st)"
  by (simp add: tombstone_asset_def UPDATE_collection_def Let_def)

lemma tombstone_asset_assets [simp]: "st_assets (tombstone_asset i c n now st) = st_assets st"
  by (simp add: tombstone_asset_def UPDATE_collection_def Let_def)

lemma tombstone_asset_other:
  assumes "d \<in> set (st_collections st)" "c_id d \<noteq> c"
  shows "d \<in> set (st_collections (tombstone_asset i c n now st))"
  using assms by (auto simp: tombstone_asset_def UPDATE_collection_def Let_def set_upd_where rev_image_eqI)

lemma tombstone_all_assets [simp]: "st_assets (tombstone_all i revs cs now st) = st_assets st"
  by (induction cs arbitrary: st) auto

lemma tombstone_all_keeps:
  assumes "distinct cs" "\<And>c. c \<in> set cs \<Longrightarrow> \<exists>d\<in>set (st_collections st). c_id d = c \<and> map_of revs c = Some (c_revision d)"
  shows "keeps st (tombstone_all i revs cs now st)"
  using assms
proof (induction cs arbitrary: st)
  case Nil
  then show ?case by simp
next
  case (Cons c cs)
  obtain d where d: "d \<in> set (st_collections st)" "c_id d = c" "map_of revs c = Some (c_revision d)"
    using Cons.prems(2) [of c] by auto
  let ?st = "tombstone_asset i c (c_revision d + 1) now st"
  have "keeps st ?st" using tombstone_asset_keeps [OF d(1)] d(2) by simp
  moreover have "\<exists>d\<in>set (st_collections ?st). c_id d = e \<and> map_of revs e = Some (c_revision d)"
    if e: "e \<in> set cs" for e
  proof -
    obtain d' where d': "d' \<in> set (st_collections st)" "c_id d' = e" "map_of revs e = Some (c_revision d')"
      using Cons.prems(2) [of e] e by auto
    moreover have "d' \<in> set (st_collections ?st)"
      by (rule tombstone_asset_other [OF d'(1)]) (use Cons.prems(1) e d'(2) in auto)
    ultimately show ?thesis by blast
  qed
  then have "keeps ?st (tombstone_all i revs cs now ?st)"
    using Cons.IH Cons.prems(1) by simp
  ultimately show ?case using d(3) keeps_trans by simp
qed

text \<open>Which items the loop leaves: those of other assets, and tombstones.\<close>

lemma tombstone_all_items:
  assumes "r \<in> set (st_items (tombstone_all i revs cs now st))"
    and "\<And>c. c \<in> set cs \<Longrightarrow> map_of revs c \<noteq> None"
    and "\<And>c n. map_of revs c = Some n \<Longrightarrow> 0 \<le> n"
  shows "r \<in> set (st_items st) \<and> \<not> (ci_asset r = i \<and> ci_deleted_rev r = 0 \<and> ci_collection r \<in> set cs)
    \<or> (\<exists>q\<in>set (st_items st). \<exists>n. map_of revs (ci_collection q) = Some n \<and> ci_asset q = i \<and> ci_deleted_rev q = 0
          \<and> r = q\<lparr>ci_deleted_rev := n + 1, ci_deleted := now\<rparr>)"
  using assms(1,2)
proof (induction cs arbitrary: st)
  case Nil
  then show ?case by simp
next
  case (Cons c cs)
  obtain n where n: "map_of revs c = Some n" using Cons.prems(2) [of c] by auto
  let ?st = "tombstone_asset i c (n + 1) now st"
  have was: "q \<in> set (st_items st) \<and> \<not> (ci_asset q = i \<and> ci_deleted_rev q = 0 \<and> ci_collection q = c)
      \<or> (\<exists>p\<in>set (st_items st). ci_collection p = c \<and> ci_asset p = i \<and> ci_deleted_rev p = 0
           \<and> q = p\<lparr>ci_deleted_rev := n + 1, ci_deleted := now\<rparr>)"
    if "q \<in> set (st_items ?st)" for q
    using that unfolding tombstone_asset_items by (elim in_upd_whereE) (auto split: if_splits)
  have n0: "n + 1 \<noteq> 0" using assms(3) [OF n] by simp
  have "r \<in> set (st_items (tombstone_all i revs cs now ?st))" using Cons.prems(1) n by simp
  from Cons.IH [OF this] Cons.prems(2) have "(r \<in> set (st_items ?st)
        \<and> \<not> (ci_asset r = i \<and> ci_deleted_rev r = 0 \<and> ci_collection r \<in> set cs))
    \<or> (\<exists>q\<in>set (st_items ?st). \<exists>n. map_of revs (ci_collection q) = Some n \<and> ci_asset q = i
          \<and> ci_deleted_rev q = 0 \<and> r = q\<lparr>ci_deleted_rev := n + 1, ci_deleted := now\<rparr>)" by simp
  then consider (stay) "r \<in> set (st_items ?st)" "\<not> (ci_asset r = i \<and> ci_deleted_rev r = 0 \<and> ci_collection r \<in> set cs)"
    | (gone) q m where "q \<in> set (st_items ?st)" "map_of revs (ci_collection q) = Some m" "ci_asset q = i"
        "ci_deleted_rev q = 0" "r = q\<lparr>ci_deleted_rev := m + 1, ci_deleted := now\<rparr>"
    by blast
  then show ?case
  proof cases
    case stay
    from was [OF stay(1)] show ?thesis
    proof (elim disjE bexE conjE)
      assume "r \<in> set (st_items st)" "\<not> (ci_asset r = i \<and> ci_deleted_rev r = 0 \<and> ci_collection r = c)"
      then show ?thesis using stay(2) by simp
    next
      fix p assume p: "p \<in> set (st_items st)" "ci_collection p = c" "ci_asset p = i" "ci_deleted_rev p = 0"
        "r = p\<lparr>ci_deleted_rev := n + 1, ci_deleted := now\<rparr>"
      then show ?thesis using n by (intro disjI2 bexI [OF _ p(1)] exI [of _ n]) simp
    qed
  next
    case gone
    have "q \<in> set (st_items st)"
      using was [OF gone(1)]
    proof (elim disjE bexE conjE)
      fix p assume "q = p\<lparr>ci_deleted_rev := n + 1, ci_deleted := now\<rparr>"
      then have "ci_deleted_rev q = n + 1" by simp
      then show ?thesis using gone(4) n0 by simp
    qed
    then show ?thesis using gone(2-5) by (intro disjI2 bexI [of _ q] exI [of _ m]) simp_all
  qed
qed

text \<open>The cases of an attempt that does not ask for a retry.\<close>

lemma softDeleteAsset_cases:
  assumes "softDeleteAsset ids seen i owner now st = (Ok False, st')"
  obtains (already) a where "sel1 (\<lambda>r. a_id r = i \<and> a_owner_service r = owner \<and> a_purged r = 0) (st_assets st) = Some a"
      "a_deleted a \<noteq> 0" "st' = st"
  | (deleted) a where "sel1 (\<lambda>r. a_id r = i \<and> a_owner_service r = owner \<and> a_purged r = 0) (st_assets st) = Some a"
      "a_deleted a = 0"
      "\<And>c. c \<in> set (activeAssetCollectionIDs st i) \<Longrightarrow> c \<in> set ids \<and> (\<exists>d\<in>set (st_collections st). c_id d = c)"
      "st' = UPDATE_assets (\<lambda>r. a_id r = i) (\<lambda>r. r\<lparr>a_deleted := now, a_updated := now\<rparr>)
               (tombstone_all i (locked_revisions ids st) ids now st)"
proof -
  let ?a = "sel1 (\<lambda>r. a_id r = i \<and> a_owner_service r = owner \<and> a_purged r = 0) (st_assets st)"
  obtain a where a: "?a = Some a" using assms by (cases ?a) (auto simp: softDeleteAsset_def Let_def split: if_splits)
  show thesis
  proof (cases "a_deleted a = 0")
    case False
    then have "st' = st" using assms a by (auto simp: softDeleteAsset_def Let_def split: if_splits)
    then show thesis using already a False by blast
  next
    case True
    then have all: "\<not> list_ex (\<lambda>c. c \<notin> fst ` set (locked_revisions ids st)) (activeAssetCollectionIDs st i)"
      and st': "st' = UPDATE_assets (\<lambda>r. a_id r = i) (\<lambda>r. r\<lparr>a_deleted := now, a_updated := now\<rparr>)
               (tombstone_all i (locked_revisions ids st) ids now st)"
      using assms a by (auto simp: softDeleteAsset_def Let_def split: if_split_asm)
    have "c \<in> set ids \<and> (\<exists>d\<in>set (st_collections st). c_id d = c)"
      if "c \<in> set (activeAssetCollectionIDs st i)" for c
      using all that by (auto simp: list_ex_iff locked_revisions_fst simp del: in_activeAssetCollectionIDs)
    then show thesis using deleted [OF a True _ st'] by blast
  qed
qed

text \<open>
  The ids an attempt starts from are the answer of \<open>activeAssetCollectionIDs\<close> in an earlier
  state: distinct, and collections that exist.
\<close>

definition read_before :: "string list \<Rightarrow> store \<Rightarrow> bool" where
  "read_before ids st \<longleftrightarrow> distinct ids \<and> set ids \<subseteq> c_id ` set (st_collections st)"

lemma softDeleteAsset_keeps:
  assumes "read_before ids st"
  shows "keeps st (snd (softDeleteAsset ids seen i owner now st))"
proof (cases "fst (softDeleteAsset ids seen i owner now st) = Ok False")
  case False
  then have "snd (softDeleteAsset ids seen i owner now st) = st"
    by (auto simp: softDeleteAsset_def Let_def split: option.splits)
  then show ?thesis by simp
next
  case True
  then have eq: "softDeleteAsset ids seen i owner now st = (Ok False, snd (softDeleteAsset ids seen i owner now st))"
    by (simp add: prod_eq_iff)
  show ?thesis
  proof (cases "rev_inv st")
    case False
    then show ?thesis by (simp add: keeps_def)
  next
    case inv: True
    from eq show ?thesis
    proof (cases rule: softDeleteAsset_cases)
      case (already a)
      then show ?thesis by simp
    next
      case (deleted a)
      have "keeps st (tombstone_all i (locked_revisions ids st) ids now st)"
      proof (rule tombstone_all_keeps)
        show "distinct ids" using assms by (simp add: read_before_def)
        show "\<exists>d\<in>set (st_collections st). c_id d = c \<and> map_of (locked_revisions ids st) c = Some (c_revision d)"
          if c: "c \<in> set ids" for c
        proof -
          obtain d where d: "d \<in> set (st_collections st)" "c_id d = c" using assms c by (auto simp: read_before_def)
          have "map_of (locked_revisions ids st) (c_id d) = Some (c_revision d)"
            by (rule locked_revisions_at) (use inv d c in \<open>auto simp: rev_inv_def\<close>)
          then show ?thesis using d by blast
        qed
      qed
      then show ?thesis by (rule keeps_frame) (simp_all add: deleted(4) UPDATE_assets_def)
    qed
  qed
qed

end
