(* ===== verification/Collection_Props.thy ===== *)
theory Collection_Props
  imports Asset_Deletion
begin

text \<open>
  The collections as a state machine over all their operations, with the history that every run
  keeps, and the properties of the mutations beyond it: idempotent replay, what a deletion
  removes and releases, what the retention sweep may delete, and the finality of deleting a
  collection.
\<close>

section \<open>The collection state machine\<close>

text \<open>
  One operation on the collections, whatever its outcome.  A deletion of an asset is one attempt,
  with any earlier read of the collections that hold the asset.
\<close>

inductive collection_step :: "store \<Rightarrow> store \<Rightarrow> bool" where
  step_create: "collection_step st (snd (CreateCollection env newID x1 now st))"
| step_rename: "collection_step st (snd (RenameCollection env x2 now st))"
| step_delete: "collection_step st (snd (DeleteCollection env x3 now st))"
| step_add_acl: "collection_step st (snd (AddCollectionACL env newID auditID x4 now st))"
| step_revoke_acl: "collection_step st (snd (RevokeCollectionACL env auditID x5 now st))"
| step_add_item: "collection_step st (snd (AddCollectionItem env newID x6 now st))"
| step_delete_item: "collection_step st (snd (DeleteCollectionItem env x7 now st))"
| step_delete_items: "collection_step st (snd (DeleteCollectionItems env x8 now st))"
| step_rename_item: "collection_step st (snd (RenameCollectionItem env x9 now st))"
| step_set_retention: "collection_step st (snd (SetCollectionItemsRetention env x10 now st))"
| step_update_retention: "collection_step st (snd (UpdateCollectionRetention env x11 now st))"
| step_expire: "collection_step st (snd (DeleteExpiredCollectionItems i ids now st))"
| step_soft_delete: "read_before ids st \<Longrightarrow> collection_step st (snd (softDeleteAsset ids seen i owner now st))"

inductive_cases collection_stepE: "collection_step st st'"

lemma collection_step_keeps: "collection_step s t \<Longrightarrow> keeps s t"
  by (erule collection_stepE)
     (simp_all add: CreateCollection_keeps RenameCollection_keeps DeleteCollection_keeps
        AddCollectionACL_keeps RevokeCollectionACL_keeps AddCollectionItem_keeps
        DeleteCollectionItem_keeps DeleteCollectionItems_keeps RenameCollectionItem_keeps
        SetCollectionItemsRetention_keeps UpdateCollectionRetention_keeps DeleteExpiredCollectionItems_keeps
        softDeleteAsset_keeps)

lemma collection_steps_keep:
  assumes "collection_step\<^sup>*\<^sup>* s t" "rev_inv s"
  shows "rev_inv t \<and> hist_le s t"
  using assms
proof (induction rule: rtranclp_induct)
  case (step t u)
  then show ?case using collection_step_keeps [OF step.hyps(2)] hist_le_trans by (auto simp: keeps_def)
qed simp

text \<open>
  C2.  Over any sequence of collection operations from any consistent store, whether they succeed,
  replay or fail: every item stays within the revisions of its collection, collection revisions
  never fall, no collection or item disappears, an item keeps its identity and creation, and
  once deleted it never changes again (its tombstone is permanent), and items are added, changed
  and deleted only at revisions that their collection had not reached before.
\<close>

theorem collection_history:
  assumes "collection_step\<^sup>*\<^sup>* s t" "rev_inv s"
  shows "rev_inv t \<and> hist_le s t"
  by (rule collection_steps_keep [OF assms])

section \<open>A concrete collection\<close>

definition demo_create :: create_collection_input where
  "demo_create = \<lparr>cc_namespace = ''line.group.media-sync'', cc_name = ''album'',
     cc_caller = ''hhc-line-function-bot'', cc_key = ''k1''\<rparr>"

definition demo_collections :: store where
  "demo_collections = snd (CreateCollection demo_env ''c1'' demo_create 100
     (empty_store\<lparr>st_assets := [(new_asset_row (demo_upload\<lparr>a_namespace := ''line.group.media-sync'',
        a_owner_service := ''hhc-line-function-bot'', a_owner_type := ''media_sync_ingest''\<rparr>))
        \<lparr>a_upload_status := UploadCompleted, a_scan_status := ScanClean,
         a_detected_mime := ''image/png'', a_size := 7, a_etag := ''e1''\<rparr>]\<rparr>))"

definition demo_add :: add_item_input where
  "demo_add = \<lparr>ai_collection = ''c1'', ai_asset = ''a1'', ai_remote = ''r1'', ai_name = ''photo.png'',
     ai_source_revision = ''1'', ai_caller = ''hhc-line-function-bot'', ai_key = ''k2''\<rparr>"

definition demo_listed :: store where
  "demo_listed = snd (AddCollectionItem demo_env ''i1'' demo_add 110 demo_collections)"

lemmas collection_eval = demo_create_def demo_collections_def demo_add_def demo_listed_def
  CreateCollection_def AddCollectionItem_def mutation_def run_mutation_def claimMutation_def
  finishAuditedMutation_def mutation_at_def enqueueAuditTx_def EnqueueTx_def insert_row_def
  lockManagedCollection_def UPDATE_collection_def item_check_def item_clash_def bare_item_def
  servable_def live_def of_item_def of_collection_def strip_collection_def Let_def
  new_asset_row_def demo_defs

lemma demo_listed_ok: "fst (AddCollectionItem demo_env ''i1'' demo_add 110 demo_collections)
   = Ok \<lparr>im_collection = \<lparr>c_id = ''c1'', c_namespace = ''line.group.media-sync'', c_name = ''album'',
        c_revision = 2, c_retention_days = 14, c_created_by = ''hhc-line-function-bot'', c_created = 100,
        c_updated = 110, c_deleted = 0\<rparr>,
      im_item = \<lparr>ci_id = ''i1'', ci_collection = ''c1'', ci_asset = ''a1'', ci_remote = ''r1'',
        ci_name = ''photo.png'', ci_source_revision = ''1'', ci_created_rev = 2, ci_exempt = False,
        ci_updated_rev = 2, ci_deleted_rev = 0, ci_mime = ''image/png'', ci_size = 7, ci_etag = ''e1'',
        ci_created = 110, ci_updated = 110, ci_deleted = 0\<rparr>, im_tombstone = zero_tombstone\<rparr>"
  by (simp add: collection_eval)

lemma demo_listed_tables:
  "st_items demo_listed = [\<lparr>ci_id = ''i1'', ci_collection = ''c1'', ci_asset = ''a1'', ci_remote = ''r1'',
        ci_name = ''photo.png'', ci_source_revision = ''1'', ci_created_rev = 2, ci_exempt = False,
        ci_updated_rev = 2, ci_deleted_rev = 0, ci_mime = [], ci_size = 0, ci_etag = [],
        ci_created = 110, ci_updated = 110, ci_deleted = 0\<rparr>]"
  "st_collections demo_listed = [\<lparr>c_id = ''c1'', c_namespace = ''line.group.media-sync'', c_name = ''album'',
        c_revision = 2, c_retention_days = 14, c_created_by = ''hhc-line-function-bot'', c_created = 100,
        c_updated = 110, c_deleted = 0\<rparr>]"
  by (simp_all add: collection_eval)

lemma demo_steps: "collection_step\<^sup>*\<^sup>* (empty_store\<lparr>st_assets := st_assets demo_collections\<rparr>) demo_listed"
proof -
  have "st_assets demo_collections = [(new_asset_row (demo_upload\<lparr>a_namespace := ''line.group.media-sync'',
        a_owner_service := ''hhc-line-function-bot'', a_owner_type := ''media_sync_ingest''\<rparr>))
        \<lparr>a_upload_status := UploadCompleted, a_scan_status := ScanClean,
         a_detected_mime := ''image/png'', a_size := 7, a_etag := ''e1''\<rparr>]"
    by (simp add: collection_eval)
  then have "collection_step (empty_store\<lparr>st_assets := st_assets demo_collections\<rparr>) demo_collections"
    using step_create [of "empty_store\<lparr>st_assets := st_assets demo_collections\<rparr>" demo_env "''c1''" demo_create 100]
    by (simp add: demo_collections_def)
  moreover have "collection_step demo_collections demo_listed"
    unfolding demo_listed_def by (rule step_add_item)
  ultimately show ?thesis by (meson converse_rtranclp_into_rtranclp r_into_rtranclp)
qed

theorem collection_history_witness:
  "rev_inv demo_listed \<and> hist_le (empty_store\<lparr>st_assets := st_assets demo_collections\<rparr>) demo_listed"
  by (rule collection_history [OF demo_steps]) (simp add: rev_inv_def empty_store_def)

section \<open>Replay\<close>

lemma mutation_replay_exact:
  assumes "mutation env marshal unmarshal k req now body st = (Ok v, st')"
    and "\<And>s1 v a s2. body s1 = Inr (v, a, s2) \<Longrightarrow> st_mutations s2 = st_mutations s1 \<and> norm v = v"
    and "\<And>v. unmarshal (marshal v) = Inr (norm v)"
    and "\<And>r v. unmarshal r = Inr v \<Longrightarrow> norm v = v"
  shows "mutation env marshal unmarshal k req now' body' st' = (Ok v, st')"
proof -
  have "mutation env marshal unmarshal k req now' body' st' = (Ok (norm v), st')"
    by (rule mutation_replay [OF assms(1)]) (use assms(2-4) in auto)
  moreover have "norm v = v"
    using assms(1)
  proof (cases rule: mutation_cases)
    case (replay r)
    then show ?thesis using assms(4) by blast
  next
    case (ran ms a s2)
    then show ?thesis using assms(2) by blast
  qed
  ultimately show ?thesis by simp
qed

lemma mutation_logged:
  assumes "mutation env marshal unmarshal k req now body st = (Ok v, st')"
    and "\<And>s1 v a s2. body s1 = Inr (v, a, s2) \<Longrightarrow> st_mutations s2 = st_mutations s1"
    and "\<And>r v. unmarshal r = Inr v \<Longrightarrow> unmarshal (marshal v) = Inr v"
  shows "\<exists>r. logged_mutation st' k = Some (env_fingerprint env req, Some r)"
proof -
  have 1: "run_mutation claimMutation (finishAuditedMutation env) marshal unmarshal body k
              (env_fingerprint env req) now st = Inr (v, st')"
    using assms(1) by (simp add: mutation_def)
  have 2: "logged_mutation s2 = logged_mutation s1" if "body s1 = Inr (v, a, s2)" for s1 v a s2
    using logged_frame [OF assms(2) [OF that]] .
  have "\<exists>r. logged_mutation st' k = Some (env_fingerprint env req, Some r)
       \<and> (logged_mutation st k = None \<longrightarrow> r = marshal v)
       \<and> (logged_mutation st k \<noteq> None \<longrightarrow> st' = st \<and> unmarshal r = Inr v)"
    by (rule store_log.success_logged [OF 1]) (use 2 assms(3) in blast)+
  then show ?thesis by blast
qed

text \<open>
  C5.  Adding an item is idempotent: once it succeeded, the same request (same caller, key and
  content) answers with the very same collection and item and changes nothing, whatever
  identifier and time the repetition would have used; a different content under the same key
  is a conflict without effect.
\<close>

theorem add_item_idempotent:
  assumes "AddCollectionItem env newID x now st = (Ok v, st')"
  shows "AddCollectionItem env newID' x now' st' = (Ok v, st')
     \<and> (ai_caller y = ai_caller x \<and> ai_key y = ai_key x
        \<and> env_fingerprint env (FpAddItem (ai_collection y) (ai_asset y) (ai_remote y) (ai_name y) (ai_source_revision y))
          \<noteq> env_fingerprint env (FpAddItem (ai_collection x) (ai_asset x) (ai_remote x) (ai_name x) (ai_source_revision x))
        \<longrightarrow> AddCollectionItem env newID' y now' st' = (Err ErrConflict, st'))"
proof -
  let ?norm = "\<lambda>m. m\<lparr>im_collection := (im_collection m)\<lparr>c_created_by := ai_caller x\<rparr>\<rparr>"
  have unm: "item_response (ai_caller x) (of_item m) = Inr (?norm m)" for m
    by (simp add: of_item_def strip_collection_def)
  have norm: "?norm m = m" if "item_response (ai_caller x) r = Inr m" for r m
    using that by (cases r) (auto simp: json_error_def)
  show ?thesis
  proof (intro conjI impI)
    show "AddCollectionItem env newID' x now' st' = (Ok v, st')"
      unfolding AddCollectionItem_def
      by (rule mutation_replay_exact [where norm = ?norm, OF assms [unfolded AddCollectionItem_def] _ unm norm])
         (auto simp: Let_def UPDATE_collection_def lock_Ok split: option.splits if_splits)
  next
    have "\<exists>r. logged_mutation st' (ai_caller x, ''add_collection_item'', ai_key x)
        = Some (env_fingerprint env (FpAddItem (ai_collection x) (ai_asset x) (ai_remote x) (ai_name x) (ai_source_revision x)), Some r)"
      by (rule mutation_logged [OF assms [unfolded AddCollectionItem_def]])
         (auto simp: Let_def UPDATE_collection_def unm norm split: option.splits if_splits)
    moreover assume "ai_caller y = ai_caller x \<and> ai_key y = ai_key x
        \<and> env_fingerprint env (FpAddItem (ai_collection y) (ai_asset y) (ai_remote y) (ai_name y) (ai_source_revision y))
          \<noteq> env_fingerprint env (FpAddItem (ai_collection x) (ai_asset x) (ai_remote x) (ai_name x) (ai_source_revision x))"
    ultimately show "AddCollectionItem env newID' y now' st' = (Err ErrConflict, st')"
      by (auto simp: AddCollectionItem_def intro!: mutation_other_request)
  qed
qed

theorem add_item_idempotent_witness:
  "fst (AddCollectionItem demo_env ''zz'' demo_add 500 demo_listed)
     = fst (AddCollectionItem demo_env ''i1'' demo_add 110 demo_collections)
   \<and> AddCollectionItem demo_env ''zz'' (demo_add\<lparr>ai_name := ''x.png''\<rparr>) 500 demo_listed
     = (Err ErrConflict, demo_listed)"
proof -
  obtain v where 1: "AddCollectionItem demo_env ''i1'' demo_add 110 demo_collections = (Ok v, demo_listed)"
    using demo_listed_ok by (auto simp: demo_listed_def prod_eq_iff)
  have "env_fingerprint demo_env (FpAddItem (ai_collection demo_add) (ai_asset demo_add)
          (ai_remote demo_add) ''x.png'' (ai_source_revision demo_add))
      \<noteq> env_fingerprint demo_env (FpAddItem (ai_collection demo_add) (ai_asset demo_add)
          (ai_remote demo_add) (ai_name demo_add) (ai_source_revision demo_add))"
    by (simp add: demo_add_def demo_env_def)
  then show ?thesis
    using add_item_idempotent [OF 1, of "''zz''" 500 "demo_add\<lparr>ai_name := ''x.png''\<rparr>"] 1 by simp
qed

section \<open>Deletions\<close>

lemma release_assets_row:
  assumes "asset_of (release_assets ids now st) i = Some r'" "asset_of st i = Some r"
  shows "r' = r \<or> (media_sync_asset r \<and> r' = r\<lparr>a_deleted := now, a_updated := now\<rparr>
     \<and> (\<forall>q\<in>set (st_items st). ci_asset q = i \<longrightarrow> ci_deleted_rev q \<noteq> 0))"
  using assms asset_of_Some [OF assms(2)] unfolding release_assets_def
  by (auto simp: asset_of_UPDATE split: if_splits)

text \<open>What a deletion of items does to the assets.\<close>

lemma deleteCollectionItems_assets:
  assumes "deleteCollectionItems i caller itemIDs now respect st = Inr (d, st')"
    and "asset_of st a = Some r" "asset_of st' a = Some r'"
  shows "r' = r \<or> (media_sync_asset r \<and> r' = r\<lparr>a_deleted := now, a_updated := now\<rparr>
     \<and> (\<forall>q\<in>set (st_items st'). ci_asset q = a \<longrightarrow> ci_deleted_rev q \<noteq> 0))"
  using assms(1)
proof (cases rule: deleteCollectionItems_cases)
  case (none c)
  then show ?thesis using assms(2,3) by simp
next
  case (some c gone assets)
  let ?t = "st\<lparr>st_items := deleted_items i (c_revision c + 1) now gone (st_items st)\<rparr>"
  have same: "asset_of ?t a = Some r" using assms(2) by (simp add: asset_of_def)
  from some(6) show ?thesis
  proof
    assume "assets = st_assets st"
    then show ?thesis using assms(2,3) by (simp add: asset_of_def some(5))
  next
    assume "\<exists>ids. assets = st_assets (release_assets ids now ?t)"
    then obtain ids where "asset_of (release_assets ids now ?t) a = Some r'"
      using assms(3) by (auto simp: asset_of_def some(5))
    from release_assets_row [OF this same] show ?thesis by (simp add: some(5))
  qed
qed

text \<open>
  C4.  The retention sweep deletes only what has expired: an item it deletes was active in the
  swept collection, was not exempt, and had been kept for at least the collection's retention
  days; a media asset it releases is an ingested one that no remaining active item of any
  collection refers to.
\<close>

theorem sweep_deletes_only_expired:
  assumes "DeleteExpiredCollectionItems i ids now st = (Ok res, st')" "rev_inv st"
  shows "(\<forall>r\<in>set (st_items st). r \<notin> set (st_items st') \<longrightarrow>
       ci_collection r = i \<and> ci_id r \<in> set ids \<and> ci_deleted_rev r = 0 \<and> \<not> ci_exempt r
       \<and> (\<exists>c. lockManagedCollection st i ''hhc-line-function-bot'' = Ok c
             \<and> ci_created r + c_retention_days c * day \<le> now))
     \<and> (\<forall>a r r'. asset_of st a = Some r \<and> asset_of st' a = Some r' \<and> r' \<noteq> r \<longrightarrow>
       media_sync_asset r \<and> (\<forall>q\<in>set (st_items st'). ci_asset q = a \<longrightarrow> ci_deleted_rev q \<noteq> 0))"
proof -
  obtain d where d: "deleteCollectionItems i ''hhc-line-function-bot'' ids now True st = Inr (d, st')"
    using assms(1) by (auto simp: DeleteExpiredCollectionItems_def)
  have "ci_collection r = i \<and> ci_id r \<in> set ids \<and> ci_deleted_rev r = 0 \<and> \<not> ci_exempt r
       \<and> (\<exists>c. lockManagedCollection st i ''hhc-line-function-bot'' = Ok c
             \<and> ci_created r + c_retention_days c * day \<le> now)"
    if r: "r \<in> set (st_items st)" "r \<notin> set (st_items st')" for r
    using d
  proof (cases rule: deleteCollectionItems_cases)
    case (none c)
    then show ?thesis using r by simp
  next
    case (some c gone assets)
    have "ci_collection r = i \<and> ci_id r \<in> gone \<and> ci_deleted_rev r = 0"
    proof (rule ccontr)
      assume "\<not> ?thesis"
      then have "r \<in> set (st_items st')"
        using r(1) by (auto simp: some(5) deleted_items_def set_upd_where rev_image_eqI)
      then show False using r(2) by simp
    qed
    then obtain q where q: "q \<in> set (deletable_rows st i (uniqueSortedStrings ids))" "ci_id q = ci_id r"
        "\<not> ci_exempt q" "\<not> still_retained c now q"
      and r': "ci_collection r = i" "ci_deleted_rev r = 0"
      by (auto simp: some(3))
    then have "q = r" using keyed_eq [of ci_id "st_items st" q r] r(1) assms(2)
      by (auto simp: deletable_rows_set rev_inv_def)
    then show ?thesis using q r' some(1) by (auto simp: deletable_rows_set still_retained_def)
  qed
  then show ?thesis using deleteCollectionItems_assets [OF d] by blast
qed

theorem sweep_deletes_only_expired_witness:
  "(let st' = snd (DeleteExpiredCollectionItems ''c1'' [''i1''] (110 + 14 * day) demo_listed)
    in \<forall>q\<in>set (st_items st'). ci_asset q = ''a1'' \<longrightarrow> ci_deleted_rev q \<noteq> 0)"
proof -
  let ?r = "DeleteExpiredCollectionItems ''c1'' [''i1''] (110 + 14 * day) demo_listed"
  have ok: "\<exists>res. fst ?r = Ok res" and asset: "\<exists>a. asset_of demo_listed ''a1'' = Some a \<and> a_deleted a = 0"
    and gone: "\<exists>a. asset_of (snd ?r) ''a1'' = Some a \<and> a_deleted a \<noteq> 0"
    by (simp_all add: DeleteExpiredCollectionItems_def deleteCollectionItems_def uniqueSortedStrings_def
        uniqueStrings_def deletable_rows_def still_retained_def release_assets_def UPDATE_assets_def
        media_sync_asset_def asset_of_def collection_eval)
  then obtain res where 1: "?r = (Ok res, snd ?r)" by (metis prod.collapse)
  have inv: "rev_inv demo_listed"
    by (simp add: rev_inv_def item_ok_def collection_eval)
  obtain a where a: "asset_of demo_listed ''a1'' = Some a" "a_deleted a = 0" using asset by blast
  obtain b where b: "asset_of (snd ?r) ''a1'' = Some b" "a_deleted b \<noteq> 0" using gone by blast
  have "b \<noteq> a" using a(2) b(2) by auto
  then show ?thesis using sweep_deletes_only_expired [OF 1 inv] a(1) b(1) unfolding Let_def by blast
qed

text \<open>
  Deleting a collection is final: after the first deletion no item of it is active, its
  revision is one higher, every later operation that locks it answers "not found", and each
  item that was active has become a tombstone of that revision.
\<close>

theorem delete_collection_final:
  assumes "DeleteCollection env x now st = (Ok v, st')" "rev_inv st" "now \<noteq> 0"
    and "logged_mutation st (dc_caller x, ''delete_collection'', dc_key x) = None"
  shows "(\<forall>r\<in>set (st_items st'). ci_collection r = dc_collection x \<longrightarrow> ci_deleted_rev r \<noteq> 0)
     \<and> lockManagedCollection st' (dc_collection x) caller = Err ErrNotFound
     \<and> (\<exists>c. lockManagedCollection st (dc_collection x) (dc_caller x) = Ok c \<and> c_revision v = c_revision c + 1)"
proof -
  let ?i = "dc_collection x"
  from assms(1) [unfolded DeleteCollection_def] show ?thesis
  proof (cases rule: mutation_cases)
    case (replay r)
    then show ?thesis using assms(4) by simp
  next
    case (ran ms a s2)
    let ?s = "st\<lparr>st_mutations := ms\<rparr>"
    let ?ids = "sort (map ci_id (filter (\<lambda>r. ci_collection r = ?i \<and> ci_deleted_rev r = 0) (st_items st)))"
    obtain c d s1 where c: "lockManagedCollection ?s ?i (dc_caller x) = Inr c"
      and d: "deleteCollectionItems ?i (dc_caller x) ?ids now False ?s = Inr (d, s1)"
      and v: "v = (idl_collection d)\<lparr>c_revision := c_revision c + 1, c_updated := now, c_deleted := now\<rparr>"
      and s2: "s2 = UPDATE_collection (c_id (idl_collection d))
          (\<lambda>e. e\<lparr>c_revision := c_revision c + 1, c_updated := now, c_deleted := now\<rparr>) s1"
      using ran(2) by (auto simp: Let_def)
    have inv: "rev_inv ?s" using assms(2) rev_inv_cong [of st ?s] by simp
    have all: "r \<in> set (deletable_rows ?s ?i (uniqueSortedStrings ?ids))"
      if "r \<in> set (st_items st)" "ci_collection r = ?i" "ci_deleted_rev r = 0" for r
      using that inv by (fastforce simp: deletable_rows_set rev_inv_def item_ok_def)
    have ci: "c_id (idl_collection d) = ?i" and one: "1 \<le> c_revision c"
      and gone: "\<forall>r\<in>set (st_items s1). ci_collection r = ?i \<longrightarrow> ci_deleted_rev r \<noteq> 0"
      and in1: "\<exists>e\<in>set (st_collections s1). c_id e = ?i"
    proof -
      note m = lock_Ok_mem [OF c]
      show one: "1 \<le> c_revision c" using inv m(1) by (auto simp: rev_inv_def)
      from d show "c_id (idl_collection d) = ?i"
        by (cases rule: deleteCollectionItems_cases) (use c m(2) in auto)
      from d show "\<forall>r\<in>set (st_items s1). ci_collection r = ?i \<longrightarrow> ci_deleted_rev r \<noteq> 0"
      proof (cases rule: deleteCollectionItems_cases)
        case (none c')
        then have "st_items s1 = st_items st" by simp
        then show ?thesis using all none(6) by auto
      next
        case (some c' gone assets)
        then have c': "c' = c" using c by simp
        show ?thesis
        proof (intro ballI impI)
          fix r assume r: "r \<in> set (st_items s1)" "ci_collection r = ?i"
          then have "r \<in> set (deleted_items ?i (c_revision c + 1) now gone (st_items st))"
            by (simp add: some(5) c')
          then obtain q where q: "q \<in> set (st_items st)" and
            rq: "r = (if ci_collection q = ?i \<and> ci_id q \<in> gone \<and> ci_deleted_rev q = 0
                then q\<lparr>ci_deleted_rev := c_revision c + 1, ci_deleted := now\<rparr> else q)"
            unfolding deleted_items_def by (rule in_upd_whereE)
          have "ci_id q \<in> gone" if "ci_collection q = ?i" "ci_deleted_rev q = 0"
            using all [OF q that] by (auto simp: some(3))
          then show "ci_deleted_rev r \<noteq> 0" using rq r(2) one by (auto split: if_splits)
        qed
      qed
      show "\<exists>e\<in>set (st_collections s1). c_id e = ?i"
        using deleteCollectionItems_keeps [OF d] inv m(1,2) unfolding keeps_def hist_le_def by metis
    qed
    have keys: "keyed c_id (st_collections s1)"
      using deleteCollectionItems_keeps [OF d] inv by (simp add: keeps_def rev_inv_def)
    have "lockManagedCollection s2 ?i caller = Err ErrNotFound"
    proof -
      obtain e where e: "e \<in> set (st_collections s1)" "c_id e = ?i" using in1 by blast
      have "sel1 (\<lambda>c. c_id c = ?i) (st_collections s1) = Some e"
        using keyed_sel1 [OF keys e(1)] e(2) by simp
      then have "sel1 (\<lambda>c. c_id c = ?i) (st_collections s2)
          = Some (e\<lparr>c_revision := c_revision c + 1, c_updated := now, c_deleted := now\<rparr>)"
        using e(2) unfolding s2 UPDATE_collection_def ci
        by (simp add: sel1_upd_where [where k = c_id])
      then show ?thesis using assms(3) by (simp add: lockManagedCollection_def)
    qed
    moreover have "lockManagedCollection st' ?i caller = lockManagedCollection s2 ?i caller"
      by (simp add: lockManagedCollection_def ran(3))
    moreover have "lockManagedCollection st ?i (dc_caller x) = Ok c"
      using c by (simp add: lockManagedCollection_def)
    moreover have "st_items st' = st_items s1" by (simp add: ran(4) s2 UPDATE_collection_def)
    ultimately show ?thesis using gone v by simp
  qed
qed

definition demo_delete :: delete_collection_input where
  "demo_delete = \<lparr>dc_collection = ''c1'', dc_caller = ''hhc-line-function-bot'', dc_key = ''k3''\<rparr>"

theorem delete_collection_final_witness:
  "lockManagedCollection (snd (DeleteCollection demo_env demo_delete 200 demo_listed)) ''c1'' ''anyone'' = Err ErrNotFound"
proof -
  let ?r = "DeleteCollection demo_env demo_delete 200 demo_listed"
  have "\<exists>v. fst ?r = Ok v"
    by (simp add: demo_delete_def DeleteCollection_def deleteCollectionItems_def uniqueSortedStrings_def
        uniqueStrings_def deletable_rows_def release_assets_def UPDATE_assets_def
        media_sync_asset_def collection_eval)
  then obtain v where 1: "?r = (Ok v, snd ?r)" by (metis prod.collapse)
  have inv: "rev_inv demo_listed" by (simp add: rev_inv_def item_ok_def collection_eval)
  have none: "logged_mutation demo_listed (dc_caller demo_delete, ''delete_collection'', dc_key demo_delete) = None"
    by (simp add: logged_mutation_def demo_delete_def collection_eval)
  show ?thesis using delete_collection_final [OF 1 inv _ none, of "''anyone''"] by (simp add: demo_delete_def)
qed

end
