(* ===== verification/Retention.thy ===== *)
theory Retention
  imports Collection_Props
begin

text \<open>
  The retention sweep: \<open>SweepExpiredCollectionItems\<close> of \<open>internal/retention/worker.go\<close> over the
  queries \<open>ListExpiredCollectionItems\<close>, \<open>PreviewExpiredCollectionItems\<close> and
  \<open>DeleteExpiredCollectionItems\<close> of the repository.  The locale \<open>retention_repo\<close> states what the
  sweep relies on; from it the sweep ends, reports no error and leaves no backlog.  The loop of
  the code has no bound, so the model takes fuel and the theorem says how much is enough: one
  round more than there are expired items.
\<close>

section \<open>The worker\<close>

definition BatchSize :: int where "BatchSize = 100"

record preview =
  pv_collection :: string
  pv_count :: int
  pv_bytes :: int

record sweep_result =
  sw_scanned :: int
  sw_deleted :: int
  sw_exempt :: int
  sw_already :: int
  sw_failed_items :: int
  sw_failed_batches :: int
  sw_backlog :: int
  sw_preview :: "preview list"

definition zero_sweep :: sweep_result where
  "zero_sweep = \<lparr>sw_scanned = 0, sw_deleted = 0, sw_exempt = 0, sw_already = 0, sw_failed_items = 0,
     sw_failed_batches = 0, sw_backlog = 0, sw_preview = []\<rparr>"

text \<open>The candidates of a page grouped by collection, in the order of first appearance.\<close>

definition sweep_groups :: "(string \<times> string) list \<Rightarrow> (string \<times> string list) list" where
  "sweep_groups cands = map (\<lambda>c. (c, map snd (filter (\<lambda>x. fst x = c) cands)))
     (rev (remdups (rev (map fst cands))))"

type_synonym 's deleter = "string \<Rightarrow> string list \<Rightarrow> time \<Rightarrow> 's \<Rightarrow> delete_items_result result \<times> 's"

fun sweep_batch :: "'s deleter \<Rightarrow> time \<Rightarrow> (string \<times> string list) list \<Rightarrow> sweep_result \<Rightarrow> go_error list \<Rightarrow> 's
    \<Rightarrow> sweep_result \<times> go_error list \<times> 's" where
  "sweep_batch del now [] res errs s = (res, errs, s)"
| "sweep_batch del now ((c, ids) # gs) res errs s =
     (case del c ids now s of
        (Inl e, s') \<Rightarrow> sweep_batch del now gs
           (res\<lparr>sw_failed_batches := sw_failed_batches res + 1,
                sw_failed_items := sw_failed_items res + int (length ids)\<rparr>) (errs @ [e]) s'
      | (Inr d, s') \<Rightarrow> sweep_batch del now gs
           (res\<lparr>sw_deleted := sw_deleted res + di_deleted d,
                sw_exempt := sw_exempt res + di_exempt_skipped d,
                sw_already := sw_already res + di_already_removed d\<rparr>) errs s')"

definition sweep_finish :: "(time \<Rightarrow> 's \<Rightarrow> preview list result) \<Rightarrow> time \<Rightarrow> sweep_result \<Rightarrow> go_error list \<Rightarrow> 's
    \<Rightarrow> (sweep_result \<times> go_error list) \<times> 's" where
  "sweep_finish prev now res errs s =
     (case prev now s of
        Inl e \<Rightarrow> ((res\<lparr>sw_preview := []\<rparr>, errs @ [e]), s)
      | Inr ps \<Rightarrow> ((res\<lparr>sw_preview := ps, sw_backlog := sw_backlog res + sum_list (map pv_count ps)\<rparr>, errs), s))"

fun sweep_loop :: "(time \<Rightarrow> int \<Rightarrow> 's \<Rightarrow> (string \<times> string) list result) \<Rightarrow> 's deleter
    \<Rightarrow> (time \<Rightarrow> 's \<Rightarrow> preview list result) \<Rightarrow> bool \<Rightarrow> nat \<Rightarrow> time \<Rightarrow> sweep_result \<Rightarrow> 's \<Rightarrow> ((sweep_result \<times> go_error list) \<times> 's) option" where
  "sweep_loop lst del prev apply_on 0 now res s = None"
| "sweep_loop lst del prev apply_on (Suc fuel) now res s =
     (case lst now BatchSize s of
        Inl e \<Rightarrow> Some (sweep_finish prev now res [e] s)
      | Inr cands \<Rightarrow>
          (let res1 = res\<lparr>sw_scanned := sw_scanned res + int (length cands)\<rparr>
           in if cands = [] \<or> \<not> apply_on then Some (sweep_finish prev now res1 [] s)
              else case sweep_batch del now (sweep_groups cands) res1 [] s of
                (res2, errs, s2) \<Rightarrow>
                  if errs \<noteq> [] then Some (sweep_finish prev now res2 errs s2)
                  else sweep_loop lst del prev apply_on fuel now res2 s2))"

section \<open>What the worker relies on\<close>

locale retention_repo =
  fixes inv :: "'s \<Rightarrow> bool"
    and expired :: "time \<Rightarrow> 's \<Rightarrow> (string \<times> string) set"
    and lst :: "time \<Rightarrow> int \<Rightarrow> 's \<Rightarrow> (string \<times> string) list result"
    and del :: "'s deleter"
    and prev :: "time \<Rightarrow> 's \<Rightarrow> preview list result"
  assumes finite_expired: "inv s \<Longrightarrow> finite (expired now s)"
    and lists: "inv s \<Longrightarrow> n > 0 \<Longrightarrow>
      \<exists>cands. lst now n s = Ok cands \<and> set cands \<subseteq> expired now s \<and> (expired now s \<noteq> {} \<longrightarrow> cands \<noteq> [])"
    and deletes: "inv s \<Longrightarrow> ids \<noteq> [] \<Longrightarrow> \<forall>i\<in>set ids. (c, i) \<in> expired now s \<Longrightarrow>
      \<exists>d s'. del c ids now s = (Ok d, s') \<and> inv s' \<and> expired now s' = expired now s - {c} \<times> set ids"
    and previews: "inv s \<Longrightarrow> expired now s = {} \<Longrightarrow> prev now s = Ok []"
begin

lemma batch_deletes:
  assumes "inv s" "distinct (map fst gs)"
    and "\<forall>(c, ids)\<in>set gs. ids \<noteq> [] \<and> (\<forall>i\<in>set ids. (c, i) \<in> expired now s)"
  shows "\<exists>res' s'. sweep_batch del now gs res errs s = (res', errs, s') \<and> inv s'
     \<and> sw_backlog res' = sw_backlog res
     \<and> expired now s' = expired now s - (\<Union>(c, ids)\<in>set gs. {c} \<times> set ids)"
  using assms
proof (induction gs arbitrary: s res)
  case Nil
  then show ?case by simp
next
  case (Cons g gs)
  obtain c ids where g: "g = (c, ids)" by (cases g)
  obtain d s1 where s1: "del c ids now s = (Ok d, s1)" "inv s1"
      "expired now s1 = expired now s - {c} \<times> set ids"
    using deletes [OF Cons.prems(1), of ids c now] Cons.prems(3) g by auto
  have rest: "\<forall>(c', ids')\<in>set gs. ids' \<noteq> [] \<and> (\<forall>i\<in>set ids'. (c', i) \<in> expired now s1)"
    using Cons.prems(2,3) g s1(3) by (force simp: image_iff)
  have "distinct (map fst gs)" using Cons.prems(2) by simp
  from Cons.IH [OF s1(2) this rest, of "res\<lparr>sw_deleted := sw_deleted res + di_deleted d,
        sw_exempt := sw_exempt res + di_exempt_skipped d,
        sw_already := sw_already res + di_already_removed d\<rparr>"] obtain res' s' where r:
    "sweep_batch del now gs (res\<lparr>sw_deleted := sw_deleted res + di_deleted d,
        sw_exempt := sw_exempt res + di_exempt_skipped d,
        sw_already := sw_already res + di_already_removed d\<rparr>) errs s1 = (res', errs, s')"
    "inv s'" "sw_backlog res' = sw_backlog res"
    "expired now s' = expired now s1 - (\<Union>(c, ids)\<in>set gs. {c} \<times> set ids)"
    by (elim exE conjE) (rule that, assumption, simp_all)
  have "sweep_batch del now (g # gs) res errs s = (res', errs, s')" using r(1) s1(1) g by simp
  moreover have "expired now s' = expired now s - (\<Union>(c, ids)\<in>set (g # gs). {c} \<times> set ids)"
    using r(4) s1(3) g by auto
  ultimately show ?case using r(2,3) by blast
qed

lemma sweep_groups_laws:
  "distinct (map fst (sweep_groups cands))"
  "(\<Union>(c, ids)\<in>set (sweep_groups cands). {c} \<times> set ids) = set cands"
  "(c, ids) \<in> set (sweep_groups cands) \<Longrightarrow> ids \<noteq> [] \<and> (\<forall>i\<in>set ids. (c, i) \<in> set cands)"
proof -
  have "map fst (sweep_groups cands) = rev (remdups (rev (map fst cands)))"
    by (simp add: sweep_groups_def comp_def)
  then show "distinct (map fst (sweep_groups cands))" by simp
  show "(\<Union>(c, ids)\<in>set (sweep_groups cands). {c} \<times> set ids) = set cands"
    by (force simp: sweep_groups_def)
  show "(c, ids) \<in> set (sweep_groups cands) \<Longrightarrow> ids \<noteq> [] \<and> (\<forall>i\<in>set ids. (c, i) \<in> set cands)"
    by (force simp: sweep_groups_def filter_empty_conv)
qed

text \<open>With more fuel than expired items the sweep ends, without error or backlog.\<close>

lemma sweep_completes:
  assumes "inv s" "card (expired now s) < fuel" "sw_backlog res = 0"
  shows "\<exists>res' s'. sweep_loop lst del prev True fuel now res s = Some ((res', []), s')
     \<and> inv s' \<and> expired now s' = {} \<and> sw_backlog res' = 0"
  using assms
proof (induction fuel arbitrary: s res)
  case 0
  then show ?case by simp
next
  case (Suc fuel)
  obtain cands where cands: "lst now BatchSize s = Ok cands" "set cands \<subseteq> expired now s"
      "expired now s \<noteq> {} \<Longrightarrow> cands \<noteq> []"
    using lists [OF Suc.prems(1), of BatchSize now] by (auto simp: BatchSize_def)
  show ?case
  proof (cases "cands = []")
    case True
    then have "expired now s = {}" using cands(3) by blast
    then show ?thesis using True cands(1) Suc.prems previews by (simp add: sweep_finish_def Let_def)
  next
    case False
    let ?cands = cands
    let ?res = "res\<lparr>sw_scanned := sw_scanned res + int (length ?cands)\<rparr>"
    note sub = cands(2)
    have ok: "\<forall>(c, ids)\<in>set (sweep_groups ?cands). ids \<noteq> [] \<and> (\<forall>i\<in>set ids. (c, i) \<in> expired now s)"
      using sweep_groups_laws(3) [of _ _ ?cands] sub by blast
    from batch_deletes [OF Suc.prems(1) sweep_groups_laws(1) ok, of ?res "[]"] obtain res' s' where
      b: "sweep_batch del now (sweep_groups ?cands) ?res [] s = (res', [], s')" "inv s'"
        "sw_backlog res' = sw_backlog ?res" "expired now s' = expired now s - set ?cands"
      unfolding sweep_groups_laws(2) by blast
    have "card (expired now s') < card (expired now s)"
      using False sub finite_expired [OF Suc.prems(1)] b(4)
      by (intro psubset_card_mono) (auto simp: neq_Nil_conv)
    then have "card (expired now s') < fuel" using Suc.prems(2) by simp
    from Suc.IH [OF b(2) this] b(1,3) cands(1) False Suc.prems(3) show ?thesis by (simp add: Let_def)
  qed
qed

end

section \<open>The repository's queries\<close>

definition sweepable :: "time \<Rightarrow> store \<Rightarrow> collection_item \<Rightarrow> bool" where
  "sweepable now st r \<longleftrightarrow> ci_deleted_rev r = 0 \<and> \<not> ci_exempt r \<and>
     (\<exists>c\<in>set (st_collections st). c_id c = ci_collection r \<and> c_deleted c = 0
        \<and> c_namespace c = ''line.group.media-sync'' \<and> c_created_by c = ''hhc-line-function-bot''
        \<and> ci_created r + c_retention_days c * day \<le> now)"

definition ListExpiredCollectionItems :: "time \<Rightarrow> int \<Rightarrow> store \<Rightarrow> (string \<times> string) list result" where
  "ListExpiredCollectionItems now limit st =
     (let n = (if limit < 1 \<or> limit > BatchSize then BatchSize else limit)
      in Ok (map (\<lambda>r. (ci_collection r, ci_id r))
           (take (nat n) (sort_key (\<lambda>r. (ci_created r, ci_id r)) (filter (sweepable now st) (st_items st))))))"

definition item_size :: "store \<Rightarrow> collection_item \<Rightarrow> int" where
  "item_size st r = (case asset_of st (ci_asset r) of None \<Rightarrow> 0 | Some a \<Rightarrow> a_size a)"

definition PreviewExpiredCollectionItems :: "time \<Rightarrow> store \<Rightarrow> preview list result" where
  "PreviewExpiredCollectionItems now st =
     (let rows = filter (sweepable now st) (st_items st);
          ids = sort (remdups (map ci_collection rows))
      in Ok (map (\<lambda>c. let group = filter (\<lambda>r. ci_collection r = c) rows
                  in \<lparr>pv_collection = c, pv_count = int (length group),
                      pv_bytes = sum_list (map (item_size st) group)\<rparr>) ids))"

definition SweepExpiredCollectionItems ::
  "bool \<Rightarrow> nat \<Rightarrow> time \<Rightarrow> store \<Rightarrow> ((sweep_result \<times> go_error list) \<times> store) option" where
  "SweepExpiredCollectionItems apply_on fuel now st =
     sweep_loop ListExpiredCollectionItems DeleteExpiredCollectionItems PreviewExpiredCollectionItems
       apply_on fuel now zero_sweep st"

definition expired_items :: "time \<Rightarrow> store \<Rightarrow> (string \<times> string) set" where
  "expired_items now st = (\<lambda>r. (ci_collection r, ci_id r)) ` {r \<in> set (st_items st). sweepable now st r}"

lemma image_updated_filter:
  assumes "\<And>r. k (f r) = k r"
  shows "k ` {r \<in> f ` S. P r} = k ` {r \<in> S. P (f r)}"
proof -
  have "{r \<in> f ` S. P r} = f ` {r \<in> S. P (f r)}" by blast
  then show ?thesis by (simp add: image_image assms)
qed

lemma DeleteExpired_expired:
  assumes inv: "rev_inv st" and ids: "ids \<noteq> []" "\<forall>i\<in>set ids. (c, i) \<in> expired_items now st"
  shows "\<exists>d st'. DeleteExpiredCollectionItems c ids now st = (Ok d, st') \<and> rev_inv st'
     \<and> expired_items now st' = expired_items now st - {c} \<times> set ids"
proof -
  have keys: "keyed c_id (st_collections st)" "keyed ci_id (st_items st)"
    using inv by (simp_all add: rev_inv_def)
  obtain i where i: "i \<in> set ids" using ids(1) by (cases ids) auto
  then obtain r0 where r0: "r0 \<in> set (st_items st)" "ci_collection r0 = c" "sweepable now st r0"
    using ids(2) by (auto simp: expired_items_def)
  then obtain col where col: "col \<in> set (st_collections st)" "c_id col = c" "c_deleted col = 0"
      "c_namespace col = ''line.group.media-sync''" "c_created_by col = ''hhc-line-function-bot''"
    by (auto simp: sweepable_def)
  have lock: "lockManagedCollection st c ''hhc-line-function-bot'' = Ok col"
    using keyed_sel1 [OF keys(1) col(1)] col by (simp add: lock_Ok)
  have uniq: "d = col" if "d \<in> set (st_collections st)" "c_id d = c" for d
    using keyed_eq [OF keys(1) that(1) col(1)] that(2) col(2) by simp
  have cand: "\<exists>r\<in>set (st_items st). ci_id r = i \<and> ci_collection r = c \<and> ci_deleted_rev r = 0
       \<and> \<not> ci_exempt r \<and> \<not> still_retained col now r" if "i \<in> set ids" for i
  proof -
    obtain r where "r \<in> set (st_items st)" "ci_collection r = c" "ci_id r = i" "sweepable now st r"
      using ids(2) \<open>i \<in> set ids\<close> by (auto simp: expired_items_def)
    then show ?thesis using uniq by (fastforce simp: sweepable_def still_retained_def)
  qed
  have nonempty: "ci_id r \<noteq> []" if "r \<in> set (st_items st)" for r
    using inv that by (auto simp: rev_inv_def item_ok_def)
  obtain d st' where d: "deleteCollectionItems c ''hhc-line-function-bot'' ids now True st = Inr (d, st')"
    using lock by (cases "deleteCollectionItems c ''hhc-line-function-bot'' ids now True st")
      (auto simp: deleteCollectionItems_def Let_def split: if_splits)
  have inv': "rev_inv st'" by (rule deleteCollectionItems_inv [OF d inv])
  have "expired_items now st' = expired_items now st - {c} \<times> set ids"
    using d
  proof (cases rule: deleteCollectionItems_cases)
    case (none col')
    obtain r where "r \<in> set (st_items st)" "ci_id r = i" "ci_collection r = c" "ci_deleted_rev r = 0"
        "\<not> ci_exempt r" "\<not> still_retained col now r"
      using cand [OF i] by blast
    then have "r \<in> set (deletable_rows st c (uniqueSortedStrings ids))"
      using i nonempty by (auto simp: deletable_rows_set)
    then have False using none(1,6) lock \<open>\<not> ci_exempt r\<close> \<open>\<not> still_retained col now r\<close> by auto
    then show ?thesis ..
  next
    case (some col' gone assets)
    then have col': "col' = col" using lock by simp
    have gone: "r \<in> set (st_items st) \<Longrightarrow> ci_collection r = c \<Longrightarrow> ci_deleted_rev r = 0 \<Longrightarrow>
        ci_id r \<in> gone \<longleftrightarrow> ci_id r \<in> set ids" for r
      using cand nonempty keyed_eq [OF keys(2)]
      by (auto simp: some(3) col' deletable_rows_set image_iff) metis+
    have one: "c_revision col \<noteq> -1" using inv col(1) by (force simp: rev_inv_def)
    let ?f = "\<lambda>r. if ci_collection r = c \<and> ci_id r \<in> gone \<and> ci_deleted_rev r = 0
        then r\<lparr>ci_deleted_rev := c_revision col + 1, ci_deleted := now\<rparr> else r"
    have items': "set (st_items st') = ?f ` set (st_items st)"
      by (simp add: some(5) col' deleted_items_def set_upd_where)
    have colls': "(\<exists>d\<in>set (st_collections st'). c_id d = x \<and> c_deleted d = 0
        \<and> c_namespace d = ''line.group.media-sync'' \<and> c_created_by d = ''hhc-line-function-bot''
        \<and> t + c_retention_days d * day \<le> now)
      \<longleftrightarrow> (\<exists>d\<in>set (st_collections st). c_id d = x \<and> c_deleted d = 0
        \<and> c_namespace d = ''line.group.media-sync'' \<and> c_created_by d = ''hhc-line-function-bot''
        \<and> t + c_retention_days d * day \<le> now)" for x t
    proof -
      let ?g = "\<lambda>d. if c_id d = c then d\<lparr>c_revision := c_revision col + 1, c_updated := now\<rparr> else d"
      have colls: "set (st_collections st') = ?g ` set (st_collections st)"
        by (simp add: some(5) col' set_upd_where)
      have same: "c_id (?g d) = c_id d" "c_deleted (?g d) = c_deleted d" "c_namespace (?g d) = c_namespace d"
          "c_created_by (?g d) = c_created_by d" "c_retention_days (?g d) = c_retention_days d" for d
        by auto
      show ?thesis unfolding colls by (simp only: bex_simps same)
    qed
    have sweep': "sweepable now st' r \<longleftrightarrow> sweepable now st r" for r
      unfolding sweepable_def colls' ..
    have fr: "sweepable now st (?f r) \<longleftrightarrow> sweepable now st r \<and> \<not> (ci_collection r = c \<and> ci_id r \<in> set ids)"
      if "r \<in> set (st_items st)" for r
      using gone [OF that] one by (auto simp: sweepable_def)
    have key: "ci_collection (?f r) = ci_collection r" "ci_id (?f r) = ci_id r" for r by auto
    have "expired_items now st' = (\<lambda>r. (ci_collection r, ci_id r)) ` {r \<in> ?f ` set (st_items st). sweepable now st r}"
      unfolding expired_items_def items' sweep' ..
    also have "\<dots> = (\<lambda>r. (ci_collection r, ci_id r)) ` {r \<in> set (st_items st). sweepable now st (?f r)}"
      by (rule image_updated_filter) (simp only: key)
    also have "{r \<in> set (st_items st). sweepable now st (?f r)}
        = {r \<in> set (st_items st). sweepable now st r \<and> \<not> (ci_collection r = c \<and> ci_id r \<in> set ids)}"
      using fr by blast
    finally show ?thesis by (auto simp: expired_items_def)
  qed
  then show ?thesis using d inv' by (simp add: DeleteExpiredCollectionItems_def)
qed

interpretation retention: retention_repo rev_inv expired_items ListExpiredCollectionItems
  DeleteExpiredCollectionItems PreviewExpiredCollectionItems
proof (unfold_locales, goal_cases)
  case (1 s now)
  then show ?case by (simp add: expired_items_def)
next
  case (2 s n now)
  let ?rows = "sort_key (\<lambda>r. (ci_created r, ci_id r)) (filter (sweepable now s) (st_items s))"
  have rows: "set ?rows = {r \<in> set (st_items s). sweepable now s r}" by simp
  have "?rows \<noteq> []" if "expired_items now s \<noteq> {}"
    using that rows by (auto simp: expired_items_def simp del: set_sort)
  then show ?case using 2 rows
    by (auto simp: ListExpiredCollectionItems_def expired_items_def Let_def BatchSize_def
        simp del: set_sort dest!: in_set_takeD)
next
  case (3 s ids c now)
  then show ?case using DeleteExpired_expired by blast
next
  case (4 s now)
  then have "filter (sweepable now s) (st_items s) = []"
    by (auto simp: expired_items_def filter_empty_conv)
  then show ?case by (simp add: PreviewExpiredCollectionItems_def)
qed

text \<open>
  C6.  With the sweep switched on and more rounds than there are expired items, the sweep of a
  well-formed store ends without an error: no expired item is left, the reported backlog is zero
  and the preview is empty.
\<close>
theorem sweep_completes_store:
  assumes "rev_inv st" "card (expired_items now st) < fuel"
  shows "\<exists>res st'. SweepExpiredCollectionItems True fuel now st = Some ((res, []), st')
     \<and> rev_inv st' \<and> expired_items now st' = {} \<and> sw_backlog res = 0"
  using retention.sweep_completes [OF assms, of zero_sweep]
  by (simp add: SweepExpiredCollectionItems_def zero_sweep_def)

lemma card_expired_items: "card (expired_items now st) \<le> length (st_items st)"
proof -
  have "card (expired_items now st) \<le> card {r \<in> set (st_items st). sweepable now st r}"
    unfolding expired_items_def by (rule card_image_le) simp
  also have "\<dots> \<le> card (set (st_items st))" by (rule card_mono) auto
  also have "\<dots> \<le> length (st_items st)" by (rule card_length)
  finally show ?thesis .
qed

theorem sweep_completes_store_witness:
  "(''c1'', ''i1'') \<in> expired_items (110 + 14 * day) demo_listed
   \<and> (\<exists>res st'. SweepExpiredCollectionItems True 2 (110 + 14 * day) demo_listed = Some ((res, []), st')
      \<and> rev_inv st' \<and> expired_items (110 + 14 * day) st' = {} \<and> sw_backlog res = 0)"
proof
  let ?r = "hd (st_items demo_listed)"
  have r: "?r \<in> set (st_items demo_listed)" "ci_collection ?r = ''c1''" "ci_id ?r = ''i1''"
      "ci_deleted_rev ?r = 0" "\<not> ci_exempt ?r" "ci_created ?r = 110"
    by (simp_all add: demo_listed_tables)
  have "sweepable (110 + 14 * day) demo_listed ?r"
    by (simp add: sweepable_def r demo_listed_tables(2))
  then show "(''c1'', ''i1'') \<in> expired_items (110 + 14 * day) demo_listed"
    unfolding expired_items_def by (intro image_eqI [of _ _ ?r]) (simp_all add: r)
  have "length (st_items demo_listed) = 1" by (simp add: demo_listed_tables)
  then have card: "card (expired_items (110 + 14 * day) demo_listed) < 2"
    using card_expired_items [of "110 + 14 * day" demo_listed] by simp
  have inv: "rev_inv demo_listed"
    by (simp add: rev_inv_def item_ok_def keyed_def demo_listed_tables)
  show "\<exists>res st'. SweepExpiredCollectionItems True 2 (110 + 14 * day) demo_listed = Some ((res, []), st')
      \<and> rev_inv st' \<and> expired_items (110 + 14 * day) st' = {} \<and> sw_backlog res = 0"
    using sweep_completes_store [OF inv card] .
qed

end
