(* ===== verification/Paths.thy ===== *)
theory Paths
  imports Prelude
begin

text \<open>
  The three functions of Go's \<open>path\<close> package that the sources use on object keys: \<open>Clean\<close>,
  \<open>Dir\<close> and \<open>Join\<close>.  A key is split at its slashes; empty and \<open>"."\<close> elements vanish and \<open>".."\<close>
  removes the element before it.
\<close>

fun split_on :: "char \<Rightarrow> string \<Rightarrow> string list" where
  "split_on c [] = [[]]"
| "split_on c (x # xs) = (if x = c then [] # split_on c xs
     else case split_on c xs of [] \<Rightarrow> [[x]] | w # ws \<Rightarrow> (x # w) # ws)"

fun join_with :: "string \<Rightarrow> string list \<Rightarrow> string" where
  "join_with sep [] = []"
| "join_with sep [x] = x"
| "join_with sep (x # y # ys) = x @ sep @ join_with sep (y # ys)"

text \<open>One element of the path on the reversed stack of the elements kept so far.\<close>

definition clean_step :: "bool \<Rightarrow> string \<Rightarrow> string list \<Rightarrow> string list" where
  "clean_step rooted e stack =
     (if e = [] \<or> e = ''.'' then stack
      else if e = ''..'' then
        (case stack of [] \<Rightarrow> if rooted then [] else [''..'']
         | s # ss \<Rightarrow> if s = ''..'' then ''..'' # stack else ss)
      else e # stack)"

definition path_Clean :: "string \<Rightarrow> string" where
  "path_Clean p =
     (if p = [] then ''.''
      else let rooted = (hd p = CHR ''/'');
               out = join_with ''/'' (rev (fold (clean_step rooted) (split_on (CHR ''/'') p) []))
           in if rooted then CHR ''/'' # out else if out = [] then ''.'' else out)"

definition path_Dir :: "string \<Rightarrow> string" where
  "path_Dir p = path_Clean (rev (dropWhile (\<lambda>c. c \<noteq> CHR ''/'') (rev p)))"

definition path_Join :: "string list \<Rightarrow> string" where
  "path_Join es = (let fs = filter (\<lambda>e. e \<noteq> []) es in if fs = [] then [] else path_Clean (join_with ''/'' fs))"

lemma path_Join_example: "path_Join [path_Dir ''prod/account.avatar/2026/07/a1/original'', ''derivatives'', ''small.jpg'']
   = ''prod/account.avatar/2026/07/a1/derivatives/small.jpg''"
  by (simp add: path_Join_def path_Dir_def path_Clean_def clean_step_def)

lemma path_Clean_nonempty: "path_Clean p \<noteq> []"
  by (auto simp: path_Clean_def Let_def)

lemma path_Join_nonempty: "e \<in> set es \<Longrightarrow> e \<noteq> [] \<Longrightarrow> path_Join es \<noteq> []"
  by (auto simp: path_Join_def Let_def path_Clean_nonempty filter_empty_conv)

end
