(* ===== verification/Asset_Lifecycle.thy ===== *)
theory Asset_Lifecycle
  imports Retention Paths
begin

text \<open>
  The end of an asset: the deletion by its owner (theory \<open>Asset_Deletion\<close>), the erasure of an
  account (\<open>CleanupAccountAssets\<close>), the purge of objects (\<open>ClaimPurge\<close>, \<open>CompletePurge\<close>,
  \<open>RetryPurge\<close>, \<open>DeleteExpiredPurge\<close> of \<open>internal/postgres/store.go\<close>) with its worker
  \<open>internal/lifecycle/worker.go\<close>, and the counters of \<open>GetOperations\<close>.
\<close>

section \<open>Deleting an asset\<close>

lemma locked_revisions_iff:
  assumes "keyed c_id (st_collections st)"
  shows "map_of (locked_revisions ids st) c = Some n \<longleftrightarrow> c \<in> set ids \<and> (\<exists>d\<in>set (st_collections st). c_id d = c \<and> c_revision d = n)"
proof
  assume "map_of (locked_revisions ids st) c = Some n"
  then have "(c, n) \<in> set (locked_revisions ids st)" by (rule map_of_SomeD)
  then show "c \<in> set ids \<and> (\<exists>d\<in>set (st_collections st). c_id d = c \<and> c_revision d = n)"
    by (auto simp: locked_revisions_def)
next
  assume "c \<in> set ids \<and> (\<exists>d\<in>set (st_collections st). c_id d = c \<and> c_revision d = n)"
  then show "map_of (locked_revisions ids st) c = Some n" using locked_revisions_at [OF assms] by blast
qed

text \<open>What the tombstones of a deletion make of a row: it stays, or it dies at the next revision of its collection.\<close>

lemma tombstoned_row:
  assumes inv: "rev_inv st" and read: "read_before ids st"
    and r: "r \<in> set (st_items (tombstone_all i (locked_revisions ids st) ids now st))"
  obtains "r \<in> set (st_items st)" "\<not> (ci_asset r = i \<and> ci_deleted_rev r = 0 \<and> ci_collection r \<in> set ids)"
  | q c where "q \<in> set (st_items st)" "c \<in> set (st_collections st)" "ci_asset q = i" "ci_deleted_rev q = 0" "c_id c = ci_collection q"
      "1 \<le> c_revision c" "r = q\<lparr>ci_deleted_rev := c_revision c + 1, ci_deleted := now\<rparr>"
proof -
  have keys: "keyed c_id (st_collections st)" using inv by (simp add: rev_inv_def)
  note revs = locked_revisions_iff [OF keys, of ids]
  have known: "map_of (locked_revisions ids st) c \<noteq> None" if c: "c \<in> set ids" for c
  proof -
    obtain d where "d \<in> set (st_collections st)" "c_id d = c" using read c by (auto simp: read_before_def)
    then have "map_of (locked_revisions ids st) c = Some (c_revision d)" using c unfolding revs by blast
    then show ?thesis by simp
  qed
  have one: "1 \<le> c_revision d" if "d \<in> set (st_collections st)" for d using inv that unfolding rev_inv_def by blast
  then have pos: "0 \<le> n" if "map_of (locked_revisions ids st) c = Some n" for c n using that unfolding revs by fastforce
  have "(r \<in> set (st_items st) \<and> \<not> (ci_asset r = i \<and> ci_deleted_rev r = 0 \<and> ci_collection r \<in> set ids))
      \<or> (\<exists>q\<in>set (st_items st). \<exists>n. map_of (locked_revisions ids st) (ci_collection q) = Some n \<and> ci_asset q = i \<and> ci_deleted_rev q = 0
          \<and> r = q\<lparr>ci_deleted_rev := n + 1, ci_deleted := now\<rparr>)"
    by (rule tombstone_all_items [OF r known pos])
  then show thesis using that one unfolding revs by blast
qed

text \<open>
  C7.  A deletion that goes through marks the asset as deleted and leaves no active item of it in
  any collection, whatever other transactions did between its first read and its locks: each item
  it removed is a tombstone at the next revision of its collection, every other item is untouched,
  and the invariant and the history of the collections are kept.
\<close>
theorem soft_delete_effect:
  assumes "softDeleteAsset ids seen i owner now st = (Ok False, st')" "rev_inv st" "read_before ids st"
    and "asset_of st i = Some a" "a_deleted a = 0" "wf_assets st" "now \<noteq> 0"
  shows "asset_of st' i = Some (a\<lparr>a_deleted := now, a_updated := now\<rparr>)
     \<and> (\<forall>r\<in>set (st_items st'). ci_asset r = i \<longrightarrow> ci_deleted_rev r \<noteq> 0)
     \<and> (\<forall>r\<in>set (st_items st'). r \<in> set (st_items st)
          \<or> (\<exists>q\<in>set (st_items st). \<exists>c\<in>set (st_collections st). ci_asset q = i \<and> ci_deleted_rev q = 0
                \<and> c_id c = ci_collection q \<and> r = q\<lparr>ci_deleted_rev := c_revision c + 1, ci_deleted := now\<rparr>))
     \<and> rev_inv st' \<and> hist_le st st'"
proof -
  have kept: "rev_inv st' \<and> hist_le st st'"
    using softDeleteAsset_keeps [OF assms(3), of seen i owner now] assms(1,2) by (simp add: keeps_def)
  have only: "b = a" if "sel1 (\<lambda>r. a_id r = i \<and> a_owner_service r = owner \<and> a_purged r = 0) (st_assets st) = Some b" for b
    using sel1_Some [OF that] asset_of_mem [OF assms(6), of b] assms(4) by auto
  from assms(1) show ?thesis
  proof (cases rule: softDeleteAsset_cases)
    case (already b)
    then show ?thesis using only assms(5) by auto
  next
    case (deleted b)
    have "asset_of (tombstone_all i (locked_revisions ids st) ids now st) i = Some a"
      using assms(4) by (simp add: asset_of_def)
    moreover have "a_id a = i" using assms(4) by auto
    ultimately have asset: "asset_of st' i = Some (a\<lparr>a_deleted := now, a_updated := now\<rparr>)" by (simp add: deleted(4) asset_of_UPDATE)
    have "(ci_asset r = i \<longrightarrow> ci_deleted_rev r \<noteq> 0) \<and> (r \<in> set (st_items st)
          \<or> (\<exists>q\<in>set (st_items st). \<exists>c\<in>set (st_collections st). ci_asset q = i \<and> ci_deleted_rev q = 0
                \<and> c_id c = ci_collection q \<and> r = q\<lparr>ci_deleted_rev := c_revision c + 1, ci_deleted := now\<rparr>))"
      if r: "r \<in> set (st_items st')" for r
    proof -
      have "r \<in> set (st_items (tombstone_all i (locked_revisions ids st) ids now st))" using r by (simp add: deleted(4) UPDATE_assets_def)
      then show ?thesis
      proof (cases rule: tombstoned_row [OF assms(2,3), consumes 1])
        case 1
        then show ?thesis using deleted(3) [of "ci_collection r"] by auto
      next
        case (2 q c)
        then have "ci_deleted_rev r \<noteq> 0" by simp
        then show ?thesis using 2 by blast
      qed
    qed
    then show ?thesis using asset kept by blast
  qed
qed

theorem soft_delete_effect_witness:
  "(let st' = snd (softDeleteAsset [''c1''] [''c1''] ''a1'' ''hhc-line-function-bot'' 500 demo_listed)
    in (\<forall>r\<in>set (st_items st'). ci_asset r = ''a1'' \<longrightarrow> ci_deleted_rev r \<noteq> 0) \<and> rev_inv st')"
proof -
  let ?r = "softDeleteAsset [''c1''] [''c1''] ''a1'' ''hhc-line-function-bot'' 500 demo_listed"
  obtain a where a: "asset_of demo_listed ''a1'' = Some a" "a_deleted a = 0" "wf_assets demo_listed"
    by (simp add: asset_of_def wf_assets_def collection_eval)
  have inv: "rev_inv demo_listed"
    by (simp add: rev_inv_def item_ok_def keyed_def demo_listed_tables)
  have read: "read_before [''c1''] demo_listed" by (simp add: read_before_def demo_listed_tables)
  have "sel1 (\<lambda>r. a_id r = ''a1'' \<and> a_owner_service r = ''hhc-line-function-bot'' \<and> a_purged r = 0) (st_assets demo_listed) \<noteq> None"
    by (simp add: collection_eval)
  then have "?r = (Ok False, snd ?r)"
    by (auto simp: prod_eq_iff softDeleteAsset_def Let_def locked_revisions_def activeAssetCollectionIDs_def
        demo_listed_tables split: option.splits)
  from soft_delete_effect [OF this inv read a] show ?thesis by (simp add: Let_def)
qed

text \<open>
  The loop ends: an attempt whose reads were not overtaken by another transaction settles the
  deletion, whatever the attempts before it met.
\<close>
theorem soft_delete_settles:
  assumes "rev_inv st" "ids = activeAssetCollectionIDs st i"
  shows "SoftDeleteAsset (attempts @ [(ids, ids, st)]) i owner now \<noteq> None"
proof (induction attempts)
  case Nil
  have "c \<in> fst ` set (locked_revisions ids st)" if c: "c \<in> set ids" for c
  proof -
    have "\<exists>d\<in>set (st_collections st). c_id d = c"
      using c assms unfolding assms(2) rev_inv_def by (auto 0 3)
    then show ?thesis using c unfolding locked_revisions_fst by auto
  qed
  then have "\<not> list_ex (\<lambda>c. c \<notin> fst ` set (locked_revisions ids st)) ids" by (auto simp: list_ex_iff)
  then have "fst (softDeleteAsset ids ids i owner now st) \<noteq> Ok True"
    using assms(2) by (auto simp: softDeleteAsset_def Let_def split: option.splits)
  then show ?case by (cases "softDeleteAsset ids ids i owner now st") (auto split: sum.splits)
next
  case (Cons x attempts)
  obtain ids0 seen0 st0 where "x = (ids0, seen0, st0)" by (cases x)
  then show ?case using Cons by (auto split: prod.splits sum.splits)
qed

theorem soft_delete_settles_witness:
  "activeAssetCollectionIDs demo_listed ''a1'' = [''c1'']
   \<and> SoftDeleteAsset ([([], [''c1''], demo_listed)] @ [([''c1''], [''c1''], demo_listed)]) ''a1'' ''x'' 500 \<noteq> None"
proof -
  have ids: "[''c1''] = activeAssetCollectionIDs demo_listed ''a1''"
    by (simp add: activeAssetCollectionIDs_def demo_listed_tables)
  have inv: "rev_inv demo_listed"
    by (simp add: rev_inv_def item_ok_def keyed_def demo_listed_tables)
  show ?thesis
    using soft_delete_settles [OF inv ids, of "[([], [''c1''], demo_listed)]" "''x''" 500] ids by simp
qed

section \<open>Erasing an account\<close>

record cleanup_result =
  acr_completed :: bool
  acr_affected :: int
  acr_remaining :: int

definition avatar_of :: "string \<Rightarrow> asset_row \<Rightarrow> bool" where
  "avatar_of user r \<longleftrightarrow> a_owner_service r = ''account-api'' \<and> a_owner_id r = user
     \<and> a_namespace r = ''account.avatar''"

definition erase_row :: "time \<Rightarrow> asset_row \<Rightarrow> asset_row" where
  "erase_row now r = r\<lparr>a_owner_id := ''erased:'' @ a_id r, a_file_name := [], a_checksum := [], a_etag := [],
     a_scan_details := [], a_processing_error := [], a_updated := now\<rparr>"

text \<open>The three updates of the transaction, in their order.\<close>

definition erase_account :: "string \<Rightarrow> time \<Rightarrow> store \<Rightarrow> store" where
  "erase_account user now st =
     (let avatars = map a_id (filter (avatar_of user) (st_assets st));
          st1 = st\<lparr>st_grants := upd_where (\<lambda>g. g_asset g \<in> set avatars)
                    (\<lambda>g. g\<lparr>g_revoked := (if g_revoked g = 0 then now else g_revoked g)\<rparr>) (st_grants st)\<rparr>;
          st2 = UPDATE_assets (\<lambda>r. avatar_of user r \<and> a_purged r = 0)
                  (\<lambda>r. r\<lparr>a_deleted := (if a_deleted r = 0 then now else a_deleted r), a_updated := now\<rparr>) st1
      in UPDATE_assets (\<lambda>r. avatar_of user r \<and> a_purged r \<noteq> 0) (erase_row now) st2)"

text \<open>What follows once the row of the operation is there: the result and the state to commit.\<close>

definition finish_cleanup :: "string \<Rightarrow> string \<Rightarrow> time \<Rightarrow> int \<Rightarrow> store \<Rightarrow> cleanup_result \<times> store" where
  "finish_cleanup user key now affected_count st =
     (let s1 = erase_account user now st;
          remaining = int (affected (avatar_of user) (st_assets s1))
      in (\<lparr>acr_completed = (remaining = 0), acr_affected = affected_count, acr_remaining = remaining\<rparr>,
          s1\<lparr>st_cleanups := upd_where (\<lambda>c. cl_key c = key)
               (\<lambda>c. c\<lparr>cl_completed := (remaining = 0), cl_updated := now\<rparr>) (st_cleanups s1)\<rparr>))"

definition CleanupAccountAssets ::
  "env \<Rightarrow> string \<Rightarrow> string \<Rightarrow> time \<Rightarrow> store \<Rightarrow> cleanup_result result \<times> store" where
  "CleanupAccountAssets env user key now st =
     (let ref = accountCleanupSubjectRef env user;
          count = int (affected (avatar_of user) (st_assets st))
      in tx st (case sel1 (\<lambda>c. cl_key c = key) (st_cleanups st) of
           None \<Rightarrow> Ok (finish_cleanup user key now count (st\<lparr>st_cleanups := st_cleanups st @
              [\<lparr>cl_key = key, cl_subject = ref, cl_completed = False, cl_affected = count,
                cl_created = now, cl_updated = now\<rparr>]\<rparr>))
         | Some c \<Rightarrow> if cl_subject c \<noteq> ref then Err ErrConflict
                      else Ok (finish_cleanup user key now (cl_affected c) st)))"

lemma erase_account_assets:
  "set (st_assets (erase_account user now st)) =
     (\<lambda>r. if avatar_of user r then
            if a_purged r = 0 then r\<lparr>a_deleted := (if a_deleted r = 0 then now else a_deleted r), a_updated := now\<rparr>
            else erase_row now r
          else r) ` set (st_assets st)"
proof -
  have "st_assets (erase_account user now st) = upd_where (\<lambda>r. avatar_of user r \<and> a_purged r \<noteq> 0) (erase_row now)
      (upd_where (\<lambda>r. avatar_of user r \<and> a_purged r = 0)
         (\<lambda>r. r\<lparr>a_deleted := (if a_deleted r = 0 then now else a_deleted r), a_updated := now\<rparr>) (st_assets st))"
    by (simp add: erase_account_def Let_def UPDATE_assets_def)
  then show ?thesis
    by (simp only: set_upd_where image_image) (rule image_cong, auto simp: avatar_of_def)
qed

lemma erase_account_frame:
  "st_cleanups (erase_account user now st) = st_cleanups st" "st_items (erase_account user now st) = st_items st"
  "st_collections (erase_account user now st) = st_collections st"
  by (simp_all add: erase_account_def UPDATE_assets_def Let_def)

lemma erase_account_grants:
  "st_grants (erase_account user now st) =
     upd_where (\<lambda>g. g_asset g \<in> a_id ` {r \<in> set (st_assets st). avatar_of user r})
       (\<lambda>g. g\<lparr>g_revoked := (if g_revoked g = 0 then now else g_revoked g)\<rparr>) (st_grants st)"
  by (simp add: erase_account_def UPDATE_assets_def Let_def)

lemma CleanupAccountAssets_cases:
  assumes "CleanupAccountAssets env user key now st = (Ok r, st')"
  obtains s n where "st_assets s = st_assets st" "st_grants s = st_grants st"
    "\<exists>c\<in>set (st_cleanups s). cl_key c = key \<and> cl_subject c = accountCleanupSubjectRef env user"
    "finish_cleanup user key now n s = (r, st')"
proof (cases "sel1 (\<lambda>c. cl_key c = key) (st_cleanups st)")
  case None
  let ?n = "int (affected (avatar_of user) (st_assets st))"
  let ?s = "st\<lparr>st_cleanups := st_cleanups st @
              [\<lparr>cl_key = key, cl_subject = accountCleanupSubjectRef env user, cl_completed = False,
                cl_affected = ?n, cl_created = now, cl_updated = now\<rparr>]\<rparr>"
  have "finish_cleanup user key now ?n ?s = (r, st')"
    using assms None by (simp add: CleanupAccountAssets_def Let_def)
  then show thesis by (rule that [rotated 3]) simp_all
next
  case (Some c)
  have "c \<in> set (st_cleanups st)" "cl_key c = key" using sel1_Some [OF Some] by auto
  moreover have "cl_subject c = accountCleanupSubjectRef env user"
      "finish_cleanup user key now (cl_affected c) st = (r, st')"
    using assms Some by (simp_all add: CleanupAccountAssets_def Let_def split: if_splits)
  ultimately show thesis using that [of st] by blast
qed

lemma finish_cleanup_parts:
  assumes "finish_cleanup user key now n s = (r, st')"
  shows "st_assets st' = st_assets (erase_account user now s)"
    "st_grants st' = st_grants (erase_account user now s)"
    "acr_remaining r = int (affected (avatar_of user) (st_assets st'))"
    "acr_completed r \<longleftrightarrow> acr_remaining r = 0"
    "st_cleanups st' = upd_where (\<lambda>c. cl_key c = key)
            (\<lambda>c. c\<lparr>cl_completed := acr_completed r, cl_updated := now\<rparr>) (st_cleanups s)"
proof -
  have "r = fst (finish_cleanup user key now n s)" "st' = snd (finish_cleanup user key now n s)"
    by (simp_all add: assms)
  then show "st_assets st' = st_assets (erase_account user now s)"
    "st_grants st' = st_grants (erase_account user now s)"
    "acr_remaining r = int (affected (avatar_of user) (st_assets st'))"
    "acr_completed r \<longleftrightarrow> acr_remaining r = 0"
    "st_cleanups st' = upd_where (\<lambda>c. cl_key c = key)
            (\<lambda>c. c\<lparr>cl_completed := acr_completed r, cl_updated := now\<rparr>) (st_cleanups s)"
    by (simp_all add: finish_cleanup_def Let_def erase_account_frame)
qed

text \<open>
  After the erasure of an account ran, every avatar of the user is deleted and not yet
  purged, every grant on it is revoked, and the count it reports is the number of these rows; it
  reports the account as completed exactly when none is left.
\<close>
theorem account_cleanup_effect:
  assumes "CleanupAccountAssets env user key now st = (Ok r, st')" "now \<noteq> 0" "take 7 user \<noteq> ''erased:''"
  shows "(\<forall>a\<in>set (st_assets st'). avatar_of user a \<longrightarrow> a_deleted a \<noteq> 0 \<and> a_purged a = 0
            \<and> (\<forall>g\<in>set (st_grants st'). g_asset g = a_id a \<longrightarrow> g_revoked g \<noteq> 0))
     \<and> acr_remaining r = int (affected (avatar_of user) (st_assets st'))
     \<and> (acr_completed r \<longleftrightarrow> (\<forall>a\<in>set (st_assets st'). \<not> avatar_of user a))
     \<and> (\<exists>c\<in>set (st_cleanups st'). cl_key c = key \<and> cl_subject c = accountCleanupSubjectRef env user
          \<and> cl_completed c = acr_completed r)"
  using assms(1)
proof (cases rule: CleanupAccountAssets_cases)
  case (1 s n)
  note fin = finish_cleanup_parts [OF 1(4)]
  have erased: "\<not> avatar_of user (erase_row now a)" for a
    using assms(3) by (auto simp: avatar_of_def erase_row_def)
  have avatars: "\<exists>b\<in>set (st_assets s). avatar_of user b \<and> a_id b = a_id a \<and> a_deleted a \<noteq> 0 \<and> a_purged a = 0"
    if a: "a \<in> set (st_assets st')" "avatar_of user a" for a
  proof -
    obtain b where b: "b \<in> set (st_assets s)" "a = (if avatar_of user b then
            if a_purged b = 0 then b\<lparr>a_deleted := (if a_deleted b = 0 then now else a_deleted b), a_updated := now\<rparr>
            else erase_row now b
          else b)"
      using a(1) unfolding fin(1) erase_account_assets by blast
    show ?thesis using b(2) a(2) erased assms(2) by (intro bexI [OF _ b(1)]) (auto split: if_splits)
  qed
  have grants: "g_revoked g \<noteq> 0"
    if a: "a \<in> set (st_assets st')" "avatar_of user a" and g: "g \<in> set (st_grants st')" "g_asset g = a_id a" for a g
  proof -
    obtain b where "b \<in> set (st_assets s)" "avatar_of user b" "a_id b = a_id a" using avatars [OF a] by blast
    then have "a_id a \<in> a_id ` {r \<in> set (st_assets s). avatar_of user r}" by (auto intro: rev_image_eqI)
    then show ?thesis using g assms(2) unfolding fin(2) erase_account_grants
      by (elim in_upd_whereE) (auto split: if_splits)
  qed
  have "acr_completed r \<longleftrightarrow> (\<forall>a\<in>set (st_assets st'). \<not> avatar_of user a)"
    using fin(3,4) affected_0_iff [of "avatar_of user" "st_assets st'"] by simp
  moreover have "\<exists>c\<in>set (st_cleanups st'). cl_key c = key \<and> cl_subject c = accountCleanupSubjectRef env user
          \<and> cl_completed c = acr_completed r"
  proof -
    obtain c where "c \<in> set (st_cleanups s)" "cl_key c = key" "cl_subject c = accountCleanupSubjectRef env user"
      using 1(3) by blast
    then show ?thesis unfolding fin(5) set_upd_where by (intro bexI [OF _ imageI]) auto
  qed
  ultimately show ?thesis using avatars grants fin(3) by blast
qed

definition demo_avatar :: asset_row where
  "demo_avatar = (new_asset_row (demo_upload\<lparr>a_namespace := ''account.avatar'', a_owner_service := ''account-api'',
     a_owner_id := ''u7''\<rparr>))\<lparr>a_upload_status := UploadCompleted, a_scan_status := ScanClean\<rparr>"

definition demo_account :: store where
  "demo_account = empty_store\<lparr>st_assets := [demo_avatar], st_grants := [demo_grant]\<rparr>"

lemma demo_avatar_of: "avatar_of ''u7'' demo_avatar" "a_purged demo_avatar = 0"
  by (simp_all add: avatar_of_def demo_avatar_def new_asset_row_def demo_upload_def)

theorem account_cleanup_effect_witness:
  "(let r = CleanupAccountAssets demo_env ''u7'' ''op'' 30 demo_account
    in \<exists>x. fst r = Ok x \<and> (\<forall>a\<in>set (st_assets (snd r)). avatar_of ''u7'' a \<longrightarrow> a_deleted a \<noteq> 0))"
proof -
  let ?r = "CleanupAccountAssets demo_env ''u7'' ''op'' 30 demo_account"
  have "\<exists>x st'. ?r = (Ok x, st')"
    by (simp add: CleanupAccountAssets_def Let_def demo_account_def empty_store_def)
  then obtain x where 1: "?r = (Ok x, snd ?r)" by (metis prod.collapse fst_conv)
  show ?thesis
    using account_cleanup_effect [OF 1] 1 by (simp add: Let_def prod_eq_iff)
qed

text \<open>
  C8.  Once the objects of the avatars are purged, running the erasure again (under its key, or
  under a fresh one) completes the account: nothing of the user is left and no new avatar can be
  uploaded in the user's name.
\<close>
theorem account_cleanup_completes:
  assumes "\<forall>a\<in>set (st_assets st). avatar_of user a \<longrightarrow> a_purged a \<noteq> 0" "take 7 user \<noteq> ''erased:''"
    and "\<forall>c\<in>set (st_cleanups st). cl_key c = key \<longrightarrow> cl_subject c = accountCleanupSubjectRef env user"
  shows "\<exists>r st'. CleanupAccountAssets env user key now st = (Ok r, st') \<and> acr_completed r \<and> acr_remaining r = 0
     \<and> (\<forall>a\<in>set (st_assets st'). \<not> avatar_of user a)
     \<and> (\<forall>a u. a_owner_service a = ''account-api'' \<longrightarrow> a_namespace a = ''account.avatar'' \<longrightarrow> a_owner_id a = user
          \<longrightarrow> CreateUpload env a u st' = (Err ErrConflict, st'))"
proof -
  have erased: "\<not> avatar_of user (erase_row now a)" for a
    using assms(2) by (auto simp: avatar_of_def erase_row_def)
  obtain r st' where ok: "CleanupAccountAssets env user key now st = (Ok r, st')"
  proof (cases "sel1 (\<lambda>c. cl_key c = key) (st_cleanups st)")
    case None
    then show thesis using that by (cases "finish_cleanup user key now (int (affected (avatar_of user) (st_assets st)))
       (st\<lparr>st_cleanups := st_cleanups st @ [\<lparr>cl_key = key, cl_subject = accountCleanupSubjectRef env user,
          cl_completed = False, cl_affected = int (affected (avatar_of user) (st_assets st)), cl_created = now,
          cl_updated = now\<rparr>]\<rparr>)") (simp add: CleanupAccountAssets_def Let_def)
  next
    case (Some c)
    then have "cl_subject c = accountCleanupSubjectRef env user" using assms(3) sel1_Some [OF Some] by blast
    then show thesis using that Some
      by (cases "finish_cleanup user key now (cl_affected c) st") (simp add: CleanupAccountAssets_def Let_def)
  qed
  then show ?thesis
  proof (cases rule: CleanupAccountAssets_cases)
    case (1 s n)
    note fin = finish_cleanup_parts [OF 1(4)]
    have none: "\<forall>a\<in>set (st_assets st'). \<not> avatar_of user a"
      using assms(1) erased unfolding fin(1) erase_account_assets 1(1) by auto
    then have zero: "acr_remaining r = 0" "acr_completed r" using fin(3,4) by (simp_all add: affected_0_iff)
    obtain c where c: "c \<in> set (st_cleanups s)" "cl_key c = key" "cl_subject c = accountCleanupSubjectRef env user"
      using 1(3) by blast
    have "account_cleaned env user st'"
      unfolding account_cleaned_def fin(5) exists_row_iff set_upd_where using c zero(2)
      by (intro bexI [OF _ imageI [OF c(1)]]) simp
    then have "CreateUpload env a u st' = (Err ErrConflict, st')"
      if "a_owner_service a = ''account-api''" "a_namespace a = ''account.avatar''" "a_owner_id a = user" for a u
      using that by (simp add: CreateUpload_def)
    then show ?thesis using ok zero none by blast
  qed
qed

theorem account_cleanup_completes_witness:
  "\<exists>r st'. CleanupAccountAssets demo_env ''u7'' ''op'' 60 (demo_account\<lparr>st_assets := [demo_avatar\<lparr>a_purged := 50\<rparr>]\<rparr>)
       = (Ok r, st') \<and> acr_completed r"
  using account_cleanup_completes [of "demo_account\<lparr>st_assets := [demo_avatar\<lparr>a_purged := 50\<rparr>]\<rparr>" "''u7''" "''op''" demo_env 60]
  by (force simp: demo_account_def empty_store_def)

section \<open>Purging the objects\<close>

record purge_candidate =
  pc_asset :: string
  pc_keys :: "string list"

text \<open>
  The condition of \<open>ClaimPurge\<close>.  \<open>node_file\<close> says which items have \<open>node_kind='file'\<close>, a column
  only the personal decks set; the \<open>LEFT JOIN\<close> with the session is \<open>session_of\<close>, whose absence
  makes the comparisons with its columns fail.
\<close>

definition session_of :: "store \<Rightarrow> string \<Rightarrow> upload_session option" where
  "session_of st i = sel1 (\<lambda>u. us_asset u = i) (st_sessions st)"

definition lapsed :: "time \<Rightarrow> time \<Rightarrow> bool" where
  "lapsed claimed now \<longleftrightarrow> claimed = 0 \<or> claimed < now"

definition purge_unheld :: "(collection_item \<Rightarrow> bool) \<Rightarrow> time \<Rightarrow> store \<Rightarrow> asset_row \<Rightarrow> bool" where
  "purge_unheld node_file now st r \<longleftrightarrow> a_purged r = 0 \<and> lapsed (ar_download_until r) now
     \<and> (a_namespace r = ''presenter.personal'' \<longrightarrow>
          \<not> exists_row (\<lambda>i. ci_asset i = a_id r \<and> node_file i \<and> (ci_deleted i = 0 \<or> ci_deleted i > now - 30 * day))
              (st_items st)
          \<and> a_created r < now - 24 * hour
          \<and> (case session_of st (a_id r) of None \<Rightarrow> False
             | Some u \<Rightarrow> us_status u \<noteq> UploadCreated \<or> us_expires u < now)
          \<and> lapsed (ar_scan_claimed r) now \<and> lapsed (a_processing_claimed r) now)
     \<and> (ar_purge_next r = 0 \<or> ar_purge_next r \<le> now) \<and> lapsed (ar_purge_claimed r) now"

text \<open>The reasons both \<open>ClaimPurge\<close> and the counter of \<open>GetOperations\<close> know, and the one of personal assets.\<close>

definition purge_due :: "time \<Rightarrow> store \<Rightarrow> asset_row \<Rightarrow> bool" where
  "purge_due now st r \<longleftrightarrow> a_deleted r \<noteq> 0
     \<or> (a_upload_status r = UploadCreated \<and> (case session_of st (a_id r) of None \<Rightarrow> False | Some u \<Rightarrow> us_expires u < now))
     \<or> a_upload_status r = UploadFailed
     \<or> (a_scan_status r \<in> {ScanInfected, ScanFailed} \<and> a_updated r < now - 7 * day)
     \<or> (a_processing_status r = ProcessingFailed \<and> a_updated r < now - 7 * day)"

definition personal_settled :: "asset_row \<Rightarrow> bool" where
  "personal_settled r \<longleftrightarrow> a_namespace r = ''presenter.personal'' \<and> a_upload_status r = UploadCompleted
     \<and> a_scan_status r \<in> {ScanClean, ScanInfected, ScanFailed}
     \<and> a_processing_status r \<in> {ProcessingReady, ProcessingNotRequired, ProcessingFailed}"

definition purge_ready :: "(collection_item \<Rightarrow> bool) \<Rightarrow> time \<Rightarrow> store \<Rightarrow> asset_row \<Rightarrow> bool" where
  "purge_ready node_file now st r \<longleftrightarrow> purge_unheld node_file now st r \<and> (purge_due now st r \<or> personal_settled r)"

definition derivative_paths :: "string \<Rightarrow> string list" where
  "derivative_paths key =
     map (\<lambda>v. path_Join [path_Dir key, ''derivatives'', v @ ''.jpg'']) [''small'', ''medium'', ''large'']
     @ concat (map (\<lambda>n. map (\<lambda>v. path_Join [path_Dir key, ''derivatives'', ''attempt-'' @ n, v @ ''.jpg''])
                          [''small'', ''medium'', ''large'']) [''1'', ''2'', ''3'', ''4'', ''5''])"

definition purge_keys :: "store \<Rightarrow> asset_row \<Rightarrow> string list" where
  "purge_keys st r = uniqueStrings
     ([case session_of st (a_id r) of None \<Rightarrow> [] | Some u \<Rightarrow> us_staging_key u, a_object_key r]
      @ map d_object_key (filter (\<lambda>d. d_asset d = a_id r) (st_derivatives st))
      @ derivative_paths (a_object_key r))"

definition ClaimPurge ::
  "(collection_item \<Rightarrow> bool) \<Rightarrow> time \<Rightarrow> int \<Rightarrow> store \<Rightarrow> purge_candidate option \<times> store" where
  "ClaimPurge node_file now lease st =
     (case min_row a_updated (filter (purge_ready node_file now st) (st_assets st)) of
        None \<Rightarrow> (None, st)
      | Some r \<Rightarrow> (Some \<lparr>pc_asset = a_id r, pc_keys = purge_keys st r\<rparr>,
                   UPDATE_assets (\<lambda>q. a_id q = a_id r) (\<lambda>q. q\<lparr>ar_purge_claimed := now + lease\<rparr>) st))"

definition purged_row :: "time \<Rightarrow> asset_row \<Rightarrow> asset_row" where
  "purged_row now r =
     (let avatar = (a_owner_service r = ''account-api'' \<and> a_namespace r = ''account.avatar'');
          q = r\<lparr>a_purged := now, ar_purge_claimed := 0, ar_purge_error := [], a_updated := now\<rparr>
      in if avatar then q\<lparr>a_owner_id := ''erased:'' @ a_id r, a_file_name := [], a_checksum := [], a_etag := [],
                          a_scan_details := [], a_processing_error := []\<rparr> else q)"

definition CompletePurge :: "string \<Rightarrow> time \<Rightarrow> store \<Rightarrow> unit result \<times> store" where
  "CompletePurge i now st =
     (let P = (\<lambda>r. a_id r = i \<and> a_purged r = 0)
      in (if affected P (st_assets st) \<noteq> 1 then Err ErrNotFound else Ok (), UPDATE_assets P (purged_row now) st))"

definition RetryPurge :: "string \<Rightarrow> string \<Rightarrow> time \<Rightarrow> time \<Rightarrow> store \<Rightarrow> unit result \<times> store" where
  "RetryPurge i details nextAttempt now st =
     (let P = (\<lambda>r. a_id r = i \<and> a_purged r = 0)
      in (if affected P (st_assets st) \<noteq> 1 then Err ErrNotFound else Ok (),
          UPDATE_assets P (\<lambda>r. r\<lparr>ar_purge_error := details, ar_purge_next := nextAttempt, ar_purge_claimed := 0,
                                 a_updated := now\<rparr>) st))"

text \<open>
  Deleting an asset's row cascades to its session, grants, scan events, derivatives and outbox
  rows, and detaches the items (\<open>ON DELETE CASCADE\<close> and \<open>SET NULL\<close> in the migrations).
\<close>

definition delete_assets :: "string set \<Rightarrow> store \<Rightarrow> store" where
  "delete_assets gone st = st\<lparr>
     st_assets := del_where (\<lambda>r. a_id r \<in> gone) (st_assets st),
     st_sessions := del_where (\<lambda>u. us_asset u \<in> gone) (st_sessions st),
     st_grants := del_where (\<lambda>g. g_asset g \<in> gone) (st_grants st),
     st_scan_events := del_where (\<lambda>e. se_asset e \<in> gone) (st_scan_events st),
     st_scan_outbox := del_where (\<lambda>o'. ob_asset o' \<in> gone) (st_scan_outbox st),
     st_derivative_outbox := del_where (\<lambda>o'. ob_asset o' \<in> gone) (st_derivative_outbox st),
     st_derivatives := del_where (\<lambda>d. d_asset d \<in> gone) (st_derivatives st),
     st_items := upd_where (\<lambda>i. ci_asset i \<in> gone) (\<lambda>i. i\<lparr>ci_asset := []\<rparr>) (st_items st)\<rparr>"

definition DeleteExpiredPurge :: "time \<Rightarrow> int \<Rightarrow> store \<Rightarrow> int result \<times> store" where
  "DeleteExpiredPurge before limit st =
     (if limit \<le> 0 then (Err ErrInvalidInput, st)
      else let ids = map a_id (take (nat limit) (sort_key (\<lambda>r. (a_purged r, a_id r))
                                  (filter (\<lambda>r. a_purged r \<noteq> 0 \<and> a_purged r < before) (st_assets st))))
           in (Ok (int (length ids)), delete_assets (set ids) st))"

end
