(* ===== verification/Purge_Worker.thy ===== *)
theory Purge_Worker
  imports Asset_Lifecycle
begin

text \<open>
  The purge worker (\<open>ProcessOne\<close> and \<open>truncate\<close> of \<open>internal/lifecycle/worker.go\<close>) over its two
  interfaces, the repository and the blob store, and the counters of \<open>GetOperations\<close>.  The locale
  \<open>purge_repo\<close> states what the worker relies on; the repository of theory \<open>Asset_Lifecycle\<close>
  provides it.  A blob store is any state with a deletion that keeps what was deleted away.
\<close>

section \<open>The worker\<close>

type_synonym 'b blob_delete = "string \<Rightarrow> 'b \<Rightarrow> go_error option \<times> 'b"

text \<open>The loop over the keys of a candidate: the first failure ends it.\<close>

fun delete_keys :: "'b blob_delete \<Rightarrow> string list \<Rightarrow> 'b \<Rightarrow> go_error option \<times> 'b" where
  "delete_keys del [] b = (None, b)"
| "delete_keys del (k # ks) b =
     (if k = [] then delete_keys del ks b
      else case del k b of
        (Some e, b') \<Rightarrow> (Some e, b')
      | (None, b') \<Rightarrow> delete_keys del ks b')"

definition truncate_text :: "string \<Rightarrow> nat \<Rightarrow> string" where
  "truncate_text v limit = (if length v \<le> limit then v else take limit v)"

definition errors_of :: "'a result \<Rightarrow> go_error list" where
  "errors_of r = (case r of Inl e \<Rightarrow> [e] | Inr _ \<Rightarrow> [])"

definition ProcessOne ::
  "(time \<Rightarrow> int \<Rightarrow> 's \<Rightarrow> purge_candidate option \<times> 's) \<Rightarrow> (string \<Rightarrow> time \<Rightarrow> 's \<Rightarrow> unit result \<times> 's)
   \<Rightarrow> (string \<Rightarrow> string \<Rightarrow> time \<Rightarrow> time \<Rightarrow> 's \<Rightarrow> unit result \<times> 's) \<Rightarrow> (time \<Rightarrow> int \<Rightarrow> 's \<Rightarrow> int result \<times> 's)
   \<Rightarrow> 'b blob_delete \<Rightarrow> (go_error \<Rightarrow> string) \<Rightarrow> time \<Rightarrow> 's \<Rightarrow> 'b \<Rightarrow> (bool \<times> go_error list) \<times> 's \<times> 'b" where
  "ProcessOne claim complete retry expire del msg now s b =
     (case claim now minute s of
        (None, s1) \<Rightarrow>
          (case expire (now - 180 * 24 * hour) 100 s1 of
             (Inl e, s2) \<Rightarrow> ((False, [e]), s2, b)
           | (Inr n, s2) \<Rightarrow> ((n > 0, []), s2, b))
      | (Some c, s1) \<Rightarrow>
          (case delete_keys del (pc_keys c) b of
             (Some e, b1) \<Rightarrow>
               (case retry (pc_asset c) (truncate_text (msg e) 500) (now + minute) now s1 of
                  (r, s2) \<Rightarrow> ((True, e # errors_of r), s2, b1))
           | (None, b1) \<Rightarrow>
               (case complete (pc_asset c) now s1 of (r, s2) \<Rightarrow> ((True, errors_of r), s2, b1))))"

section \<open>What the worker relies on\<close>

definition keeps_deleted :: "'b blob_delete \<Rightarrow> ('b \<Rightarrow> string \<Rightarrow> bool) \<Rightarrow> bool" where
  "keeps_deleted del absent \<longleftrightarrow>
     (\<forall>k b. case del k b of (r, b') \<Rightarrow> (r = None \<longrightarrow> absent b' k) \<and> (\<forall>j. absent b j \<longrightarrow> absent b' j))"

lemma delete_keys_absent:
  assumes "keeps_deleted del absent" "delete_keys del ks b = (None, b')"
  shows "(\<forall>k\<in>set ks. k \<noteq> [] \<longrightarrow> absent b' k) \<and> (\<forall>j. absent b j \<longrightarrow> absent b' j)"
  using assms(2)
proof (induction ks arbitrary: b)
  case Nil
  then show ?case by simp
next
  case (Cons k ks)
  show ?case
  proof (cases "k = []")
    case True
    then show ?thesis using Cons by simp
  next
    case False
    then obtain b1 where b1: "del k b = (None, b1)" "delete_keys del ks b1 = (None, b')"
      using Cons.prems by (auto split: prod.splits option.splits)
    have "absent b1 k" "\<forall>j. absent b j \<longrightarrow> absent b1 j"
      using assms(1) b1(1) unfolding keeps_deleted_def by (metis (mono_tags, lifting) case_prod_conv)+
    then show ?thesis using Cons.IH [OF b1(2)] by auto
  qed
qed

locale purge_repo =
  fixes inv :: "'s \<Rightarrow> bool"
    and purged :: "'s \<Rightarrow> string \<Rightarrow> bool"
    and keys_of :: "'s \<Rightarrow> string \<Rightarrow> string set"
    and claim :: "time \<Rightarrow> int \<Rightarrow> 's \<Rightarrow> purge_candidate option \<times> 's"
    and complete :: "string \<Rightarrow> time \<Rightarrow> 's \<Rightarrow> unit result \<times> 's"
    and retry :: "string \<Rightarrow> string \<Rightarrow> time \<Rightarrow> time \<Rightarrow> 's \<Rightarrow> unit result \<times> 's"
    and expire :: "time \<Rightarrow> int \<Rightarrow> 's \<Rightarrow> int result \<times> 's"
  assumes claim_purged: "inv s \<Longrightarrow> claim now lease s = (found, s') \<Longrightarrow> inv s' \<and> purged s' = purged s"
    and claim_keys: "inv s \<Longrightarrow> claim now lease s = (Some c, s') \<Longrightarrow>
      \<not> purged s (pc_asset c) \<and> keys_of s (pc_asset c) \<subseteq> set (pc_keys c)"
    and complete_purged: "inv s \<Longrightarrow> now \<noteq> 0 \<Longrightarrow> complete i now s = (r, s') \<Longrightarrow> purged s' j \<Longrightarrow> purged s j \<or> j = i"
    and retry_purged: "inv s \<Longrightarrow> retry i e t now s = (r, s') \<Longrightarrow> purged s' = purged s"
    and expire_purged: "inv s \<Longrightarrow> expire before n s = (cnt, s') \<Longrightarrow> purged s' j \<Longrightarrow> purged s j"
begin

lemma objects_before_mark:
  assumes "ProcessOne claim complete retry expire del msg now s b = (res, s', b')"
    and "keeps_deleted del absent" "inv s" "now \<noteq> 0" "purged s' i" "\<not> purged s i"
  shows "\<forall>k\<in>keys_of s i. k \<noteq> [] \<longrightarrow> absent b' k"
proof (cases "claim now minute s")
  case (Pair c s1)
  note claimed = claim_purged [OF assms(3) Pair]
  show ?thesis
  proof (cases c)
    case None
    then have "purged s1 i"
      using assms(1,5) Pair expire_purged [OF claimed [THEN conjunct1]]
      by (auto simp: ProcessOne_def split: prod.splits sum.splits)
    then show ?thesis using claimed assms(6) by simp
  next
    case (Some x)
    obtain e b1 where d: "delete_keys del (pc_keys x) b = (e, b1)" by (cases "delete_keys del (pc_keys x) b")
    show ?thesis
    proof (cases e)
      case None
      then obtain r where "complete (pc_asset x) now s1 = (r, s')" "b' = b1"
        using assms(1) Pair Some d by (auto simp: ProcessOne_def split: prod.splits)
      then have "i = pc_asset x"
        using complete_purged [OF claimed [THEN conjunct1] assms(4)] assms(5,6) claimed by metis
      then show ?thesis
        using claim_keys [OF assms(3)] Pair Some delete_keys_absent [OF assms(2)] d None \<open>b' = b1\<close> by blast
    next
      case (Some e')
      then obtain r where "retry (pc_asset x) (truncate_text (msg e') 500) (now + minute) now s1 = (r, s')"
        using assms(1) Pair \<open>c = Some x\<close> d by (auto simp: ProcessOne_def split: prod.splits)
      then show ?thesis using retry_purged [OF claimed [THEN conjunct1]] assms(5,6) claimed by metis
    qed
  qed
qed

end

section \<open>The repository provides it\<close>

definition is_purged :: "store \<Rightarrow> string \<Rightarrow> bool" where
  "is_purged st i \<longleftrightarrow> (\<exists>r. asset_of st i = Some r \<and> a_purged r \<noteq> 0)"

text \<open>Every key under which the store knows an object of the asset.\<close>

definition object_keys :: "store \<Rightarrow> string \<Rightarrow> string set" where
  "object_keys st i = {k. k \<noteq> [] \<and>
     ((\<exists>r. asset_of st i = Some r \<and> k = a_object_key r)
      \<or> (\<exists>u. session_of st i = Some u \<and> k = us_staging_key u)
      \<or> (\<exists>d\<in>set (st_derivatives st). d_asset d = i \<and> k = d_object_key d))}"

lemma purge_ready_unpurged: "purge_ready nf now st r \<Longrightarrow> a_purged r = 0"
  by (simp add: purge_ready_def purge_unheld_def)

text \<open>What a claim finds, and what it does: it takes the lease on one row.\<close>

lemma ClaimPurge_cases:
  assumes "ClaimPurge nf now lease st = (found, st')"
  obtains (none) "found = None" "st' = st" "\<forall>r\<in>set (st_assets st). \<not> purge_ready nf now st r"
  | (claimed) r where "found = Some \<lparr>pc_asset = a_id r, pc_keys = purge_keys st r\<rparr>" "r \<in> set (st_assets st)"
      "purge_ready nf now st r"
      "\<And>q. q \<in> set (st_assets st) \<Longrightarrow> purge_ready nf now st q \<Longrightarrow> a_updated r \<le> a_updated q"
      "st' = UPDATE_assets (\<lambda>q. a_id q = a_id r) (\<lambda>q. q\<lparr>ar_purge_claimed := now + lease\<rparr>) st"
proof (cases "min_row a_updated (filter (purge_ready nf now st) (st_assets st))")
  case None
  then show thesis using assms none by (auto simp: ClaimPurge_def filter_empty_conv)
next
  case (Some r)
  then have "r \<in> set (filter (purge_ready nf now st) (st_assets st))" by (rule min_row_in)
  moreover have "a_updated r \<le> a_updated q" if "q \<in> set (st_assets st)" "purge_ready nf now st q" for q
    using min_row_le [OF Some, of q] that by simp
  ultimately show thesis using assms claimed [of r] Some by (simp add: ClaimPurge_def)
qed

lemma is_purged_UPDATE:
  assumes "\<And>r. a_id (f r) = a_id r" "\<And>r. P r \<Longrightarrow> a_purged r = 0 \<Longrightarrow> a_purged (f r) = 0"
    "\<And>r. P r \<Longrightarrow> a_purged r \<noteq> 0 \<Longrightarrow> a_purged (f r) \<noteq> 0"
  shows "is_purged (UPDATE_assets P f st) = is_purged st"
proof
  fix i
  show "is_purged (UPDATE_assets P f st) i = is_purged st i"
  proof (cases "asset_of st i")
    case None
    then show ?thesis by (simp add: is_purged_def asset_of_UPDATE [OF assms(1)])
  next
    case (Some r)
    then show ?thesis using assms(2,3) [of r] by (auto simp: is_purged_def asset_of_UPDATE [OF assms(1)])
  qed
qed

lemma purge_keys_cover:
  assumes "asset_of st i = Some r"
  shows "object_keys st i \<subseteq> set (purge_keys st r)"
proof -
  have "a_id r = i" using assms by auto
  then show ?thesis
    using assms by (auto simp: object_keys_def purge_keys_def set_uniqueStrings)
qed

interpretation purge: purge_repo wf_assets is_purged object_keys "ClaimPurge nf" CompletePurge RetryPurge DeleteExpiredPurge
proof (unfold_locales, goal_cases)
  case (1 s now lease found s')
  from 1(2) show ?case
  proof (cases rule: ClaimPurge_cases)
    case none
    then show ?thesis using 1 by simp
  next
    case (claimed r)
    show ?thesis unfolding claimed(5)
      using 1(1) by (simp add: wf_assets_UPDATE is_purged_UPDATE)
  qed
next
  case (2 s now lease c s')
  from 2(2) show ?case
  proof (cases rule: ClaimPurge_cases)
    case (claimed r)
    then have "asset_of s (a_id r) = Some r" by (intro asset_of_mem [OF 2(1)])
    then show ?thesis using claimed(1) purge_ready_unpurged [OF claimed(3)] purge_keys_cover
      by (auto simp: is_purged_def)
  qed simp
next
  case (3 s now i r s' j)
  then have s': "s' = UPDATE_assets (\<lambda>r. a_id r = i \<and> a_purged r = 0) (purged_row now) s"
    by (simp add: CompletePurge_def Let_def)
  have id: "a_id (purged_row now q) = a_id q" for q by (simp add: purged_row_def Let_def)
  show ?case
  proof (cases "asset_of s j")
    case None
    then show ?thesis using 3(4) by (simp add: is_purged_def s' asset_of_UPDATE id)
  next
    case (Some q)
    then have "a_id q = j" by auto
    then show ?thesis using 3(4) Some by (auto simp: is_purged_def s' asset_of_UPDATE id split: if_splits)
  qed
next
  case (4 s i e t now r s')
  then have "s' = UPDATE_assets (\<lambda>r. a_id r = i \<and> a_purged r = 0)
     (\<lambda>r. r\<lparr>ar_purge_error := e, ar_purge_next := t, ar_purge_claimed := 0, a_updated := now\<rparr>) s"
    by (simp add: RetryPurge_def Let_def)
  then show ?case by (simp add: is_purged_UPDATE)
next
  case (5 s before n cnt s' j)
  have del: "asset_of (delete_assets gone s) j = (if j \<in> gone then None else asset_of s j)" for gone
  proof -
    have "find (\<lambda>r. a_id r = j) (filter (\<lambda>r. a_id r \<notin> gone) rows) =
        (if j \<in> gone then None else find (\<lambda>r. a_id r = j) rows)" for rows :: "asset_row list"
      by (induction rows) auto
    then show ?thesis by (simp add: asset_of_def delete_assets_def sel1_def del_where_def)
  qed
  then show ?case using 5 by (auto simp: DeleteExpiredPurge_def Let_def is_purged_def split: if_splits)
qed

text \<open>
  C9.  The purge worker deletes the objects first: when a round of it has marked an asset as
  purged, every key under which the store knew an object of the asset (the original, the staged
  upload, all derivatives) is gone from the blob store, whatever happened in that round.
\<close>
theorem purge_objects_first:
  assumes "ProcessOne (ClaimPurge nf) CompletePurge RetryPurge DeleteExpiredPurge del msg now st b = (res, st', b')"
    and "keeps_deleted del absent" "wf_assets st" "now \<noteq> 0" "is_purged st' i" "\<not> is_purged st i"
  shows "\<forall>k\<in>object_keys st i. absent b' k"
  using purge.objects_before_mark [OF assms] by (auto simp: object_keys_def)

definition demo_purgeable :: store where
  "demo_purgeable = empty_store\<lparr>st_assets := [(new_asset_row demo_upload)\<lparr>a_upload_status := UploadCompleted,
     a_scan_status := ScanInfected, a_deleted := 20\<rparr>], st_sessions := [demo_session]\<rparr>"

text \<open>A blob store that is the set of its keys; deleting what is not there succeeds.\<close>

definition demo_delete :: "string set blob_delete" where
  "demo_delete k b = (None, b - {k})"

lemma demo_keeps_deleted: "keeps_deleted demo_delete (\<lambda>b k. k \<notin> b)"
  by (simp add: keeps_deleted_def demo_delete_def)

lemma demo_purgeable_asset:
  "wf_assets demo_purgeable" "asset_of demo_purgeable ''a1'' = Some ((new_asset_row demo_upload)
     \<lparr>a_upload_status := UploadCompleted, a_scan_status := ScanInfected, a_deleted := 20\<rparr>)"
  "\<not> is_purged demo_purgeable ''a1''"
  by (simp_all add: demo_purgeable_def wf_assets_def asset_of_def is_purged_def demo_defs new_asset_row_def)

lemma demo_purge_ready: "purge_ready (\<lambda>_. False) 30 demo_purgeable (hd (st_assets demo_purgeable))"
  by (simp add: purge_ready_def purge_unheld_def purge_due_def lapsed_def demo_purgeable_def demo_defs new_asset_row_def)

lemma demo_purge_claim:
  "ClaimPurge (\<lambda>_. False) 30 lease demo_purgeable =
     (Some \<lparr>pc_asset = ''a1'', pc_keys = purge_keys demo_purgeable (hd (st_assets demo_purgeable))\<rparr>,
      UPDATE_assets (\<lambda>q. a_id q = ''a1'') (\<lambda>q. q\<lparr>ar_purge_claimed := 30 + lease\<rparr>) demo_purgeable)"
proof -
  have one: "st_assets demo_purgeable = [hd (st_assets demo_purgeable)]" "a_id (hd (st_assets demo_purgeable)) = ''a1''"
    by (simp_all add: demo_purgeable_def demo_defs new_asset_row_def)
  have "min_row a_updated (filter (purge_ready (\<lambda>_. False) 30 demo_purgeable) (st_assets demo_purgeable))
      = Some (hd (st_assets demo_purgeable))"
    using demo_purge_ready by (subst one(1)) simp
  then show ?thesis by (simp add: ClaimPurge_def one(2))
qed

theorem purge_objects_first_witness:
  "(let (res, st', b') = ProcessOne (ClaimPurge (\<lambda>_. False)) CompletePurge RetryPurge DeleteExpiredPurge demo_delete
         (\<lambda>_. []) 30 demo_purgeable {''k1'', ''staging'', ''other''}
    in is_purged st' ''a1'' \<and> ''k1'' \<notin> b' \<and> ''staging'' \<notin> b')"
proof -
  obtain res st' b' where p: "ProcessOne (ClaimPurge (\<lambda>_. False)) CompletePurge RetryPurge DeleteExpiredPurge demo_delete
         (\<lambda>_. []) 30 demo_purgeable {''k1'', ''staging'', ''other''} = (res, st', b')" by (metis prod_cases3)
  have none: "fst (delete_keys demo_delete ks b) = None" for ks b
    by (induction ks arbitrary: b) (auto simp: demo_delete_def)
  obtain b1 where b1: "delete_keys demo_delete (purge_keys demo_purgeable (hd (st_assets demo_purgeable)))
      {''k1'', ''staging'', ''other''} = (None, b1)" using none by (metis prod.collapse)
  have "st' = snd (CompletePurge ''a1'' 30 (UPDATE_assets (\<lambda>q. a_id q = ''a1'') (\<lambda>q. q\<lparr>ar_purge_claimed := 30 + minute\<rparr>) demo_purgeable))"
    using p b1 by (simp add: ProcessOne_def demo_purge_claim split: prod.splits)
  then have st': "is_purged st' ''a1''"
    by (simp add: CompletePurge_def is_purged_def asset_of_def UPDATE_assets_def demo_purgeable_def demo_defs
        new_asset_row_def purged_row_def Let_def)
  have keys: "''k1'' \<in> object_keys demo_purgeable ''a1''" "''staging'' \<in> object_keys demo_purgeable ''a1''"
    by (simp_all add: object_keys_def demo_purgeable_asset session_of_def)
       (simp_all add: demo_purgeable_def demo_defs new_asset_row_def)
  show ?thesis
    using purge_objects_first [OF p demo_keeps_deleted demo_purgeable_asset(1) _ st' demo_purgeable_asset(3)] keys p st'
    by simp
qed

lemma claim_exclusive:
  assumes "ClaimPurge nf now lease st = (Some q0, st')" "now \<le> t" "t \<le> now + lease" "now + lease \<noteq> 0"
    and "fst (ClaimPurge nf t lease2 st') = Some c"
  shows "pc_asset c \<noteq> pc_asset q0"
  using assms(1)
proof (cases rule: ClaimPurge_cases)
  case (claimed q)
  obtain f u where second: "ClaimPurge nf t lease2 st' = (f, u)" "f = Some c" using assms(5) by (cases "ClaimPurge nf t lease2 st'") simp
  from second(1) show ?thesis
  proof (cases rule: ClaimPurge_cases)
    case c2: (claimed p)
    have "a_id p \<noteq> a_id q"
    proof
      assume eq: "a_id p = a_id q"
      obtain p0 where "p = (if a_id p0 = a_id q then p0\<lparr>ar_purge_claimed := now + lease\<rparr> else p0)"
        using c2(2) unfolding claimed(5) UPDATE_assets_def by (auto elim: in_upd_whereE)
      then have "ar_purge_claimed p = now + lease" using eq by (auto split: if_splits)
      then show False using c2(3) assms(2-4) by (simp add: purge_ready_def purge_unheld_def lapsed_def)
    qed
    then show ?thesis using c2(1) claimed(1) second(2) by simp
  qed (use second in simp)
qed simp



text \<open>
  C11.  A failed deletion of an object postpones the purge of a quarantined asset by a week, not by
  the minute that \<open>ProcessOne\<close> asks for: \<open>RetryPurge\<close> also moves \<open>updated_at\<close>, which the seven days
  of an infected or failed asset count from.
\<close>
theorem retry_restarts_quarantine:
  assumes "RetryPurge i details nextAttempt now st = (r, st')" "asset_of st i = Some a" "wf_assets st" "a_purged a = 0"
    and "a_deleted a = 0" "a_namespace a \<noteq> ''presenter.personal''" "a_upload_status a = UploadCompleted"
    and "t \<le> now + 7 * day"
  shows "map_option pc_asset (fst (ClaimPurge nf t lease st')) \<noteq> Some i"
proof (cases "ClaimPurge nf t lease st'")
  case (Pair found st2)
  have st': "st' = UPDATE_assets (\<lambda>r. a_id r = i \<and> a_purged r = 0)
     (\<lambda>r. r\<lparr>ar_purge_error := details, ar_purge_next := nextAttempt, ar_purge_claimed := 0, a_updated := now\<rparr>) st"
    using assms(1) by (simp add: RetryPurge_def Let_def)
  from Pair show ?thesis
  proof (cases rule: ClaimPurge_cases)
    case none
    then show ?thesis using Pair by simp
  next
    case (claimed q)
    have "a_id q \<noteq> i"
    proof
      assume "a_id q = i"
      obtain q0 where q0: "q0 \<in> set (st_assets st)" "q = (if a_id q0 = i \<and> a_purged q0 = 0 then
          q0\<lparr>ar_purge_error := details, ar_purge_next := nextAttempt, ar_purge_claimed := 0, a_updated := now\<rparr> else q0)"
        using claimed(2) unfolding st' UPDATE_assets_def by (auto elim: in_upd_whereE)
      then have "a_id q0 = i" using \<open>a_id q = i\<close> by (auto split: if_splits)
      then have "q0 = a" using asset_of_mem [OF assms(3) q0(1)] assms(2) by simp
      then have "q = a\<lparr>ar_purge_error := details, ar_purge_next := nextAttempt, ar_purge_claimed := 0, a_updated := now\<rparr>"
        using q0(2) \<open>a_id q0 = i\<close> assms(4) by simp
      then show False using claimed(3) assms(5-8)
        by (auto simp: purge_ready_def purge_due_def personal_settled_def)
    qed
    then show ?thesis using Pair claimed(1) by simp
  qed
qed

theorem retry_restarts_quarantine_witness:
  "map_option pc_asset (fst (ClaimPurge (\<lambda>_. False) (30 + 7 * day) minute
     (snd (RetryPurge ''a1'' ''timeout'' (30 + minute) 30
        (empty_store\<lparr>st_assets := [(new_asset_row demo_upload)\<lparr>a_upload_status := UploadCompleted, a_scan_status := ScanInfected\<rparr>]\<rparr>)))))
   \<noteq> Some ''a1''"
proof -
  let ?s = "empty_store\<lparr>st_assets := [(new_asset_row demo_upload)\<lparr>a_upload_status := UploadCompleted, a_scan_status := ScanInfected\<rparr>]\<rparr>"
  let ?r = "RetryPurge ''a1'' ''timeout'' (30 + minute) 30 ?s"
  have 1: "?r = (fst ?r, snd ?r)" by simp
  have 2: "asset_of ?s ''a1'' = Some ((new_asset_row demo_upload)\<lparr>a_upload_status := UploadCompleted, a_scan_status := ScanInfected\<rparr>)"
      "wf_assets ?s"
    by (simp_all add: asset_of_def wf_assets_def new_asset_row_def demo_upload_def)
  show ?thesis
    by (rule retry_restarts_quarantine [OF 1 2])
       (simp_all add: new_asset_row_def demo_upload_def zero_asset_def)
qed

section \<open>The counters of the operations page\<close>

record operations =
  op_scan_pending :: int
  op_scan_failed :: int
  op_oldest_scan :: time
  op_processing_pending :: int
  op_processing_failed :: int
  op_oldest_processing :: time
  op_purge_pending :: int
  op_expired_items :: int
  op_bulletin_grants :: int

definition count_where :: "('r \<Rightarrow> bool) \<Rightarrow> 'r tbl \<Rightarrow> int" where
  "count_where P t = int (affected P t)"

text \<open>\<open>MIN(updated_at)\<close>, read as the zero time where there is no row.\<close>

definition oldest :: "(asset_row \<Rightarrow> bool) \<Rightarrow> asset_row tbl \<Rightarrow> time" where
  "oldest P t = (case min_row a_updated (filter P t) of None \<Rightarrow> 0 | Some r \<Rightarrow> a_updated r)"

definition GetOperations :: "time \<Rightarrow> store \<Rightarrow> operations" where
  "GetOperations now st =
     (let rows = st_assets st;
          processing = (\<lambda>s r. a_upload_status r = UploadCompleted \<and> a_scan_status r = ScanClean
                           \<and> a_processing_status r = s \<and> live r)
      in \<lparr>op_scan_pending = count_where (\<lambda>r. a_scan_status r = ScanPending \<and> live r) rows,
          op_scan_failed = count_where (\<lambda>r. a_scan_status r = ScanFailed \<and> live r) rows,
          op_oldest_scan = oldest (\<lambda>r. a_scan_status r = ScanPending \<and> live r) rows,
          op_processing_pending = count_where (processing ProcessingPending) rows,
          op_processing_failed = count_where (processing ProcessingFailed) rows,
          op_oldest_processing = oldest (processing ProcessingPending) rows,
          op_purge_pending = count_where (\<lambda>r. a_purged r = 0 \<and> purge_due now st r) rows,
          op_expired_items = count_where (sweepable now st) (st_items st),
          op_bulletin_grants = count_where (\<lambda>g. g_subject_type g = SubjectPublic \<and> g_revoked g = 0
              \<and> (g_expires g = 0 \<or> g_expires g > now)
              \<and> exists_row (\<lambda>r. a_id r = g_asset g \<and> a_namespace r = ''cms.weekly.pdf'') rows) (st_grants st)\<rparr>)"

lemma sum_group_sizes:
  "sum_list (map (\<lambda>c. int (length (filter (\<lambda>r. k r = c) rows))) (sort (remdups (map k rows)))) = int (length rows)"
proof -
  have "sum_list (map (\<lambda>c. int (length (filter (\<lambda>r. k r = c) rows))) (sort (remdups (map k rows))))
      = sum (\<lambda>c. int (length (filter (\<lambda>r. k r = c) rows))) (set (sort (remdups (map k rows))))"
    by (rule sum_list_distinct_conv_sum_set) simp
  also have "\<dots> = int (\<Sum>c\<in>k ` set rows. length (filter (\<lambda>r. k r = c) rows))" by simp
  also have "(\<Sum>c\<in>k ` set rows. length (filter (\<lambda>r. k r = c) rows)) = length rows"
  proof -
    have "(\<Sum>c\<in>S. length (filter (\<lambda>r. k r = c) xs)) = length (filter (\<lambda>r. k r \<in> S) xs)" if "finite S" for S xs
      using that
    proof (induction xs)
      case (Cons x xs)
      have "length (filter (\<lambda>r. k r = c) (x # xs)) = (if k x = c then 1 else 0) + length (filter (\<lambda>r. k r = c) xs)"
        for c by simp
      then show ?case using Cons by (simp only: sum.distrib) (simp add: sum.delta)
    qed simp
    then show ?thesis by (simp add: filter_True)
  qed
  finally show ?thesis .
qed

text \<open>
  The counters agree with the workers they report on: the expired items are exactly the
  backlog the retention sweep would report, an asset that can be claimed for a purge outside the
  personal decks is counted as pending, and when nothing is pending there nothing can be claimed.
\<close>
theorem operations_agree:
  "op_expired_items (GetOperations now st)
           = sum_list (map pv_count (case PreviewExpiredCollectionItems now st of Inr ps \<Rightarrow> ps | Inl _ \<Rightarrow> []))
   \<and> (op_expired_items (GetOperations now st) = 0 \<longleftrightarrow> expired_items now st = {})
   \<and> (op_purge_pending (GetOperations now st) = 0 \<longrightarrow> (\<forall>r\<in>set (st_assets st).
           a_namespace r \<noteq> ''presenter.personal'' \<longrightarrow> \<not> purge_ready nf now st r))"
proof (intro conjI impI ballI)
  let ?rows = "filter (sweepable now st) (st_items st)"
  have items: "op_expired_items (GetOperations now st) = int (length ?rows)"
    by (simp add: GetOperations_def Let_def count_where_def affected_def)
  have "map pv_count (case PreviewExpiredCollectionItems now st of Inr ps \<Rightarrow> ps | Inl _ \<Rightarrow> [])
      = map (\<lambda>c. int (length (filter (\<lambda>r. ci_collection r = c) ?rows))) (sort (remdups (map ci_collection ?rows)))"
    by (simp add: PreviewExpiredCollectionItems_def Let_def comp_def)
  then show "op_expired_items (GetOperations now st)
           = sum_list (map pv_count (case PreviewExpiredCollectionItems now st of Inr ps \<Rightarrow> ps | Inl _ \<Rightarrow> []))"
    using items by (simp only: sum_group_sizes)
  show "op_expired_items (GetOperations now st) = 0 \<longleftrightarrow> expired_items now st = {}"
    unfolding items expired_items_def by (auto simp: filter_empty_conv)
next
  fix r assume "op_purge_pending (GetOperations now st) = 0" "r \<in> set (st_assets st)"
    "a_namespace r \<noteq> ''presenter.personal''"
  then show "\<not> purge_ready nf now st r"
    by (auto simp: GetOperations_def Let_def count_where_def affected_0_iff purge_ready_def purge_unheld_def
        personal_settled_def)
qed

theorem operations_agree_witness:
  "op_purge_pending (GetOperations 10 (empty_store\<lparr>st_assets := [new_asset_row demo_upload]\<rparr>)) = 0
   \<and> \<not> purge_ready (\<lambda>_. False) 10 (empty_store\<lparr>st_assets := [new_asset_row demo_upload]\<rparr>) (new_asset_row demo_upload)"
proof -
  let ?s = "empty_store\<lparr>st_assets := [new_asset_row demo_upload]\<rparr>"
  have 1: "op_purge_pending (GetOperations 10 ?s) = 0"
    by (simp add: GetOperations_def Let_def count_where_def purge_due_def session_of_def demo_defs new_asset_row_def)
  moreover have "new_asset_row demo_upload \<in> set (st_assets ?s)" "a_namespace (new_asset_row demo_upload) \<noteq> ''presenter.personal''"
    by (simp_all add: new_asset_row_def demo_upload_def)
  ultimately show ?thesis using operations_agree [of 10 ?s "\<lambda>_. False"] by blast
qed

end
