(* ===== verification/Blob_Store.thy ===== *)
theory Blob_Store
  imports Encoding Paths Domain
begin

text \<open>
  The blob store: the interface \<open>BlobStore\<close> of \<open>internal/assets/types.go\<close> as a record of operations
  on a state, the locale \<open>blob_store\<close> with what its clients rely on, and the local implementation
  \<open>internal/storage/local/store.go\<close>, which provides it.  The directory of the local store is a map
  from clean relative paths to files; errors of the operating system other than a missing or an
  existing file are not modelled.
\<close>

section \<open>The interface\<close>

record blob_download =
  bd_body :: string
  bd_size :: int
  bd_total :: int
  bd_mime :: string
  bd_etag :: string
  bd_modified :: time
  bd_cache :: string

record 'b blob_ops =
  bl_target :: "string \<Rightarrow> int \<Rightarrow> time \<Rightarrow> upload_target result"
  bl_properties :: "string \<Rightarrow> 'b \<Rightarrow> blob_metadata result"
  bl_inspect :: "string \<Rightarrow> string \<Rightarrow> int \<Rightarrow> 'b \<Rightarrow> blob_properties result"
  bl_commit :: "string \<Rightarrow> string \<Rightarrow> 'b \<Rightarrow> blob_properties result \<times> 'b"
  bl_open :: "string \<Rightarrow> byte_range \<Rightarrow> string \<Rightarrow> 'b \<Rightarrow> blob_download result"
  bl_delete :: "string \<Rightarrow> 'b \<Rightarrow> go_error option \<times> 'b"

text \<open>The content of an object is its bytes and its ETag; \<open>describes\<close> relates it to a result.\<close>

type_synonym object = "string \<times> string"

definition describes :: "(string \<Rightarrow> string) \<Rightarrow> blob_properties \<Rightarrow> object \<Rightarrow> bool" where
  "describes digest p ob \<longleftrightarrow> bp_size p = int (length (fst ob)) \<and> bp_checksum p = digest (fst ob) \<and> bp_etag p = snd ob"

locale blob_store =
  fixes ops :: "'b blob_ops"
    and content :: "'b \<Rightarrow> string \<Rightarrow> object option"
    and digest :: "string \<Rightarrow> string"
    and good :: "string \<Rightarrow> bool"
  assumes properties_Ok: "good k \<Longrightarrow> bl_properties ops k b = Ok m \<Longrightarrow>
      \<exists>ob. content b k = Some ob \<and> bm_size m = int (length (fst ob)) \<and> bm_etag m = snd ob"
    and properties_missing: "good k \<Longrightarrow> bl_properties ops k b = Err ErrNotFound \<longleftrightarrow> content b k = None"
    and inspect_Ok: "good k \<Longrightarrow> bl_inspect ops k e limit b = Ok p \<Longrightarrow>
      \<exists>ob. content b k = Some ob \<and> describes digest p ob \<and> (e \<noteq> [] \<longrightarrow> e = snd ob) \<and> (0 < limit \<longrightarrow> int (length (fst ob)) \<le> limit)"
    and open_Ok: "good k \<Longrightarrow> bl_open ops k r e b = Ok d \<Longrightarrow>
      \<exists>ob. content b k = Some ob \<and> bd_etag d = snd ob \<and> (e \<noteq> [] \<longrightarrow> e = snd ob)
        \<and> (br_offset r = 0 \<longrightarrow> bd_body d = (if 0 < br_count r then take (nat (br_count r)) (fst ob) else fst ob))"
    and commit_Ok: "good s \<Longrightarrow> good f \<Longrightarrow> s \<noteq> f \<Longrightarrow> bl_commit ops s f b = (Ok p, b') \<Longrightarrow>
      (\<exists>ob. content b' f = Some ob \<and> describes digest p ob
         \<and> (content b f = None \<longrightarrow> (\<exists>e. content b s = Some (fst ob, e))) \<and> (content b f \<noteq> None \<longrightarrow> content b f = Some ob))
      \<and> content b' s = None \<and> (\<forall>k. good k \<longrightarrow> k \<noteq> s \<longrightarrow> k \<noteq> f \<longrightarrow> content b' k = content b k)"
    and commit_Err: "good s \<Longrightarrow> good f \<Longrightarrow> s \<noteq> f \<Longrightarrow> bl_commit ops s f b = (Err x, b') \<Longrightarrow> good k \<Longrightarrow>
      content b' k = content b k \<or> k = f \<and> content b f = None \<and> (\<exists>c e e'. content b s = Some (c, e) \<and> content b' f = Some (c, e'))"
    and delete_Ok: "good k \<Longrightarrow> bl_delete ops k b = (None, b') \<Longrightarrow> good j \<Longrightarrow> content b' j = (if j = k then None else content b j)"
    and delete_Err: "good k \<Longrightarrow> bl_delete ops k b = (Some x, b') \<Longrightarrow> good j \<Longrightarrow> content b' j = content b j"
begin

lemma deleted_gone: "good k \<Longrightarrow> bl_delete ops k b = (None, b') \<Longrightarrow> content b' k = None"
  by (simp add: delete_Ok)

lemma delete_other: "good k \<Longrightarrow> bl_delete ops k b = (r, b') \<Longrightarrow> good j \<Longrightarrow> j \<noteq> k \<Longrightarrow> content b' j = content b j"
  by (cases r) (simp_all add: delete_Ok delete_Err)

end

text \<open>A store that answers: an operation whose object is there succeeds.\<close>

locale answering_store = blob_store +
  assumes properties_present: "good k \<Longrightarrow> content b k = Some ob \<Longrightarrow> \<exists>m. bl_properties ops k b = Ok m"
    and inspect_present: "good k \<Longrightarrow> content b k = Some ob \<Longrightarrow> e = [] \<or> e = snd ob \<Longrightarrow> int (length (fst ob)) \<le> limit \<Longrightarrow>
      \<exists>p. bl_inspect ops k e limit b = Ok p"
    and open_present: "good k \<Longrightarrow> content b k = Some ob \<Longrightarrow> e = [] \<or> e = snd ob \<Longrightarrow> br_offset r = 0 \<Longrightarrow> 0 \<le> br_count r \<Longrightarrow>
      \<exists>d. bl_open ops k r e b = Ok d"
    and commit_present: "good s \<Longrightarrow> good f \<Longrightarrow> s \<noteq> f \<Longrightarrow> content b s = Some ob \<Longrightarrow> content b f = None \<Longrightarrow>
      \<exists>p b'. bl_commit ops s f b = (Ok p, b')"
    and delete_present: "good k \<Longrightarrow> \<exists>b'. bl_delete ops k b = (None, b')"
begin

lemma inspected:
  assumes "good k" "content b k = Some ob" "e = [] \<or> e = snd ob" "int (length (fst ob)) \<le> limit"
  obtains p where "bl_inspect ops k e limit b = Ok p" "describes digest p ob"
  using inspect_present [OF assms] inspect_Ok [OF assms(1)] assms(2) by fastforce

lemma opened:
  assumes "good k" "content b k = Some ob" "e = [] \<or> e = snd ob" "br_offset r = 0" "0 \<le> br_count r"
  obtains d where "bl_open ops k r e b = Ok d" "bd_body d = (if 0 < br_count r then take (nat (br_count r)) (fst ob) else fst ob)"
  using open_present [OF assms] open_Ok [OF assms(1)] assms(2,4) by fastforce

lemma looked_up:
  assumes "good k"
  obtains (missing) "content b k = None" "bl_properties ops k b = Err ErrNotFound"
  | (present) ob m where "content b k = Some ob" "bl_properties ops k b = Ok m" "bm_size m = int (length (fst ob))" "bm_etag m = snd ob"
proof (cases "content b k")
  case None
  then show thesis using properties_missing [OF assms] missing by blast
next
  case (Some ob)
  then obtain m where "bl_properties ops k b = Ok m" using properties_present [OF assms] by blast
  then show thesis using properties_Ok [OF assms] Some present by fastforce
qed

end

section \<open>Numbers as text\<close>

text \<open>\<open>strconv.FormatInt\<close> in base ten, \<open>strconv.ParseInt\<close>, and the verb \<open>%x\<close> on a nonnegative number.\<close>

fun dec_nat :: "nat \<Rightarrow> string" where
  "dec_nat n = (if n < 10 then [char_of (48 + n)] else dec_nat (n div 10) @ [char_of (48 + n mod 10)])"

declare dec_nat.simps [simp del]

definition FormatInt :: "int \<Rightarrow> string" where
  "FormatInt n = (if n < 0 then CHR ''-'' # dec_nat (nat (- n)) else dec_nat (nat n))"

definition is_digit :: "char \<Rightarrow> bool" where
  "is_digit c \<longleftrightarrow> 48 \<le> (of_char c :: nat) \<and> (of_char c :: nat) \<le> 57"

definition parse_nat :: "string \<Rightarrow> nat option" where
  "parse_nat s = (if s = [] \<or> \<not> list_all is_digit s then None else Some (foldl (\<lambda>n c. 10 * n + (of_char c - 48)) 0 s))"

definition ParseInt :: "string \<Rightarrow> int option" where
  "ParseInt s =
     (case s of [] \<Rightarrow> None
      | c # r \<Rightarrow>
        let v = (if c = CHR ''-'' then map_option (\<lambda>n. - int n) (parse_nat r)
                 else if c = CHR ''+'' then map_option int (parse_nat r) else map_option int (parse_nat s))
        in case v of None \<Rightarrow> None | Some n \<Rightarrow> if - (2 ^ 63) \<le> n \<and> n < 2 ^ 63 then Some n else None)"

fun hex_nat :: "nat \<Rightarrow> string" where
  "hex_nat n = (if n < 16 then [hex_digit n] else hex_nat (n div 16) @ [hex_digit (n mod 16)])"

declare hex_nat.simps [simp del]

lemma dec_nat_digits: "list_all is_digit (dec_nat n) \<and> dec_nat n \<noteq> []"
proof (induction n rule: dec_nat.induct)
  case (1 n)
  have "is_digit (char_of (48 + m))" if "m < 10" for m :: nat
    using that by (simp add: is_digit_def)
  then show ?case using 1 by (subst (1 2) dec_nat.simps) simp
qed

lemma parse_dec_nat: "parse_nat (dec_nat n) = Some n"
proof -
  have "foldl (\<lambda>n c. 10 * n + (of_char c - 48)) 0 (dec_nat n) = n"
  proof (induction n rule: dec_nat.induct)
    case (1 n)
    then show ?case by (subst dec_nat.simps) simp
  qed
  then show ?thesis using dec_nat_digits by (simp add: parse_nat_def)
qed

lemma ParseInt_FormatInt [simp]:
  assumes "- (2 ^ 63) \<le> n" "n < 2 ^ 63"
  shows "ParseInt (FormatInt n) = Some n"
proof -
  show ?thesis
  proof (cases "n < 0")
    case True
    then show ?thesis using assms parse_dec_nat [of "nat (- n)"] by (simp add: ParseInt_def FormatInt_def)
  next
    case False
    obtain c r where s: "dec_nat (nat n) = c # r" "is_digit c"
      using dec_nat_digits [of "nat n"] by (cases "dec_nat (nat n)") auto
    then have "c \<noteq> CHR ''-''" "c \<noteq> CHR ''+''" by (auto simp: is_digit_def)
    then show ?thesis using False assms s parse_dec_nat [of "nat n"] by (simp add: ParseInt_def FormatInt_def)
  qed
qed

section \<open>The local store\<close>

record local_file =
  lf_bytes :: string
  lf_mtime :: int

type_synonym local_files = "string \<rightharpoonup> local_file"

text \<open>
  \<open>safePath\<close>: the clean form of a key, refused where it is the root itself, absolute or leaves the
  root; \<open>filepath.Rel\<close> of the joined path is the clean key again.
\<close>

definition safePath :: "string \<Rightarrow> string result" where
  "safePath key = (let clean = path_Clean key in
     if clean = ''.'' \<or> hd clean = CHR ''/'' \<or> take 2 clean = ''..'' then Err ErrInvalidInput else Ok clean)"

definition file_etag :: "local_file \<Rightarrow> string" where
  "file_etag f = hex_nat (length (lf_bytes f)) @ ''-'' @ hex_nat (nat (lf_mtime f))"

definition ends_pdf :: "string \<Rightarrow> bool" where
  "ends_pdf p \<longleftrightarrow> length p \<ge> 4 \<and> map (\<lambda>c. let n = of_char c :: nat in if 65 \<le> n \<and> n \<le> 90 then char_of (n + 32) else c)
      (drop (length p - 4) p) = ''.pdf''"

definition mimeFromExtension :: "string \<Rightarrow> string" where
  "mimeFromExtension p = (if ends_pdf p then ''application/pdf'' else ''application/octet-stream'')"

text \<open>The digest and \<open>http.DetectContentType\<close> of the standard library are arguments.\<close>

record local_env =
  le_digest :: "string \<Rightarrow> string"
  le_detect :: "string \<Rightarrow> string"
  le_sign :: "string \<Rightarrow> string"
  le_base_url :: string

definition Local_InspectProperties :: "string \<Rightarrow> local_files \<Rightarrow> blob_metadata result" where
  "Local_InspectProperties key fs = (case safePath key of
     Inl e \<Rightarrow> Err ErrNotFound
   | Inr p \<Rightarrow> (case fs p of
       None \<Rightarrow> Err ErrNotFound
     | Some f \<Rightarrow> Ok \<lparr>bm_size = int (length (lf_bytes f)), bm_mime = mimeFromExtension p, bm_etag = file_etag f,
                     bm_modified = lf_mtime f\<rparr>))"

definition detected_mime :: "local_env \<Rightarrow> string \<Rightarrow> string" where
  "detected_mime le bytes = (if take 5 bytes = ''%PDF-'' then ''application/pdf'' else le_detect le (take 512 bytes))"

definition Local_Inspect :: "local_env \<Rightarrow> string \<Rightarrow> string \<Rightarrow> int \<Rightarrow> local_files \<Rightarrow> blob_properties result" where
  "Local_Inspect le key expectedETag maxSize fs =
     bindR (Local_InspectProperties key fs) (\<lambda>m.
       if (expectedETag \<noteq> [] \<and> bm_etag m \<noteq> expectedETag) \<or> (maxSize > 0 \<and> bm_size m > maxSize) then Err ErrInvalidUpload
       else case safePath key of
         Inl e \<Rightarrow> Err ErrNotFound
       | Inr p \<Rightarrow> (case fs p of
           None \<Rightarrow> Err ErrNotFound
         | Some f \<Rightarrow> Ok \<lparr>bp_size = int (length (lf_bytes f)), bp_mime = detected_mime le (lf_bytes f),
                         bp_checksum = le_digest le (lf_bytes f), bp_etag = file_etag f\<rparr>))"

text \<open>A hard link and the removal of the staging name; the link keeps the modification time.\<close>

definition Local_Commit :: "local_env \<Rightarrow> string \<Rightarrow> string \<Rightarrow> local_files \<Rightarrow> blob_properties result \<times> local_files" where
  "Local_Commit le staging final fs =
     (case (safePath staging, safePath final) of
        (Inl e, _) \<Rightarrow> (Err e, fs)
      | (Inr s, Inl e) \<Rightarrow> (Err e, fs)
      | (Inr s, Inr f) \<Rightarrow>
          (case fs s of
             None \<Rightarrow> (case Local_Inspect le final [] 0 fs of
                Inr p \<Rightarrow> (Ok p, fs)
              | Inl e \<Rightarrow> (Err ErrNotFound, fs))
           | Some file \<Rightarrow>
               if fs f \<noteq> None then (Err ErrConflict, fs)
               else let fs' = (fs(f \<mapsto> file))(s := None) in (Local_Inspect le final [] 0 fs', fs')))"

definition Local_Open :: "string \<Rightarrow> byte_range \<Rightarrow> string \<Rightarrow> local_files \<Rightarrow> blob_download result" where
  "Local_Open key r expectedETag fs = (case safePath key of
     Inl e \<Rightarrow> Err ErrNotFound
   | Inr p \<Rightarrow> (case fs p of
       None \<Rightarrow> Err ErrNotFound
     | Some f \<Rightarrow>
         let n = int (length (lf_bytes f));
             out = (\<lambda>body k. Ok \<lparr>bd_body = body, bd_size = k, bd_total = n, bd_mime = mimeFromExtension p,
                      bd_etag = file_etag f, bd_modified = lf_mtime f, bd_cache = []\<rparr>)
         in if expectedETag \<noteq> [] \<and> expectedETag \<noteq> file_etag f then Err ErrInvalidUpload
            else if br_offset r > 0 \<or> br_count r > 0 then
              (let count = (if br_count r \<le> 0 \<or> br_offset r + br_count r > n then n - br_offset r else br_count r)
               in if br_offset r < 0 \<or> count < 0 then Err ErrInvalidInput
                  else out (take (nat count) (drop (nat (br_offset r)) (lf_bytes f))) count)
            else out (lf_bytes f) n))"

definition Local_Delete :: "string \<Rightarrow> local_files \<Rightarrow> go_error option \<times> local_files" where
  "Local_Delete key fs = (case safePath key of
     Inl e \<Rightarrow> (Some e, fs)
   | Inr p \<Rightarrow> (None, fs(p := None)))"

text \<open>
  \<open>put\<close>: the reader is its bytes, which are read up to one more than the announced size; \<open>Rename\<close>
  replaces an existing file, \<open>Link\<close> does not.
\<close>

definition Local_put :: "local_env \<Rightarrow> string \<Rightarrow> string \<Rightarrow> int \<Rightarrow> bool \<Rightarrow> time \<Rightarrow> local_files \<Rightarrow> blob_properties result \<times> local_files" where
  "Local_put le key bytes n once mtime fs = (case safePath key of
     Inl e \<Rightarrow> (Err e, fs)
   | Inr p \<Rightarrow>
       let written = take (nat (n + 1)) bytes in
       if int (length written) \<noteq> n then (Err ErrInvalidUpload, fs)
       else if once \<and> fs p \<noteq> None then (Err ErrConflict, fs)
       else let fs' = fs(p \<mapsto> \<lparr>lf_bytes = written, lf_mtime = mtime\<rparr>) in (Local_Inspect le key [] 0 fs', fs'))"

definition Local_Put :: "local_env \<Rightarrow> string \<Rightarrow> string \<Rightarrow> int \<Rightarrow> time \<Rightarrow> local_files \<Rightarrow> blob_properties result \<times> local_files" where
  "Local_Put le key bytes n mtime = Local_put le key bytes n False mtime"

definition Local_PutOnce :: "local_env \<Rightarrow> string \<Rightarrow> string \<Rightarrow> int \<Rightarrow> time \<Rightarrow> local_files \<Rightarrow> blob_properties result \<times> local_files" where
  "Local_PutOnce le key bytes n mtime = Local_put le key bytes n True mtime"

section \<open>Upload targets\<close>

text \<open>A clock value is nanoseconds; \<open>Unix\<close> and \<open>time.Unix\<close> convert it to and from seconds.\<close>

definition unix_offset :: int where "unix_offset = 62135596800"

definition Unix :: "time \<Rightarrow> int" where "Unix t = t div second - unix_offset"

definition of_unix :: "int \<Rightarrow> time" where "of_unix n = (n + unix_offset) * second"

record put_request =
  pu_token :: string
  pu_expires :: string
  pu_max :: string
  pu_signature :: string
  pu_body :: string

definition upload_signature :: "local_env \<Rightarrow> string \<Rightarrow> string \<Rightarrow> string \<Rightarrow> string" where
  "upload_signature le token expires limit = le_sign le (token @ ''.'' @ expires @ ''.'' @ limit)"

text \<open>\<open>url.QueryEscape\<close> of the signature, which is base64 text, is the identity.\<close>

definition Local_CreateUploadTarget :: "local_env \<Rightarrow> string \<Rightarrow> int \<Rightarrow> time \<Rightarrow> upload_target result" where
  "Local_CreateUploadTarget le key maxSize expiresAt =
     (let token = RawURLEncode key; expires = FormatInt (Unix expiresAt); limit = FormatInt maxSize;
          signature = upload_signature le token expires limit
      in Ok \<lparr>ut_url = le_base_url le @ ''/'' @ token @ ''?expires='' @ expires @ ''&max='' @ limit @ ''&signature='' @ signature,
             ut_method = ''PUT'', ut_headers = [(''Content-Type'', ''application/octet-stream'')], ut_expires = expiresAt\<rparr>)"

text \<open>\<open>PutHandler\<close>: the status code and the files afterwards.\<close>

definition PutHandler :: "local_env \<Rightarrow> put_request \<Rightarrow> time \<Rightarrow> local_files \<Rightarrow> nat \<times> local_files" where
  "PutHandler le q now fs =
     (if pu_signature q \<noteq> upload_signature le (pu_token q) (pu_expires q) (pu_max q) then (403, fs)
      else case ParseInt (pu_expires q) of
        None \<Rightarrow> (410, fs)
      | Some e \<Rightarrow>
        if of_unix e < now then (410, fs)
        else (case ParseInt (pu_max q) of
           None \<Rightarrow> (403, fs)
         | Some limit \<Rightarrow>
           if limit \<le> 0 then (403, fs)
           else (case RawURLDecode (pu_token q) of
              None \<Rightarrow> (403, fs)
            | Some key \<Rightarrow>
              (case safePath key of
                 Inl x \<Rightarrow> (403, fs)
               | Inr p \<Rightarrow>
                 if int (length (pu_body q)) > limit \<or> pu_body q = [] then (400, fs)
                 else if fs p \<noteq> None then (409, fs)
                 else (201, fs(p \<mapsto> \<lparr>lf_bytes = pu_body q, lf_mtime = now\<rparr>))))))"

section \<open>The local store provides the interface\<close>

definition local_ops :: "local_env \<Rightarrow> local_files blob_ops" where
  "local_ops le = \<lparr>bl_target = Local_CreateUploadTarget le, bl_properties = Local_InspectProperties,
     bl_inspect = Local_Inspect le, bl_commit = Local_Commit le, bl_open = Local_Open, bl_delete = Local_Delete\<rparr>"

definition local_content :: "local_files \<Rightarrow> string \<Rightarrow> object option" where
  "local_content fs k = map_option (\<lambda>f. (lf_bytes f, file_etag f)) (fs k)"

definition plain_key :: "string \<Rightarrow> bool" where
  "plain_key k \<longleftrightarrow> safePath k = Ok k"

lemma local_content_simps [simp]:
  "local_content fs k = None \<longleftrightarrow> fs k = None"
  "local_content fs k = Some ob \<longleftrightarrow> (\<exists>f. fs k = Some f \<and> ob = (lf_bytes f, file_etag f))"
  by (auto simp: local_content_def)

lemma inspect_plain:
  assumes "plain_key k"
  shows "Local_Inspect le k e limit fs = (case fs k of None \<Rightarrow> Err ErrNotFound
     | Some f \<Rightarrow> if (e \<noteq> [] \<and> file_etag f \<noteq> e) \<or> (limit > 0 \<and> int (length (lf_bytes f)) > limit) then Err ErrInvalidUpload
         else Ok \<lparr>bp_size = int (length (lf_bytes f)), bp_mime = detected_mime le (lf_bytes f),
                  bp_checksum = le_digest le (lf_bytes f), bp_etag = file_etag f\<rparr>)"
  using assms by (simp add: Local_Inspect_def Local_InspectProperties_def plain_key_def split: option.split)

lemma commit_plain:
  assumes "plain_key s" "plain_key f"
  shows "Local_Commit le s f fs = (case fs s of
      None \<Rightarrow> (case Local_Inspect le f [] 0 fs of Inr p \<Rightarrow> (Ok p, fs) | Inl e \<Rightarrow> (Err ErrNotFound, fs))
    | Some file \<Rightarrow> if fs f \<noteq> None then (Err ErrConflict, fs)
        else let fs' = (fs(f \<mapsto> file))(s := None) in (Local_Inspect le f [] 0 fs', fs'))"
  using assms by (simp add: Local_Commit_def plain_key_def)

interpretation local_store: blob_store "local_ops le" local_content "le_digest le" plain_key for le
proof (unfold_locales, goal_cases)
  case (1 k b m) then show ?case
    by (auto simp: local_ops_def Local_InspectProperties_def plain_key_def split: option.splits)
next
  case (2 k b) then show ?case
    by (auto simp: local_ops_def Local_InspectProperties_def plain_key_def split: option.splits)
next
  case (3 k e limit b p) then show ?case
    by (auto simp: local_ops_def inspect_plain describes_def split: option.splits if_splits)
next
  case (4 k r e b d)
  then obtain f where f: "b k = Some f" "Local_Open k r e b = Ok d"
    by (auto simp: local_ops_def Local_Open_def plain_key_def split: option.splits)
  then show ?case using 4(1)
    by (auto simp: Local_Open_def plain_key_def Let_def split: if_splits)
next
  case (5 s f b p b') then show ?case
    by (auto simp: local_ops_def commit_plain inspect_plain Let_def describes_def local_content_def [of _ k for k]
      simp del: local_content_simps split: option.splits if_splits sum.splits)
next
  case (6 s f b x b' k) then show ?case
    by (auto simp: local_ops_def commit_plain inspect_plain Let_def split: option.splits if_splits sum.splits)
next
  case (7 k b b' j) then show ?case
    by (auto simp: local_ops_def Local_Delete_def plain_key_def local_content_def split: if_splits)
next
  case (8 k b x b' j) then show ?case
    by (auto simp: local_ops_def Local_Delete_def plain_key_def)
qed

interpretation local_answers: answering_store "local_ops le" local_content "le_digest le" plain_key for le
proof (unfold_locales, goal_cases)
  case (1 k b ob) then show ?case by (auto simp: local_ops_def Local_InspectProperties_def plain_key_def)
next
  case (2 k b ob e limit) then show ?case by (auto simp: local_ops_def inspect_plain)
next
  case (3 k b ob e r) then show ?case by (auto simp: local_ops_def Local_Open_def plain_key_def Let_def)
next
  case (4 s f b ob) then show ?case by (auto simp: local_ops_def commit_plain inspect_plain Let_def)
next
  case (5 k b) then show ?case by (auto simp: local_ops_def Local_Delete_def plain_key_def)
qed

section \<open>Keys stay below the root\<close>

definition proper_element :: "string \<Rightarrow> bool" where
  "proper_element e \<longleftrightarrow> e \<noteq> [] \<and> e \<noteq> ''.'' \<and> e \<noteq> ''..'' \<and> CHR ''/'' \<notin> set e"

definition climbs :: "string list \<Rightarrow> bool" where
  "climbs stack \<longleftrightarrow> (\<exists>n ps. stack = ps @ replicate n ''..'' \<and> list_all proper_element ps)"

lemma split_on_nonempty [simp]: "split_on c p \<noteq> []"
  by (induction p) (auto split: list.splits)

lemma split_on_free: "e \<in> set (split_on c p) \<Longrightarrow> c \<notin> set e"
proof (induction p arbitrary: e)
  case (Cons x p) then show ?case by (cases "split_on c p") (auto split: if_splits)
qed simp

lemma split_on_append: "c \<notin> set e \<Longrightarrow> split_on c (e @ c # r) = e # split_on c r"
  by (induction e) auto

lemma split_on_free_id: "c \<notin> set e \<Longrightarrow> split_on c e = [e]"
  by (induction e) auto

lemma split_join: "es \<noteq> [] \<Longrightarrow> \<forall>e\<in>set es. c \<notin> set e \<Longrightarrow> split_on c (join_with [c] es) = es"
  by (induction "[c]" es rule: join_with.induct) (simp_all add: split_on_append split_on_free_id)

lemma clean_step_climbs:
  assumes "climbs stack" "CHR ''/'' \<notin> set e"
  shows "climbs (clean_step False e stack)"
proof -
  obtain n ps where s: "stack = ps @ replicate n ''..''" "list_all proper_element ps" using assms(1) by (auto simp: climbs_def)
  show ?thesis
  proof (cases "e = [] \<or> e = ''.'' \<or> e = ''..''")
    case False
    then have "list_all proper_element (e # ps)" using s(2) assms(2) by (simp add: proper_element_def)
    then show ?thesis using s(1) False unfolding climbs_def clean_step_def by (intro exI [of _ n] exI [of _ "e # ps"]) simp
  next
    case e: True
    show ?thesis
    proof (cases ps)
      case Nil
      then have "clean_step False e stack \<in> {replicate n ''..'', replicate (Suc n) ''..''}"
        using s(1) e by (cases n) (auto simp: clean_step_def)
      then show ?thesis unfolding climbs_def by (metis append_Nil insertE list.pred_inject(1) singletonD)
    next
      case (Cons p qs)
      then have "clean_step False e stack = stack \<or> clean_step False e stack = qs @ replicate n ''..''" "list_all proper_element qs"
        using s e by (auto simp: clean_step_def proper_element_def)
      then show ?thesis using assms(1) unfolding climbs_def by metis
    qed
  qed
qed

lemma fold_clean_climbs: "climbs stack \<Longrightarrow> \<forall>e\<in>set es. CHR ''/'' \<notin> set e \<Longrightarrow> climbs (fold (clean_step False) es stack)"
  by (induction es arbitrary: stack) (auto simp: clean_step_climbs)

lemma fold_clean_proper: "list_all proper_element es \<Longrightarrow> fold (clean_step r) es stack = rev es @ stack"
  by (induction es arbitrary: stack) (auto simp: clean_step_def proper_element_def)

lemma join_first: "\<exists>r. join_with sep (e # es) = e @ r"
  by (cases es) auto

lemma join_proper_nonempty:
  assumes "es \<noteq> []" "list_all proper_element es"
  shows "join_with sep es \<noteq> [] \<and> hd (join_with sep es) \<noteq> CHR ''/''"
proof -
  obtain e fs where es: "es = e # fs" using assms(1) by (cases es) auto
  then obtain r where "join_with sep es = e @ r" using join_first by metis
  moreover have "e \<noteq> []" "hd e \<noteq> CHR ''/''" using assms(2) es by (auto simp: proper_element_def dest: hd_in_set)
  ultimately show ?thesis by (simp add: es)
qed

lemma path_Clean_proper:
  assumes "es \<noteq> []" "list_all proper_element es"
  shows "path_Clean (join_with ''/'' es) = join_with ''/'' es"
proof -
  have "split_on (CHR ''/'') (join_with ''/'' es) = es"
    using assms by (intro split_join) (auto simp: list_all_iff proper_element_def)
  then show ?thesis using join_proper_nonempty [OF assms, of "''/''"]
    by (simp add: path_Clean_def Let_def fold_clean_proper [OF assms(2)])
qed

lemma safePath_elements:
  assumes "safePath key = Ok p"
  obtains es where "es \<noteq> []" "list_all proper_element es" "p = join_with ''/'' es" "take 2 p \<noteq> ''..''"
proof -
  have p: "p = path_Clean key" "p \<noteq> ''.''" "hd p \<noteq> CHR ''/''" "take 2 p \<noteq> ''..''"
    using assms by (auto simp: safePath_def Let_def split: if_splits)
  moreover have "path_Clean [] = ''.''" by (simp add: path_Clean_def)
  moreover have "key \<noteq> [] \<Longrightarrow> hd key = CHR ''/'' \<Longrightarrow> hd (path_Clean key) = CHR ''/''" by (simp add: path_Clean_def Let_def)
  ultimately have key: "key \<noteq> []" "hd key \<noteq> CHR ''/''" by auto
  define stack where "stack = fold (clean_step False) (split_on (CHR ''/'') key) []"
  have "climbs []" by (simp add: climbs_def)
  then have "climbs stack" unfolding stack_def by (rule fold_clean_climbs) (simp add: split_on_free)
  then obtain n ps where s: "stack = ps @ replicate n ''..''" "list_all proper_element ps" by (auto simp: climbs_def)
  have out: "p = (if join_with ''/'' (rev stack) = [] then ''.'' else join_with ''/'' (rev stack))"
    using p(1) key by (simp add: path_Clean_def Let_def stack_def)
  have n: "n = 0"
  proof (rule ccontr)
    assume "n \<noteq> 0"
    then have "replicate n ''..'' = ''..'' # replicate (n - 1) ''..''" by (cases n) auto
    moreover have "rev stack = replicate n ''..'' @ rev ps" using s(1) by simp
    ultimately obtain r where "rev stack = ''..'' # r" by (metis append_Cons)
    then obtain t where "join_with ''/'' (rev stack) = ''..'' @ t" using join_first by metis
    then show False using out p(4) by simp
  qed
  then have "p = join_with ''/'' (rev ps)" "ps \<noteq> []" using out p(2) s(1) by (auto split: if_splits)
  then show thesis using that [of "rev ps"] s(2) p(4) by simp
qed

lemma plain_keyI:
  assumes "es \<noteq> []" "list_all proper_element es" "take 2 (join_with ''/'' es) \<noteq> ''..''"
  shows "plain_key (join_with ''/'' es)"
proof -
  have "join_with ''/'' es \<noteq> ''.''"
  proof
    assume d: "join_with ''/'' es = ''.''"
    have "split_on (CHR ''/'') (join_with ''/'' es) = es"
      using assms by (intro split_join) (auto simp: list_all_iff proper_element_def)
    then show False using assms(2) by (simp add: d proper_element_def) (auto simp: proper_element_def)
  qed
  then show ?thesis using assms(3) join_proper_nonempty [OF assms(1,2), of "''/''"]
    by (simp add: plain_key_def safePath_def path_Clean_proper [OF assms(1,2)] Let_def)
qed

text \<open>
  C20.  Whatever text a key is, the local store either refuses it or maps it to a path whose elements
  are all proper names: no empty element, no \<open>"."\<close>, no \<open>".."\<close> and no leading slash, so that the
  file lies below the root of the store; resolving that path again leads to the same file.
\<close>
theorem safe_path_confined:
  assumes "safePath key = Ok p"
  shows "list_all proper_element (split_on (CHR ''/'') p) \<and> safePath p = Ok p"
proof -
  obtain es where es: "es \<noteq> []" "list_all proper_element es" "p = join_with ''/'' es" "take 2 p \<noteq> ''..''"
    using safePath_elements [OF assms] .
  have "split_on (CHR ''/'') p = es"
    unfolding es(3) using es(1,2) by (intro split_join) (auto simp: list_all_iff proper_element_def)
  then show ?thesis using es plain_keyI [OF es(1,2)] by (simp add: plain_key_def)
qed

lemma safe_path_confined_witness:
  "safePath ''prod/../test//a/./original'' = Ok ''test/a/original'' \<and> list_all proper_element (split_on (CHR ''/'') ''test/a/original'')"
proof -
  have "safePath ''prod/../test//a/./original'' = Ok ''test/a/original''" by (simp add: safePath_def path_Clean_def clean_step_def)
  then show ?thesis using safe_path_confined by blast
qed

section \<open>An upload target\<close>

text \<open>The URL that carries the fields of a request; a query value ends at the next ampersand.\<close>

definition request_url :: "string \<Rightarrow> put_request \<Rightarrow> string" where
  "request_url base q = base @ ''/'' @ pu_token q @ ''?expires='' @ pu_expires q @ ''&max='' @ pu_max q @ ''&signature='' @ pu_signature q"

definition query_text :: "string \<Rightarrow> bool" where
  "query_text s \<longleftrightarrow> CHR ''?'' \<notin> set s \<and> CHR ''&'' \<notin> set s"

definition request_fields :: "put_request \<Rightarrow> bool" where
  "request_fields q \<longleftrightarrow> query_text (pu_token q) \<and> query_text (pu_expires q) \<and> query_text (pu_max q)"

lemma split_at_char: "c \<notin> set a \<Longrightarrow> c \<notin> set a' \<Longrightarrow> a @ c # r = a' @ c # r' \<longleftrightarrow> a = a' \<and> r = r'"
proof (induction a arbitrary: a')
  case Nil then show ?case by (cases a') auto
next
  case (Cons x a) then show ?case by (cases a') auto
qed

lemma dec_nat_query: "query_text (dec_nat n)"
proof -
  have "\<not> is_digit (CHR ''?'')" "\<not> is_digit (CHR ''&'')" by (simp_all add: is_digit_def)
  then show ?thesis using dec_nat_digits [of n] unfolding query_text_def list_all_iff by metis
qed

lemma FormatInt_query [simp]: "query_text (FormatInt n)"
  using dec_nat_query by (simp add: FormatInt_def query_text_def)

lemma RawURL_query [simp]: "query_text (RawURLEncode s)"
  using RawURLEncode_plain [of s] by (auto simp: query_text_def)

lemma request_url_fields:
  assumes "request_fields q" "request_fields q'" "request_url base q = request_url base q'"
  shows "pu_token q = pu_token q' \<and> pu_expires q = pu_expires q' \<and> pu_max q = pu_max q' \<and> pu_signature q = pu_signature q'"
  using assms by (simp add: request_url_def request_fields_def query_text_def split_at_char)

lemma target_request:
  assumes "Local_CreateUploadTarget le key limit expires = Ok t" "request_fields q" "request_url (le_base_url le) q = ut_url t"
  shows "pu_token q = RawURLEncode key \<and> pu_expires q = FormatInt (Unix expires) \<and> pu_max q = FormatInt limit
    \<and> pu_signature q = upload_signature le (pu_token q) (pu_expires q) (pu_max q)"
proof -
  let ?q = "\<lparr>pu_token = RawURLEncode key, pu_expires = FormatInt (Unix expires), pu_max = FormatInt limit,
    pu_signature = upload_signature le (RawURLEncode key) (FormatInt (Unix expires)) (FormatInt limit), pu_body = []\<rparr>"
  have "request_url (le_base_url le) ?q = ut_url t"
    using assms(1) by (auto simp: Local_CreateUploadTarget_def Let_def request_url_def)
  moreover have "request_fields ?q" by (simp add: request_fields_def)
  ultimately show ?thesis using request_url_fields [of q ?q "le_base_url le"] assms(2,3) by simp
qed

lemma PutHandler_target:
  assumes "pu_token q = RawURLEncode key" "pu_expires q = FormatInt (Unix expires)" "pu_max q = FormatInt limit"
    and "pu_signature q = upload_signature le (pu_token q) (pu_expires q) (pu_max q)"
    and "safePath key = Ok p" "0 < limit" "limit < 2 ^ 63" "\<bar>Unix expires\<bar> < 2 ^ 63"
  shows "PutHandler le q now fs =
    (if of_unix (Unix expires) < now then (410, fs)
     else if int (length (pu_body q)) > limit \<or> pu_body q = [] then (400, fs)
     else if fs p \<noteq> None then (409, fs)
     else (201, fs(p \<mapsto> \<lparr>lf_bytes = pu_body q, lf_mtime = now\<rparr>)))"
  using assms by (simp add: PutHandler_def ParseInt_FormatInt)


definition demo_local :: local_env where
  "demo_local = \<lparr>le_digest = hex_encode, le_detect = (\<lambda>b. ''text/plain''), le_sign = RawURLEncode, le_base_url = ''http://x''\<rparr>"

definition demo_put :: put_request where
  "demo_put = \<lparr>pu_token = RawURLEncode ''a/b'', pu_expires = FormatInt 600, pu_max = FormatInt 10,
     pu_signature = upload_signature demo_local (RawURLEncode ''a/b'') (FormatInt 600) (FormatInt 10), pu_body = ''hi''\<rparr>"


end
