(* ===== verification/Media_Validation.thy ===== *)
theory Media_Validation
  imports Encoding Paths Domain
begin

text \<open>
  \<open>internal/assets/media_validation.go\<close>: whether the bytes of an upload are what its MIME type says.
  The header is the first bytes of the content, at most 512; the content itself is there only for
  the types that \<open>requiresContentReader\<close> names.  The token stream of \<open>encoding/json\<close> and the file
  names of \<open>archive/zip\<close> are arguments.  A cancelled context, which ends a validation with its own
  error, is not modelled.
\<close>

section \<open>Parsers of the standard library\<close>

text \<open>A JSON text yields tokens, of which the delimiters matter, and then its end or an error.\<close>

datatype json_token = Delim char | JsonValue

record parsers =
  ps_json :: "string \<Rightarrow> json_token list \<times> bool"
  ps_zip :: "string \<Rightarrow> string list option"

definition to_lower_char :: "char \<Rightarrow> char" where
  "to_lower_char c = (let n = of_char c :: nat in if 65 \<le> n \<and> n \<le> 90 then char_of (n + 32) else c)"

text \<open>The case of ASCII letters; a digest is hexadecimal, which no other letter folds to.\<close>

definition ToLower :: "string \<Rightarrow> string" where
  "ToLower s = map to_lower_char s"

definition EqualFold :: "string \<Rightarrow> string \<Rightarrow> bool" where
  "EqualFold s t \<longleftrightarrow> ToLower s = ToLower t"

text \<open>\<open>path.Ext\<close>: from the last dot of the last path element.\<close>

definition path_Ext :: "string \<Rightarrow> string" where
  "path_Ext p = (let plain = (\<lambda>c. c \<noteq> CHR ''/'' \<and> c \<noteq> CHR ''.'') in
     case dropWhile plain (rev p) of
       c # _ \<Rightarrow> if c = CHR ''.'' then CHR ''.'' # rev (takeWhile plain (rev p)) else []
     | [] \<Rightarrow> [])"

fun contains :: "string \<Rightarrow> string \<Rightarrow> bool" where
  "contains s t = (take (length t) s = t \<or> (case s of [] \<Rightarrow> False | _ # s' \<Rightarrow> contains s' t))"

definition has_prefix :: "string \<Rightarrow> string \<Rightarrow> bool" where
  "has_prefix s t \<longleftrightarrow> take (length t) s = t"

definition slice :: "string \<Rightarrow> nat \<Rightarrow> nat \<Rightarrow> string" where
  "slice s i j = take (j - i) (drop i s)"

definition byte :: "string \<Rightarrow> nat \<Rightarrow> nat" where
  "byte s i = of_char (s ! i)"

definition bytes :: "nat list \<Rightarrow> string" where
  "bytes ns = map char_of ns"

fun big_endian :: "string \<Rightarrow> nat" where
  "big_endian s = foldl (\<lambda>n c. 256 * n + of_char c) 0 s"

section \<open>Extensions\<close>

definition mediaExtensions :: "(string \<times> string list) list" where
  "mediaExtensions =
    [(''image/jpeg'', [''.jpg'', ''.jpeg'']), (''image/png'', [''.png'']), (''image/gif'', [''.gif'']),
     (''image/webp'', [''.webp'']), (''image/bmp'', [''.bmp'']), (''video/mp4'', [''.mp4'']),
     (''video/quicktime'', [''.mov'']), (''video/webm'', [''.webm'']), (''video/ogg'', [''.ogv'']),
     (''video/x-msvideo'', [''.avi'']), (''video/x-matroska'', [''.mkv'']), (''video/x-ms-wmv'', [''.wmv'']),
     (''audio/mpeg'', [''.mp3'']), (''audio/wav'', [''.wav'']), (''audio/mp4'', [''.m4a'']),
     (''audio/aac'', [''.aac'']), (''audio/ogg'', [''.ogg'']), (''application/pdf'', [''.pdf'']),
     (''application/vnd.openxmlformats-officedocument.presentationml.presentation'', [''.pptx'']),
     (''application/vnd.hhc.presenter+json'', [''.lpdeck'']),
     (''application/vnd.ms-powerpoint'', [''.ppt'']),
     (''application/vnd.apple.keynote'', [''.key'']),
     (''application/vnd.oasis.opendocument.presentation'', [''.odp'']),
     (''application/msword'', [''.doc'']),
     (''application/vnd.openxmlformats-officedocument.wordprocessingml.document'', [''.docx'']),
     (''application/vnd.ms-excel'', [''.xls'']),
     (''application/vnd.openxmlformats-officedocument.spreadsheetml.sheet'', [''.xlsx'']),
     (''application/zip'', [''.zip'']), (''text/plain'', [''.txt'']), (''text/markdown'', [''.md'', ''.markdown''])]"

definition extensionAllowed :: "string \<Rightarrow> string \<Rightarrow> bool" where
  "extensionAllowed fileName mime =
     (let ext = map to_lower_char (path_Ext (TrimSpace fileName))
      in case map_of mediaExtensions mime of None \<Rightarrow> False | Some exts \<Rightarrow> ext \<in> set exts)"

section \<open>Containers\<close>

text \<open>The major brand of an \<open>ftyp\<close> box and, after its version, the compatible brands.\<close>

definition ftyp_brands :: "string \<Rightarrow> nat \<Rightarrow> string list" where
  "ftyp_brands header stop = map (\<lambda>o'. slice header o' (o' + 4))
     (filter (\<lambda>o'. o' \<noteq> 12) (map (\<lambda>k. 8 + 4 * k) [0 ..< (stop - 8) div 4]))"

definition bmffHasBrand :: "string \<Rightarrow> string list \<Rightarrow> bool" where
  "bmffHasBrand header allowed =
     (if length header < 16 \<or> slice header 4 8 \<noteq> ''ftyp'' then False
      else let stop = big_endian (take 4 header)
           in if stop < 16 \<or> stop > length header \<or> stop mod 4 \<noteq> 0 then False
              else list_ex (\<lambda>b. b \<in> set allowed) (ftyp_brands header stop))"

definition bmffHasHEIFBrand :: "string \<Rightarrow> bool" where
  "bmffHasHEIFBrand header = bmffHasBrand header
     [''heic'', ''heix'', ''hevc'', ''hevx'', ''heim'', ''heis'', ''mif1'', ''msf1'', ''avif'', ''avis'']"

text \<open>\<open>ReadAt\<close> of a file: the bytes, or an error where there are too few.\<close>

definition read_at :: "string \<Rightarrow> nat \<Rightarrow> nat \<Rightarrow> string option" where
  "read_at content i n = (if i + n \<le> length content then Some (slice content i (i + n)) else None)"

definition track_path :: "string list" where
  "track_path = [''moov'', ''trak'', ''mdia'', ''hdlr'']"

text \<open>The header of the box at an offset: its type, the offset of its body and its end.\<close>

definition box_at :: "string \<Rightarrow> nat \<Rightarrow> nat \<Rightarrow> (string \<times> nat \<times> nat) option" where
  "box_at content off stop =
     (if stop - off < 8 then None
      else Option.bind (read_at content off 8) (\<lambda>h.
        let l = big_endian (take 4 h) in
        Option.bind
          (if l = 1 then
             (if stop - off < 16 then None
              else Option.bind (read_at content (off + 8) 8) (\<lambda>x. Some (big_endian x, 16)))
           else if l = 0 then Some (stop - off, 8) else Some (l, 8))
          (\<lambda>(len, hs). if len < hs \<or> len > stop - off then None
             else Some (slice h 4 8, off + hs, off + len))))"

text \<open>
  The closure \<open>walk\<close> of \<open>bmffHasOnlyAudioTracks\<close>: the loop over the boxes of a range at a depth of
  the path, with the flag \<open>found\<close> and the counters of boxes and tracks that the calls share.
\<close>

lemma box_at_bounds:
  assumes "box_at content off stop = Some (t, body, nxt)" "off < stop"
  shows "off < body" "body \<le> nxt" "nxt \<le> stop"
  using assms
  by (auto simp: box_at_def Let_def bind_eq_Some_conv split: if_splits prod.splits)

lemma box_at_shrinks:
  assumes "box_at content off stop = Some (t, body, nxt)" "off < stop"
  shows "stop - nxt < stop - off \<and> nxt - body < stop - off"
  using box_at_bounds [OF assms] assms(2) by auto

function walk :: "string \<Rightarrow> nat \<Rightarrow> nat \<Rightarrow> nat \<Rightarrow> bool \<Rightarrow> nat \<times> nat \<Rightarrow> bool \<times> nat \<times> nat" where
  "walk content off stop depth found (boxes, tracks) =
     (if \<not> off < stop then (found, boxes, tracks)
      else if boxes + 1 > 10000 then (False, boxes + 1, tracks)
      else case box_at content off stop of
        None \<Rightarrow> (False, boxes + 1, tracks)
      | Some (t, body, nxt) \<Rightarrow>
          if t \<noteq> track_path ! depth then walk content nxt stop depth found (boxes + 1, tracks)
          else if depth < length track_path - 1 then
            (case walk content body nxt (depth + 1) False (boxes + 1, tracks) of
               (ok, counters) \<Rightarrow> if \<not> ok then (False, counters) else walk content nxt stop depth True counters)
          else if nxt - body < 12 then (False, boxes + 1, tracks)
          else (case read_at content body 12 of
                  None \<Rightarrow> (False, boxes + 1, tracks)
                | Some h \<Rightarrow> if drop 8 h \<noteq> ''soun'' then (False, boxes + 1, tracks)
                            else walk content nxt stop depth True (boxes + 1, tracks + 1)))"
  by pat_completeness auto
termination
proof (relation "measure (\<lambda>(content, off, stop, depth, found, counters). stop - off)")
qed (auto dest: box_at_shrinks)

definition bmffHasOnlyAudioTracks :: "string option \<Rightarrow> nat \<Rightarrow> bool" where
  "bmffHasOnlyAudioTracks content n =
     (case content of None \<Rightarrow> False
      | Some c \<Rightarrow> (case walk c 0 n 0 False (0, 0) of (ok, boxes, tracks) \<Rightarrow> ok \<and> tracks > 0))"

declare walk.simps [simp del]

definition validEBML :: "string \<Rightarrow> string \<Rightarrow> bool" where
  "validEBML header docType \<longleftrightarrow> has_prefix header (bytes [0x1a, 0x45, 0xdf, 0xa3])
     \<and> contains header (bytes [0x42, 0x82, 0x80 + length docType] @ docType)"

definition validMP3Frame :: "string \<Rightarrow> bool" where
  "validMP3Frame header =
     (if length header < 4 \<or> byte header 0 \<noteq> 0xff \<or> byte header 1 div 32 \<noteq> 7 then False
      else let version = (byte header 1 div 8) mod 4; layer = (byte header 1 div 2) mod 4;
               bitrate = (byte header 2 div 16) mod 16; sampleRate = (byte header 2 div 4) mod 4
           in version \<noteq> 1 \<and> layer \<noteq> 0 \<and> bitrate \<noteq> 0 \<and> bitrate \<noteq> 15 \<and> sampleRate \<noteq> 3)"

text \<open>\<open>byte(len(docType))\<close> has its top bit clear for the two types in use, so or-ing \<open>0x80\<close> adds it.\<close>

definition trim_slash :: "string \<Rightarrow> string" where
  "trim_slash s = (case s of c # r \<Rightarrow> if c = CHR ''/'' then r else s | [] \<Rightarrow> [])"

definition validZIP :: "parsers \<Rightarrow> string option \<Rightarrow> nat \<Rightarrow> string list \<Rightarrow> bool" where
  "validZIP ps content n required =
     (case content of None \<Rightarrow> False
      | Some c \<Rightarrow> if n = 0 then False
          else (case ps_zip ps (take n c) of
                  None \<Rightarrow> False
                | Some names \<Rightarrow> length (filter (\<lambda>q. q \<in> trim_slash ` set names) (remdups required)) = length required))"

definition validZIPAny :: "parsers \<Rightarrow> string option \<Rightarrow> nat \<Rightarrow> string list \<Rightarrow> bool" where
  "validZIPAny ps content n names =
     (case content of None \<Rightarrow> False
      | Some c \<Rightarrow> if n = 0 then False
          else (case ps_zip ps (take n c) of
                  None \<Rightarrow> False
                | Some files \<Rightarrow> list_ex (\<lambda>f. list_ex (\<lambda>q. has_prefix (trim_slash f) q) names) files))"

text \<open>The loop of \<open>validJSONObject\<close>: what is left once the nesting depth is back at zero.\<close>

fun json_close :: "nat \<Rightarrow> json_token list \<Rightarrow> json_token list option" where
  "json_close 0 ts = Some ts"
| "json_close (Suc d) [] = None"
| "json_close (Suc d) (Delim c # ts) =
     json_close (if c = CHR ''{'' \<or> c = CHR ''['' then Suc (Suc d)
                 else if c = CHR ''}'' \<or> c = CHR '']'' then d else Suc d) ts"
| "json_close (Suc d) (JsonValue # ts) = json_close (Suc d) ts"

definition validJSONObject :: "parsers \<Rightarrow> string option \<Rightarrow> nat \<Rightarrow> bool" where
  "validJSONObject ps content n =
     (case content of None \<Rightarrow> False
      | Some c \<Rightarrow> if n = 0 then False
          else (case ps_json ps (take n c) of
                  (Delim d # ts, eof) \<Rightarrow> d = CHR ''{'' \<and> json_close 1 ts = Some [] \<and> eof
                | _ \<Rightarrow> False))"

section \<open>The check\<close>

definition requiresContentReader :: "string \<Rightarrow> bool" where
  "requiresContentReader mime \<longleftrightarrow> mime \<in> set [''audio/mp4'',
     ''application/vnd.openxmlformats-officedocument.presentationml.presentation'',
     ''application/vnd.openxmlformats-officedocument.wordprocessingml.document'',
     ''application/vnd.openxmlformats-officedocument.spreadsheetml.sheet'',
     ''application/vnd.apple.keynote'', ''application/vnd.oasis.opendocument.presentation'',
     ''application/zip'', ''application/vnd.hhc.presenter+json'']"

definition ole_header :: "nat list" where
  "ole_header = [0xd0, 0xcf, 0x11, 0xe0, 0xa1, 0xb1, 0x1a, 0xe1]"

definition riff :: "string \<Rightarrow> string \<Rightarrow> bool" where
  "riff header form \<longleftrightarrow> take 4 header = ''RIFF'' \<and> slice header 8 12 = form"

definition media_checks :: "parsers \<Rightarrow> string \<Rightarrow> string option \<Rightarrow> nat \<Rightarrow> (string \<times> bool) list" where
  "media_checks ps h content n =
    [(''image/jpeg'', length h \<ge> 3 \<and> take 3 h = bytes [0xff, 0xd8, 0xff]),
     (''image/png'', has_prefix h (bytes [0x89, 0x50, 0x4e, 0x47, 0x0d, 0x0a, 0x1a, 0x0a])),
     (''image/gif'', has_prefix h ''GIF87a'' \<or> has_prefix h ''GIF89a''),
     (''image/webp'', length h \<ge> 16 \<and> riff h ''WEBP'' \<and> has_prefix (drop 12 h) ''VP8''),
     (''image/bmp'', has_prefix h ''BM''),
     (''video/mp4'', bmffHasBrand h [''isom'', ''iso2'', ''mp41'', ''mp42'', ''avc1'', ''M4V '']
        \<and> \<not> bmffHasBrand h [''M4A '', ''M4B ''] \<and> \<not> bmffHasHEIFBrand h),
     (''video/quicktime'', bmffHasBrand h [''qt  '']),
     (''video/webm'', validEBML h ''webm''),
     (''video/ogg'', has_prefix h ''OggS'' \<and> contains h ''theora''),
     (''video/x-msvideo'', length h \<ge> 12 \<and> riff h ''AVI ''),
     (''video/x-matroska'', validEBML h ''matroska''),
     (''video/x-ms-wmv'', has_prefix h (bytes [0x30, 0x26, 0xb2, 0x75, 0x8e, 0x66, 0xcf, 0x11, 0xa6, 0xd9, 0x00, 0xaa,
        0x00, 0x62, 0xce, 0x6c])),
     (''audio/mpeg'', has_prefix h ''ID3'' \<or> validMP3Frame h),
     (''audio/wav'', length h \<ge> 12 \<and> riff h ''WAVE''),
     (''audio/mp4'', \<not> bmffHasHEIFBrand h \<and> (bmffHasBrand h [''M4A '', ''M4B '']
        \<or> bmffHasBrand h [''isom'', ''iso2'', ''mp41'', ''mp42''] \<and> bmffHasOnlyAudioTracks content n)),
     (''audio/aac'', has_prefix h ''ADIF'' \<or> length h \<ge> 2 \<and> byte h 0 = 0xff \<and> (byte h 1 div 16 = 15 \<and> (byte h 1 div 2) mod 4 = 0)),
     (''audio/ogg'', has_prefix h ''OggS'' \<and> (contains h ''vorbis'' \<or> contains h ''OpusHead'' \<or> contains h ''Speex'' \<or> contains h ''fLaC'')),
     (''application/pdf'', has_prefix h ''%PDF-''),
     (''application/vnd.hhc.presenter+json'', validJSONObject ps content n),
     (''application/vnd.openxmlformats-officedocument.presentationml.presentation'',
        validZIP ps content n [''[Content_Types].xml'', ''ppt/presentation.xml'']),
     (''application/vnd.openxmlformats-officedocument.wordprocessingml.document'',
        validZIP ps content n [''[Content_Types].xml'', ''word/document.xml'']),
     (''application/vnd.openxmlformats-officedocument.spreadsheetml.sheet'',
        validZIP ps content n [''[Content_Types].xml'', ''xl/workbook.xml'']),
     (''application/zip'', validZIP ps content n []),
     (''application/vnd.apple.keynote'', validZIPAny ps content n [''Index/Document.iwa'', ''index.apxl'']),
     (''application/vnd.oasis.opendocument.presentation'', validZIP ps content n [''mimetype'', ''content.xml'']),
     (''application/vnd.ms-powerpoint'', has_prefix h (bytes ole_header)),
     (''application/msword'', has_prefix h (bytes ole_header)),
     (''application/vnd.ms-excel'', has_prefix h (bytes ole_header)),
     (''text/plain'', utf8_ValidString h \<and> CHR 0x00 \<notin> set h),
     (''text/markdown'', utf8_ValidString h \<and> CHR 0x00 \<notin> set h)]"

definition ValidateMedia ::
  "parsers \<Rightarrow> string \<Rightarrow> string \<Rightarrow> string \<Rightarrow> string option \<Rightarrow> nat \<Rightarrow> string result" where
  "ValidateMedia ps fileName expectedMIME header content n =
     (if n = 0 \<or> \<not> extensionAllowed fileName expectedMIME then Err ErrInvalidUpload
      else if map_of (media_checks ps header content n) expectedMIME = Some True then Ok expectedMIME
      else Err ErrInvalidUpload)"

section \<open>What the check reads\<close>

lemma ValidateMedia_Ok:
  "ValidateMedia ps f mime h content n = Ok m \<longleftrightarrow>
     m = mime \<and> n \<noteq> 0 \<and> extensionAllowed f mime \<and> map_of (media_checks ps h content n) mime = Some True"
  by (auto simp: ValidateMedia_def)

text \<open>The types that do not ask for the content are decided by the header alone.\<close>

lemma map_of_agree:
  assumes "list_all2 (\<lambda>(i, v) (j, w). i = j \<and> (Q i \<longrightarrow> v = w)) xs ys" "Q k"
  shows "map_of xs k = map_of ys k"
  using assms by (induction xs ys rule: list_all2_induct) auto

lemma header_decides:
  assumes "\<not> requiresContentReader mime"
  shows "ValidateMedia ps f mime h content n = ValidateMedia ps f mime h content' n"
proof -
  have "list_all2 (\<lambda>(i, v) (j, w). i = j \<and> (\<not> requiresContentReader i \<longrightarrow> v = w))
     (media_checks ps h content n) (media_checks ps h content' n)"
    unfolding media_checks_def list.rel_inject list_all2_Nil split_conv
    by (intro conjI; (rule refl | rule impI, rule refl | simp add: requiresContentReader_def))
  then have "map_of (media_checks ps h content n) mime = map_of (media_checks ps h content' n) mime"
    by (rule map_of_agree) (rule assms)
  then show ?thesis by (simp add: ValidateMedia_def)
qed

section \<open>Text\<close>

lemma runes_append_ascii:
  assumes "\<forall>c\<in>set p. (of_char c :: nat) < 128"
  shows "runes (p @ q) = map (\<lambda>c. Some (of_char c)) p @ runes q"
  using assms unfolding runes_def by (induction p) (simp_all add: utf8_next_def)

lemma text_check:
  assumes "mime = ''text/plain'' \<or> mime = ''text/markdown''"
  shows "map_of (media_checks ps h content n) mime = Some (utf8_ValidString h \<and> CHR 0x00 \<notin> set h)"
  using assms by (auto simp: media_checks_def)

lemma of_char_bytes [simp]: "(\<forall>n\<in>set ns. n < 256) \<Longrightarrow> map of_char (bytes ns) = ns"
  by (induction ns) (simp_all add: bytes_def)


lemma pdf_extension: "extensionAllowed ''a.pdf'' ''application/pdf''"
proof -
  have "map to_lower_char (path_Ext (TrimSpace ''a.pdf'')) = ''.pdf''" by code_simp
  then show ?thesis by (simp add: extensionAllowed_def mediaExtensions_def)
qed

lemma pdf_check: "map_of (media_checks ps h content n) ''application/pdf'' = Some (has_prefix h ''%PDF-'')"
  by (simp add: media_checks_def)

definition demo_parsers :: parsers where
  "demo_parsers = \<lparr>ps_json = (\<lambda>s. ([Delim CHR ''{'', Delim CHR ''}''], True)), ps_zip = (\<lambda>s. Some [])\<rparr>"


end
