(* ===== verification/Scan_Worker.thy ===== *)
theory Scan_Worker
  imports Store_Scan Blob_Store Media_Validation
begin

text \<open>
  The two workers that scan uploads: the queue job of \<open>internal/scanqueue/job.go\<close> and the polling
  worker of \<open>internal/clamav/worker.go\<close>.  The scanner, the queue service, the JSON decoder and the
  deadlines of an attempt are arguments; the blob store is the record of operations of \<open>Blob_Store\<close>.
  What a job asks of the queue is logged in the order of its calls.
\<close>

section \<open>Messages and verdicts\<close>

record message =
  msg_id :: string
  msg_body :: string
  msg_dequeue :: int

datatype queue_action = Ack | Retry int | Forward string

text \<open>The outcomes of \<open>ScanFile\<close>: \<open>ErrInfected\<close>, \<open>ErrLimitExceeded\<close> and \<open>ErrEncrypted\<close> carry the name.\<close>

datatype scan_verdict = Harmless | Infected string | Oversized string | Encrypted string | Unscanned string

text \<open>
  A job with what one attempt meets: the signature or why there is none, the scanner, the answers
  of the queue, the checkpoint from which the work deadline has passed, and whether the lease itself
  has run out after the scan.
\<close>

record scan_job =
  sj_max_size :: int
  sj_max_attempts :: int
  sj_lease :: int
  sj_parsers :: parsers
  sj_digest :: "string \<Rightarrow> string"
  sj_text :: "go_error \<Rightarrow> string"
  sj_json :: "string \<Rightarrow> string + queue_event"
  sj_signature :: "string + string"
  sj_scan :: "string \<Rightarrow> scan_verdict"
  sj_queue :: "queue_action \<Rightarrow> unit result"
  sj_deadline :: "nat option"
  sj_expired :: bool

definition late :: "scan_job \<Rightarrow> nat \<Rightarrow> bool" where
  "late j n = (case sj_deadline j of None \<Rightarrow> False | Some k \<Rightarrow> k \<le> n)"

definition deadline_text :: string where "deadline_text = ''context deadline exceeded''"

section \<open>The event of a message\<close>

definition valid_event :: "string \<Rightarrow> queue_event \<Rightarrow> bool" where
  "valid_event kind e \<longleftrightarrow> qe_type e = kind \<and> qe_version e = 1 \<and> qe_event e \<noteq> [] \<and> qe_asset e \<noteq> [] \<and> qe_etag e \<noteq> []
     \<and> length (qe_event e) \<le> 200 \<and> length (qe_asset e) \<le> 200 \<and> length (qe_etag e) \<le> 200"

text \<open>The decoder refuses unknown fields and trailing content with an error text.\<close>

definition decodeEvent :: "scan_job \<Rightarrow> string \<Rightarrow> string + queue_event" where
  "decodeEvent j body =
     (case sj_json j body of
        Inl err \<Rightarrow> Inl err
      | Inr e \<Rightarrow> if valid_event ''asset.scan.requested.v1'' e then Inr e else Inl ''invalid scan event'')"

definition safeError :: "string \<Rightarrow> string" where
  "safeError v = take 500 v"

definition poisonRecord :: "scan_job \<Rightarrow> message \<Rightarrow> queue_event option \<Rightarrow> string \<Rightarrow> string \<Rightarrow> poison" where
  "poisonRecord j m event reason details =
     (let part = (\<lambda>f. case event of None \<Rightarrow> [] | Some e \<Rightarrow> f e) in
      \<lparr>po_id = msg_id m @ '':'' @ reason, po_event = part qe_event, po_asset = part qe_asset, po_etag = part qe_etag,
       po_reason = reason, po_details = details, po_dequeue = msg_dequeue m, po_source = msg_id m, po_body = sj_digest j (msg_body m)\<rparr>)"

definition job_result :: "queue_event \<Rightarrow> asset \<Rightarrow> string \<Rightarrow> scan_status \<Rightarrow> string \<Rightarrow> string \<Rightarrow> scan_result" where
  "job_result e a signature status details category =
     \<lparr>res_event = qe_event e, res_asset = a_id a, res_status = status, res_details = details, res_signature = signature,
      res_failure = category, res_etag = a_etag a, res_expected_attempt = a_scan_attempts a\<rparr>"

section \<open>Fetching the bytes\<close>

type_synonym blob_reader = "string \<Rightarrow> string \<Rightarrow> blob_download result"

text \<open>The bytes to scan, or the category and the text of the failure.\<close>

definition scan_download :: "scan_job \<Rightarrow> blob_reader \<Rightarrow> asset \<Rightarrow> (string \<times> string) + string" where
  "scan_download j open' a =
     (let n = a_size a in
      if n \<le> 0 \<or> n > sj_max_size j then Inl (''integrity'', ''asset size '' @ FormatInt n @ '' exceeds scan limit'')
      else case open' (a_object_key a) (a_etag a) of
        Inl e \<Rightarrow> Inl (''blob_unavailable'', sj_text j e)
      | Inr d \<Rightarrow>
        let file = take (nat (n + 1)) (bd_body d); header = take (nat (min n 512)) file in
        if bd_etag d \<noteq> [] \<and> bd_etag d \<noteq> a_etag a then Inl (''integrity'', ''asset ETag changed'')
        else if bd_total d > 0 \<and> bd_total d \<noteq> n then Inl (''integrity'', ''asset size changed'')
        else if int (length (bd_body d)) < min n 512 then Inl (''blob_unavailable'', ''unexpected EOF'')
        else if int (length file) \<noteq> n then
          Inl (''integrity'', ''asset size changed: expected '' @ FormatInt n @ '', read '' @ FormatInt (int (length file)))
        else if a_checksum a \<noteq> [] \<and> \<not> EqualFold (sj_digest j file) (a_checksum a) then Inl (''integrity'', ''asset checksum changed'')
        else (case ValidateMedia (sj_parsers j) (a_file_name a) (a_detected_mime a) header (Some file) (nat n) of
                Inl e \<Rightarrow> Inl (''integrity'', ''asset MIME validation failed: '' @ sj_text j e)
              | Inr _ \<Rightarrow> Inr file))"

text \<open>The work of an attempt up to the verdict; a failure has its category and text.\<close>

definition scan_work :: "scan_job \<Rightarrow> blob_reader \<Rightarrow> asset \<Rightarrow> (string \<times> string) + scan_verdict" where
  "scan_work j open' a =
     (case sj_signature j of
        Inl err \<Rightarrow> Inl (''signature_unavailable'', err)
      | Inr _ \<Rightarrow>
        if late j 0 then Inl (''signature_unavailable'', deadline_text)
        else case scan_download j open' a of
          Inl f \<Rightarrow> Inl f
        | Inr file \<Rightarrow>
          if late j 1 then Inl ([], deadline_text)
          else if late j 2 then Inl (''scanner_unavailable'', deadline_text)
          else case sj_scan j file of
            Unscanned err \<Rightarrow> Inl (''scanner_unavailable'', err)
          | v \<Rightarrow> Inr v)"

section \<open>Settling a message\<close>

type_synonym job_world = "store \<times> queue_action list"

definition ask :: "scan_job \<Rightarrow> queue_action \<Rightarrow> job_world \<Rightarrow> unit result \<times> job_world" where
  "ask j x = (\<lambda>(st, log). (sj_queue j x, (st, log @ [x])))"

definition settle_poison :: "scan_job \<Rightarrow> poison \<Rightarrow> time \<Rightarrow> scan_result option \<Rightarrow> job_world \<Rightarrow> unit result \<times> job_world" where
  "settle_poison j p now terminal = (\<lambda>(st, log).
     case (case terminal of Some res \<Rightarrow> FailScanToPoison res p now st | None \<Rightarrow> RecordScanPoison p now st) of
       (Inl e, st1) \<Rightarrow> (Err e, (st1, log))
     | (Inr forward, st1) \<Rightarrow>
         if forward then
           (case ask j (Forward (po_reason p)) (st1, log) of
              (Inl e, w) \<Rightarrow> (Err e, w)
            | (Inr _, (st2, log2)) \<Rightarrow>
                (case MarkScanPoisonForwarded (po_id p) now st2 of
                   (Inl e, st3) \<Rightarrow> (Err e, (st3, log2))
                 | (Inr _, st3) \<Rightarrow> ask j Ack (st3, log2)))
         else ask j Ack (st1, log))"

definition settle_verdict :: "scan_job \<Rightarrow> scan_result \<Rightarrow> time \<Rightarrow> job_world \<Rightarrow> unit result \<times> job_world" where
  "settle_verdict j res now = (\<lambda>(st, log).
     case ApplyScanResult res now st of
       (Inl e, st1) \<Rightarrow> (Err e, (st1, log))
     | (Inr _, st1) \<Rightarrow> ask j Ack (st1, log))"

definition reschedule_scan :: "scan_job \<Rightarrow> asset \<Rightarrow> string \<Rightarrow> string \<Rightarrow> time \<Rightarrow> job_world \<Rightarrow> unit result \<times> job_world" where
  "reschedule_scan j a category details at = (\<lambda>(st, log).
     let delay = retryDelay (a_scan_attempts a) in
     case ScheduleAssetScanRetry (a_id a) (a_scan_attempts a) details category (at + delay) at st of
       (Inl e, st1) \<Rightarrow> (Err e, (st1, log))
     | (Inr _, st1) \<Rightarrow> ask j (Retry delay) (st1, log))"

text \<open>What is done with the outcome of the work of a claimed attempt.\<close>

definition settle_attempt ::
  "scan_job \<Rightarrow> message \<Rightarrow> queue_event \<Rightarrow> asset \<Rightarrow> (string \<times> string) + scan_verdict \<Rightarrow> time \<Rightarrow> time \<Rightarrow> job_world \<Rightarrow> unit result \<times> job_world" where
  "settle_attempt j m e a outcome now later w =
     (let signature = (case sj_signature j of Inl _ \<Rightarrow> [] | Inr s \<Rightarrow> s);
          fail = (\<lambda>category details. settle_poison j (poisonRecord j m (Some e) category details) now
            (Some (job_result e a signature ScanFailed details category)) w)
      in case outcome of
        Inr (Infected name) \<Rightarrow> settle_verdict j (job_result e a signature ScanInfected name ''malware'') now w
      | Inr (Oversized name) \<Rightarrow> fail ''scan_limit'' name
      | Inr (Encrypted name) \<Rightarrow> fail ''encrypted'' name
      | Inr Harmless \<Rightarrow> if sj_expired j then (Err (ErrOther deadline_text), w)
          else settle_verdict j (job_result e a signature ScanClean [] []) now w
      | Inr (Unscanned err) \<Rightarrow> (Err (ErrOther err), w)
      | Inl (c, err) \<Rightarrow>
          if sj_expired j then (Err (ErrOther deadline_text), w)
          else
            let category = (if late j 3 then ''attempt_timeout'' else c); details = safeError err in
            if category = ''integrity'' then fail category details
            else reschedule_scan j a category details later w)"

section \<open>One round of the job\<close>

definition scan_one_event :: "scan_job \<Rightarrow> blob_reader \<Rightarrow> message \<Rightarrow> queue_event \<Rightarrow> time \<Rightarrow> time \<Rightarrow> job_world \<Rightarrow> unit result \<times> job_world" where
  "scan_one_event j open' m e now later = (\<lambda>(st, log).
     case ClaimAssetScan (qe_event e) (qe_asset e) (qe_etag e) now (sj_lease j) st of
       (Inl err, st1) \<Rightarrow> (Err err, (st1, log))
     | (Inr (a, ScanBusy), st1) \<Rightarrow> ask j (Retry (15 * second)) (st1, log)
     | (Inr (a, ScanTerminal), st1) \<Rightarrow>
         if a_scan_status a = ScanFailed \<and> a_scan_event a = qe_event e then
           settle_poison j (poisonRecord j m (Some e) (if a_scan_failure a = [] then ''failed'' else a_scan_failure a) (a_scan_details a))
             now None (st1, log)
         else ask j Ack (st1, log)
     | (Inr (a, ScanClaimed), st1) \<Rightarrow>
         if a_scan_attempts a \<ge> sj_max_attempts j then
           settle_poison j (poisonRecord j m (Some e) ''retry_exhausted'' ''scan retry limit reached'') now
             (Some (job_result e a [] ScanFailed ''scan retry limit reached'' ''retry_exhausted'')) (st1, log)
         else settle_attempt j m e a (scan_work j open' a) now later (st1, log))"

text \<open>\<open>RunOnce\<close> on a received message; \<open>None\<close> is an empty queue.\<close>

definition RunOnce :: "scan_job \<Rightarrow> blob_reader \<Rightarrow> message option \<Rightarrow> time \<Rightarrow> time \<Rightarrow> job_world \<Rightarrow> (bool \<times> unit result) \<times> job_world" where
  "RunOnce j open' received now later w =
     (case received of
        None \<Rightarrow> ((False, Ok ()), w)
      | Some m \<Rightarrow>
          (case (case decodeEvent j (msg_body m) of
              Inl err \<Rightarrow> settle_poison j (poisonRecord j m None ''invalid_payload'' (safeError err)) now None w
            | Inr e \<Rightarrow> scan_one_event j open' m e now later w) of
             (r, w') \<Rightarrow> ((True, r), w')))"

section \<open>The polling worker\<close>

text \<open>\<open>Scan\<close> streams the bytes; its error \<open>ErrInfected\<close> carries the name, every other error its text.\<close>

record poll_worker =
  pw_max_retries :: int
  pw_lease :: int
  pw_text :: "go_error \<Rightarrow> string"
  pw_scan :: "string \<Rightarrow> scan_verdict"

definition scanEventID :: "asset \<Rightarrow> string" where
  "scanEventID a = (if a_scan_event a \<noteq> [] then a_scan_event a
     else ''clamav:'' @ a_id a @ '':'' @ a_etag a @ '':'' @ FormatInt (a_scan_attempts a))"

definition poll_result :: "asset \<Rightarrow> scan_status \<Rightarrow> string \<Rightarrow> scan_result" where
  "poll_result a status details = \<lparr>res_event = scanEventID a, res_asset = a_id a, res_status = status, res_details = details,
     res_signature = [], res_failure = [], res_etag = a_etag a, res_expected_attempt = a_scan_attempts a\<rparr>"

definition poll_backoff :: "int \<Rightarrow> int" where
  "poll_backoff attempts = 2 ^ nat (min (attempts - 1) 6) * (15 * second)"

definition poll_outcome :: "poll_worker \<Rightarrow> blob_reader \<Rightarrow> asset \<Rightarrow> string + scan_verdict" where
  "poll_outcome w open' a =
     (case open' (a_object_key a) (a_etag a) of
        Inl e \<Rightarrow> Inl (pw_text w e)
      | Inr d \<Rightarrow> (case pw_scan w (bd_body d) of
          Harmless \<Rightarrow> Inr Harmless
        | Infected name \<Rightarrow> Inr (Infected name)
        | Oversized err \<Rightarrow> Inl err
        | Encrypted err \<Rightarrow> Inl err
        | Unscanned err \<Rightarrow> Inl err))"

definition settled :: "bool result \<times> store \<Rightarrow> unit result \<times> store" where
  "settled = (\<lambda>(r, st). (map_sum id (\<lambda>_. ()) r, st))"

definition processNext :: "poll_worker \<Rightarrow> blob_reader \<Rightarrow> time \<Rightarrow> time \<Rightarrow> store \<Rightarrow> (bool \<times> unit result) \<times> store" where
  "processNext w open' now later st =
     (case ClaimPendingScan now (pw_lease w) st of
        (Inl e, st1) \<Rightarrow> ((False, Err e), st1)
      | (Inr None, st1) \<Rightarrow> ((False, Ok ()), st1)
      | (Inr (Some a), st1) \<Rightarrow>
          (case (case poll_outcome w open' a of
              Inr (Infected name) \<Rightarrow> settled (ApplyScanResult (poll_result a ScanInfected name) later st1)
            | Inr _ \<Rightarrow> settled (ApplyScanResult (poll_result a ScanClean []) later st1)
            | Inl err \<Rightarrow>
                let details = take 500 err in
                if a_scan_attempts a \<ge> pw_max_retries w
                then settled (ApplyScanResult (poll_result a ScanFailed details) later st1)
                else ScheduleScanRetry (a_id a) (a_scan_attempts a) details (now + poll_backoff (a_scan_attempts a)) now st1) of
             (r, st2) \<Rightarrow> ((True, r), st2)))"

end
