(* ===== verification/Derivative_Worker.thy ===== *)
theory Derivative_Worker
  imports Store_Processing Purge_Worker Scan_Worker
begin

text \<open>
  The production of image derivatives: the worker of \<open>internal/derivatives/worker.go\<close> and the queue job
  of \<open>internal/derivativequeue/job.go\<close>.  The image codecs, the blob store, the queue service, the JSON
  decoder and what the database reports about a commit are arguments.
\<close>

section \<open>What the worker uses\<close>

definition variants :: "(string \<times> int) list" where
  "variants = [(''small'', 480), (''medium'', 960), (''large'', 1440)]"

text \<open>
  The codecs of \<open>image\<close> and \<open>image/jpeg\<close> and the scaler: the dimensions in the header, the decoded
  picture with its bounds, and the JPEG bytes of the picture at a size, or the text of the error.
\<close>

record 'i imaging =
  im_config :: "string \<Rightarrow> string + int \<times> int"
  im_decode :: "string \<Rightarrow> string + 'i"
  im_width :: "'i \<Rightarrow> int"
  im_height :: "'i \<Rightarrow> int"
  im_jpeg :: "'i \<Rightarrow> int \<Rightarrow> int \<Rightarrow> string + string"

record 'b deriv_blobs =
  dv_open :: "string \<Rightarrow> string \<Rightarrow> 'b \<Rightarrow> blob_download result"
  dv_put :: "string \<Rightarrow> string \<Rightarrow> string \<Rightarrow> 'b \<Rightarrow> blob_properties result \<times> 'b"
  dv_delete :: "string \<Rightarrow> 'b \<Rightarrow> go_error option \<times> 'b"

text \<open>
  What the database reports about a commit: success, or an error after which the transaction may have
  been applied, and the worker may or may not be able to read the rows again.
\<close>

datatype commit_report = Reported | Lost bool bool

record ('i, 'b) deriv_worker =
  dw_imaging :: "'i imaging"
  dw_blobs :: "'b deriv_blobs"
  dw_text :: "go_error \<Rightarrow> string"
  dw_commit :: commit_report

text \<open>\<open>terminalError\<close> is \<open>Invalid\<close>; any other error keeps what \<open>errors.Is\<close> sees below its prefix.\<close>

datatype work_error = Invalid string | Broken string go_error

primrec error_text :: "(go_error \<Rightarrow> string) \<Rightarrow> work_error \<Rightarrow> string" where
  "error_text text (Invalid s) = s"
| "error_text text (Broken s e) = s @ text e"

definition is_invalid :: "work_error \<Rightarrow> bool" where
  "is_invalid e \<longleftrightarrow> (\<exists>s. e = Invalid s)"

lemma is_invalid_simps [simp, code]: "is_invalid (Invalid s)" "\<not> is_invalid (Broken s e)"
  by (simp_all add: is_invalid_def)

datatype process_state = ProcessSatisfied | ProcessRetry | ProcessTerminal

record process_result =
  prs_state :: process_state
  prs_retry_at :: time
  prs_attempt :: int
  prs_details :: string

definition process_answer :: "process_state \<Rightarrow> process_result" where
  "process_answer s = \<lparr>prs_state = s, prs_retry_at = 0, prs_attempt = 0, prs_details = []\<rparr>"

section \<open>Committing an attempt\<close>

text \<open>
  \<open>CompleteProcessing\<close> with the fate of its commit: after an error the rows are read again, and only
  when that is impossible the outcome is unknown.
\<close>

definition commit_processing ::
  "commit_report \<Rightarrow> string \<Rightarrow> string \<Rightarrow> int \<Rightarrow> derivative list \<Rightarrow> time \<Rightarrow> store \<Rightarrow> unit result \<times> store" where
  "commit_processing c i etag n ds now st =
     (case CompleteProcessing i etag n ds now st of
        (Inl e, st') \<Rightarrow> (Err e, st')
      | (Inr _, st') \<Rightarrow>
          (case c of
             Reported \<Rightarrow> (Ok (), st')
           | Lost applied readable \<Rightarrow>
               if affected (processing_fence i etag n) (st_assets st) \<noteq> 1 then (Ok (), st')
               else let st1 = (if applied then st' else st) in
                 (if \<not> readable then Err ErrCommitOutcomeUnknown
                  else if processingCommitted st1 i etag n ds then Ok () else Err (ErrOther ''commit''), st1)))"

section \<open>One attempt\<close>

definition validateImageConfig :: "int \<times> int \<Rightarrow> bool" where
  "validateImageConfig c = (case c of (w, h) \<Rightarrow> 1 \<le> w \<and> 1 \<le> h \<and> w \<le> 8192 \<and> h \<le> 8192 \<and> w * h \<le> 40000000)"

definition attempt_key :: "'a asset_scheme \<Rightarrow> string \<Rightarrow> string" where
  "attempt_key a v = path_Join [path_Dir (a_object_key a), ''derivatives'', ''attempt-'' @ FormatInt (a_processing_attempts a), v @ ''.jpg'']"

definition image_limit :: int where "image_limit = 26214400"

text \<open>The picture of the original, or why it is not one.\<close>

definition load_picture :: "'i imaging \<Rightarrow> (go_error \<Rightarrow> string) \<Rightarrow> string \<Rightarrow> work_error + 'i" where
  "load_picture im text body =
     (let encoded = take (nat (image_limit + 1)) body in
      if int (length encoded) > image_limit then Inl (Invalid (''read image: '' @ text ErrInvalidUpload))
      else case im_config im encoded of
        Inl err \<Rightarrow> Inl (Invalid (''decode image config: '' @ err))
      | Inr c \<Rightarrow>
        if \<not> validateImageConfig c then Inl (Invalid ''invalid image dimensions'')
        else (case im_decode im encoded of
          Inl err \<Rightarrow> Inl (Invalid (''decode image: '' @ err))
        | Inr picture \<Rightarrow>
            if im_width im picture < 1 \<or> im_height im picture < 1 then Inl (Invalid ''invalid image dimensions'')
            else Inr picture))"

definition variant_width :: "'i imaging \<Rightarrow> 'i \<Rightarrow> int \<Rightarrow> int" where
  "variant_width im picture w = min w (im_width im picture)"

definition variant_height :: "'i imaging \<Rightarrow> 'i \<Rightarrow> int \<Rightarrow> int" where
  "variant_height im picture w = max 1 (im_height im picture * variant_width im picture w div im_width im picture)"

text \<open>The loop over the variants: the error that stopped it, the keys it wrote to and the values.\<close>

fun write_variants ::
  "('i, 'b) deriv_worker \<Rightarrow> asset \<Rightarrow> 'i \<Rightarrow> time \<Rightarrow> (string \<times> int) list \<Rightarrow> 'b \<Rightarrow> (work_error option \<times> string list \<times> derivative list) \<times> 'b" where
  "write_variants w a picture now [] b = ((None, [], []), b)"
| "write_variants w a picture now ((v, vw) # vs) b =
     (let im = dw_imaging w; width = variant_width im picture vw; height = variant_height im picture vw; key = attempt_key a v in
      case im_jpeg im picture width height of
        Inl err \<Rightarrow> ((Some (Invalid (''encode '' @ v @ '': '' @ err)), [], []), b)
      | Inr encoded \<Rightarrow>
          (case dv_put (dw_blobs w) key encoded ''image/jpeg'' b of
             (Inl e, b1) \<Rightarrow> ((Some (Broken (''store '' @ v @ '': '') e), [key], []), b1)
           | (Inr p, b1) \<Rightarrow>
               (case write_variants w a picture now vs b1 of
                  ((err, keys, ds), b2) \<Rightarrow>
                    ((err, key # keys, \<lparr>d_asset = a_id a, d_variant = v, d_object_key = key, d_mime = ''image/jpeg'', d_width = width,
                        d_height = height, d_size = bp_size p, d_etag = bp_etag p, d_created = now\<rparr> # ds), b2))))"

type_synonym 'b deriv_world = "store \<times> 'b"

text \<open>\<open>process\<close>: the keys written and the error, if any.\<close>

definition process :: "('i, 'b) deriv_worker \<Rightarrow> asset \<Rightarrow> time \<Rightarrow> 'b deriv_world \<Rightarrow> (string list \<times> work_error option) \<times> 'b deriv_world" where
  "process w a now = (\<lambda>(st, b).
     case dv_open (dw_blobs w) (a_object_key a) (a_etag a) b of
       Inl e \<Rightarrow> (([], Some (Broken ''open original: '' e)), (st, b))
     | Inr d \<Rightarrow>
         (case load_picture (dw_imaging w) (dw_text w) (bd_body d) of
            Inl err \<Rightarrow> (([], Some err), (st, b))
          | Inr picture \<Rightarrow>
              (case write_variants w a picture now variants b of
                 ((Some err, keys, _), b1) \<Rightarrow> ((keys, Some err), (st, b1))
               | ((None, keys, ds), b1) \<Rightarrow>
                   (case commit_processing (dw_commit w) (a_id a) (a_etag a) (a_processing_attempts a) ds now st of
                      (Inl e, st1) \<Rightarrow> ((keys, Some (Broken ''complete processing: '' e)), (st1, b1))
                    | (Inr _, st1) \<Rightarrow> ((keys, None), (st1, b1))))))"

text \<open>The deletion of what an unsuccessful attempt wrote; its errors join the text.\<close>

fun delete_written :: "('i, 'b) deriv_worker \<Rightarrow> string list \<Rightarrow> string \<Rightarrow> 'b \<Rightarrow> string \<times> 'b" where
  "delete_written w [] text b = (text, b)"
| "delete_written w (k # ks) text b =
     (case dv_delete (dw_blobs w) k b of
        (None, b1) \<Rightarrow> delete_written w ks text b1
      | (Some e, b1) \<Rightarrow> delete_written w ks (text @ [char_of (10::nat)] @ dw_text w e) b1)"

definition processClaimed ::
  "('i, 'b) deriv_worker \<Rightarrow> asset \<Rightarrow> bool \<Rightarrow> time \<Rightarrow> time \<Rightarrow> 'b deriv_world \<Rightarrow> process_result result \<times> 'b deriv_world" where
  "processClaimed w a persist now later world =
     (case process w a now world of
        ((_, None), w1) \<Rightarrow> (Ok (process_answer ProcessSatisfied), w1)
      | ((keys, Some err), (st1, b1)) \<Rightarrow>
          if (\<exists>s. err = Broken s ErrCommitOutcomeUnknown) then (Err ErrCommitOutcomeUnknown, (st1, b1))
          else (case delete_written w keys (error_text (dw_text w) err) b1 of
            (text, b2) \<Rightarrow>
              let details = truncate_text text 500; n = a_processing_attempts a in
              if is_invalid err \<or> n \<ge> 5 then
                (if persist then
                   (case FailProcessing (a_id a) (a_etag a) n details later st1 of
                      (_, st2) \<Rightarrow> (Err (ErrOther text), (st2, b2)))
                 else (Ok \<lparr>prs_state = ProcessTerminal, prs_retry_at = 0, prs_attempt = n, prs_details = details\<rparr>, (st1, b2)))
              else
                let nextAttempt = later + minute * 2 ^ nat (n - 1) in
                (case ScheduleProcessingRetry (a_id a) (a_etag a) n details nextAttempt later st1 of
                   (Inl e, st2) \<Rightarrow> (Err (ErrOther text), (st2, b2))
                 | (Inr _, st2) \<Rightarrow>
                     if persist then (Err (ErrOther text), (st2, b2))
                     else (Ok \<lparr>prs_state = ProcessRetry, prs_retry_at = nextAttempt, prs_attempt = 0, prs_details = []\<rparr>, (st2, b2)))))"

section \<open>Claiming and processing\<close>

abbreviation processing_lease :: int where "processing_lease \<equiv> 3 * minute"

text \<open>\<open>ProcessOne\<close> of the polling worker; \<open>True\<close> when an attempt was claimed.\<close>

definition ProcessOne_derivative :: "('i, 'b) deriv_worker \<Rightarrow> time \<Rightarrow> time \<Rightarrow> time \<Rightarrow> 'b deriv_world \<Rightarrow> unit result \<times> 'b deriv_world" where
  "ProcessOne_derivative w claim now later = (\<lambda>(st, b).
     case ClaimPendingProcessing claim processing_lease st of
       (Inl e, st1) \<Rightarrow> (Err e, (st1, b))
     | (Inr None, st1) \<Rightarrow> (Ok (), (st1, b))
     | (Inr (Some a), st1) \<Rightarrow>
         (case processClaimed w a True now later (st1, b) of (r, w') \<Rightarrow> (map_sum id (\<lambda>_. ()) r, w')))"

text \<open>What \<open>ProcessAsset\<close> answers without processing.\<close>

definition unclaimed_answer :: "string \<Rightarrow> string \<Rightarrow> asset \<Rightarrow> processing_claim_state \<Rightarrow> time \<Rightarrow> process_result" where
  "unclaimed_answer i etag a state now =
     (if state = ProcessingDeferred then
        let retry = max (a_processing_next a) (a_processing_claimed a)
        in (process_answer ProcessRetry)\<lparr>prs_retry_at := if retry \<le> now then now + 15 * second else retry\<rparr>
      else if a_id a = i \<and> a_etag a = etag
        \<and> (a_processing_status a = ProcessingFailed \<or> (a_processing_status a = ProcessingPending \<and> a_processing_attempts a \<ge> 5)) then
        \<lparr>prs_state = ProcessTerminal, prs_retry_at = 0, prs_attempt = a_processing_attempts a, prs_details = a_processing_error a\<rparr>
      else process_answer ProcessSatisfied)"

definition ProcessAsset ::
  "('i, 'b) deriv_worker \<Rightarrow> string \<Rightarrow> string \<Rightarrow> time \<Rightarrow> time \<Rightarrow> time \<Rightarrow> 'b deriv_world \<Rightarrow> process_result result \<times> 'b deriv_world" where
  "ProcessAsset w i etag claim now later = (\<lambda>(st, b).
     if i = [] \<or> etag = [] then (Err ErrInvalidInput, (st, b))
     else case ClaimProcessing i etag claim processing_lease st of
       (Inl e, st1) \<Rightarrow> (Err e, (st1, b))
     | (Inr (a, state), st1) \<Rightarrow>
         if state = ProcessingClaimed then processClaimed w a False now later (st1, b)
         else (Ok (unclaimed_answer i etag a state claim), (st1, b)))"

section \<open>The queue job\<close>

record ('i, 'b) deriv_job =
  dj_worker :: "('i, 'b) deriv_worker"
  dj_digest :: "string \<Rightarrow> string"
  dj_json :: "string \<Rightarrow> string + queue_event"
  dj_queue :: "queue_action \<Rightarrow> unit result"

definition decode_derivative :: "('i, 'b) deriv_job \<Rightarrow> string \<Rightarrow> string + queue_event" where
  "decode_derivative j body =
     (case dj_json j body of
        Inl err \<Rightarrow> Inl err
      | Inr e \<Rightarrow> if valid_event ''asset.derivative.requested.v1'' e then Inr e else Inl ''invalid derivative event'')"

definition derivativePoison :: "('i, 'b) deriv_job \<Rightarrow> message \<Rightarrow> queue_event option \<Rightarrow> string \<Rightarrow> string \<Rightarrow> poison" where
  "derivativePoison j m event reason details =
     (let part = (\<lambda>f. case event of None \<Rightarrow> [] | Some e \<Rightarrow> f e) in
      \<lparr>po_id = msg_id m @ '':'' @ reason, po_event = part qe_event, po_asset = part qe_asset, po_etag = part qe_etag,
       po_reason = reason, po_details = details, po_dequeue = msg_dequeue m, po_source = msg_id m, po_body = dj_digest j (msg_body m)\<rparr>)"

type_synonym 'b deriv_job_world = "store \<times> 'b \<times> queue_action list"

definition ask_derivative :: "('i, 'b) deriv_job \<Rightarrow> queue_action \<Rightarrow> 'b deriv_job_world \<Rightarrow> unit result \<times> 'b deriv_job_world" where
  "ask_derivative j x = (\<lambda>(st, b, log). (dj_queue j x, (st, b, log @ [x])))"

definition poison_derivative ::
  "('i, 'b) deriv_job \<Rightarrow> message \<Rightarrow> queue_event option \<Rightarrow> string \<Rightarrow> string \<Rightarrow> process_result \<Rightarrow> time
    \<Rightarrow> 'b deriv_job_world \<Rightarrow> unit result \<times> 'b deriv_job_world" where
  "poison_derivative j m event reason details result now = (\<lambda>(st, b, log).
     let p = derivativePoison j m event reason details in
     case (case event of
             Some e \<Rightarrow>
               if prs_state result = ProcessTerminal then
                 FailDerivativeToPoison \<lparr>pf_asset = qe_asset e, pf_etag = qe_etag e, pf_expected_attempt = prs_attempt result,
                   pf_details = prs_details result\<rparr> p now st
               else RecordDerivativePoison p now st
           | None \<Rightarrow> RecordDerivativePoison p now st) of
       (Inl e, st1) \<Rightarrow> (Err e, (st1, b, log))
     | (Inr forward, st1) \<Rightarrow>
         if forward then
           (case ask_derivative j (Forward reason) (st1, b, log) of
              (Inl e, w) \<Rightarrow> (Err e, w)
            | (Inr _, (st2, b2, log2)) \<Rightarrow>
                (case MarkDerivativePoisonForwarded (po_id p) now st2 of
                   (Inl e, st3) \<Rightarrow> (Err e, (st3, b2, log2))
                 | (Inr _, st3) \<Rightarrow> ask_derivative j Ack (st3, b2, log2)))
         else ask_derivative j Ack (st1, b, log))"

text \<open>The clock readings of a round: at the claim, at the completion, after a failure, when it settles.\<close>

record round_clock =
  rc_claim :: time
  rc_now :: time
  rc_later :: time
  rc_settle :: time

definition settle_process ::
  "('i, 'b) deriv_job \<Rightarrow> message \<Rightarrow> queue_event \<Rightarrow> process_result \<Rightarrow> time \<Rightarrow> 'b deriv_job_world \<Rightarrow> unit result \<times> 'b deriv_job_world" where
  "settle_process j m e result now w =
     (case prs_state result of
        ProcessSatisfied \<Rightarrow> ask_derivative j Ack w
      | ProcessRetry \<Rightarrow> ask_derivative j (Retry (max second (prs_retry_at result - now))) w
      | ProcessTerminal \<Rightarrow> poison_derivative j m (Some e) ''processing_failed'' (prs_details result) result now w)"

definition RunOnce_derivative ::
  "('i, 'b) deriv_job \<Rightarrow> message option \<Rightarrow> round_clock \<Rightarrow> 'b deriv_job_world \<Rightarrow> (bool \<times> unit result) \<times> 'b deriv_job_world" where
  "RunOnce_derivative j received c = (\<lambda>(st, b, log).
     case received of
       None \<Rightarrow> ((False, Ok ()), (st, b, log))
     | Some m \<Rightarrow>
         (case (case decode_derivative j (msg_body m) of
             Inl err \<Rightarrow> poison_derivative j m None ''invalid_payload'' err (process_answer ProcessSatisfied) (rc_settle c) (st, b, log)
           | Inr e \<Rightarrow>
               (case ProcessAsset (dj_worker j) (qe_asset e) (qe_etag e) (rc_claim c) (rc_now c) (rc_later c) (st, b) of
                  (Inl err, (st1, b1)) \<Rightarrow> ask_derivative j (Retry (15 * second)) (st1, b1, log)
                | (Inr result, (st1, b1)) \<Rightarrow> settle_process j m e result (rc_settle c) (st1, b1, log))) of
            (r, w') \<Rightarrow> ((True, r), w')))"

end
