(* ===== verification/Derivative_Props.thy ===== *)
theory Derivative_Props
  imports Derivative_Worker
begin

text \<open>
  What the derivative worker guarantees.  The workers, crashes, lost commits and the other components
  are the steps of a relation on the store, the objects and the running attempts; its invariant says
  that every published derivative has its object.
\<close>

section \<open>The keys of an attempt\<close>

definition root_safe :: "string list \<Rightarrow> bool" where
  "root_safe es \<longleftrightarrow> es \<noteq> [] \<and> list_all proper_element es \<and> take 2 (hd es) \<noteq> ''..''"

lemma root_safe_append: "root_safe es \<Longrightarrow> list_all proper_element fs \<Longrightarrow> root_safe (es @ fs)"
  by (cases es) (auto simp: root_safe_def)

lemma split_root_safe: "root_safe es \<Longrightarrow> split_on (CHR ''/'') (join_with ''/'' es) = es"
  unfolding root_safe_def by (intro split_join) (auto simp: list_all_iff proper_element_def)

lemma join_root_safe_inj: "root_safe es \<Longrightarrow> root_safe fs \<Longrightarrow> join_with ''/'' es = join_with ''/'' fs \<Longrightarrow> es = fs"
  using split_root_safe by metis

lemma join_snoc: "es \<noteq> [] \<Longrightarrow> join_with s (es @ [e]) = join_with s es @ s @ e"
  by (induction s es rule: join_with.induct) auto

lemma join_append: "es \<noteq> [] \<Longrightarrow> fs \<noteq> [] \<Longrightarrow> join_with s (es @ fs) = join_with s es @ s @ join_with s fs"
  by (induction s es rule: join_with.induct) (cases fs; auto)+

lemma split_on_snoc: "split_on c (p @ [c]) = split_on c p @ [[]]"
  by (induction p) (auto split: list.splits)

lemma path_Dir_proper:
  assumes "root_safe es" "CHR ''/'' \<notin> set e"
  shows "path_Dir (join_with ''/'' (es @ [e])) = join_with ''/'' es"
proof -
  let ?d = "join_with ''/'' es"
  have es: "es \<noteq> []" "list_all proper_element es" using assms(1) by (auto simp: root_safe_def)
  have "rev (dropWhile (\<lambda>c. c \<noteq> CHR ''/'') (rev (?d @ ''/'' @ e))) = ?d @ ''/''"
    using assms(2) by (simp add: dropWhile_append)
  then have "path_Dir (join_with ''/'' (es @ [e])) = path_Clean (?d @ ''/'')" by (simp add: path_Dir_def join_snoc [OF es(1)])
  also have "\<dots> = path_Clean ?d"
  proof -
    have "split_on (CHR ''/'') (?d @ ''/'') = es @ [[]]"
      using split_on_snoc [of "CHR ''/''" ?d] split_root_safe [OF assms(1)] by simp
    then show ?thesis using join_proper_nonempty [OF es, of "''/''"] split_root_safe [OF assms(1)]
      by (simp add: path_Clean_def Let_def clean_step_def [of _ "[]"])
  qed
  finally show ?thesis using path_Clean_proper [OF es] by simp
qed

text \<open>The object key of an asset, as the service makes it, and the directory it lies in.\<close>

definition asset_dir :: "string \<Rightarrow> string list \<Rightarrow> bool" where
  "asset_dir key es \<longleftrightarrow> root_safe es \<and> key = join_with ''/'' (es @ [''original''])"

lemma asset_dir_unique: "asset_dir key es \<Longrightarrow> asset_dir key fs \<Longrightarrow> es = fs"
proof -
  assume "asset_dir key es" "asset_dir key fs"
  then have "es @ [''original''] = fs @ [''original'']"
    by (intro join_root_safe_inj) (auto simp: asset_dir_def proper_element_def intro!: root_safe_append)
  then show ?thesis by simp
qed

lemma FormatInt_free: "CHR ''/'' \<notin> set (FormatInt n)"
proof -
  have "CHR ''/'' \<notin> set (dec_nat m)" for m
  proof
    assume "CHR ''/'' \<in> set (dec_nat m)"
    moreover have "list_all is_digit (dec_nat m)" using dec_nat_digits by blast
    ultimately have "is_digit (CHR ''/'')" by (simp add: list_all_iff)
    then show False by (simp add: is_digit_def)
  qed
  then show ?thesis by (simp add: FormatInt_def)
qed

lemma FormatInt_inj:
  assumes "0 \<le> n" "0 \<le> m" "FormatInt n = FormatInt m"
  shows "n = m"
proof -
  have "dec_nat (nat n) = dec_nat (nat m)" using assms by (simp add: FormatInt_def)
  then have "nat n = nat m" using parse_dec_nat by (metis option.inject)
  then show ?thesis using assms by simp
qed

definition attempt_path :: "int \<Rightarrow> string \<Rightarrow> string list" where
  "attempt_path n v = [''derivatives'', ''attempt-'' @ FormatInt n, v @ ''.jpg'']"

lemma attempt_path_proper: "CHR ''/'' \<notin> set v \<Longrightarrow> list_all proper_element (attempt_path n v)"
  using FormatInt_free by (auto simp: attempt_path_def proper_element_def append_eq_Cons_conv)

lemma attempt_key_path:
  assumes "asset_dir (a_object_key a) es" "CHR ''/'' \<notin> set v"
  shows "attempt_key a v = join_with ''/'' (es @ attempt_path (a_processing_attempts a) v)"
proof -
  let ?n = "a_processing_attempts a"
  have es: "root_safe es" "es \<noteq> []" "list_all proper_element es" using assms(1) by (auto simp: asset_dir_def root_safe_def)
  have dir: "path_Dir (a_object_key a) = join_with ''/'' es"
    using assms(1) path_Dir_proper by (simp add: asset_dir_def)
  have "join_with ''/'' es \<noteq> []" using join_proper_nonempty [OF es(2,3)] by blast
  then have "attempt_key a v = path_Clean (join_with ''/'' (join_with ''/'' es # attempt_path ?n v))"
    by (simp add: attempt_key_def dir path_Join_def attempt_path_def Let_def)
  also have "join_with ''/'' (join_with ''/'' es # attempt_path ?n v) = join_with ''/'' (es @ attempt_path ?n v)"
    by (simp add: attempt_path_def join_append [OF es(2)])
  also have "path_Clean \<dots> = \<dots>"
    using es attempt_path_proper [OF assms(2)] by (intro path_Clean_proper) auto
  finally show ?thesis .
qed

lemma attempt_key_inj:
  assumes "asset_dir (a_object_key a) es" "asset_dir (a_object_key b) fs" "CHR ''/'' \<notin> set v" "CHR ''/'' \<notin> set w"
    and "0 \<le> a_processing_attempts a" "0 \<le> a_processing_attempts b" "attempt_key a v = attempt_key b w"
  shows "es = fs \<and> a_processing_attempts a = a_processing_attempts b \<and> v = w"
proof -
  have "es @ attempt_path (a_processing_attempts a) v = fs @ attempt_path (a_processing_attempts b) w"
  proof (rule join_root_safe_inj)
    show "join_with ''/'' (es @ attempt_path (a_processing_attempts a) v) = join_with ''/'' (fs @ attempt_path (a_processing_attempts b) w)"
      using assms(7) attempt_key_path [OF assms(1,3)] attempt_key_path [OF assms(2,4)] by simp
  qed (use assms(1-4) attempt_path_proper in \<open>auto simp: asset_dir_def intro!: root_safe_append\<close>)
  then show ?thesis using FormatInt_inj [OF assms(5,6)] by (simp add: attempt_path_def)
qed

section \<open>The store of the objects\<close>

text \<open>What the worker relies on: a stored object has the reported size and ETag, and other keys are left alone.\<close>

locale derivative_objects =
  fixes ops :: "'b deriv_blobs"
    and content :: "'b \<Rightarrow> string \<Rightarrow> object option"
  assumes put_Ok: "root_safe es \<Longrightarrow> k = join_with ''/'' es \<Longrightarrow> dv_put ops k data mime b = (Ok p, b') \<Longrightarrow>
      content b' k = Some (data, bp_etag p) \<and> bp_size p = int (length data)"
    and put_other: "root_safe es \<Longrightarrow> k = join_with ''/'' es \<Longrightarrow> dv_put ops k data mime b = (r, b') \<Longrightarrow> root_safe fs \<Longrightarrow>
      j = join_with ''/'' fs \<Longrightarrow> j \<noteq> k \<Longrightarrow> content b' j = content b j"
    and remove_other: "root_safe es \<Longrightarrow> k = join_with ''/'' es \<Longrightarrow> dv_delete ops k b = (r', b') \<Longrightarrow> root_safe fs \<Longrightarrow>
      j = join_with ''/'' fs \<Longrightarrow> j \<noteq> k \<Longrightarrow> content b' j = content b j"
begin

lemma delete_written_other:
  assumes "delete_written w ks t b = (t', b')" "dw_blobs w = ops" "\<forall>k\<in>set ks. \<exists>es. root_safe es \<and> k = join_with ''/'' es"
    and "root_safe fs" "j = join_with ''/'' fs" "j \<notin> set ks"
  shows "content b' j = content b j"
  using assms
proof (induction ks arbitrary: t b)
  case (Cons k ks)
  obtain r b1 where r: "dv_delete ops k b = (r, b1)" by (cases "dv_delete ops k b")
  obtain t1 where "delete_written w ks t1 b1 = (t', b')" using Cons.prems(1,2) r by (auto split: option.splits)
  then have "content b' j = content b1 j" using Cons.IH Cons.prems by auto
  then show ?case using remove_other [OF _ _ r] Cons.prems(3-6) by auto
qed simp

lemma write_variants_effect:
  assumes "write_variants w a picture now vs b = ((err, keys, ds), b')" "dw_blobs w = ops"
    and "asset_dir (a_object_key a) es" "\<forall>v\<in>fst ` set vs. CHR ''/'' \<notin> set v" "0 \<le> a_processing_attempts a"
    and "distinct (map fst vs)"
  shows "set keys \<subseteq> attempt_key a ` fst ` set vs
    \<and> (\<forall>fs j. root_safe fs \<longrightarrow> j = join_with ''/'' fs \<longrightarrow> j \<notin> attempt_key a ` fst ` set vs \<longrightarrow> content b' j = content b j)
    \<and> (err = None \<longrightarrow> (\<forall>d\<in>set ds. \<exists>c. content b' (d_object_key d) = Some (c, d_etag d) \<and> d_size d = int (length c)))
    \<and> (\<forall>d\<in>set ds. d_asset d = a_id a \<and> d_object_key d = attempt_key a (d_variant d)) \<and> (err = None \<longrightarrow> map d_variant ds = map fst vs)"
  using assms(1,4,6)
proof (induction vs arbitrary: b err keys ds)
  case (Cons x vs)
  obtain v vw where x: "x = (v, vw)" by (cases x)
  have v: "CHR ''/'' \<notin> set v" using Cons.prems(2) x by simp
  let ?k = "attempt_key a v"
  have k: "root_safe (es @ attempt_path (a_processing_attempts a) v)" "?k = join_with ''/'' (es @ attempt_path (a_processing_attempts a) v)"
    using assms(3) v attempt_path_proper attempt_key_path [OF assms(3) v] by (auto simp: asset_dir_def intro!: root_safe_append)
  define width where "width = variant_width (dw_imaging w) picture vw"
  define height where "height = variant_height (dw_imaging w) picture vw"
  show ?case
  proof (cases "im_jpeg (dw_imaging w) picture width height")
    case (Inl e)
    then show ?thesis using Cons.prems(1) by (auto simp: x Let_def width_def height_def)
  next
    case (Inr data)
    obtain r b1 where put: "dv_put ops ?k data ''image/jpeg'' b = (r, b1)" by (cases "dv_put ops ?k data ''image/jpeg'' b")
    have other: "content b1 j = content b j" if "root_safe fs" "j = join_with ''/'' fs" "j \<noteq> ?k" for fs j
      using put_other [OF k put that] .
    show ?thesis
    proof (cases r)
      case (Inl e)
      then have "err \<noteq> None" "keys = [?k]" "ds = []" "b' = b1"
        using Cons.prems(1) put assms(2) \<open>im_jpeg _ _ _ _ = Inr data\<close> by (auto simp: x Let_def width_def height_def)
      then show ?thesis using other by (auto simp: x)
    next
      case (Inr p)
      obtain keys' ds' where rest: "write_variants w a picture now vs b1 = ((err, keys', ds'), b')" "keys = ?k # keys'"
          "ds = \<lparr>d_asset = a_id a, d_variant = v, d_object_key = ?k, d_mime = ''image/jpeg'', d_width = width,
                  d_height = height, d_size = bp_size p, d_etag = bp_etag p, d_created = now\<rparr> # ds'"
        using Cons.prems(1) put assms(2) \<open>im_jpeg _ _ _ _ = Inr data\<close> Inr
        by (auto simp: x Let_def width_def height_def split: prod.splits)
      note IH = Cons.IH [OF rest(1)]
      have fresh: "?k \<notin> attempt_key a ` fst ` set vs"
      proof
        assume "?k \<in> attempt_key a ` fst ` set vs"
        then obtain u where u: "u \<in> fst ` set vs" "?k = attempt_key a u" by blast
        then have "v = u" using attempt_key_inj [OF assms(3,3) v _ assms(5,5)] Cons.prems(2) by auto
        then show False using u(1) Cons.prems(3) x by auto
      qed
      have "content b' ?k = content b1 ?k" using IH k fresh Cons.prems(2,3) by auto
      then have "content b' ?k = Some (data, bp_etag p)" "bp_size p = int (length data)"
        using put_Ok [OF k put [unfolded Inr]] by auto
      then show ?thesis using IH other rest(2,3) Cons.prems(2,3) by (auto simp: x)
    qed
  qed
qed simp

end

section \<open>What the steps do to the rows\<close>

text \<open>The object keys are those of the service, one per asset.\<close>

definition placed :: "store \<Rightarrow> bool" where
  "placed st \<longleftrightarrow> wf_assets st
     \<and> (\<forall>i x. asset_of st i = Some x \<longrightarrow> (\<exists>es. asset_dir (a_object_key x) es) \<and> 0 \<le> a_processing_attempts x)
     \<and> (\<forall>i j x y. asset_of st i = Some x \<longrightarrow> asset_of st j = Some y \<longrightarrow> a_object_key x = a_object_key y \<longrightarrow> i = j)"

definition row_moves :: "asset_row \<Rightarrow> asset_row \<Rightarrow> bool" where
  "row_moves x y \<longleftrightarrow> a_id y = a_id x \<and> a_object_key y = a_object_key x \<and> a_processing_attempts x \<le> a_processing_attempts y
     \<and> (a_processing_status x = ProcessingReady \<longleftrightarrow> a_processing_status y = ProcessingReady)
     \<and> (a_processing_status x = ProcessingReady \<longrightarrow> a_processing_attempts y = a_processing_attempts x)"

text \<open>A step that publishes nothing: assets may be new, but those there keep their key and their published state.\<close>

definition publishes_nothing :: "store \<Rightarrow> store \<Rightarrow> bool" where
  "publishes_nothing st st' \<longleftrightarrow> placed st' \<and> st_derivatives st' = st_derivatives st
     \<and> (\<forall>i x. asset_of st i = Some x \<longrightarrow> (\<exists>y. asset_of st' i = Some y \<and> row_moves x y))"

lemma row_moves_refl [simp]: "row_moves x x"
  by (simp add: row_moves_def)

lemma publishes_nothing_placed: "publishes_nothing st st' \<Longrightarrow> placed st'"
  by (simp add: publishes_nothing_def)

lemma publishes_nothing_refl: "placed st \<Longrightarrow> publishes_nothing st st"
  by (simp add: publishes_nothing_def)

lemma row_moves_trans: "row_moves x y \<Longrightarrow> row_moves y z \<Longrightarrow> row_moves x z"
  unfolding row_moves_def by (metis order_trans)

lemma publishes_nothing_trans: "publishes_nothing st st1 \<Longrightarrow> publishes_nothing st1 st2 \<Longrightarrow> publishes_nothing st st2"
proof -
  assume a: "publishes_nothing st st1" "publishes_nothing st1 st2"
  have "\<exists>z. asset_of st2 i = Some z \<and> row_moves x z" if x: "asset_of st i = Some x" for i x
  proof -
    obtain y where y: "asset_of st1 i = Some y" "row_moves x y" using a(1) x unfolding publishes_nothing_def by blast
    then obtain z where "asset_of st2 i = Some z" "row_moves y z" using a(2) unfolding publishes_nothing_def by blast
    then show ?thesis using row_moves_trans [OF y(2)] by blast
  qed
  then show ?thesis using a by (simp add: publishes_nothing_def)
qed

lemma asset_of_in: "asset_of st i = Some x \<Longrightarrow> x \<in> set (st_assets st) \<and> a_id x = i"
  by (auto simp: asset_of_def dest: sel1_Some)

lemma asset_same: "wf_assets st \<Longrightarrow> r \<in> set (st_assets st) \<Longrightarrow> s \<in> set (st_assets st) \<Longrightarrow> a_id s = a_id r \<Longrightarrow> s = r"
  using asset_of_mem [of st r] asset_of_mem [of st s] by simp

lemma publishes_nothing_UPDATE:
  assumes "placed st" "\<And>r. a_id (f r) = a_id r" "\<And>r. r \<in> set (st_assets st) \<Longrightarrow> P r \<Longrightarrow> row_moves r (f r)"
  shows "publishes_nothing st (UPDATE_assets P f st)"
proof -
  have rows: "\<exists>y. asset_of (UPDATE_assets P f st) i = Some y \<and> row_moves x y" if "asset_of st i = Some x" for i x
    using assms(3) asset_of_in [OF that] by (simp add: asset_of_UPDATE [OF assms(2)] that)
  have prior: "\<exists>x. asset_of st i = Some x \<and> row_moves x y" if upd: "asset_of (UPDATE_assets P f st) i = Some y" for i y
  proof -
    obtain x where x: "asset_of st i = Some x" "y = (if P x then f x else x)" using upd
      unfolding asset_of_UPDATE [OF assms(2)] by (cases "asset_of st i") simp_all
    then show ?thesis using assms(3) asset_of_in [OF x(1)] by simp
  qed
  have "placed (UPDATE_assets P f st)"
    unfolding placed_def
  proof (intro conjI allI impI)
    show "wf_assets (UPDATE_assets P f st)" using assms(1) by (simp add: wf_assets_UPDATE [OF assms(2)] placed_def)
    fix i y assume "asset_of (UPDATE_assets P f st) i = Some y"
    then obtain x where x: "asset_of st i = Some x" "row_moves x y" using prior by blast
    then obtain es where "asset_dir (a_object_key x) es" "0 \<le> a_processing_attempts x" using assms(1) unfolding placed_def by blast
    then show "\<exists>es. asset_dir (a_object_key y) es" "0 \<le> a_processing_attempts y" using x(2) by (auto simp: row_moves_def)
    fix j z assume "asset_of (UPDATE_assets P f st) j = Some z" "a_object_key y = a_object_key z"
    then obtain w where "asset_of st j = Some w" "row_moves w z" "a_object_key x = a_object_key w"
      using prior x(2) by (metis row_moves_def)
    then show "i = j" using assms(1) x(1) unfolding placed_def by blast
  qed
  then show ?thesis using rows by (simp add: publishes_nothing_def UPDATE_assets_def)
qed

lemma claimed_moves: "processing_claimable now r \<Longrightarrow> row_moves r (attempt_row now' lease r)"
  by (simp add: row_moves_def attempt_row_def processing_claimable_def processable_def)

lemma failed_moves: "a_processing_status r = ProcessingPending \<Longrightarrow> row_moves r (failed_row d now r)"
  by (simp add: row_moves_def failed_row_def)

text \<open>A claim publishes nothing and hands out the next attempt of a row.\<close>

definition handed :: "store \<Rightarrow> store \<Rightarrow> asset \<Rightarrow> bool" where
  "handed st st' a \<longleftrightarrow> (\<exists>x y. asset_of st (a_id a) = Some x \<and> asset_of st' (a_id a) = Some y \<and> a = asset.truncate y
     \<and> a_processing_status y = ProcessingPending \<and> a_processing_attempts y = a_processing_attempts x + 1)"

lemma ClaimProcessing_handed:
  assumes "ClaimProcessing i etag now lease st = (Ok (a, ProcessingClaimed), st')" "placed st"
  shows "publishes_nothing st st' \<and> handed st st' a"
proof -
  have wf: "wf_assets st" using assms(2) by (simp add: placed_def)
  obtain r where sel: "sel1 (\<lambda>r. a_id r = i \<and> a_etag r = etag \<and> derivable_mime (a_detected_mime r) \<and> processing_claimable now r) (st_assets st) = Some r"
    using assms(1) by (simp add: ClaimProcessing_def split: option.splits sum.splits if_splits)
  then have r: "r \<in> set (st_assets st)" "processing_claimable now r" using sel1_Some [OF sel] by auto
  have r': "GetAsset st' (a_id r) = Ok a" "st' = UPDATE_assets (\<lambda>s. a_id s = a_id r) (attempt_row now lease) st"
    using assms(1) by (auto simp: ClaimProcessing_def sel Let_def)
  have row: "asset_of st (a_id r) = Some r" using asset_of_mem [OF wf r(1)] .
  have row': "asset_of st' (a_id r) = Some (attempt_row now lease r)" using row by (simp add: r'(2) asset_of_UPDATE)
  have "publishes_nothing st st'" unfolding r'(2)
  proof (rule publishes_nothing_UPDATE [OF assms(2)])
    fix s assume "s \<in> set (st_assets st)" "a_id s = a_id r"
    then have "s = r" using asset_of_mem [OF wf] row by force
    then show "row_moves s (attempt_row now lease s)" using claimed_moves [OF r(2)] by simp
  qed simp
  moreover have "a = asset.truncate (attempt_row now lease r)"
  proof -
    have "a_purged (attempt_row now lease r) = 0" using r(2) by (simp add: processing_claimable_def processable_def live_def)
    then show ?thesis using GetAsset_of [OF row'] r'(1) calculation by (simp add: publishes_nothing_def placed_def)
  qed
  ultimately show ?thesis using row row' r(2) unfolding handed_def
    by (simp add: asset.truncate_def attempt_row_def processing_claimable_def processable_def)
qed

lemma ClaimPendingProcessing_handed:
  assumes "ClaimPendingProcessing now lease st = (Ok found, st')" "placed st"
  shows "publishes_nothing st st' \<and> (\<forall>a. found = Some a \<longrightarrow> handed st st' a)"
proof -
  let ?st1 = "UPDATE_assets (processing_exhausted now) (failed_row ''processing lease expired after maximum attempts'' now) st"
  have 1: "publishes_nothing st ?st1"
    by (rule publishes_nothing_UPDATE [OF assms(2)]) (auto simp: processing_exhausted_def processable_def intro: failed_moves)
  then have p1: "placed ?st1" "wf_assets ?st1" by (auto simp: publishes_nothing_def placed_def)
  let ?m = "min_row (\<lambda>r. (if a_processing_next r = 0 then a_updated r else a_processing_next r, a_updated r))
                (filter (processing_claimable now) (st_assets ?st1))"
  show ?thesis
  proof (cases ?m)
    case None
    then show ?thesis using assms(1) 1 by (simp add: ClaimPendingProcessing_def Let_def)
  next
    case (Some r)
    then have r: "r \<in> set (st_assets ?st1)" "processing_claimable now r" using min_row_in [OF Some] by auto
    let ?st2 = "UPDATE_assets (\<lambda>s. a_id s = a_id r \<and> a_purged s = 0) (attempt_row now lease) ?st1"
    have row: "asset_of ?st1 (a_id r) = Some r" using asset_of_mem [OF p1(2) r(1)] .
    have open': "a_purged r = 0" using r(2) by (simp add: processing_claimable_def processable_def live_def)
    have row': "asset_of ?st2 (a_id r) = Some (attempt_row now lease r)" using row open' asset_of_in [OF row]
      by (simp add: asset_of_UPDATE [of "attempt_row now lease", OF processing_rows_keep(2)])
    have 2: "publishes_nothing ?st1 ?st2"
    proof (rule publishes_nothing_UPDATE [OF p1(1)])
      fix s assume "s \<in> set (st_assets ?st1)" "a_id s = a_id r \<and> a_purged s = 0"
      then have "s = r" by (intro asset_same [OF p1(2) r(1)]) blast+
      then show "row_moves s (attempt_row now lease s)" by (simp only: claimed_moves [OF r(2)])
    qed simp
    then have wf2: "wf_assets ?st2" by (simp add: publishes_nothing_def placed_def)
    have "GetAsset ?st2 (a_id r) = Ok (asset.truncate (attempt_row now lease r))"
      using GetAsset_of [OF row' _ wf2] open' by simp
    then have st': "st' = ?st2" and found: "found = Some (asset.truncate (attempt_row now lease r))"
      using assms(1) Some by (simp_all add: ClaimPendingProcessing_def Let_def)
    obtain x where x: "asset_of st (a_id r) = Some x" "a_processing_attempts r = a_processing_attempts x"
      using row by (auto simp: asset_of_UPDATE split: if_splits)
    have "handed st ?st2 (asset.truncate (attempt_row now lease r))"
      using x row' r(2) unfolding handed_def
      by (simp add: asset.truncate_def attempt_row_def processing_claimable_def processable_def)
    then show ?thesis using publishes_nothing_trans [OF 1 2] st' found by simp
  qed
qed

section \<open>What an attempt does\<close>

lemma upsert_derivatives_set: "upsert_derivatives i ds t = Inr t' \<Longrightarrow> set t' \<subseteq> set t \<union> (\<lambda>d. d\<lparr>d_asset := i\<rparr>) ` set ds"
proof (induction ds arbitrary: t)
  case (Cons d ds)
  obtain t1 where t1: "upsert_derivative (d\<lparr>d_asset := i\<rparr>) t = Inr t1" "upsert_derivatives i ds t1 = Inr t'"
    using Cons.prems by auto
  have "set t1 \<subseteq> set t \<union> {d\<lparr>d_asset := i\<rparr>}"
    using t1(1) by (auto simp: upsert_derivative_def Let_def set_upd_where split: if_splits)
  then show ?case using Cons.IH [OF t1(2)] by auto
qed simp

lemma commit_cases:
  assumes "commit_processing c i etag n ds now st = (r, st')" "wf_assets st" "keyed dkey (st_derivatives st)"
    and "\<forall>d\<in>set ds. d_asset d = i"
    and "affected (processing_fence i etag n) (st_assets st) = 1 \<Longrightarrow> \<forall>d\<in>set (st_derivatives st). d_asset d \<noteq> i"
  obtains (published) x where "asset_of st i = Some x" "processing_fence i etag n x" "asset_of st' = (asset_of st)(i \<mapsto> ready_row now x)"
      "wf_assets st'" "keyed dkey (st_derivatives st')" "set (st_derivatives st') \<subseteq> set ds \<union> set (st_derivatives st)"
      "r = Ok () \<or> r = Err ErrCommitOutcomeUnknown"
  | (unchanged) "st' = st"
proof -
  let ?P = "processing_fence i etag n"
  obtain r0 st0 where c: "CompleteProcessing i etag n ds now st = (r0, st0)" by (cases "CompleteProcessing i etag n ds now st") auto
  show thesis
  proof (cases "is_ok r0 \<and> affected ?P (st_assets st) = 1 \<and> st' \<noteq> st")
    case False
    then have "st' = st \<or> \<not> is_ok r0 \<or> affected ?P (st_assets st) \<noteq> 1" by blast
    moreover have "\<not> is_ok r0 \<Longrightarrow> st' = st" "affected ?P (st_assets st) \<noteq> 1 \<Longrightarrow> st' = st"
      using assms(1) c by (auto simp: commit_processing_def CompleteProcessing_def tx_Err_iff split: sum.splits commit_report.splits if_splits)
    ultimately show thesis using unchanged by blast
  next
    case True
    then have c: "CompleteProcessing i etag n ds now st = (Ok (), st0)" and open': "affected ?P (st_assets st) = 1"
      using c by (cases r0; simp)+
    have norows: "dom (drow (st_derivatives st) i) \<subseteq> d_variant ` set ds" using assms(5) [OF open'] by fastforce
    note rows = completed_rows [OF c assms(2) open' assms(3,4) norows]
    have seen: "processingCommitted st0 i etag n ds" by (rule completed_recognised [OF c assms(2) open' assms(3,4) norows refl])
    obtain x t where x: "asset_of st i = Some x" "?P x" "upsert_derivatives i ds (st_derivatives st) = Inr t"
        "asset_of st0 = (asset_of st)(i \<mapsto> ready_row now x)" "wf_assets st0" "st_derivatives st0 = t"
      using CompleteProcessing_fresh [OF c assms(2) open'] by metis
    have "(\<lambda>d. d\<lparr>d_asset := i\<rparr>) ` set ds = set ds" using assms(4) by (force simp: image_def)
    then have sub: "set t \<subseteq> set ds \<union> set (st_derivatives st)" using upsert_derivatives_set [OF x(3)] by auto
    have "st' = st0" "r = Ok () \<or> r = Err ErrCommitOutcomeUnknown"
      using assms(1) True seen open' unfolding commit_processing_def c
      by (auto split: commit_report.splits if_splits)
    then show thesis using published x rows sub by blast
  qed
qed

lemma variant_names: "fst ` set variants = {''small'', ''medium'', ''large''}" "distinct (map fst variants)"
    "\<forall>v\<in>fst ` set variants. CHR ''/'' \<notin> set v"
  by (simp_all add: variants_def)

definition attempt_keys :: "'a asset_scheme \<Rightarrow> string set" where
  "attempt_keys a = attempt_key a ` fst ` set variants"

lemma attempt_keys_safe:
  assumes "asset_dir (a_object_key a) es" "k \<in> attempt_keys a"
  shows "\<exists>es. root_safe es \<and> k = join_with ''/'' es"
proof -
  obtain v where v: "k = attempt_key a v" "v \<in> fst ` set variants" using assms(2) by (auto simp: attempt_keys_def)
  then have free: "CHR ''/'' \<notin> set v" using variant_names(3) by blast
  show ?thesis
    using attempt_key_path [OF assms(1) free] v(1) assms(1) attempt_path_proper [OF free] root_safe_append
    by (auto simp: asset_dir_def)
qed

definition only_keys :: "('b \<Rightarrow> string \<Rightarrow> object option) \<Rightarrow> string set \<Rightarrow> 'b \<Rightarrow> 'b \<Rightarrow> bool" where
  "only_keys content K b b' \<longleftrightarrow> (\<forall>fs j. root_safe fs \<longrightarrow> j = join_with ''/'' fs \<longrightarrow> j \<notin> K \<longrightarrow> content b' j = content b j)"

lemma only_keys_refl [simp]: "only_keys content K b b"
  by (simp add: only_keys_def)

lemma only_keys_trans: "only_keys content K b b1 \<Longrightarrow> only_keys content K b1 b2 \<Longrightarrow> only_keys content K b b2"
  unfolding only_keys_def by metis

definition stored :: "('b \<Rightarrow> string \<Rightarrow> object option) \<Rightarrow> 'b \<Rightarrow> derivative \<Rightarrow> bool" where
  "stored content b d \<longleftrightarrow> (\<exists>c. content b (d_object_key d) = Some (c, d_etag d) \<and> d_size d = int (length c))"

text \<open>The publication of an attempt: its row becomes ready and its new derivatives have their objects.\<close>

definition publishes :: "('b \<Rightarrow> string \<Rightarrow> object option) \<Rightarrow> asset \<Rightarrow> store \<Rightarrow> store \<Rightarrow> 'b \<Rightarrow> bool" where
  "publishes content a st st' b' \<longleftrightarrow> (\<exists>x now ds. asset_of st (a_id a) = Some x \<and> processing_fence (a_id a) (a_etag a) (a_processing_attempts a) x
     \<and> asset_of st' = (asset_of st)(a_id a \<mapsto> ready_row now x) \<and> wf_assets st' \<and> keyed dkey (st_derivatives st')
     \<and> set (st_derivatives st') \<subseteq> set ds \<union> set (st_derivatives st)
     \<and> (\<forall>d\<in>set ds. d_asset d = a_id a \<and> d_variant d \<in> fst ` set variants \<and> d_object_key d = attempt_key a (d_variant d) \<and> stored content b' d))"

lemma fenced_publishes_nothing:
  assumes "placed st" "\<And>r. a_id (f r) = a_id r" "\<And>r. a_processing_status r = ProcessingPending \<Longrightarrow> row_moves r (f r)"
  shows "publishes_nothing st (UPDATE_assets (processing_fence i etag n) f st)"
  by (rule publishes_nothing_UPDATE [OF assms(1,2)]) (simp add: processing_fence_def assms(3))

lemma FailProcessing_nothing: "placed st \<Longrightarrow> FailProcessing i etag n d now st = (r, st') \<Longrightarrow> publishes_nothing st st'"
  using fenced_publishes_nothing [of st "failed_row d now"] failed_moves
  by (auto simp: FailProcessing_def Let_def split: if_splits)

lemma ScheduleProcessingRetry_nothing:
  "placed st \<Longrightarrow> ScheduleProcessingRetry i etag n d t now st = (r, st') \<Longrightarrow> publishes_nothing st st'"
  using fenced_publishes_nothing [of st "\<lambda>r. r\<lparr>a_processing_error := d, a_processing_next := t, a_processing_claimed := 0, a_updated := now\<rparr>"]
  by (auto simp: ScheduleProcessingRetry_def Let_def row_moves_def split: if_splits)

context derivative_objects
begin

lemma written_effect:
  assumes "write_variants w a picture now (take n variants) b = ((err, keys, ds), b')" "dw_blobs w = ops"
    and "asset_dir (a_object_key a) es" "0 \<le> a_processing_attempts a"
  shows "set keys \<subseteq> attempt_keys a \<and> only_keys content (attempt_keys a) b b'
    \<and> (\<forall>d\<in>set ds. d_asset d = a_id a \<and> d_object_key d = attempt_key a (d_variant d))
    \<and> (err = None \<longrightarrow> (\<forall>d\<in>set ds. d_variant d \<in> fst ` set variants \<and> stored content b' d))"
proof -
  have sub: "fst ` set (take n variants) \<subseteq> fst ` set variants" using set_take_subset [of n variants] by blast
  have "distinct (map fst (take n variants))" by (metis distinct_take take_map variant_names(2))
  note effect = write_variants_effect [OF assms(1-3) _ assms(4) this]
  have "\<forall>v\<in>fst ` set (take n variants). CHR ''/'' \<notin> set v" using sub variant_names(3) by blast
  note effect = effect [OF this]
  have "map d_variant ds = map fst (take n variants) \<Longrightarrow> \<forall>d\<in>set ds. d_variant d \<in> fst ` set variants"
    using sub by (metis image_eqI image_set subsetD)
  then have names: "err = None \<Longrightarrow> \<forall>d\<in>set ds. d_variant d \<in> fst ` set variants" using effect by simp
  have sub': "attempt_key a ` fst ` set (take n variants) \<subseteq> attempt_keys a"
    unfolding attempt_keys_def by (rule image_mono [OF sub])
  then have keys: "set keys \<subseteq> attempt_keys a" using effect [THEN conjunct1] by (rule order_trans [rotated])
  have "only_keys content (attempt_keys a) b b'"
    using effect [THEN conjunct2, THEN conjunct1] sub' unfolding only_keys_def by (meson subsetD)
  moreover have "err = None \<longrightarrow> (\<forall>d\<in>set ds. stored content b' d)"
    using effect [THEN conjunct2, THEN conjunct2, THEN conjunct1] by (simp add: stored_def)
  moreover have "\<forall>d\<in>set ds. d_asset d = a_id a \<and> d_object_key d = attempt_key a (d_variant d)"
    using effect [THEN conjunct2, THEN conjunct2, THEN conjunct2, THEN conjunct1] .
  ultimately show ?thesis using keys names by simp
qed

lemma process_effect:
  assumes "process w a now (st, b) = ((keys, err), (st', b'))" "dw_blobs w = ops" "placed st" "keyed dkey (st_derivatives st)"
    and "asset_dir (a_object_key a) es" "0 \<le> a_processing_attempts a"
    and "affected (processing_fence (a_id a) (a_etag a) (a_processing_attempts a)) (st_assets st) = 1
      \<Longrightarrow> \<forall>d\<in>set (st_derivatives st). d_asset d \<noteq> a_id a"
  shows "set keys \<subseteq> attempt_keys a \<and> only_keys content (attempt_keys a) b b'
    \<and> (st' = st \<or> publishes content a st st' b' \<and> (err = None \<or> (\<exists>s. err = Some (Broken s ErrCommitOutcomeUnknown))))"
proof -
  consider "keys = []" "st' = st" "b' = b"
    | picture ds e where "write_variants w a picture now variants b = ((Some e, keys, ds), b')" "st' = st"
    | picture ds r where "write_variants w a picture now variants b = ((None, keys, ds), b')"
        "commit_processing (dw_commit w) (a_id a) (a_etag a) (a_processing_attempts a) ds now st = (r, st')"
        "err = (case r of Inl e \<Rightarrow> Some (Broken ''complete processing: '' e) | Inr _ \<Rightarrow> None)"
    using assms(1) by (auto simp: process_def split: sum.splits prod.splits option.splits)
  then show ?thesis
  proof cases
    case 1 then show ?thesis by simp
  next
    case 2
    have all: "take 3 variants = variants" by (simp add: variants_def)
    show ?thesis using written_effect [where n = 3, unfolded all, OF 2(1) assms(2,5,6)] 2(2) by blast
  next
    case 3
    have all: "take 3 variants = variants" by (simp add: variants_def)
    have eff: "set keys \<subseteq> attempt_keys a" "only_keys content (attempt_keys a) b b'"
      and ds: "\<forall>d\<in>set ds. d_asset d = a_id a \<and> d_object_key d = attempt_key a (d_variant d)"
        "\<forall>d\<in>set ds. d_variant d \<in> fst ` set variants \<and> stored content b' d"
      using written_effect [where n = 3, unfolded all, OF 3(1) assms(2,5,6)] by simp_all
    have wf: "wf_assets st" using assms(3) by (simp add: placed_def)
    have ids: "\<forall>d\<in>set ds. d_asset d = a_id a" using ds(1) by blast
    show ?thesis
    proof (rule commit_cases [OF 3(2) wf assms(4) ids])
      assume "affected (processing_fence (a_id a) (a_etag a) (a_processing_attempts a)) (st_assets st) = 1"
      then show "\<forall>d\<in>set (st_derivatives st). d_asset d \<noteq> a_id a" by (rule assms(7))
    next
      fix x
      assume pub: "asset_of st (a_id a) = Some x" "processing_fence (a_id a) (a_etag a) (a_processing_attempts a) x"
        "asset_of st' = (asset_of st)(a_id a \<mapsto> ready_row now x)" "wf_assets st'" "keyed dkey (st_derivatives st')"
        "set (st_derivatives st') \<subseteq> set ds \<union> set (st_derivatives st)" and r: "r = Ok () \<or> r = Err ErrCommitOutcomeUnknown"
      have "publishes content a st st' b'" unfolding publishes_def using pub ds by blast
      then show ?thesis using eff r 3(3) by auto
    next
      assume "st' = st" then show ?thesis using eff by simp
    qed
  qed
qed

lemma claimed_effect:
  assumes "processClaimed w a persist now later (st, b) = (r, (st', b'))" "dw_blobs w = ops" "placed st" "keyed dkey (st_derivatives st)"
    and "asset_dir (a_object_key a) es" "0 \<le> a_processing_attempts a"
    and "affected (processing_fence (a_id a) (a_etag a) (a_processing_attempts a)) (st_assets st) = 1
      \<Longrightarrow> \<forall>d\<in>set (st_derivatives st). d_asset d \<noteq> a_id a"
  shows "only_keys content (attempt_keys a) b b' \<and> (publishes_nothing st st' \<or> publishes content a st st' b')"
proof -
  obtain keys err st1 b1 where p: "process w a now (st, b) = ((keys, err), (st1, b1))"
    by (cases "process w a now (st, b)") auto
  note effect = process_effect [OF p assms(2-7)]
  show ?thesis
  proof (cases "err = None \<or> (\<exists>s. err = Some (Broken s ErrCommitOutcomeUnknown))")
    case True
    then have "st' = st1" "b' = b1" using assms(1) p by (auto simp: processClaimed_def)
    then show ?thesis using effect publishes_nothing_refl [OF assms(3)] by auto
  next
    case False
    then have st1: "st1 = st" using effect by auto
    obtain e where e: "err = Some e" "\<not> (\<exists>s. e = Broken s ErrCommitOutcomeUnknown)" using False by auto
    obtain t b2 where d: "delete_written w keys (error_text (dw_text w) e) b1 = (t, b2)"
      by (cases "delete_written w keys (error_text (dw_text w) e) b1")
    have keys: "\<forall>k\<in>set keys. \<exists>es. root_safe es \<and> k = join_with ''/'' es"
      using effect attempt_keys_safe [OF assms(5)] by blast
    have sub: "set keys \<subseteq> attempt_keys a" and b1: "only_keys content (attempt_keys a) b b1" using effect by simp_all
    have "only_keys content (attempt_keys a) b1 b2"
      unfolding only_keys_def using delete_written_other [OF d assms(2) keys] sub by (meson subsetD)
    then have only: "only_keys content (attempt_keys a) b b2" by (rule only_keys_trans [OF b1])
    define n where "n = a_processing_attempts a"
    define details where "details = truncate_text t 500"
    define nextAttempt where "nextAttempt = later + minute * 2 ^ nat (n - 1)"
    obtain rf sf where fail: "FailProcessing (a_id a) (a_etag a) n details later st = (rf, sf)"
      by (cases "FailProcessing (a_id a) (a_etag a) n details later st")
    obtain rs ss where retry: "ScheduleProcessingRetry (a_id a) (a_etag a) n details nextAttempt later st = (rs, ss)"
      by (cases "ScheduleProcessingRetry (a_id a) (a_etag a) n details nextAttempt later st")
    have eq: "processClaimed w a persist now later (st, b) =
        (if is_invalid e \<or> n \<ge> 5 then
           (if persist then (Err (ErrOther t), (sf, b2))
            else (Ok \<lparr>prs_state = ProcessTerminal, prs_retry_at = 0, prs_attempt = n, prs_details = details\<rparr>, (st, b2)))
         else (case rs of Inl _ \<Rightarrow> (Err (ErrOther t), (ss, b2))
           | Inr _ \<Rightarrow> if persist then (Err (ErrOther t), (ss, b2))
               else (Ok \<lparr>prs_state = ProcessRetry, prs_retry_at = nextAttempt, prs_attempt = 0, prs_details = []\<rparr>, (ss, b2))))"
      unfolding processClaimed_def p st1 prod.case option.case e(1) d Let_def if_not_P [OF e(2)]
      unfolding n_def [symmetric] details_def [symmetric] nextAttempt_def [symmetric] fail retry prod.case ..
    have "b' = b2 \<and> (st' = st \<or> st' = sf \<or> st' = ss)"
      using assms(1) unfolding eq by (simp split: if_split_asm sum.split_asm)
    then have "b' = b2 \<and> publishes_nothing st st'"
      using publishes_nothing_refl FailProcessing_nothing [OF _ fail] ScheduleProcessingRetry_nothing [OF _ retry] assms(3) by metis
    then show ?thesis using only by simp
  qed
qed

end

section \<open>Workers, crashes and the rest of the system\<close>

text \<open>
  The state is the store, the objects and the attempts that are running.  A running attempt reads the
  store only when it completes, so that its objects and its completion can be one step; a process that
  dies may have written some of its objects.  Every completion meets its own fate of the commit.  What
  the other components do leaves the published rows and the keys of attempts alone.
\<close>

type_synonym 'b deriv_state = "store \<times> 'b \<times> asset list"

inductive deriv_step :: "('i, 'b) deriv_worker \<Rightarrow> ('b \<Rightarrow> string \<Rightarrow> object option) \<Rightarrow> 'b deriv_state \<Rightarrow> 'b deriv_state \<Rightarrow> bool"
  for w :: "('i, 'b) deriv_worker" and content :: "'b \<Rightarrow> string \<Rightarrow> object option" where
  claim_message: "ClaimProcessing i etag now lease st = (Ok (a, ProcessingClaimed), st')
    \<Longrightarrow> deriv_step w content (st, b, run) (st', b, a # run)"
| claim_poll: "ClaimPendingProcessing now lease st = (Ok found, st')
    \<Longrightarrow> deriv_step w content (st, b, run) (st', b, (case found of None \<Rightarrow> run | Some a \<Rightarrow> a # run))"
| finish: "a \<in> set run \<Longrightarrow> processClaimed (w\<lparr>dw_commit := c\<rparr>) a persist now later (st, b) = (r, (st', b'))
    \<Longrightarrow> deriv_step w content (st, b, run) (st', b', removeAll a run)"
| die: "a \<in> set run \<Longrightarrow> write_variants w a picture now (take n variants) b = (out, b')
    \<Longrightarrow> deriv_step w content (st, b, run) (st, b', removeAll a run)"
| poison: "FailDerivativeToPoison f p now st = (r, st') \<Longrightarrow> deriv_step w content (st, b, run) (st', b, run)"
| elsewhere: "publishes_nothing st st' \<Longrightarrow> only_keys content K b b'
    \<Longrightarrow> (\<forall>i x n. asset_of st' i = Some x \<longrightarrow> K \<inter> attempt_keys (x\<lparr>a_processing_attempts := n\<rparr>) = {})
    \<Longrightarrow> deriv_step w content (st, b, run) (st', b', run)"

definition running_ok :: "store \<Rightarrow> asset list \<Rightarrow> bool" where
  "running_ok st run \<longleftrightarrow> (\<forall>a\<in>set run. \<exists>x. asset_of st (a_id a) = Some x \<and> a_object_key a = a_object_key x
      \<and> 0 \<le> a_processing_attempts a \<and> a_processing_attempts a \<le> a_processing_attempts x
      \<and> \<not> (a_processing_status x = ProcessingReady \<and> a_processing_attempts a = a_processing_attempts x))
    \<and> (\<forall>a\<in>set run. \<forall>b\<in>set run. a_id a = a_id b \<and> a_processing_attempts a = a_processing_attempts b \<longrightarrow> a = b)"

definition published_ok :: "('b \<Rightarrow> string \<Rightarrow> object option) \<Rightarrow> store \<Rightarrow> 'b \<Rightarrow> bool" where
  "published_ok content st b \<longleftrightarrow> keyed dkey (st_derivatives st) \<and> (\<forall>d\<in>set (st_derivatives st). \<exists>x. asset_of st (d_asset d) = Some x
     \<and> a_processing_status x = ProcessingReady \<and> d_variant d \<in> fst ` set variants
     \<and> d_object_key d = attempt_key x (d_variant d) \<and> stored content b d)"

definition deriv_inv :: "('b \<Rightarrow> string \<Rightarrow> object option) \<Rightarrow> 'b deriv_state \<Rightarrow> bool" where
  "deriv_inv content = (\<lambda>(st, b, run). placed st \<and> running_ok st run \<and> published_ok content st b)"

lemma attempt_key_row: "a_object_key y = a_object_key x \<Longrightarrow> a_processing_attempts y = a_processing_attempts x \<Longrightarrow> attempt_key y v = attempt_key x v"
  by (simp add: attempt_key_def)

lemma running_ok_moves:
  assumes "publishes_nothing st st'" "running_ok st run"
  shows "running_ok st' run"
proof -
  have "\<exists>y. asset_of st' (a_id a) = Some y \<and> a_object_key a = a_object_key y \<and> 0 \<le> a_processing_attempts a
      \<and> a_processing_attempts a \<le> a_processing_attempts y
      \<and> \<not> (a_processing_status y = ProcessingReady \<and> a_processing_attempts a = a_processing_attempts y)" if a: "a \<in> set run" for a
  proof -
    obtain x where x: "asset_of st (a_id a) = Some x" "a_object_key a = a_object_key x" "0 \<le> a_processing_attempts a"
        "a_processing_attempts a \<le> a_processing_attempts x"
        "\<not> (a_processing_status x = ProcessingReady \<and> a_processing_attempts a = a_processing_attempts x)"
      using assms(2) a unfolding running_ok_def by blast
    obtain y where y: "asset_of st' (a_id a) = Some y" "row_moves x y"
      using assms(1) x(1) unfolding publishes_nothing_def by blast
    show ?thesis using x y by (intro exI [of _ y]) (auto simp: row_moves_def)
  qed
  then show ?thesis using assms(2) by (simp add: running_ok_def)
qed

lemma published_ok_moves:
  assumes "publishes_nothing st st'" "published_ok content st b"
  shows "published_ok content st' b"
proof -
  have "\<exists>y. asset_of st' (d_asset d) = Some y \<and> a_processing_status y = ProcessingReady \<and> d_variant d \<in> fst ` set variants
      \<and> d_object_key d = attempt_key y (d_variant d) \<and> stored content b d" if d: "d \<in> set (st_derivatives st)" for d
  proof -
    obtain x where x: "asset_of st (d_asset d) = Some x" "a_processing_status x = ProcessingReady" "d_variant d \<in> fst ` set variants"
        "d_object_key d = attempt_key x (d_variant d)" "stored content b d"
      using assms(2) d unfolding published_ok_def by blast
    obtain y where y: "asset_of st' (d_asset d) = Some y" "row_moves x y"
      using assms(1) x(1) unfolding publishes_nothing_def by blast
    show ?thesis using x y attempt_key_row [of y x] by (intro exI [of _ y]) (auto simp: row_moves_def)
  qed
  then show ?thesis using assms unfolding published_ok_def publishes_nothing_def by simp
qed

lemma running_ok_handed:
  assumes "running_ok st run" "publishes_nothing st st'" "handed st st' a"
  shows "running_ok st' (a # run)"
proof -
  obtain x y where y: "asset_of st (a_id a) = Some x" "asset_of st' (a_id a) = Some y" "a = asset.truncate y"
      "a_processing_status y = ProcessingPending" "a_processing_attempts y = a_processing_attempts x + 1"
    using assms(3) unfolding handed_def by blast
  have fields: "a_object_key a = a_object_key y" "a_processing_attempts a = a_processing_attempts y"
    using y(3) by (simp_all add: asset.truncate_def)
  have "0 \<le> a_processing_attempts y" using assms(2) y(2) unfolding publishes_nothing_def placed_def by blast
  then have new: "\<exists>z. asset_of st' (a_id a) = Some z \<and> a_object_key a = a_object_key z \<and> 0 \<le> a_processing_attempts a
      \<and> a_processing_attempts a \<le> a_processing_attempts z
      \<and> \<not> (a_processing_status z = ProcessingReady \<and> a_processing_attempts a = a_processing_attempts z)"
    using y fields by (intro exI [of _ y]) simp
  have older: "a_processing_attempts c < a_processing_attempts a" if c: "c \<in> set run" "a_id c = a_id a" for c
  proof -
    obtain z where "asset_of st (a_id c) = Some z" "a_processing_attempts c \<le> a_processing_attempts z"
      using assms(1) c(1) unfolding running_ok_def by blast
    then show ?thesis using y(1,5) fields(2) c(2) by simp
  qed
  have rest: "running_ok st' run" using running_ok_moves [OF assms(2,1)] .
  show ?thesis unfolding running_ok_def
  proof (intro conjI ballI impI)
    fix c assume "c \<in> set (a # run)"
    then show "\<exists>z. asset_of st' (a_id c) = Some z \<and> a_object_key c = a_object_key z \<and> 0 \<le> a_processing_attempts c
        \<and> a_processing_attempts c \<le> a_processing_attempts z
        \<and> \<not> (a_processing_status z = ProcessingReady \<and> a_processing_attempts c = a_processing_attempts z)"
      using new rest unfolding running_ok_def by auto
  next
    fix c d assume "c \<in> set (a # run)" "d \<in> set (a # run)" "a_id c = a_id d \<and> a_processing_attempts c = a_processing_attempts d"
    then show "c = d" using older rest unfolding running_ok_def by (metis less_irrefl set_ConsD)
  qed
qed

lemma running_ok_remove: "running_ok st run \<Longrightarrow> running_ok st (removeAll a run)"
  unfolding running_ok_def by simp

lemma running_ok_ready:
  assumes "running_ok st run" "a \<in> set run" "asset_of st (a_id a) = Some x" "a_processing_attempts a = a_processing_attempts x"
    and "asset_of st' = (asset_of st)(a_id a \<mapsto> ready_row now x)"
  shows "running_ok st' (removeAll a run)"
  unfolding running_ok_def
proof (intro conjI ballI impI)
  fix c assume c: "c \<in> set (removeAll a run)"
  then obtain z where z: "asset_of st (a_id c) = Some z" "a_object_key c = a_object_key z" "0 \<le> a_processing_attempts c"
      "a_processing_attempts c \<le> a_processing_attempts z"
      "\<not> (a_processing_status z = ProcessingReady \<and> a_processing_attempts c = a_processing_attempts z)"
    using assms(1) unfolding running_ok_def by auto
  have "c \<noteq> a" "c \<in> set run" using c by auto
  then have "a_id c = a_id a \<Longrightarrow> a_processing_attempts c \<noteq> a_processing_attempts x"
    using assms(1,2,4) unfolding running_ok_def by metis
  then show "\<exists>z. asset_of st' (a_id c) = Some z \<and> a_object_key c = a_object_key z \<and> 0 \<le> a_processing_attempts c
      \<and> a_processing_attempts c \<le> a_processing_attempts z
      \<and> \<not> (a_processing_status z = ProcessingReady \<and> a_processing_attempts c = a_processing_attempts z)"
    using z assms(3,5) by (cases "a_id c = a_id a") (auto simp: ready_row_def)
qed (use assms(1) in \<open>auto simp: running_ok_def\<close>)

lemma key_foreign:
  assumes "placed st" "asset_of st i = Some x" "asset_of st (a_id a) = Some y" "a_object_key a = a_object_key y" "0 \<le> a_processing_attempts a"
    and "i \<noteq> a_id a \<or> a_processing_attempts x \<noteq> a_processing_attempts a" "v \<in> fst ` set variants"
  shows "attempt_key x v \<notin> attempt_keys a"
proof
  assume "attempt_key x v \<in> attempt_keys a"
  then obtain u where u: "u \<in> fst ` set variants" "attempt_key x v = attempt_key a u" by (auto simp: attempt_keys_def)
  obtain es where es: "asset_dir (a_object_key x) es" "0 \<le> a_processing_attempts x" using assms(1,2) unfolding placed_def by blast
  obtain fs where fs: "asset_dir (a_object_key a) fs" using assms(1,3,4) unfolding placed_def by metis
  have free: "CHR ''/'' \<notin> set v" "CHR ''/'' \<notin> set u" using assms(7) u(1) variant_names(3) by blast+
  have same: "es = fs" "a_processing_attempts x = a_processing_attempts a"
    using attempt_key_inj [OF es(1) fs free es(2) assms(5) u(2)] by simp_all
  then have "a_object_key x = a_object_key y" using es(1) fs assms(4) by (simp add: asset_dir_def)
  then have "i = a_id a" using assms(1-3) unfolding placed_def by blast
  then show False using assms(6) same(2) by simp
qed

lemma row_key_safe:
  assumes "placed st" "asset_of st i = Some x" "v \<in> fst ` set variants"
  shows "\<exists>es. root_safe es \<and> attempt_key x v = join_with ''/'' es"
proof -
  obtain es where "asset_dir (a_object_key x) es" using assms(1,2) unfolding placed_def by blast
  then show ?thesis by (rule attempt_keys_safe) (simp add: attempt_keys_def assms(3))
qed

lemma stored_elsewhere:
  assumes "only_keys content K b b'" "stored content b d" "root_safe es" "d_object_key d = join_with ''/'' es" "d_object_key d \<notin> K"
  shows "stored content b' d"
proof -
  have "content b' (d_object_key d) = content b (d_object_key d)" using assms unfolding only_keys_def by blast
  then show ?thesis using assms(2) by (simp add: stored_def)
qed

text \<open>Objects written elsewhere leave the published rows stored.\<close>

lemma published_ok_only:
  assumes "published_ok content st b" "placed st" "only_keys content K b b'"
    and "\<And>i x v. asset_of st i = Some x \<Longrightarrow> a_processing_status x = ProcessingReady \<Longrightarrow> v \<in> fst ` set variants \<Longrightarrow> attempt_key x v \<notin> K"
  shows "published_ok content st b'"
  unfolding published_ok_def
proof (intro conjI ballI)
  show "keyed dkey (st_derivatives st)" using assms(1) by (simp add: published_ok_def)
  fix d assume "d \<in> set (st_derivatives st)"
  then obtain x where x: "asset_of st (d_asset d) = Some x" "a_processing_status x = ProcessingReady" "d_variant d \<in> fst ` set variants"
      "d_object_key d = attempt_key x (d_variant d)" "stored content b d"
    using assms(1) unfolding published_ok_def by blast
  obtain es where "root_safe es" "d_object_key d = join_with ''/'' es" using row_key_safe [OF assms(2) x(1,3)] x(4) by auto
  then have "stored content b' d" by (rule stored_elsewhere [OF assms(3) x(5)]) (use assms(4) x in simp)
  then show "\<exists>x. asset_of st (d_asset d) = Some x \<and> a_processing_status x = ProcessingReady \<and> d_variant d \<in> fst ` set variants
      \<and> d_object_key d = attempt_key x (d_variant d) \<and> stored content b' d"
    using x by blast
qed

lemma running_foreign:
  assumes "placed st" "running_ok st run" "a \<in> set run" "asset_of st i = Some x" "a_processing_status x = ProcessingReady" "v \<in> fst ` set variants"
  shows "attempt_key x v \<notin> attempt_keys a"
proof -
  obtain y where y: "asset_of st (a_id a) = Some y" "a_object_key a = a_object_key y" "0 \<le> a_processing_attempts a"
      "\<not> (a_processing_status y = ProcessingReady \<and> a_processing_attempts a = a_processing_attempts y)"
    using assms(2,3) unfolding running_ok_def by blast
  show ?thesis by (rule key_foreign [OF assms(1,4) y(1-3) _ assms(6)]) (use y(1,4) assms(4,5) in auto)
qed

lemma placed_ready:
  assumes "placed st" "asset_of st i = Some x" "asset_of st' = (asset_of st)(i \<mapsto> ready_row now x)" "wf_assets st'"
  shows "placed st'"
proof -
  have r: "a_object_key (ready_row now x) = a_object_key x" "a_processing_attempts (ready_row now x) = a_processing_attempts x"
    by (simp_all add: ready_row_def)
  have prior: "\<exists>z. asset_of st j = Some z \<and> a_object_key y = a_object_key z \<and> a_processing_attempts y = a_processing_attempts z"
    if "asset_of st' j = Some y" for j y
    using that assms(2) r by (cases "j = i") (auto simp: assms(3))
  show ?thesis unfolding placed_def
  proof (intro conjI allI impI)
    show "wf_assets st'" by (rule assms(4))
    fix j y assume y: "asset_of st' j = Some y"
    obtain z where z: "asset_of st j = Some z" "a_object_key y = a_object_key z" "a_processing_attempts y = a_processing_attempts z"
      using prior [OF y] by blast
    then show "\<exists>es. asset_dir (a_object_key y) es" "0 \<le> a_processing_attempts y" using assms(1) unfolding placed_def by auto
    fix k w assume "asset_of st' k = Some w" "a_object_key y = a_object_key w"
    then show "j = k" using assms(1) z prior [of k w] unfolding placed_def by metis
  qed
qed

lemma published_ok_publishes:
  assumes "published_ok content st b" "placed st" "running_ok st run" "a \<in> set run"
    and "publishes content a st st' b'" "only_keys content (attempt_keys a) b b'"
  shows "placed st' \<and> running_ok st' (removeAll a run) \<and> published_ok content st' b'"
proof -
  obtain x now ds where x: "asset_of st (a_id a) = Some x" "processing_fence (a_id a) (a_etag a) (a_processing_attempts a) x"
     and st': "asset_of st' = (asset_of st)(a_id a \<mapsto> ready_row now x)" "wf_assets st'" "keyed dkey (st_derivatives st')"
     and ds: "set (st_derivatives st') \<subseteq> set ds \<union> set (st_derivatives st)"
       "\<forall>d\<in>set ds. d_asset d = a_id a \<and> d_variant d \<in> fst ` set variants \<and> d_object_key d = attempt_key a (d_variant d) \<and> stored content b' d"
    using assms(5) unfolding publishes_def by blast
  obtain y where y: "asset_of st (a_id a) = Some y" "a_object_key a = a_object_key y"
    using assms(3,4) unfolding running_ok_def by blast
  have row: "a_object_key (ready_row now x) = a_object_key a" "a_processing_attempts (ready_row now x) = a_processing_attempts a"
    using x y by (simp_all add: ready_row_def processing_fence_def)
  have old: "published_ok content st b'"
    by (rule published_ok_only [OF assms(1,2,6)]) (rule running_foreign [OF assms(2-4)])
  have "\<exists>z. asset_of st' (d_asset d) = Some z \<and> a_processing_status z = ProcessingReady \<and> d_variant d \<in> fst ` set variants
      \<and> d_object_key d = attempt_key z (d_variant d) \<and> stored content b' d" if d: "d \<in> set (st_derivatives st')" for d
  proof (cases "d \<in> set ds")
    case True
    have "a_processing_status (ready_row now x) = ProcessingReady" by (simp add: ready_row_def)
    then show ?thesis using True ds(2) st'(1) attempt_key_row [OF row] by (intro exI [of _ "ready_row now x"]) simp
  next
    case False
    then obtain z where z: "asset_of st (d_asset d) = Some z" "a_processing_status z = ProcessingReady" "d_variant d \<in> fst ` set variants"
        "d_object_key d = attempt_key z (d_variant d)" "stored content b' d"
      using old d ds(1) unfolding published_ok_def by blast
    then have "d_asset d \<noteq> a_id a" using x by (auto simp: processing_fence_def)
    then show ?thesis using z st'(1) by auto
  qed
  then have "published_ok content st' b'" using st'(3) by (simp add: published_ok_def)
  moreover have "running_ok st' (removeAll a run)"
    by (rule running_ok_ready [OF assms(3,4) x(1) _ st'(1)]) (use x(2) in \<open>simp add: processing_fence_def\<close>)
  ultimately show ?thesis using placed_ready [OF assms(2) x(1) st'(1,2)] by blast
qed

context derivative_objects
begin

lemma finish_keeps:
  assumes "deriv_inv content (st, b, run)" "a \<in> set run" "dw_blobs w = ops"
    and "processClaimed w a persist now later (st, b) = (r, (st', b'))"
  shows "deriv_inv content (st', b', removeAll a run)"
proof -
  have inv: "placed st" "running_ok st run" "published_ok content st b" using assms(1) by (auto simp: deriv_inv_def)
  obtain x where x: "asset_of st (a_id a) = Some x" "a_object_key a = a_object_key x" "0 \<le> a_processing_attempts a"
    using inv(2) assms(2) unfolding running_ok_def by blast
  obtain es where es: "asset_dir (a_object_key a) es" using inv(1) x(1,2) unfolding placed_def by metis
  have keyed: "keyed dkey (st_derivatives st)" using inv(3) by (simp add: published_ok_def)
  have norows: "\<forall>d\<in>set (st_derivatives st). d_asset d \<noteq> a_id a"
    if fence: "affected (processing_fence (a_id a) (a_etag a) (a_processing_attempts a)) (st_assets st) = 1"
  proof -
    have "wf_assets st" using inv(1) by (simp add: placed_def)
    then have "a_processing_status x = ProcessingPending"
      using processing_fence_row [OF _ fence] x(1) by (metis option.inject processing_fence_def)
    then show ?thesis using inv(3) x(1) unfolding published_ok_def by force
  qed
  have effect: "only_keys content (attempt_keys a) b b'" "publishes_nothing st st' \<or> publishes content a st st' b'"
    using claimed_effect [OF assms(4,3) inv(1) keyed es x(3) norows] by auto
  from effect(2) show ?thesis
  proof
    assume "publishes content a st st' b'"
    then show ?thesis using published_ok_publishes [OF inv(3,1,2) assms(2) _ effect(1)] by (simp add: deriv_inv_def)
  next
    assume quiet: "publishes_nothing st st'"
    have "published_ok content st b'"
      by (rule published_ok_only [OF inv(3,1) effect(1)]) (rule running_foreign [OF inv(1,2) assms(2)])
    then show ?thesis
      using published_ok_moves [OF quiet] running_ok_remove [OF running_ok_moves [OF quiet inv(2)]] publishes_nothing_placed [OF quiet]
      by (simp add: deriv_inv_def)
  qed
qed

lemma die_keeps:
  assumes "deriv_inv content (st, b, run)" "a \<in> set run" "dw_blobs w = ops"
    and "write_variants w a picture now (take n variants) b = (out, b')"
  shows "deriv_inv content (st, b', removeAll a run)"
proof -
  have inv: "placed st" "running_ok st run" "published_ok content st b" using assms(1) by (auto simp: deriv_inv_def)
  obtain x where x: "asset_of st (a_id a) = Some x" "a_object_key a = a_object_key x" "0 \<le> a_processing_attempts a"
    using inv(2) assms(2) unfolding running_ok_def by blast
  obtain es where es: "asset_dir (a_object_key a) es" using inv(1) x(1,2) unfolding placed_def by metis
  obtain err keys ds where out: "out = (err, keys, ds)" by (cases out)
  have "only_keys content (attempt_keys a) b b'"
    using written_effect [OF assms(4) [unfolded out] assms(3) es x(3)] by blast
  then have "published_ok content st b'"
    by (rule published_ok_only [OF inv(3,1)]) (rule running_foreign [OF inv(1,2) assms(2)])
  then show ?thesis using inv running_ok_remove by (simp add: deriv_inv_def)
qed

lemma quiet_keeps:
  assumes "deriv_inv content (st, b, run)" "publishes_nothing st st'"
  shows "deriv_inv content (st', b, run)"
  using assms published_ok_moves [OF assms(2), of content b] running_ok_moves [OF assms(2)] publishes_nothing_placed [OF assms(2)]
  by (simp add: deriv_inv_def)

lemma poison_quiet: "placed st \<Longrightarrow> FailDerivativeToPoison f p now st = (r, st') \<Longrightarrow> publishes_nothing st st'"
proof -
  assume a: "placed st" "FailDerivativeToPoison f p now st = (r, st')"
  let ?st1 = "UPDATE_assets (processing_fence (pf_asset f) (pf_etag f) (pf_expected_attempt f)) (failed_row (pf_details f) now) st"
  have q: "publishes_nothing st ?st1" using fenced_publishes_nothing [OF a(1), of "failed_row (pf_details f) now"] failed_moves by simp
  have poison_rows: "publishes_nothing st s \<Longrightarrow> publishes_nothing st (s\<lparr>st_derivative_poison := t\<rparr>)" for s t
    by (simp add: publishes_nothing_def placed_def asset_of_def wf_assets_def)
  have "st' = st \<or> (\<exists>t. st' = ?st1\<lparr>st_derivative_poison := t\<rparr>) \<or> (\<exists>t. st' = st\<lparr>st_derivative_poison := t\<rparr>)"
    using a(2) by (cases r) (auto simp: FailDerivativeToPoison_def tx_Err_iff Let_def split: if_splits option.splits)
  then show ?thesis using q poison_rows publishes_nothing_refl [OF a(1)] by blast
qed

lemma step_keeps:
  assumes "deriv_step w content s s'" "deriv_inv content s" "dw_blobs w = ops"
  shows "deriv_inv content s'"
  using assms
proof (cases rule: deriv_step.cases)
  case (claim_message i etag now lease st a st' b run)
  have inv: "placed st" "running_ok st run" "published_ok content st b" using assms(2) claim_message(1) by (auto simp: deriv_inv_def)
  have h: "publishes_nothing st st'" "handed st st' a" using ClaimProcessing_handed [OF claim_message(3) inv(1)] by auto
  show ?thesis
    using claim_message(2) publishes_nothing_placed [OF h(1)] running_ok_handed [OF inv(2) h] published_ok_moves [OF h(1) inv(3)]
    by (simp add: deriv_inv_def)
next
  case (claim_poll now lease st found st' b run)
  have inv: "placed st" "running_ok st run" "published_ok content st b" using assms(2) claim_poll(1) by (auto simp: deriv_inv_def)
  have h: "publishes_nothing st st'" "\<forall>a. found = Some a \<longrightarrow> handed st st' a"
    using ClaimPendingProcessing_handed [OF claim_poll(3) inv(1)] by auto
  have "running_ok st' (case found of None \<Rightarrow> run | Some a \<Rightarrow> a # run)"
    using h running_ok_moves [OF h(1) inv(2)] running_ok_handed [OF inv(2) h(1)] by (cases found) auto
  then show ?thesis using claim_poll(2) publishes_nothing_placed [OF h(1)] published_ok_moves [OF h(1) inv(3)] by (simp add: deriv_inv_def)
next
  case (finish a run c persist now later st b r st' b')
  then show ?thesis using finish_keeps [of st b run a "w\<lparr>dw_commit := c\<rparr>"] assms(2,3) by simp
next
  case (die a run picture now n b out b' st)
  then show ?thesis using die_keeps [of st b run a w] assms(2,3) by simp
next
  case (poison f p now st r st' b run)
  have "placed st" using assms(2) poison(1) by (simp add: deriv_inv_def)
  then have "publishes_nothing st st'" by (rule poison_quiet [OF _ poison(3)])
  then show ?thesis using quiet_keeps [of st b run st'] poison(1,2) assms(2) by simp
next
  case (elsewhere st st' K b b' run)
  have inv: "deriv_inv content (st', b, run)" using quiet_keeps elsewhere(1,3) assms(2) by simp
  then have "published_ok content st' b'"
  proof -
    have i: "published_ok content st' b" "placed st'" using inv by (auto simp: deriv_inv_def)
    show ?thesis
    proof (rule published_ok_only [OF i elsewhere(4)])
      fix j x v assume "asset_of st' j = Some x" "v \<in> fst ` set variants"
      then have "K \<inter> attempt_keys x = {}" using elsewhere(5) [rule_format, of j x "a_processing_attempts x"] by simp
      moreover have "attempt_key x v \<in> attempt_keys x" using \<open>v \<in> fst ` set variants\<close> unfolding attempt_keys_def by (rule imageI)
      ultimately show "attempt_key x v \<notin> K" by blast
    qed
  qed
  then show ?thesis using inv elsewhere(2) by (simp add: deriv_inv_def)
qed

end

text \<open>The local store as the object store of the worker.\<close>

definition local_deriv :: "local_env \<Rightarrow> time \<Rightarrow> local_files deriv_blobs" where
  "local_deriv le mtime = \<lparr>dv_open = (\<lambda>k e. Local_Open k \<lparr>br_offset = 0, br_count = 0, br_suffix = 0\<rparr> e),
     dv_put = (\<lambda>k data mime. Local_Put le k data (int (length data)) mtime), dv_delete = Local_Delete\<rparr>"

lemma root_safe_plain: "root_safe es \<Longrightarrow> k = join_with ''/'' es \<Longrightarrow> plain_key k"
proof -
  assume a: "root_safe es" "k = join_with ''/'' es"
  obtain e fs where es: "es = e # fs" using a(1) by (cases es) (auto simp: root_safe_def)
  obtain r where r: "k = e @ r" using join_first [of "''/''" e fs] a(2) es by auto
  have e: "e \<noteq> []" "e \<noteq> ''.''" "take 2 e \<noteq> ''..''" using a(1) es by (auto simp: root_safe_def proper_element_def)
  have "take 2 k \<noteq> ''..''"
  proof
    assume dots: "take 2 k = ''..''"
    show False
    proof (cases "length e \<ge> 2")
      case True then show False using dots r e(3) by simp
    next
      case False
      have "0 < length e" using e(1) by simp
      then have "length e = 1" using False by linarith
      then obtain c where "e = [c]" by (auto simp: length_Suc_conv)
      then show False using dots r e(2) by simp
    qed
  qed
  then show "plain_key k" using a plain_keyI [of es] by (auto simp: root_safe_def)
qed

lemma Local_Put_plain:
  assumes "plain_key k"
  shows "\<exists>p. Local_Put le k data (int (length data)) t fs = (Ok p, fs(k \<mapsto> \<lparr>lf_bytes = data, lf_mtime = t\<rparr>))
    \<and> bp_size p = int (length data) \<and> bp_etag p = file_etag \<lparr>lf_bytes = data, lf_mtime = t\<rparr>"
proof -
  have "take (nat (int (length data) + 1)) data = data" by simp
  then show ?thesis using assms by (simp add: Local_Put_def Local_put_def inspect_plain plain_key_def Let_def)
qed

interpretation local_objects: derivative_objects "local_deriv le mtime" local_content for le mtime
proof (unfold_locales, goal_cases)
  case (1 es k data mime b p b')
  then show ?case using Local_Put_plain [OF root_safe_plain [OF 1(1,2)], of le data mtime b]
    by (auto simp: local_deriv_def local_content_def)
next
  case (2 es k data mime b r b' fs j)
  then show ?case using Local_Put_plain [OF root_safe_plain [OF 2(1,2)], of le data mtime b]
    by (auto simp: local_deriv_def local_content_def)
next
  case (3 es k b r' b' fs j)
  then show ?case using root_safe_plain [OF 3(1,2)] by (auto simp: local_deriv_def Local_Delete_def plain_key_def local_content_def)
qed

section \<open>Properties\<close>


end
