(* ===== verification/Scan_Props.thy ===== *)
theory Scan_Props
  imports Scan_Worker
begin

text \<open>
  What the scanning workers guarantee: a clean verdict is earned by the bytes of the object, and a
  message leaves the queue only when its scan is decided.
\<close>

section \<open>Which assets become clean\<close>

definition no_new_clean :: "store \<Rightarrow> store \<Rightarrow> bool" where
  "no_new_clean st st' \<longleftrightarrow> (\<forall>i y. asset_of st' i = Some y \<and> a_scan_status y = ScanClean
     \<longrightarrow> (\<exists>x. asset_of st i = Some x \<and> a_scan_status x = ScanClean))"

lemma no_new_clean_refl [simp]: "no_new_clean st st"
  by (simp add: no_new_clean_def)

lemma no_new_clean_same: "st_assets st' = st_assets st \<Longrightarrow> no_new_clean st st'"
  by (simp add: no_new_clean_def asset_of_def)

lemma no_new_clean_trans: "no_new_clean st st1 \<Longrightarrow> no_new_clean st1 st' \<Longrightarrow> no_new_clean st st'"
  unfolding no_new_clean_def by blast

lemma no_new_clean_UPDATE:
  assumes "\<And>r. a_id (f r) = a_id r" "\<And>r. a_scan_status (f r) = ScanClean \<Longrightarrow> a_scan_status r = ScanClean"
  shows "no_new_clean st (UPDATE_assets P f st)"
  using assms(2) by (auto simp: no_new_clean_def asset_of_UPDATE [OF assms(1)] split: if_splits)

lemma ClaimAssetScan_store: "snd (ClaimAssetScan e i etag now lease st) = UPDATE_assets (lease_fence e i etag now) (leased_row now lease) st"
  by (auto simp: ClaimAssetScan_def Let_def split: sum.split)

lemma ClaimAssetScan_clean: "ClaimAssetScan e i etag now lease st = (r, st') \<Longrightarrow> no_new_clean st st'"
  using ClaimAssetScan_store [of e i etag now lease st] no_new_clean_UPDATE [of "leased_row now lease"]
  by (metis leased_row_keeps(1,4) snd_conv)

lemma RecordScanPoison_assets: "RecordScanPoison p now st = (r, st') \<Longrightarrow> st_assets st' = st_assets st \<and> st_scan_events st' = st_scan_events st"
  by (cases r) (auto simp: RecordScanPoison_def tx_Err_iff)

lemma FailScanToPoison_cases:
  assumes "FailScanToPoison res p now st = (r, st')" "wf_assets st"
  obtains (error) e where "r = Err e" "st' = st"
  | (seen) b where "r = Ok b" "has_scan_event st (res_event res)" "st_assets st' = st_assets st" "st_scan_events st' = st_scan_events st"
  | (failed) b x where "r = Ok b" "\<not> has_scan_event st (res_event res)" "asset_of st (res_asset res) = Some x" "scan_fence res x"
      "asset_of st' = (asset_of st)(res_asset res \<mapsto> scanned_row ScanFailed res now x)"
      "\<And>ev. has_scan_event st' ev \<longleftrightarrow> ev = res_event res \<or> has_scan_event st ev"
proof (cases r)
  case (Inl e)
  then show thesis using assms(1) error by (auto simp: FailScanToPoison_def tx_Err_iff)
next
  case (Inr b)
  then obtain ins st1 st2 t where 1: "INSERT_scan_event res now st = Inr (ins, st1)"
    and 2: "(if \<not> ins then Ok st1 else if affected (scan_fence res) (st_assets st1) \<noteq> 1 then Err ErrConflict
               else Ok (UPDATE_assets (scan_fence res) (scanned_row ScanFailed res now) st1)) = Inr st2"
    and 3: "st' = st2\<lparr>st_scan_poison := t\<rparr>"
    using assms(1) unfolding FailScanToPoison_def by (auto split: prod.splits)
  show thesis
  proof (cases ins)
    case False
    then show thesis using 1 2 3 Inr by (intro seen) (auto simp: INSERT_scan_event_Ok split: if_splits)
  next
    case True
    then have st1: "st_assets st1 = st_assets st" "\<not> has_scan_event st (res_event res)"
        "\<And>ev. has_scan_event st1 ev \<longleftrightarrow> ev = res_event res \<or> has_scan_event st ev"
      using 1 by (auto simp: INSERT_scan_event_Ok has_scan_event_def split: if_splits)
    have st2: "st2 = UPDATE_assets (scan_fence res) (scanned_row ScanFailed res now) st1" "affected (scan_fence res) (st_assets st1) = 1"
      using 2 True by (auto split: if_splits)
    have wf1: "wf_assets st1" using assms(2) st1 by (simp add: wf_assets_def)
    obtain x where x: "asset_of st1 (res_asset res) = Some x" "scan_fence res x"
      using scan_fence_affected [OF wf1 st2(2)] by blast
    have same: "asset_of st1 = asset_of st" using st1(1) by (simp add: asset_of_def fun_eq_iff)
    have "asset_of st' = asset_of st2" using 3 by (simp add: asset_of_def fun_eq_iff)
    also have "\<dots> = (asset_of st)(res_asset res \<mapsto> scanned_row ScanFailed res now x)"
      using x by (auto simp: fun_eq_iff st2(1) same asset_of_UPDATE map_option_case scan_fence_def split: option.splits)
    finally show thesis
      using failed [OF Inr st1(2) _ x(2)] x(1) same st1(3) 3 st2(1) by (simp add: has_scan_event_def UPDATE_assets_def)
  qed
qed

lemma settle_poison_cases:
  assumes "settle_poison j p now terminal (st, log) = (r, (st', log'))"
  obtains f st1 where "(case terminal of Some res \<Rightarrow> FailScanToPoison res p now st | None \<Rightarrow> RecordScanPoison p now st) = (f, st1)"
    "st_assets st' = st_assets st1" "st_scan_events st' = st_scan_events st1"
    "Ack \<in> set log' \<Longrightarrow> Ack \<notin> set log \<Longrightarrow> is_ok f"
proof -
  obtain f st1 where f: "(case terminal of Some res \<Rightarrow> FailScanToPoison res p now st | None \<Rightarrow> RecordScanPoison p now st) = (f, st1)"
    by (cases "case terminal of Some res \<Rightarrow> FailScanToPoison res p now st | None \<Rightarrow> RecordScanPoison p now st") auto
  show thesis
    by (rule that [OF f]) (use assms in \<open>auto simp: settle_poison_def f ask_def MarkScanPoisonForwarded_def split: sum.splits if_splits prod.splits\<close>)
qed

lemma FailScanToPoison_clean:
  assumes "FailScanToPoison res p now st = (r, st')" "wf_assets st"
  shows "no_new_clean st st'"
  by (rule FailScanToPoison_cases [OF assms])
    (auto simp: no_new_clean_same, auto simp: no_new_clean_def split: if_splits)

lemma settle_poison_clean:
  assumes "settle_poison j p now terminal (st, log) = (r, (st', log'))" "wf_assets st"
  shows "no_new_clean st st'"
proof -
  obtain f st1 where f: "(case terminal of Some res \<Rightarrow> FailScanToPoison res p now st | None \<Rightarrow> RecordScanPoison p now st) = (f, st1)"
    "st_assets st' = st_assets st1" by (rule settle_poison_cases [OF assms(1)]) (rule that)
  have "no_new_clean st st1"
    using f(1) FailScanToPoison_clean [OF _ assms(2)] RecordScanPoison_assets no_new_clean_same by (fastforce split: option.splits)
  then show ?thesis using f(2) no_new_clean_same no_new_clean_trans by blast
qed

lemma reschedule_assets: "reschedule_scan j a c d t (st, log) = (r, (st', log')) \<Longrightarrow> no_new_clean st st'"
proof -
  assume a: "reschedule_scan j a c d t (st, log) = (r, (st', log'))"
  define f where "f = (\<lambda>r :: asset_row. r\<lparr>a_scan_details := d, a_scan_failure := c, ar_scan_next := t + retryDelay (a_scan_attempts a),
     ar_scan_claimed := 0, a_updated := t\<rparr>)"
  have "st' = UPDATE_assets (retry_fence (a_id a) (a_scan_attempts a)) f st"
    using a by (auto simp: reschedule_scan_def ScheduleAssetScanRetry_def Let_def ask_def f_def split: if_splits)
  moreover have "no_new_clean st (UPDATE_assets P f st)" for P by (rule no_new_clean_UPDATE) (simp_all add: f_def)
  ultimately show ?thesis by simp
qed

section \<open>Verdicts\<close>

lemma ApplyScanResult_cases:
  assumes "ApplyScanResult res now st = (r, st')" "wf_assets st"
  obtains (error) e where "r = Err e" "st' = st"
  | (seen) "r = Ok False" "has_scan_event st (res_event res)" "st' = st"
  | (applied) x where "r = Ok True" "\<not> has_scan_event st (res_event res)" "asset_of st (res_asset res) = Some x" "scan_fence res x"
      "asset_of st' = (asset_of st)(res_asset res \<mapsto> scanned_row (res_status res) res now x)"
proof (cases r)
  case (Inl e)
  then show thesis using assms(1) error by (auto simp: ApplyScanResult_def tx_Err_iff)
next
  case (Inr b)
  show thesis
  proof (cases b)
    case True
    then show thesis using ApplyScanResult_applied [of res now st st'] assms Inr applied by metis
  next
    case False
    then have "has_scan_event st (res_event res) \<and> st' = st"
      using assms(1) Inr unfolding ApplyScanResult_def by (auto simp: INSERT_scan_event_Ok split: if_splits prod.splits)
    then show thesis using seen Inr False by simp
  qed
qed

lemma settle_verdict_cases:
  assumes "settle_verdict j res now (st, log) = (r, (st', log'))" "wf_assets st"
  obtains (same) "st' = st" "Ack \<in> set log' \<Longrightarrow> Ack \<notin> set log \<Longrightarrow> has_scan_event st (res_event res)"
  | (applied) x where "\<not> has_scan_event st (res_event res)" "asset_of st (res_asset res) = Some x" "scan_fence res x"
      "asset_of st' = (asset_of st)(res_asset res \<mapsto> scanned_row (res_status res) res now x)"
proof -
  obtain f st1 where f: "ApplyScanResult res now st = (f, st1)" by (cases "ApplyScanResult res now st") auto
  have st': "st' = st1" "Ack \<in> set log' \<Longrightarrow> Ack \<notin> set log \<Longrightarrow> is_ok f"
    using assms(1) by (auto simp: settle_verdict_def f ask_def split: sum.splits)
  from f assms(2) show thesis
  proof (cases rule: ApplyScanResult_cases)
    case (error e) show thesis by (rule same) (use error st' in simp_all)
  next
    case seen show thesis by (rule same) (use seen st' in simp_all)
  next
    case (applied x) then show thesis using that(2) st' by simp
  qed
qed

section \<open>What the bytes have to be\<close>

lemma scan_download_Ok:
  assumes "scan_download j open' a = Inr file"
  shows "(\<exists>d. open' (a_object_key a) (a_etag a) = Ok d \<and> bd_body d = file) \<and> int (length file) = a_size a \<and> 0 < a_size a \<and> a_size a \<le> sj_max_size j
    \<and> (a_checksum a = [] \<or> EqualFold (sj_digest j file) (a_checksum a))
    \<and> is_ok (ValidateMedia (sj_parsers j) (a_file_name a) (a_detected_mime a) (take 512 file) (Some file) (length file))"
proof -
  let ?n = "a_size a"
  have n: "0 < ?n" "?n \<le> sj_max_size j" using assms by (auto simp: scan_download_def Let_def split: if_splits)
  obtain d where d: "open' (a_object_key a) (a_etag a) = Ok d" "file = take (nat (?n + 1)) (bd_body d)" "int (length file) = ?n"
      "a_checksum a = [] \<or> EqualFold (sj_digest j file) (a_checksum a)"
      "is_ok (ValidateMedia (sj_parsers j) (a_file_name a) (a_detected_mime a) (take (nat (min ?n 512)) file) (Some file) (nat ?n))"
    using assms n by (auto simp: scan_download_def Let_def split: if_splits sum.splits)
  have "length file = nat ?n" using d(3) by simp
  then have "length (bd_body d) \<le> nat (?n + 1)" using d(2) n(1) by (simp split: if_splits)
  then have "bd_body d = file" using d(2) by simp
  moreover have "take (nat (min ?n 512)) file = take 512 file" using d(3) by (auto simp: min_def)
  ultimately show ?thesis using d(1,3,4,5) n \<open>length file = nat ?n\<close> by auto
qed

lemma scan_work_Harmless:
  "scan_work j open' a = Inr Harmless \<Longrightarrow> \<exists>s file. sj_signature j = Inr s \<and> scan_download j open' a = Inr file \<and> sj_scan j file = Harmless"
  by (auto simp: scan_work_def split: sum.splits if_splits scan_verdict.splits)

text \<open>What a clean verdict on an asset has seen.\<close>

definition cleared :: "scan_job \<Rightarrow> blob_reader \<Rightarrow> ('a asset_scheme) \<Rightarrow> bool" where
  "cleared j open' x \<longleftrightarrow> (\<exists>d s. open' (a_object_key x) (a_etag x) = Ok d \<and> int (length (bd_body d)) = a_size x \<and> a_size x \<le> sj_max_size j
     \<and> (a_checksum x = [] \<or> EqualFold (sj_digest j (bd_body d)) (a_checksum x))
     \<and> is_ok (ValidateMedia (sj_parsers j) (a_file_name x) (a_detected_mime x) (take 512 (bd_body d)) (Some (bd_body d)) (length (bd_body d)))
     \<and> sj_signature j = Inr s \<and> sj_scan j (bd_body d) = Harmless)"

lemma scan_work_cleared:
  assumes "scan_work j open' a = Inr Harmless"
  shows "cleared j open' a"
proof -
  obtain s bs where f: "sj_signature j = Inr s" "scan_download j open' a = Inr bs" "sj_scan j bs = Harmless"
    using scan_work_Harmless [OF assms] by blast
  show ?thesis using scan_download_Ok [OF f(2)] f(1,3) unfolding cleared_def by blast
qed

lemma settle_attempt_clean:
  assumes "settle_attempt j m e a outcome now later (st, log) = (r, (st', log'))" "wf_assets st"
  shows "no_new_clean st st' \<or> (outcome = Inr Harmless
    \<and> (\<exists>x y. asset_of st (a_id a) = Some x \<and> scan_fence (job_result e a s ScanClean [] []) x \<and> asset_of st' = (asset_of st)(a_id a \<mapsto> y)))"
proof (cases outcome)
  case (Inl f)
  then show ?thesis using assms settle_poison_clean reschedule_assets
    by (fastforce simp: settle_attempt_def Let_def split: prod.splits if_splits)
next
  case (Inr v)
  show ?thesis
  proof (cases v)
    case Harmless
    then consider "st' = st" | s' where "settle_verdict j (job_result e a s' ScanClean [] []) now (st, log) = (r, (st', log'))"
      using assms(1) Inr by (auto simp: settle_attempt_def Let_def split: if_splits)
    then show ?thesis
    proof cases
      case (2 s')
      from 2 assms(2) show ?thesis
        by (cases rule: settle_verdict_cases) (use Inr Harmless in \<open>auto simp: job_result_def scan_fence_def\<close>)
    qed simp
  next
    case (Infected name)
    then obtain s' where "settle_verdict j (job_result e a s' ScanInfected name ''malware'') now (st, log) = (r, (st', log'))"
      using assms(1) Inr by (auto simp: settle_attempt_def Let_def)
    from this assms(2) show ?thesis
      by (cases rule: settle_verdict_cases) (auto simp: no_new_clean_def job_result_def split: if_splits)
  qed (use assms Inr settle_poison_clean in \<open>auto simp: settle_attempt_def Let_def\<close>)
qed

section \<open>Which messages leave the queue\<close>

text \<open>The scan an event asks for is still to be decided.\<close>

definition awaiting :: "store \<Rightarrow> queue_event \<Rightarrow> bool" where
  "awaiting st e \<longleftrightarrow> (\<exists>x. asset_of st (qe_asset e) = Some x \<and> a_purged x = 0 \<and> a_scan_status x = ScanPending
     \<and> a_scan_event x = qe_event e \<and> a_etag x = qe_etag e)"

lemma awaiting_same: "st_assets st' = st_assets st \<Longrightarrow> awaiting st' e = awaiting st e"
  by (simp add: awaiting_def asset_of_def)

lemma record_poison_stored:
  assumes "record_poison p now t = Ok (b, t')"
  shows "\<exists>q\<in>set t'. po_id q = po_id p \<and> (\<not> b \<longrightarrow> pr_forwarded q \<noteq> 0)"
proof (cases "sel1 (\<lambda>q. po_id q = po_id p) t")
  case None
  then have "new_poison_row p now \<in> set t'" "b" using assms by (auto simp: record_poison_def split: if_splits)
  then show ?thesis by (intro bexI [of _ "new_poison_row p now"]) (simp_all add: new_poison_row_def poison.defs)
next
  case (Some q)
  then have "t' = t" "b \<longleftrightarrow> pr_forwarded q = 0" using assms by (auto simp: record_poison_def split: if_splits)
  then show ?thesis using sel1_Some [OF Some] by auto
qed

lemma poison_stored:
  assumes "(case terminal of Some res \<Rightarrow> FailScanToPoison res p now st | None \<Rightarrow> RecordScanPoison p now st) = (Ok b, st1)"
  shows "\<exists>q\<in>set (st_scan_poison st1). po_id q = po_id p \<and> (\<not> b \<longrightarrow> pr_forwarded q \<noteq> 0)"
  using assms record_poison_stored
  by (auto simp: RecordScanPoison_def FailScanToPoison_def split: option.splits prod.splits)

text \<open>An acknowledged poison message is in the poison table and was forwarded.\<close>

lemma settle_poison_forwarded:
  assumes "settle_poison j p now terminal (st, log) = (r, (st', log'))" "Ack \<in> set log'" "Ack \<notin> set log" "now \<noteq> 0"
  shows "\<exists>q\<in>set (st_scan_poison st'). po_id q = po_id p \<and> pr_forwarded q \<noteq> 0"
proof -
  obtain f st1 where f: "(case terminal of Some res \<Rightarrow> FailScanToPoison res p now st | None \<Rightarrow> RecordScanPoison p now st) = (f, st1)"
    by (cases "case terminal of Some res \<Rightarrow> FailScanToPoison res p now st | None \<Rightarrow> RecordScanPoison p now st") auto
  obtain b where b: "f = Ok b" using assms(1-3) by (auto simp: settle_poison_def f ask_def split: sum.splits)
  obtain q where q: "q \<in> set (st_scan_poison st1)" "po_id q = po_id p" "\<not> b \<longrightarrow> pr_forwarded q \<noteq> 0"
    using poison_stored [OF f [unfolded b]] by blast
  show ?thesis
  proof (cases b)
    case False
    then have "st' = st1" using assms(1) by (auto simp: settle_poison_def f b ask_def)
    then show ?thesis using q False by auto
  next
    case True
    then have "st' = snd (MarkScanPoisonForwarded (po_id p) now st1)"
      using assms(1-3) by (auto simp: settle_poison_def f b ask_def MarkScanPoisonForwarded_def split: sum.splits)
    then have t: "st_scan_poison st' = forward_poison (po_id p) now (st_scan_poison st1)" by (simp add: MarkScanPoisonForwarded_def)
    let ?q = "q\<lparr>pr_forwarded := (if pr_forwarded q = 0 then now else pr_forwarded q)\<rparr>"
    have "?q \<in> set (st_scan_poison st')" unfolding t forward_poison_def upd_where_def set_map using q(1,2) by (intro image_eqI [where x = q]) simp_all
    then show ?thesis using q(2) assms(4) by (intro bexI [of _ ?q]) auto
  qed
qed

lemma claim_terminal:
  assumes "ClaimAssetScan (qe_event e) (qe_asset e) (qe_etag e) now lease st = (Ok (a, ScanTerminal), st1)" "wf_assets st"
  shows "\<not> awaiting st1 e"
proof
  assume "awaiting st1 e"
  then obtain x where x: "asset_of st1 (qe_asset e) = Some x" "a_purged x = 0" "a_scan_status x = ScanPending"
      "a_scan_event x = qe_event e" "a_etag x = qe_etag e"
    by (auto simp: awaiting_def)
  have "wf_assets st1" using ClaimAssetScan_store [of "qe_event e" "qe_asset e" "qe_etag e" now lease st] assms by (simp add: wf_assets_UPDATE)
  then have "GetAsset st1 (qe_asset e) = Ok (asset.truncate x)" using GetAsset_of x(1,2) by blast
  moreover have "affected (lease_fence (qe_event e) (qe_asset e) (qe_etag e) now) (st_assets st) \<noteq> 1"
      "st1 = UPDATE_assets (lease_fence (qe_event e) (qe_asset e) (qe_etag e) now) (leased_row now lease) st"
    using assms(1) ClaimAssetScan_store [of "qe_event e" "qe_asset e" "qe_etag e" now lease st] by (auto simp: ClaimAssetScan_def Let_def)
  ultimately show False using assms(1) x by (simp add: ClaimAssetScan_def Let_def asset.truncate_def)
qed

lemma settle_poison_decided:
  assumes "settle_poison j p now (Some res) (st, log) = (r, (st', log'))" "wf_assets st" "Ack \<in> set log'" "Ack \<notin> set log"
    and "\<not> has_scan_event st (res_event res)" "res_asset res = qe_asset e"
  shows "\<not> awaiting st' e"
proof -
  obtain f st1 where f: "FailScanToPoison res p now st = (f, st1)" "st_assets st' = st_assets st1" "is_ok f"
    by (rule settle_poison_cases [OF assms(1)]) (use assms(3,4) in auto)
  from f(1) assms(2) show ?thesis
    unfolding awaiting_same [OF f(2)]
    by (cases rule: FailScanToPoison_cases) (use f assms(5,6) in \<open>auto simp: awaiting_def\<close>)
qed

lemma settle_poison_recorded:
  assumes "settle_poison j p now None (st, log) = (r, (st', log'))"
  shows "st_assets st' = st_assets st"
proof -
  obtain f st1 where "RecordScanPoison p now st = (f, st1)" "st_assets st' = st_assets st1"
    by (rule settle_poison_cases [OF assms]) (use that in auto)
  then show ?thesis using RecordScanPoison_assets by metis
qed

lemma settle_verdict_decided:
  assumes "settle_verdict j res now (st, log) = (r, (st', log'))" "wf_assets st" "Ack \<in> set log'" "Ack \<notin> set log"
    and "\<not> has_scan_event st (res_event res)" "res_asset res = qe_asset e" "res_status res \<noteq> ScanPending"
  shows "\<not> awaiting st' e"
  using assms(1,2) by (cases rule: settle_verdict_cases) (use assms(3-) in \<open>auto simp: awaiting_def\<close>)

lemma settle_attempt_decided:
  assumes "settle_attempt j m e a outcome now later (st, log) = (r, (st', log'))" "wf_assets st" "Ack \<in> set log'" "Ack \<notin> set log"
    and "\<not> has_scan_event st (qe_event e)" "a_id a = qe_asset e"
  shows "\<not> awaiting st' e"
proof -
  consider res where "settle_verdict j res now (st, log) = (r, (st', log'))" "res_event res = qe_event e" "res_asset res = qe_asset e" "res_status res \<noteq> ScanPending"
    | p res where "settle_poison j p now (Some res) (st, log) = (r, (st', log'))" "res_event res = qe_event e" "res_asset res = qe_asset e"
  proof (cases outcome)
    case (Inl f)
    then show thesis using assms(1,3,4,6) that(2)
      by (auto simp: settle_attempt_def Let_def job_result_def reschedule_scan_def ask_def split: prod.splits if_splits sum.splits)
  next
    case (Inr v)
    then show thesis using assms(1,3,4,6) that by (cases v) (auto simp: settle_attempt_def Let_def job_result_def split: if_splits)
  qed
  then show ?thesis
  proof cases
    case 1 then show ?thesis using settle_verdict_decided assms(2-5) by metis
  next
    case 2 then show ?thesis using settle_poison_decided assms(2-5) by metis
  qed
qed

section \<open>Properties\<close>

lemma RunOnce_received:
  "snd (RunOnce j open' received now later (st, log)) = (st', log') \<Longrightarrow> (received = None \<and> st' = st \<and> log' = log)
    \<or> (\<exists>m r. received = Some m \<and> ((\<exists>err. decodeEvent j (msg_body m) = Inl err
            \<and> settle_poison j (poisonRecord j m None ''invalid_payload'' (safeError err)) now None (st, log) = (r, (st', log')))
        \<or> (\<exists>e. decodeEvent j (msg_body m) = Inr e \<and> scan_one_event j open' m e now later (st, log) = (r, (st', log')))))"
  by (auto simp: RunOnce_def split: option.splits sum.splits prod.splits)

lemma cleared_leased: "cleared j open' (asset.truncate (leased_row now lease x)) = cleared j open' x"
  by (simp add: cleared_def asset.truncate_def leased_row_def)


text \<open>
  C27.  A scan is never lost with its message.  When a round of the job acknowledges a message, its scan
  is decided: after the round no asset waits for that event any more; and a message that carries no
  valid event was recorded as poison and forwarded first.
\<close>
theorem scan_ack_decided:
  assumes "wf_assets st" "now \<noteq> 0" "\<forall>e. awaiting st e \<longrightarrow> \<not> has_scan_event st (qe_event e)"
    and "snd (RunOnce j open' received now later (st, [])) = (st', log')" "Ack \<in> set log'"
  shows "\<exists>m. received = Some m \<and> (case decodeEvent j (msg_body m) of
      Inl err \<Rightarrow> (\<exists>q\<in>set (st_scan_poison st'). po_id q = msg_id m @ '':invalid_payload'' \<and> pr_forwarded q \<noteq> 0)
    | Inr e \<Rightarrow> \<not> awaiting st' e)"
proof -
  from RunOnce_received [OF assms(4)] assms(5) consider
      (bad) m r err where "received = Some m" "decodeEvent j (msg_body m) = Inl err"
        "settle_poison j (poisonRecord j m None ''invalid_payload'' (safeError err)) now None (st, []) = (r, (st', log'))"
    | (event) m r e where "received = Some m" "decodeEvent j (msg_body m) = Inr e" "scan_one_event j open' m e now later (st, []) = (r, (st', log'))"
    by auto
  then show ?thesis
  proof cases
    case bad
    then show ?thesis using settle_poison_forwarded [OF bad(3) assms(5) _ assms(2)] by (simp add: poisonRecord_def)
  next
    case (event m r e)
    obtain c st1 where claim: "ClaimAssetScan (qe_event e) (qe_asset e) (qe_etag e) now (sj_lease j) st = (c, st1)"
      by (cases "ClaimAssetScan (qe_event e) (qe_asset e) (qe_etag e) now (sj_lease j) st") auto
    obtain a s where a: "c = Ok (a, s)" "s \<noteq> ScanBusy"
      using event(3) assms(5) claim by (auto simp: scan_one_event_def ask_def split: sum.splits scan_claim_state.splits)
    have "\<not> awaiting st' e"
    proof (cases s)
      case ScanTerminal
      have "(\<exists>p. settle_poison j p now None (st1, []) = (r, (st', log'))) \<or> ask j Ack (st1, []) = (r, (st', log'))"
        using event(3) unfolding scan_one_event_def prod.case claim a ScanTerminal
        by (simp split: if_split_asm) blast+
      then have same: "st_assets st' = st_assets st1" using settle_poison_recorded by (auto simp: ask_def)
      have "\<not> awaiting st1 e" by (rule claim_terminal [OF _ assms(1)]) (use claim a ScanTerminal in simp)
      then show ?thesis by (simp add: awaiting_same [OF same])
    next
      case ScanClaimed
      obtain x where x: "asset_of st (qe_asset e) = Some x" "lease_fence (qe_event e) (qe_asset e) (qe_etag e) now x"
          "a = asset.truncate (leased_row now (sj_lease j) x)" "wf_assets st1" "st_scan_events st1 = st_scan_events st"
        using ClaimAssetScan_claimed [of "qe_event e" "qe_asset e" "qe_etag e" now "sj_lease j" st a st1] claim a ScanClaimed assms(1) by metis
      have "awaiting st e" using x(1,2) by (auto simp: awaiting_def lease_fence_def scan_claimable_def live_def)
      then have fresh: "\<not> has_scan_event st1 (qe_event e)" using assms(3) x(5) by (simp add: has_scan_event_def)
      have id: "a_id a = qe_asset e" using x(2,3) by (simp add: asset.truncate_def leased_row_def lease_fence_def)
      have "settle_poison j (poisonRecord j m (Some e) ''retry_exhausted'' ''scan retry limit reached'') now
             (Some (job_result e a [] ScanFailed ''scan retry limit reached'' ''retry_exhausted'')) (st1, []) = (r, (st', log'))
          \<or> settle_attempt j m e a (scan_work j open' a) now later (st1, []) = (r, (st', log'))"
        using event(3) claim a ScanClaimed by (auto simp: scan_one_event_def split: if_splits)
      then show ?thesis
      proof
        assume "settle_poison j (poisonRecord j m (Some e) ''retry_exhausted'' ''scan retry limit reached'') now
             (Some (job_result e a [] ScanFailed ''scan retry limit reached'' ''retry_exhausted'')) (st1, []) = (r, (st', log'))"
        then show ?thesis by (rule settle_poison_decided [OF _ x(4) assms(5)]) (simp_all add: job_result_def fresh id)
      next
        assume "settle_attempt j m e a (scan_work j open' a) now later (st1, []) = (r, (st', log'))"
        then show ?thesis by (rule settle_attempt_decided [OF _ x(4) assms(5)]) (simp_all add: fresh id)
      qed
    qed (use a in simp)
    then show ?thesis using event by simp
  qed
qed

section \<open>Witnesses\<close>

definition demo_named :: store where
  "demo_named = snd (CompleteUpload demo_env (demo_completed_asset\<lparr>a_file_name := ''a.pdf''\<rparr>) demo_completed_session demo_request
     (snd (CreateUpload demo_env (demo_upload\<lparr>a_file_name := ''a.pdf''\<rparr>) demo_session empty_store)))"

definition demo_event :: queue_event where
  "demo_event = \<lparr>qe_type = ''asset.scan.requested.v1'', qe_version = 1, qe_event = ''ev'', qe_asset = ''a1'', qe_etag = ''e1''\<rparr>"

definition demo_job :: scan_job where
  "demo_job = \<lparr>sj_max_size = 100, sj_max_attempts = 5, sj_lease = 30, sj_parsers = demo_parsers, sj_digest = (\<lambda>_. ''sum''),
     sj_text = (\<lambda>_. ''error''), sj_json = (\<lambda>b. if b = ''ev'' then Inr demo_event else Inl ''bad''), sj_signature = Inr ''sig'',
     sj_scan = (\<lambda>_. Harmless), sj_queue = (\<lambda>_. Ok ()), sj_deadline = None, sj_expired = False\<rparr>"

definition demo_open :: blob_reader where
  "demo_open k t = Ok \<lparr>bd_body = ''%PDF-12345'', bd_size = 10, bd_total = 10, bd_mime = ''application/pdf'',
     bd_etag = ''e1'', bd_modified = 0, bd_cache = []\<rparr>"

definition demo_message :: message where
  "demo_message = \<lparr>msg_id = ''m1'', msg_body = ''ev'', msg_dequeue = 1\<rparr>"

abbreviation demo_round where
  "demo_round \<equiv> RunOnce demo_job demo_open (Some demo_message) 20 21 (demo_named, [])"

lemmas round_eval = demo_named_def demo_event_def demo_job_def demo_open_def demo_message_def scan_eval

lemma demo_named_row: "\<exists>x. asset_of demo_named ''a1'' = Some x \<and> lease_fence ''ev'' ''a1'' ''e1'' 20 x \<and> wf_assets demo_named
  \<and> a_size x = 10 \<and> a_checksum x = ''sum'' \<and> a_etag x = ''e1'' \<and> a_file_name x = ''a.pdf'' \<and> a_detected_mime x = ''application/pdf''
  \<and> a_scan_attempts x = 0 \<and> a_scan_status x = ScanPending \<and> \<not> has_scan_event demo_named ''ev''"
  by (simp add: round_eval asset_of_def asset.defs)

lemma demo_media_passes: "is_ok (ValidateMedia demo_parsers ''a.pdf'' ''application/pdf'' ''%PDF-12345'' (Some ''%PDF-12345'') 10)"
  by (simp add: ValidateMedia_def pdf_extension pdf_check has_prefix_def)

lemma demo_decoded: "decodeEvent demo_job (msg_body demo_message) = Inr demo_event"
  by (simp add: decodeEvent_def demo_job_def demo_message_def valid_event_def demo_event_def)

lemma demo_download: "a_size a = 10 \<Longrightarrow> a_etag a = ''e1'' \<Longrightarrow> a_checksum a = ''sum'' \<Longrightarrow> a_file_name a = ''a.pdf''
  \<Longrightarrow> a_detected_mime a = ''application/pdf'' \<Longrightarrow> scan_work demo_job demo_open a = Inr Harmless"
  using demo_media_passes
  by (cases "ValidateMedia demo_parsers ''a.pdf'' ''application/pdf'' ''%PDF-12345'' (Some ''%PDF-12345'') 10")
    (auto simp: scan_work_def scan_download_def demo_job_def demo_open_def late_def EqualFold_def Let_def)

lemma demo_round_eq: "\<exists>st' y. demo_round = ((True, Ok ()), (st', [Ack])) \<and> asset_of st' ''a1'' = Some y \<and> a_scan_status y = ScanClean"
proof -
  obtain c st1 where claim: "ClaimAssetScan ''ev'' ''a1'' ''e1'' 20 30 demo_named = (c, st1)"
    by (cases "ClaimAssetScan ''ev'' ''a1'' ''e1'' 20 30 demo_named") auto
  obtain a where a: "c = Ok (a, ScanClaimed)" "a_size a = 10" "a_etag a = ''e1''" "a_checksum a = ''sum''" "a_file_name a = ''a.pdf''"
      "a_detected_mime a = ''application/pdf''" "a_scan_attempts a = 1" "a_id a = ''a1''"
    using claim by (auto simp: round_eval asset_of_def asset.defs)
  define res where "res = job_result demo_event a ''sig'' ScanClean [] []"
  have res: "res = \<lparr>res_event = ''ev'', res_asset = ''a1'', res_status = ScanClean, res_details = [], res_signature = ''sig'',
      res_failure = [], res_etag = ''e1'', res_expected_attempt = 1\<rparr>"
    using a by (simp add: res_def job_result_def demo_event_def)
  have st1: "st1 = snd (ClaimAssetScan ''ev'' ''a1'' ''e1'' 20 30 demo_named)" using claim by simp
  obtain st2 y where apply': "ApplyScanResult res 20 st1 = (Ok True, st2)" "asset_of st2 ''a1'' = Some y" "a_scan_status y = ScanClean"
    unfolding st1 res by (simp add: round_eval asset_of_def asset.defs)
  have "scan_one_event demo_job demo_open demo_message demo_event 20 21 (demo_named, []) = settle_verdict demo_job res 20 (st1, [])"
    using claim a demo_download [OF a(2,3,4,5,6)]
    by (simp add: scan_one_event_def demo_event_def res_def demo_job_def) (simp add: settle_attempt_def)
  also have "\<dots> = (Ok (), (st2, [Ack]))" using apply'(1) by (simp add: settle_verdict_def ask_def demo_job_def)
  finally show ?thesis using demo_decoded apply'(2,3) by (simp add: RunOnce_def)
qed


theorem scan_ack_decided_witness:
  "(\<exists>st'. snd demo_round = (st', [Ack]) \<and> \<not> awaiting st' demo_event)"
proof -
  obtain st' where r: "demo_round = ((True, Ok ()), (st', [Ack]))" using demo_round_eq by blast
  have run: "snd demo_round = (st', [Ack])" by (simp add: r)
  obtain x where x: "asset_of demo_named ''a1'' = Some x" "wf_assets demo_named" "\<not> has_scan_event demo_named ''ev''" "a_scan_event x = ''ev''"
    using demo_named_row by (auto simp: lease_fence_def)
  have "\<forall>e. awaiting demo_named e \<longrightarrow> \<not> has_scan_event demo_named (qe_event e)"
    by (simp add: has_scan_event_def round_eval)
  then show ?thesis using scan_ack_decided [OF x(2) _ _ run] demo_decoded run by simp
qed

end
