(* ===== verification/Policy.thy ===== *)
theory Policy
  imports Domain
begin

text \<open>
  The namespace policies of \<open>internal/assets/policy.go\<close>: which service may own an upload,
  which MIME types, sizes and visibilities it may have and how it is processed and cached.  A
  Go set \<open>map[K]bool\<close> whose literal lists only \<open>true\<close> entries is the list of its keys; a
  \<open>map[string]int64\<close> is the association list of its literal.
\<close>

definition PersonalNamespace :: string where
  "PersonalNamespace = ''presenter.personal''"

record namespace_policy =
  np_owner_service :: string
  np_mime_types :: "string list"
  np_mime_max_size :: "(string \<times> int) list"
  np_max_size :: int
  np_default_visibility :: visibility
  np_visibilities :: "visibility list"
  np_processing :: processing_status
  np_cache_control :: string
  np_width :: int
  np_height :: int

definition AllowsMIME :: "namespace_policy \<Rightarrow> string \<Rightarrow> bool" where
  "AllowsMIME p v \<longleftrightarrow> v \<in> set (np_mime_types p)"

definition AllowsVisibility :: "namespace_policy \<Rightarrow> visibility \<Rightarrow> bool" where
  "AllowsVisibility p v \<longleftrightarrow> v \<in> set (np_visibilities p)"

definition size_limit :: "namespace_policy \<Rightarrow> string \<Rightarrow> int" where
  "size_limit p mime = (case map_of (np_mime_max_size p) mime of Some t \<Rightarrow> t | None \<Rightarrow> np_max_size p)"

definition AllowsSize :: "namespace_policy \<Rightarrow> string \<Rightarrow> int \<Rightarrow> bool" where
  "AllowsSize p mime n \<longleftrightarrow> n > 0 \<and> n \<le> size_limit p mime"

definition immutable_cache :: string where
  "immutable_cache = ''public, max-age=31536000, immutable''"

definition no_store_cache :: string where
  "no_store_cache = ''private, no-store''"

definition namespacePolicies :: "(string \<times> namespace_policy) list" where
  "namespacePolicies = [
   (''account.avatar'',
    \<lparr>np_owner_service = ''account-api'',
     np_mime_types =
      [''image/jpeg''],
     np_mime_max_size = [],
     np_max_size = 1048576,
     np_default_visibility = VisibilityPublic,
     np_visibilities = [VisibilityPublic],
     np_processing = ProcessingNotRequired,
     np_cache_control = immutable_cache,
     np_width = 0, np_height = 0\<rparr>),
   (''cms.weekly.pdf'',
    \<lparr>np_owner_service = ''hhc-web-api'',
     np_mime_types =
      [''application/pdf''],
     np_mime_max_size = [],
     np_max_size = 20 * 1048576,
     np_default_visibility = VisibilityPrivate,
     np_visibilities = [VisibilityPrivate],
     np_processing = ProcessingNotRequired,
     np_cache_control = no_store_cache,
     np_width = 0, np_height = 0\<rparr>),
   (''cms.weekly.image'',
    \<lparr>np_owner_service = ''hhc-web-api'',
     np_mime_types =
      [''image/png''],
     np_mime_max_size = [],
     np_max_size = 2 * 1048576,
     np_default_visibility = VisibilityPrivate,
     np_visibilities = [VisibilityPrivate],
     np_processing = ProcessingNotRequired,
     np_cache_control = no_store_cache,
     np_width = 0, np_height = 0\<rparr>),
   (''cms.news.cover'',
    \<lparr>np_owner_service = ''hhc-web-api'',
     np_mime_types =
      [''image/jpeg'', ''image/png'', ''image/webp''],
     np_mime_max_size = [],
     np_max_size = 10 * 1048576,
     np_default_visibility = VisibilityPrivate,
     np_visibilities = [VisibilityPrivate, VisibilityPublic],
     np_processing = ProcessingPending,
     np_cache_control = immutable_cache,
     np_width = 0, np_height = 0\<rparr>),
   (''cms.home.banner'',
    \<lparr>np_owner_service = ''hhc-web-api'',
     np_mime_types =
      [''image/jpeg''],
     np_mime_max_size = [],
     np_max_size = 10 * 1048576,
     np_default_visibility = VisibilityPublic,
     np_visibilities = [VisibilityPublic],
     np_processing = ProcessingNotRequired,
     np_cache_control = immutable_cache,
     np_width = 1900, np_height = 700\<rparr>),
   (''cms.page.image'',
    \<lparr>np_owner_service = ''hhc-web-api'',
     np_mime_types =
      [''image/jpeg'', ''image/png'', ''image/webp''],
     np_mime_max_size = [],
     np_max_size = 10 * 1048576,
     np_default_visibility = VisibilityPrivate,
     np_visibilities = [VisibilityPrivate, VisibilityPublic],
     np_processing = ProcessingPending,
     np_cache_control = immutable_cache,
     np_width = 0, np_height = 0\<rparr>),
   (''line.group.file'',
    \<lparr>np_owner_service = ''hhc-line-function-bot'',
     np_mime_types =
      [''application/pdf'', ''image/jpeg'', ''image/png'', ''image/webp'',
       ''application/vnd.ms-powerpoint'',
       ''application/vnd.openxmlformats-officedocument.presentationml.presentation'',
       ''application/vnd.apple.keynote'', ''application/vnd.oasis.opendocument.presentation'',
       ''application/msword'',
       ''application/vnd.openxmlformats-officedocument.wordprocessingml.document'',
       ''application/vnd.ms-excel'',
       ''application/vnd.openxmlformats-officedocument.spreadsheetml.sheet'', ''text/plain'',
       ''text/markdown''],
     np_mime_max_size = [(''image/jpeg'', 10 * 1048576), (''image/png'', 10 * 1048576), (''image/webp'', 10 * 1048576), (''text/plain'', 2 * 1048576), (''text/markdown'', 2 * 1048576)],
     np_max_size = 25 * 1048576,
     np_default_visibility = VisibilityRestricted,
     np_visibilities = [VisibilityRestricted],
     np_processing = ProcessingNotRequired,
     np_cache_control = no_store_cache,
     np_width = 0, np_height = 0\<rparr>),
   (PersonalNamespace,
    \<lparr>np_owner_service = PersonalNamespace,
     np_mime_types =
      [''image/jpeg'', ''image/png'', ''image/gif'', ''image/webp'', ''image/bmp'',
       ''video/mp4'', ''video/quicktime'', ''video/webm'', ''video/ogg'', ''video/x-msvideo'',
       ''video/x-matroska'', ''video/x-ms-wmv'', ''audio/mpeg'', ''audio/wav'', ''audio/mp4'',
       ''audio/aac'', ''audio/ogg'', ''application/pdf'',
       ''application/vnd.openxmlformats-officedocument.presentationml.presentation'',
       ''application/vnd.hhc.presenter+json''],
     np_mime_max_size = [],
     np_max_size = 200 * 1048576,
     np_default_visibility = VisibilityPrivate,
     np_visibilities = [VisibilityPrivate],
     np_processing = ProcessingNotRequired,
     np_cache_control = no_store_cache,
     np_width = 0, np_height = 0\<rparr>),
   (''line.group.media-sync'',
    \<lparr>np_owner_service = ''hhc-line-function-bot'',
     np_mime_types =
      [''image/jpeg'', ''image/png'', ''image/gif'', ''image/webp'', ''image/bmp'',
       ''video/mp4'', ''video/quicktime'', ''video/webm'', ''video/ogg'', ''video/x-msvideo'',
       ''video/x-matroska'', ''video/x-ms-wmv'', ''audio/mpeg'', ''audio/wav'', ''audio/mp4'',
       ''audio/aac'', ''audio/ogg'', ''application/pdf'',
       ''application/vnd.openxmlformats-officedocument.presentationml.presentation'',
       ''application/vnd.hhc.presenter+json''],
     np_mime_max_size = [],
     np_max_size = 200 * 1048576,
     np_default_visibility = VisibilityRestricted,
     np_visibilities = [VisibilityRestricted],
     np_processing = ProcessingNotRequired,
     np_cache_control = no_store_cache,
     np_width = 0, np_height = 0\<rparr>)]"

definition PolicyFor :: "string \<Rightarrow> namespace_policy option" where
  "PolicyFor ns = map_of namespacePolicies ns"

section \<open>What every policy guarantees\<close>

text \<open>A Boolean check on every entry of the table, evaluated once.\<close>

definition all_policies :: "(namespace_policy \<Rightarrow> bool) \<Rightarrow> bool" where
  "all_policies Q \<longleftrightarrow> list_all (\<lambda>(_, p). Q p) namespacePolicies"

lemma PolicyFor_all:
  assumes "all_policies Q" "PolicyFor ns = Some p"
  shows "Q p"
  using assms map_of_SomeD [of namespacePolicies ns p]
  by (auto simp: all_policies_def PolicyFor_def list_all_iff)

lemma AllowsSize_positive [dest]: "AllowsSize p m n \<Longrightarrow> 0 < n"
  by (simp add: AllowsSize_def)

lemma AllowsSize_limit [dest]: "AllowsSize p m n \<Longrightarrow> n \<le> size_limit p m"
  by (simp add: AllowsSize_def)

lemma AllowsSize_mono: "AllowsSize p m n \<Longrightarrow> 0 < k \<Longrightarrow> k \<le> n \<Longrightarrow> AllowsSize p m k"
  by (auto simp: AllowsSize_def)

lemma policies_default_visibility:
  "all_policies (\<lambda>p. AllowsVisibility p (np_default_visibility p))"
  by (simp add: all_policies_def namespacePolicies_def AllowsVisibility_def)

lemma policies_sizes:
  "all_policies (\<lambda>p. 0 < np_max_size p \<and> np_max_size p \<le> 200 * 1048576
     \<and> list_all (\<lambda>(m, k). 0 < k \<and> k \<le> np_max_size p \<and> AllowsMIME p m) (np_mime_max_size p))"
  by (simp add: all_policies_def namespacePolicies_def AllowsMIME_def)

lemma policies_public_cache:
  "all_policies (\<lambda>p. np_cache_control p = immutable_cache \<longleftrightarrow> AllowsVisibility p VisibilityPublic)"
  by (simp add: all_policies_def namespacePolicies_def AllowsVisibility_def
      immutable_cache_def no_store_cache_def)

lemma size_limit_le_max:
  assumes "PolicyFor ns = Some p"
  shows "size_limit p m \<le> np_max_size p"
  using PolicyFor_all [OF policies_sizes assms]
  by (auto simp: size_limit_def list_all_iff split: option.splits dest!: map_of_SomeD)

lemma size_limit_le_200M:
  assumes "PolicyFor ns = Some p"
  shows "size_limit p m \<le> 200 * 1048576"
  using PolicyFor_all [OF policies_sizes assms] size_limit_le_max [OF assms, of m] by linarith

end
