(* ===== verification/Personal_Deck.thy ===== *)
theory Personal_Deck
  imports Complex_Main Media_Validation
begin

text \<open>
  \<open>internal/assets/personal_deck.go\<close>: the check of a presenter document before it becomes a cloud
  head.  A document is what \<open>encoding/json\<close> decodes into the struct of \<open>ValidatePersonalDeck\<close>; the
  decoder is an argument of the callers.  A \<open>float64\<close> of a JSON text is finite, so a coordinate is a
  rational number; a Go map is an association list with distinct keys, in any order.
\<close>

section \<open>The document\<close>

record deck_element =
  de_id :: string
  de_type :: string
  de_asset :: string
  de_x :: rat
  de_y :: rat
  de_width :: rat
  de_height :: rat
  de_rotation :: rat
  de_opacity :: rat

record deck_slide =
  ds_id :: string
  ds_theme :: string
  ds_order :: "string list option"
  ds_elements :: "(string \<times> deck_element) list"

record deck_asset =
  da_id :: string
  da_mime :: string
  da_url :: string

text \<open>An absent or null slice, map or pointer is \<open>None\<close>; of a theme only its presence matters.\<close>

record deck =
  dk_schema :: "int option"
  dk_id :: string
  dk_name :: string
  dk_width :: rat
  dk_height :: rat
  dk_order :: "string list option"
  dk_slides :: "(string \<times> deck_slide) list option"
  dk_assets :: "(string \<times> deck_asset) list"
  dk_themes :: "string list"
  dk_default_theme :: string

section \<open>The checks\<close>

text \<open>\<open>strings.TrimSpace\<close> of the text is empty: it consists of Unicode white space.\<close>

definition unicode_space :: "nat \<Rightarrow> bool" where
  "unicode_space r \<longleftrightarrow> (9 \<le> r \<and> r \<le> 13) \<or> (8192 \<le> r \<and> r \<le> 8202)
     \<or> r \<in> set [32, 133, 160, 5760, 8232, 8233, 8239, 8287, 12288]"

definition blank :: "string \<Rightarrow> bool" where
  "blank s \<longleftrightarrow> list_all (\<lambda>r. case r of None \<Rightarrow> False | Some c \<Rightarrow> unicode_space c) (runes s)"

definition personalDimension :: "rat \<Rightarrow> bool" where
  "personalDimension n \<longleftrightarrow> n > 0 \<and> n \<le> 100000"

definition personalCoordinate :: "rat \<Rightarrow> bool" where
  "personalCoordinate n \<longleftrightarrow> \<bar>n\<bar> \<le> 1000000"

fun order_loop :: "string list \<Rightarrow> string list \<Rightarrow> (string \<times> 'a) list \<Rightarrow> bool" where
  "order_loop seen [] items = True"
| "order_loop seen (i # is) items =
     (if i = [] \<or> i \<in> set seen then False
      else if map_of items i = None then False
      else order_loop (i # seen) is items)"

definition personalOrder :: "string list option \<Rightarrow> (string \<times> 'a) list \<Rightarrow> bool" where
  "personalOrder order items =
     (case order of None \<Rightarrow> False
      | Some is \<Rightarrow> length is = length items \<and> order_loop [] is items)"

definition element_ok :: "deck \<Rightarrow> string \<times> deck_element \<Rightarrow> bool" where
  "element_ok dk = (\<lambda>(i, e).
     if de_id e \<noteq> i \<or> \<not> personalCoordinate (de_x e) \<or> \<not> personalCoordinate (de_y e) \<or> \<not> personalCoordinate (de_rotation e)
         \<or> de_opacity e < 0 \<or> de_opacity e > 1 then False
     else if de_type e = ''line'' \<and> (\<not> personalCoordinate (de_width e) \<or> \<not> personalCoordinate (de_height e)) then False
     else if de_type e \<noteq> ''line'' \<and> (\<not> personalDimension (de_width e) \<or> \<not> personalDimension (de_height e)) then False
     else if de_type e = ''image'' then map_of (dk_assets dk) (de_asset e) \<noteq> None
     else de_type e \<in> set [''text'', ''shape'', ''line'', ''locked''])"

text \<open>The loop over the slides with its running total.\<close>

fun slides_loop :: "deck \<Rightarrow> int \<Rightarrow> (string \<times> deck_slide) list \<Rightarrow> bool" where
  "slides_loop dk n [] = True"
| "slides_loop dk n ((i, s) # r) =
     (if i \<noteq> ds_id s \<or> (ds_theme s \<noteq> [] \<and> ds_theme s \<notin> set (dk_themes dk)) \<or> \<not> personalOrder (ds_order s) (ds_elements s) then False
      else let n' = n + int (length (ds_elements s)) in
        if n' > 100000 \<or> length (ds_elements s) > 10000 then False
        else if \<not> list_all (element_ok dk) (ds_elements s) then False
        else slides_loop dk n' r)"

text \<open>Standard base64, strict: padded to whole groups, the unused bits of the last group zero.\<close>

definition unb64_std :: "char \<Rightarrow> nat option" where
  "unb64_std c = (if c = CHR ''+'' then Some 62 else if c = CHR ''/'' then Some 63
     else if c = CHR ''-'' \<or> c = CHR ''_'' then None else unb64 c)"

definition StrictDecode :: "string \<Rightarrow> string option" where
  "StrictDecode s =
     (let t = filter (\<lambda>c. c \<noteq> CHR 0x0A \<and> c \<noteq> CHR 0x0D) s;
          body = rev (if take 2 (rev t) = ''=='' then drop 2 (rev t) else if take 1 (rev t) = ''='' then drop 1 (rev t) else rev t)
      in if length t mod 4 \<noteq> 0 then None
         else (case those (map unb64_std body) of
             None \<Rightarrow> None
           | Some ds \<Rightarrow> (case octets ds of
               None \<Rightarrow> None
             | Some bs \<Rightarrow> if sextets bs = ds then Some (map char_of bs) else None)))"

definition image_extension :: "string \<Rightarrow> string option" where
  "image_extension = map_of [(''image/png'', ''.png''), (''image/jpeg'', ''.jpg''), (''image/gif'', ''.gif''),
     (''image/webp'', ''.webp''), (''image/bmp'', ''.bmp'')]"

definition data_prefix :: "string \<Rightarrow> string" where
  "data_prefix mime = ''data:'' @ mime @ '';base64,''"

definition deck_asset_ok :: "parsers \<Rightarrow> string \<times> deck_asset \<Rightarrow> bool" where
  "deck_asset_ok ps = (\<lambda>(i, a).
     if i = [] \<or> da_id a \<noteq> i then False
     else case image_extension (da_mime a) of
       None \<Rightarrow> False
     | Some ext \<Rightarrow>
       let p = data_prefix (da_mime a) in
       if \<not> has_prefix (da_url a) p \<or> length (da_url a) - length p > (20 * 2 ^ 20 + 2) div 3 * 4 then False
       else (case StrictDecode (drop (length p) (da_url a)) of
           None \<Rightarrow> False
         | Some bs \<Rightarrow> length bs \<le> 20 * 2 ^ 20 \<and> is_ok (ValidateMedia ps (''image'' @ ext) (da_mime a) bs (Some bs) (length bs))))"

text \<open>
  The decoder yields the document and whether the text ends there; \<open>None\<close> is a decoding error.
  Every refusal is \<open>ErrInvalidUpload\<close>, so the result is whether the document is accepted.
\<close>

type_synonym deck_decoder = "string \<Rightarrow> (deck \<times> bool) option"

definition deck_head_ok :: "deck \<Rightarrow> (string \<times> deck_slide) list \<Rightarrow> bool" where
  "deck_head_ok dk slides \<longleftrightarrow> (dk_schema dk = None \<or> dk_schema dk = Some 1) \<and> \<not> blank (dk_id dk) \<and> \<not> blank (dk_name dk)
     \<and> personalDimension (dk_width dk) \<and> personalDimension (dk_height dk) \<and> length slides \<le> 2000
     \<and> length (dk_assets dk) \<le> 10000 \<and> length (dk_themes dk) \<le> 2000 \<and> personalOrder (dk_order dk) slides
     \<and> (dk_default_theme dk = [] \<or> dk_default_theme dk \<in> set (dk_themes dk))"

definition ValidatePersonalDeck :: "parsers \<Rightarrow> deck_decoder \<Rightarrow> int \<Rightarrow> string \<Rightarrow> bool" where
  "ValidatePersonalDeck ps decode limit text =
     (case decode (take (nat (limit + 1)) text) of
        None \<Rightarrow> False
      | Some (dk, at_end) \<Rightarrow> at_end \<and>
          (case dk_slides dk of
             None \<Rightarrow> False
           | Some slides \<Rightarrow> deck_head_ok dk slides \<and> slides_loop dk 0 slides \<and> list_all (deck_asset_ok ps) (dk_assets dk)))"

section \<open>What an accepted document is\<close>

lemma order_loop_iff:
  "order_loop seen is items \<longleftrightarrow> distinct is \<and> set is \<inter> set seen = {} \<and> [] \<notin> set is \<and> set is \<subseteq> fst ` set items"
  by (induction seen "is" items rule: order_loop.induct) (auto simp: map_of_eq_None_iff)

text \<open>An order of the keys of a map lists every key exactly once.\<close>

lemma personalOrder_iff:
  assumes "distinct (map fst items)"
  shows "personalOrder (Some is) items \<longleftrightarrow> distinct is \<and> set is = fst ` set items \<and> [] \<notin> set is"
proof -
  have n: "card (fst ` set items) = length items" using assms distinct_card [of "map fst items"] by simp
  have "set is = fst ` set items" if "distinct is" "set is \<subseteq> fst ` set items" "length is = length items"
    using that n by (metis card_subset_eq distinct_card finite_imageI finite_set)
  moreover have "length is = length items" if "distinct is" "set is = fst ` set items"
    using that n distinct_card [of "is"] by simp
  ultimately show ?thesis by (auto simp: personalOrder_def order_loop_iff)
qed

definition slide_ok :: "deck \<Rightarrow> string \<times> deck_slide \<Rightarrow> bool" where
  "slide_ok dk = (\<lambda>(i, s). i = ds_id s \<and> (ds_theme s = [] \<or> ds_theme s \<in> set (dk_themes dk))
     \<and> personalOrder (ds_order s) (ds_elements s) \<and> length (ds_elements s) \<le> 10000 \<and> list_all (element_ok dk) (ds_elements s))"

lemma slides_loop_iff:
  "0 \<le> n \<Longrightarrow> n \<le> 100000 \<Longrightarrow> slides_loop dk n slides \<longleftrightarrow> list_all (slide_ok dk) slides
    \<and> n + (\<Sum>(i, s) \<leftarrow> slides. int (length (ds_elements s))) \<le> 100000"
proof (induction dk n slides rule: slides_loop.induct)
  case (2 dk n i s r)
  have nn: "0 \<le> (\<Sum>(i, s) \<leftarrow> r. int (length (ds_elements s)))" by (rule sum_list_nonneg) auto
  have step: "slides_loop dk n ((i, s) # r) \<longleftrightarrow> slide_ok dk (i, s) \<and> n + int (length (ds_elements s)) \<le> 100000
      \<and> slides_loop dk (n + int (length (ds_elements s))) r"
    by (auto simp: slide_ok_def Let_def)
  show ?case
  proof (cases "slide_ok dk (i, s) \<and> n + int (length (ds_elements s)) \<le> 100000")
    case True
    then have "slides_loop dk (n + int (length (ds_elements s))) r \<longleftrightarrow> list_all (slide_ok dk) r
        \<and> n + int (length (ds_elements s)) + (\<Sum>(i, s) \<leftarrow> r. int (length (ds_elements s))) \<le> 100000"
      using 2 by (intro "2.IH") (auto simp: slide_ok_def)
    then show ?thesis unfolding step using True by (simp add: add.assoc)
  next
    case False
    then show ?thesis unfolding step using nn by auto
  qed
qed simp

lemma ValidatePersonalDeck_iff:
  "ValidatePersonalDeck ps decode limit text \<longleftrightarrow>
    (\<exists>dk slides. decode (take (nat (limit + 1)) text) = Some (dk, True) \<and> dk_slides dk = Some slides \<and> deck_head_ok dk slides
      \<and> list_all (slide_ok dk) slides \<and> (\<Sum>(i, s) \<leftarrow> slides. int (length (ds_elements s))) \<le> 100000
      \<and> list_all (deck_asset_ok ps) (dk_assets dk))"
  by (auto simp: ValidatePersonalDeck_def slides_loop_iff split: option.splits)

text \<open>The maps of a decoded document have each key once.\<close>

definition deck_maps :: "deck \<Rightarrow> bool" where
  "deck_maps dk \<longleftrightarrow> (\<forall>slides. dk_slides dk = Some slides \<longrightarrow> distinct (map fst slides)
      \<and> (\<forall>(i, s)\<in>set slides. distinct (map fst (ds_elements s)))) \<and> distinct (map fst (dk_assets dk))"

text \<open>What the references of a slide and the data of an asset are worth.\<close>

definition slide_closed :: "deck \<Rightarrow> string \<Rightarrow> deck_slide \<Rightarrow> bool" where
  "slide_closed dk i s \<longleftrightarrow> ds_id s = i \<and> (ds_theme s = [] \<or> ds_theme s \<in> set (dk_themes dk))
     \<and> (\<exists>es. ds_order s = Some es \<and> distinct es \<and> set es = fst ` set (ds_elements s))
     \<and> (\<forall>(j, e)\<in>set (ds_elements s). de_id e = j \<and> (de_type e = ''image'' \<longrightarrow> de_asset e \<in> fst ` set (dk_assets dk)))"

definition asset_embedded :: "parsers \<Rightarrow> string \<Rightarrow> deck_asset \<Rightarrow> bool" where
  "asset_embedded ps i a \<longleftrightarrow> da_id a = i \<and> (\<exists>ext t bs. da_url a = data_prefix (da_mime a) @ t \<and> StrictDecode t = Some bs
     \<and> length bs \<le> 20 * 2 ^ 20 \<and> ValidateMedia ps (''image'' @ ext) (da_mime a) bs (Some bs) (length bs) = Ok (da_mime a))"

lemma deck_asset_ok_embedded:
  assumes "deck_asset_ok ps (i, a)"
  shows "asset_embedded ps i a"
proof -
  obtain ext where e: "image_extension (da_mime a) = Some ext" "i \<noteq> []" "da_id a = i"
    using assms by (auto simp: deck_asset_ok_def Let_def split: if_splits option.splits)
  define p where "p = data_prefix (da_mime a)"
  have pre: "has_prefix (da_url a) p" using assms e by (auto simp: deck_asset_ok_def Let_def p_def split: if_splits)
  then have url: "da_url a = p @ drop (length p) (da_url a)"
    unfolding has_prefix_def by (metis append_take_drop_id)
  obtain bs where bs: "StrictDecode (drop (length p) (da_url a)) = Some bs" "length bs \<le> 20 * 2 ^ 20"
      "is_ok (ValidateMedia ps (''image'' @ ext) (da_mime a) bs (Some bs) (length bs))"
    using assms e by (auto simp: deck_asset_ok_def Let_def p_def [symmetric] split: if_splits option.splits)
  obtain m where "ValidateMedia ps (''image'' @ ext) (da_mime a) bs (Some bs) (length bs) = Ok m"
    using bs(3) by (cases "ValidateMedia ps (''image'' @ ext) (da_mime a) bs (Some bs) (length bs)") auto
  moreover from this have "m = da_mime a" by (simp add: ValidateMedia_Ok)
  ultimately show ?thesis using e(2,3) url bs(1,2) unfolding p_def asset_embedded_def by metis
qed

lemma element_ok_refs:
  assumes "element_ok dk (j, el)"
  shows "de_id el = j \<and> (de_type el = ''image'' \<longrightarrow> de_asset el \<in> fst ` set (dk_assets dk))"
proof (cases "de_type el = ''image''")
  case True
  then have "map_of (dk_assets dk) (de_asset el) \<noteq> None" "de_id el = j"
    using assms unfolding element_ok_def by (simp_all split: if_split_asm)
  then show ?thesis by (simp add: map_of_eq_None_iff)
next
  case False
  have "de_id el = j" using assms unfolding element_ok_def prod.case by (metis (full_types))
  then show ?thesis using False by simp
qed

lemma slide_ok_closed:
  assumes "slide_ok dk (i, s)" "distinct (map fst (ds_elements s))"
  shows "slide_closed dk i s"
proof -
  obtain es where es: "ds_order s = Some es" "personalOrder (Some es) (ds_elements s)"
    using assms(1) by (cases "ds_order s") (auto simp: slide_ok_def personalOrder_def)
  moreover have "de_id el = j \<and> (de_type el = ''image'' \<longrightarrow> de_asset el \<in> fst ` set (dk_assets dk))"
    if "(j, el) \<in> set (ds_elements s)" for j el
    using assms(1) that by (intro element_ok_refs) (auto simp: slide_ok_def list_all_iff)
  ultimately show ?thesis using assms by (auto simp: slide_ok_def personalOrder_iff slide_closed_def)
qed

text \<open>
  C19.  A presenter document that \<open>ValidatePersonalDeck\<close> accepts is a closed graph: its slide order
  lists every slide exactly once and the order of every slide lists every element of that slide
  exactly once; every slide and element carries the identifier it is stored under; themes and the
  images of image elements exist in the document; there are at most 100000 elements; and every
  asset's data URL is strict base64 of at most 20 MiB that passes the media check of its own type.
\<close>
theorem personal_deck_closed:
  assumes "ValidatePersonalDeck ps decode limit text"
    and "decode (take (nat (limit + 1)) text) = Some (dk, e)" "deck_maps dk"
  shows "\<exists>slides order. dk_slides dk = Some slides \<and> dk_order dk = Some order \<and> distinct order \<and> set order = fst ` set slides
    \<and> (\<forall>(i, s)\<in>set slides. slide_closed dk i s) \<and> (\<Sum>(i, s) \<leftarrow> slides. int (length (ds_elements s))) \<le> 100000
    \<and> (\<forall>(i, a)\<in>set (dk_assets dk). asset_embedded ps i a)"
proof -
  obtain slides where s: "dk_slides dk = Some slides" "deck_head_ok dk slides" "list_all (slide_ok dk) slides"
      "(\<Sum>(i, s) \<leftarrow> slides. int (length (ds_elements s))) \<le> 100000" "list_all (deck_asset_ok ps) (dk_assets dk)"
    using assms(1,2) by (auto simp: ValidatePersonalDeck_iff)
  have d: "distinct (map fst slides)" "\<forall>(i, s)\<in>set slides. distinct (map fst (ds_elements s))"
    using assms(3) s(1) by (auto simp: deck_maps_def)
  obtain order where o: "dk_order dk = Some order" "personalOrder (Some order) slides"
    using s(2) by (cases "dk_order dk") (auto simp: deck_head_ok_def personalOrder_def)
  have "\<forall>(i, s)\<in>set slides. slide_closed dk i s" using s(3) d(2) slide_ok_closed by (fastforce simp: list_all_iff)
  moreover have "\<forall>(i, a)\<in>set (dk_assets dk). asset_embedded ps i a" using s(5) deck_asset_ok_embedded by (fastforce simp: list_all_iff)
  moreover have "set order = fst ` set slides" "distinct order" using o(2) d(1) by (simp_all add: personalOrder_iff)
  ultimately show ?thesis using s(1,4) o(1) by blast
qed

definition demo_deck :: deck where
  "demo_deck = \<lparr>dk_schema = Some 1, dk_id = ''d'', dk_name = ''Deck'', dk_width = 1920, dk_height = 1080, dk_order = Some [''s''],
     dk_slides = Some [(''s'', \<lparr>ds_id = ''s'', ds_theme = [], ds_order = Some [''e'', ''f''], ds_elements = [(''f'',
       \<lparr>de_id = ''f'', de_type = ''line'', de_asset = [], de_x = 0, de_y = 5, de_width = 0, de_height = - 7, de_rotation = 0, de_opacity = 1\<rparr>),
       (''e'', \<lparr>de_id = ''e'', de_type = ''text'', de_asset = [], de_x = 0, de_y = 0, de_width = 10, de_height = 10, de_rotation = 90, de_opacity = 0\<rparr>)]\<rparr>)],
     dk_assets = [], dk_themes = [], dk_default_theme = []\<rparr>"

theorem personal_deck_closed_witness:
  "ValidatePersonalDeck demo_parsers (\<lambda>t. Some (demo_deck, True)) 100 ''{}''
    \<and> (\<exists>s. dk_slides demo_deck = Some [(''s'', s)] \<and> slide_closed demo_deck ''s'' s)"
proof -
  have ok: "ValidatePersonalDeck demo_parsers (\<lambda>t. Some (demo_deck, True)) 100 ''{}''"
    by (simp add: ValidatePersonalDeck_def demo_deck_def deck_head_ok_def blank_def runes_def utf8_next_def unicode_space_def
      personalDimension_def personalOrder_def personalCoordinate_def element_ok_def Let_def)
  have maps: "deck_maps demo_deck" by (simp add: deck_maps_def demo_deck_def)
  show ?thesis using ok personal_deck_closed [OF ok refl maps] by (auto simp: demo_deck_def)
qed

end
