(* ===== verification/Upload_Service.thy ===== *)
theory Upload_Service
  imports Store_Uploads Policy Blob_Store Media_Validation Personal_Deck
begin

text \<open>
  The upload half of \<open>internal/assets/service.go\<close> and \<open>bulletin_derived.go\<close>: opening an upload,
  completing it once the client has stored the bytes, and refusing it.  The state is the repository's
  store with the state of a blob store; the blob store is the record of operations of \<open>Blob_Store\<close>.
  The random identifiers, the clock readings and the decoders of the standard library are arguments.
\<close>

section \<open>The state and its steps\<close>

type_synonym 'b world = "store \<times> 'b"
type_synonym ('b, 'a) action = "'b world \<Rightarrow> 'a result \<times> 'b world"

definition andThen :: "('b, 'a) action \<Rightarrow> ('a \<Rightarrow> ('b, 'c) action) \<Rightarrow> ('b, 'c) action" where
  "andThen m f w = (case m w of (Inl e, w') \<Rightarrow> (Err e, w') | (Inr x, w') \<Rightarrow> f x w')"

definition give :: "'a result \<Rightarrow> ('b, 'a) action" where
  "give r w = (r, w)"

definition repo :: "(store \<Rightarrow> 'a result \<times> store) \<Rightarrow> ('b, 'a) action" where
  "repo f = (\<lambda>(st, b). case f st of (r, st') \<Rightarrow> (r, (st', b)))"

lemma andThen_Ok: "andThen m f w = (Ok y, w'') \<longleftrightarrow> (\<exists>x w'. m w = (Ok x, w') \<and> f x w' = (Ok y, w''))"
  by (auto simp: andThen_def split: prod.split sum.split)

lemma andThen_give [simp]: "andThen (give (Ok x)) f w = f x w" "andThen (give (Err e)) f w = (Err e, w)"
  by (simp_all add: andThen_def give_def)

lemma give_Ok [simp]: "give r w = (Ok y, w') \<longleftrightarrow> r = Ok y \<and> w' = w"
  by (auto simp: give_def)

lemma repo_Ok: "repo f w = (Ok x, w') \<longleftrightarrow> f (fst w) = (Ok x, fst w') \<and> snd w' = snd w"
  by (cases w; cases w') (auto simp: repo_def split: prod.split)

record service =
  sv_env :: env
  sv_parsers :: parsers
  sv_deck :: deck_decoder
  sv_image :: "string \<Rightarrow> (int \<times> int) option"
  sv_fingerprint :: "create_upload_input \<Rightarrow> string"
  sv_year :: "time \<Rightarrow> string"
  sv_month :: "time \<Rightarrow> string"

section \<open>Text helpers\<close>

definition path_Base :: "string \<Rightarrow> string" where
  "path_Base p =
     (if p = [] then ''.''
      else let t = rev (dropWhile (\<lambda>c. c = CHR ''/'') (rev p)); b = rev (takeWhile (\<lambda>c. c \<noteq> CHR ''/'') (rev t))
           in if b = [] then ''/'' else b)"

definition sanitizeFileName :: "string \<Rightarrow> string" where
  "sanitizeFileName v = take 255 (path_Base (TrimSpace v))"

section \<open>Opening an upload\<close>

definition uploadTTL :: int where "uploadTTL = 10 * minute"

definition no_target :: upload_target where
  "no_target = \<lparr>ut_url = [], ut_method = [], ut_headers = [], ut_expires = 0\<rparr>"

text \<open>\<open>replayUpload\<close>: \<open>None\<close> is no earlier upload under the key.\<close>

definition replayUpload ::
  "service \<Rightarrow> 'b blob_ops \<Rightarrow> store \<Rightarrow> create_upload_input \<Rightarrow> string \<Rightarrow> time \<Rightarrow> created_upload option result" where
  "replayUpload sv ops st input key now =
     (case FindUploadByIdempotency st (cu_owner_service input) ''create_upload'' key of
        Inl e \<Rightarrow> if e = ErrNotFound then Ok None else Err e
      | Inr (asset, session) \<Rightarrow>
          if us_fingerprint session \<noteq> sv_fingerprint sv input then Err ErrConflict
          else
            let gone = (a_deleted asset \<noteq> 0 \<or> a_purged asset \<noteq> 0);
                a = (if gone then asset\<lparr>a_upload_status := UploadFailed\<rparr> else asset);
                u = (if gone then session\<lparr>us_status := UploadFailed\<rparr> else session);
                created = (\<lambda>t. Ok (Some \<lparr>cr_asset = a, cr_session = u, cr_target = t\<rparr>))
            in if us_status u = UploadCreated \<and> now < us_expires u
               then bindR (bl_target ops (us_staging_key u) (us_max_size u) (us_expires u)) created
               else created no_target)"

definition create_input_ok :: "namespace_policy \<Rightarrow> create_upload_input \<Rightarrow> string \<Rightarrow> bool" where
  "create_input_ok p input key \<longleftrightarrow> np_owner_service p = cu_owner_service input \<and> AllowsMIME p (cu_mime input)
     \<and> extensionAllowed (cu_file_name input) (cu_mime input) \<and> cu_owner_type input \<noteq> [] \<and> cu_owner_id input \<noteq> []
     \<and> AllowsSize p (cu_mime input) (cu_max_size input) \<and> key \<noteq> []"

definition with_visibility :: "namespace_policy \<Rightarrow> create_upload_input \<Rightarrow> create_upload_input" where
  "with_visibility p input =
     (if cu_visibility input = VisibilityOther [] then input\<lparr>cu_visibility := np_default_visibility p\<rparr> else input)"

definition asset_prefix :: "service \<Rightarrow> create_upload_input \<Rightarrow> string \<Rightarrow> time \<Rightarrow> string list" where
  "asset_prefix sv input i now = [''assets'', cu_namespace input, sv_year sv now, sv_month sv now, i]"

definition created_asset :: "service \<Rightarrow> namespace_policy \<Rightarrow> create_upload_input \<Rightarrow> string \<Rightarrow> time \<Rightarrow> asset" where
  "created_asset sv p input i now =
     \<lparr>a_id = i, a_namespace = cu_namespace input, a_owner_service = cu_owner_service input, a_owner_type = cu_owner_type input,
      a_owner_id = cu_owner_id input, a_purpose = cu_purpose input, a_locale = cu_locale input,
      a_file_name = sanitizeFileName (cu_file_name input), a_object_key = path_Join (asset_prefix sv input i now @ [''original'']),
      a_expected_mime = cu_mime input, a_detected_mime = [], a_size = 0, a_checksum = [], a_etag = [],
      a_upload_status = UploadCreated, a_scan_status = ScanPending, a_scan_details = [], a_scan_signature = [], a_scan_failure = [],
      a_processing_status = np_processing p, a_visibility = cu_visibility input, a_created = now, a_updated = now, a_deleted = 0,
      a_purged = 0, a_scan_attempts = 0, a_scan_event = [], a_processing_attempts = 0, a_processing_error = [],
      a_processing_next = 0, a_processing_claimed = 0\<rparr>"

definition created_session :: "service \<Rightarrow> create_upload_input \<Rightarrow> string \<Rightarrow> string \<Rightarrow> string \<Rightarrow> time \<Rightarrow> upload_session" where
  "created_session sv input key i sid now =
     \<lparr>us_id = sid, us_asset = i, us_key = key, us_caller = cu_owner_service input, us_operation = ''create_upload'',
      us_fingerprint = sv_fingerprint sv input,
      us_staging_key = path_Join (asset_prefix sv input i now @ [''staging'', sid]), us_max_size = cu_max_size input,
      us_status = UploadCreated, us_expires = now + uploadTTL, us_created = now, us_completed = 0\<rparr>"

definition CreateUploadSession ::
  "service \<Rightarrow> 'b blob_ops \<Rightarrow> create_upload_input \<Rightarrow> string \<Rightarrow> string \<Rightarrow> string \<Rightarrow> time \<Rightarrow> store \<Rightarrow> created_upload result \<times> store" where
  "CreateUploadSession sv ops input0 key i sid now st =
     (case PolicyFor (cu_namespace input0) of
        None \<Rightarrow> (Err ErrInvalidInput, st)
      | Some p \<Rightarrow>
        if \<not> create_input_ok p input0 key then (Err ErrInvalidInput, st)
        else
          let input = with_visibility p input0 in
          if \<not> AllowsVisibility p (cu_visibility input) then (Err ErrInvalidInput, st)
          else case replayUpload sv ops st input key now of
            Inl e \<Rightarrow> (Err e, st)
          | Inr (Some replay) \<Rightarrow> (Ok replay, st)
          | Inr None \<Rightarrow>
              let a = created_asset sv p input i now; u = created_session sv input key i sid now in
              (case bl_target ops (us_staging_key u) (cu_max_size input) (us_expires u) of
                 Inl e \<Rightarrow> (Err e, st)
               | Inr target \<Rightarrow>
                 (case CreateUpload (sv_env sv) a u st of
                    (Inl e, st') \<Rightarrow>
                      (case replayUpload sv ops st' input key now of
                         Inr (Some replay) \<Rightarrow> (Ok replay, st')
                       | _ \<Rightarrow> (Err e, st'))
                  | (Inr _, st') \<Rightarrow> (Ok \<lparr>cr_asset = a, cr_session = u, cr_target = target\<rparr>, st'))))"

section \<open>Refusing an upload\<close>

definition deleteUploadObjects :: "'b blob_ops \<Rightarrow> asset \<Rightarrow> upload_session \<Rightarrow> ('b, unit) action" where
  "deleteUploadObjects ops a u = (\<lambda>(st, b).
     case bl_delete ops (us_staging_key u) b of (e1, b1) \<Rightarrow>
     case bl_delete ops (a_object_key a) b1 of (e2, b2) \<Rightarrow>
       (case (e1, e2) of (Some e, _) \<Rightarrow> Err e | (None, Some e) \<Rightarrow> Err e | (None, None) \<Rightarrow> Ok (), (st, b2)))"

definition rejectUpload :: "'b blob_ops \<Rightarrow> asset \<Rightarrow> upload_session \<Rightarrow> time \<Rightarrow> ('b, unit) action" where
  "rejectUpload ops a u now = andThen (repo (FailUpload (a_id a) now)) (\<lambda>_. deleteUploadObjects ops a u)"

definition refuse :: "'b blob_ops \<Rightarrow> asset \<Rightarrow> upload_session \<Rightarrow> time \<Rightarrow> ('b, 'a) action" where
  "refuse ops a u now = andThen (rejectUpload ops a u now) (\<lambda>_. give (Err ErrInvalidUpload))"

section \<open>Looking at the bytes\<close>

definition whole :: byte_range where "whole = \<lparr>br_offset = 0, br_count = 0, br_suffix = 0\<rparr>"

definition first_bytes :: "int \<Rightarrow> byte_range" where "first_bytes n = \<lparr>br_offset = 0, br_count = n, br_suffix = 0\<rparr>"

definition verifyDetectedMIME ::
  "service \<Rightarrow> 'b blob_ops \<Rightarrow> string \<Rightarrow> blob_properties \<Rightarrow> string \<Rightarrow> string \<Rightarrow> 'b \<Rightarrow> string result" where
  "verifyDetectedMIME sv ops key observed fileName expected b =
     (let n = bp_size observed in
      if \<not> requiresContentReader expected then
        bindR (bl_open ops key (first_bytes (min n 512)) (bp_etag observed) b) (\<lambda>d.
          ValidateMedia (sv_parsers sv) fileName expected (take 512 (bd_body d)) None (nat n))
      else
        bindR (bl_open ops key whole (bp_etag observed) b) (\<lambda>d.
          let file = take (nat (n + 1)) (bd_body d) in
          if int (length file) \<noteq> n then Err ErrInvalidUpload
          else ValidateMedia (sv_parsers sv) fileName expected (take (nat (min n 512)) file) (Some file) (nat n)))"

text \<open>Whether the bytes are refused as a presenter document, and as an image of the wrong size.\<close>

definition PersonalMaxFileSize :: int where "PersonalMaxFileSize = 209715200"

definition deck_refused :: "service \<Rightarrow> 'b blob_ops \<Rightarrow> asset \<Rightarrow> string \<Rightarrow> blob_properties \<Rightarrow> 'b \<Rightarrow> bool result" where
  "deck_refused sv ops a key observed b =
     (if a_namespace a = PersonalNamespace \<and> a_expected_mime a = ''application/vnd.hhc.presenter+json'' then
        bindR (bl_open ops key whole (bp_etag observed) b) (\<lambda>d.
          Ok (\<not> ValidatePersonalDeck (sv_parsers sv) (sv_deck sv) PersonalMaxFileSize (bd_body d)))
      else Ok False)"

definition image_refused :: "service \<Rightarrow> 'b blob_ops \<Rightarrow> namespace_policy \<Rightarrow> string \<Rightarrow> blob_properties \<Rightarrow> 'b \<Rightarrow> bool result" where
  "image_refused sv ops p key observed b =
     (if np_width p > 0 \<or> np_height p > 0 then
        (case bl_open ops key (first_bytes (np_max_size p)) (bp_etag observed) b of
           Inl e \<Rightarrow> if e = ErrInvalidUpload then Ok True else Err e
         | Inr d \<Rightarrow> Ok (sv_image sv (take (nat (np_max_size p)) (bd_body d)) \<noteq> Some (np_width p, np_height p)))
      else Ok False)"

text \<open>Where the bytes are: at the final key already, at the staging key, or nowhere.\<close>

definition locate_upload :: "'b blob_ops \<Rightarrow> asset \<Rightarrow> upload_session \<Rightarrow> 'b \<Rightarrow> (string \<times> blob_metadata \<times> bool) option result" where
  "locate_upload ops a u b =
     (case bl_properties ops (a_object_key a) b of
        Inr m \<Rightarrow> Ok (Some (a_object_key a, m, True))
      | Inl e \<Rightarrow>
          if e \<noteq> ErrNotFound then Err e
          else (case bl_properties ops (us_staging_key u) b of
                  Inr m \<Rightarrow> Ok (Some (us_staging_key u, m, False))
                | Inl e' \<Rightarrow> if e' = ErrNotFound then Ok None else Err e'))"

text \<open>The checks between the two keys; \<open>None\<close> refuses the upload.\<close>

definition observe_upload ::
  "service \<Rightarrow> 'b blob_ops \<Rightarrow> namespace_policy \<Rightarrow> asset \<Rightarrow> upload_session \<Rightarrow> complete_upload_input \<Rightarrow> string \<Rightarrow> blob_metadata \<Rightarrow> 'b
     \<Rightarrow> blob_properties option result" where
  "observe_upload sv ops p a u input key m b =
     (if bm_size m \<le> 0 \<or> bm_size m > us_max_size u \<or> \<not> AllowsSize p (a_expected_mime a) (bm_size m) then Ok None
      else bindR (bl_inspect ops key (bm_etag m) (us_max_size u) b) (\<lambda>seen.
        case verifyDetectedMIME sv ops key seen (a_file_name a) (a_expected_mime a) b of
          Inl e \<Rightarrow> if e = ErrInvalidUpload then Ok None else Err e
        | Inr mime \<Rightarrow>
            let observed = seen\<lparr>bp_mime := mime\<rparr> in
            bindR (deck_refused sv ops a key observed b) (\<lambda>no.
            if no then Ok None
            else bindR (image_refused sv ops p key observed b) (\<lambda>no.
            if no then Ok None
            else if bp_size observed \<noteq> bm_size m \<or> (bm_etag m \<noteq> [] \<and> bp_etag observed \<noteq> bm_etag m)
                \<or> bp_size observed \<noteq> co_size input \<or> bp_mime observed = [] \<or> bp_mime observed \<noteq> co_mime input
                \<or> \<not> EqualFold (bp_checksum observed) (co_checksum input) then Ok None
            else Ok (Some observed)))))"

section \<open>Committing the bytes\<close>

definition no_properties :: blob_properties where
  "no_properties = \<lparr>bp_size = 0, bp_mime = [], bp_checksum = [], bp_etag = []\<rparr>"

definition same_bytes :: "blob_properties \<Rightarrow> blob_properties \<Rightarrow> bool" where
  "same_bytes c o' \<longleftrightarrow> bp_size c = bp_size o' \<and> EqualFold (bp_checksum c) (bp_checksum o')"

definition take_mime :: "blob_properties \<Rightarrow> blob_properties \<Rightarrow> blob_properties" where
  "take_mime o' c = (if same_bytes c o' then c\<lparr>bp_mime := bp_mime o'\<rparr> else c)"

text \<open>
  A commit that meets an existing object looks whether that object has the observed bytes: the
  second half of a completion that was interrupted after its first commit.
\<close>

definition commit_upload :: "'b blob_ops \<Rightarrow> asset \<Rightarrow> upload_session \<Rightarrow> blob_properties \<Rightarrow> 'b \<Rightarrow> blob_properties result \<times> 'b" where
  "commit_upload ops a u observed b =
     (case bl_commit ops (us_staging_key u) (a_object_key a) b of
        (Inr c, b') \<Rightarrow> (Ok c, b')
      | (Inl e, b') \<Rightarrow>
          if e = ErrConflict \<or> e = ErrInvalidUpload then
            (case bl_properties ops (a_object_key a) b' of
               Inl _ \<Rightarrow> (Err e, b')
             | Inr m \<Rightarrow>
                 if bm_size m = bp_size observed then
                   (case bl_inspect ops (a_object_key a) (bm_etag m) (us_max_size u) b' of
                      Inl _ \<Rightarrow> (Err e, b')
                    | Inr c \<Rightarrow> let c' = take_mime observed c in
                        (if same_bytes c' observed \<and> bp_mime c' = bp_mime observed then Ok c' else Err e, b'))
                 else (if same_bytes no_properties observed \<and> bp_mime (take_mime observed no_properties) = bp_mime observed
                       then Ok (take_mime observed no_properties) else Err e, b'))
          else (Err e, b'))"

section \<open>Completing an upload\<close>

definition committed_asset :: "asset \<Rightarrow> blob_properties \<Rightarrow> string \<Rightarrow> time \<Rightarrow> asset" where
  "committed_asset a c derivation now =
     (let a' = a\<lparr>a_size := bp_size c, a_checksum := ToLower (bp_checksum c), a_detected_mime := bp_mime c, a_etag := bp_etag c,
                a_upload_status := UploadCompleted, a_scan_status := ScanPending, a_updated := now\<rparr>
      in if derivation \<noteq> [] then a'\<lparr>a_scan_status := ScanClean, a_scan_signature := TrustedBulletinWatermark, a_scan_details := derivation\<rparr>
         else a')"

definition completion_request :: "asset \<Rightarrow> string \<Rightarrow> string \<Rightarrow> time \<Rightarrow> scan_request" where
  "completion_request a derivation event now =
     (if derivation \<noteq> [] then zero_request
      else \<lparr>sr_event = event, sr_asset = a_id a, sr_etag = a_etag a, sr_attempts = 0, sr_created = now\<rparr>)"

definition delete_staging :: "'b blob_ops \<Rightarrow> upload_session \<Rightarrow> ('b, unit) action" where
  "delete_staging ops u = (\<lambda>(st, b). case bl_delete ops (us_staging_key u) b of
      (None, b') \<Rightarrow> (Ok (), (st, b')) | (Some e, b') \<Rightarrow> (Err e, (st, b')))"

definition record_completion ::
  "service \<Rightarrow> 'b blob_ops \<Rightarrow> asset \<Rightarrow> upload_session \<Rightarrow> blob_properties \<Rightarrow> string \<Rightarrow> string \<Rightarrow> time \<Rightarrow> ('b, asset) action" where
  "record_completion sv ops a u c derivation event now =
     (let a' = committed_asset a c derivation now in
      andThen (repo (CompleteUpload (sv_env sv) a' (u\<lparr>us_status := UploadCompleted, us_completed := now\<rparr>)
          (completion_request a' derivation event now))) (\<lambda>_.
      andThen (delete_staging ops u) (\<lambda>_. give (Ok a'))))"

definition finish_upload ::
  "service \<Rightarrow> 'b blob_ops \<Rightarrow> asset \<Rightarrow> upload_session \<Rightarrow> blob_properties \<Rightarrow> bool \<Rightarrow> string \<Rightarrow> string \<Rightarrow> time \<Rightarrow> ('b, asset) action" where
  "finish_upload sv ops a u observed already derivation event now = (\<lambda>(st, b).
     case (if already then (Ok observed, b) else commit_upload ops a u observed b) of
       (Inl e, b') \<Rightarrow> (Err e, (st, b'))
     | (Inr c0, b') \<Rightarrow>
         let c = take_mime observed c0 in
         if \<not> same_bytes c observed \<or> bp_mime c \<noteq> bp_mime observed then refuse ops a u now (st, b')
         else record_completion sv ops a u c derivation event now (st, b'))"

definition complete_open ::
  "service \<Rightarrow> 'b blob_ops \<Rightarrow> asset \<Rightarrow> upload_session \<Rightarrow> complete_upload_input \<Rightarrow> string \<Rightarrow> string \<Rightarrow> time \<Rightarrow> time \<Rightarrow> ('b, asset) action" where
  "complete_open sv ops a u input derivation event checked now = (\<lambda>(st, b).
     case PolicyFor (a_namespace a) of
       None \<Rightarrow> (Err ErrInvalidUpload, (st, b))
     | Some p \<Rightarrow>
       (case locate_upload ops a u b of
          Inl e \<Rightarrow> (Err e, (st, b))
        | Inr None \<Rightarrow> refuse ops a u now (st, b)
        | Inr (Some (key, m, already)) \<Rightarrow>
            if \<not> already \<and> us_expires u < checked then refuse ops a u now (st, b)
            else (case observe_upload sv ops p a u input key m b of
                    Inl e \<Rightarrow> (Err e, (st, b))
                  | Inr None \<Rightarrow> refuse ops a u now (st, b)
                  | Inr (Some observed) \<Rightarrow> finish_upload sv ops a u observed already derivation event now (st, b))))"

definition completeUpload ::
  "service \<Rightarrow> 'b blob_ops \<Rightarrow> string \<Rightarrow> complete_upload_input \<Rightarrow> string \<Rightarrow> string \<Rightarrow> time \<Rightarrow> time \<Rightarrow> ('b, asset) action" where
  "completeUpload sv ops i input derivation event checked now = (\<lambda>(st, b).
     case GetAsset st i of
       Inl e \<Rightarrow> (Err e, (st, b))
     | Inr a \<Rightarrow>
       (case GetUploadSession st i of
          Inl e \<Rightarrow> (Err e, (st, b))
        | Inr u \<Rightarrow>
            if us_status u = UploadCompleted then
              (if a_size a = co_size input \<and> a_checksum a = ToLower (co_checksum input) \<and> a_detected_mime a = co_mime input
               then andThen (delete_staging ops u) (\<lambda>_. give (Ok a)) (st, b)
               else (Err ErrInvalidUpload, (st, b)))
            else if us_status u = UploadFailed then
              andThen (deleteUploadObjects ops a u) (\<lambda>_. give (Err ErrInvalidUpload)) (st, b)
            else complete_open sv ops a u input derivation event checked now (st, b)))"

definition Service_CompleteUpload ::
  "service \<Rightarrow> 'b blob_ops \<Rightarrow> string \<Rightarrow> complete_upload_input \<Rightarrow> string \<Rightarrow> time \<Rightarrow> time \<Rightarrow> ('b, asset) action" where
  "Service_CompleteUpload sv ops i input event checked now = completeUpload sv ops i input [] event checked now"

section \<open>Watermarked bulletins\<close>

record derived_input = complete_upload_input +
  di_source :: string
  di_sha :: string

definition lower_hex_digest :: "string \<Rightarrow> bool" where
  "lower_hex_digest s \<longleftrightarrow> length s = 64 \<and> set s \<subseteq> set ''0123456789abcdef''"

definition derivable_bulletin :: "asset \<Rightarrow> asset \<Rightarrow> derived_input \<Rightarrow> bool" where
  "derivable_bulletin out src input \<longleftrightarrow>
     a_namespace out = ''cms.weekly.pdf'' \<and> a_owner_service out = ''hhc-web-api'' \<and> a_owner_type out = ''bulletin_download_job''
     \<and> a_purpose out = ''weekly_bulletin_member'' \<and> a_visibility out = VisibilityPrivate \<and> a_expected_mime out = ''application/pdf''
     \<and> a_deleted out = 0 \<and> a_purged out = 0
     \<and> a_id src \<noteq> a_id out \<and> a_namespace src = ''cms.weekly.pdf'' \<and> a_owner_service src = a_owner_service out
     \<and> a_owner_type src = ''bulletin_issue'' \<and> a_purpose src = ''weekly_bulletin'' \<and> a_locale src = a_locale out
     \<and> a_visibility src = VisibilityPrivate \<and> a_upload_status src = UploadCompleted \<and> a_scan_status src = ScanClean
     \<and> a_detected_mime src = ''application/pdf'' \<and> a_etag src \<noteq> [] \<and> a_deleted src = 0 \<and> a_purged src = 0
     \<and> lower_hex_digest (di_sha input) \<and> a_checksum src = di_sha input"

definition trusted_by :: "asset \<Rightarrow> string \<Rightarrow> bool" where
  "trusted_by a evidence \<longleftrightarrow> a_scan_status a = ScanClean \<and> a_scan_signature a = TrustedBulletinWatermark \<and> a_scan_details a = evidence"

definition CompleteDerivedBulletin ::
  "service \<Rightarrow> 'b blob_ops \<Rightarrow> string \<Rightarrow> derived_input \<Rightarrow> string \<Rightarrow> time \<Rightarrow> time \<Rightarrow> ('b, asset) action" where
  "CompleteDerivedBulletin sv ops i input event checked now = (\<lambda>(st, b).
     case (GetAsset st i, GetAsset st (di_source input)) of
       (Inl e, _) \<Rightarrow> (Err e, (st, b))
     | (Inr out, Inl e) \<Rightarrow> (Err e, (st, b))
     | (Inr out, Inr src) \<Rightarrow>
         if \<not> derivable_bulletin out src input then (Err ErrInvalidInput, (st, b))
         else
           let evidence = a_id src @ '':'' @ a_checksum src in
           if a_upload_status out = UploadCompleted \<and> (a_scan_signature out \<noteq> TrustedBulletinWatermark \<or> a_scan_details out \<noteq> evidence)
           then (Err ErrConflict, (st, b))
           else andThen (completeUpload sv ops i (complete_upload_input.truncate input) evidence event checked now) (\<lambda>_ (st', b').
             case GetAsset st' i of
               Inl e \<Rightarrow> (Err e, (st', b'))
             | Inr a \<Rightarrow> if trusted_by a evidence then (Ok a, (st', b')) else (Err ErrConflict, (st', b'))) (st, b))"

lemma CompleteDerivedBulletin_Ok:
  assumes "CompleteDerivedBulletin sv ops i input event checked now (st, b) = (Ok a, (st', b'))"
  obtains out src where "GetAsset st i = Ok out" "GetAsset st (di_source input) = Ok src" "derivable_bulletin out src input"
    "GetAsset st' i = Ok a" "trusted_by a (a_id src @ '':'' @ di_sha input)"
  using assms that unfolding CompleteDerivedBulletin_def
  by (auto simp: Let_def andThen_def derivable_bulletin_def split: sum.splits if_splits prod.splits)

section \<open>What an upload has to be\<close>

text \<open>
  The checks of a completion as one predicate on the bytes: the size is announced and allowed, the
  digest is announced, and the bytes are what the MIME type and the namespace ask for.
\<close>

definition media_of :: "service \<Rightarrow> string \<Rightarrow> string \<Rightarrow> string \<Rightarrow> string result" where
  "media_of sv fileName expected bs = ValidateMedia (sv_parsers sv) fileName expected (take 512 bs)
     (if requiresContentReader expected then Some bs else None) (length bs)"

definition upload_fits ::
  "service \<Rightarrow> (string \<Rightarrow> string) \<Rightarrow> namespace_policy \<Rightarrow> asset \<Rightarrow> upload_session \<Rightarrow> complete_upload_input \<Rightarrow> string \<Rightarrow> bool" where
  "upload_fits sv digest p a u input bs \<longleftrightarrow>
     int (length bs) \<le> us_max_size u \<and> AllowsSize p (a_expected_mime a) (int (length bs))
     \<and> media_of sv (a_file_name a) (a_expected_mime a) bs = Ok (a_expected_mime a)
     \<and> (a_namespace a = PersonalNamespace \<and> a_expected_mime a = ''application/vnd.hhc.presenter+json''
          \<longrightarrow> ValidatePersonalDeck (sv_parsers sv) (sv_deck sv) PersonalMaxFileSize bs)
     \<and> (np_width p > 0 \<or> np_height p > 0 \<longrightarrow> sv_image sv bs = Some (np_width p, np_height p))
     \<and> int (length bs) = co_size input \<and> a_expected_mime a \<noteq> [] \<and> co_mime input = a_expected_mime a
     \<and> EqualFold (digest bs) (co_checksum input)"

lemma media_of_cases: "media_of sv f m bs = Ok m \<or> media_of sv f m bs = Err ErrInvalidUpload"
  by (simp add: media_of_def ValidateMedia_def)

lemma fits_bounds:
  assumes "upload_fits sv digest p a u input bs" "PolicyFor ns = Some p"
  shows "bs \<noteq> [] \<and> int (length bs) \<le> np_max_size p"
  using assms size_limit_le_max [OF assms(2), of "a_expected_mime a"]
  by (auto simp: upload_fits_def AllowsSize_def)

lemma size_allowed_max:
  assumes "PolicyFor ns = Some p" "AllowsSize p m n"
  shows "n \<le> np_max_size p"
  using assms size_limit_le_max [OF assms(1), of m] by (auto simp: AllowsSize_def)

text \<open>The bytes a completion looks at, and what it makes of them.\<close>

definition candidate :: "(string \<Rightarrow> object option) \<Rightarrow> asset \<Rightarrow> upload_session \<Rightarrow> time \<Rightarrow> string option" where
  "candidate objects a u checked =
     (case objects (a_object_key a) of
        Some ob \<Rightarrow> Some (fst ob)
      | None \<Rightarrow> if us_expires u < checked then None else map_option fst (objects (us_staging_key u)))"

context answering_store
begin

lemma verify_media:
  assumes "good k" "content b k = Some (bs, e)" "describes digest o' (bs, e)" "bs \<noteq> []"
  shows "verifyDetectedMIME sv ops k o' f m b = media_of sv f m bs"
proof (cases "requiresContentReader m")
  case False
  have etag: "bp_etag o' = [] \<or> bp_etag o' = snd (bs, e)" and size: "bp_size o' = int (length bs)"
    using assms(3) by (auto simp: describes_def)
  obtain d where d: "bl_open ops k (first_bytes (min (bp_size o') 512)) (bp_etag o') b = Ok d"
      "bd_body d = (if 0 < br_count (first_bytes (min (bp_size o') 512))
        then take (nat (br_count (first_bytes (min (bp_size o') 512)))) (fst (bs, e)) else fst (bs, e))"
    by (rule opened [OF assms(1,2) etag, of "first_bytes (min (bp_size o') 512)"]) (auto simp: first_bytes_def size)
  have "take 512 (bd_body d) = take 512 bs"
    using d(2) assms(4) by (auto simp: first_bytes_def size min_def nat_int)
  then show ?thesis using False d(1) by (simp add: verifyDetectedMIME_def media_of_def size)
next
  case True
  have etag: "bp_etag o' = [] \<or> bp_etag o' = snd (bs, e)" and size: "bp_size o' = int (length bs)"
    using assms(3) by (auto simp: describes_def)
  obtain d where d: "bl_open ops k whole (bp_etag o') b = Ok d" "bd_body d = bs"
    by (rule opened [OF assms(1,2) etag, of whole]) (auto simp: whole_def)
  have "take (nat (min (int (length bs)) 512)) bs = take 512 bs"
    by (simp add: min_def nat_int take_all_iff) 
  then show ?thesis using True d by (simp add: verifyDetectedMIME_def media_of_def size nat_add_distrib)
qed

lemma deck_decided:
  assumes "good k" "content b k = Some (bs, e)" "bp_etag o' = e"
  shows "deck_refused sv ops a k o' b = Ok (a_namespace a = PersonalNamespace
    \<and> a_expected_mime a = ''application/vnd.hhc.presenter+json''
    \<and> \<not> ValidatePersonalDeck (sv_parsers sv) (sv_deck sv) PersonalMaxFileSize bs)"
proof -
  obtain d where "bl_open ops k whole (bp_etag o') b = Ok d" "bd_body d = bs"
    by (rule opened [OF assms(1,2), of "bp_etag o'" whole]) (auto simp: whole_def assms(3))
  then show ?thesis by (auto simp: deck_refused_def)
qed

lemma image_decided:
  assumes "good k" "content b k = Some (bs, e)" "bp_etag o' = e" "int (length bs) \<le> np_max_size p"
  shows "image_refused sv ops p k o' b = Ok ((np_width p > 0 \<or> np_height p > 0)
    \<and> sv_image sv bs \<noteq> Some (np_width p, np_height p))"
proof -
  let ?r = "first_bytes (np_max_size p)"
  obtain d where d: "bl_open ops k ?r (bp_etag o') b = Ok d"
      "bd_body d = (if 0 < br_count ?r then take (nat (br_count ?r)) (fst (bs, e)) else fst (bs, e))"
    by (rule opened [OF assms(1,2), of "bp_etag o'" ?r]) (use assms(3,4) in \<open>auto simp: first_bytes_def\<close>)
  have "length bs \<le> nat (np_max_size p)" using assms(4) by linarith
  then have "take (nat (np_max_size p)) (bd_body d) = bs" using d(2) by (auto simp: first_bytes_def)
  then show ?thesis using d(1) by (simp add: image_refused_def)
qed

text \<open>The sequence of checks decides the predicate, without an error of its own.\<close>

lemma observe_decides:
  assumes "good k" "content b k = Some (bs, e)" "PolicyFor ns = Some p"
    and m: "bm_size m = int (length bs)" "bm_etag m = e"
  shows "if upload_fits sv digest p a u input bs
    then \<exists>o'. observe_upload sv ops p a u input k m b = Ok (Some o') \<and> describes digest o' (bs, e) \<and> bp_mime o' = co_mime input
    else observe_upload sv ops p a u input k m b = Ok None"
proof (cases "int (length bs) \<le> us_max_size u \<and> AllowsSize p (a_expected_mime a) (int (length bs))")
  case False
  then show ?thesis by (auto simp: observe_upload_def upload_fits_def m)
next
  case True
  then have ne: "bs \<noteq> []" and le: "int (length bs) \<le> np_max_size p"
    using size_allowed_max [OF assms(3)] by (auto simp: AllowsSize_def)
  obtain seen where seen: "bl_inspect ops k e (us_max_size u) b = Ok seen" "describes digest seen (bs, e)"
    by (rule inspected [OF assms(1,2), of e "us_max_size u"]) (use True in auto)
  define media where "media = media_of sv (a_file_name a) (a_expected_mime a) bs"
  have v: "verifyDetectedMIME sv ops k seen (a_file_name a) (a_expected_mime a) b = media"
    unfolding media_def by (rule verify_media [OF assms(1,2) seen(2) ne])
  have d: "bp_size seen = int (length bs)" "bp_checksum seen = digest bs" "bp_etag seen = e"
    using seen(2) by (simp_all add: describes_def)
  show ?thesis
  proof (cases "media = Ok (a_expected_mime a)")
    case False
    then have "media = Err ErrInvalidUpload" using media_of_cases unfolding media_def by metis
    then show ?thesis using True ne seen(1) v False by (simp add: observe_upload_def upload_fits_def m media_def [symmetric])
  next
    case media: True
    define o' where "o' = seen\<lparr>bp_mime := a_expected_mime a\<rparr>"
    have o': "bp_etag o' = e" "bp_size o' = int (length bs)" "bp_checksum o' = digest bs" "bp_mime o' = a_expected_mime a"
      by (simp_all add: o'_def d)
    note checks = deck_decided [OF assms(1,2) o'(1), of sv a] image_decided [OF assms(1,2) o'(1) le, of sv]
    have step: "observe_upload sv ops p a u input k m b =
      (if a_namespace a = PersonalNamespace \<and> a_expected_mime a = ''application/vnd.hhc.presenter+json''
          \<and> \<not> ValidatePersonalDeck (sv_parsers sv) (sv_deck sv) PersonalMaxFileSize bs then Ok None
       else if (np_width p > 0 \<or> np_height p > 0) \<and> sv_image sv bs \<noteq> Some (np_width p, np_height p) then Ok None
       else if int (length bs) \<noteq> co_size input \<or> a_expected_mime a = [] \<or> a_expected_mime a \<noteq> co_mime input
          \<or> \<not> EqualFold (digest bs) (co_checksum input) then Ok None else Ok (Some o'))"
      using True ne seen(1) v media unfolding observe_upload_def m
      by (simp add: o'_def [symmetric] checks o' del: length_greater_0_conv)
    have "describes digest o' (bs, e)" using o' by (simp add: describes_def)
    then show ?thesis using True media o'(4) unfolding step upload_fits_def media_def by auto
  qed
qed

lemma commit_settles:
  assumes "good (a_object_key a)" "good (us_staging_key u)" "us_staging_key u \<noteq> a_object_key a"
    and "content b (a_object_key a) = None" "content b (us_staging_key u) = Some (bs, e)"
  obtains c b' e' where "commit_upload ops a u observed b = (Ok c, b')" "content b' (a_object_key a) = Some (bs, e')"
    "describes digest c (bs, e')" "content b' (us_staging_key u) = None"
    "\<And>k. good k \<Longrightarrow> k \<noteq> us_staging_key u \<Longrightarrow> k \<noteq> a_object_key a \<Longrightarrow> content b' k = content b k"
proof -
  obtain c b' where c: "bl_commit ops (us_staging_key u) (a_object_key a) b = (Ok c, b')"
    using commit_present [OF assms(2,1,3,5,4)] by blast
  note laws = commit_Ok [OF assms(2,1,3) c]
  then obtain e' where "content b' (a_object_key a) = Some (bs, e')" "describes digest c (bs, e')"
    using assms(4,5) by fastforce
  moreover have "commit_upload ops a u observed b = (Ok c, b')" by (simp add: commit_upload_def c)
  ultimately show thesis using that laws by blast
qed

lemma same_bytes_digest: "describes digest c (bs, e) \<Longrightarrow> describes digest o' (bs, e') \<Longrightarrow> same_bytes c o'"
  by (simp add: describes_def same_bytes_def EqualFold_def)

text \<open>
  A completion of an open upload either refuses it or records exactly the candidate, which is then
  the object of the final key; which of the two is decided by \<open>upload_fits\<close>.
\<close>

lemma complete_open_decides:
  assumes keys: "good (a_object_key a)" "good (us_staging_key u)" "us_staging_key u \<noteq> a_object_key a"
    and p: "PolicyFor (a_namespace a) = Some p"
  obtains (refused) "\<And>bs. candidate (content b) a u checked = Some bs \<Longrightarrow> \<not> upload_fits sv digest p a u input bs"
      "complete_open sv ops a u input derivation event checked now (st, b) = refuse ops a u now (st, b)"
  | (recorded) bs c b' where "candidate (content b) a u checked = Some bs" "upload_fits sv digest p a u input bs"
      "complete_open sv ops a u input derivation event checked now (st, b) = record_completion sv ops a u c derivation event now (st, b')"
      "content b' (a_object_key a) = Some (bs, bp_etag c)" "describes digest c (bs, bp_etag c)" "bp_mime c = co_mime input"
      "\<And>k. good k \<Longrightarrow> k \<noteq> us_staging_key u \<Longrightarrow> k \<noteq> a_object_key a \<Longrightarrow> content b' k = content b k"
proof -
  let ?f = "a_object_key a" and ?s = "us_staging_key u"
  consider (final) m bs e where "content b ?f = Some (bs, e)" "bl_properties ops ?f b = Ok m" "bm_size m = int (length bs)" "bm_etag m = e"
    | (staging) m bs e where "content b ?f = None" "bl_properties ops ?f b = Err ErrNotFound" "content b ?s = Some (bs, e)"
        "bl_properties ops ?s b = Ok m" "bm_size m = int (length bs)" "bm_etag m = e"
    | (absent) "content b ?f = None" "bl_properties ops ?f b = Err ErrNotFound" "content b ?s = None" "bl_properties ops ?s b = Err ErrNotFound"
  proof (cases rule: looked_up [OF keys(1), of b])
    case f: 1
    show thesis by (cases rule: looked_up [OF keys(2), of b]) (use f staging absent in \<open>auto intro: prod.exhaust\<close>)
  next
    case (2 ob m) then show thesis using final by (cases ob) auto
  qed
  then show thesis
  proof cases
    case (final m bs e)
    have cand: "candidate (content b) a u checked = Some bs" by (simp add: candidate_def final(1))
    note d = observe_decides [OF keys(1) final(1) p final(3,4), of sv a u input]
    show thesis
    proof (cases "upload_fits sv digest p a u input bs")
      case False
      then show thesis using refused cand d by (simp add: complete_open_def p locate_upload_def final(2))
    next
      case True
      then obtain o' where o': "observe_upload sv ops p a u input ?f m b = Ok (Some o')" "describes digest o' (bs, e)" "bp_mime o' = co_mime input"
        using d by auto
      have "complete_open sv ops a u input derivation event checked now (st, b) = record_completion sv ops a u o' derivation event now (st, b)"
        by (simp add: complete_open_def p locate_upload_def final(2) o'(1) finish_upload_def take_mime_def same_bytes_def EqualFold_def)
      moreover have "bp_etag o' = e" using o'(2) by (simp add: describes_def)
      ultimately show thesis using recorded cand True final(1) o' by blast
    qed
  next
    case (staging m bs e)
    show thesis
    proof (cases "us_expires u < checked")
      case True
      then show thesis using refused staging by (simp add: complete_open_def p locate_upload_def candidate_def)
    next
      case False
      then have cand: "candidate (content b) a u checked = Some bs" by (simp add: candidate_def staging)
      note d = observe_decides [OF keys(2) staging(3) p staging(5,6), of sv a u input]
      show thesis
      proof (cases "upload_fits sv digest p a u input bs")
        case unfit: False
        then show thesis using refused cand d False by (simp add: complete_open_def p locate_upload_def staging(2,4))
      next
        case fit: True
        then obtain o' where o': "observe_upload sv ops p a u input ?s m b = Ok (Some o')" "describes digest o' (bs, e)" "bp_mime o' = co_mime input"
          using d by auto
        obtain c b' e' where c: "commit_upload ops a u o' b = (Ok c, b')" "content b' ?f = Some (bs, e')" "describes digest c (bs, e')"
            "\<And>k. good k \<Longrightarrow> k \<noteq> ?s \<Longrightarrow> k \<noteq> ?f \<Longrightarrow> content b' k = content b k"
          using commit_settles [OF keys staging(1,3), of o'] by metis
        have same: "same_bytes c o'" by (rule same_bytes_digest [OF c(3) o'(2)])
        have "complete_open sv ops a u input derivation event checked now (st, b)
            = record_completion sv ops a u (take_mime o' c) derivation event now (st, b')"
          using same False by (simp add: complete_open_def p locate_upload_def staging(2,4) o'(1) finish_upload_def c(1) take_mime_def same_bytes_def EqualFold_def)
        moreover have "bp_etag (take_mime o' c) = e'" "describes digest (take_mime o' c) (bs, e')" "bp_mime (take_mime o' c) = co_mime input"
          using same c(3) o'(3) by (simp_all add: take_mime_def describes_def)
        ultimately show thesis using recorded cand fit c(2,4) by blast
      qed
    qed
  next
    case absent
    show thesis
    proof (rule refused)
      show "candidate (content b) a u checked = Some bs \<Longrightarrow> \<not> upload_fits sv digest p a u input bs" for bs
        by (simp add: candidate_def absent split: if_splits)
    qed (simp add: complete_open_def p locate_upload_def absent)
  qed
qed

end

end
