(* ===== verification/Upload_Props.thy ===== *)
theory Upload_Props
  imports Upload_Service
begin

text \<open>
  What a completion of an upload guarantees, over the local blob store: the lemmas of the locale
  \<open>answering_store\<close> about the sequence of checks are used through its interpretation \<open>local_answers\<close>,
  the effects on the repository through the case rules of \<open>Store_Uploads\<close>.
\<close>

section \<open>The repository around a completion\<close>

lemma GetUploadSession_Ok: "GetUploadSession st i = Ok u \<longleftrightarrow> sel1 (\<lambda>u. us_asset u = i) (st_sessions st) = Some u"
  by (auto simp: GetUploadSession_def split: option.split)

lemma GetAsset_row: "GetAsset st i = Ok a \<longleftrightarrow> (\<exists>r. sel1 (\<lambda>r. a_id r = i \<and> a_purged r = 0) (st_assets st) = Some r \<and> a = asset.truncate r)"
  by (auto simp: GetAsset_def getAsset_def split: option.split)

lemma truncate_fields [simp]: "a_id (asset.truncate r) = a_id r" "a_upload_status (asset.truncate r) = a_upload_status r"
  by (simp_all add: asset.truncate_def)

text \<open>An upload that is open: both its rows say so.\<close>

definition open_upload :: "store \<Rightarrow> string \<Rightarrow> asset \<Rightarrow> upload_session \<Rightarrow> bool" where
  "open_upload st i a u \<longleftrightarrow> GetAsset st i = Ok a \<and> GetUploadSession st i = Ok u
     \<and> a_upload_status a = UploadCreated \<and> us_status u = UploadCreated"

lemma open_upload_id: "open_upload st i a u \<Longrightarrow> a_id a = i"
  by (auto simp: open_upload_def GetAsset_row dest: sel1_Some)

lemma open_upload_state: "open_upload st i a u \<Longrightarrow> upload_state st i = Some (UploadCreated, UploadCreated)"
  by (auto simp: open_upload_def GetAsset_row GetUploadSession_Ok upload_state_Some asset.truncate_def)

lemma sessions_affected:
  assumes "wf_sessions st" "GetUploadSession st i = Ok u"
  shows "affected (\<lambda>s. us_asset s = i) (st_sessions st) = 1"
  using assms by (subst affected_one [where k = us_asset and x = i])
    (auto simp: wf_sessions_def GetUploadSession_Ok dest: sel1_Some)

lemma assets_affected:
  assumes "wf_assets st" "GetAsset st i = Ok a"
  shows "affected (\<lambda>r. a_id r = i) (st_assets st) = 1"
  using assms by (subst affected_one [where k = a_id and x = i])
    (auto simp: wf_assets_def GetAsset_row dest: sel1_Some)

lemma FailUpload_open:
  assumes "open_upload st i a u" "wf_sessions st"
  obtains st' where "FailUpload i now st = (Ok (), st')" "upload_state st' i = Some (UploadFailed, UploadFailed)"
proof -
  have s: "upload_state st i = Some (UploadCreated, UploadCreated)" by (rule open_upload_state [OF assms(1)])
  have "GetUploadSession st i = Ok u" using assms(1) by (simp add: open_upload_def)
  note n = sessions_affected [OF assms(2) this]
  obtain st' where st': "FailUpload i now st = (Ok (), st')"
    using s n by (simp add: FailUpload_def Let_def)
  moreover have "upload_state st' i = Some (UploadFailed, UploadFailed)"
    using st'
  proof (cases rule: FailUpload_cases)
    case fresh
    then show ?thesis
      by (intro upload_state_upd [OF s, where f = "\<lambda>r. r\<lparr>a_upload_status := UploadFailed, a_updated := now\<rparr>"
          and g = "\<lambda>s. s\<lparr>us_status := UploadFailed\<rparr>"]) simp_all
  qed (simp add: s)
  ultimately show thesis using that by blast
qed

section \<open>Refusing\<close>

lemma refuse_not_Ok: "refuse ops a u now w \<noteq> (Ok x, w')"
  by (auto simp: refuse_def andThen_def give_def split: prod.splits sum.splits)

context answering_store
begin

lemma refuse_open:
  assumes "open_upload st i a u" "wf_sessions st" "good (a_object_key a)" "good (us_staging_key u)"
  obtains st' b' where "refuse ops a u now (st, b) = (Err ErrInvalidUpload, (st', b'))"
    "FailUpload i now st = (Ok (), st')" "upload_state st' i = Some (UploadFailed, UploadFailed)"
    "content b' (a_object_key a) = None" "content b' (us_staging_key u) = None"
    "\<And>k. good k \<Longrightarrow> k \<noteq> us_staging_key u \<Longrightarrow> k \<noteq> a_object_key a \<Longrightarrow> content b' k = content b k"
proof -
  obtain st' where st': "FailUpload i now st = (Ok (), st')" "upload_state st' i = Some (UploadFailed, UploadFailed)"
    using FailUpload_open [OF assms(1,2)] by blast
  obtain b1 b2 where d: "bl_delete ops (us_staging_key u) b = (None, b1)" "bl_delete ops (a_object_key a) b1 = (None, b2)"
    using delete_present [OF assms(4)] delete_present [OF assms(3)] by metis
  have "refuse ops a u now (st, b) = (Err ErrInvalidUpload, (st', b2))"
    by (simp add: refuse_def rejectUpload_def andThen_def repo_def open_upload_id [OF assms(1)] st' deleteUploadObjects_def d give_def)
  moreover have "content b2 k = (if k = a_object_key a \<or> k = us_staging_key u then None else content b k)" if "good k" for k
    using delete_Ok [OF assms(4) d(1)] delete_Ok [OF assms(3) d(2)] that by auto
  ultimately show thesis using that [OF _ st', of b2] assms(3,4) by auto
qed

lemma record_completion_eq:
  assumes "good (us_staging_key u)"
  obtains b' where "record_completion sv ops a u c derivation event now (st, b) =
    (case CompleteUpload (sv_env sv) (committed_asset a c derivation now) (u\<lparr>us_status := UploadCompleted, us_completed := now\<rparr>)
        (completion_request (committed_asset a c derivation now) derivation event now) st of
       (Inl e, st') \<Rightarrow> (Err e, (st', b))
     | (Inr _, st') \<Rightarrow> (Ok (committed_asset a c derivation now), (st', b')))"
    "\<And>k. good k \<Longrightarrow> content b' k = (if k = us_staging_key u then None else content b k)"
proof -
  obtain b' where d: "bl_delete ops (us_staging_key u) b = (None, b')" using delete_present [OF assms] by blast
  show thesis
    by (rule that [of b'])
      (simp_all add: record_completion_def Let_def andThen_def repo_def delete_staging_def d give_def delete_Ok [OF assms d] split: prod.split sum.split)
qed

end

lemma failed_stays_refused:
  assumes "open_upload st i a u" "plain_key (a_object_key a)" "plain_key (us_staging_key u)" "FailUpload i now st = (Ok (), st')"
  shows "fst (Service_CompleteUpload sv (local_ops le) i input event t t' (st', fs)) = Err ErrInvalidUpload"
proof -
  have open': "upload_state st i = Some (UploadCreated, UploadCreated)" by (rule open_upload_state [OF assms(1)])
  from assms(4) show ?thesis
  proof (cases rule: FailUpload_cases)
    case fresh
    obtain r where r: "sel1 (\<lambda>r. a_id r = i \<and> a_purged r = 0) (st_assets st) = Some r" "a = asset.truncate r"
      using assms(1) by (auto simp: open_upload_def GetAsset_row)
    have u: "sel1 (\<lambda>u. us_asset u = i) (st_sessions st) = Some u" using assms(1) by (simp add: open_upload_def GetUploadSession_Ok)
    have "sel1 (\<lambda>r. a_id r = i \<and> a_purged r = 0) (st_assets st') = Some (r\<lparr>a_upload_status := UploadFailed, a_updated := now\<rparr>)"
      unfolding fresh(2) using r(1) sel1_upd_upd [of "\<lambda>r. a_id r = i \<and> a_purged r = 0" "\<lambda>r. r\<lparr>a_upload_status := UploadFailed, a_updated := now\<rparr>"
        "\<lambda>r. a_id r = i" "st_assets st"] by simp
    then have a': "GetAsset st' i = Ok (asset.truncate (r\<lparr>a_upload_status := UploadFailed, a_updated := now\<rparr>))" by (auto simp: GetAsset_row)
    have "sel1 (\<lambda>u. us_asset u = i) (st_sessions st') = Some (u\<lparr>us_status := UploadFailed\<rparr>)"
      unfolding fresh(2) using u sel1_upd_upd [of "\<lambda>u. us_asset u = i" "\<lambda>u. u\<lparr>us_status := UploadFailed\<rparr>"
        "\<lambda>u. us_asset u = i" "st_sessions st"] by simp
    then have u': "GetUploadSession st' i = Ok (u\<lparr>us_status := UploadFailed\<rparr>)" by (simp add: GetUploadSession_Ok)
    have k: "plain_key (a_object_key (asset.truncate (r\<lparr>a_upload_status := UploadFailed, a_updated := now\<rparr>)))"
      using assms(2) r(2) by (simp add: asset.truncate_def)
    obtain b1 b2 where "bl_delete (local_ops le) (us_staging_key u) fs = (None, b1)"
        "bl_delete (local_ops le) (a_object_key (asset.truncate (r\<lparr>a_upload_status := UploadFailed, a_updated := now\<rparr>))) b1 = (None, b2)"
      using local_answers.delete_present [OF assms(3)] local_answers.delete_present [OF k] by metis
    then show ?thesis
      by (simp add: Service_CompleteUpload_def completeUpload_def a' u' andThen_def deleteUploadObjects_def give_def)
  qed (simp add: open')
qed

section \<open>What is recorded\<close>

lemma committed_asset_fields [simp]:
  "a_id (committed_asset a c d now) = a_id a" "a_upload_status (committed_asset a c d now) = UploadCompleted"
  "a_size (committed_asset a c d now) = bp_size c" "a_checksum (committed_asset a c d now) = ToLower (bp_checksum c)"
  "a_detected_mime (committed_asset a c d now) = bp_mime c" "a_etag (committed_asset a c d now) = bp_etag c"
  "a_updated (committed_asset a c d now) = now" "a_visibility (committed_asset a c d now) = a_visibility a"
  "a_scan_status (committed_asset a c [] now) = ScanPending"
  by (simp_all add: committed_asset_def Let_def)

lemma untrusted_completion [simp]: "\<not> trusted_asset (committed_asset a c [] now)"
  by (simp add: trusted_asset_def)

lemma truncate_complete_row:
  "asset.truncate (complete_row (committed_asset (asset.truncate r) c [] now) q r)
     = (committed_asset (asset.truncate r) c [] now)\<lparr>a_scan_event := sr_event q\<rparr>"
  by (simp add: complete_row_def committed_asset_def asset.truncate_def)

text \<open>The asset, its state and its scan request after a completion that the repository took.\<close>

lemma recorded_rows:
  assumes "open_upload st i a u"
    and c: "CompleteUpload env (committed_asset a c [] now) (u\<lparr>us_status := UploadCompleted, us_completed := now\<rparr>)
       (completion_request (committed_asset a c [] now) [] event now) st = (Ok (), st')"
  shows "GetAsset st' i = Ok ((committed_asset a c [] now)\<lparr>a_scan_event := event\<rparr>)
    \<and> upload_state st' i = Some (UploadCompleted, UploadCompleted)
    \<and> new_outbox_row event i (bp_etag c) now \<in> set (st_scan_outbox st')"
proof -
  let ?a = "committed_asset a c [] now" and ?u = "u\<lparr>us_status := UploadCompleted, us_completed := now\<rparr>"
  let ?q = "completion_request ?a [] event now"
  have i: "a_id a = i" by (rule open_upload_id [OF assms(1)])
  have open': "upload_state st i = Some (UploadCreated, UploadCreated)" by (rule open_upload_state [OF assms(1)])
  obtain r where r: "sel1 (\<lambda>r. a_id r = i \<and> a_purged r = 0) (st_assets st) = Some r" "a = asset.truncate r"
    using assms(1) by (auto simp: open_upload_def GetAsset_row)
  from c show ?thesis
  proof (cases rule: CompleteUpload_cases)
    case replay
    then show ?thesis using open' i by simp
  next
    case (fresh evs)
    have "sel1 (\<lambda>r. a_id r = i \<and> a_purged r = 0) (st_assets st') = Some (complete_row ?a ?q r)"
      unfolding fresh(4) using sel1_upd_upd [of "\<lambda>r. a_id r = i \<and> a_purged r = 0" "complete_row ?a ?q" "\<lambda>r. a_id r = i" "st_assets st"] r(1) i
      by (simp add: completed_store_def)
    then have "GetAsset st' i = Ok (asset.truncate (complete_row ?a ?q r))" by (auto simp: GetAsset_row)
    moreover have "upload_state st' i = Some (UploadCompleted, UploadCompleted)"
      using completed_store_state [of st ?a _ ?u ?q evs] open' i fresh(4) by simp
    moreover have "new_outbox_row event i (bp_etag c) now \<in> set (st_scan_outbox st')"
      using fresh(4) i by (simp add: completed_store_def completion_request_def)
    ultimately show ?thesis using r(2) truncate_complete_row [of r c now ?q] by (simp add: completion_request_def)
  qed
qed

text \<open>The course of a completion of an open upload whose bytes fit, up to the answer of the repository.\<close>

abbreviation record_rows :: "service \<Rightarrow> asset \<Rightarrow> upload_session \<Rightarrow> blob_properties \<Rightarrow> string \<Rightarrow> time \<Rightarrow> store \<Rightarrow> unit result \<times> store" where
  "record_rows sv a u c event now st \<equiv> CompleteUpload (sv_env sv) (committed_asset a c [] now)
     (u\<lparr>us_status := UploadCompleted, us_completed := now\<rparr>) (completion_request (committed_asset a c [] now) [] event now) st"

lemma open_completion:
  "open_upload st i a u \<Longrightarrow> Service_CompleteUpload sv ops i input event checked now (st, b)
     = complete_open sv ops a u input [] event checked now (st, b)"
  by (simp add: Service_CompleteUpload_def completeUpload_def open_upload_def)

lemma completion_outcome:
  assumes up: "open_upload st i a u"
    and keys: "plain_key (a_object_key a)" "plain_key (us_staging_key u)" "us_staging_key u \<noteq> a_object_key a"
    and p: "PolicyFor (a_namespace a) = Some p"
    and fit: "candidate (local_content fs) a u checked = Some bs" "upload_fits sv (le_digest le) p a u input bs"
  obtains c b' b'' where
    "Service_CompleteUpload sv (local_ops le) i input event checked now (st, fs) = (case record_rows sv a u c event now st of
        (Inl e, st') \<Rightarrow> (Err e, (st', b')) | (Inr _, st') \<Rightarrow> (Ok (committed_asset a c [] now), (st', b'')))"
    "describes (le_digest le) c (bs, bp_etag c)" "bp_mime c = a_expected_mime a" "bp_etag c \<noteq> []"
    "local_content b' (a_object_key a) = Some (bs, bp_etag c)"
    "\<And>k. plain_key k \<Longrightarrow> local_content b'' k = (if k = us_staging_key u then None else local_content b' k)"
    "\<And>k. plain_key k \<Longrightarrow> k \<noteq> us_staging_key u \<Longrightarrow> k \<noteq> a_object_key a \<Longrightarrow> local_content b' k = local_content fs k"
proof -
  obtain c b' where c: "complete_open sv (local_ops le) a u input [] event checked now (st, fs)
        = record_completion sv (local_ops le) a u c [] event now (st, b')"
      "local_content b' (a_object_key a) = Some (bs, bp_etag c)" "describes (le_digest le) c (bs, bp_etag c)" "bp_mime c = co_mime input"
      "\<And>k. plain_key k \<Longrightarrow> k \<noteq> us_staging_key u \<Longrightarrow> k \<noteq> a_object_key a \<Longrightarrow> local_content b' k = local_content fs k"
    by (rule local_answers.complete_open_decides [OF keys p, where b = fs and checked = checked and sv = sv and le = le
      and input = input and derivation = "[]" and event = event and now = now and st = st]) (use fit in auto)
  obtain b'' where b'': "record_completion sv (local_ops le) a u c [] event now (st, b') = (case record_rows sv a u c event now st of
        (Inl e, st') \<Rightarrow> (Err e, (st', b')) | (Inr _, st') \<Rightarrow> (Ok (committed_asset a c [] now), (st', b'')))"
      "\<And>k. plain_key k \<Longrightarrow> local_content b'' k = (if k = us_staging_key u then None else local_content b' k)"
    by (rule local_answers.record_completion_eq [OF keys(2), where b = b' and sv = sv and le = le
        and a = a and c = c and derivation = "[]" and event = event and now = now and st = st]) (rule that)
  obtain fl where "bp_etag c = file_etag fl" using c(2) by auto
  then have "bp_etag c \<noteq> []" by (simp add: file_etag_def)
  moreover have "bp_mime c = a_expected_mime a" using c(4) fit(2) by (simp add: upload_fits_def)
  ultimately show thesis by (intro that [where c = c and b' = b' and b'' = b'']) (simp_all add: open_completion [OF up] c(1,2,3,5) b'')
qed

lemma completion_refused:
  assumes up: "open_upload st i a u"
    and keys: "plain_key (a_object_key a)" "plain_key (us_staging_key u)" "us_staging_key u \<noteq> a_object_key a"
    and p: "PolicyFor (a_namespace a) = Some p"
    and unfit: "\<forall>bs. candidate (local_content fs) a u checked = Some bs \<longrightarrow> \<not> upload_fits sv (le_digest le) p a u input bs"
  shows "Service_CompleteUpload sv (local_ops le) i input event checked now (st, fs) = refuse (local_ops le) a u now (st, fs)"
  unfolding open_completion [OF up]
  by (rule local_answers.complete_open_decides [OF keys p, where b = fs and checked = checked and sv = sv and le = le
      and input = input and derivation = "[]" and event = event and now = now and st = st]) (use unfit in blast)+

text \<open>
  C22.  A completion that succeeds on an open upload tells the truth about the bytes.  The object of
  the final key is exactly the content it looked at (the final object if there already was one, else
  the staged one, which must not be expired), that content passes every announced and required
  check, no staged object is left and no other object changed.  The asset it returns is the one the
  repository now holds, with the size, digest, MIME type and ETag of that object, waiting for a scan
  whose request is in the outbox.
\<close>
theorem completed_upload_honest:
  assumes up: "open_upload st i a u"
    and keys: "plain_key (a_object_key a)" "plain_key (us_staging_key u)" "us_staging_key u \<noteq> a_object_key a"
    and done': "Service_CompleteUpload sv (local_ops le) i input event checked now (st, fs) = (Ok a', (st', fs'))"
  shows "\<exists>p file. PolicyFor (a_namespace a) = Some p
    \<and> candidate (local_content fs) a u checked = Some (lf_bytes file) \<and> upload_fits sv (le_digest le) p a u input (lf_bytes file)
    \<and> fs' (a_object_key a) = Some file \<and> fs' (us_staging_key u) = None
    \<and> (\<forall>k. plain_key k \<and> k \<noteq> us_staging_key u \<and> k \<noteq> a_object_key a \<longrightarrow> local_content fs' k = local_content fs k)
    \<and> a_upload_status a' = UploadCompleted \<and> a_scan_status a' = ScanPending \<and> a_size a' = int (length (lf_bytes file))
    \<and> a_checksum a' = ToLower (le_digest le (lf_bytes file)) \<and> a_detected_mime a' = a_expected_mime a \<and> a_etag a' = file_etag file
    \<and> GetAsset st' i = Ok (a'\<lparr>a_scan_event := event\<rparr>) \<and> upload_state st' i = Some (UploadCompleted, UploadCompleted)
    \<and> new_outbox_row event i (file_etag file) now \<in> set (st_scan_outbox st')"
proof -
  have "complete_open sv (local_ops le) a u input [] event checked now (st, fs) = (Ok a', (st', fs'))"
    using done' unfolding open_completion [OF up] .
  then obtain p where p: "PolicyFor (a_namespace a) = Some p"
    by (cases "PolicyFor (a_namespace a)") (auto simp: complete_open_def)
  have "\<not> (\<forall>bs. candidate (local_content fs) a u checked = Some bs \<longrightarrow> \<not> upload_fits sv (le_digest le) p a u input bs)"
    using completion_refused [OF up keys p, of fs checked sv le input event now] done' refuse_not_Ok by metis
  then obtain bs where fit: "candidate (local_content fs) a u checked = Some bs" "upload_fits sv (le_digest le) p a u input bs" by blast
  obtain c b' b'' where c:
    "Service_CompleteUpload sv (local_ops le) i input event checked now (st, fs) = (case record_rows sv a u c event now st of
        (Inl e, st') \<Rightarrow> (Err e, (st', b')) | (Inr _, st') \<Rightarrow> (Ok (committed_asset a c [] now), (st', b'')))"
    "describes (le_digest le) c (bs, bp_etag c)" "bp_mime c = a_expected_mime a" "bp_etag c \<noteq> []"
    "local_content b' (a_object_key a) = Some (bs, bp_etag c)"
    "\<And>k. plain_key k \<Longrightarrow> local_content b'' k = (if k = us_staging_key u then None else local_content b' k)"
    "\<And>k. plain_key k \<Longrightarrow> k \<noteq> us_staging_key u \<Longrightarrow> k \<noteq> a_object_key a \<Longrightarrow> local_content b' k = local_content fs k"
    by (rule completion_outcome [OF up keys p fit, where event = event and now = now]) (rule that)
  have r: "record_rows sv a u c event now st = (Ok (), st')" "a' = committed_asset a c [] now" "fs' = b''"
    using done' c(1) by (auto split: prod.splits sum.splits)
  have final: "local_content fs' (a_object_key a) = Some (bs, bp_etag c)"
    using c(6) [OF keys(1)] c(5) keys(3) by (simp add: r(3))
  then obtain fl where fl: "fs' (a_object_key a) = Some fl" "lf_bytes fl = bs" "file_etag fl = bp_etag c" by auto
  have "local_content fs' k = local_content fs k" if "plain_key k" "k \<noteq> us_staging_key u" "k \<noteq> a_object_key a" for k
    using c(6) [OF that(1)] c(7) [OF that] that by (simp add: r(3))
  moreover have "fs' (us_staging_key u) = None" using c(6) [OF keys(2)] by (simp add: r(3))
  ultimately show ?thesis using p fit c(2,3) fl recorded_rows [OF up r(1)] r(2)
    by (intro exI [of _ p] exI [of _ fl]) (simp add: describes_def)
qed

section \<open>Fit and unfit uploads\<close>

text \<open>
  C23.  A completion of an open upload whose bytes are missing, expired or unfit is refused for good:
  it answers \<open>ErrInvalidUpload\<close>, both rows of the upload are failed, neither of its objects is left and
  no other object changed; and every later completion of it, whatever it announces, is refused again.
\<close>
theorem unfit_upload_refused:
  assumes up: "open_upload st i a u" "wf_sessions st"
    and keys: "plain_key (a_object_key a)" "plain_key (us_staging_key u)" "us_staging_key u \<noteq> a_object_key a"
    and p: "PolicyFor (a_namespace a) = Some p"
    and unfit: "\<forall>bs. candidate (local_content fs) a u checked = Some bs \<longrightarrow> \<not> upload_fits sv (le_digest le) p a u input bs"
  shows "\<exists>st' fs'. Service_CompleteUpload sv (local_ops le) i input event checked now (st, fs) = (Err ErrInvalidUpload, (st', fs'))
    \<and> upload_state st' i = Some (UploadFailed, UploadFailed) \<and> fs' (a_object_key a) = None \<and> fs' (us_staging_key u) = None
    \<and> (\<forall>k. plain_key k \<and> k \<noteq> us_staging_key u \<and> k \<noteq> a_object_key a \<longrightarrow> local_content fs' k = local_content fs k)
    \<and> (\<forall>input' event' t t'. fst (Service_CompleteUpload sv (local_ops le) i input' event' t t' (st', fs')) = Err ErrInvalidUpload)"
proof -
  note r = completion_refused [OF up(1) keys p unfit, of event now]
  obtain st' fs' where f: "refuse (local_ops le) a u now (st, fs) = (Err ErrInvalidUpload :: asset result, (st', fs'))"
    "FailUpload i now st = (Ok (), st')" "upload_state st' i = Some (UploadFailed, UploadFailed)"
    "local_content fs' (a_object_key a) = None" "local_content fs' (us_staging_key u) = None"
    "\<And>k. plain_key k \<Longrightarrow> k \<noteq> us_staging_key u \<Longrightarrow> k \<noteq> a_object_key a \<Longrightarrow> local_content fs' k = local_content fs k"
    using local_answers.refuse_open [OF up keys(1,2)] by metis
  have again: "fst (Service_CompleteUpload sv (local_ops le) i input' event' t t' (st', fs')) = Err ErrInvalidUpload" for input' event' t t'
    by (rule failed_stays_refused [OF up(1) keys(1,2) f(2)])
  show ?thesis using r f again by (intro exI [of _ st'] exI [of _ fs']) auto
qed

text \<open>When the repository takes a completion: the constraints of its tables hold, the event is new and auditing works.\<close>

definition accepts_completion :: "env \<Rightarrow> string \<Rightarrow> time \<Rightarrow> store \<Rightarrow> bool" where
  "accepts_completion env event now st \<longleftrightarrow> wf_assets st \<and> wf_sessions st \<and> (\<forall>r\<in>set (st_assets st). known_visibility (a_visibility r))
     \<and> event \<noteq> [] \<and> event \<notin> ob_event ` set (st_scan_outbox st) \<and> now \<noteq> 0
     \<and> (\<forall>b t. is_ok (audit_upload env ''asset.upload.complete'' (b :: asset) now t))"

lemma is_ok_iff: "is_ok r \<longleftrightarrow> (\<exists>x. r = Ok x)"
  by (cases r) auto

lemma CompleteUpload_accepted:
  assumes up: "open_upload st i a u" and acc: "accepts_completion env event now st" and etag: "bp_etag c \<noteq> []"
  shows "fst (CompleteUpload env (committed_asset a c [] now) (u\<lparr>us_status := UploadCompleted, us_completed := now\<rparr>)
       (completion_request (committed_asset a c [] now) [] event now) st) = Ok ()"
proof -
  let ?a = "committed_asset a c [] now" and ?u = "u\<lparr>us_status := UploadCompleted, us_completed := now\<rparr>"
  let ?q = "completion_request ?a [] event now"
  let ?st1 = "UPDATE_assets (\<lambda>r. a_id r = i) (complete_row ?a ?q) st"
  let ?st2 = "?st1\<lparr>st_sessions := upd_where (\<lambda>s. us_asset s = i)
      (\<lambda>s. s\<lparr>us_status := us_status ?u, us_completed := us_completed ?u\<rparr>) (st_sessions ?st1)\<rparr>"
  have i: "a_id a = i" by (rule open_upload_id [OF up])
  have wf: "wf_assets st" "wf_sessions st" and audit: "\<And>t. \<exists>t'. audit_upload env ''asset.upload.complete'' ?a now t = Ok t'"
    using acc by (auto simp: accepts_completion_def is_ok_iff)
  have n: "affected (\<lambda>r. a_id r = i) (st_assets st) = 1" "affected (\<lambda>s. us_asset s = i) (st_sessions st) = 1"
    using up assets_affected [OF wf(1)] sessions_affected [OF wf(2)] by (auto simp: open_upload_def)
  have row: "asset_check (complete_row ?a ?q r)" if "r \<in> set (st_assets st)" for r
    using acc that by (simp add: accepts_completion_def asset_check_def complete_row_def completion_request_def)
  have checks: "\<forall>r\<in>set (st_assets ?st1). a_id r = i \<longrightarrow> asset_check r"
    using row by (auto simp: UPDATE_assets_def set_upd_where simp del: committed_asset_fields)
  obtain r where "r \<in> set (st_assets st)" "a_id r = i"
    using up by (auto simp: open_upload_def GetAsset_row dest: sel1_Some)
  then have "complete_row ?a ?q r \<in> set (st_assets ?st1)" by (auto simp: UPDATE_assets_def set_upd_where)
  then have "\<exists>r\<in>set (st_assets ?st2). a_id r = sr_asset ?q"
    using \<open>a_id r = i\<close> i by (intro bexI [of _ "complete_row ?a ?q r"]) (simp_all add: completion_request_def)
  then obtain st3 where st3: "INSERT_scan_outbox ?q ?st2 = Ok st3"
    using acc etag by (auto simp: INSERT_scan_outbox_Ok completion_request_def accepts_completion_def UPDATE_assets_def)
  have input: "complete_input_ok ?a ?q"
    using acc etag i by (simp add: complete_input_ok_def completion_request_def accepts_completion_def)
  obtain st4 where "audit_upload env ''asset.upload.complete'' ?a now st3 = Ok st4" using audit by blast
  then show ?thesis using input open_upload_state [OF up] n checks st3 i
    by (auto simp: CompleteUpload_def Let_def)
qed

text \<open>
  C24.  Bytes that fit are never lost.  A completion of an open upload whose bytes fit either succeeds
  or leaves the repository as it was, with the same bytes still the candidate of every later
  completion, even after the upload would have expired; and it does succeed whenever the repository
  takes it.  So a client that repeats an interrupted completion ends with the asset completed.
\<close>
theorem interrupted_completion_resumes:
  assumes up: "open_upload st i a u"
    and keys: "plain_key (a_object_key a)" "plain_key (us_staging_key u)" "us_staging_key u \<noteq> a_object_key a"
    and p: "PolicyFor (a_namespace a) = Some p"
    and fit: "candidate (local_content fs) a u checked = Some bs" "upload_fits sv (le_digest le) p a u input bs"
  shows "let (r, st', fs') = Service_CompleteUpload sv (local_ops le) i input event checked now (st, fs) in
     (accepts_completion (sv_env sv) event now st \<longrightarrow> is_ok r)
     \<and> (\<not> is_ok r \<longrightarrow> st' = st \<and> (\<forall>later. candidate (local_content fs') a u later = Some bs))"
proof -
  obtain c b' b'' where c:
    "Service_CompleteUpload sv (local_ops le) i input event checked now (st, fs) = (case record_rows sv a u c event now st of
        (Inl e, st') \<Rightarrow> (Err e, (st', b')) | (Inr _, st') \<Rightarrow> (Ok (committed_asset a c [] now), (st', b'')))"
    "bp_etag c \<noteq> []" "local_content b' (a_object_key a) = Some (bs, bp_etag c)"
    by (rule completion_outcome [OF up keys p fit, where event = event and now = now]) (rule that)
  have ok: "accepts_completion (sv_env sv) event now st \<Longrightarrow> fst (record_rows sv a u c event now st) = Ok ()"
    using CompleteUpload_accepted [OF up _ c(2)] by blast
  have stands: "candidate (local_content b') a u later = Some bs" for later unfolding candidate_def c(3) by simp
  have "fst (record_rows sv a u c event now st) = Inl e \<Longrightarrow> snd (record_rows sv a u c event now st) = st" for e
    unfolding CompleteUpload_def by (rule tx_rollback)
  then show ?thesis using c(1) ok stands
    by (cases "record_rows sv a u c event now st"; cases "fst (record_rows sv a u c event now st)") auto
qed

section \<open>From the session to the asset\<close>

text \<open>What the identifiers and the clock contribute to a key.\<close>

definition proper_parts :: "service \<Rightarrow> string \<Rightarrow> string \<Rightarrow> time \<Rightarrow> bool" where
  "proper_parts sv i sid now \<longleftrightarrow> proper_element (sv_year sv now) \<and> proper_element (sv_month sv now)
     \<and> proper_element i \<and> proper_element sid"

lemma PolicyFor_proper: "PolicyFor ns = Some p \<Longrightarrow> proper_element ns"
proof -
  assume "PolicyFor ns = Some p"
  then have "(ns, p) \<in> set namespacePolicies" unfolding PolicyFor_def by (rule map_of_SomeD)
  moreover have "list_all (\<lambda>(ns, _). proper_element ns) namespacePolicies"
    by (simp add: namespacePolicies_def proper_element_def PersonalNamespace_def)
  ultimately show ?thesis by (auto simp: list_all_iff)
qed

lemma path_Join_proper:
  assumes "es \<noteq> []" "list_all proper_element es"
  shows "path_Join es = join_with ''/'' es"
proof -
  have "filter (\<lambda>e. e \<noteq> []) es = es" using assms(2) by (auto simp: list_all_iff proper_element_def intro: filter_True)
  then show ?thesis using assms by (simp add: path_Join_def path_Clean_proper)
qed

lemma asset_key_plain:
  assumes "PolicyFor (cu_namespace input) = Some p" "proper_parts sv i sid now"
    and "list_all proper_element es" "key = path_Join (asset_prefix sv input i now @ es)"
  shows "plain_key key \<and> split_on (CHR ''/'') key = asset_prefix sv input i now @ es"
proof -
  let ?es = "asset_prefix sv input i now @ es"
  have proper: "list_all proper_element ?es"
    using assms(2,3) PolicyFor_proper [OF assms(1)] by (simp add: asset_prefix_def proper_parts_def) (simp add: proper_element_def)
  have k: "key = join_with ''/'' ?es" using path_Join_proper [OF _ proper] assms(4) by (simp add: asset_prefix_def)
  have "take 2 (join_with ''/'' ?es) \<noteq> ''..''" by (simp add: asset_prefix_def)
  then have "plain_key key" unfolding k by (intro plain_keyI proper) (simp_all add: asset_prefix_def)
  moreover have "split_on (CHR ''/'') key = ?es"
    unfolding k using proper by (intro split_join) (auto simp: list_all_iff proper_element_def asset_prefix_def)
  ultimately show ?thesis by blast
qed

text \<open>The two keys of a new upload.\<close>

lemma created_keys:
  assumes "PolicyFor (cu_namespace input) = Some p" "proper_parts sv i sid now"
  shows "plain_key (a_object_key (created_asset sv q input i now)) \<and> plain_key (us_staging_key (created_session sv input key i sid now))
    \<and> us_staging_key (created_session sv input key i sid now) \<noteq> a_object_key (created_asset sv q input i now)"
proof -
  have o': "proper_element ''original''" "proper_element ''staging''" "proper_element sid"
    using assms(2) by (simp_all add: proper_element_def proper_parts_def)
  note f = asset_key_plain [OF assms, of "[''original'']" "a_object_key (created_asset sv q input i now)"]
  note s = asset_key_plain [OF assms, of "[''staging'', sid]" "us_staging_key (created_session sv input key i sid now)"]
  have "split_on (CHR ''/'') (a_object_key (created_asset sv q input i now)) = asset_prefix sv input i now @ [''original'']"
      "split_on (CHR ''/'') (us_staging_key (created_session sv input key i sid now)) = asset_prefix sv input i now @ [''staging'', sid]"
    using f s o' by (simp_all add: created_asset_def created_session_def)
  then have "us_staging_key (created_session sv input key i sid now) \<noteq> a_object_key (created_asset sv q input i now)" by auto
  then show ?thesis using f s o' by (simp add: created_asset_def created_session_def)
qed

lemma with_visibility_fields [simp]:
  "cu_namespace (with_visibility p input) = cu_namespace input" "cu_owner_service (with_visibility p input) = cu_owner_service input"
  "cu_mime (with_visibility p input) = cu_mime input" "cu_max_size (with_visibility p input) = cu_max_size input"
  by (simp_all add: with_visibility_def)

text \<open>A session that was opened, not replayed.\<close>

lemma CreateUploadSession_fresh:
  assumes "CreateUploadSession sv ops input0 key i sid now st = (Ok c, st')" "st' \<noteq> st"
  obtains p target where "PolicyFor (cu_namespace input0) = Some p" "create_input_ok p input0 key"
    "AllowsVisibility p (cu_visibility (with_visibility p input0))"
    "c = \<lparr>cr_asset = created_asset sv p (with_visibility p input0) i now,
          cr_session = created_session sv (with_visibility p input0) key i sid now, cr_target = target\<rparr>"
    "bl_target ops (us_staging_key (cr_session c)) (cu_max_size input0) (us_expires (cr_session c)) = Ok target"
    "CreateUpload (sv_env sv) (cr_asset c) (cr_session c) st = (Ok (), st')"
proof -
  have same: "CreateUpload (sv_env sv) a u st = (Inl e, st'') \<Longrightarrow> st'' = st" for a u e st''
    using tx_rollback unfolding CreateUpload_def by (metis fst_conv snd_conv)
  show thesis
    using assms that unfolding CreateUploadSession_def Let_def
    by (auto split: option.splits if_splits sum.splits prod.splits dest!: same)
qed

lemma truncate_new_row: "asset.truncate (new_asset_row (created_asset sv p input i now)) = created_asset sv p input i now"
  by (simp add: new_asset_row_def created_asset_def asset.truncate_def)

lemma sel1_appended: "\<forall>r\<in>set t. \<not> P r \<Longrightarrow> P x \<Longrightarrow> sel1 P (t @ [x]) = Some x"
  by (induction t) auto

text \<open>The rows of a new session can be read back, by identifier and by idempotency key.\<close>

lemma created_rows:
  assumes "CreateUpload env a u st = (Ok (), st')"
    and "a = created_asset sv p input i now" "u = created_session sv input key i sid now"
  shows "open_upload st' i a u" "FindUploadByIdempotency st' (cu_owner_service input) ''create_upload'' key = Ok (a, u)"
proof -
  obtain evs where c:
    "\<forall>s\<in>set (st_assets st). a_id a \<noteq> a_id s \<and> a_object_key a \<noteq> a_object_key s"
    "\<forall>v\<in>set (st_sessions st). us_id u \<noteq> us_id v \<and> us_asset u \<noteq> us_asset v
        \<and> (us_caller u, us_operation u, us_key u) \<noteq> (us_caller v, us_operation v, us_key v)"
    "st' = st\<lparr>st_assets := st_assets st @ [new_asset_row a], st_sessions := st_sessions st @ [u\<lparr>us_completed := 0\<rparr>],
              st_audit := st_audit st @ evs\<rparr>"
    by (rule CreateUpload_cases [OF assms(1)]) (rule that)
  have u0: "u\<lparr>us_completed := 0\<rparr> = u" and ui: "us_asset u = i" "us_caller u = cu_owner_service input" "us_operation u = ''create_upload''"
      "us_key u = key" and ai: "a_id a = i"
    by (simp_all add: assms(2,3) created_session_def created_asset_def)
  have "sel1 (\<lambda>r. a_id r = i \<and> a_purged r = 0) (st_assets st') = Some (new_asset_row a)"
      "sel1 (\<lambda>r. a_id r = i) (st_assets st') = Some (new_asset_row a)"
    unfolding c(3) using c(1) ai by (auto intro!: sel1_appended)
  then have as: "GetAsset st' i = Ok a" "getAsset st' i True = Ok a"
    using truncate_new_row [of sv p input i now] by (simp_all add: GetAsset_def getAsset_def assms(2))
  have us: "GetUploadSession st' i = Ok u"
    unfolding GetUploadSession_Ok c(3) using c(2) ui(1) u0 by (auto intro!: sel1_appended)
  have "sel1 (\<lambda>u. us_caller u = cu_owner_service input \<and> us_operation u = ''create_upload'' \<and> us_key u = key) (st_sessions st') = Some u"
    unfolding c(3) using c(2) ui u0 by (auto intro!: sel1_appended)
  then show "FindUploadByIdempotency st' (cu_owner_service input) ''create_upload'' key = Ok (a, u)"
    using as us ui by (simp add: FindUploadByIdempotency_def)
  show "open_upload st' i a u" using as us by (simp add: open_upload_def assms(2,3) created_asset_def created_session_def)
qed

text \<open>
  Opening an upload is idempotent.  After a session was opened, opening it again under the same
  idempotency key returns the same asset and session, whatever identifiers that request drew, and
  changes nothing; it carries the same upload target as long as the session has not expired.  The
  same key with another request is a conflict and changes nothing either.
\<close>
theorem upload_session_replay:
  assumes "CreateUploadSession sv ops input key i sid now st = (Ok c, st')" "st' \<noteq> st"
  shows "CreateUploadSession sv ops input key i' sid' later st' =
      (Ok (c\<lparr>cr_target := (if later < us_expires (cr_session c) then cr_target c else no_target)\<rparr>), st')
    \<and> (\<forall>other p. PolicyFor (cu_namespace other) = Some p \<longrightarrow> create_input_ok p other key
          \<longrightarrow> AllowsVisibility p (cu_visibility (with_visibility p other)) \<longrightarrow> cu_owner_service other = cu_owner_service input
          \<longrightarrow> sv_fingerprint sv (with_visibility p other) \<noteq> us_fingerprint (cr_session c)
          \<longrightarrow> CreateUploadSession sv ops other key i' sid' later st' = (Err ErrConflict, st'))"
proof -
  obtain p target where c: "PolicyFor (cu_namespace input) = Some p" "create_input_ok p input key"
    "AllowsVisibility p (cu_visibility (with_visibility p input))"
    "c = \<lparr>cr_asset = created_asset sv p (with_visibility p input) i now,
          cr_session = created_session sv (with_visibility p input) key i sid now, cr_target = target\<rparr>"
    "bl_target ops (us_staging_key (cr_session c)) (cu_max_size input) (us_expires (cr_session c)) = Ok target"
    "CreateUpload (sv_env sv) (cr_asset c) (cr_session c) st = (Ok (), st')"
    by (rule CreateUploadSession_fresh [OF assms]) (rule that)
  have find: "FindUploadByIdempotency st' (cu_owner_service input) ''create_upload'' key = Ok (cr_asset c, cr_session c)"
    using created_rows(2) [OF c(6), of sv p "with_visibility p input" i now key sid] c(4) by simp
  have f: "a_deleted (cr_asset c) = 0" "a_purged (cr_asset c) = 0" "us_status (cr_session c) = UploadCreated"
      "us_fingerprint (cr_session c) = sv_fingerprint sv (with_visibility p input)" "us_max_size (cr_session c) = cu_max_size input"
      "cr_target c = target"
    by (simp_all add: c(4) created_asset_def created_session_def)
  have "replayUpload sv ops st' (with_visibility p input) key later =
      Ok (Some (c\<lparr>cr_target := (if later < us_expires (cr_session c) then cr_target c else no_target)\<rparr>))"
    using f c(5) by (simp add: replayUpload_def find Let_def)
  moreover have "replayUpload sv ops st' (with_visibility q other) key later = Err ErrConflict"
    if "cu_owner_service other = cu_owner_service input" "sv_fingerprint sv (with_visibility q other) \<noteq> us_fingerprint (cr_session c)" for q other
    using that by (simp add: replayUpload_def find)
  ultimately show ?thesis using c(1,2,3) by (simp add: CreateUploadSession_def)
qed

text \<open>
  C25.  An upload works from end to end.  A client that opens a session, sends acceptable bytes to the
  signed URL before its expiry and announces their size, digest and type before the session expires
  gets its asset: the request for the bytes answers 201, the completion succeeds whenever the repository
  takes it, and afterwards the repository holds the asset with exactly these bytes at its final key and
  nothing at the staging key.
\<close>
theorem upload_end_to_end:
  assumes session: "CreateUploadSession sv (local_ops le) input key i sid start st = (Ok c, st1)" "st1 \<noteq> st"
    and parts: "proper_parts sv i sid start"
    and new: "fs (us_staging_key (cr_session c)) = None" "fs (a_object_key (cr_asset c)) = None"
    and request: "request_fields q" "request_url (le_base_url le) q = ut_url (cr_target c)" "pu_body q \<noteq> []"
    and clock: "sent \<le> of_unix (Unix (us_expires (cr_session c)))" "\<bar>Unix (us_expires (cr_session c))\<bar> < 2 ^ 63"
      "checked \<le> us_expires (cr_session c)" "us_max_size (cr_session c) < 2 ^ 63"
    and fit: "PolicyFor (cu_namespace input) = Some p" "upload_fits sv (le_digest le) p (cr_asset c) (cr_session c) announced (pu_body q)"
    and repo': "accepts_completion (sv_env sv) event now st1"
  shows "let (status, fs1) = PutHandler le q sent fs;
      (r, st2, fs2) = Service_CompleteUpload sv (local_ops le) i announced event checked now (st1, fs1) in
    status = 201 \<and> (\<exists>a. r = Ok a \<and> GetAsset st2 i = Ok (a\<lparr>a_scan_event := event\<rparr>) \<and> a_size a = int (length (pu_body q))
      \<and> a_checksum a = ToLower (le_digest le (pu_body q)) \<and> a_upload_status a = UploadCompleted \<and> a_scan_status a = ScanPending)
      \<and> map_option lf_bytes (fs2 (a_object_key (cr_asset c))) = Some (pu_body q) \<and> fs2 (us_staging_key (cr_session c)) = None"
proof -
  let ?a = "cr_asset c" and ?u = "cr_session c"
  obtain p' target where c: "PolicyFor (cu_namespace input) = Some p'"
    "c = \<lparr>cr_asset = created_asset sv p' (with_visibility p' input) i start,
          cr_session = created_session sv (with_visibility p' input) key i sid start, cr_target = target\<rparr>"
    "bl_target (local_ops le) (us_staging_key ?u) (cu_max_size input) (us_expires ?u) = Ok target"
    "CreateUpload (sv_env sv) ?a ?u st = (Ok (), st1)" "create_input_ok p' input key"
    by (rule CreateUploadSession_fresh [OF session]) (rule that)
  have up: "open_upload st1 i ?a ?u"
    using created_rows(1) [OF c(4), of sv p' "with_visibility p' input" i start key sid] c(2) by simp
  have keys: "plain_key (a_object_key ?a)" "plain_key (us_staging_key ?u)" "us_staging_key ?u \<noteq> a_object_key ?a"
    using created_keys [of "with_visibility p' input" p' sv i sid start p' key] c(1) parts by (simp_all add: c(2))
  have pol: "PolicyFor (a_namespace ?a) = Some p" using fit(1) by (simp add: c(2) created_asset_def)
  have size: "us_max_size ?u = cu_max_size input" "0 < cu_max_size input"
    using c(5) by (auto simp: c(2) created_session_def create_input_ok_def AllowsSize_def)
  define fl where "fl = \<lparr>lf_bytes = pu_body q, lf_mtime = sent\<rparr>"
  have "target = cr_target c" by (simp add: c(2))
  then have t: "Local_CreateUploadTarget le (us_staging_key ?u) (us_max_size ?u) (us_expires ?u) = Ok (cr_target c)"
    using c(3) size(1) by (simp add: local_ops_def)
  have fits: "int (length (pu_body q)) \<le> us_max_size ?u" using fit(2) by (simp add: upload_fits_def)
  have put: "PutHandler le q sent fs = (201, fs(us_staging_key ?u \<mapsto> fl))"
    using PutHandler_target [of q "us_staging_key ?u" "us_expires ?u" "us_max_size ?u" le "us_staging_key ?u" sent fs]
      target_request [OF t request(1,2)] keys(2) size clock fits request(3) new(1)
    by (auto simp: plain_key_def fl_def)
  let ?fs1 = "fs(us_staging_key ?u \<mapsto> fl)"
  have cand: "candidate (local_content ?fs1) ?a ?u checked = Some (pu_body q)"
    using keys(3) new(2) clock(3) by (simp add: candidate_def local_content_def fl_def)
  obtain d b' b'' where d:
    "Service_CompleteUpload sv (local_ops le) i announced event checked now (st1, ?fs1) = (case record_rows sv ?a ?u d event now st1 of
        (Inl e, st') \<Rightarrow> (Err e, (st', b')) | (Inr _, st') \<Rightarrow> (Ok (committed_asset ?a d [] now), (st', b'')))"
    "describes (le_digest le) d (pu_body q, bp_etag d)" "bp_mime d = a_expected_mime ?a" "bp_etag d \<noteq> []"
    "local_content b' (a_object_key ?a) = Some (pu_body q, bp_etag d)"
    "\<And>k. plain_key k \<Longrightarrow> local_content b'' k = (if k = us_staging_key ?u then None else local_content b' k)"
    by (rule completion_outcome [OF up keys pol cand fit(2), where event = event and now = now]) (rule that)
  obtain st2 where st2: "record_rows sv ?a ?u d event now st1 = (Ok (), st2)"
    using CompleteUpload_accepted [OF up repo' d(4)] by (metis prod.collapse)
  have "local_content b'' (a_object_key ?a) = Some (pu_body q, bp_etag d)" using d(5) d(6) [OF keys(1)] keys(3) by simp
  then have "map_option lf_bytes (b'' (a_object_key ?a)) = Some (pu_body q)" by auto
  moreover have "b'' (us_staging_key ?u) = None" using d(6) [OF keys(2)] by simp
  ultimately show ?thesis using put d(1,2) st2 recorded_rows [OF up st2] by (simp add: describes_def)
qed

section \<open>A concrete upload\<close>

definition demo_service :: service where
  "demo_service = \<lparr>sv_env = demo_env\<lparr>env_audit := False\<rparr>, sv_parsers = demo_parsers, sv_deck = (\<lambda>t. None), sv_image = (\<lambda>t. None),
     sv_fingerprint = cu_owner_id, sv_year = (\<lambda>t. ''2026''), sv_month = (\<lambda>t. ''07'')\<rparr>"

definition demo_input :: create_upload_input where
  "demo_input = \<lparr>cu_namespace = ''cms.weekly.pdf'', cu_owner_service = ''hhc-web-api'', cu_owner_type = ''bulletin_issue'',
     cu_owner_id = ''7'', cu_purpose = ''weekly_bulletin'', cu_locale = ''zh'', cu_file_name = ''a.pdf'', cu_mime = ''application/pdf'',
     cu_max_size = 100, cu_visibility = VisibilityOther []\<rparr>"

definition demo_policy :: namespace_policy where
  "demo_policy = the (PolicyFor ''cms.weekly.pdf'')"

definition demo_start :: time where "demo_start = of_unix 1000"

definition demo_asset :: asset where
  "demo_asset = created_asset demo_service demo_policy (with_visibility demo_policy demo_input) ''a1'' demo_start"

definition demo_open_session :: upload_session where
  "demo_open_session = created_session demo_service (with_visibility demo_policy demo_input) ''key'' ''a1'' ''s1'' demo_start"

definition demo_target :: upload_target where
  "demo_target = (case Local_CreateUploadTarget demo_local (us_staging_key demo_open_session) 100 (us_expires demo_open_session) of Inr t \<Rightarrow> t)"

definition demo_opened_store :: store where
  "demo_opened_store = empty_store\<lparr>st_assets := [new_asset_row demo_asset], st_sessions := [demo_open_session]\<rparr>"

definition demo_announced :: complete_upload_input where
  "demo_announced = \<lparr>co_size = 6, co_checksum = hex_encode ''%PDF-1'', co_mime = ''application/pdf''\<rparr>"

lemma demo_policy_eq: "PolicyFor ''cms.weekly.pdf'' = Some demo_policy"
  "np_owner_service demo_policy = ''hhc-web-api''" "AllowsMIME demo_policy ''application/pdf''" "np_width demo_policy = 0" "np_height demo_policy = 0"
  "0 < n \<Longrightarrow> n \<le> 100 \<Longrightarrow> AllowsSize demo_policy ''application/pdf'' n"
  "AllowsVisibility demo_policy (np_default_visibility demo_policy)" "known_visibility (np_default_visibility demo_policy)"
  by (simp_all add: demo_policy_def PolicyFor_def namespacePolicies_def AllowsMIME_def AllowsSize_def size_limit_def AllowsVisibility_def)

lemma demo_input_visibility: "with_visibility demo_policy demo_input = demo_input\<lparr>cu_visibility := np_default_visibility demo_policy\<rparr>"
  by (simp add: with_visibility_def demo_input_def)

lemma demo_created: "CreateUpload (sv_env demo_service) demo_asset demo_open_session empty_store = (Ok (), demo_opened_store)"
proof -
  have k: "known_visibility (cu_visibility (with_visibility demo_policy demo_input))" using demo_policy_eq by (simp add: demo_input_visibility)
  have f: "cu_namespace demo_input = ''cms.weekly.pdf''" "cu_owner_service demo_input = ''hhc-web-api''" by (simp_all add: demo_input_def)
  show ?thesis
    using k by (simp add: CreateUpload_def INSERT_asset_def INSERT_session_def insert_row_def empty_store_def demo_opened_store_def
      demo_asset_def demo_open_session_def created_asset_def created_session_def asset_check_def new_asset_row_def f
      demo_service_def audit_upload_def enqueueAuditTx_def auditUploadMetadata_def account_cleaned_def)
qed

lemma demo_session_opened:
  "CreateUploadSession demo_service (local_ops demo_local) demo_input ''key'' ''a1'' ''s1'' demo_start empty_store
     = (Ok \<lparr>cr_asset = demo_asset, cr_session = demo_open_session, cr_target = demo_target\<rparr>, demo_opened_store)"
proof -
  note v = demo_input_visibility
  have n: "PolicyFor (cu_namespace demo_input) = Some demo_policy" by (simp add: demo_input_def demo_policy_eq)
  have ok: "create_input_ok demo_policy demo_input ''key''"
    using demo_policy_eq pdf_extension by (simp add: create_input_ok_def demo_input_def)
  have r: "replayUpload demo_service (local_ops demo_local) empty_store x ''key'' t = Ok None" for x t
    by (simp add: replayUpload_def FindUploadByIdempotency_def empty_store_def)
  have t: "bl_target (local_ops demo_local) (us_staging_key demo_open_session) 100 (us_expires demo_open_session) = Ok demo_target"
    by (simp add: demo_target_def local_ops_def Local_CreateUploadTarget_def Let_def)
  note c = demo_created
  show ?thesis
    using c t by (simp add: CreateUploadSession_def n ok demo_policy_eq v r demo_asset_def demo_open_session_def Let_def)
      (simp add: demo_input_def)
qed

lemma demo_rows: "open_upload demo_opened_store ''a1'' demo_asset demo_open_session"
  by (rule created_rows(1) [OF demo_created demo_asset_def demo_open_session_def])

lemma demo_parts: "proper_parts demo_service ''a1'' ''s1'' demo_start"
  by (simp add: proper_parts_def proper_element_def demo_service_def)

lemma demo_keys: "plain_key (a_object_key demo_asset)" "plain_key (us_staging_key demo_open_session)"
  "us_staging_key demo_open_session \<noteq> a_object_key demo_asset"
proof -
  have "PolicyFor (cu_namespace (with_visibility demo_policy demo_input)) = Some demo_policy"
    by (simp add: demo_input_def demo_policy_eq)
  from created_keys [OF this demo_parts, of demo_policy "''key''"]
  show "plain_key (a_object_key demo_asset)" "plain_key (us_staging_key demo_open_session)"
    "us_staging_key demo_open_session \<noteq> a_object_key demo_asset"
    by (simp_all add: demo_asset_def demo_open_session_def)
qed

lemma demo_fields:
  "a_namespace demo_asset = ''cms.weekly.pdf''" "a_expected_mime demo_asset = ''application/pdf''" "a_file_name demo_asset = ''a.pdf''"
  "us_max_size demo_open_session = 100" "us_expires demo_open_session = of_unix 1600"
proof -
  have "sanitizeFileName ''a.pdf'' = ''a.pdf''" by code_simp
  then show "a_file_name demo_asset = ''a.pdf''" by (simp add: demo_asset_def created_asset_def with_visibility_def demo_input_def)
qed (simp_all add: demo_asset_def created_asset_def demo_open_session_def created_session_def demo_input_def uploadTTL_def demo_start_def of_unix_def)

lemma demo_media: "media_of demo_service ''a.pdf'' ''application/pdf'' s = (if has_prefix (take 512 s) ''%PDF-'' \<and> s \<noteq> [] then Ok ''application/pdf'' else Err ErrInvalidUpload)"
  by (simp add: media_of_def ValidateMedia_def pdf_extension pdf_check)

lemma demo_fits: "upload_fits demo_service (le_digest demo_local) demo_policy demo_asset demo_open_session demo_announced ''%PDF-1''"
  using demo_policy_eq by (simp add: upload_fits_def demo_fields demo_media has_prefix_def demo_announced_def demo_local_def EqualFold_def)

lemma demo_accepts: "accepts_completion (sv_env demo_service) ''ev'' 7 demo_opened_store"
  using demo_policy_eq
  by (simp add: accepts_completion_def demo_opened_store_def empty_store_def wf_assets_def wf_sessions_def keyed_def new_asset_row_def
      demo_service_def audit_upload_def enqueueAuditTx_def demo_asset_def created_asset_def demo_input_visibility split: prod.split)

definition demo_files :: local_files where
  "demo_files = [us_staging_key demo_open_session \<mapsto> \<lparr>lf_bytes = ''%PDF-1'', lf_mtime = 3\<rparr>]"

lemma demo_candidate: "candidate (local_content demo_files) demo_asset demo_open_session (of_unix 1500) = Some ''%PDF-1''"
  using demo_keys(3) by (simp add: candidate_def demo_files_def local_content_def demo_fields of_unix_def)

lemma demo_policy_asset: "PolicyFor (a_namespace demo_asset) = Some demo_policy"
  by (simp add: demo_fields demo_policy_eq)

abbreviation demo_complete :: "asset result \<times> local_files world" where
  "demo_complete \<equiv> Service_CompleteUpload demo_service (local_ops demo_local) ''a1'' demo_announced ''ev'' (of_unix 1500) 7 (demo_opened_store, demo_files)"

lemma interrupted_completion_resumes_witness:
  "is_ok (fst demo_complete)"
proof -
  have "case demo_complete of (r, st', fs') \<Rightarrow> is_ok r"
    using interrupted_completion_resumes [OF demo_rows demo_keys demo_policy_asset demo_candidate demo_fits, of "''ev''" 7] demo_accepts by auto
  then show ?thesis by (cases demo_complete) auto
qed

lemma demo_completion_ok: "\<exists>a' st' fs'. demo_complete = (Ok a', (st', fs'))"
proof (rule completion_outcome [OF demo_rows demo_keys demo_policy_asset demo_candidate demo_fits, where event = "''ev''" and now = 7])
  fix c b' b''
  assume d: "demo_complete = (case record_rows demo_service demo_asset demo_open_session c ''ev'' 7 demo_opened_store of
      (Inl e, st') \<Rightarrow> (Err e, (st', b')) | (Inr _, st') \<Rightarrow> (Ok (committed_asset demo_asset c [] 7), (st', b'')))" "bp_etag c \<noteq> []"
  obtain st' where "record_rows demo_service demo_asset demo_open_session c ''ev'' 7 demo_opened_store = (Ok (), st')"
    using CompleteUpload_accepted [OF demo_rows demo_accepts d(2)] by (metis prod.collapse)
  then show ?thesis using d(1) by simp
qed

lemma completed_upload_honest_witness:
  "\<exists>a' st' fs' fl. demo_complete = (Ok a', (st', fs')) \<and> fs' (a_object_key demo_asset) = Some fl \<and> lf_bytes fl = ''%PDF-1'' \<and> a_size a' = 6
    \<and> GetAsset st' ''a1'' = Ok (a'\<lparr>a_scan_event := ''ev''\<rparr>)"
proof -
  obtain a' st' fs' where c: "demo_complete = (Ok a', (st', fs'))" using demo_completion_ok by blast
  show ?thesis using completed_upload_honest [OF demo_rows demo_keys c] c by (auto simp: demo_candidate dest: sym [of "''%PDF-1''"])
qed

lemma unfit_upload_refused_witness:
  "\<exists>st' fs'. Service_CompleteUpload demo_service (local_ops demo_local) ''a1'' demo_announced ''ev'' (of_unix 1601) 7 (demo_opened_store, demo_files)
      = (Err ErrInvalidUpload, (st', fs')) \<and> upload_state st' ''a1'' = Some (UploadFailed, UploadFailed) \<and> fs' (us_staging_key demo_open_session) = None"
proof -
  have wf: "wf_sessions demo_opened_store" using demo_accepts by (simp add: accepts_completion_def)
  have late: "candidate (local_content demo_files) demo_asset demo_open_session (of_unix 1601) = None"
    using demo_keys(3) by (simp add: candidate_def demo_files_def local_content_def demo_fields of_unix_def)
  show ?thesis
    using unfit_upload_refused [OF demo_rows wf demo_keys demo_policy_asset, of demo_files "of_unix 1601" demo_service demo_local demo_announced "''ev''" 7] late
    by auto
qed

lemma demo_store_new: "demo_opened_store \<noteq> empty_store"
  by (simp add: demo_opened_store_def empty_store_def)

lemma upload_session_replay_witness:
  "CreateUploadSession demo_service (local_ops demo_local) demo_input ''key'' ''a2'' ''s2'' (of_unix 1200) demo_opened_store
     = (Ok \<lparr>cr_asset = demo_asset, cr_session = demo_open_session, cr_target = demo_target\<rparr>, demo_opened_store)"
  using upload_session_replay [OF demo_session_opened demo_store_new, of "''a2''" "''s2''" "of_unix 1200"]
  by (simp add: demo_fields of_unix_def)

definition demo_upload_request :: put_request where
  "demo_upload_request = \<lparr>pu_token = RawURLEncode (us_staging_key demo_open_session), pu_expires = FormatInt 1600, pu_max = FormatInt 100,
     pu_signature = upload_signature demo_local (RawURLEncode (us_staging_key demo_open_session)) (FormatInt 1600) (FormatInt 100), pu_body = ''%PDF-1''\<rparr>"

lemma upload_end_to_end_witness:
  "case PutHandler demo_local demo_upload_request (of_unix 1400) Map.empty of (status, fs1) \<Rightarrow>
   case Service_CompleteUpload demo_service (local_ops demo_local) ''a1'' demo_announced ''ev'' (of_unix 1500) 7 (demo_opened_store, fs1) of (r, st2, fs2) \<Rightarrow>
     status = 201 \<and> is_ok r \<and> map_option lf_bytes (fs2 (a_object_key demo_asset)) = Some ''%PDF-1''"
proof -
  have u: "Unix (of_unix 1600) = 1600" by (simp add: Unix_def of_unix_def unix_offset_def)
  have url: "request_fields demo_upload_request" "request_url (le_base_url demo_local) demo_upload_request = ut_url demo_target" "pu_body demo_upload_request \<noteq> []"
    by (simp_all add: request_fields_def demo_upload_request_def request_url_def demo_target_def Local_CreateUploadTarget_def Let_def demo_fields u)
  have fit: "PolicyFor (cu_namespace demo_input) = Some demo_policy"
    "upload_fits demo_service (le_digest demo_local) demo_policy demo_asset demo_open_session demo_announced (pu_body demo_upload_request)"
    using demo_fits by (simp_all add: demo_input_def demo_policy_eq demo_upload_request_def)
  have clock: "of_unix 1400 \<le> of_unix (Unix (us_expires demo_open_session))" "\<bar>Unix (us_expires demo_open_session)\<bar> < 2 ^ 63"
    "of_unix 1500 \<le> us_expires demo_open_session" "us_max_size demo_open_session < 2 ^ 63"
    by (simp_all add: demo_fields u) (simp_all add: of_unix_def)
  show ?thesis
    using upload_end_to_end [OF demo_session_opened demo_store_new demo_parts, of Map.empty demo_upload_request "of_unix 1400" "of_unix 1500"
        demo_policy demo_announced "''ev''" 7] url fit clock demo_accepts
    by (auto simp: Let_def is_ok_iff demo_upload_request_def split: prod.splits)
qed

end
