(* ===== verification/Derivative_Jobs.thy ===== *)
theory Derivative_Jobs
  imports Derivative_Props Scan_Props Upload_Props
begin

text \<open>
  What a round of the derivative job guarantees: an acknowledged message leaves nothing to be done, a
  decodable picture gets its derivatives, and what a second message does to the last attempt.
\<close>

section \<open>Poison\<close>

lemma FailDerivativeToPoison_Ok:
  assumes "FailDerivativeToPoison f p now st = (Ok fwd, st')" "wf_assets st"
  obtains (failed) x where "asset_of st (pf_asset f) = Some x" "processing_fence (pf_asset f) (pf_etag f) (pf_expected_attempt f) x"
      "asset_of st' = (asset_of st)(pf_asset f \<mapsto> failed_row (pf_details f) now x)" "wf_assets st'"
  | (already) x where "asset_of st (pf_asset f) = Some x" "a_processing_status x = ProcessingFailed" "a_etag x = pf_etag f"
      "asset_of st' = asset_of st" "wf_assets st'"
proof -
  let ?P = "processing_fence (pf_asset f) (pf_etag f) (pf_expected_attempt f)"
  have poison: "asset_of (s\<lparr>st_derivative_poison := t\<rparr>) = asset_of s" "wf_assets (s\<lparr>st_derivative_poison := t\<rparr>) = wf_assets s" for s t
    by (simp_all add: asset_of_def wf_assets_def fun_eq_iff)
  show thesis
  proof (cases "affected ?P (st_assets st) = 1")
    case True
    obtain x where x: "asset_of st (pf_asset f) = Some x" "?P x" using processing_fence_row [OF assms(2) True] .
    have upd: "asset_of st' = asset_of (UPDATE_assets ?P (failed_row (pf_details f) now) st)"
        "wf_assets st' = wf_assets (UPDATE_assets ?P (failed_row (pf_details f) now) st)"
      using assms(1) True poison by (auto simp: FailDerivativeToPoison_def Let_def)
    have "asset_of st' = asset_of (UPDATE_assets ?P (failed_row (pf_details f) now) st)" by (rule upd(1))
    also have "\<dots> = (asset_of st)(pf_asset f \<mapsto> failed_row (pf_details f) now x)"
      by (rule asset_of_fenced_UPDATE [where P = ?P, OF x]) (auto simp: processing_fence_def)
    finally show thesis using failed x upd(2) assms(2) by (simp add: wf_assets_UPDATE)
  next
    case False
    obtain x where x: "sel1 (\<lambda>r. a_id r = pf_asset f \<and> a_purged r = 0) (st_assets st) = Some x"
        "a_processing_status x = ProcessingFailed" "a_etag x = pf_etag f" and same: "asset_of st' = asset_of st" "wf_assets st'"
      using assms False poison by (auto simp: FailDerivativeToPoison_def Let_def split: option.splits if_splits)
    then have "x \<in> set (st_assets st)" "a_id x = pf_asset f" using sel1_Some [OF x(1)] by auto
    then have "asset_of st (pf_asset f) = Some x" using asset_of_mem [OF assms(2)] by metis
    then show thesis using already x same by blast
  qed
qed

text \<open>A processing that a message could still ask for.\<close>

definition derivable :: "store \<Rightarrow> queue_event \<Rightarrow> bool" where
  "derivable st e \<longleftrightarrow> (\<exists>x. asset_of st (qe_asset e) = Some x \<and> a_etag x = qe_etag e \<and> processable x \<and> derivable_mime (a_detected_mime x))"

lemma poison_derivative_Ok:
  assumes "poison_derivative j m event reason details result now (st, b, acts) = (r, (st', b', acts'))" "Ack \<in> set acts'" "Ack \<notin> set acts"
  obtains fwd st1 where "(case event of Some e \<Rightarrow>
               if prs_state result = ProcessTerminal then
                 FailDerivativeToPoison \<lparr>pf_asset = qe_asset e, pf_etag = qe_etag e, pf_expected_attempt = prs_attempt result,
                   pf_details = prs_details result\<rparr> (derivativePoison j m event reason details) now st
               else RecordDerivativePoison (derivativePoison j m event reason details) now st
           | None \<Rightarrow> RecordDerivativePoison (derivativePoison j m event reason details) now st) = (Ok fwd, st1)"
    "st' = (if fwd then snd (MarkDerivativePoisonForwarded (msg_id m @ '':'' @ reason) now st1) else st1)"
proof -
  let ?p = "derivativePoison j m event reason details"
  obtain f st1 where f: "(case event of Some e \<Rightarrow>
               if prs_state result = ProcessTerminal then
                 FailDerivativeToPoison \<lparr>pf_asset = qe_asset e, pf_etag = qe_etag e, pf_expected_attempt = prs_attempt result,
                   pf_details = prs_details result\<rparr> ?p now st
               else RecordDerivativePoison ?p now st
           | None \<Rightarrow> RecordDerivativePoison ?p now st) = (f, st1)"
    using prod.exhaust by blast
  have id: "po_id ?p = msg_id m @ '':'' @ reason" by (simp add: derivativePoison_def)
  show thesis
  proof (cases f)
    case (Inl e)
    then show thesis using assms by (simp add: poison_derivative_def f Let_def)
  next
    case (Inr fwd)
    have "st' = (if fwd then snd (MarkDerivativePoisonForwarded (msg_id m @ '':'' @ reason) now st1) else st1)"
      using assms id by (auto simp: poison_derivative_def f Inr Let_def ask_derivative_def MarkDerivativePoisonForwarded_def split: sum.splits)
    then show thesis using that f Inr by blast
  qed
qed

lemma poison_derivative_done:
  assumes "poison_derivative j m (Some e) reason details result now (st, b, acts) = (Ok (), (st', b', acts'))" "prs_state result = ProcessTerminal"
  obtains fwd st1 where "FailDerivativeToPoison \<lparr>pf_asset = qe_asset e, pf_etag = qe_etag e, pf_expected_attempt = prs_attempt result,
       pf_details = prs_details result\<rparr> (derivativePoison j m (Some e) reason details) now st = (Ok fwd, st1)" "st_assets st' = st_assets st1"
proof -
  obtain f st1 where f: "FailDerivativeToPoison \<lparr>pf_asset = qe_asset e, pf_etag = qe_etag e, pf_expected_attempt = prs_attempt result,
       pf_details = prs_details result\<rparr> (derivativePoison j m (Some e) reason details) now st = (f, st1)"
    using prod.exhaust by blast
  show thesis
  proof (cases f)
    case (Inl x)
    then show thesis using assms by (simp add: poison_derivative_def Let_def f)
  next
    case (Inr fwd)
    then have "st_assets st' = st_assets st1"
      using assms by (auto simp: poison_derivative_def Let_def f ask_derivative_def MarkDerivativePoisonForwarded_def split: sum.splits if_split_asm)
    then show thesis using that f Inr by blast
  qed
qed

lemma poisoned_decided:
  assumes "poison_derivative j m (Some e) reason details result now (st, b, acts) = (r, (st', b', acts'))" "Ack \<in> set acts'" "Ack \<notin> set acts"
    and "prs_state result = ProcessTerminal" "wf_assets st"
  shows "\<not> derivable st' e"
proof -
  let ?f = "\<lparr>pf_asset = qe_asset e, pf_etag = qe_etag e, pf_expected_attempt = prs_attempt result, pf_details = prs_details result\<rparr>"
  obtain fwd st1 where st1: "FailDerivativeToPoison ?f (derivativePoison j m (Some e) reason details) now st = (Ok fwd, st1)"
    and st': "st' = (if fwd then snd (MarkDerivativePoisonForwarded (msg_id m @ '':'' @ reason) now st1) else st1)"
    by (rule poison_derivative_Ok [OF assms(1-3)]) (use assms(4) that in simp)
  have "asset_of st' = asset_of st1" by (simp add: st' MarkDerivativePoisonForwarded_def asset_of_def fun_eq_iff)
  then show ?thesis
    by (cases rule: FailDerivativeToPoison_Ok [OF st1 assms(5)]) (auto simp: derivable_def processable_def failed_row_def)
qed

lemma poison_forwarded:
  assumes "poison_derivative j m event reason details result now (st, b, acts) = (r, (st', b', acts'))" "Ack \<in> set acts'" "Ack \<notin> set acts" "now \<noteq> 0"
  shows "\<exists>q\<in>set (st_derivative_poison st'). po_id q = msg_id m @ '':'' @ reason \<and> pr_forwarded q \<noteq> 0"
proof -
  let ?p = "derivativePoison j m event reason details"
  have id: "po_id ?p = msg_id m @ '':'' @ reason" by (simp add: derivativePoison_def)
  obtain fwd st1 where f: "(case event of Some e \<Rightarrow>
               if prs_state result = ProcessTerminal then
                 FailDerivativeToPoison \<lparr>pf_asset = qe_asset e, pf_etag = qe_etag e, pf_expected_attempt = prs_attempt result,
                   pf_details = prs_details result\<rparr> ?p now st
               else RecordDerivativePoison ?p now st
           | None \<Rightarrow> RecordDerivativePoison ?p now st) = (Ok fwd, st1)"
    and st': "st' = (if fwd then snd (MarkDerivativePoisonForwarded (msg_id m @ '':'' @ reason) now st1) else st1)"
    by (rule poison_derivative_Ok [OF assms(1-3)]) (rule that)
  have "\<exists>t. record_poison ?p now t = Ok (fwd, st_derivative_poison st1)"
    using f by (auto simp: FailDerivativeToPoison_def RecordDerivativePoison_def Let_def split: option.splits if_splits)
  then obtain q where q: "q \<in> set (st_derivative_poison st1)" "po_id q = msg_id m @ '':'' @ reason" "\<not> fwd \<longrightarrow> pr_forwarded q \<noteq> 0"
    using record_poison_stored id by metis
  show ?thesis
  proof (cases fwd)
    case False then show ?thesis using st' q by auto
  next
    case True
    let ?q = "q\<lparr>pr_forwarded := (if pr_forwarded q = 0 then now else pr_forwarded q)\<rparr>"
    have "?q \<in> set (forward_poison (msg_id m @ '':'' @ reason) now (st_derivative_poison st1))"
      unfolding forward_poison_def upd_where_def set_map using q(1,2) by (intro image_eqI [where x = q]) simp_all
    then show ?thesis using True st' q(2) assms(4) by (intro bexI [of _ ?q]) (auto simp: MarkDerivativePoisonForwarded_def)
  qed
qed

section \<open>Acknowledged messages\<close>

lemma processingCommitted_ready:
  assumes "processingCommitted st i etag n ds" "wf_assets st"
  shows "\<exists>x. asset_of st i = Some x \<and> a_processing_status x = ProcessingReady"
proof -
  obtain x where x: "sel1 (\<lambda>r. a_id r = i \<and> a_purged r = 0) (st_assets st) = Some x" "a_processing_status x = ProcessingReady"
    using assms(1) by (auto simp: processingCommitted_def split: option.splits if_splits)
  then show ?thesis using asset_of_mem [OF assms(2), of x] sel1_Some [OF x(1)] by auto
qed

lemma commit_processing_ready:
  assumes "commit_processing c i etag n ds now st = (Ok (), st')" "wf_assets st"
  shows "\<exists>x. asset_of st' i = Some x \<and> a_processing_status x = ProcessingReady"
proof -
  obtain st0 where complete: "CompleteProcessing i etag n ds now st = (Ok (), st0)"
    using assms(1) by (auto simp: commit_processing_def split: prod.splits sum.splits)
  have st0: "wf_assets st0 \<and> (\<exists>x. asset_of st0 i = Some x \<and> a_processing_status x = ProcessingReady)"
  proof (cases "affected (processing_fence i etag n) (st_assets st) = 1")
    case True
    obtain r where "asset_of st0 = (asset_of st)(i \<mapsto> ready_row now r)" "wf_assets st0"
      using CompleteProcessing_fresh [OF complete assms(2) True] by metis
    then show ?thesis by (intro conjI exI [of _ "ready_row now r"]) (simp_all add: ready_row_def)
  next
    case False
    then have "st0 = st" "processingCommitted st i etag n ds" using complete by (auto simp: CompleteProcessing_def split: if_splits)
    then show ?thesis using processingCommitted_ready assms(2) by blast
  qed
  have "st' = st0 \<or> (processingCommitted st' i etag n ds \<and> (st' = st0 \<or> st' = st))"
    using assms(1) unfolding commit_processing_def complete by (auto simp: Let_def split: commit_report.splits if_splits)
  then show ?thesis using st0 processingCommitted_ready assms(2) by metis
qed

lemma claimed_satisfied:
  assumes "processClaimed w a persist now later (st, b) = (Ok res, (st', b'))" "prs_state res = ProcessSatisfied" "wf_assets st"
  shows "\<exists>x. asset_of st' (a_id a) = Some x \<and> a_processing_status x = ProcessingReady"
proof -
  obtain keys err st1 b1 where p: "process w a now (st, b) = ((keys, err), (st1, b1))"
    by (cases "process w a now (st, b)") auto
  have err: "err = None"
  proof (rule ccontr)
    assume "err \<noteq> None"
    then obtain e where "err = Some e" by blast
    then show False using assms(1,2) unfolding processClaimed_def p
      by (auto simp: Let_def split: if_split_asm prod.splits sum.splits)
  qed
  then have "st1 = st'" using assms(1) by (simp add: processClaimed_def p)
  then obtain c ds where "commit_processing c (a_id a) (a_etag a) (a_processing_attempts a) ds now st = (Ok (), st')"
    using p err by (auto simp: process_def split: sum.splits prod.splits option.splits)
  then show ?thesis using commit_processing_ready assms(3) by blast
qed

lemma ProcessAsset_satisfied:
  assumes "ProcessAsset w (qe_asset e) (qe_etag e) claim now later (st, b) = (Ok res, (st', b'))" "prs_state res = ProcessSatisfied"
    and "wf_assets st"
  shows "\<not> derivable st' e"
proof
  assume "derivable st' e"
  then obtain x where x: "asset_of st' (qe_asset e) = Some x" "a_etag x = qe_etag e" "processable x" "derivable_mime (a_detected_mime x)"
    by (auto simp: derivable_def)
  obtain a s st1 where c: "ClaimProcessing (qe_asset e) (qe_etag e) claim processing_lease st = (Ok (a, s), st1)"
    using assms(1) by (auto simp: ProcessAsset_def split: prod.splits sum.splits if_splits)
  show False
  proof (cases "s = ProcessingClaimed")
    case True
    then have run: "processClaimed w a False now later (st1, b) = (Ok res, (st', b'))"
      using assms(1) c by (simp add: ProcessAsset_def split: if_splits)
    obtain r where r: "sel1 (\<lambda>r. a_id r = qe_asset e \<and> a_etag r = qe_etag e \<and> derivable_mime (a_detected_mime r)
        \<and> processing_claimable claim r) (st_assets st) = Some r"
      using c True by (simp add: ClaimProcessing_def split: option.splits sum.splits if_splits)
    then have st1: "st1 = UPDATE_assets (\<lambda>s. a_id s = a_id r) (attempt_row claim processing_lease) st" "GetAsset st1 (a_id r) = Ok a"
      using c by (auto simp: ClaimProcessing_def Let_def)
    have "a_id a = qe_asset e" using st1(2) sel1_Some [OF r] by (auto simp: GetAsset_row dest!: sel1_Some)
    moreover have "wf_assets st1" using assms(3) by (simp add: st1(1) wf_assets_UPDATE)
    ultimately show False using claimed_satisfied [OF run assms(2)] x by (auto simp: processable_def)
  next
    case False
    then have none: "sel1 (\<lambda>r. a_id r = qe_asset e \<and> a_etag r = qe_etag e \<and> derivable_mime (a_detected_mime r)
        \<and> processing_claimable claim r) (st_assets st) = None" "st1 = st"
      using c by (auto simp: ClaimProcessing_def Let_def split: option.splits)
    have res: "res = unclaimed_answer (qe_asset e) (qe_etag e) a s claim" "st' = st1"
      using assms(1) c False by (auto simp: ProcessAsset_def split: if_splits)
    have row: "asset_of st (qe_asset e) = Some x" using x(1) res(2) none(2) by simp
    have get: "GetAsset st (qe_asset e) = Ok (asset.truncate x)"
      using GetAsset_of [OF row _ assms(3)] x(3) by (simp add: processable_def live_def)
    have ax: "a = asset.truncate x" "s = (if a_processing_attempts x < max_attempts then ProcessingDeferred else ProcessingTerminal)"
      using c x unfolding ClaimProcessing_def none(1) option.case get
      by (auto simp: processable_def live_def asset.truncate_def split: if_splits)
    then show False using res(1) assms(2) x row
      by (auto simp: unclaimed_answer_def process_answer_def Let_def asset.truncate_def processable_def split: if_splits dest!: asset_of_in)
  qed
qed

lemma wf_ProcessAsset:
  assumes "ProcessAsset w i etag claim now later (st, b) = (r, (st', b'))" "wf_assets st"
  shows "wf_assets st'"
proof -
  have upd: "wf_assets (UPDATE_assets P f s) = wf_assets s" if "\<And>r. a_id (f r) = a_id r" for P f s using wf_assets_UPDATE that .
  have claim: "wf_assets (snd (ClaimProcessing i etag claim l st))" for l
    using assms(2) by (auto simp: ClaimProcessing_def Let_def upd split: option.splits)
  have complete: "wf_assets (snd (CompleteProcessing j e n ds t s)) = wf_assets s" for j e n ds t s
    by (cases "upsert_derivatives j ds (st_derivatives s)")
      (auto simp: CompleteProcessing_def wf_assets_def UPDATE_assets_def keyed_upd_where [where k = a_id, OF processing_rows_keep(3)])
  have commit: "wf_assets (snd (commit_processing c j e n ds t s)) = wf_assets s" for c j e n ds t s
    using complete [of j e n ds t s] by (auto simp: commit_processing_def Let_def split: prod.splits sum.splits commit_report.splits)
  have process: "wf_assets s1" if "process w a t (s, c) = (o1, (s1, c1))" "wf_assets s" for a t s c o1 s1 c1
    using that commit [of "dw_commit w" "a_id a" "a_etag a" "a_processing_attempts a" _ t s]
    by (auto simp: process_def split: sum.splits prod.splits option.splits) (metis snd_conv)+
  have fail: "wf_assets (snd (FailProcessing j e n d t s)) = wf_assets s" for j e n d t s
    by (auto simp: FailProcessing_def Let_def upd)
  have retry: "wf_assets (snd (ScheduleProcessingRetry j e n d u t s)) = wf_assets s" for j e n d u t s
    by (auto simp: ScheduleProcessingRetry_def Let_def upd)
  have claimed: "wf_assets s1" if "processClaimed w a p t u (s, c) = (o1, (s1, c1))" "wf_assets s" for a p t u s c o1 s1 c1
  proof -
    obtain keys err s0 c0 where p: "process w a t (s, c) = ((keys, err), (s0, c0))" by (cases "process w a t (s, c)") auto
    have "wf_assets s0" using process [OF p that(2)] .
    then show ?thesis using that(1) fail retry unfolding processClaimed_def p
      by (auto simp: Let_def split: option.splits if_split_asm prod.splits sum.splits) (metis snd_conv)+
  qed
  obtain r1 st1 where c: "ClaimProcessing i etag claim processing_lease st = (r1, st1)"
    by (cases "ClaimProcessing i etag claim processing_lease st")
  have "wf_assets st1" using claim [of processing_lease] c by simp
  then show ?thesis using assms claimed c
    by (auto simp: ProcessAsset_def split: if_split_asm sum.splits prod.splits)
qed

text \<open>
  C29.  A derivative is never lost with its message.  When a round acknowledges a message, the asset it
  names no longer waits for derivatives under that ETag: they are published, or its processing failed, or
  there was nothing to process; whatever the database reported about the commit.  A message without a
  valid event was recorded as poison and forwarded first.
\<close>
theorem derivative_ack_decided:
  assumes "RunOnce_derivative j (Some m) c (st, b, []) = (out, (st', b', acts))" "Ack \<in> set acts" "wf_assets st" "rc_settle c \<noteq> 0"
  shows "case decode_derivative j (msg_body m) of
      Inl err \<Rightarrow> \<exists>q\<in>set (st_derivative_poison st'). po_id q = msg_id m @ '':invalid_payload'' \<and> pr_forwarded q \<noteq> 0
    | Inr e \<Rightarrow> \<not> derivable st' e"
proof (cases "decode_derivative j (msg_body m)")
  case (Inl err)
  then obtain r where "poison_derivative j m None ''invalid_payload'' err (process_answer ProcessSatisfied) (rc_settle c) (st, b, []) = (r, (st', b', acts))"
    using assms(1) by (auto simp: RunOnce_derivative_def split: prod.splits)
  then show ?thesis using poison_forwarded [of j m None _ err _ "rc_settle c" st b "[]"] assms(2,4) Inl by fastforce
next
  case (Inr e)
  obtain p st1 b1 where p: "ProcessAsset (dj_worker j) (qe_asset e) (qe_etag e) (rc_claim c) (rc_now c) (rc_later c) (st, b) = (p, (st1, b1))"
    using prod.exhaust by metis
  obtain res where res: "p = Ok res" using assms(1,2) Inr p by (cases p) (auto simp: RunOnce_derivative_def ask_derivative_def)
  then obtain r where settle: "settle_process j m e res (rc_settle c) (st1, b1, []) = (r, (st', b', acts))"
    using assms(1) Inr p by (auto simp: RunOnce_derivative_def split: prod.splits)
  have "\<not> derivable st' e"
  proof (cases "prs_state res")
    case ProcessSatisfied
    then have "st' = st1" using settle by (simp add: settle_process_def ask_derivative_def)
    then show ?thesis using ProcessAsset_satisfied [OF p [unfolded res] ProcessSatisfied assms(3)] by simp
  next
    case ProcessRetry
    then show ?thesis using settle assms(2) by (auto simp: settle_process_def ask_derivative_def)
  next
    case ProcessTerminal
    then have "poison_derivative j m (Some e) ''processing_failed'' (prs_details res) res (rc_settle c) (st1, b1, []) = (r, (st', b', acts))"
      using settle by (simp add: settle_process_def)
    then show ?thesis by (rule poisoned_decided [OF _ assms(2) _ ProcessTerminal wf_ProcessAsset [OF p assms(3)]]) simp
  qed
  then show ?thesis using Inr by simp
qed

section \<open>The last attempt\<close>

lemma ProcessAsset_last:
  assumes "asset_of st i = Some x" "processable x" "a_etag x = etag" "a_processing_attempts x = 5" "wf_assets st" "i \<noteq> []" "etag \<noteq> []"
  shows "ProcessAsset w i etag claim now later (st, b) =
    (Ok \<lparr>prs_state = ProcessTerminal, prs_retry_at = 0, prs_attempt = 5, prs_details = a_processing_error x\<rparr>, (st, b))"
proof -
  have id: "a_id x = i" using asset_of_in [OF assms(1)] by blast
  have get: "GetAsset st i = Ok (asset.truncate x)"
    using GetAsset_of [OF assms(1) _ assms(5)] assms(2) by (simp add: processable_def live_def)
  have none: "sel1 (\<lambda>r. a_id r = i \<and> a_etag r = etag \<and> derivable_mime (a_detected_mime r)
        \<and> processing_claimable claim r) (st_assets st) = None"
  proof (unfold sel1_None, intro ballI notI)
    fix r assume "r \<in> set (st_assets st)" "a_id r = i \<and> a_etag r = etag \<and> derivable_mime (a_detected_mime r) \<and> processing_claimable claim r"
    then have "r = x" "a_processing_attempts r < 5" using asset_of_mem [OF assms(5), of r] assms(1) by (auto simp: processing_claimable_def)
    then show False using assms(4) by simp
  qed
  have claim: "ClaimProcessing i etag claim processing_lease st = (Ok (asset.truncate x, ProcessingTerminal), st)"
    using assms(4) by (simp add: ClaimProcessing_def none get) (simp add: asset.truncate_def)
  show ?thesis
    using assms(2-4,6,7) id unfolding ProcessAsset_def prod.case claim
    by (simp add: unclaimed_answer_def asset.truncate_def processable_def)
qed

text \<open>
  C31.  A second message fails the last attempt while it runs.  While the fifth attempt of an asset still
  holds its lease, a round on any message for it, when it succeeds, marks the processing as failed, and
  the completion of the running attempt, whatever it produced, is then refused as a conflict.
\<close>
theorem last_attempt_cut_short:
  assumes "asset_of st (qe_asset e) = Some x" "processable x" "a_etag x = qe_etag e" "a_processing_attempts x = 5"
    and "a_processing_claimed x > rc_claim c" "wf_assets st" "decode_derivative j (msg_body m) = Inr e"
    and "RunOnce_derivative j (Some m) c (st, b, []) = ((True, Ok ()), (st', b', acts))"
  shows "(\<exists>y. asset_of st' (qe_asset e) = Some y \<and> a_processing_status y = ProcessingFailed)
    \<and> fst (CompleteProcessing (qe_asset e) (qe_etag e) 5 ds now st') = Err ErrConflict"
proof -
  have valid: "qe_asset e \<noteq> []" "qe_etag e \<noteq> []"
    using assms(7) by (auto simp: decode_derivative_def valid_event_def split: sum.splits if_splits)
  let ?res = "\<lparr>prs_state = ProcessTerminal, prs_retry_at = 0, prs_attempt = 5, prs_details = a_processing_error x\<rparr>"
  have "ProcessAsset (dj_worker j) (qe_asset e) (qe_etag e) (rc_claim c) (rc_now c) (rc_later c) (st, b) = (Ok ?res, (st, b))"
    by (rule ProcessAsset_last [OF assms(1-4,6) valid])
  then have poison: "poison_derivative j m (Some e) ''processing_failed'' (a_processing_error x) ?res (rc_settle c) (st, b, []) = (Ok (), (st', b', acts))"
    using assms(7,8) by (simp add: RunOnce_derivative_def settle_process_def split: prod.splits)
  let ?f = "\<lparr>pf_asset = qe_asset e, pf_etag = qe_etag e, pf_expected_attempt = 5, pf_details = a_processing_error x\<rparr>"
  obtain fwd st1 where f: "FailDerivativeToPoison ?f (derivativePoison j m (Some e) ''processing_failed'' (a_processing_error x)) (rc_settle c) st = (Ok fwd, st1)"
      "st_assets st' = st_assets st1"
    by (rule poison_derivative_done [OF poison]) (use that in simp_all)
  have same: "asset_of st' = asset_of st1" "wf_assets st' = wf_assets st1" using f(2) by (simp_all add: asset_of_def wf_assets_def fun_eq_iff)
  have failed: "asset_of st1 = (asset_of st)(qe_asset e \<mapsto> failed_row (a_processing_error x) (rc_settle c) x) \<and> wf_assets st1"
    by (cases rule: FailDerivativeToPoison_Ok [OF f(1) assms(6)], use assms(1,2) in \<open>auto simp: processable_def\<close>)
  let ?y = "failed_row (a_processing_error x) (rc_settle c) x"
  have wf: "wf_assets st'" and row: "asset_of st' (qe_asset e) = Some ?y" using same failed by simp_all
  have status: "a_processing_status ?y = ProcessingFailed" "a_purged ?y = 0"
    using assms(2) by (simp_all add: failed_row_def processable_def live_def)
  have "affected (processing_fence (qe_asset e) (qe_etag e) 5) (st_assets st') \<noteq> 1"
  proof
    assume "affected (processing_fence (qe_asset e) (qe_etag e) 5) (st_assets st') = 1"
    then obtain r where "asset_of st' (qe_asset e) = Some r" "processing_fence (qe_asset e) (qe_etag e) 5 r"
      using processing_fence_row [OF wf] by metis
    then show False using row status(1) by (simp add: processing_fence_def)
  qed
  moreover have "\<not> processingCommitted st' (qe_asset e) (qe_etag e) 5 ds"
    using processingCommitted_ready [OF _ wf] row status(1) by fastforce
  ultimately have "fst (CompleteProcessing (qe_asset e) (qe_etag e) 5 ds now st') = Err ErrConflict"
    using GetAsset_of [OF row status(2) wf] by (simp add: CompleteProcessing_def)
  then show ?thesis using row status(1) by blast
qed

section \<open>A decodable picture\<close>

text \<open>An object store that answers: what is there opens, and every object can be stored.\<close>

locale answering_objects = derivative_objects +
  assumes put_answers: "root_safe es \<Longrightarrow> k = join_with ''/'' es \<Longrightarrow> \<exists>p b'. dv_put ops k data mime b = (Ok p, b')"
    and open_answers: "root_safe es \<Longrightarrow> k = join_with ''/'' es \<Longrightarrow> content b k = Some (body, etag) \<Longrightarrow>
      \<exists>d. dv_open ops k etag b = Ok d \<and> bd_body d = body"
begin

lemma write_variants_all:
  assumes "dw_blobs w = ops" "asset_dir (a_object_key a) es" "\<forall>v\<in>fst ` set vs. CHR ''/'' \<notin> set v"
    and "\<forall>width height. \<exists>data. im_jpeg (dw_imaging w) picture width height = Inr data \<and> data \<noteq> []"
  shows "\<exists>keys ds b'. write_variants w a picture now vs b = ((None, keys, ds), b')
    \<and> map (\<lambda>d. (d_variant d, d_width d, d_height d)) ds
        = map (\<lambda>(v, vw). (v, variant_width (dw_imaging w) picture vw, variant_height (dw_imaging w) picture vw)) vs
    \<and> (\<forall>d\<in>set ds. 0 < d_size d)"
  using assms(3)
proof (induction vs arbitrary: b)
  case (Cons x vs)
  obtain v vw where x: "x = (v, vw)" by (cases x)
  have v: "CHR ''/'' \<notin> set v" using Cons.prems x by simp
  define width where "width = variant_width (dw_imaging w) picture vw"
  define height where "height = variant_height (dw_imaging w) picture vw"
  obtain data where data: "im_jpeg (dw_imaging w) picture width height = Inr data" "data \<noteq> []" using assms(4) by blast
  have k: "root_safe (es @ attempt_path (a_processing_attempts a) v)" "attempt_key a v = join_with ''/'' (es @ attempt_path (a_processing_attempts a) v)"
    using assms(2) v attempt_path_proper attempt_key_path [OF assms(2) v] by (auto simp: asset_dir_def intro!: root_safe_append)
  obtain p b1 where put: "dv_put ops (attempt_key a v) data ''image/jpeg'' b = (Ok p, b1)" using put_answers [OF k] by blast
  have size: "0 < bp_size p" using put_Ok [OF k put] data(2) by simp
  obtain keys ds b' where rest: "write_variants w a picture now vs b1 = ((None, keys, ds), b')"
      "map (\<lambda>d. (d_variant d, d_width d, d_height d)) ds
        = map (\<lambda>(v, vw). (v, variant_width (dw_imaging w) picture vw, variant_height (dw_imaging w) picture vw)) vs"
      "\<forall>d\<in>set ds. 0 < d_size d"
    using Cons.IH [of b1] Cons.prems by auto
  then show ?case using put data(1) size assms(1) by (simp add: x Let_def flip: width_def height_def)
qed simp

end

interpretation local_answering: answering_objects "local_deriv le mtime" local_content for le mtime
proof (unfold_locales, goal_cases)
  case (1 es k data mime b)
  then show ?case using Local_Put_plain [OF root_safe_plain [OF 1], of le data mtime b] by (auto simp: local_deriv_def)
next
  case (2 es k b body etag)
  then show ?case using root_safe_plain [OF 2(1,2)]
    by (auto simp: local_deriv_def Local_Open_def plain_key_def Let_def)
qed

lemma upsert_fresh:
  assumes "\<forall>d\<in>set ds. d_asset d = i \<and> derivative_check d" "distinct (map d_variant ds)" "distinct (map d_object_key ds)"
    and "\<forall>x\<in>set t. \<forall>d\<in>set ds. d_asset x \<noteq> i \<and> d_object_key x \<noteq> d_object_key d"
  shows "upsert_derivatives i ds t = Ok (t @ ds)"
  using assms
proof (induction ds arbitrary: t rule: rev_induct)
  case (snoc d ds)
  have app: "upsert_derivatives i (ds @ es) t = bindR (upsert_derivatives i ds t) (upsert_derivatives i es)" for es t
    by (induction ds arbitrary: t) (auto, metis bindR.simps sum.exhaust)
  have ds: "upsert_derivatives i ds t = Ok (t @ ds)" using snoc by auto
  have same: "d\<lparr>d_asset := i\<rparr> = d" using snoc.prems(1) by simp
  have new: "d_variant d \<notin> d_variant ` set ds" "d_object_key d \<notin> d_object_key ` set ds" using snoc.prems(2,3) by auto
  have check: "derivative_check d" "d_asset d = i" and old: "\<forall>x\<in>set t. d_asset x \<noteq> i \<and> d_object_key x \<noteq> d_object_key d"
    using snoc.prems(1,4) by auto
  have "\<not> exists_row (\<lambda>x. d_asset x = d_asset d \<and> d_variant x = d_variant d) (t @ ds)"
    using new(1) old check(2) by (auto simp: image_iff)
  moreover have "\<not> exists_row (\<lambda>x. \<not> (d_asset x = d_asset d \<and> d_variant x = d_variant d) \<and> d_object_key x = d_object_key d) (t @ ds)"
    using new(2) old by (auto simp: image_iff)
  ultimately have "upsert_derivative d (t @ ds) = Ok ((t @ ds) @ [d])"
    using check(1) unfolding upsert_derivative_def Let_def by presburger
  then show ?case by (simp add: app ds same)
qed simp

lemma variant_height_bounds:
  assumes "1 \<le> im_width im picture" "1 \<le> im_height im picture"
  shows "1 \<le> variant_height im picture vw \<and> variant_height im picture vw \<le> im_height im picture"
proof -
  let ?W = "im_width im picture" and ?H = "im_height im picture"
  have "?H * variant_width im picture vw \<le> ?H * ?W"
    using assms by (intro mult_left_mono) (auto simp: variant_width_def)
  then have "?H * variant_width im picture vw div ?W \<le> ?H * ?W div ?W" using assms by (intro zdiv_mono1) auto
  then show ?thesis using assms by (simp add: variant_height_def)
qed

text \<open>The claim of a row that can be claimed.\<close>

lemma ClaimProcessing_open:
  assumes "asset_of st i = Some x" "processing_claimable now x" "a_etag x = etag" "derivable_mime (a_detected_mime x)" "placed st"
  shows "ClaimProcessing i etag now lease st = (Ok (asset.truncate (attempt_row now lease x), ProcessingClaimed),
      UPDATE_assets (\<lambda>s. a_id s = i) (attempt_row now lease) st)"
proof -
  have wf: "wf_assets st" using assms(5) by (simp add: placed_def)
  have x: "x \<in> set (st_assets st)" "a_id x = i" using asset_of_in [OF assms(1)] by auto
  let ?P = "\<lambda>r. a_id r = i \<and> a_etag r = etag \<and> derivable_mime (a_detected_mime r) \<and> processing_claimable now r"
  have sel: "sel1 ?P (st_assets st) = Some x"
  proof (cases "sel1 ?P (st_assets st)")
    case None then show ?thesis using x assms(2-4) by (auto simp: sel1_None)
  next
    case (Some r)
    then have "asset_of st i = Some r" using asset_of_mem [OF wf, of r] sel1_Some [OF Some] by auto
    then show ?thesis using Some assms(1) by simp
  qed
  have row: "asset_of (UPDATE_assets (\<lambda>s. a_id s = i) (attempt_row now lease) st) i = Some (attempt_row now lease x)"
    using assms(1) x(2) by (simp add: asset_of_UPDATE)
  have "GetAsset (UPDATE_assets (\<lambda>s. a_id s = i) (attempt_row now lease) st) i = Ok (asset.truncate (attempt_row now lease x))"
    by (rule GetAsset_of [OF row])
      (use assms(2) wf in \<open>simp_all add: processing_claimable_def processable_def live_def wf_assets_UPDATE\<close>)
  then show ?thesis by (simp add: ClaimProcessing_def sel x(2) Let_def)
qed

text \<open>The completion of an attempt that is open, with derivatives that fit the table.\<close>

lemma CompleteProcessing_open:
  assumes "asset_of st i = Some x" "processing_fence i etag n x" "wf_assets st" "keyed dkey (st_derivatives st)"
    and "\<forall>d\<in>set ds. d_asset d = i \<and> derivative_check d" "distinct (map d_variant ds)" "distinct (map d_object_key ds)"
    and "\<forall>y\<in>set (st_derivatives st). \<forall>d\<in>set ds. d_object_key y \<noteq> d_object_key d" "\<forall>y\<in>set (st_derivatives st). d_asset y \<noteq> i"
  shows "\<exists>st'. CompleteProcessing i etag n ds now st = (Ok (), st') \<and> asset_of st' i = Some (ready_row now x)
    \<and> (\<forall>v. drow (st_derivatives st') i v = by_variant ds v)"
proof -
  have aff: "affected (processing_fence i etag n) (st_assets st) = 1"
    using affected_asset [OF assms(3), of "processing_fence i etag n" i] assms(1,2) by (auto simp: processing_fence_def)
  have ups: "upsert_derivatives i ds (st_derivatives st) = Ok (st_derivatives st @ ds)"
    by (rule upsert_fresh) (use assms(5-9) in auto)
  let ?st' = "(UPDATE_assets (processing_fence i etag n) (ready_row now) st)\<lparr>st_derivatives := st_derivatives st @ ds\<rparr>"
  have c: "CompleteProcessing i etag n ds now st = (Ok (), ?st')" using aff ups by (simp add: CompleteProcessing_def)
  have "dom (drow (st_derivatives st) i) \<subseteq> d_variant ` set ds" using assms(9) by fastforce
  then have "drow (st_derivatives ?st') i v = by_variant ds v" for v
    using completed_rows [OF c assms(3) aff assms(4)] assms(5) by blast
  moreover obtain r where "asset_of st i = Some r" "asset_of ?st' = (asset_of st)(i \<mapsto> ready_row now r)"
    using CompleteProcessing_fresh [OF c assms(3) aff] by metis
  ultimately show ?thesis using c assms(1) by auto
qed

text \<open>The rows that an attempt wrote fit the derivative table.\<close>

definition shape_of :: "'i imaging \<Rightarrow> 'i \<Rightarrow> (string \<times> int \<times> int) list" where
  "shape_of im picture = map (\<lambda>(v, vw). (v, variant_width im picture vw, variant_height im picture vw)) variants"

lemma shape_variant:
  assumes "map (\<lambda>d. (d_variant d, d_width d, d_height d)) ds = shape_of im picture"
  shows "map d_variant ds = map fst variants"
    and "d \<in> set ds \<Longrightarrow> \<exists>vw. (d_variant d, vw) \<in> set variants \<and> d_width d = variant_width im picture vw \<and> d_height d = variant_height im picture vw"
    and "(v, vw) \<in> set variants \<Longrightarrow> \<exists>d. by_variant ds v = Some d \<and> d_width d = variant_width im picture vw \<and> d_height d = variant_height im picture vw"
proof -
  have "map fst (map (\<lambda>d. (d_variant d, d_width d, d_height d)) ds) = map fst variants"
    unfolding assms shape_of_def by (simp add: case_prod_beta comp_def)
  then show names: "map d_variant ds = map fst variants" by (simp add: comp_def)
  show 2: "\<exists>vw. (d_variant d, vw) \<in> set variants \<and> d_width d = variant_width im picture vw \<and> d_height d = variant_height im picture vw"
    if d: "d \<in> set ds" for d
  proof -
    have "(d_variant d, d_width d, d_height d) \<in> set (map (\<lambda>d. (d_variant d, d_width d, d_height d)) ds)" using d by simp
    then show ?thesis unfolding assms shape_of_def by auto
  qed
  show "\<exists>d. by_variant ds v = Some d \<and> d_width d = variant_width im picture vw \<and> d_height d = variant_height im picture vw"
    if v: "(v, vw) \<in> set variants"
  proof -
    have "v \<in> set (map d_variant ds)" unfolding names using v by force
    then obtain d where d: "by_variant ds v = Some d" using by_variant_dom [of ds] by (auto simp: dom_def)
    obtain u where u: "(v, u) \<in> set variants" "d_width d = variant_width im picture u" "d_height d = variant_height im picture u"
      using 2 [of d] by_variant_in [OF d] by auto
    have "u = vw" using u(1) v by (auto simp: variants_def)
    then show ?thesis using d u by blast
  qed
qed

lemma written_rows_fit:
  assumes "map (\<lambda>d. (d_variant d, d_width d, d_height d)) ds = shape_of im picture" "\<forall>d\<in>set ds. 0 < d_size d"
    and "1 \<le> im_width im picture" "1 \<le> im_height im picture"
    and "\<forall>d\<in>set ds. d_asset d = i \<and> d_object_key d = attempt_key a (d_variant d)"
    and "asset_dir (a_object_key a) es" "0 \<le> a_processing_attempts a"
  shows "(\<forall>d\<in>set ds. d_asset d = i \<and> derivative_check d) \<and> distinct (map d_variant ds) \<and> distinct (map d_object_key ds)"
proof -
  have names: "map d_variant ds = map fst variants" by (rule shape_variant(1) [OF assms(1)])
  have check: "derivative_check d" if d: "d \<in> set ds" for d
  proof -
    obtain vw where vw: "(d_variant d, vw) \<in> set variants" "d_width d = variant_width im picture vw" "d_height d = variant_height im picture vw"
      using shape_variant(2) [OF assms(1) d] by blast
    have "0 < vw" "d_variant d \<in> set [''small'', ''medium'', ''large'']" using vw(1) by (auto simp: variants_def)
    then show ?thesis using vw(2,3) assms(2,3) d variant_height_bounds [OF assms(3,4), of vw]
      by (simp add: derivative_check_def variant_width_def)
  qed
  have "map d_object_key ds = map (attempt_key a) (map d_variant ds)" using assms(5) by simp
  moreover have "inj_on (attempt_key a) (fst ` set variants)"
    using attempt_key_inj [OF assms(6,6) _ _ assms(7,7)] variant_names(3) by (intro inj_onI) blast
  ultimately have "distinct (map d_object_key ds)" using variant_names(2) by (simp add: names distinct_map comp_inj_on)
  then show ?thesis using check assms(5) names variant_names(2) by simp
qed

text \<open>An attempt on a decodable picture publishes its three derivatives.\<close>

lemma attempt_succeeds:
  assumes "dw_blobs w = local_deriv le mtime" "dw_commit w = Reported" "placed st" "published_ok local_content st b"
    and "asset_of st (a_id a) = Some y" "processing_fence (a_id a) (a_etag a) (a_processing_attempts a) y" "a = asset.truncate y"
    and "local_content b (a_object_key a) = Some (body, a_etag a)" "load_picture (dw_imaging w) (dw_text w) body = Inr picture"
    and "\<forall>width height. \<exists>data. im_jpeg (dw_imaging w) picture width height = Inr data \<and> data \<noteq> []"
  shows "\<exists>keys st' b'. process w a now (st, b) = ((keys, None), (st', b')) \<and> asset_of st' (a_id a) = Some (ready_row now y)
    \<and> (\<forall>(v, limit)\<in>set variants. \<exists>d. drow (st_derivatives st') (a_id a) v = Some d
          \<and> d_width d = variant_width (dw_imaging w) picture limit \<and> d_height d = variant_height (dw_imaging w) picture limit)"
proof -
  have wf: "wf_assets st" using assms(3) by (simp add: placed_def)
  have fields: "a_object_key a = a_object_key y" "a_processing_attempts a = a_processing_attempts y" by (simp_all add: assms(7) asset.truncate_def)
  obtain es where es: "asset_dir (a_object_key a) es" "0 \<le> a_processing_attempts a"
    using assms(3,5) fields unfolding placed_def by metis
  have okey: "root_safe (es @ [''original''])" "a_object_key a = join_with ''/'' (es @ [''original''])"
    using es(1) by (auto simp: asset_dir_def proper_element_def intro!: root_safe_append)
  obtain d where d: "dv_open (dw_blobs w) (a_object_key a) (a_etag a) b = Ok d" "bd_body d = body"
    using local_answering.open_answers [OF okey assms(8)] assms(1) by auto
  obtain keys ds b1 where wr: "write_variants w a picture now variants b = ((None, keys, ds), b1)"
      and shape: "map (\<lambda>d. (d_variant d, d_width d, d_height d)) ds = shape_of (dw_imaging w) picture" and sizes: "\<forall>d\<in>set ds. 0 < d_size d"
    using local_answering.write_variants_all [OF assms(1) es(1) variant_names(3) assms(10)] unfolding shape_of_def by blast
  have all: "take 3 variants = variants" by (simp add: variants_def)
  have ds: "\<forall>d\<in>set ds. d_asset d = a_id a \<and> d_object_key d = attempt_key a (d_variant d)"
    using local_objects.written_effect [where n = 3, unfolded all, OF wr assms(1) es] by simp
  have dims: "1 \<le> im_width (dw_imaging w) picture" "1 \<le> im_height (dw_imaging w) picture"
    using assms(9) by (auto simp: load_picture_def Let_def split: if_splits sum.splits)
  note fit = written_rows_fit [OF shape sizes dims ds es]
  have pending: "a_processing_status y = ProcessingPending" using assms(6) by (simp add: processing_fence_def)
  have old: "d_asset q \<noteq> a_id a" "d_object_key q \<notin> attempt_keys a" if q: "q \<in> set (st_derivatives st)" for q
  proof -
    obtain z where z: "asset_of st (d_asset q) = Some z" "a_processing_status z = ProcessingReady" "d_variant q \<in> fst ` set variants"
        "d_object_key q = attempt_key z (d_variant q)" using assms(4) q unfolding published_ok_def by blast
    show "d_asset q \<noteq> a_id a" using z(1,2) assms(5) pending by auto
    then show "d_object_key q \<notin> attempt_keys a"
      using key_foreign [OF assms(3) z(1) assms(5) fields(1) es(2) _ z(3)] z(4) by simp
  qed
  have "d_variant q \<in> fst ` set variants" if "q \<in> set ds" for q
    using that shape_variant(1) [OF shape] by (metis image_eqI image_set)
  then have inside: "d_object_key q \<in> attempt_keys a" if "q \<in> set ds" for q
    using ds that by (simp add: attempt_keys_def)
  have apart: "\<forall>y\<in>set (st_derivatives st). \<forall>d\<in>set ds. d_object_key y \<noteq> d_object_key d"
    using old(2) inside by metis
  have keyed: "keyed dkey (st_derivatives st)" using assms(4) by (simp add: published_ok_def)
  have none: "\<forall>y\<in>set (st_derivatives st). d_asset y \<noteq> a_id a" using old(1) by blast
  obtain st' where st': "CompleteProcessing (a_id a) (a_etag a) (a_processing_attempts a) ds now st = (Ok (), st')"
      "asset_of st' (a_id a) = Some (ready_row now y)" "\<forall>v. drow (st_derivatives st') (a_id a) v = by_variant ds v"
    using CompleteProcessing_open [OF assms(5,6) wf keyed _ _ _ apart none, of now] fit by (elim conjE) blast
  have "process w a now (st, b) = ((keys, None), (st', b1))"
    using d wr st'(1) assms(2,9) by (simp add: process_def commit_processing_def)
  moreover have "\<forall>(v, limit)\<in>set variants. \<exists>d. drow (st_derivatives st') (a_id a) v = Some d
          \<and> d_width d = variant_width (dw_imaging w) picture limit \<and> d_height d = variant_height (dw_imaging w) picture limit"
    unfolding st'(3) [rule_format] using shape_variant(3) [OF shape] by auto
  ultimately show ?thesis using st'(2) by blast
qed

lemma picture_published:
  assumes "decode_derivative j (msg_body m) = Inr e" "dj_worker j = w" "dw_blobs w = local_deriv le mtime" "dw_commit w = Reported"
    and "deriv_inv local_content (st, b, [])" "asset_of st (qe_asset e) = Some x" "processing_claimable (rc_claim c) x"
    and "a_etag x = qe_etag e" "derivable_mime (a_detected_mime x)" "b (a_object_key x) = Some f" "file_etag f = a_etag x"
    and "load_picture (dw_imaging w) (dw_text w) (lf_bytes f) = Inr picture"
    and "\<forall>width height. \<exists>data. im_jpeg (dw_imaging w) picture width height = Inr data \<and> data \<noteq> []"
    and "dj_queue j Ack = Ok ()"
  shows "\<exists>st' b'. RunOnce_derivative j (Some m) c (st, b, []) = ((True, Ok ()), (st', b', [Ack]))
    \<and> (\<exists>y. asset_of st' (qe_asset e) = Some y \<and> a_processing_status y = ProcessingReady)
    \<and> (\<forall>(v, limit)\<in>set variants. \<exists>d. drow (st_derivatives st') (qe_asset e) v = Some d
          \<and> d_width d = min limit (im_width (dw_imaging w) picture)
          \<and> 1 \<le> d_height d \<and> d_height d \<le> im_height (dw_imaging w) picture)"
proof -
  have inv: "placed st" "published_ok local_content st b" using assms(5) by (auto simp: deriv_inv_def)
  have id: "a_id x = qe_asset e" using asset_of_in [OF assms(6)] by blast
  define y where "y = attempt_row (rc_claim c) processing_lease x"
  define a where "a = asset.truncate y"
  define st1 where "st1 = UPDATE_assets (\<lambda>s. a_id s = qe_asset e) (attempt_row (rc_claim c) processing_lease) st"
  have claim: "ClaimProcessing (qe_asset e) (qe_etag e) (rc_claim c) processing_lease st = (Ok (a, ProcessingClaimed), st1)"
    unfolding a_def y_def st1_def by (rule ClaimProcessing_open [OF assms(6-9) inv(1)])
  have quiet: "publishes_nothing st st1" using ClaimProcessing_handed [OF claim inv(1)] by blast
  have af: "a_id a = qe_asset e" "a_etag a = qe_etag e" "a_object_key a = a_object_key x" "a_processing_attempts a = a_processing_attempts y"
    using id assms(8) by (simp_all add: a_def y_def asset.truncate_def attempt_row_def)
  have row: "asset_of st1 (a_id a) = Some y" unfolding st1_def y_def using assms(6) id af(1) by (simp add: asset_of_UPDATE)
  have fence: "processing_fence (a_id a) (a_etag a) (a_processing_attempts a) y"
    using assms(7,8) id af by (simp add: processing_fence_def y_def attempt_row_def processing_claimable_def processable_def live_def)
  have content: "local_content b (a_object_key a) = Some (lf_bytes f, a_etag a)"
    using assms(8,10,11) af by (simp add: local_content_def)
  obtain keys st' b' where done': "process w a (rc_now c) (st1, b) = ((keys, None), (st', b'))"
      "asset_of st' (a_id a) = Some (ready_row (rc_now c) y)"
      "\<forall>(v, limit)\<in>set variants. \<exists>d. drow (st_derivatives st') (a_id a) v = Some d
          \<and> d_width d = variant_width (dw_imaging w) picture limit \<and> d_height d = variant_height (dw_imaging w) picture limit"
    using attempt_succeeds [OF assms(3,4) publishes_nothing_placed [OF quiet] published_ok_moves [OF quiet inv(2)] row fence a_def
        content assms(12,13)] by blast
  have "qe_asset e \<noteq> []" "qe_etag e \<noteq> []" using assms(1) by (auto simp: decode_derivative_def valid_event_def split: sum.splits if_splits)
  then have "ProcessAsset w (qe_asset e) (qe_etag e) (rc_claim c) (rc_now c) (rc_later c) (st, b) = (Ok (process_answer ProcessSatisfied), (st', b'))"
    unfolding ProcessAsset_def prod.case claim by (simp add: processClaimed_def done'(1))
  then have "RunOnce_derivative j (Some m) c (st, b, []) = ((True, Ok ()), (st', b', [Ack]))"
    using assms(1,2,14) by (simp add: RunOnce_derivative_def settle_process_def process_answer_def ask_derivative_def)
  moreover have "1 \<le> im_width (dw_imaging w) picture" "1 \<le> im_height (dw_imaging w) picture"
    using assms(12) by (auto simp: load_picture_def Let_def split: if_splits sum.splits)
  moreover have "a_processing_status (ready_row (rc_now c) y) = ProcessingReady" by (simp add: ready_row_def)
  ultimately show ?thesis
    using done'(2,3) variant_height_bounds unfolding af(1) variant_width_def by (intro exI conjI) (assumption | fastforce)+
qed

text \<open>
  C30.  A decodable picture gets its derivatives.  Over the local store, whenever a message names a clean
  asset that waits for processing, its object is there and decodes within the limits, and the encoder
  yields bytes, one round publishes all three variants, makes the asset ready and acknowledges the
  message; no derivative is wider than its variant or than the original, nor higher than the original.
\<close>
theorem image_published:
  assumes "decode_derivative j (msg_body m) = Inr e" "dj_worker j = w" "dw_blobs w = local_deriv le mtime" "dw_commit w = Reported"
    and "deriv_inv local_content (st, b, [])" "asset_of st (qe_asset e) = Some x" "processing_claimable (rc_claim c) x"
    and "a_etag x = qe_etag e" "derivable_mime (a_detected_mime x)" "b (a_object_key x) = Some f" "file_etag f = a_etag x"
    and "load_picture (dw_imaging w) (dw_text w) (lf_bytes f) = Inr picture"
    and "\<forall>width height. \<exists>data. im_jpeg (dw_imaging w) picture width height = Inr data \<and> data \<noteq> []"
    and "dj_queue j Ack = Ok ()"
  shows "\<exists>st' b'. RunOnce_derivative j (Some m) c (st, b, []) = ((True, Ok ()), (st', b', [Ack]))
    \<and> (\<exists>y. asset_of st' (qe_asset e) = Some y \<and> a_processing_status y = ProcessingReady)
    \<and> (\<forall>(v, limit)\<in>set variants. \<exists>d. drow (st_derivatives st') (qe_asset e) v = Some d
          \<and> d_width d = min limit (im_width (dw_imaging w) picture)
          \<and> 1 \<le> d_height d \<and> d_height d \<le> im_height (dw_imaging w) picture)"
  by (rule picture_published [OF assms])

section \<open>Keys of the service and of the purge\<close>

text \<open>The assets that the service creates lie where the steps above expect them.\<close>

lemma created_asset_placed:
  assumes "PolicyFor (cu_namespace input) = Some p" "proper_parts sv i sid now"
  shows "asset_dir (a_object_key (created_asset sv p input i now)) (asset_prefix sv input i now)"
proof -
  have proper: "list_all proper_element (asset_prefix sv input i now)"
    using assms PolicyFor_proper [OF assms(1)] by (simp add: asset_prefix_def proper_parts_def) (simp add: proper_element_def)
  then have safe: "root_safe (asset_prefix sv input i now)" by (simp add: root_safe_def asset_prefix_def)
  have all: "list_all proper_element (asset_prefix sv input i now @ [''original''])" using proper by (simp add: proper_element_def)
  then have "path_Join (asset_prefix sv input i now @ [''original'']) = join_with ''/'' (asset_prefix sv input i now @ [''original''])"
    by (intro path_Join_proper) simp_all
  then show ?thesis using safe by (simp add: asset_dir_def created_asset_def)
qed

text \<open>A purge removes every object that any of the five attempts may have left behind.\<close>

lemma purge_covers_attempts:
  assumes "1 \<le> a_processing_attempts a" "a_processing_attempts a \<le> 5"
  shows "attempt_keys a \<subseteq> set (derivative_paths (a_object_key a))"
proof -
  have "a_processing_attempts a \<in> {1, 2, 3, 4, 5}" using assms by auto
  moreover have "FormatInt 1 = ''1''" "FormatInt 2 = ''2''" "FormatInt 3 = ''3''" "FormatInt 4 = ''4''" "FormatInt 5 = ''5''" by code_simp+
  ultimately have "FormatInt (a_processing_attempts a) \<in> set [''1'', ''2'', ''3'', ''4'', ''5'']" by auto
  then show ?thesis
    unfolding attempt_keys_def variant_names(1) attempt_key_def derivative_paths_def by fastforce
qed

section \<open>Witnesses\<close>

definition demo_picture_file :: local_file where
  "demo_picture_file = \<lparr>lf_bytes = ''img'', lf_mtime = 3\<rparr>"

definition demo_picture_row :: asset_row where
  "demo_picture_row = demo_image_row\<lparr>a_object_key := ''assets/a1/original'', a_etag := ''3-3'', a_processing_attempts := 0\<rparr>"

definition demo_picture_store :: store where
  "demo_picture_store = empty_store\<lparr>st_assets := [demo_picture_row]\<rparr>"

definition demo_picture_files :: local_files where
  "demo_picture_files = [''assets/a1/original'' \<mapsto> demo_picture_file]"

definition demo_imaging :: "(int \<times> int) imaging" where
  "demo_imaging = \<lparr>im_config = (\<lambda>_. Inr (800, 600)), im_decode = (\<lambda>_. Inr (800, 600)), im_width = fst, im_height = snd,
     im_jpeg = (\<lambda>_ _ _. Inr ''jpg'')\<rparr>"

definition demo_deriv_worker :: "(int \<times> int, local_files) deriv_worker" where
  "demo_deriv_worker = \<lparr>dw_imaging = demo_imaging, dw_blobs = local_deriv demo_local 9, dw_text = (\<lambda>_. ''error''), dw_commit = Reported\<rparr>"

definition demo_deriv_event :: queue_event where
  "demo_deriv_event = \<lparr>qe_type = ''asset.derivative.requested.v1'', qe_version = 1, qe_event = ''ev'', qe_asset = ''a1'', qe_etag = ''3-3''\<rparr>"

definition demo_deriv_job :: "(int \<times> int, local_files) deriv_job" where
  "demo_deriv_job = \<lparr>dj_worker = demo_deriv_worker, dj_digest = (\<lambda>_. ''sum''),
     dj_json = (\<lambda>b. if b = ''ev'' then Inr demo_deriv_event else Inl ''bad''), dj_queue = (\<lambda>_. Ok ())\<rparr>"

definition demo_clock :: round_clock where
  "demo_clock = \<lparr>rc_claim = 50, rc_now = 51, rc_later = 52, rc_settle = 53\<rparr>"

lemma demo_deriv_decoded: "decode_derivative demo_deriv_job (msg_body demo_message) = Inr demo_deriv_event"
  by (simp add: decode_derivative_def demo_deriv_job_def demo_message_def valid_event_def demo_deriv_event_def)

lemma demo_picture_etag: "file_etag demo_picture_file = ''3-3''"
  by code_simp

lemma demo_picture_of: "asset_of demo_picture_store i = (if i = ''a1'' then Some demo_picture_row else None)"
  by (simp add: demo_picture_store_def asset_of_def demo_picture_row_def processing_eval)

lemma demo_picture_key: "asset_dir ''assets/a1/original'' [''assets'', ''a1'']"
  by (simp add: asset_dir_def root_safe_def proper_element_def)

lemma demo_picture_placed: "placed demo_picture_store"
  unfolding placed_def demo_picture_of
  using demo_picture_key by (auto simp: demo_picture_store_def wf_assets_def keyed_def demo_picture_row_def demo_image_row_def new_asset_row_def demo_defs asset.defs)

lemma demo_picture_claimable: "processing_claimable 50 demo_picture_row" "derivable_mime (a_detected_mime demo_picture_row)"
    "a_etag demo_picture_row = ''3-3''" "a_object_key demo_picture_row = ''assets/a1/original''"
  by (simp_all add: demo_picture_row_def processing_eval)

lemma demo_picture_inv: "deriv_inv local_content (demo_picture_store, demo_picture_files, [])"
  using demo_picture_placed
  by (simp add: deriv_inv_def running_ok_def published_ok_def keyed_def) (simp add: demo_picture_store_def empty_store_def)

lemma demo_picture_loads: "load_picture (dw_imaging demo_deriv_worker) (dw_text demo_deriv_worker) ''img'' = Inr (800, 600)"
  by (simp add: load_picture_def demo_deriv_worker_def demo_imaging_def image_limit_def validateImageConfig_def)

lemma demo_picture_encodes: "\<forall>width height. \<exists>data. im_jpeg (dw_imaging demo_deriv_worker) (800, 600) width height = Inr data \<and> data \<noteq> []"
  by (simp add: demo_deriv_worker_def demo_imaging_def)

lemma demo_deriv_fields: "dj_worker demo_deriv_job = demo_deriv_worker" "dw_blobs demo_deriv_worker = local_deriv demo_local 9"
    "dw_commit demo_deriv_worker = Reported" "dj_queue demo_deriv_job Ack = Ok ()" "rc_claim demo_clock = 50" "rc_settle demo_clock \<noteq> 0"
    "qe_asset demo_deriv_event = ''a1''" "qe_etag demo_deriv_event = ''3-3''"
  by (simp_all add: demo_deriv_job_def demo_deriv_worker_def demo_clock_def demo_deriv_event_def)

lemma demo_picture_found: "asset_of demo_picture_store (qe_asset demo_deriv_event) = Some demo_picture_row"
    "processing_claimable (rc_claim demo_clock) demo_picture_row" "a_etag demo_picture_row = qe_etag demo_deriv_event"
    "demo_picture_files (a_object_key demo_picture_row) = Some demo_picture_file" "file_etag demo_picture_file = a_etag demo_picture_row"
    "lf_bytes demo_picture_file = ''img''"
  using demo_picture_claimable demo_picture_etag
  by (simp_all add: demo_picture_of demo_deriv_fields demo_picture_files_def) (simp add: demo_picture_file_def)

abbreviation demo_deriv_round where
  "demo_deriv_round \<equiv> RunOnce_derivative demo_deriv_job (Some demo_message) demo_clock (demo_picture_store, demo_picture_files, [])"

theorem image_published_witness:
  "\<exists>st' b'. demo_deriv_round = ((True, Ok ()), (st', b', [Ack])) \<and> (\<exists>d. drow (st_derivatives st') ''a1'' ''small'' = Some d \<and> d_width d = 480)"
proof -
  have "(''small'', 480) \<in> set variants" by (simp add: variants_def)
  then show ?thesis
    using image_published [OF demo_deriv_decoded demo_deriv_fields(1-3) demo_picture_inv demo_picture_found(1-3) demo_picture_claimable(2)
        demo_picture_found(4,5) _ demo_picture_encodes demo_deriv_fields(4)] demo_picture_loads demo_picture_found(6)
    by (fastforce simp: demo_deriv_fields demo_deriv_worker_def demo_imaging_def)
qed

lemma demo_deriv_acked: "\<exists>st' b'. demo_deriv_round = ((True, Ok ()), (st', b', [Ack]))"
  using picture_published [OF demo_deriv_decoded demo_deriv_fields(1-3) demo_picture_inv demo_picture_found(1-3) demo_picture_claimable(2)
      demo_picture_found(4,5) _ demo_picture_encodes demo_deriv_fields(4)] demo_picture_loads demo_picture_found(6) by auto

theorem derivative_ack_decided_witness:
  "\<exists>st' b'. demo_deriv_round = ((True, Ok ()), (st', b', [Ack])) \<and> \<not> derivable st' demo_deriv_event"
proof -
  obtain st' b' where r: "demo_deriv_round = ((True, Ok ()), (st', b', [Ack]))" using demo_deriv_acked by blast
  have "wf_assets demo_picture_store" using demo_picture_placed by (simp add: placed_def)
  then have "\<not> derivable st' demo_deriv_event"
    using derivative_ack_decided [OF r _ _ demo_deriv_fields(6)] demo_deriv_decoded by simp
  then show ?thesis using r by blast
qed

text \<open>The row while its fifth attempt is leased until time 99.\<close>

definition demo_last_row :: asset_row where
  "demo_last_row = demo_picture_row\<lparr>a_processing_attempts := 5, a_processing_claimed := 99\<rparr>"

definition demo_last_store :: store where
  "demo_last_store = empty_store\<lparr>st_assets := [demo_last_row]\<rparr>"

theorem last_attempt_cut_short_witness:
  "\<exists>st' b' acts. RunOnce_derivative demo_deriv_job (Some demo_message) demo_clock (demo_last_store, demo_picture_files, []) = ((True, Ok ()), (st', b', acts))
     \<and> fst (CompleteProcessing ''a1'' ''3-3'' 5 [demo_derivative] 60 st') = Err ErrConflict"
proof -
  have row: "asset_of demo_last_store (qe_asset demo_deriv_event) = Some demo_last_row" "processable demo_last_row"
      "a_etag demo_last_row = qe_etag demo_deriv_event" "a_processing_attempts demo_last_row = 5"
      "a_processing_claimed demo_last_row > rc_claim demo_clock" "wf_assets demo_last_store"
    by (simp_all add: demo_last_store_def asset_of_def demo_last_row_def demo_picture_row_def demo_deriv_fields processing_eval)
  obtain st' b' acts where run: "RunOnce_derivative demo_deriv_job (Some demo_message) demo_clock (demo_last_store, demo_picture_files, [])
      = ((True, Ok ()), (st', b', acts))"
    using ProcessAsset_last [OF row(1-4,6), of demo_deriv_worker "rc_claim demo_clock" "rc_now demo_clock" "rc_later demo_clock" demo_picture_files]
      demo_deriv_decoded
    by (simp add: RunOnce_derivative_def demo_deriv_fields settle_process_def poison_derivative_def)
      (simp add: demo_deriv_job_def ask_derivative_def FailDerivativeToPoison_def record_poison_def poison_ok_def new_poison_row_def poison_row.defs
        poison.defs derivativePoison_def demo_message_def demo_last_store_def demo_last_row_def demo_picture_row_def processing_eval
        MarkDerivativePoisonForwarded_def)
  show ?thesis using last_attempt_cut_short [OF row demo_deriv_decoded run, of "[demo_derivative]" 60] run by (auto simp: demo_deriv_fields)
qed


end
