(* ===== verification/Paging.thy ===== *)
theory Paging
  imports Domain "HOL-Library.List_Lexorder" "HOL-Library.Char_ord"
begin

text \<open>
  Keyset paging, the pattern behind every list of \<open>internal/postgres/store.go\<close>: a query asks for
  one row more than the page holds, the surplus row says that there is more, and the key of the
  last row shown is the cursor from which the next query goes on.  The locale \<open>keyset_pages\<close> states
  the law of one such list; a reader who follows the cursors sees every row once and in order.
\<close>

section \<open>ORDER BY\<close>

fun insert_by :: "('a \<Rightarrow> 'a \<Rightarrow> bool) \<Rightarrow> 'a \<Rightarrow> 'a list \<Rightarrow> 'a list" where
  "insert_by lt x [] = [x]"
| "insert_by lt x (y # ys) = (if lt y x then y # insert_by lt x ys else x # y # ys)"

fun sort_rows :: "('a \<Rightarrow> 'a \<Rightarrow> bool) \<Rightarrow> 'a list \<Rightarrow> 'a list" where
  "sort_rows lt [] = []"
| "sort_rows lt (x # xs) = insert_by lt x (sort_rows lt xs)"

lemma set_sort_rows [simp]: "set (sort_rows lt xs) = set xs"
proof -
  have "set (insert_by lt x ys) = insert x (set ys)" for x ys by (induction ys) auto
  then show ?thesis by (induction xs) auto
qed

lemma length_sort_rows [simp]: "length (sort_rows lt xs) = length xs"
proof -
  have "length (insert_by lt x ys) = Suc (length ys)" for x ys by (induction ys) auto
  then show ?thesis by (induction xs) auto
qed

text \<open>Under an order that is total on the rows the result is strictly ordered.\<close>

lemma sorted_sort_rows:
  assumes trans: "\<And>x y z. lt x y \<Longrightarrow> lt y z \<Longrightarrow> lt x z"
    and total: "\<And>x y. x \<in> set xs \<Longrightarrow> y \<in> set xs \<Longrightarrow> x \<noteq> y \<Longrightarrow> lt x y \<or> lt y x"
    and "distinct xs"
  shows "sorted_wrt lt (sort_rows lt xs)"
  using assms(2,3)
proof (induction xs)
  case Nil
  then show ?case by simp
next
  case (Cons x xs)
  have ins: "sorted_wrt lt (insert_by lt x ys)"
    if "sorted_wrt lt ys" "\<forall>y\<in>set ys. lt x y \<or> lt y x" for ys
    using that
  proof (induction ys)
    case Nil
    then show ?case by simp
  next
    case (Cons y ys)
    have mem: "set (insert_by lt x ys) = insert x (set ys)" by (induction ys) auto
    show ?case
    proof (cases "lt y x")
      case True
      then show ?thesis using Cons mem by auto
    next
      case False
      then have "lt x y" using Cons.prems(2) by simp
      then show ?thesis using False Cons.prems trans by auto
    qed
  qed
  have "sorted_wrt lt (sort_rows lt xs)" using Cons by simp
  moreover have "\<forall>y\<in>set (sort_rows lt xs). lt x y \<or> lt y x" using Cons.prems by auto
  ultimately show ?case using ins by simp
qed

section \<open>One page\<close>

text \<open>The rows of a page and whether there are more, from the \<open>limit+1\<close> rows that were fetched.\<close>

definition cut_page :: "nat \<Rightarrow> 'r list \<Rightarrow> 'r list \<times> bool" where
  "cut_page n rows = (let fetched = take (n + 1) rows
     in if length fetched > n then (take n fetched, True) else (fetched, False))"

lemma cut_page_eq: "cut_page n rows = (take n rows, n < length rows)"
  by (auto simp: cut_page_def Let_def min_def)

section \<open>A reader\<close>

fun read_pages :: "('c option \<Rightarrow> 'r list \<times> 'c option) \<Rightarrow> nat \<Rightarrow> 'c option \<Rightarrow> 'r list option" where
  "read_pages fetch 0 c = None"
| "read_pages fetch (Suc fuel) c =
     (case fetch c of
        (rows, None) \<Rightarrow> Some rows
      | (rows, Some c') \<Rightarrow> map_option (\<lambda>rest. rows @ rest) (read_pages fetch fuel (Some c')))"

locale keyset_pages =
  fixes rows :: "'r list"
    and key :: "'r \<Rightarrow> 'k"
    and less :: "'k \<Rightarrow> 'k \<Rightarrow> bool"
    and limit :: nat
    and mark :: "'r \<Rightarrow> 'c"
    and pos :: "'c \<Rightarrow> 'k"
    and ok :: "'c \<Rightarrow> bool"
    and fetch :: "'c option \<Rightarrow> 'r list \<times> 'c option"
  assumes less_trans: "less x y \<Longrightarrow> less y z \<Longrightarrow> less x z"
    and less_irrefl: "\<not> less x x"
    and limit_pos: "0 < limit"
    and mark_pos: "r \<in> set rows \<Longrightarrow> ok (mark r) \<and> pos (mark r) = key r"
    and fetches: "(\<And>m. c = Some m \<Longrightarrow> ok m) \<Longrightarrow> fetch c = (let rest = (case c of None \<Rightarrow> rows | Some m \<Rightarrow> filter (\<lambda>r. less (pos m) (key r)) rows)
       in (take limit rest, if limit < length rest then Some (mark (last (take limit rest))) else None))"
begin

definition in_order :: "'r list \<Rightarrow> bool" where
  "in_order rs \<longleftrightarrow> sorted_wrt (\<lambda>r s. less (key r) (key s)) rs"

text \<open>The rows after the last row of a page are the rows beyond its key.\<close>

lemma rest_after:
  assumes "in_order (shown @ rest)" "shown \<noteq> []"
  shows "filter (\<lambda>r. less (key (last shown)) (key r)) (shown @ rest) = rest"
proof -
  have "\<not> less (key (last shown)) (key r)" if "r \<in> set shown" for r
  proof (cases "r = last shown")
    case True
    then show ?thesis using less_irrefl by simp
  next
    case False
    have "shown = butlast shown @ [last shown]" using assms(2) by simp
    moreover have "r \<in> set (butlast shown)"
      using that False \<open>shown = _\<close> by (metis Un_iff empty_iff empty_set set_ConsD set_append)
    ultimately have "less (key r) (key (last shown))"
      using assms(1) unfolding in_order_def by (metis list.set_intros(1) sorted_wrt_append)
    then show ?thesis using less_trans less_irrefl by blast
  qed
  moreover have "less (key (last shown)) (key r)" if "r \<in> set rest" for r
    using assms that unfolding in_order_def by (simp add: sorted_wrt_append)
  ultimately show ?thesis by (simp add: filter_empty_conv)
qed

lemma reads_rest:
  assumes "in_order rows" "rows = seen @ rest" "length rest < fuel"
    and "c = (if seen = [] then None else Some (mark (last seen)))"
  shows "read_pages fetch fuel c = Some rest"
  using assms(2-4)
proof (induction fuel arbitrary: seen rest c)
  case 0
  then show ?case by simp
next
  case (Suc fuel)
  have after: "(case c of None \<Rightarrow> rows | Some m \<Rightarrow> filter (\<lambda>r. less (pos m) (key r)) rows) = rest"
  proof (cases "seen = []")
    case True
    then show ?thesis using Suc.prems by simp
  next
    case False
    then have "pos (mark (last seen)) = key (last seen)" using mark_pos Suc.prems(1) by simp
    then show ?thesis using Suc.prems False rest_after [of seen rest] assms(1) by simp
  qed
  have c_ok: "ok m" if "c = Some m" for m
  proof -
    have "seen \<noteq> []" "m = mark (last seen)" using that Suc.prems(3) by (auto split: if_splits)
    moreover have "last seen \<in> set rows" using calculation(1) Suc.prems(1) by simp
    ultimately show ?thesis using mark_pos by blast
  qed
  show ?case
  proof (cases "limit < length rest")
    case False
    then show ?thesis using after fetches [OF c_ok] by (simp add: Let_def)
  next
    case True
    let ?page = "take limit rest"
    have ne: "?page \<noteq> []" using True limit_pos by auto
    have "read_pages fetch fuel (Some (mark (last ?page))) = Some (drop limit rest)"
      by (rule Suc.IH [where seen = "seen @ ?page"]) (use Suc.prems limit_pos ne True in auto)
    moreover have "fetch c = (?page, Some (mark (last ?page)))"
      using True after fetches [OF c_ok] by (simp add: Let_def)
    ultimately show ?thesis by simp
  qed
qed

text \<open>With one page more than there are rows, the reader has everything, once and in order.\<close>

lemma reads_all: "in_order rows \<Longrightarrow> length rows < fuel \<Longrightarrow> read_pages fetch fuel None = Some rows"
  using reads_rest [of "[]" rows fuel None] by simp

end

text \<open>Following the cursor of a page; a refused request ends the reading.\<close>

definition follow :: "('r, 'c) page result \<Rightarrow> 'r list \<times> 'c option" where
  "follow r = (case r of
       Inl e \<Rightarrow> ([], None)
     | Inr p \<Rightarrow> (pg_rows p, case pg_cursor p of Token c \<Rightarrow> Some c | _ \<Rightarrow> None))"

definition token_of :: "'c option \<Rightarrow> 'c token" where
  "token_of c = (case c of None \<Rightarrow> NoToken | Some m \<Rightarrow> Token m)"

section \<open>The SQL search pattern\<close>

text \<open>
  \<open>LIKE ... ESCAPE '\'\<close>: \<open>%\<close> matches any text, \<open>_\<close> any character, and a backslash takes the
  special meaning from the character after it.  \<open>ILIKE\<close> compares case-folded characters.
\<close>

definition fold_case :: "char \<Rightarrow> char" where
  "fold_case c = (if 65 \<le> (of_char c :: nat) \<and> (of_char c :: nat) \<le> 90 then char_of (of_char c + 32 :: nat) else c)"

function ilike :: "string \<Rightarrow> string \<Rightarrow> bool" where
  "ilike [] s = (s = [])"
| "ilike (c # p) s =
     (if c = CHR ''%'' then ilike p s \<or> (case s of [] \<Rightarrow> False | _ # s' \<Rightarrow> ilike (c # p) s')
      else if c = CHR 0x5C then
        (case p of [] \<Rightarrow> False
         | d # q \<Rightarrow> (case s of [] \<Rightarrow> False | x # s' \<Rightarrow> fold_case d = fold_case x \<and> ilike q s'))
      else (case s of [] \<Rightarrow> False | x # s' \<Rightarrow> (c = CHR ''_'' \<or> fold_case c = fold_case x) \<and> ilike p s'))"
  by pat_completeness auto
termination by (relation "measure (\<lambda>(p, s). length p + length s)") auto

declare ilike.simps(2) [simp del]

text \<open>The replacer that takes the special meaning from the characters of a query.\<close>

fun escape_like :: "string \<Rightarrow> string" where
  "escape_like [] = []"
| "escape_like (c # q) = (if c \<in> {CHR 0x5C, CHR ''%'', CHR ''_''} then [CHR 0x5C, c] else [c]) @ escape_like q"

definition same_folded :: "string \<Rightarrow> string \<Rightarrow> bool" where
  "same_folded p q \<longleftrightarrow> map fold_case p = map fold_case q"

lemma ilike_percent: "ilike (CHR ''%'' # p) s \<longleftrightarrow> (\<exists>u v. s = u @ v \<and> ilike p v)"
proof (induction s)
  case Nil
  then show ?case by (simp add: ilike.simps(2))
next
  case (Cons x s)
  have "ilike (CHR ''%'' # p) (x # s) \<longleftrightarrow> ilike p (x # s) \<or> (\<exists>u v. s = u @ v \<and> ilike p v)"
    by (subst ilike.simps(2)) (simp add: Cons)
  also have "\<dots> \<longleftrightarrow> (\<exists>u v. x # s = u @ v \<and> ilike p v)"
    by (metis append_Cons append_Nil neq_Nil_conv list.inject)
  finally show ?case .
qed

lemma ilike_escaped: "ilike (escape_like q @ p) s \<longleftrightarrow> (\<exists>u v. s = u @ v \<and> same_folded q u \<and> ilike p v)"
proof (induction q arbitrary: s)
  case Nil
  then show ?case by (simp add: same_folded_def)
next
  case (Cons c q)
  have step: "ilike (escape_like (c # q) @ p) s \<longleftrightarrow>
      (case s of [] \<Rightarrow> False | x # s' \<Rightarrow> fold_case c = fold_case x \<and> ilike (escape_like q @ p) s')"
    by (auto simp: ilike.simps(2) split: list.splits)
  show ?case
  proof (cases s)
    case Nil
    then show ?thesis unfolding step by (simp add: same_folded_def)
  next
    case s: (Cons x s')
    have "ilike (escape_like (c # q) @ p) s \<longleftrightarrow>
        fold_case c = fold_case x \<and> (\<exists>u v. s' = u @ v \<and> same_folded q u \<and> ilike p v)"
      by (subst step) (simp add: s Cons)
    also have "\<dots> \<longleftrightarrow> (\<exists>u v. s = u @ v \<and> same_folded (c # q) u \<and> ilike p v)"
    proof
      assume "fold_case c = fold_case x \<and> (\<exists>u v. s' = u @ v \<and> same_folded q u \<and> ilike p v)"
      then obtain u v where "fold_case c = fold_case x" "s' = u @ v" "same_folded q u" "ilike p v" by blast
      then show "\<exists>u v. s = u @ v \<and> same_folded (c # q) u \<and> ilike p v"
        by (intro exI [of _ "x # u"] exI [of _ v]) (simp add: s same_folded_def)
    next
      assume "\<exists>u v. s = u @ v \<and> same_folded (c # q) u \<and> ilike p v"
      then obtain u v where u: "s = u @ v" "same_folded (c # q) u" "ilike p v" by blast
      then obtain y u' where "u = y # u'" by (cases u) (auto simp: same_folded_def)
      then show "fold_case c = fold_case x \<and> (\<exists>u v. s' = u @ v \<and> same_folded q u \<and> ilike p v)"
        using u s by (auto simp: same_folded_def)
    qed
    finally show ?thesis .
  qed
qed

text \<open>The pattern the list query builds around an escaped query is literal containment.\<close>

lemma ilike_contains: "ilike (''%'' @ escape_like q @ ''%'') s \<longleftrightarrow> (\<exists>u w v. s = u @ w @ v \<and> same_folded q w)"
proof -
  have "ilike ''%'' v" for v using ilike_percent [of "[]" v] by auto
  then show ?thesis by (simp add: ilike_percent ilike_escaped) metis
qed

end
