(* ===== verification/Personal_Cloud.thy ===== *)
theory Personal_Cloud
  imports Collections Paging
begin

text \<open>
  The personal cloud of \<open>internal/assets/personal_sync.go\<close> and \<open>internal/postgres/personal_sync.go\<close>:
  a tree of folders and files per user, its mutations with their receipts, the change log, the trash
  and the quota.  A row of the items table with \<open>node_kind\<close> other than \<open>legacy\<close> is a \<open>personal_node\<close>;
  \<open>0\<close> is the absent deletion time and \<open>''''\<close> the absent parent, asset and operation, as in the columns
  read through \<open>COALESCE\<close>.
\<close>

section \<open>Data\<close>

datatype node_kind = Folder | File

record personal_node =
  pn_id :: string
  pn_collection :: string
  pn_parent :: string
  pn_kind :: node_kind
  pn_name :: string
  pn_asset :: string
  pn_mime :: string
  pn_size :: int
  pn_etag :: string
  pn_revision :: int
  pn_deleted :: time
  pn_operation :: string
  pn_purged :: bool

datatype mutation_type = CreateFolder | CreateFile | Rename | ReplaceContent | Move | Delete | Restore | OtherType string

record personal_mutation =
  pm_operation :: string
  pm_type :: mutation_type
  pm_item :: string
  pm_parent :: string
  pm_name :: string
  pm_upload :: string
  pm_expected :: int
  pm_expected_collection :: int

record personal_mutation_result =
  mr_item :: string
  mr_node_revision :: int
  mr_collection_revision :: int

record trash_purge_input =
  tp_operation :: string
  tp_items :: "string list"
  tp_all :: bool

record personal_usage =
  pu_active :: int
  pu_trash :: int
  pu_protected :: int
  pu_used :: int
  pu_quota :: int
  pu_override :: "int option"

record personal_space =
  ps_id :: string
  ps_revision :: int
  ps_used :: int
  ps_quota :: int

text \<open>The rows of the tables of the personal cloud.\<close>

record space_row =
  sr_id :: string
  sr_owner :: string
  sr_revision :: int
  sr_updated :: time

record personal_change =
  pc_collection :: string
  pc_revision :: int
  pc_item :: string
  pc_snapshot :: personal_node

text \<open>A fingerprint stands for the request it is made of, a response for the JSON text of its value.\<close>

datatype receipt_request = ForMutation personal_mutation | ForPurge trash_purge_input

datatype receipt_response = OfMutation personal_mutation_result | OfPurge "string list"

record receipt_row =
  rr_owner :: string
  rr_operation :: string
  rr_request :: receipt_request
  rr_response :: receipt_response

record quota_row =
  qr_owner :: string
  qr_bytes :: int

record quota_audit_row =
  qa_owner :: string
  qa_actor :: string
  qa_request :: string
  qa_old :: "int option"
  qa_new :: "int option"

record folder_grant =
  fg_id :: string
  fg_collection :: string
  fg_folder :: string
  fg_owner :: string
  fg_grantee :: string
  fg_created :: time
  fg_revoked :: time

record cloud =
  cl_store :: store
  cl_spaces :: "space_row tbl"
  cl_nodes :: "personal_node tbl"
  cl_changes :: "personal_change tbl"
  cl_receipts :: "receipt_row tbl"
  cl_quotas :: "quota_row tbl"
  cl_quota_audit :: "quota_audit_row tbl"
  cl_grants :: "folder_grant tbl"

fun cloud_tx :: "cloud \<Rightarrow> ('a \<times> cloud) result \<Rightarrow> 'a result \<times> cloud" where
  "cloud_tx cl (Inl e) = (Err e, cl)"
| "cloud_tx cl (Inr (x, cl')) = (Ok x, cl')"

lemma cloud_tx_Ok [simp]: "cloud_tx cl r = (Inr x, cl') \<longleftrightarrow> r = Inr (x, cl')"
  by (cases r) (auto split: prod.splits)

lemma cloud_tx_Err: "cloud_tx cl r = (Inl e, cl') \<longleftrightarrow> r = Inl e \<and> cl' = cl"
  by (cases r) (auto split: prod.splits)

section \<open>Checks of the input\<close>

definition valid_personal_id :: "string \<Rightarrow> bool" where
  "valid_personal_id i \<longleftrightarrow> TrimSpace i \<noteq> [] \<and> length i \<le> 128 \<and> \<not> has_control i"

definition valid_personal_name :: "string \<Rightarrow> bool" where
  "valid_personal_name v \<longleftrightarrow> utf8_ValidString v \<and> TrimSpace v \<noteq> [] \<and> length (runes v) \<le> 255
     \<and> list_all (\<lambda>c. c \<noteq> CHR ''/'' \<and> c \<noteq> CHR 0x5C) v \<and> \<not> has_control v"

definition creates :: "mutation_type \<Rightarrow> bool" where
  "creates t \<longleftrightarrow> t = CreateFolder \<or> t = CreateFile"

definition Mutation_Validate :: "personal_mutation \<Rightarrow> bool" where
  "Mutation_Validate m \<longleftrightarrow> valid_personal_id (pm_operation m) \<and> valid_personal_id (pm_item m)
     \<and> length (pm_parent m) \<le> 128 \<and> length (pm_upload m) \<le> 128
     \<and> pm_type m \<in> {CreateFolder, CreateFile, Rename, ReplaceContent, Move, Delete, Restore}
     \<and> (creates (pm_type m) \<or> pm_type m = Rename \<or> pm_name m \<noteq> [] \<longrightarrow> valid_personal_name (pm_name m))
     \<and> (creates (pm_type m) \<or> 0 < pm_expected m)
     \<and> (pm_type m = CreateFile \<or> pm_type m = ReplaceContent \<longrightarrow> pm_upload m \<noteq> [])"

definition Purge_Validate :: "trash_purge_input \<Rightarrow> bool" where
  "Purge_Validate p \<longleftrightarrow> valid_personal_id (tp_operation p) \<and> tp_all p = (tp_items p = []) \<and> length (tp_items p) \<le> 1000
     \<and> list_all valid_personal_id (tp_items p) \<and> distinct (tp_items p)"

section \<open>The tree\<close>

definition live_node :: "personal_node \<Rightarrow> bool" where
  "live_node n \<longleftrightarrow> pn_deleted n = 0"

definition space_of :: "cloud \<Rightarrow> string \<Rightarrow> space_row option" where
  "space_of cl owner = sel1 (\<lambda>s. sr_owner s = owner) (cl_spaces cl)"

definition node_in :: "cloud \<Rightarrow> string \<Rightarrow> string \<Rightarrow> personal_node option" where
  "node_in cl c i = sel1 (\<lambda>n. pn_collection n = c \<and> pn_id n = i) (cl_nodes cl)"

definition personalParent :: "cloud \<Rightarrow> string \<Rightarrow> string \<Rightarrow> unit result" where
  "personalParent cl c parent =
     (if parent = [] then Ok ()
      else case node_in cl c parent of
        None \<Rightarrow> Err ErrNotFound
      | Some n \<Rightarrow> if pn_kind n \<noteq> Folder \<or> \<not> live_node n then Err ErrConflict else Ok ())"

text \<open>
  The recursive query \<open>ancestors\<close>: the node itself and what its parents lead to.  Every step visits a
  row, so that one step more than there are rows finds everything there is to find.
\<close>

fun chain :: "nat \<Rightarrow> cloud \<Rightarrow> string \<Rightarrow> string \<Rightarrow> string list" where
  "chain 0 cl c i = []"
| "chain (Suc k) cl c i =
     (case node_in cl c i of
        None \<Rightarrow> []
      | Some n \<Rightarrow> i # (if pn_parent n = [] then [] else chain k cl c (pn_parent n)))"

definition ancestors :: "cloud \<Rightarrow> string \<Rightarrow> string \<Rightarrow> string list" where
  "ancestors cl c i = chain (Suc (length (cl_nodes cl))) cl c i"

definition below :: "cloud \<Rightarrow> string \<Rightarrow> string \<Rightarrow> personal_node \<Rightarrow> bool" where
  "below cl c i n \<longleftrightarrow> pn_collection n = c \<and> pn_parent n \<noteq> [] \<and> i \<in> set (ancestors cl c (pn_parent n))"

abbreviation id_before :: "personal_node \<Rightarrow> personal_node \<Rightarrow> bool" where
  "id_before n m \<equiv> pn_id n < pn_id m"

text \<open>The recursive query \<open>subtree\<close>, in the order of the identifiers.\<close>

definition subtree :: "cloud \<Rightarrow> string \<Rightarrow> string \<Rightarrow> (personal_node \<Rightarrow> bool) \<Rightarrow> personal_node list" where
  "subtree cl c i P = sort_rows id_before (filter (\<lambda>n. below cl c i n \<and> P n) (cl_nodes cl))"

section \<open>Usage and quota\<close>

definition trash_period :: int where "trash_period = 30 * day"

definition DefaultPersonalQuotaBytes :: int where "DefaultPersonalQuotaBytes = 107374182400"

definition file_refs :: "cloud \<Rightarrow> string \<Rightarrow> string \<Rightarrow> personal_node list" where
  "file_refs cl c a = filter (\<lambda>n. pn_collection n = c \<and> pn_kind n = File \<and> pn_asset n = a) (cl_nodes cl)"

definition logged_ref :: "cloud \<Rightarrow> string \<Rightarrow> string \<Rightarrow> bool" where
  "logged_ref cl c a \<longleftrightarrow> exists_row (\<lambda>h. pc_collection h = c \<and> pn_asset (pc_snapshot h) = a) (cl_changes cl)"

datatype usage_class = Active | Trash | Protected | Uncounted

definition class_of :: "cloud \<Rightarrow> string \<Rightarrow> time \<Rightarrow> string \<Rightarrow> usage_class" where
  "class_of cl c now a =
     (let refs = file_refs cl c a in
      if a = [] then Uncounted
      else if list_ex live_node refs then Active
      else if list_ex (\<lambda>n. pn_deleted n > now - trash_period) refs then Trash
      else if refs = [] \<and> logged_ref cl c a then Protected
      else Uncounted)"

definition class_bytes :: "cloud \<Rightarrow> string \<Rightarrow> time \<Rightarrow> usage_class \<Rightarrow> int" where
  "class_bytes cl c now k =
     sum_list (map a_size (filter (\<lambda>r. a_purged r = 0 \<and> class_of cl c now (a_id r) = k) (st_assets (cl_store cl))))"

definition quota_of :: "cloud \<Rightarrow> string \<Rightarrow> int option" where
  "quota_of cl owner = map_option qr_bytes (sel1 (\<lambda>q. qr_owner q = owner) (cl_quotas cl))"

definition personalUsage :: "cloud \<Rightarrow> string \<Rightarrow> time \<Rightarrow> personal_usage" where
  "personalUsage cl owner now =
     (let bytes = (\<lambda>k. case space_of cl owner of None \<Rightarrow> 0 | Some s \<Rightarrow> class_bytes cl (sr_id s) now k);
          a = bytes Active; t = bytes Trash; p = bytes Protected; q = quota_of cl owner
      in \<lparr>pu_active = a, pu_trash = t, pu_protected = p, pu_used = a + t + p,
          pu_quota = (case q of None \<Rightarrow> DefaultPersonalQuotaBytes | Some n \<Rightarrow> n), pu_override = q\<rparr>)"

definition valid_owner :: "string \<Rightarrow> bool" where
  "valid_owner owner \<longleftrightarrow> TrimSpace owner \<noteq> [] \<and> length owner \<le> 128"

definition PersonalUsage :: "cloud \<Rightarrow> string \<Rightarrow> time \<Rightarrow> personal_usage result" where
  "PersonalUsage cl owner now = (if valid_owner owner then Ok (personalUsage cl owner now) else Err ErrUnauthorized)"

text \<open>\<open>EnsurePersonalSpace\<close>: the upsert keeps an existing space; \<open>new\<close> is the fresh identifier.\<close>

definition EnsurePersonalSpace :: "string \<Rightarrow> time \<Rightarrow> string \<Rightarrow> cloud \<Rightarrow> personal_space result \<times> cloud" where
  "EnsurePersonalSpace owner now new cl =
     (if \<not> valid_owner owner then (Err ErrUnauthorized, cl)
      else if space_of cl owner = None \<and> exists_row (\<lambda>s. sr_id s = new) (cl_spaces cl) then (Err unique_violation, cl)
      else if space_of cl owner = None \<and> new = [] then (Err check_violation, cl)
      else let cl' = (case space_of cl owner of
                 Some s \<Rightarrow> cl
               | None \<Rightarrow> cl\<lparr>cl_spaces := cl_spaces cl @ [\<lparr>sr_id = new, sr_owner = owner, sr_revision = 1, sr_updated = now\<rparr>]\<rparr>)
           in (case space_of cl' owner of
                 None \<Rightarrow> (Err ErrNotFound, cl')
               | Some s \<Rightarrow> (let u = personalUsage cl' owner now
                   in (Ok \<lparr>ps_id = sr_id s, ps_revision = sr_revision s, ps_used = pu_used u, ps_quota = pu_quota u\<rparr>, cl'))))"

definition SetPersonalQuota :: "string \<Rightarrow> string \<Rightarrow> int option \<Rightarrow> string \<Rightarrow> time \<Rightarrow> cloud \<Rightarrow> personal_usage result \<times> cloud" where
  "SetPersonalQuota actor owner quota request now cl = cloud_tx cl
     (let old = quota_of cl owner; rest = del_where (\<lambda>q. qr_owner q = owner) (cl_quotas cl) in
      if (case quota of None \<Rightarrow> False | Some n \<Rightarrow> n \<le> 0 \<or> actor = []) then Err check_violation
      else if actor = [] \<or> request = [] then Err check_violation
      else let cl1 = cl\<lparr>cl_quotas := (case quota of None \<Rightarrow> rest | Some n \<Rightarrow> rest @ [\<lparr>qr_owner = owner, qr_bytes = n\<rparr>]),
             cl_quota_audit := cl_quota_audit cl @ [\<lparr>qa_owner = owner, qa_actor = actor, qa_request = request, qa_old = old, qa_new = quota\<rparr>]\<rparr>
           in Ok (personalUsage cl1 owner now, cl1))"

end
