(* ===== verification/Personal_Sync.thy ===== *)
theory Personal_Sync
  imports Personal_Cloud
begin

text \<open>
  \<open>ApplyPersonalMutation\<close> and \<open>PurgePersonalTrash\<close> of \<open>internal/postgres/personal_sync.go\<close>, in the stages of the
  code: the receipt, the node to start from, its new content, name or parent, the nodes a deletion
  or restoration reaches, the rows and the change log.  Unicode normalisation (\<open>norm.NFC\<close>) belongs to a
  library outside the repository and is the argument \<open>nfc\<close>.
\<close>

section \<open>Receipts\<close>

definition receipt_of :: "cloud \<Rightarrow> string \<Rightarrow> string \<Rightarrow> receipt_row option" where
  "receipt_of cl owner operation = sel1 (\<lambda>r. rr_owner r = owner \<and> rr_operation r = operation) (cl_receipts cl)"

definition INSERT_receipt :: "string \<Rightarrow> string \<Rightarrow> receipt_request \<Rightarrow> receipt_response \<Rightarrow> cloud \<Rightarrow> cloud" where
  "INSERT_receipt owner operation request response cl = cl\<lparr>cl_receipts := cl_receipts cl @
     [\<lparr>rr_owner = owner, rr_operation = operation, rr_request = request, rr_response = response\<rparr>]\<rparr>"

section \<open>The node of a mutation\<close>

definition new_node :: "(string \<Rightarrow> string) \<Rightarrow> string \<Rightarrow> personal_mutation \<Rightarrow> personal_node" where
  "new_node nfc c m = \<lparr>pn_id = pm_item m, pn_collection = c, pn_parent = pm_parent m,
     pn_kind = (if pm_type m = CreateFolder then Folder else File), pn_name = nfc (pm_name m), pn_asset = [],
     pn_mime = [], pn_size = 0, pn_etag = [], pn_revision = 0, pn_deleted = 0, pn_operation = [], pn_purged = False\<rparr>"

definition starting_node :: "(string \<Rightarrow> string) \<Rightarrow> cloud \<Rightarrow> string \<Rightarrow> personal_mutation \<Rightarrow> personal_node result" where
  "starting_node nfc cl c m =
     (if creates (pm_type m) then Ok (new_node nfc c m)
      else case node_in cl c (pm_item m) of
        None \<Rightarrow> Err ErrNotFound
      | Some n \<Rightarrow>
          if pn_revision n \<noteq> pm_expected m then Err ErrConflict
          else if (\<not> live_node n) \<noteq> (pm_type m = Restore) then Err ErrConflict
          else Ok n)"

section \<open>Content\<close>

definition personal_asset :: "string \<Rightarrow> asset_row \<Rightarrow> bool" where
  "personal_asset owner r \<longleftrightarrow> a_namespace r = ''presenter.personal'' \<and> a_owner_type r = ''user''
     \<and> a_owner_id r = owner \<and> a_owner_service r = ''presenter.personal'' \<and> a_deleted r = 0 \<and> a_purged r = 0"

definition unclaimed_at :: "time \<Rightarrow> asset_row \<Rightarrow> bool" where
  "unclaimed_at now r \<longleftrightarrow> ar_purge_claimed r = 0 \<or> ar_purge_claimed r < now"

definition uploaded_by :: "cloud \<Rightarrow> string \<Rightarrow> asset_row \<Rightarrow> bool" where
  "uploaded_by cl upload r \<longleftrightarrow> exists_row (\<lambda>u. us_id u = upload \<and> us_asset u = a_id r) (st_sessions (cl_store cl))"

definition usable :: "asset_row \<Rightarrow> bool" where
  "usable r \<longleftrightarrow> a_upload_status r = UploadCompleted \<and> a_scan_status r = ScanClean
     \<and> (a_processing_status r = ProcessingReady \<or> a_processing_status r = ProcessingNotRequired)"

definition broken :: "asset_row \<Rightarrow> bool" where
  "broken r \<longleftrightarrow> a_upload_status r = UploadFailed \<or> a_scan_status r = ScanInfected
     \<or> a_scan_status r = ScanFailed \<or> a_processing_status r = ProcessingFailed"

text \<open>The lease that keeps the purge away from an asset for ten minutes.\<close>

definition download_lease :: "(asset_row \<Rightarrow> bool) \<Rightarrow> time \<Rightarrow> cloud \<Rightarrow> cloud" where
  "download_lease P now cl = cl\<lparr>cl_store :=
     UPDATE_assets P (\<lambda>r. r\<lparr>ar_download_until := max (ar_download_until r) (now + 10 * minute)\<rparr>) (cl_store cl)\<rparr>"

definition counted :: "cloud \<Rightarrow> string \<Rightarrow> time \<Rightarrow> string \<Rightarrow> bool" where
  "counted cl c now a \<longleftrightarrow>
     list_ex (\<lambda>n. live_node n \<or> pn_deleted n > now - trash_period) (file_refs cl c a)
     \<or> logged_ref cl c a \<and> file_refs cl c a = []"

definition attach_content ::
  "cloud \<Rightarrow> string \<Rightarrow> string \<Rightarrow> time \<Rightarrow> personal_mutation \<Rightarrow> personal_node \<Rightarrow> (personal_node \<times> cloud) result" where
  "attach_content cl owner c now m n =
     (if pn_kind n \<noteq> File then Err ErrConflict
      else case sel1 (\<lambda>r. uploaded_by cl (pm_upload m) r \<and> personal_asset owner r \<and> unclaimed_at now r) (st_assets (cl_store cl)) of
        None \<Rightarrow> Err ErrNotFound
      | Some r \<Rightarrow>
          if broken r then Err ErrInvalidUpload
          else if \<not> usable r then Err ErrPersonalAssetNotReady
          else let u = personalUsage cl owner now;
                   required = (if counted cl c now (a_id r) then 0 else a_size r)
               in if required > pu_quota u - pu_used u then Err (ErrPersonalQuotaExceeded (pu_used u) (pu_quota u) required)
                  else Ok (n\<lparr>pn_asset := a_id r\<rparr>,
                           download_lease (\<lambda>s. a_id s = a_id r \<or> pn_asset n \<noteq> [] \<and> a_id s = pn_asset n) now cl))"

section \<open>The change of the node\<close>

fun revised ::
  "(string \<Rightarrow> string) \<Rightarrow> cloud \<Rightarrow> string \<Rightarrow> string \<Rightarrow> time \<Rightarrow> personal_mutation \<Rightarrow> mutation_type \<Rightarrow> personal_node
     \<Rightarrow> (personal_node \<times> cloud) result" where
  "revised nfc cl owner c now m CreateFile n = attach_content cl owner c now m n"
| "revised nfc cl owner c now m ReplaceContent n = attach_content cl owner c now m n"
| "revised nfc cl owner c now m Rename n = Ok (n\<lparr>pn_name := nfc (pm_name m)\<rparr>, cl)"
| "revised nfc cl owner c now m Restore n = Ok (if pm_name m \<noteq> [] then n\<lparr>pn_name := nfc (pm_name m)\<rparr> else n, cl)"
| "revised nfc cl owner c now m Move n =
     (if pn_id n \<in> set (ancestors cl c (pm_parent m)) then Err ErrConflict
      else Ok (n\<lparr>pn_parent := pm_parent m\<rparr>, cl))"
| "revised nfc cl owner c now m t n = Ok (n, cl)"

definition settled_parent :: "cloud \<Rightarrow> string \<Rightarrow> mutation_type \<Rightarrow> personal_node \<Rightarrow> personal_node" where
  "settled_parent cl c t n =
     (if t = Restore \<and> pn_parent n \<noteq> []
      then case node_in cl c (pn_parent n) of
             None \<Rightarrow> n\<lparr>pn_parent := []\<rparr>
           | Some p \<Rightarrow> if live_node p then n else n\<lparr>pn_parent := []\<rparr>
      else n)"

section \<open>The nodes a deletion or restoration reaches\<close>

definition reaches :: "mutation_type \<Rightarrow> personal_node \<Rightarrow> personal_node \<Rightarrow> bool" where
  "reaches t n k \<longleftrightarrow> (if t = Delete then live_node k
     else t = Restore \<and> pn_operation n \<noteq> [] \<and> pn_operation k = pn_operation n)"

definition affected_nodes :: "cloud \<Rightarrow> string \<Rightarrow> int \<Rightarrow> personal_mutation \<Rightarrow> personal_node \<Rightarrow> personal_node list result" where
  "affected_nodes cl c revision m n =
     (if (pm_type m = Delete \<or> pm_type m = Restore) \<and> pn_kind n = Folder
      then if pm_expected_collection m \<noteq> revision then Err ErrConflict
           else Ok (n # subtree cl c (pn_id n) (reaches (pm_type m) n))
      else Ok [n])"

definition restorable :: "time \<Rightarrow> personal_node \<Rightarrow> asset_row \<Rightarrow> bool" where
  "restorable now n r \<longleftrightarrow> a_id r = pn_asset n \<and> a_deleted r = 0 \<and> a_purged r = 0 \<and> usable r \<and> unclaimed_at now r"

definition toggled :: "time \<Rightarrow> personal_mutation \<Rightarrow> personal_node \<Rightarrow> cloud \<Rightarrow> (personal_node \<times> cloud) result" where
  "toggled now m n cl =
     (if pm_type m = Delete then Ok (n\<lparr>pn_deleted := now, pn_operation := pm_operation m\<rparr>, cl)
      else if pm_type m \<noteq> Restore then Ok (n, cl)
      else if live_node n \<or> \<not> now - trash_period < pn_deleted n then Err ErrNotFound
      else if pn_kind n = File \<and> affected (restorable now n) (st_assets (cl_store cl)) \<noteq> 1 then Err ErrNotFound
      else Ok (n\<lparr>pn_deleted := 0, pn_operation := []\<rparr>,
               if pn_kind n = File then download_lease (restorable now n) now cl else cl))"

fun toggle_all :: "time \<Rightarrow> personal_mutation \<Rightarrow> personal_node list \<Rightarrow> cloud \<Rightarrow> (personal_node list \<times> cloud) result" where
  "toggle_all now m [] cl = Ok ([], cl)"
| "toggle_all now m (n # ns) cl =
     bindR (toggled now m n cl) (\<lambda>(n', cl'). bindR (toggle_all now m ns cl') (\<lambda>(ns', cl''). Ok (n' # ns', cl'')))"

section \<open>Rows and log\<close>

definition set_revision :: "string \<Rightarrow> int \<Rightarrow> time \<Rightarrow> cloud \<Rightarrow> cloud" where
  "set_revision c revision now cl = cl\<lparr>cl_spaces :=
     upd_where (\<lambda>s. sr_id s = c) (\<lambda>s. s\<lparr>sr_revision := revision, sr_updated := now\<rparr>) (cl_spaces cl)\<rparr>"

text \<open>The unique indexes over the live nodes of a collection: the name in the folder and the asset.\<close>

definition node_clash :: "personal_node \<Rightarrow> personal_node \<Rightarrow> bool" where
  "node_clash n k \<longleftrightarrow> pn_collection n = pn_collection k \<and> live_node n \<and> live_node k
     \<and> (pn_parent n = pn_parent k \<and> pn_name n = pn_name k \<or> pn_asset n \<noteq> [] \<and> pn_asset n = pn_asset k)"

definition node_check :: "personal_node \<Rightarrow> bool" where
  "node_check n \<longleftrightarrow> pn_id n \<noteq> [] \<and> pn_name n \<noteq> [] \<and> (pn_kind n = Folder \<longrightarrow> pn_asset n = [])
     \<and> (pn_kind n = File \<longrightarrow> pn_asset n \<noteq> [] \<or> \<not> live_node n)"

definition write_node :: "bool \<Rightarrow> string \<Rightarrow> personal_node \<Rightarrow> cloud \<Rightarrow> cloud result" where
  "write_node creating c n cl =
     (if creating then map_error mapCollectionError
        (bindR (insert_row node_check (\<lambda>k s. pn_id k = pn_id s \<or> node_clash k s) n (cl_nodes cl)) (\<lambda>t. Ok (cl\<lparr>cl_nodes := t\<rparr>)))
      else let mine = (\<lambda>k. pn_id k = pn_id n \<and> pn_collection k = c) in
        if exists_row mine (cl_nodes cl) \<and> \<not> node_check n then Err check_violation
        else if exists_row mine (cl_nodes cl) \<and> exists_row (\<lambda>k. \<not> mine k \<and> node_clash n k) (cl_nodes cl) then Err ErrConflict
        else Ok (cl\<lparr>cl_nodes := upd_where mine (\<lambda>k. n) (cl_nodes cl)\<rparr>))"

text \<open>\<open>json.Marshal\<close> of a node drops the field \<open>DeletionOperationID\<close>.\<close>

definition snapshot :: "personal_node \<Rightarrow> personal_node" where
  "snapshot n = n\<lparr>pn_operation := []\<rparr>"

definition INSERT_change :: "string \<Rightarrow> int \<Rightarrow> personal_node \<Rightarrow> cloud \<Rightarrow> cloud result" where
  "INSERT_change c revision n cl =
     (if revision \<le> 0 then Err check_violation
      else if exists_row (\<lambda>h. pc_collection h = c \<and> pc_revision h = revision \<and> pc_item h = pn_id n) (cl_changes cl)
      then Err unique_violation
      else Ok (cl\<lparr>cl_changes := cl_changes cl @
        [\<lparr>pc_collection = c, pc_revision = revision, pc_item = pn_id n, pc_snapshot = snapshot n\<rparr>]\<rparr>))"

fun write_all :: "bool \<Rightarrow> string \<Rightarrow> int \<Rightarrow> personal_node list \<Rightarrow> cloud \<Rightarrow> cloud result" where
  "write_all creating c revision [] cl = Ok cl"
| "write_all creating c revision (n # ns) cl =
     bindR (write_node creating c (n\<lparr>pn_revision := revision\<rparr>) cl) (\<lambda>cl1.
     bindR (INSERT_change c revision (n\<lparr>pn_revision := revision\<rparr>) cl1) (\<lambda>cl2.
       write_all creating c revision ns cl2))"

section \<open>The mutation\<close>

definition perform_mutation ::
  "(string \<Rightarrow> string) \<Rightarrow> string \<Rightarrow> space_row \<Rightarrow> personal_mutation \<Rightarrow> time \<Rightarrow> cloud \<Rightarrow> (personal_mutation_result \<times> cloud) result" where
  "perform_mutation nfc owner s m now cl =
     (let c = sr_id s; t = pm_type m; revision = sr_revision s + 1 in
      bindR (starting_node nfc cl c m) (\<lambda>n0.
      bindR (revised nfc cl owner c now m t n0) (\<lambda>(n1, cl1).
      let n = settled_parent cl1 c t n1 in
      bindR (personalParent cl1 c (pn_parent n)) (\<lambda>_.
      bindR (affected_nodes cl1 c (sr_revision s) m n) (\<lambda>ns.
      bindR (toggle_all now m ns cl1) (\<lambda>(ns', cl2).
      bindR (write_all (creates t) c revision ns' (set_revision c revision now cl2)) (\<lambda>cl3.
      let result = \<lparr>mr_item = pn_id n, mr_node_revision = revision, mr_collection_revision = revision\<rparr> in
      Ok (result, INSERT_receipt owner (pm_operation m) (ForMutation m) (OfMutation result) cl3))))))))"

definition ApplyPersonalMutation ::
  "(string \<Rightarrow> string) \<Rightarrow> string \<Rightarrow> personal_mutation \<Rightarrow> time \<Rightarrow> cloud \<Rightarrow> personal_mutation_result result \<times> cloud" where
  "ApplyPersonalMutation nfc owner m now cl = cloud_tx cl
     (if owner = [] then Err ErrUnauthorized
      else if \<not> Mutation_Validate m then Err ErrInvalidInput
      else case space_of cl owner of
        None \<Rightarrow> Err ErrNotFound
      | Some s \<Rightarrow>
          (case receipt_of cl owner (pm_operation m) of
             Some r \<Rightarrow> if rr_request r \<noteq> ForMutation m then Err ErrConflict
                       else (case rr_response r of OfMutation x \<Rightarrow> Ok (x, cl) | OfPurge _ \<Rightarrow> Err json_error)
           | None \<Rightarrow> perform_mutation nfc owner s m now cl))"

section \<open>The trash\<close>

definition trashed :: "string \<Rightarrow> personal_node \<Rightarrow> bool" where
  "trashed c n \<longleftrightarrow> pn_collection n = c \<and> \<not> live_node n"

text \<open>
  The recursive query \<open>selected\<close>: a trashed node is reached when it is chosen or the chain of its trashed
  ancestors leads to a chosen one.
\<close>

fun trash_chain :: "nat \<Rightarrow> cloud \<Rightarrow> string \<Rightarrow> string \<Rightarrow> string list" where
  "trash_chain 0 cl c i = []"
| "trash_chain (Suc k) cl c i =
     (case node_in cl c i of
        None \<Rightarrow> []
      | Some n \<Rightarrow> if live_node n then [] else i # (if pn_parent n = [] then [] else trash_chain k cl c (pn_parent n)))"

definition selected :: "cloud \<Rightarrow> string \<Rightarrow> trash_purge_input \<Rightarrow> personal_node list" where
  "selected cl c input = sort_rows id_before (filter (\<lambda>n. trashed c n
     \<and> (tp_all input \<or> list_ex (\<lambda>i. i \<in> set (tp_items input)) (trash_chain (Suc (length (cl_nodes cl))) cl c (pn_id n)))) (cl_nodes cl))"

definition purged_snapshot :: "int \<Rightarrow> personal_node \<Rightarrow> personal_node" where
  "purged_snapshot revision n = n\<lparr>pn_asset := [], pn_parent := [], pn_operation := [], pn_revision := revision, pn_purged := True\<rparr>"

fun log_purged :: "string \<Rightarrow> int \<Rightarrow> personal_node list \<Rightarrow> cloud \<Rightarrow> cloud result" where
  "log_purged c revision [] cl = Ok cl"
| "log_purged c revision (n # ns) cl =
     bindR (INSERT_change c revision (purged_snapshot revision n) cl) (log_purged c revision ns)"

definition detach_children :: "string \<Rightarrow> string set \<Rightarrow> cloud \<Rightarrow> cloud" where
  "detach_children c gone cl = cl\<lparr>cl_nodes :=
     upd_where (\<lambda>n. pn_collection n = c \<and> live_node n \<and> pn_parent n \<in> gone) (\<lambda>n. n\<lparr>pn_parent := []\<rparr>) (cl_nodes cl)\<rparr>"

text \<open>The deletion of a folder takes its grants along (\<open>ON DELETE CASCADE\<close>).\<close>

definition forget_nodes :: "string \<Rightarrow> string set \<Rightarrow> cloud \<Rightarrow> cloud" where
  "forget_nodes c gone cl = cl\<lparr>
     cl_changes := del_where (\<lambda>h. pc_collection h = c \<and> pc_item h \<in> gone) (cl_changes cl),
     cl_nodes := del_where (\<lambda>n. pn_collection n = c \<and> pn_id n \<in> gone) (cl_nodes cl),
     cl_grants := del_where (\<lambda>g. fg_collection g = c \<and> fg_folder g \<in> gone) (cl_grants cl)\<rparr>"

definition erase_nodes :: "string \<Rightarrow> int \<Rightarrow> personal_node list \<Rightarrow> time \<Rightarrow> cloud \<Rightarrow> cloud result" where
  "erase_nodes c revision ns now cl =
     (let gone = set (map pn_id ns) in
      if ns = [] then Ok cl
      else bindR (log_purged c revision ns (forget_nodes c gone (detach_children c gone cl)))
             (\<lambda>cl'. Ok (set_revision c revision now cl')))"

definition perform_purge :: "string \<Rightarrow> space_row \<Rightarrow> trash_purge_input \<Rightarrow> time \<Rightarrow> cloud \<Rightarrow> (string list \<times> cloud) result" where
  "perform_purge owner s input now cl =
     (let c = sr_id s; ns = selected cl c input; gone = map pn_id ns in
      if \<not> tp_all input \<and> affected (\<lambda>n. trashed c n \<and> pn_id n \<in> set (tp_items input)) (cl_nodes cl) \<noteq> length (tp_items input)
      then Err ErrNotFound
      else bindR (erase_nodes c (sr_revision s + 1) ns now cl) (\<lambda>cl'.
        Ok (gone, INSERT_receipt owner (''purge:'' @ tp_operation input) (ForPurge input) (OfPurge gone) cl')))"

definition PurgePersonalTrash :: "string \<Rightarrow> trash_purge_input \<Rightarrow> time \<Rightarrow> cloud \<Rightarrow> string list result \<times> cloud" where
  "PurgePersonalTrash owner input now cl = cloud_tx cl
     (if \<not> Purge_Validate input then Err ErrInvalidInput
      else case space_of cl owner of
        None \<Rightarrow> Err ErrNotFound
      | Some s \<Rightarrow>
          (case receipt_of cl owner (''purge:'' @ tp_operation input) of
             Some r \<Rightarrow> if rr_request r \<noteq> ForPurge input then Err ErrConflict
                       else (case rr_response r of OfPurge x \<Rightarrow> Ok (x, cl) | OfMutation _ \<Rightarrow> Err json_error)
           | None \<Rightarrow> perform_purge owner s input now cl))"

end
