(* ===== verification/Personal_Forest.thy ===== *)
theory Personal_Forest
  imports Personal_Cloud
begin

text \<open>
  The abstract state of a personal cloud: a finite map from identifiers to nodes.  A forest is sound
  when parents are folders, a live node has no trashed parent, no node is its own ancestor and every
  deletion has one head, the node the user deleted.  The operations the service performs keep it so;
  \<open>Personal_Tree\<close> shows that \<open>ApplyPersonalMutation\<close> and \<open>PurgePersonalTrash\<close> perform them.
\<close>

type_synonym forest = "string \<rightharpoonup> personal_node"

definition edges :: "forest \<Rightarrow> (string \<times> string) set" where
  "edges T = {(pn_parent n, i) | i n. T i = Some n \<and> pn_parent n \<noteq> []}"

definition beneath :: "forest \<Rightarrow> string \<Rightarrow> string \<Rightarrow> bool" where
  "beneath T i j \<longleftrightarrow> (i, j) \<in> (edges T)\<^sup>+"

definition head_node :: "forest \<Rightarrow> personal_node \<Rightarrow> bool" where
  "head_node T n \<longleftrightarrow> pn_parent n = [] \<or> (\<forall>p. T (pn_parent n) = Some p \<longrightarrow> pn_operation p \<noteq> pn_operation n)"

definition parents_ok :: "forest \<Rightarrow> bool" where
  "parents_ok T \<longleftrightarrow> (\<forall>i n. T i = Some n \<longrightarrow> pn_parent n \<noteq> [] \<longrightarrow>
     (\<exists>p. T (pn_parent n) = Some p \<and> pn_kind p = Folder \<and> (live_node n \<longrightarrow> live_node p)))"

definition heads_ok :: "forest \<Rightarrow> bool" where
  "heads_ok T \<longleftrightarrow> (\<forall>i j n m. T i = Some n \<longrightarrow> T j = Some m \<longrightarrow> head_node T n \<longrightarrow> head_node T m
     \<longrightarrow> pn_operation n = pn_operation m \<longrightarrow> pn_operation n \<noteq> [] \<longrightarrow> i = j)"

definition forest_ok :: "forest \<Rightarrow> bool" where
  "forest_ok T \<longleftrightarrow> finite (dom T) \<and> parents_ok T \<and> acyclic (edges T)
     \<and> (\<forall>i n. T i = Some n \<longrightarrow> live_node n = (pn_operation n = [])) \<and> heads_ok T"

lemma forest_okI:
  assumes "finite (dom T)" "parents_ok T" "acyclic (edges T)"
    "\<And>i n. T i = Some n \<Longrightarrow> live_node n = (pn_operation n = [])" "heads_ok T"
  shows "forest_ok T"
  using assms by (auto simp: forest_ok_def)

lemma forest_parent:
  assumes "forest_ok T" "T i = Some n" "pn_parent n \<noteq> []"
  obtains p where "T (pn_parent n) = Some p" "pn_kind p = Folder" "live_node n \<longrightarrow> live_node p"
proof -
  have "parents_ok T" using assms(1) by (simp add: forest_ok_def)
  then show ?thesis using assms(2,3) that unfolding parents_ok_def by blast
qed

lemma forest_live: "forest_ok T \<Longrightarrow> T i = Some n \<Longrightarrow> live_node n \<longleftrightarrow> pn_operation n = []"
  by (auto simp: forest_ok_def)

lemma forest_acyclic: "forest_ok T \<Longrightarrow> acyclic (edges T)"
  by (simp add: forest_ok_def)

lemma forest_head:
  assumes "forest_ok T" "T i = Some n" "T j = Some m" "head_node T n" "head_node T m"
    "pn_operation n = pn_operation m" "pn_operation n \<noteq> []"
  shows "i = j"
  using assms by (auto simp: forest_ok_def heads_ok_def)

section \<open>Below a node\<close>

lemma edgeI: "T i = Some n \<Longrightarrow> pn_parent n \<noteq> [] \<Longrightarrow> (pn_parent n, i) \<in> edges T"
  by (auto simp: edges_def)

lemma edgeE:
  assumes "(p, i) \<in> edges T"
  obtains n where "T i = Some n" "pn_parent n = p" "p \<noteq> []"
  using assms by (auto simp: edges_def)

text \<open>A node is below another exactly when its parent is that node or below it.\<close>

lemma beneath_iff: "T j = Some n \<Longrightarrow> beneath T i j \<longleftrightarrow> pn_parent n \<noteq> [] \<and> (pn_parent n = i \<or> beneath T i (pn_parent n))"
proof -
  assume j: "T j = Some n"
  show ?thesis
  proof
    assume "beneath T i j"
    then obtain q where "(i, q) \<in> (edges T)\<^sup>*" and q: "(q, j) \<in> edges T"
      unfolding beneath_def by (meson tranclD2)
    then have "i = q \<or> beneath T i q" unfolding beneath_def by (auto simp: rtrancl_eq_or_trancl)
    moreover have "pn_parent n = q" "q \<noteq> []" using q j by (auto elim: edgeE)
    ultimately show "pn_parent n \<noteq> [] \<and> (pn_parent n = i \<or> beneath T i (pn_parent n))" by auto
  next
    assume "pn_parent n \<noteq> [] \<and> (pn_parent n = i \<or> beneath T i (pn_parent n))"
    then show "beneath T i j"
      using edgeI [of T j n] j unfolding beneath_def by (auto intro: trancl_into_trancl)
  qed
qed

lemma beneath_irrefl: "forest_ok T \<Longrightarrow> \<not> beneath T i i"
  using forest_acyclic by (auto simp: beneath_def acyclic_def)

lemma beneath_node: "beneath T i j \<Longrightarrow> \<exists>n. T j = Some n"
  unfolding beneath_def by (metis tranclD2 edgeE)

lemma beneath_none: "forest_ok T \<Longrightarrow> T i = None \<Longrightarrow> \<not> beneath T i j"
proof
  assume ok: "forest_ok T" and "T i = None" "beneath T i j"
  then obtain q where "(i, q) \<in> edges T" unfolding beneath_def by (meson tranclD)
  then obtain n where "T q = Some n" "pn_parent n = i" "i \<noteq> []" by (auto elim: edgeE)
  then show False using \<open>T i = None\<close> ok by (auto elim!: forest_parent)
qed

lemma beneath_folder:
  assumes "forest_ok T" "T i = Some n" "beneath T i j"
  shows "pn_kind n = Folder"
proof -
  obtain q where "(i, q) \<in> edges T" using assms(3) unfolding beneath_def by (meson tranclD)
  then obtain m where "T q = Some m" "pn_parent m = i" "i \<noteq> []" by (auto elim: edgeE)
  then obtain p where "T (pn_parent m) = Some p" "pn_kind p = Folder"
    using forest_parent [OF assms(1), of q m] by metis
  then show ?thesis using assms(2) \<open>pn_parent m = i\<close> by simp
qed

lemma forest_wf: "forest_ok T \<Longrightarrow> wf (edges T)"
proof (rule finite_acyclic_wf)
  assume ok: "forest_ok T"
  have "edges T \<subseteq> (\<lambda>i. (pn_parent (the (T i)), i)) ` dom T" by (auto simp: edges_def image_iff)
  moreover have "finite (dom T)" using ok by (simp add: forest_ok_def)
  ultimately show "finite (edges T)" by (metis finite_imageI finite_subset)
  show "acyclic (edges T)" by (rule forest_acyclic [OF ok])
qed

text \<open>Above every trashed node, itself included, is the head of its deletion.\<close>

lemma head_above:
  assumes ok: "forest_ok T" and "T i = Some n" "pn_operation n \<noteq> []"
  shows "\<exists>h m. T h = Some m \<and> pn_operation m = pn_operation n \<and> head_node T m \<and> (h = i \<or> beneath T h i)"
  using assms(2,3)
proof (induction i arbitrary: n rule: wf_induct_rule [OF forest_wf [OF ok]])
  case (1 i)
  show ?case
  proof (cases "head_node T n")
    case True
    then show ?thesis using 1 by blast
  next
    case False
    then obtain p where p: "pn_parent n \<noteq> []" "T (pn_parent n) = Some p" "pn_operation p = pn_operation n"
      by (auto simp: head_node_def)
    then obtain h m where h: "T h = Some m" "pn_operation m = pn_operation n" "head_node T m"
        "h = pn_parent n \<or> beneath T h (pn_parent n)"
      using "1.IH" [OF edgeI [where T = T and i = i, OF "1.prems"(1) p(1)] p(2)] "1.prems"(2) by auto
    moreover have "beneath T h i" using h(4) p(1) beneath_iff [where T = T and j = i, OF "1.prems"(1), of h] by auto
    ultimately show ?thesis by blast
  qed
qed

section \<open>A new node\<close>

definition good_parent :: "forest \<Rightarrow> string \<Rightarrow> bool" where
  "good_parent T p \<longleftrightarrow> p = [] \<or> (\<exists>n. T p = Some n \<and> pn_kind n = Folder \<and> live_node n)"

lemma edges_upd: "edges (T(i \<mapsto> n)) \<subseteq> insert (pn_parent n, i) (edges T)"
  by (auto simp: edges_def split: if_splits)

lemma acyclic_upd:
  assumes "acyclic (edges T)" "pn_parent n = [] \<or> pn_parent n \<noteq> i \<and> \<not> beneath T i (pn_parent n)"
  shows "acyclic (edges (T(i \<mapsto> n)))"
proof (cases "pn_parent n = []")
  case True
  then have "edges (T(i \<mapsto> n)) \<subseteq> edges T" by (auto simp: edges_def split: if_splits)
  then show ?thesis by (rule acyclic_subset [OF assms(1)])
next
  case False
  have "(i, pn_parent n) \<notin> (edges T)\<^sup>*"
    using assms(2) False unfolding rtrancl_eq_or_trancl beneath_def by blast
  then have "acyclic (insert (pn_parent n, i) (edges T))" using assms(1) by (simp only: acyclic_insert simp_thms)
  then show ?thesis by (rule acyclic_subset [OF _ edges_upd])
qed

text \<open>Changing a live node, or adding one, where it stays live.\<close>

lemma forest_put:
  assumes ok: "forest_ok T" and n: "live_node n" "pn_operation n = []" and p: "good_parent T (pn_parent n)"
    and cyc: "pn_parent n = [] \<or> pn_parent n \<noteq> i \<and> \<not> beneath T i (pn_parent n)"
    and old: "T i = None \<or> (\<exists>k. T i = Some k \<and> live_node k \<and> pn_kind k = pn_kind n)"
  shows "forest_ok (T(i \<mapsto> n))"
proof (rule forest_okI)
  show "finite (dom (T(i \<mapsto> n)))" using ok by (simp add: forest_ok_def)
  have par: "\<exists>q. (T(i \<mapsto> n)) (pn_parent k) = Some q \<and> pn_kind q = Folder \<and> (live_node k \<longrightarrow> live_node q)"
    if k: "T j = Some k" "pn_parent k \<noteq> []" for j k
  proof -
    obtain q where q: "T (pn_parent k) = Some q" "pn_kind q = Folder" "live_node k \<longrightarrow> live_node q"
      by (rule forest_parent [OF ok k])
    show ?thesis
    proof (cases "pn_parent k = i")
      case True
      then show ?thesis using q old n(1) by auto
    next
      case False
      then show ?thesis using q by auto
    qed
  qed
  show "parents_ok (T(i \<mapsto> n))"
    unfolding parents_ok_def
  proof (intro allI impI)
    fix j k assume j: "(T(i \<mapsto> n)) j = Some k" "pn_parent k \<noteq> []"
    show "\<exists>q. (T(i \<mapsto> n)) (pn_parent k) = Some q \<and> pn_kind q = Folder \<and> (live_node k \<longrightarrow> live_node q)"
    proof (cases "j = i")
      case True
      then show ?thesis using j p cyc by (auto simp: good_parent_def)
    next
      case False
      then show ?thesis using j par by auto
    qed
  qed
  show "acyclic (edges (T(i \<mapsto> n)))" by (rule acyclic_upd [OF forest_acyclic [OF ok] cyc])
  show "live_node k = (pn_operation k = [])" if "(T(i \<mapsto> n)) j = Some k" for j k
    using that n forest_live [OF ok] by (auto split: if_splits)
  have head: "head_node T k" if k: "head_node (T(i \<mapsto> n)) k" "pn_operation k \<noteq> []" for k
    unfolding head_node_def
  proof (rule disjCI, clarify)
    fix q assume "T (pn_parent k) = Some q" "pn_operation q = pn_operation k"
      and "pn_parent k \<noteq> []"
    then show False using k old forest_live [OF ok] by (fastforce simp: head_node_def split: if_splits)
  qed
  show "heads_ok (T(i \<mapsto> n))"
    unfolding heads_ok_def
  proof (intro allI impI)
    fix a b x y assume *: "(T(i \<mapsto> n)) a = Some x" "(T(i \<mapsto> n)) b = Some y"
      "head_node (T(i \<mapsto> n)) x" "head_node (T(i \<mapsto> n)) y" "pn_operation x = pn_operation y" "pn_operation x \<noteq> []"
    then have "T a = Some x" "T b = Some y" using n(2) by (auto split: if_splits)
    then show "a = b" using forest_head [OF ok] head * by metis
  qed
qed

section \<open>Deletion\<close>

definition trash_forest :: "forest \<Rightarrow> string \<Rightarrow> time \<Rightarrow> string \<Rightarrow> int \<Rightarrow> forest" where
  "trash_forest T i now operation revision = (\<lambda>j. case T j of None \<Rightarrow> None | Some k \<Rightarrow>
     Some (if (j = i \<or> beneath T i j) \<and> live_node k
           then k\<lparr>pn_deleted := now, pn_operation := operation, pn_revision := revision\<rparr> else k))"

lemma trash_forestE:
  assumes "trash_forest T i now operation revision j = Some k"
  obtains (trashed) k0 where "T j = Some k0" "j = i \<or> beneath T i j" "live_node k0"
      "k = k0\<lparr>pn_deleted := now, pn_operation := operation, pn_revision := revision\<rparr>"
    | (kept) "T j = Some k" "\<not> ((j = i \<or> beneath T i j) \<and> live_node k)"
proof (cases "T j")
  case None
  then show ?thesis using assms by (simp add: trash_forest_def)
next
  case (Some k0)
  show ?thesis
  proof (cases "(j = i \<or> beneath T i j) \<and> live_node k0")
    case True
    then have "k = k0\<lparr>pn_deleted := now, pn_operation := operation, pn_revision := revision\<rparr>"
      using assms Some unfolding trash_forest_def by simp
    then show ?thesis using True trashed [OF Some] by simp
  next
    case False
    then have "k = k0" using assms Some unfolding trash_forest_def by (simp only: option.case if_False option.inject)
    then show ?thesis using False Some kept by simp
  qed
qed

lemma trash_forest_parent:
  "trash_forest T i now operation revision j = Some k \<Longrightarrow> \<exists>k0. T j = Some k0 \<and> pn_parent k = pn_parent k0 \<and> pn_kind k = pn_kind k0"
  by (auto elim!: trash_forestE)

lemma trash_forest_Some:
  "T j = Some k0 \<Longrightarrow> trash_forest T i now operation revision j = Some (if (j = i \<or> beneath T i j) \<and> live_node k0
     then k0\<lparr>pn_deleted := now, pn_operation := operation, pn_revision := revision\<rparr> else k0)"
  by (simp add: trash_forest_def)

lemma edges_trash: "edges (trash_forest T i now operation revision) \<subseteq> edges T"
proof
  fix e assume "e \<in> edges (trash_forest T i now operation revision)"
  then obtain j k where e: "e = (pn_parent k, j)" "trash_forest T i now operation revision j = Some k" "pn_parent k \<noteq> []"
    by (auto simp: edges_def)
  then obtain k0 where "T j = Some k0" "pn_parent k = pn_parent k0" using trash_forest_parent by metis
  then show "e \<in> edges T" using e edgeI [of T j k0] by simp
qed

lemma forest_trash:
  assumes ok: "forest_ok T" and i: "T i = Some n" "live_node n" and now: "now \<noteq> 0" and fresh: "operation \<noteq> []"
    "\<And>j k. T j = Some k \<Longrightarrow> pn_operation k \<noteq> operation"
  shows "forest_ok (trash_forest T i now operation revision)" (is "forest_ok ?T")
proof (rule forest_okI)
  show "finite (dom ?T)"
    using ok by (simp add: forest_ok_def trash_forest_def dom_def split: option.splits)
  show "acyclic (edges ?T)" by (rule acyclic_subset [OF forest_acyclic [OF ok] edges_trash])
  show "live_node k = (pn_operation k = [])" if "?T j = Some k" for j k
    using that now fresh(1) forest_live [OF ok] by (auto elim!: trash_forestE simp: live_node_def)
  show "parents_ok ?T"
    unfolding parents_ok_def
  proof (intro allI impI)
    fix j k assume k: "?T j = Some k" "pn_parent k \<noteq> []"
    obtain k0 where k0: "T j = Some k0" "pn_parent k = pn_parent k0" using trash_forest_parent [OF k(1)] by metis
    obtain p where p: "T (pn_parent k) = Some p" "pn_kind p = Folder" "live_node k0 \<longrightarrow> live_node p"
      using forest_parent [OF ok, of j k0] k0 k(2) by metis
    have "\<not> (pn_parent k = i \<or> beneath T i (pn_parent k)) \<and> live_node p" if live: "live_node k"
      using k(1)
    proof (cases rule: trash_forestE)
      case trashed
      then show ?thesis using live now by (simp add: live_node_def)
    next
      case kept
      then have "k0 = k" using k0(1) by simp
      then show ?thesis using kept live p(3) beneath_iff [where T = T and j = j and i = i, OF kept(1)] k(2) by simp
    qed
    then show "\<exists>p. ?T (pn_parent k) = Some p \<and> pn_kind p = Folder \<and> (live_node k \<longrightarrow> live_node p)"
      using p(2) trash_forest_Some [where T = T, OF p(1)] by auto
  qed
  have old: "T j = Some k \<and> head_node T k" if k: "?T j = Some k" "head_node ?T k" "pn_operation k \<noteq> []" "pn_operation k \<noteq> operation" for j k
  proof -
    have j: "T j = Some k" using k by (auto elim!: trash_forestE)
    moreover have "head_node T k"
      unfolding head_node_def
    proof (intro disjCI allI impI)
      fix p assume "\<not> (\<forall>p. T (pn_parent k) = Some p \<longrightarrow> pn_operation p \<noteq> pn_operation k)"
      then obtain p where p: "T (pn_parent k) = Some p" "pn_operation p = pn_operation k" by auto
      then have "\<not> live_node p" using k(3) forest_live [OF ok p(1)] by simp
      then have "?T (pn_parent k) = Some p" using trash_forest_Some [where T = T, OF p(1)] by simp
      then show "pn_parent k = []" using k(2) p(2) by (auto simp: head_node_def)
    qed
    ultimately show ?thesis by simp
  qed
  have new: "j = i" if k: "?T j = Some k" "head_node ?T k" "pn_operation k = operation" for j k
  proof (rule ccontr)
    assume "j \<noteq> i"
    obtain k0 where k0: "T j = Some k0" "j = i \<or> beneath T i j" "live_node k0" "pn_parent k = pn_parent k0"
      using k(1)
    proof (cases rule: trash_forestE)
      case (trashed k0)
      have "pn_parent k = pn_parent k0" unfolding trashed(4) by simp
      then show ?thesis using that trashed by blast
    next
      case kept
      then show ?thesis using k(3) fresh(2) by blast
    qed
    then have b: "beneath T i j" using \<open>j \<noteq> i\<close> by simp
    have p: "pn_parent k \<noteq> []" "pn_parent k = i \<or> beneath T i (pn_parent k)"
      using b beneath_iff [where T = T and i = i, OF k0(1)] k0(4) by auto
    obtain q where q: "T (pn_parent k) = Some q" "live_node q"
      using forest_parent [OF ok k0(1)] k0(3,4) p(1) by metis
    show False using k(2,3) p q trash_forest_Some [where T = T, OF q(1)] by (auto simp: head_node_def)
  qed
  show "heads_ok ?T"
    unfolding heads_ok_def
  proof (intro allI impI)
    fix a b x y assume *: "?T a = Some x" "?T b = Some y" "head_node ?T x" "head_node ?T y"
      "pn_operation x = pn_operation y" "pn_operation x \<noteq> []"
    show "a = b"
    proof (cases "pn_operation x = operation")
      case True
      then show ?thesis using new * by metis
    next
      case False
      then show ?thesis using old [of a x] old [of b y] forest_head [OF ok] * by metis
    qed
  qed
qed

section \<open>Restoration\<close>

definition restore_forest :: "forest \<Rightarrow> string \<Rightarrow> personal_node \<Rightarrow> string \<Rightarrow> int \<Rightarrow> forest" where
  "restore_forest T i n operation revision = (\<lambda>j. if j = i then Some n else case T j of None \<Rightarrow> None | Some k \<Rightarrow>
     Some (if beneath T i j \<and> pn_operation k = operation
           then k\<lparr>pn_deleted := 0, pn_operation := [], pn_revision := revision\<rparr> else k))"

lemma restore_forestE:
  assumes "restore_forest T i n operation revision j = Some k"
  obtains (top) "j = i" "k = n"
    | (restored) k0 where "j \<noteq> i" "T j = Some k0" "beneath T i j" "pn_operation k0 = operation"
      "k = k0\<lparr>pn_deleted := 0, pn_operation := [], pn_revision := revision\<rparr>"
    | (kept) "j \<noteq> i" "T j = Some k" "\<not> (beneath T i j \<and> pn_operation k = operation)"
proof (cases "j = i")
  case True
  then show ?thesis using assms top unfolding restore_forest_def by simp
next
  case other: False
  show ?thesis
  proof (cases "T j")
    case None
    then show ?thesis using assms other by (simp add: restore_forest_def)
  next
    case (Some k0)
    show ?thesis
    proof (cases "beneath T i j \<and> pn_operation k0 = operation")
      case True
      then have "k = k0\<lparr>pn_deleted := 0, pn_operation := [], pn_revision := revision\<rparr>"
        using assms Some other unfolding restore_forest_def by simp
      then show ?thesis using True restored [OF other Some] by simp
    next
      case False
      then have "k = k0" using assms Some other unfolding restore_forest_def by (simp only: option.case if_False option.inject)
      then show ?thesis using False Some kept other by simp
    qed
  qed
qed

lemma restore_forest_Some:
  "j \<noteq> i \<Longrightarrow> T j = Some k0 \<Longrightarrow> restore_forest T i n operation revision j = Some (if beneath T i j \<and> pn_operation k0 = operation
     then k0\<lparr>pn_deleted := 0, pn_operation := [], pn_revision := revision\<rparr> else k0)"
  by (simp add: restore_forest_def)

lemma restore_forest_top: "restore_forest T i n operation revision i = Some n"
  by (simp add: restore_forest_def)

text \<open>The parent of a node that comes back with another one is trashed by the same operation.\<close>

lemma restored_parent:
  assumes ok: "forest_ok T" and i: "T i = Some n" "pn_operation n = operation" "operation \<noteq> []"
    and k: "T j = Some k" "beneath T i j" "pn_operation k = operation"
  shows "\<exists>p. pn_parent k \<noteq> [] \<and> T (pn_parent k) = Some p \<and> pn_operation p = operation \<and> (pn_parent k = i \<or> beneath T i (pn_parent k))"
proof -
  have nohead: "\<not> head_node T k"
  proof
    assume head: "head_node T k"
    obtain h m where h: "T h = Some m" "pn_operation m = pn_operation n" "head_node T m" "h = i \<or> beneath T h i"
      using head_above [OF ok i(1)] i by metis
    then have "h = j" using forest_head [OF ok h(1) k(1) h(3) head] i k by simp
    then have "beneath T j j" using h(4) k(2) unfolding beneath_def by (metis trancl_trans)
    then show False using beneath_irrefl [OF ok] by simp
  qed
  moreover have "pn_parent k = i \<or> beneath T i (pn_parent k)" using beneath_iff [where T = T and i = i, OF k(1)] k(2) by simp
  ultimately show ?thesis using k(3) by (auto simp: head_node_def)
qed

lemma forest_restore:
  assumes ok: "forest_ok T" and i: "T i = Some n0" "pn_operation n0 = operation" "operation \<noteq> []"
    and n: "live_node n" "pn_operation n = []" "pn_kind n = pn_kind n0" "pn_parent n = [] \<or> pn_parent n = pn_parent n0"
    and p: "good_parent T (pn_parent n)"
  shows "forest_ok (restore_forest T i n operation revision)" (is "forest_ok ?T")
proof (rule forest_okI)
  have "dom ?T \<subseteq> insert i (dom T)" by (auto simp: restore_forest_def split: option.splits if_splits)
  then show "finite (dom ?T)" using ok by (auto simp: forest_ok_def intro: finite_subset)
  have par: "\<exists>k0. T j = Some k0 \<and> (pn_parent k = pn_parent k0 \<or> pn_parent k = [])" if "?T j = Some k" for j k
    using that
  proof (cases rule: restore_forestE)
    case top
    then show ?thesis using i n(4) by auto
  next
    case (restored k0)
    have "pn_parent k = pn_parent k0" unfolding restored(5) by simp
    then show ?thesis using restored(2) by blast
  qed blast
  have sub: "edges ?T \<subseteq> edges T"
  proof
    fix e assume "e \<in> edges ?T"
    then obtain j k where e: "e = (pn_parent k, j)" "?T j = Some k" "pn_parent k \<noteq> []" by (auto simp: edges_def)
    then obtain k0 where "T j = Some k0" "pn_parent k = pn_parent k0" using par by metis
    then show "e \<in> edges T" using e edgeI [of T j k0] by simp
  qed
  show "acyclic (edges ?T)" by (rule acyclic_subset [OF forest_acyclic [OF ok] sub])
  show "live_node k = (pn_operation k = [])" if "?T j = Some k" for j k
    using that
  proof (cases rule: restore_forestE)
    case top
    then show ?thesis using n by simp
  next
    case (restored k0)
    have "pn_deleted k = 0" "pn_operation k = []" unfolding restored(5) by simp_all
    then show ?thesis by (simp add: live_node_def)
  next
    case kept
    then show ?thesis using forest_live [OF ok] by blast
  qed
  have up: "\<exists>q'. ?T q = Some q' \<and> pn_kind q' = pn_kind q0 \<and> (live_node q0 \<or> q = i \<or> beneath T i q \<and> pn_operation q0 = operation \<longrightarrow> live_node q')"
    if q: "T q = Some q0" for q q0
  proof (cases "q = i")
    case True
    then show ?thesis using i n q restore_forest_top by auto
  next
    case False
    then show ?thesis using restore_forest_Some [where T = T, OF False q, of n operation revision] by (auto simp: live_node_def)
  qed
  show "parents_ok ?T"
    unfolding parents_ok_def
  proof (intro allI impI)
    fix j k assume k: "?T j = Some k" "pn_parent k \<noteq> []"
    show "\<exists>p. ?T (pn_parent k) = Some p \<and> pn_kind p = Folder \<and> (live_node k \<longrightarrow> live_node p)"
      using k(1)
    proof (cases rule: restore_forestE)
      case top
      then obtain q where "T (pn_parent k) = Some q" "pn_kind q = Folder" "live_node q"
        using p k(2) by (auto simp: good_parent_def)
      then show ?thesis using up by metis
    next
      case (restored k0)
      have pk: "pn_parent k = pn_parent k0" unfolding restored(5) by simp
      obtain q where "T (pn_parent k) = Some q" "pn_operation q = operation" "pn_parent k = i \<or> beneath T i (pn_parent k)"
        using restored_parent [OF ok i restored(2,3,4)] pk by auto
      moreover have "pn_kind q = Folder"
        using forest_parent [OF ok restored(2)] k(2) pk calculation(1) by (metis option.inject)
      ultimately show ?thesis using up by metis
    next
      case kept
      obtain q where "T (pn_parent k) = Some q" "pn_kind q = Folder" "live_node k \<longrightarrow> live_node q"
        by (rule forest_parent [OF ok kept(2) k(2)])
      then show ?thesis using up by metis
    qed
  qed
  have heads: "T j = Some k \<and> head_node T k" if k: "?T j = Some k" "head_node ?T k" "pn_operation k \<noteq> []" for j k
    using k(1)
  proof (cases rule: restore_forestE)
    case top
    then show ?thesis using n k(3) by simp
  next
    case (restored k0)
    have "pn_operation k = []" unfolding restored(5) by simp
    then show ?thesis using k(3) by simp
  next
    case kept
    have "head_node T k"
      unfolding head_node_def
    proof (intro disjCI allI impI)
      fix q assume "\<not> (\<forall>p. T (pn_parent k) = Some p \<longrightarrow> pn_operation p \<noteq> pn_operation k)"
      then obtain q where q: "T (pn_parent k) = Some q" "pn_operation q = pn_operation k" by auto
      show "pn_parent k = []"
      proof (rule ccontr)
        assume np: "pn_parent k \<noteq> []"
        have "\<not> (pn_parent k = i \<or> beneath T i (pn_parent k) \<and> pn_operation q = operation)"
          using kept(3) q i beneath_iff [where T = T and i = i, OF kept(2)] np by auto
        then have "?T (pn_parent k) = Some q" using restore_forest_Some [where T = T, OF _ q(1)] by auto
        then show False using k(2) q(2) np by (auto simp: head_node_def)
      qed
    qed
    then show ?thesis using kept by simp
  qed
  show "heads_ok ?T"
    unfolding heads_ok_def
  proof (intro allI impI)
    fix a b x y assume *: "?T a = Some x" "?T b = Some y" "head_node ?T x" "head_node ?T y"
      "pn_operation x = pn_operation y" "pn_operation x \<noteq> []"
    then have "T a = Some x \<and> head_node T x" "T b = Some y \<and> head_node T y" using heads by metis+
    then show "a = b" using forest_head [OF ok] * by metis
  qed
qed

section \<open>Emptying the trash\<close>

definition forget_forest :: "forest \<Rightarrow> string set \<Rightarrow> forest" where
  "forget_forest T gone = T |` (- gone)"

lemma forest_forget:
  assumes ok: "forest_ok T" and dead: "\<And>j k. j \<in> gone \<Longrightarrow> T j = Some k \<Longrightarrow> \<not> live_node k"
    and closed: "\<And>j k. T j = Some k \<Longrightarrow> \<not> live_node k \<Longrightarrow> pn_parent k \<in> gone \<Longrightarrow> pn_parent k \<noteq> [] \<Longrightarrow> j \<in> gone"
  shows "forest_ok (forget_forest T gone)" (is "forest_ok ?T")
proof (rule forest_okI)
  have inT: "T j = Some k \<and> j \<notin> gone" if "?T j = Some k" for j k
    using that by (auto simp: forget_forest_def restrict_map_def split: if_splits)
  show "finite (dom ?T)" using ok by (simp add: forest_ok_def forget_forest_def)
  have "edges ?T \<subseteq> edges T" using inT by (fastforce simp: edges_def)
  then show "acyclic (edges ?T)" by (rule acyclic_subset [OF forest_acyclic [OF ok]])
  show "live_node k = (pn_operation k = [])" if "?T j = Some k" for j k
    using inT [OF that] forest_live [OF ok] by blast
  have par: "\<exists>p. ?T (pn_parent k) = Some p \<and> T (pn_parent k) = Some p \<and> pn_kind p = Folder \<and> (live_node k \<longrightarrow> live_node p)"
    if k: "?T j = Some k" "pn_parent k \<noteq> []" for j k
  proof -
    have j: "T j = Some k" "j \<notin> gone" using inT [OF k(1)] by auto
    obtain p where p: "T (pn_parent k) = Some p" "pn_kind p = Folder" "live_node k \<longrightarrow> live_node p"
      by (rule forest_parent [OF ok j(1) k(2)])
    have "pn_parent k \<notin> gone" using closed [OF j(1)] dead [OF _ p(1)] j(2) p(3) k(2) by blast
    then show ?thesis using p by (simp add: forget_forest_def)
  qed
  then show "parents_ok ?T" unfolding parents_ok_def by blast
  show "heads_ok ?T"
    unfolding heads_ok_def
  proof (intro allI impI)
    fix a b x y assume *: "?T a = Some x" "?T b = Some y" "head_node ?T x" "head_node ?T y"
      "pn_operation x = pn_operation y" "pn_operation x \<noteq> []"
    have "head_node T z" if "?T c = Some z" "head_node ?T z" for c z
      using par [OF that(1)] that(2) by (auto simp: head_node_def)
    then show "a = b" using forest_head [OF ok] inT * by metis
  qed
qed

end
