(* ===== verification/Personal_Tree.thy ===== *)
theory Personal_Tree
  imports Personal_Sync Personal_Forest "HOL-Library.Multiset"
begin

text \<open>
  The personal cloud of \<open>Personal_Sync\<close> performs the operations of \<open>Personal_Forest\<close>: its rows stay a sound
  forest per collection, with unique identifiers, unique names in every folder, revisions within the
  revision of the space and a receipt for every deletion.
\<close>

section \<open>The recursive queries\<close>

lemma node_in_row:
  assumes "node_in cl c i = Some n"
  shows "n \<in> set (cl_nodes cl)" "pn_collection n = c" "pn_id n = i"
  using assms by (auto simp: node_in_def dest: sel1_Some)

lemma node_in_mem:
  assumes "keyed pn_id (cl_nodes cl)" "n \<in> set (cl_nodes cl)"
  shows "node_in cl (pn_collection n) (pn_id n) = Some n"
proof (cases "node_in cl (pn_collection n) (pn_id n)")
  case None
  then show ?thesis using assms(2) by (auto simp: node_in_def sel1_None)
next
  case (Some k)
  then show ?thesis using keyed_eq [OF assms(1)] node_in_row [OF Some] assms(2) by metis
qed

lemma chain_sound: "x \<in> set (chain k cl c i) \<Longrightarrow> (\<exists>n. node_in cl c i = Some n) \<and> (x = i \<or> beneath (node_in cl c) x i)"
proof (induction k arbitrary: i)
  case 0
  then show ?case by simp
next
  case (Suc k)
  obtain n where n: "node_in cl c i = Some n" using Suc.prems by (cases "node_in cl c i") auto
  have "x = i \<or> pn_parent n \<noteq> [] \<and> x \<in> set (chain k cl c (pn_parent n))"
    using Suc.prems n by (auto split: if_splits)
  then show ?case using Suc.IH [of "pn_parent n"] beneath_iff [where T = "node_in cl c" and i = x, OF n] n by auto
qed

lemma chain_mono: "k \<le> l \<Longrightarrow> set (chain k cl c i) \<subseteq> set (chain l cl c i)"
proof (induction k arbitrary: l i)
  case 0
  then show ?case by simp
next
  case (Suc k)
  then obtain m where m: "l = Suc m" "k \<le> m" by (cases l) auto
  then show ?case using Suc.IH [OF m(2)] by (auto split: option.splits if_splits)
qed

lemma chain_complete:
  assumes ok: "forest_ok (node_in cl c)"
  shows "(x, i) \<in> edges (node_in cl c) ^^ k \<Longrightarrow> node_in cl c i = Some n \<Longrightarrow> x \<in> set (chain (Suc k) cl c i)"
proof (induction k arbitrary: i n)
  case 0
  then show ?case by simp
next
  case (Suc k)
  obtain q where q: "(x, q) \<in> edges (node_in cl c) ^^ k" "(q, i) \<in> edges (node_in cl c)" using Suc.prems(1) by auto
  have p: "pn_parent n = q" "q \<noteq> []" using q(2) Suc.prems(2) by (auto elim: edgeE)
  obtain m where "node_in cl c q = Some m" using forest_parent [OF ok Suc.prems(2)] p by metis
  then have "x \<in> set (chain (Suc k) cl c q)" by (rule Suc.IH [OF q(1)])
  then show ?case using Suc.prems(2) p by simp
qed

text \<open>There are at most as many edges as rows.\<close>

lemma edges_finite: "finite (edges (node_in cl c)) \<and> card (edges (node_in cl c)) \<le> length (cl_nodes cl)"
proof
  have sub: "edges (node_in cl c) \<subseteq> (\<lambda>n. (pn_parent n, pn_id n)) ` set (cl_nodes cl)"
    by (auto simp: edges_def image_iff dest: node_in_row)
  then show "finite (edges (node_in cl c))" by (rule finite_subset) simp
  have "card (edges (node_in cl c)) \<le> card ((\<lambda>n. (pn_parent n, pn_id n)) ` set (cl_nodes cl))" by (rule card_mono [OF _ sub]) simp
  also have "\<dots> \<le> card (set (cl_nodes cl))" by (rule card_image_le) simp
  also have "\<dots> \<le> length (cl_nodes cl)" by (rule card_length)
  finally show "card (edges (node_in cl c)) \<le> length (cl_nodes cl)" .
qed

lemma ancestors_iff:
  assumes ok: "forest_ok (node_in cl c)" and n: "node_in cl c i = Some n"
  shows "x \<in> set (ancestors cl c i) \<longleftrightarrow> x = i \<or> beneath (node_in cl c) x i"
proof
  assume "x \<in> set (ancestors cl c i)"
  then show "x = i \<or> beneath (node_in cl c) x i" unfolding ancestors_def by (blast dest: chain_sound)
next
  let ?R = "edges (node_in cl c)"
  assume "x = i \<or> beneath (node_in cl c) x i"
  then have x: "(x, i) \<in> ?R\<^sup>*" unfolding beneath_def by (auto simp: rtrancl_eq_or_trancl)
  have fin: "finite ?R" and card: "card ?R \<le> length (cl_nodes cl)" using edges_finite [of cl c] by simp_all
  obtain k where k: "k \<le> card ?R" "(x, i) \<in> ?R ^^ k" using x rtrancl_finite_eq_relpow [OF fin] by auto
  have "Suc k \<le> Suc (length (cl_nodes cl))" using k(1) card by linarith
  from chain_mono [OF this] have "set (chain (Suc k) cl c i) \<subseteq> set (ancestors cl c i)" unfolding ancestors_def .
  then show "x \<in> set (ancestors cl c i)" using chain_complete [OF ok k(2) n] by (rule subsetD)
qed

lemma ancestors_none: "node_in cl c i = None \<Longrightarrow> ancestors cl c i = []"
  by (simp add: ancestors_def)

lemma below_iff:
  assumes ok: "forest_ok (node_in cl c)" and n: "node_in cl c j = Some n"
  shows "below cl c i n \<longleftrightarrow> beneath (node_in cl c) i j"
proof (cases "pn_parent n = []")
  case True
  then show ?thesis using beneath_iff [where T = "node_in cl c" and i = i, OF n] by (simp add: below_def)
next
  case False
  obtain p where p: "node_in cl c (pn_parent n) = Some p" using forest_parent [OF ok n False] by metis
  have "i \<in> set (ancestors cl c (pn_parent n)) \<longleftrightarrow> i = pn_parent n \<or> beneath (node_in cl c) i (pn_parent n)"
    by (rule ancestors_iff [OF ok p])
  moreover have "beneath (node_in cl c) i j \<longleftrightarrow> pn_parent n = i \<or> beneath (node_in cl c) i (pn_parent n)"
    using beneath_iff [where T = "node_in cl c" and i = i, OF n] False by simp
  ultimately show ?thesis unfolding below_def using node_in_row(2) [OF n] False by blast
qed

lemma subtree_iff:
  assumes "keyed pn_id (cl_nodes cl)" "forest_ok (node_in cl c)"
  shows "n \<in> set (subtree cl c i P) \<longleftrightarrow> node_in cl c (pn_id n) = Some n \<and> beneath (node_in cl c) i (pn_id n) \<and> P n"
proof
  assume "n \<in> set (subtree cl c i P)"
  then have n: "n \<in> set (cl_nodes cl)" "below cl c i n" "P n" by (auto simp: subtree_def)
  then have "node_in cl c (pn_id n) = Some n" using node_in_mem [OF assms(1) n(1)] by (simp add: below_def)
  then show "node_in cl c (pn_id n) = Some n \<and> beneath (node_in cl c) i (pn_id n) \<and> P n"
    using n below_iff [OF assms(2)] by blast
next
  assume *: "node_in cl c (pn_id n) = Some n \<and> beneath (node_in cl c) i (pn_id n) \<and> P n"
  then show "n \<in> set (subtree cl c i P)"
    using below_iff [OF assms(2)] node_in_row(1) by (auto simp: subtree_def)
qed

lemma distinct_sort_rows: "distinct (map k xs) \<Longrightarrow> distinct (map k (sort_rows lt xs))"
proof -
  have *: "mset (insert_by lt x ys) = add_mset x (mset ys)" for x ys by (induction ys) auto
  have "mset (sort_rows lt xs) = mset xs" by (induction xs) (simp_all add: *)
  then have "mset (map k (sort_rows lt xs)) = mset (map k xs)" by simp
  then show "distinct (map k xs) \<Longrightarrow> distinct (map k (sort_rows lt xs))" by (metis mset_eq_imp_distinct_iff)
qed

lemma distinct_subtree: "keyed pn_id (cl_nodes cl) \<Longrightarrow> distinct (map pn_id (subtree cl c i P))"
  unfolding subtree_def by (rule distinct_sort_rows) (simp add: keyed_def distinct_map_filter)

section \<open>Toggling and writing\<close>

definition toggle :: "time \<Rightarrow> personal_mutation \<Rightarrow> personal_node \<Rightarrow> personal_node" where
  "toggle now m n = (if pm_type m = Delete then n\<lparr>pn_deleted := now, pn_operation := pm_operation m\<rparr>
     else if pm_type m = Restore then n\<lparr>pn_deleted := 0, pn_operation := []\<rparr> else n)"

text \<open>Everything but the assets is as before; the assets only get leases.\<close>

definition leased :: "cloud \<Rightarrow> cloud \<Rightarrow> bool" where
  "leased cl cl' \<longleftrightarrow> (\<exists>st. cl' = cl\<lparr>cl_store := st\<rparr>
     \<and> map (\<lambda>r. r\<lparr>ar_download_until := 0\<rparr>) (st_assets st) = map (\<lambda>r. r\<lparr>ar_download_until := 0\<rparr>) (st_assets (cl_store cl)))"

lemma leased_refl [simp]: "leased cl cl"
  unfolding leased_def by (rule exI [of _ "cl_store cl"]) simp

lemma leased_trans: "leased a b \<Longrightarrow> leased b c \<Longrightarrow> leased a c"
  unfolding leased_def by fastforce

lemma leased_lease [simp]: "leased cl (download_lease P now cl)"
proof -
  have "map (\<lambda>r. r\<lparr>ar_download_until := 0\<rparr>) (upd_where P (\<lambda>r. r\<lparr>ar_download_until := max (ar_download_until r) (now + 10 * minute)\<rparr>) t)
      = map (\<lambda>r. r\<lparr>ar_download_until := 0\<rparr>) t" for t by (induction t) auto
  then show ?thesis unfolding leased_def download_lease_def UPDATE_assets_def by auto
qed

lemma leased_fields:
  assumes "leased cl cl'"
  shows "cl_nodes cl' = cl_nodes cl" "cl_spaces cl' = cl_spaces cl" "cl_changes cl' = cl_changes cl"
    "cl_receipts cl' = cl_receipts cl" "cl_quotas cl' = cl_quotas cl" "cl_grants cl' = cl_grants cl"
    "cl_quota_audit cl' = cl_quota_audit cl"
  using assms by (auto simp: leased_def)

lemma toggled_Ok: "toggled now m n cl = Inr (n', cl') \<Longrightarrow> n' = toggle now m n \<and> leased cl cl'"
  unfolding toggled_def toggle_def by (auto split: if_splits)

lemma toggle_all_Ok: "toggle_all now m ns cl = Inr (ns', cl') \<Longrightarrow> ns' = map (toggle now m) ns \<and> leased cl cl'"
proof (induction ns arbitrary: ns' cl)
  case Nil
  then show ?case by simp
next
  case (Cons n ns)
  then obtain n1 cl1 ns1 where "toggled now m n cl = Inr (n1, cl1)" "toggle_all now m ns cl1 = Inr (ns1, cl')" "ns' = n1 # ns1"
    by (auto split: prod.splits)
  then show ?case using Cons.IH [of cl1 ns1] toggled_Ok [of now m n cl n1 cl1] leased_trans by auto
qed

definition written :: "string \<Rightarrow> int \<Rightarrow> personal_node list \<Rightarrow> personal_node \<Rightarrow> personal_node" where
  "written c revision ns k = (case find (\<lambda>n. pn_id n = pn_id k) ns of
     Some n \<Rightarrow> if pn_collection k = c then n\<lparr>pn_revision := revision\<rparr> else k
   | None \<Rightarrow> k)"

definition change_of :: "string \<Rightarrow> int \<Rightarrow> personal_node \<Rightarrow> personal_change" where
  "change_of c revision n = \<lparr>pc_collection = c, pc_revision = revision, pc_item = pn_id n, pc_snapshot = snapshot (n\<lparr>pn_revision := revision\<rparr>)\<rparr>"

lemma write_node_update:
  "write_node False c n cl = Inr cl' \<Longrightarrow> cl' = cl\<lparr>cl_nodes := upd_where (\<lambda>k. pn_id k = pn_id n \<and> pn_collection k = c) (\<lambda>k. n) (cl_nodes cl)\<rparr>"
  by (auto simp: write_node_def Let_def split: if_splits)

lemma INSERT_change_Ok: "INSERT_change c revision (n\<lparr>pn_revision := revision\<rparr>) cl = Inr cl' \<Longrightarrow>
    cl' = cl\<lparr>cl_changes := cl_changes cl @ [change_of c revision n]\<rparr>"
  by (auto simp: INSERT_change_def change_of_def split: if_splits)

lemma written_step:
  assumes "pn_collection n = c" "pn_id n \<notin> pn_id ` set ns"
  shows "map (written c revision ns) (upd_where (\<lambda>k. pn_id k = pn_id n \<and> pn_collection k = c) (\<lambda>k. n\<lparr>pn_revision := revision\<rparr>) t)
       = map (written c revision (n # ns)) t"
proof -
  have "find (\<lambda>k. pn_id k = pn_id n) ns = None" using assms(2) by (auto simp: find_None_iff image_iff)
  then show ?thesis using assms(1)
    by (induction t) (auto simp: written_def split: option.splits)
qed

lemma write_all_update:
  assumes "write_all False c revision ns cl = Inr cl'" "distinct (map pn_id ns)" "\<forall>n\<in>set ns. pn_collection n = c"
  shows "cl' = cl\<lparr>cl_nodes := map (written c revision ns) (cl_nodes cl),
                  cl_changes := cl_changes cl @ map (change_of c revision) ns\<rparr>"
  using assms
proof (induction ns arbitrary: cl)
  case Nil
  then show ?case by (simp add: written_def)
next
  case (Cons n ns)
  obtain cl1 cl2 where 1: "write_node False c (n\<lparr>pn_revision := revision\<rparr>) cl = Inr cl1"
      and 2: "INSERT_change c revision (n\<lparr>pn_revision := revision\<rparr>) cl1 = Inr cl2"
      and 3: "write_all False c revision ns cl2 = Inr cl'"
    using Cons.prems(1) by auto
  have "cl' = cl2\<lparr>cl_nodes := map (written c revision ns) (cl_nodes cl2), cl_changes := cl_changes cl2 @ map (change_of c revision) ns\<rparr>"
    using Cons.IH [OF 3] Cons.prems by auto
  then show ?case
    using INSERT_change_Ok [OF 2] write_node_update [OF 1] written_step [of n c ns revision "cl_nodes cl"] Cons.prems by simp
qed

section \<open>Rows\<close>

definition rows_ok :: "cloud \<Rightarrow> bool" where
  "rows_ok cl \<longleftrightarrow> keyed pn_id (cl_nodes cl) \<and> (\<forall>n\<in>set (cl_nodes cl). node_check n)
     \<and> (\<forall>a\<in>set (cl_nodes cl). \<forall>b\<in>set (cl_nodes cl). pn_id a \<noteq> pn_id b \<longrightarrow> \<not> node_clash a b)"

lemma node_clash_sym: "node_clash a b = node_clash b a"
  by (auto simp: node_clash_def)

lemma write_node_rows:
  assumes "write_node creating c n cl = Inr cl'" "rows_ok cl" "pn_collection n = c"
  shows "rows_ok cl'"
proof (cases creating)
  case True
  then have "node_check n" "\<forall>s\<in>set (cl_nodes cl). \<not> (pn_id n = pn_id s \<or> node_clash n s)"
      "cl_nodes cl' = cl_nodes cl @ [n]"
    using assms(1) by (auto simp: write_node_def map_error_Ok)
  then show ?thesis using assms(2) node_clash_sym by (auto simp: rows_ok_def)
next
  case False
  let ?mine = "\<lambda>k. pn_id k = pn_id n \<and> pn_collection k = c"
  let ?t = "upd_where ?mine (\<lambda>k. n) (cl_nodes cl)"
  have "write_node False c n cl = Inr cl'" using assms(1) False by simp
  from write_node_update [OF this] have cl': "cl_nodes cl' = ?t" by simp
  have ok: "(\<exists>k\<in>set (cl_nodes cl). ?mine k) \<Longrightarrow> node_check n \<and> (\<forall>k\<in>set (cl_nodes cl). ?mine k \<or> \<not> node_clash n k)"
    using assms(1) False by (auto simp: write_node_def Let_def split: if_splits)
  have "map pn_id ?t = map pn_id (cl_nodes cl)" by (simp add: upd_where_def)
  then have key: "keyed pn_id ?t" using assms(2) by (simp add: rows_ok_def keyed_def)
  have mem: "(a = n \<and> (\<exists>k\<in>set (cl_nodes cl). ?mine k)) \<or> (a \<in> set (cl_nodes cl) \<and> \<not> ?mine a)" if "a \<in> set ?t" for a
    using that by (auto simp: set_upd_where)
  have "node_check a" if "a \<in> set ?t" for a
    using mem [OF that] ok assms(2) by (auto simp: rows_ok_def)
  moreover have "\<not> node_clash a b" if "a \<in> set ?t" "b \<in> set ?t" "pn_id a \<noteq> pn_id b" for a b
    using mem [OF that(1)] mem [OF that(2)] ok assms(2) that(3) node_clash_sym unfolding rows_ok_def by metis
  ultimately show ?thesis using key cl' by (simp add: rows_ok_def)
qed

lemma write_all_rows:
  "write_all creating c revision ns cl = Inr cl' \<Longrightarrow> rows_ok cl \<Longrightarrow> \<forall>n\<in>set ns. pn_collection n = c \<Longrightarrow> rows_ok cl'"
proof (induction ns arbitrary: cl)
  case Nil
  then show ?case by simp
next
  case (Cons n ns)
  obtain cl1 cl2 where 1: "write_node creating c (n\<lparr>pn_revision := revision\<rparr>) cl = Inr cl1"
      and 2: "INSERT_change c revision (n\<lparr>pn_revision := revision\<rparr>) cl1 = Inr cl2"
      and 3: "write_all creating c revision ns cl2 = Inr cl'"
    using Cons.prems(1) by auto
  have "rows_ok cl1" by (rule write_node_rows [OF 1 Cons.prems(2)]) (use Cons.prems(3) in simp)
  then have "rows_ok cl2" using INSERT_change_Ok [OF 2] by (simp add: rows_ok_def)
  then show ?case using Cons.IH [OF 3] Cons.prems(3) by simp
qed

lemma written_key:
  assumes "\<forall>n\<in>set ns. pn_collection n = c"
  shows "pn_id (written c revision ns k) = pn_id k" "pn_collection (written c revision ns k) = pn_collection k"
  using assms by (auto simp: written_def find_Some_iff split: option.splits)

lemma node_in_map:
  assumes "\<And>k. pn_id (f k) = pn_id k" "\<And>k. pn_collection (f k) = pn_collection k" "cl_nodes cl' = map f (cl_nodes cl)"
  shows "node_in cl' c i = map_option f (node_in cl c i)"
proof -
  have "sel1 (\<lambda>n. pn_collection n = c \<and> pn_id n = i) (map f t) = map_option f (sel1 (\<lambda>n. pn_collection n = c \<and> pn_id n = i) t)" for t
    by (induction t) (simp_all add: assms(1,2))
  then show ?thesis by (simp add: node_in_def assms(3))
qed

section \<open>The parts of a mutation\<close>

lemma perform_mutationE:
  assumes "perform_mutation nfc owner s m now cl = Inr (x, cl')"
  obtains n0 n1 cl1 ns ns' cl2 cl3 where
    "starting_node nfc cl (sr_id s) m = Inr n0"
    "revised nfc cl owner (sr_id s) now m (pm_type m) n0 = Inr (n1, cl1)"
    "personalParent cl1 (sr_id s) (pn_parent (settled_parent cl1 (sr_id s) (pm_type m) n1)) = Inr ()"
    "affected_nodes cl1 (sr_id s) (sr_revision s) m (settled_parent cl1 (sr_id s) (pm_type m) n1) = Inr ns"
    "toggle_all now m ns cl1 = Inr (ns', cl2)"
    "write_all (creates (pm_type m)) (sr_id s) (sr_revision s + 1) ns' (set_revision (sr_id s) (sr_revision s + 1) now cl2) = Inr cl3"
    "x = \<lparr>mr_item = pn_id (settled_parent cl1 (sr_id s) (pm_type m) n1), mr_node_revision = sr_revision s + 1,
          mr_collection_revision = sr_revision s + 1\<rparr>"
    "cl' = INSERT_receipt owner (pm_operation m) (ForMutation m) (OfMutation x) cl3"
  using assms that unfolding perform_mutation_def Let_def
  by (auto split: prod.splits)

lemma attach_content_Ok:
  assumes "attach_content cl owner c now m n = Inr (n', cl')"
  shows "pn_kind n = File \<and> (\<exists>a. n' = n\<lparr>pn_asset := a\<rparr>) \<and> leased cl cl'"
  using assms unfolding attach_content_def Let_def
  by (auto split: if_splits option.splits)

lemma revised_Ok:
  assumes "revised nfc cl owner c now m t n = Inr (n', cl')"
  shows "leased cl cl' \<and> pn_id n' = pn_id n \<and> pn_collection n' = pn_collection n \<and> pn_kind n' = pn_kind n
     \<and> pn_deleted n' = pn_deleted n \<and> pn_operation n' = pn_operation n \<and> pn_purged n' = pn_purged n
     \<and> (if t = Move then pn_parent n' = pm_parent m \<and> pn_id n \<notin> set (ancestors cl c (pm_parent m)) else pn_parent n' = pn_parent n)
     \<and> (t = Delete \<longrightarrow> n' = n)"
  using assms by (cases t) (auto dest: attach_content_Ok split: if_splits)

lemma settled_parent_fields:
  "pn_id (settled_parent cl c t n) = pn_id n" "pn_collection (settled_parent cl c t n) = pn_collection n"
  "pn_kind (settled_parent cl c t n) = pn_kind n" "pn_deleted (settled_parent cl c t n) = pn_deleted n"
  "pn_operation (settled_parent cl c t n) = pn_operation n" "pn_asset (settled_parent cl c t n) = pn_asset n"
  "pn_purged (settled_parent cl c t n) = pn_purged n"
  by (auto simp: settled_parent_def split: option.splits)

lemma settled_parent_other: "t \<noteq> Restore \<Longrightarrow> settled_parent cl c t n = n"
  by (simp add: settled_parent_def)

lemma settled_parent_parent: "pn_parent (settled_parent cl c t n) = [] \<or> pn_parent (settled_parent cl c t n) = pn_parent n"
  by (auto simp: settled_parent_def split: option.splits)

lemma personalParent_good: "personalParent cl c p = Inr () \<longleftrightarrow> good_parent (node_in cl c) p"
  by (auto simp: personalParent_def good_parent_def split: option.splits if_splits)

lemma leased_node_in: "leased cl cl' \<Longrightarrow> node_in cl' = node_in cl"
  by (intro ext) (simp add: node_in_def leased_fields)

lemma toggle_fields [simp]:
  "pn_id (toggle now m n) = pn_id n" "pn_collection (toggle now m n) = pn_collection n" "pn_purged (toggle now m n) = pn_purged n"
  by (simp_all add: toggle_def)

lemma find_unique:
  assumes "distinct (map k xs)" "x \<in> set xs"
  shows "find (\<lambda>y. k y = k x) xs = Some x"
  using assms by (induction xs) (auto simp: rev_image_eqI)

lemma written_member:
  assumes "distinct (map pn_id ns)" "n \<in> set ns" "pn_id k = pn_id n" "pn_collection k = c"
  shows "written c revision ns k = n\<lparr>pn_revision := revision\<rparr>"
  using find_unique [OF assms(1,2)] assms(3,4) by (simp add: written_def)

lemma written_other: "pn_id k \<notin> pn_id ` set ns \<or> pn_collection k \<noteq> c \<Longrightarrow> written c revision ns k = k"
proof -
  assume *: "pn_id k \<notin> pn_id ` set ns \<or> pn_collection k \<noteq> c"
  show ?thesis
  proof (cases "pn_collection k = c")
    case True
    then have "find (\<lambda>n. pn_id n = pn_id k) ns = None" using * by (auto simp: find_None_iff image_iff)
    then show ?thesis by (simp add: written_def)
  next
    case False
    then show ?thesis by (simp add: written_def split: option.split)
  qed
qed

lemma written_rows:
  assumes ns: "distinct (map pn_id ns)"
  shows "k \<in> set t \<Longrightarrow> pn_collection k = c \<Longrightarrow> l \<in> set ns \<Longrightarrow> pn_id k = pn_id l
      \<Longrightarrow> written c revision (map (toggle now m) ns) k = (toggle now m l)\<lparr>pn_revision := revision\<rparr>"
    and "written c revision (map (toggle now m) ns) k = k \<or> pn_collection k = c \<and> (\<exists>l\<in>set ns. pn_id k = pn_id l
      \<and> written c revision (map (toggle now m) ns) k = (toggle now m l)\<lparr>pn_revision := revision\<rparr>)"
proof -
  have dist: "distinct (map pn_id (map (toggle now m) ns))" using ns by (simp add: comp_def)
  have *: "written c revision (map (toggle now m) ns) k = (toggle now m l)\<lparr>pn_revision := revision\<rparr>"
    if "pn_collection k = c" "l \<in> set ns" "pn_id k = pn_id l" for k l
    by (rule written_member [OF dist]) (use that in auto)
  then show "k \<in> set t \<Longrightarrow> pn_collection k = c \<Longrightarrow> l \<in> set ns \<Longrightarrow> pn_id k = pn_id l
      \<Longrightarrow> written c revision (map (toggle now m) ns) k = (toggle now m l)\<lparr>pn_revision := revision\<rparr>" by blast
  show "written c revision (map (toggle now m) ns) k = k \<or> pn_collection k = c \<and> (\<exists>l\<in>set ns. pn_id k = pn_id l
      \<and> written c revision (map (toggle now m) ns) k = (toggle now m l)\<lparr>pn_revision := revision\<rparr>)"
  proof (cases "pn_collection k = c \<and> pn_id k \<in> pn_id ` set ns")
    case True
    then show ?thesis using * by blast
  next
    case False
    then have "written c revision (map (toggle now m) ns) k = k" by (intro written_other) (auto simp: image_image)
    then show ?thesis by blast
  qed
qed

text \<open>What an update leaves of the rows, as a forest.\<close>

lemma node_in_written:
  assumes "\<forall>n\<in>set ns. pn_collection n = c" "cl_nodes cl' = map (written c revision ns) (cl_nodes cl)"
  shows "node_in cl' e i = map_option (written c revision ns) (node_in cl e i)"
  by (rule node_in_map [OF _ _ assms(2)]) (use written_key [OF assms(1)] in auto)

lemma affected_nodes_Ok:
  assumes "affected_nodes cl c revision m n = Inr ns" "keyed pn_id (cl_nodes cl)" "forest_ok (node_in cl c)"
    and n: "node_in cl c (pn_id n) = Some n0" "pn_kind n0 = pn_kind n"
  obtains xs where "ns = n # xs" "distinct (map pn_id ns)"
    "\<And>k. k \<in> set xs \<longleftrightarrow> (pm_type m = Delete \<or> pm_type m = Restore) \<and> node_in cl c (pn_id k) = Some k
       \<and> beneath (node_in cl c) (pn_id n) (pn_id k) \<and> reaches (pm_type m) n k"
proof (cases "(pm_type m = Delete \<or> pm_type m = Restore) \<and> pn_kind n = Folder")
  case True
  let ?xs = "subtree cl c (pn_id n) (reaches (pm_type m) n)"
  have ns: "ns = n # ?xs" using assms(1) True by (auto simp: affected_nodes_def split: if_splits)
  have mem: "k \<in> set ?xs \<longleftrightarrow> node_in cl c (pn_id k) = Some k \<and> beneath (node_in cl c) (pn_id n) (pn_id k) \<and> reaches (pm_type m) n k" for k
    by (rule subtree_iff [OF assms(2,3)])
  have "pn_id n \<notin> pn_id ` set ?xs" using mem beneath_irrefl [OF assms(3)] by auto
  then have "distinct (map pn_id ns)" using ns distinct_subtree [OF assms(2)] by simp
  then show ?thesis using that [OF ns] mem True by blast
next
  case False
  then have ns: "ns = [n]" using assms(1) by (auto simp: affected_nodes_def split: if_splits)
  have "\<not> beneath (node_in cl c) (pn_id n) j" if "pm_type m = Delete \<or> pm_type m = Restore" for j
    using beneath_folder [OF assms(3) n(1), of j] n(2) False that by metis
  then show ?thesis using that [of "[]"] ns by auto
qed

definition changed_forest :: "forest \<Rightarrow> time \<Rightarrow> personal_mutation \<Rightarrow> personal_node \<Rightarrow> int \<Rightarrow> forest" where
  "changed_forest T now m n revision =
     (if pm_type m = Delete then trash_forest T (pn_id n) now (pm_operation m) revision
      else if pm_type m = Restore
      then restore_forest T (pn_id n) (n\<lparr>pn_deleted := 0, pn_operation := [], pn_revision := revision\<rparr>) (pn_operation n) revision
      else T(pn_id n \<mapsto> n\<lparr>pn_revision := revision\<rparr>))"

text \<open>The rows after a mutation of an existing node are the abstract change of the forest.\<close>

lemma rows_changed:
  assumes ok: "keyed pn_id (cl_nodes cl)" "forest_ok (node_in cl c)"
    and n: "node_in cl c (pn_id n) = Some n0" "pn_kind n0 = pn_kind n" "pn_collection n = c"
      "pn_deleted n = pn_deleted n0" "pn_operation n = pn_operation n0" "pm_type m = Delete \<Longrightarrow> n = n0"
      "live_node n0 \<longleftrightarrow> pm_type m \<noteq> Restore"
    and ns: "affected_nodes cl c revision0 m n = Inr ns"
    and cl': "cl_nodes cl' = map (written c revision (map (toggle now m) ns)) (cl_nodes cl)"
  shows "node_in cl' c = changed_forest (node_in cl c) now m n revision" "e \<noteq> c \<Longrightarrow> node_in cl' e = node_in cl e"
proof -
  let ?T = "node_in cl c" and ?W = "written c revision (map (toggle now m) ns)"
  obtain xs where xs: "ns = n # xs" "distinct (map pn_id ns)"
      "\<And>k. k \<in> set xs \<longleftrightarrow> (pm_type m = Delete \<or> pm_type m = Restore) \<and> ?T (pn_id k) = Some k
         \<and> beneath ?T (pn_id n) (pn_id k) \<and> reaches (pm_type m) n k"
    by (rule affected_nodes_Ok [OF ns ok n(1,2)]) blast
  have coll: "\<forall>k\<in>set (map (toggle now m) ns). pn_collection k = c"
    using xs(1,3) n(3) node_in_row(2) by auto
  have dist: "distinct (map pn_id (map (toggle now m) ns))"
    using xs(2) by (simp add: comp_def)
  have new: "node_in cl' e j = map_option ?W (node_in cl e j)" for e j
    by (rule node_in_written [OF coll cl'])
  show "node_in cl' e = node_in cl e" if "e \<noteq> c"
  proof
    fix j
    show "node_in cl' e j = node_in cl e j"
      unfolding new using that node_in_row(2) [of cl e j] written_other [of _ _ c revision] by (cases "node_in cl e j") auto
  qed
  have top: "?W n0 = (toggle now m n)\<lparr>pn_revision := revision\<rparr>"
    by (rule written_member [OF dist]) (use xs(1) node_in_row [OF n(1)] in auto)
  have rest: "?W k = (if k \<in> set xs then (toggle now m k)\<lparr>pn_revision := revision\<rparr> else k)"
    if k: "?T j = Some k" "j \<noteq> pn_id n" for j k
  proof (cases "k \<in> set xs")
    case True
    have "?W k = (toggle now m k)\<lparr>pn_revision := revision\<rparr>"
      by (rule written_member [OF dist]) (use xs(1) True node_in_row [OF k(1)] in auto)
    then show ?thesis using True by simp
  next
    case False
    have "pn_id k \<notin> pn_id ` set (map (toggle now m) ns)"
    proof
      assume "pn_id k \<in> pn_id ` set (map (toggle now m) ns)"
      then obtain l where "l \<in> set ns" "pn_id l = pn_id k" by auto
      then have "l \<in> set xs" using xs(1) k(2) node_in_row(3) [OF k(1)] by auto
      then have "?T (pn_id l) = Some l" using xs(3) by blast
      then have "?T j = Some l" unfolding \<open>pn_id l = pn_id k\<close> node_in_row(3) [OF k(1)] .
      then have "l = k" using k(1) by (simp only: option.inject)
      then show False using False \<open>l \<in> set xs\<close> by simp
    qed
    then show ?thesis using False written_other by simp
  qed
  show "node_in cl' c = changed_forest ?T now m n revision"
  proof
    fix j
    show "node_in cl' c j = changed_forest ?T now m n revision j"
    proof (cases "?T j")
      case None
      then have "j \<noteq> pn_id n" using n(1) by auto
      then show ?thesis using None by (simp add: new changed_forest_def trash_forest_def restore_forest_def)
    next
      case (Some k)
      have id: "pn_id k = j" by (rule node_in_row(3) [OF Some])
      show ?thesis
      proof (cases "j = pn_id n")
        case True
        then have "k = n0" using n(1) Some by simp
        then have here: "node_in cl' c j = Some ((toggle now m n)\<lparr>pn_revision := revision\<rparr>)"
          unfolding new Some option.map top [symmetric] by simp
        consider "pm_type m = Delete" | "pm_type m = Restore" | "pm_type m \<noteq> Delete" "pm_type m \<noteq> Restore" by blast
        then show ?thesis
        proof cases
          case 1
          then have "n = n0" "live_node k" using n(6,7) \<open>k = n0\<close> by simp_all
          then show ?thesis using True 1 here trash_forest_Some [where T = ?T, OF Some] \<open>k = n0\<close>
            by (simp add: changed_forest_def toggle_def)
        next
          case 2
          then show ?thesis using True here by (simp add: changed_forest_def toggle_def restore_forest_top)
        next
          case 3
          then show ?thesis using True here by (simp add: changed_forest_def toggle_def)
        qed
      next
        case False
        have here: "node_in cl' c j = Some (if k \<in> set xs then (toggle now m k)\<lparr>pn_revision := revision\<rparr> else k)"
          unfolding new Some option.map rest [OF Some False] ..
        consider "pm_type m = Delete" | "pm_type m = Restore" | "pm_type m \<noteq> Delete" "pm_type m \<noteq> Restore" by blast
        then show ?thesis
        proof cases
          case 1
          then have "k \<in> set xs \<longleftrightarrow> beneath ?T (pn_id n) j \<and> live_node k"
            using xs(3) [of k] id Some by (simp add: reaches_def)
          then show ?thesis using False 1 here trash_forest_Some [where T = ?T, OF Some]
            by (simp add: changed_forest_def toggle_def)
        next
          case 2
          then have "pn_operation n \<noteq> []" using n(5,7) forest_live [OF ok(2) n(1)] by simp
          then have "k \<in> set xs \<longleftrightarrow> beneath ?T (pn_id n) j \<and> pn_operation k = pn_operation n"
            using xs(3) [of k] id Some 2 by (simp add: reaches_def)
          then show ?thesis using 2 here restore_forest_Some [where T = ?T, OF False Some]
            by (simp add: changed_forest_def toggle_def)
        next
          case 3
          then have "k \<notin> set xs" using xs(3) [of k] by blast
          then show ?thesis using 3 False here Some by (simp add: changed_forest_def)
        qed
      qed
    qed
  qed
qed

section \<open>The invariant\<close>

definition node_in_space :: "cloud \<Rightarrow> personal_node \<Rightarrow> space_row \<Rightarrow> bool" where
  "node_in_space cl n s \<longleftrightarrow> sr_id s = pn_collection n \<and> 0 < pn_revision n \<and> pn_revision n \<le> sr_revision s
     \<and> (pn_operation n \<noteq> [] \<longrightarrow> receipt_of cl (sr_owner s) (pn_operation n) \<noteq> None)"

definition cloud_ok :: "cloud \<Rightarrow> bool" where
  "cloud_ok cl \<longleftrightarrow> rows_ok cl \<and> keyed sr_id (cl_spaces cl) \<and> keyed sr_owner (cl_spaces cl)
     \<and> (\<forall>s\<in>set (cl_spaces cl). 0 < sr_revision s)
     \<and> (\<forall>c. forest_ok (node_in cl c)) \<and> (\<forall>n\<in>set (cl_nodes cl). \<exists>s\<in>set (cl_spaces cl). node_in_space cl n s)"

lemma starting_existing:
  assumes "starting_node nfc cl c m = Inr n0" "\<not> creates (pm_type m)"
  shows "node_in cl c (pn_id n0) = Some n0 \<and> (live_node n0 \<longleftrightarrow> pm_type m \<noteq> Restore) \<and> pn_revision n0 = pm_expected m"
  using assms by (auto simp: starting_node_def node_in_row split: option.splits if_splits)

lemma changed_forest_ok:
  assumes ok: "forest_ok T"
    and n0: "T (pn_id n) = Some n0" "live_node n0 \<longleftrightarrow> pm_type m \<noteq> Restore"
    and n: "pn_kind n = pn_kind n0" "pn_deleted n = pn_deleted n0" "pn_operation n = pn_operation n0"
      "pm_type m = Restore \<longrightarrow> pn_parent n = [] \<or> pn_parent n = pn_parent n0"
    and p: "good_parent T (pn_parent n)"
    and cyc: "pm_type m \<noteq> Restore \<Longrightarrow> pn_parent n = [] \<or> pn_parent n \<noteq> pn_id n \<and> \<not> beneath T (pn_id n) (pn_parent n)"
    and now: "now \<noteq> 0" and fresh: "pm_operation m \<noteq> []" "\<And>j k. T j = Some k \<Longrightarrow> pn_operation k \<noteq> pm_operation m"
  shows "forest_ok (changed_forest T now m n revision)"
proof -
  have live: "live_node n \<longleftrightarrow> live_node n0" using n(2) by (simp add: live_node_def)
  consider "pm_type m = Delete" | "pm_type m = Restore" | "pm_type m \<noteq> Delete" "pm_type m \<noteq> Restore" by blast
  then show ?thesis
  proof cases
    case 1
    then have "forest_ok (trash_forest T (pn_id n) now (pm_operation m) revision)"
      using forest_trash [OF ok n0(1) _ now fresh] n0(2) by simp
    then show ?thesis using 1 by (simp add: changed_forest_def)
  next
    case 2
    then have "pn_operation n0 \<noteq> []" using n0 forest_live [OF ok n0(1)] by simp
    then have "forest_ok (restore_forest T (pn_id n) (n\<lparr>pn_deleted := 0, pn_operation := [], pn_revision := revision\<rparr>) (pn_operation n) revision)"
      using 2 n p by (intro forest_restore [OF ok n0(1)]) (simp_all add: live_node_def)
    then show ?thesis using 2 by (simp add: changed_forest_def)
  next
    case 3
    then have "live_node n0" using n0(2) by simp
    then have "live_node n" "pn_operation n = []" using live n(3) forest_live [OF ok n0(1)] by simp_all
    then have "forest_ok (T(pn_id n \<mapsto> n\<lparr>pn_revision := revision\<rparr>))"
      using n0 n(1) p cyc [OF 3(2)] \<open>live_node n0\<close>
      by (intro forest_put [OF ok]) (simp_all add: live_node_def)
    then show ?thesis using 3 by (simp add: changed_forest_def)
  qed
qed

lemma cyc_move:
  assumes ok: "forest_ok (node_in cl c)" and n0: "node_in cl c i = Some n0"
    and p: "good_parent (node_in cl c) p" and out: "i \<notin> set (ancestors cl c p)"
  shows "p = [] \<or> p \<noteq> i \<and> \<not> beneath (node_in cl c) i p"
  using p out ancestors_iff [OF ok, of p _ i] by (auto simp: good_parent_def)

lemma cyc_stay:
  assumes ok: "forest_ok T" and n0: "T i = Some n0"
  shows "pn_parent n0 = [] \<or> pn_parent n0 \<noteq> i \<and> \<not> beneath T i (pn_parent n0)"
  using beneath_irrefl [OF ok, of i] beneath_iff [where T = T and i = i, OF n0] by auto

lemma write_new:
  assumes "write_all True c revision [n] cl = Inr cl'"
  shows "cl' = cl\<lparr>cl_nodes := cl_nodes cl @ [n\<lparr>pn_revision := revision\<rparr>], cl_changes := cl_changes cl @ [change_of c revision n]\<rparr>
     \<and> (\<forall>k\<in>set (cl_nodes cl). pn_id k \<noteq> pn_id n)"
proof -
  obtain cl1 where 1: "write_node True c (n\<lparr>pn_revision := revision\<rparr>) cl = Inr cl1"
      and 2: "INSERT_change c revision (n\<lparr>pn_revision := revision\<rparr>) cl1 = Inr cl'"
    using assms by auto
  have "cl1 = cl\<lparr>cl_nodes := cl_nodes cl @ [n\<lparr>pn_revision := revision\<rparr>]\<rparr> \<and> (\<forall>k\<in>set (cl_nodes cl). pn_id k \<noteq> pn_id n)"
    using 1 by (auto simp: write_node_def map_error_Ok)
  then show ?thesis using INSERT_change_Ok [OF 2] by auto
qed

text \<open>What a mutation does: the node it is about, and the changed rows and log.\<close>

lemma mutation_written:
  assumes run: "perform_mutation nfc owner s m now cl = Inr (x, cl')"
    and ok: "keyed pn_id (cl_nodes cl)" "forest_ok (node_in cl (sr_id s))"
  obtains n ns st where
    "mr_item x = pn_id n" "pn_collection n = sr_id s" "good_parent (node_in cl (sr_id s)) (pn_parent n)"
    "cl' = cl\<lparr>cl_store := st, cl_nodes := (if creates (pm_type m) then cl_nodes cl @ [n\<lparr>pn_revision := sr_revision s + 1\<rparr>]
         else map (written (sr_id s) (sr_revision s + 1) (map (toggle now m) ns)) (cl_nodes cl)),
       cl_changes := cl_changes cl @ map (change_of (sr_id s) (sr_revision s + 1)) (map (toggle now m) ns),
       cl_spaces := cl_spaces (set_revision (sr_id s) (sr_revision s + 1) now cl),
       cl_receipts := cl_receipts cl @ [\<lparr>rr_owner = owner, rr_operation = pm_operation m, rr_request = ForMutation m, rr_response = OfMutation x\<rparr>]\<rparr>"
    "leased cl (cl\<lparr>cl_store := st\<rparr>)" "\<forall>k\<in>set ns. pn_collection k = sr_id s"
    "distinct (map pn_id ns)" "n \<in> set ns"
    "creates (pm_type m) \<Longrightarrow> ns = [n] \<and> live_node n \<and> pn_operation n = [] \<and> pn_id n = pm_item m \<and> (\<forall>k\<in>set (cl_nodes cl). pn_id k \<noteq> pn_id n)"
    "\<not> creates (pm_type m) \<Longrightarrow> affected_nodes cl (sr_id s) (sr_revision s) m n = Inr ns \<and> (\<exists>n0. node_in cl (sr_id s) (pn_id n) = Some n0
       \<and> (live_node n0 \<longleftrightarrow> pm_type m \<noteq> Restore) \<and> pn_kind n = pn_kind n0 \<and> pn_deleted n = pn_deleted n0 \<and> pn_operation n = pn_operation n0
       \<and> (pm_type m = Delete \<longrightarrow> n = n0) \<and> (pm_type m = Restore \<longrightarrow> pn_parent n = [] \<or> pn_parent n = pn_parent n0)
       \<and> (pm_type m \<noteq> Restore \<longrightarrow> pn_parent n = [] \<or> pn_parent n \<noteq> pn_id n \<and> \<not> beneath (node_in cl (sr_id s)) (pn_id n) (pn_parent n)))"
    "rows_ok cl \<Longrightarrow> rows_ok cl'"
    "\<exists>n0 n1 cl1. starting_node nfc cl (sr_id s) m = Inr n0 \<and> revised nfc cl owner (sr_id s) now m (pm_type m) n0 = Inr (n1, cl1)
       \<and> pn_asset n = pn_asset n1 \<and> pn_kind n = pn_kind n0 \<and> pn_deleted n = pn_deleted n0 \<and> pn_id n = pn_id n0 \<and> pn_purged n = pn_purged n0"
    "\<exists>cl1 cl2. toggle_all now m ns cl1 = Inr (map (toggle now m) ns, cl2)"
proof -
  let ?c = "sr_id s" and ?rev = "sr_revision s + 1"
  obtain n0 n1 cl1 ns ns' cl2 cl3 where r:
    "starting_node nfc cl ?c m = Inr n0"
    "revised nfc cl owner ?c now m (pm_type m) n0 = Inr (n1, cl1)"
    "personalParent cl1 ?c (pn_parent (settled_parent cl1 ?c (pm_type m) n1)) = Inr ()"
    "affected_nodes cl1 ?c (sr_revision s) m (settled_parent cl1 ?c (pm_type m) n1) = Inr ns"
    "toggle_all now m ns cl1 = Inr (ns', cl2)"
    "write_all (creates (pm_type m)) ?c ?rev ns' (set_revision ?c ?rev now cl2) = Inr cl3"
    "x = \<lparr>mr_item = pn_id (settled_parent cl1 ?c (pm_type m) n1), mr_node_revision = ?rev, mr_collection_revision = ?rev\<rparr>"
    "cl' = INSERT_receipt owner (pm_operation m) (ForMutation m) (OfMutation x) cl3"
    by (rule perform_mutationE [OF run])
  define n where "n = settled_parent cl1 ?c (pm_type m) n1"
  have rev: "leased cl cl1" "pn_id n1 = pn_id n0" "pn_collection n1 = pn_collection n0" "pn_kind n1 = pn_kind n0"
      "pn_deleted n1 = pn_deleted n0" "pn_operation n1 = pn_operation n0"
      "if pm_type m = Move then pn_parent n1 = pm_parent m \<and> pn_id n0 \<notin> set (ancestors cl ?c (pm_parent m)) else pn_parent n1 = pn_parent n0"
      "pm_type m = Delete \<longrightarrow> n1 = n0" "pn_purged n1 = pn_purged n0"
    using revised_Ok [OF r(2)] by simp_all
  have n: "pn_id n = pn_id n0" "pn_collection n = pn_collection n0" "pn_kind n = pn_kind n0"
      "pn_deleted n = pn_deleted n0" "pn_operation n = pn_operation n0"
    unfolding n_def by (simp_all add: settled_parent_fields rev)
  have tog: "ns' = map (toggle now m) ns" "leased cl1 cl2" using toggle_all_Ok [OF r(5)] by simp_all
  have lease: "leased cl cl2" by (rule leased_trans [OF rev(1) tog(2)])
  then obtain st where st: "cl2 = cl\<lparr>cl_store := st\<rparr>" unfolding leased_def by blast
  have same: "node_in cl1 = node_in cl" "cl_nodes cl1 = cl_nodes cl"
    using leased_node_in [OF rev(1)] leased_fields [OF rev(1)] by simp_all
  have same_nodes: "affected_nodes cl1 ?c rv m n = affected_nodes cl ?c rv m n" for rv
  proof -
    have "chain k cl1 e i = chain k cl e i" for k e i
      by (induction k arbitrary: i) (simp_all add: same(1) split: option.split)
    then show ?thesis by (simp add: affected_nodes_def subtree_def below_def ancestors_def same(2))
  qed
  have aff: "affected_nodes cl ?c (sr_revision s) m n = Inr ns" using r(4) same_nodes by (simp add: n_def)
  have par: "good_parent (node_in cl ?c) (pn_parent n)" using r(3) by (simp add: personalParent_good same(1) n_def)
  have collection: "pn_collection n0 = ?c"
    using r(1) by (auto simp: starting_node_def new_node_def node_in_row split: if_splits option.splits)
  have made: "\<exists>n0 n1 cl1. starting_node nfc cl ?c m = Inr n0 \<and> revised nfc cl owner ?c now m (pm_type m) n0 = Inr (n1, cl1)
       \<and> pn_asset n = pn_asset n1 \<and> pn_kind n = pn_kind n0 \<and> pn_deleted n = pn_deleted n0 \<and> pn_id n = pn_id n0 \<and> pn_purged n = pn_purged n0"
    using r(1,2) n(1,3,4) rev(9) by (auto simp: n_def settled_parent_fields)
  have toggles: "\<exists>cl1 cl2. toggle_all now m ns cl1 = Inr (map (toggle now m) ns, cl2)" using r(5) tog(1) by blast
  show ?thesis
  proof (cases "creates (pm_type m)")
    case True
    then have t: "pm_type m \<noteq> Delete" "pm_type m \<noteq> Restore" by (auto simp: creates_def)
    have ns: "ns = [n]" using aff t by (simp add: affected_nodes_def)
    have tg: "toggle now m n = n" using t by (simp add: toggle_def)
    have n0: "n0 = new_node nfc ?c m" using r(1) True by (simp add: starting_node_def)
    have w: "write_all True ?c ?rev [n] (set_revision ?c ?rev now cl2) = Inr cl3" using r(6) True tog(1) ns tg by simp
    have rows: "rows_ok cl'" if "rows_ok cl"
    proof -
      have "rows_ok (set_revision ?c ?rev now cl2)" using that st by (simp add: rows_ok_def set_revision_def)
      then have "rows_ok cl3" by (rule write_all_rows [OF w]) (simp add: n(2) collection)
      then show ?thesis using r(8) by (simp add: rows_ok_def INSERT_receipt_def)
    qed
    show ?thesis
    proof (rule that [of n ns st])
      show "cl' = cl\<lparr>cl_store := st, cl_nodes := (if creates (pm_type m) then cl_nodes cl @ [n\<lparr>pn_revision := ?rev\<rparr>]
           else map (written ?c ?rev (map (toggle now m) ns)) (cl_nodes cl)),
         cl_changes := cl_changes cl @ map (change_of ?c ?rev) (map (toggle now m) ns),
         cl_spaces := cl_spaces (set_revision ?c ?rev now cl),
         cl_receipts := cl_receipts cl @ [\<lparr>rr_owner = owner, rr_operation = pm_operation m, rr_request = ForMutation m, rr_response = OfMutation x\<rparr>]\<rparr>"
        using write_new [OF w] True st r(8) ns tg by (simp add: INSERT_receipt_def set_revision_def)
      show "creates (pm_type m) \<Longrightarrow> ns = [n] \<and> live_node n \<and> pn_operation n = [] \<and> pn_id n = pm_item m \<and> (\<forall>k\<in>set (cl_nodes cl). pn_id k \<noteq> pn_id n)"
        using ns n n0 write_new [OF w] st by (simp add: new_node_def live_node_def set_revision_def)
    qed (fact made toggles | use r(7) n_def n collection par lease st ns rows True in simp)+
  next
    case False
    have ex: "node_in cl ?c (pn_id n0) = Some n0" "live_node n0 \<longleftrightarrow> pm_type m \<noteq> Restore"
      using starting_existing [OF r(1) False] by simp_all
    obtain xs where xs: "ns = n # xs" "distinct (map pn_id ns)"
      "\<And>k. k \<in> set xs \<longleftrightarrow> (pm_type m = Delete \<or> pm_type m = Restore) \<and> node_in cl ?c (pn_id k) = Some k
         \<and> beneath (node_in cl ?c) (pn_id n) (pn_id k) \<and> reaches (pm_type m) n k"
      using affected_nodes_Ok [OF aff ok] ex(1) n by metis
    have coll: "\<forall>k\<in>set ns. pn_collection k = ?c" using xs(1,3) n(2) collection node_in_row(2) by auto
    have w: "write_all False ?c ?rev (map (toggle now m) ns) (set_revision ?c ?rev now cl2) = Inr cl3" using r(6) False tog(1) by simp
    have dist: "distinct (map pn_id (map (toggle now m) ns))" using xs(2) by (simp add: comp_def)
    have coll': "\<forall>k\<in>set (map (toggle now m) ns). pn_collection k = ?c" using coll by simp
    have rows: "rows_ok cl'" if "rows_ok cl"
    proof -
      have "rows_ok (set_revision ?c ?rev now cl2)" using that st by (simp add: rows_ok_def set_revision_def)
      then have "rows_ok cl3" by (rule write_all_rows [OF w _ coll'])
      then show ?thesis using r(8) by (simp add: rows_ok_def INSERT_receipt_def)
    qed
    have stay: "pn_parent n = [] \<or> pn_parent n \<noteq> pn_id n \<and> \<not> beneath (node_in cl ?c) (pn_id n) (pn_parent n)"
      if "pm_type m \<noteq> Restore"
    proof (cases "pm_type m = Move")
      case True
      then have "pn_parent n = pm_parent m" "pn_id n0 \<notin> set (ancestors cl ?c (pm_parent m))"
        using rev(7) settled_parent_other [of "pm_type m"] by (simp_all add: n_def)
      then show ?thesis using cyc_move [OF ok(2) ex(1)] par n(1) by simp
    next
      case False
      then have "pn_parent n = pn_parent n0" using rev(7) settled_parent_other [OF that] by (simp add: n_def)
      then show ?thesis using cyc_stay [OF ok(2) ex(1)] n(1) by simp
    qed
    show ?thesis
    proof (rule that [of n ns st])
      show "cl' = cl\<lparr>cl_store := st, cl_nodes := (if creates (pm_type m) then cl_nodes cl @ [n\<lparr>pn_revision := ?rev\<rparr>]
           else map (written ?c ?rev (map (toggle now m) ns)) (cl_nodes cl)),
         cl_changes := cl_changes cl @ map (change_of ?c ?rev) (map (toggle now m) ns),
         cl_spaces := cl_spaces (set_revision ?c ?rev now cl),
         cl_receipts := cl_receipts cl @ [\<lparr>rr_owner = owner, rr_operation = pm_operation m, rr_request = ForMutation m, rr_response = OfMutation x\<rparr>]\<rparr>"
        using write_all_update [OF w dist coll'] False st r(8) by (simp add: INSERT_receipt_def set_revision_def)
      have rest: "pm_type m = Restore \<longrightarrow> pn_parent n = [] \<or> pn_parent n = pn_parent n0"
        using rev(7) settled_parent_parent [of cl1 ?c "pm_type m" n1] by (auto simp: n_def)
      have del: "pm_type m = Delete \<longrightarrow> n = n0" using rev(8) settled_parent_other [of "pm_type m"] by (auto simp: n_def)
      show "affected_nodes cl ?c (sr_revision s) m n = Inr ns \<and> (\<exists>n0. node_in cl ?c (pn_id n) = Some n0
         \<and> (live_node n0 \<longleftrightarrow> pm_type m \<noteq> Restore) \<and> pn_kind n = pn_kind n0 \<and> pn_deleted n = pn_deleted n0 \<and> pn_operation n = pn_operation n0
         \<and> (pm_type m = Delete \<longrightarrow> n = n0) \<and> (pm_type m = Restore \<longrightarrow> pn_parent n = [] \<or> pn_parent n = pn_parent n0)
         \<and> (pm_type m \<noteq> Restore \<longrightarrow> pn_parent n = [] \<or> pn_parent n \<noteq> pn_id n \<and> \<not> beneath (node_in cl ?c) (pn_id n) (pn_parent n)))"
        using aff ex n rest del stay by (intro conjI exI [of _ n0]) auto
      show "mr_item x = pn_id n" using r(7) by (simp add: n_def)
      show "pn_collection n = ?c" using n(2) collection by simp
      show "leased cl (cl\<lparr>cl_store := st\<rparr>)" using lease st by simp
      show "n \<in> set ns" by (simp add: xs(1))
    qed (fact par coll xs(2) rows made toggles | simp add: False)+
  qed
qed

section \<open>A mutation keeps the invariant\<close>

lemma set_revision_spaces:
  assumes "keyed sr_id (cl_spaces cl)" "s \<in> set (cl_spaces cl)" "s0 \<in> set (cl_spaces cl)"
  shows "\<exists>s1\<in>set (cl_spaces (set_revision (sr_id s) (sr_revision s + 1) now cl)).
    sr_id s1 = sr_id s0 \<and> sr_owner s1 = sr_owner s0 \<and> sr_revision s0 \<le> sr_revision s1
    \<and> (sr_id s0 = sr_id s \<longrightarrow> sr_revision s1 = sr_revision s + 1)"
proof -
  let ?f = "\<lambda>r. if sr_id r = sr_id s then r\<lparr>sr_revision := sr_revision s + 1, sr_updated := now\<rparr> else r"
  have "?f s0 \<in> set (cl_spaces (set_revision (sr_id s) (sr_revision s + 1) now cl))"
    using assms(3) by (auto simp: set_revision_def set_upd_where)
  moreover have "sr_id s0 = sr_id s \<Longrightarrow> s0 = s" using keyed_eq [OF assms(1,3,2)] .
  ultimately show ?thesis by (intro bexI [of _ "?f s0"]) auto
qed

lemma set_revision_keyed:
  "keyed sr_id (cl_spaces (set_revision c r now cl)) = keyed sr_id (cl_spaces cl)"
  "keyed sr_owner (cl_spaces (set_revision c r now cl)) = keyed sr_owner (cl_spaces cl)"
  by (simp_all add: set_revision_def keyed_upd_where)

lemma set_revision_pos:
  "\<forall>s\<in>set (cl_spaces cl). 0 < sr_revision s \<Longrightarrow> 0 < r \<Longrightarrow> \<forall>s\<in>set (cl_spaces (set_revision c r now cl)). 0 < sr_revision s"
  by (auto simp: set_revision_def set_upd_where)

text \<open>Rows that were not changed stay within their spaces.\<close>

lemma node_in_space_keep:
  assumes "node_in_space cl n s0" "s0 \<in> set (cl_spaces cl)" "keyed sr_id (cl_spaces cl)" "s \<in> set (cl_spaces cl)"
    "cl_spaces cl' = cl_spaces (set_revision (sr_id s) (sr_revision s + 1) now cl)"
    "cl_receipts cl' = cl_receipts cl @ rs"
  shows "\<exists>s1\<in>set (cl_spaces cl'). node_in_space cl' n s1"
proof -
  obtain s1 where s1: "s1 \<in> set (cl_spaces cl')" "sr_id s1 = sr_id s0" "sr_owner s1 = sr_owner s0" "sr_revision s0 \<le> sr_revision s1"
    using set_revision_spaces [OF assms(3,4,2), of now] assms(5) by auto
  have "receipt_of cl' w i \<noteq> None" if "receipt_of cl w i \<noteq> None" for w i
    using that by (auto simp: receipt_of_def assms(6) sel1_append split: option.split)
  then have "node_in_space cl' n s1" using assms(1) s1 by (auto simp: node_in_space_def)
  then show ?thesis using s1(1) by blast
qed

lemma toggle_operation: "pn_operation (toggle now m k) \<noteq> [] \<Longrightarrow>
    pn_operation (toggle now m k) = pm_operation m \<or> pm_type m \<noteq> Delete \<and> pm_type m \<noteq> Restore \<and> pn_operation (toggle now m k) = pn_operation k"
  by (auto simp: toggle_def split: if_splits)

lemma cloud_ok_forest: "cloud_ok cl \<Longrightarrow> forest_ok (node_in cl c)"
  by (simp add: cloud_ok_def)

lemma cloud_ok_rows: "cloud_ok cl \<Longrightarrow> rows_ok cl" and cloud_ok_key: "cloud_ok cl \<Longrightarrow> keyed pn_id (cl_nodes cl)"
  and cloud_ok_spaces: "cloud_ok cl \<Longrightarrow> keyed sr_id (cl_spaces cl)"
  and cloud_ok_owners: "cloud_ok cl \<Longrightarrow> keyed sr_owner (cl_spaces cl)"
  by (simp_all add: cloud_ok_def rows_ok_def)

lemma cloud_ok_node: "cloud_ok cl \<Longrightarrow> n \<in> set (cl_nodes cl) \<Longrightarrow> \<exists>s\<in>set (cl_spaces cl). node_in_space cl n s"
  by (simp add: cloud_ok_def)

text \<open>A new operation has not deleted anything.\<close>

lemma fresh_operation:
  assumes ok: "cloud_ok cl" and s: "s \<in> set (cl_spaces cl)" and fresh: "receipt_of cl (sr_owner s) op = None" "op \<noteq> []"
    and k: "node_in cl (sr_id s) j = Some k"
  shows "pn_operation k \<noteq> op"
proof
  assume op: "pn_operation k = op"
  have row: "k \<in> set (cl_nodes cl)" "pn_collection k = sr_id s" using node_in_row [OF k] by auto
  obtain s0 where s0: "s0 \<in> set (cl_spaces cl)" "node_in_space cl k s0" using cloud_ok_node [OF ok row(1)] by blast
  then have "sr_id s0 = sr_id s" "receipt_of cl (sr_owner s0) op \<noteq> None"
    using row(2) op fresh(2) by (auto simp: node_in_space_def)
  then have "s0 = s" using keyed_eq [OF cloud_ok_spaces [OF ok] s0(1) s] by simp
  then show False using \<open>receipt_of cl (sr_owner s0) op \<noteq> None\<close> fresh(1) by simp
qed

lemma mutation_forest:
  assumes run: "perform_mutation nfc owner s m now cl = Inr (x, cl')"
    and ok: "keyed pn_id (cl_nodes cl)" "forest_ok (node_in cl (sr_id s))"
    and now: "now \<noteq> 0" and fresh: "pm_operation m \<noteq> []" "\<And>j k. node_in cl (sr_id s) j = Some k \<Longrightarrow> pn_operation k \<noteq> pm_operation m"
  shows "forest_ok (node_in cl' (sr_id s)) \<and> (\<forall>e. e \<noteq> sr_id s \<longrightarrow> node_in cl' e = node_in cl e)"
  using run ok
proof (cases rule: mutation_written)
  case (1 n ns st)
  let ?c = "sr_id s" and ?rev = "sr_revision s + 1"
  show ?thesis
  proof (cases "creates (pm_type m)")
    case True
    have id: "\<forall>k\<in>set (cl_nodes cl). pn_id k \<noteq> pn_id n" "live_node n" "pn_operation n = []" using 1(9) [OF True] by blast+
    have nodes: "cl_nodes cl' = cl_nodes cl @ [n\<lparr>pn_revision := ?rev\<rparr>]" using 1(4) True by simp
    have at: "node_in cl' e i = (if e = ?c \<and> i = pn_id n then Some (n\<lparr>pn_revision := ?rev\<rparr>) else node_in cl e i)" for e i
    proof (cases "node_in cl e i")
      case None
      then show ?thesis using 1(2) by (auto simp: node_in_def nodes sel1_append)
    next
      case (Some k)
      then have "i \<noteq> pn_id n" using id(1) node_in_row [OF Some] by blast
      then show ?thesis using Some by (simp add: node_in_def nodes sel1_append)
    qed
    have none: "node_in cl ?c (pn_id n) = None" using id(1) by (auto simp: node_in_def sel1_None)
    have "node_in cl' ?c = (node_in cl ?c)(pn_id n \<mapsto> n\<lparr>pn_revision := ?rev\<rparr>)" by (rule ext) (simp add: at)
    moreover have "forest_ok ((node_in cl ?c)(pn_id n \<mapsto> n\<lparr>pn_revision := ?rev\<rparr>))"
    proof (rule forest_put [OF ok(2)])
      show "pn_parent (n\<lparr>pn_revision := ?rev\<rparr>) = [] \<or> pn_parent (n\<lparr>pn_revision := ?rev\<rparr>) \<noteq> pn_id n
          \<and> \<not> beneath (node_in cl ?c) (pn_id n) (pn_parent (n\<lparr>pn_revision := ?rev\<rparr>))"
        using 1(3) none beneath_none [OF ok(2) none] by (auto simp: good_parent_def)
    qed (use id 1(3) none in \<open>simp_all add: live_node_def\<close>)
    ultimately show ?thesis using at by auto
  next
    case False
    obtain n0 where n0: "node_in cl ?c (pn_id n) = Some n0" "live_node n0 \<longleftrightarrow> pm_type m \<noteq> Restore"
        "pn_kind n = pn_kind n0" "pn_deleted n = pn_deleted n0" "pn_operation n = pn_operation n0"
        "pm_type m = Delete \<longrightarrow> n = n0" "pm_type m = Restore \<longrightarrow> pn_parent n = [] \<or> pn_parent n = pn_parent n0"
        "pm_type m \<noteq> Restore \<longrightarrow> pn_parent n = [] \<or> pn_parent n \<noteq> pn_id n \<and> \<not> beneath (node_in cl ?c) (pn_id n) (pn_parent n)"
      using 1(10) False by blast
    have aff: "affected_nodes cl ?c (sr_revision s) m n = Inr ns" using 1(10) False by blast
    have nodes: "cl_nodes cl' = map (written ?c ?rev (map (toggle now m) ns)) (cl_nodes cl)" using 1(4) False by simp
    have "node_in cl' ?c = changed_forest (node_in cl ?c) now m n ?rev"
      by (rule rows_changed(1) [OF ok n0(1) n0(3) [symmetric] 1(2) n0(4,5) _ n0(2) aff nodes]) (use n0(6) in simp)
    moreover have "forest_ok (changed_forest (node_in cl ?c) now m n ?rev)"
      by (rule changed_forest_ok [OF ok(2) n0(1,2,3,4,5,7) 1(3) _ now fresh]) (use n0(8) in simp)
    moreover have "node_in cl' e = node_in cl e" if "e \<noteq> ?c" for e
      by (rule rows_changed(2) [OF ok n0(1) n0(3) [symmetric] 1(2) n0(4,5) _ n0(2) aff nodes that]) (use n0(6) in simp)
    ultimately show ?thesis by simp
  qed
qed

lemma mutation_cloud_ok:
  assumes run: "perform_mutation nfc owner s m now cl = Inr (x, cl')" and ok: "cloud_ok cl"
    and s: "s \<in> set (cl_spaces cl)" "sr_owner s = owner" and fresh: "receipt_of cl owner (pm_operation m) = None" "pm_operation m \<noteq> []"
    and now: "now \<noteq> 0"
  shows "cloud_ok cl'"
  using run cloud_ok_key [OF ok] cloud_ok_forest [OF ok]
proof (cases rule: mutation_written)
  case (1 n ns st)
  let ?c = "sr_id s" and ?rev = "sr_revision s + 1"
  have frs: "pn_operation k \<noteq> pm_operation m" if "node_in cl ?c j = Some k" for j k
    by (rule fresh_operation [OF ok s(1) _ fresh(2) that]) (use fresh(1) s(2) in simp)
  have forest: "forest_ok (node_in cl' ?c)" "\<forall>e. e \<noteq> ?c \<longrightarrow> node_in cl' e = node_in cl e"
    using mutation_forest [OF run cloud_ok_key [OF ok] cloud_ok_forest [OF ok] now fresh(2)] frs by blast+
  have spaces: "cl_spaces cl' = cl_spaces (set_revision ?c ?rev now cl)" using 1(4) by simp
  have rcpt: "cl_receipts cl' = cl_receipts cl @ [\<lparr>rr_owner = owner, rr_operation = pm_operation m, rr_request = ForMutation m, rr_response = OfMutation x\<rparr>]"
    using 1(4) by simp
  have pos: "0 < sr_revision s" using ok s(1) by (simp add: cloud_ok_def)
  obtain s1 where s1: "s1 \<in> set (cl_spaces cl')" "sr_id s1 = ?c" "sr_owner s1 = owner" "sr_revision s1 = ?rev"
    using set_revision_spaces [OF cloud_ok_spaces [OF ok] s(1) s(1), of now] s(2) spaces by auto
  have new: "\<exists>s\<in>set (cl_spaces cl'). node_in_space cl' k s"
    if "pn_collection k = ?c" "pn_revision k = ?rev" "pn_operation k \<noteq> [] \<Longrightarrow> pn_operation k = pm_operation m" for k
  proof -
    have "receipt_of cl' owner (pm_operation m) \<noteq> None"
      by (simp add: receipt_of_def rcpt sel1_append split: option.split)
    then have "node_in_space cl' k s1" using that s1 pos by (auto simp: node_in_space_def)
    then show ?thesis using s1(1) by blast
  qed
  have old: "\<exists>s\<in>set (cl_spaces cl'). node_in_space cl' k s" if kin: "k \<in> set (cl_nodes cl)" for k
  proof -
    obtain s0 where "s0 \<in> set (cl_spaces cl)" "node_in_space cl k s0" using cloud_ok_node [OF ok kin] by blast
    then show ?thesis by (intro node_in_space_keep [OF _ _ cloud_ok_spaces [OF ok] s(1) spaces rcpt])
  qed
  have "\<exists>s\<in>set (cl_spaces cl'). node_in_space cl' k s" if k: "k \<in> set (cl_nodes cl')" for k
  proof (cases "creates (pm_type m)")
    case True
    then have "k \<in> set (cl_nodes cl) \<or> k = n\<lparr>pn_revision := ?rev\<rparr>" "pn_operation n = []" using k 1(4,9) by auto
    then show ?thesis using old new [of "n\<lparr>pn_revision := ?rev\<rparr>"] 1(2) by auto
  next
    case False
    then obtain k0 where k0: "k0 \<in> set (cl_nodes cl)" "k = written ?c ?rev (map (toggle now m) ns) k0" using k 1(4) by auto
    show ?thesis
    proof (cases "pn_id k0 \<in> pn_id ` set ns \<and> pn_collection k0 = ?c")
      case True
      then obtain l where l: "l \<in> set ns" "pn_id k0 = pn_id l" by auto
      have kl: "k = (toggle now m l)\<lparr>pn_revision := ?rev\<rparr>"
        unfolding k0(2) by (rule written_member) (use 1(7) l True in \<open>auto simp: comp_def\<close>)
      obtain xs where xs: "ns = n # xs" "\<And>k. k \<in> set xs \<longleftrightarrow> (pm_type m = Delete \<or> pm_type m = Restore)
          \<and> node_in cl ?c (pn_id k) = Some k \<and> beneath (node_in cl ?c) (pn_id n) (pn_id k) \<and> reaches (pm_type m) n k"
        using affected_nodes_Ok [OF _ cloud_ok_key [OF ok] cloud_ok_forest [OF ok]] 1(10) [OF False] by metis
      have "pn_operation l = []" if "pm_type m \<noteq> Delete" "pm_type m \<noteq> Restore"
      proof -
        have "l = n" using xs l(1) that by auto
        then show ?thesis using 1(10) [OF False] that forest_live [OF cloud_ok_forest [OF ok]] by metis
      qed
      then have "pn_operation k \<noteq> [] \<Longrightarrow> pn_operation k = pm_operation m"
        using toggle_operation [of now m l] kl by auto
      then show ?thesis using new [of k] kl l(1) 1(6) by simp
    next
      case False
      then have "k = k0" using k0(2) written_other [of k0 "map (toggle now m) ns" ?c ?rev] by (auto simp: image_image)
      then show ?thesis using old k0(1) by simp
    qed
  qed
  moreover have "forest_ok (node_in cl' e)" for e
    using forest cloud_ok_forest [OF ok, of e] by (cases "e = ?c") simp_all
  moreover have "\<forall>s\<in>set (cl_spaces cl'). 0 < sr_revision s"
    unfolding spaces by (rule set_revision_pos) (use ok pos in \<open>auto simp: cloud_ok_def\<close>)
  ultimately show ?thesis
    using 1(11) [OF cloud_ok_rows [OF ok]] cloud_ok_spaces [OF ok] cloud_ok_owners [OF ok] spaces
    by (simp add: cloud_ok_def set_revision_keyed)
qed

lemma ApplyPersonalMutation_cases:
  assumes "ApplyPersonalMutation nfc owner m now cl = (r, cl')"
  obtains (kept) "cl' = cl"
    | (performed) s x where "space_of cl owner = Some s" "receipt_of cl owner (pm_operation m) = None" "Mutation_Validate m" "owner \<noteq> []"
        "perform_mutation nfc owner s m now cl = Inr (x, cl')" "r = Inr x"
proof (cases r)
  case (Inl e)
  then show ?thesis using assms kept by (auto simp: ApplyPersonalMutation_def cloud_tx_Err)
next
  case (Inr x)
  then show ?thesis using assms that
    by (auto simp: ApplyPersonalMutation_def split: if_splits option.splits receipt_response.splits)
qed

lemma space_of_row:
  assumes "space_of cl owner = Some s"
  shows "s \<in> set (cl_spaces cl)" "sr_owner s = owner"
  using assms by (auto simp: space_of_def dest: sel1_Some)

lemma Mutation_operation: "Mutation_Validate m \<Longrightarrow> pm_operation m \<noteq> [] \<and> pm_item m \<noteq> []"
  by (auto simp: Mutation_Validate_def valid_personal_id_def)

lemma ApplyPersonalMutation_cloud_ok:
  assumes "ApplyPersonalMutation nfc owner m now cl = (r, cl')" "cloud_ok cl" "now \<noteq> 0"
  shows "cloud_ok cl'"
  using assms(1)
proof (cases rule: ApplyPersonalMutation_cases)
  case kept
  then show ?thesis using assms(2) by simp
next
  case (performed s x)
  then show ?thesis
    using mutation_cloud_ok [OF performed(5) assms(2) space_of_row [OF performed(1)] performed(2) _ assms(3)] Mutation_operation by blast
qed

text \<open>The rows a mutation leaves: those of its nodes, and the others.\<close>

lemma mutation_rows:
  assumes run: "perform_mutation nfc owner s m now cl = Inr (x, cl')" and ok: "cloud_ok cl"
  obtains n ns where "\<forall>k\<in>set ns. pn_collection k = sr_id s" "distinct (map pn_id ns)"
    "cl_changes cl' = cl_changes cl @ map (change_of (sr_id s) (sr_revision s + 1)) (map (toggle now m) ns)"
    "cl_spaces cl' = cl_spaces (set_revision (sr_id s) (sr_revision s + 1) now cl)"
    "\<And>k. k \<in> set (cl_nodes cl') \<Longrightarrow> (\<exists>l\<in>set ns. k = (toggle now m l)\<lparr>pn_revision := sr_revision s + 1\<rparr>)
        \<or> k \<in> set (cl_nodes cl) \<and> (pn_collection k = sr_id s \<longrightarrow> pn_id k \<notin> pn_id ` set ns)"
    "\<And>l. l \<in> set ns \<Longrightarrow> (toggle now m l)\<lparr>pn_revision := sr_revision s + 1\<rparr> \<in> set (cl_nodes cl')"
    "\<And>e i. node_in cl' e i = None \<Longrightarrow> node_in cl e i = None" "rows_ok cl'"
    "creates (pm_type m) \<Longrightarrow> ns = [n] \<and> (\<forall>k\<in>set (cl_nodes cl). pn_id k \<noteq> pn_id n)"
    "\<not> creates (pm_type m) \<Longrightarrow> \<exists>xs. ns = n # xs \<and> (\<forall>k. k \<in> set xs \<longleftrightarrow> (pm_type m = Delete \<or> pm_type m = Restore)
       \<and> node_in cl (sr_id s) (pn_id k) = Some k \<and> beneath (node_in cl (sr_id s)) (pn_id n) (pn_id k) \<and> reaches (pm_type m) n k)"
    "\<exists>n0 n1 cl1. starting_node nfc cl (sr_id s) m = Inr n0 \<and> revised nfc cl owner (sr_id s) now m (pm_type m) n0 = Inr (n1, cl1)
       \<and> pn_asset n = pn_asset n1 \<and> pn_kind n = pn_kind n0 \<and> pn_deleted n = pn_deleted n0 \<and> pn_id n = pn_id n0 \<and> pn_purged n = pn_purged n0"
    "\<exists>cl1 cl2. toggle_all now m ns cl1 = Inr (map (toggle now m) ns, cl2)"
  using run cloud_ok_key [OF ok] cloud_ok_forest [OF ok]
proof (cases rule: mutation_written)
  case (1 n ns st)
  let ?c = "sr_id s" and ?rev = "sr_revision s + 1"
  have rows': "rows_ok cl'" by (rule 1(11) [OF cloud_ok_rows [OF ok]])
  have nodes: "cl_nodes cl' = (if creates (pm_type m) then cl_nodes cl @ [n\<lparr>pn_revision := ?rev\<rparr>]
      else map (written ?c ?rev (map (toggle now m) ns)) (cl_nodes cl))" using 1(4) by simp
  have tog: "toggle now m n = n" if "creates (pm_type m)" using that by (auto simp: creates_def toggle_def)
  have xs: "\<exists>xs. ns = n # xs \<and> (\<forall>k. k \<in> set xs \<longleftrightarrow> (pm_type m = Delete \<or> pm_type m = Restore)
       \<and> node_in cl ?c (pn_id k) = Some k \<and> beneath (node_in cl ?c) (pn_id n) (pn_id k) \<and> reaches (pm_type m) n k)"
    if existing: "\<not> creates (pm_type m)"
    using affected_nodes_Ok [OF _ cloud_ok_key [OF ok] cloud_ok_forest [OF ok]] 1(10) [OF existing] by metis
  have there: "(toggle now m l)\<lparr>pn_revision := ?rev\<rparr> \<in> set (cl_nodes cl')" if l: "l \<in> set ns" for l
  proof (cases "creates (pm_type m)")
    case True
    then show ?thesis using l nodes 1(9) tog by auto
  next
    case False
    obtain k where k: "k \<in> set (cl_nodes cl)" "pn_collection k = ?c" "pn_id k = pn_id l"
    proof (cases "l = n")
      case True
      then show ?thesis using that 1(10) [OF False] node_in_row by metis
    next
      case other: False
      obtain xs where "ns = n # xs" "\<forall>k. k \<in> set xs \<longrightarrow> node_in cl ?c (pn_id k) = Some k" using xs [OF False] by blast
      then have "node_in cl ?c (pn_id l) = Some l" using l other by auto
      then show ?thesis using that node_in_row by metis
    qed
    then have "written ?c ?rev (map (toggle now m) ns) k = (toggle now m l)\<lparr>pn_revision := ?rev\<rparr>"
      using written_rows(1) [OF 1(7) k(1,2) l k(3)] by simp
    then show ?thesis using nodes False k(1) by (metis image_eqI list.set_map)
  qed
  have after: "(\<exists>l\<in>set ns. k = (toggle now m l)\<lparr>pn_revision := ?rev\<rparr>)
      \<or> k \<in> set (cl_nodes cl) \<and> (pn_collection k = ?c \<longrightarrow> pn_id k \<notin> pn_id ` set ns)" if kin: "k \<in> set (cl_nodes cl')" for k
  proof (cases "pn_collection k = ?c \<and> pn_id k \<in> pn_id ` set ns")
    case True
    then obtain l where l: "l \<in> set ns" "pn_id l = pn_id k" by auto
    then have "pn_id ((toggle now m l)\<lparr>pn_revision := ?rev\<rparr>) = pn_id k" by simp
    then have "k = (toggle now m l)\<lparr>pn_revision := ?rev\<rparr>"
      using keyed_eq [of pn_id "cl_nodes cl'" k "(toggle now m l)\<lparr>pn_revision := ?rev\<rparr>"] rows' kin there [OF l(1)]
      by (simp add: rows_ok_def)
    then show ?thesis using l(1) by blast
  next
    case other: False
    show ?thesis
    proof (cases "creates (pm_type m)")
      case True
      then have "k \<in> set (cl_nodes cl) \<or> k = n\<lparr>pn_revision := ?rev\<rparr>" using kin nodes by auto
      then show ?thesis using other 1(2,8) by auto
    next
      case False
      then obtain k0 where k0: "k0 \<in> set (cl_nodes cl)" "k = written ?c ?rev (map (toggle now m) ns) k0" using kin nodes by auto
      then show ?thesis using written_rows(2) [OF 1(7), of ?c ?rev now m k0] other by auto
    qed
  qed
  have gone: "node_in cl e i = None" if none: "node_in cl' e i = None" for e i
  proof (rule ccontr)
    assume "node_in cl e i \<noteq> None"
    then obtain k where k: "node_in cl e i = Some k" by auto
    note row = node_in_row [OF k]
    have "\<exists>k'\<in>set (cl_nodes cl'). pn_id k' = i \<and> pn_collection k' = e"
    proof (cases "creates (pm_type m)")
      case True
      then show ?thesis using row nodes by auto
    next
      case False
      have coll': "\<forall>k\<in>set (map (toggle now m) ns). pn_collection k = ?c" using 1(6) by simp
      have "written ?c ?rev (map (toggle now m) ns) k \<in> set (cl_nodes cl')" using False nodes row(1) by simp
      then show ?thesis using written_key [OF coll', of ?rev k] row by metis
    qed
    then show False using none by (auto simp: node_in_def sel1_None)
  qed
  show ?thesis
  proof (rule that [OF 1(6,7)])
    show "cl_changes cl' = cl_changes cl @ map (change_of ?c ?rev) (map (toggle now m) ns)" using 1(4) by simp
    show "cl_spaces cl' = cl_spaces (set_revision ?c ?rev now cl)" using 1(4) by simp
    show "creates (pm_type m) \<Longrightarrow> ns = [n] \<and> (\<forall>k\<in>set (cl_nodes cl). pn_id k \<noteq> pn_id n)" using 1(9) by blast
  qed (fact after there gone rows' xs 1(12) 1(13))+
qed

end
