(* ===== verification/Personal_Trash.thy ===== *)
theory Personal_Trash
  imports Personal_Tree
begin

text \<open>
  Emptying the trash: what \<open>PurgePersonalTrash\<close> selects, that no live node is ever detached by it, and
  that the rows stay sound.  Then the cloud as a state machine and its invariant.
\<close>

section \<open>The selection\<close>

definition trash_edges :: "forest \<Rightarrow> (string \<times> string) set" where
  "trash_edges T = {(pn_parent n, i) | i n. T i = Some n \<and> pn_parent n \<noteq> [] \<and> \<not> live_node n
     \<and> (\<exists>p. T (pn_parent n) = Some p \<and> \<not> live_node p)}"

lemma trash_chain_sound:
  "x \<in> set (trash_chain k cl c i) \<Longrightarrow> (\<exists>n. node_in cl c i = Some n \<and> \<not> live_node n) \<and> (x, i) \<in> (trash_edges (node_in cl c))\<^sup>*"
proof (induction k arbitrary: i)
  case 0
  then show ?case by simp
next
  case (Suc k)
  obtain n where n: "node_in cl c i = Some n" "\<not> live_node n"
    using Suc.prems by (cases "node_in cl c i") (auto split: if_splits)
  then have "x = i \<or> pn_parent n \<noteq> [] \<and> x \<in> set (trash_chain k cl c (pn_parent n))"
    using Suc.prems by (auto split: if_splits)
  then show ?case
  proof
    assume "x = i"
    then show ?thesis using n by simp
  next
    assume x: "pn_parent n \<noteq> [] \<and> x \<in> set (trash_chain k cl c (pn_parent n))"
    then have "(pn_parent n, i) \<in> trash_edges (node_in cl c)" using Suc.IH n by (auto simp: trash_edges_def)
    then show ?thesis using x Suc.IH n by (auto intro: rtrancl_into_rtrancl)
  qed
qed

lemma trash_chain_mono: "k \<le> l \<Longrightarrow> set (trash_chain k cl c i) \<subseteq> set (trash_chain l cl c i)"
proof (induction k arbitrary: l i)
  case 0
  then show ?case by simp
next
  case (Suc k)
  then obtain m where m: "l = Suc m" "k \<le> m" by (cases l) auto
  then show ?case using Suc.IH [OF m(2)] by (auto split: option.splits if_splits)
qed

lemma trash_chain_complete:
  "(x, i) \<in> trash_edges (node_in cl c) ^^ k \<Longrightarrow> node_in cl c i = Some n \<Longrightarrow> \<not> live_node n \<Longrightarrow> x \<in> set (trash_chain (Suc k) cl c i)"
proof (induction k arbitrary: i n)
  case 0
  then show ?case by simp
next
  case (Suc k)
  obtain q where q: "(x, q) \<in> trash_edges (node_in cl c) ^^ k" "(q, i) \<in> trash_edges (node_in cl c)" using Suc.prems(1) by auto
  then obtain p where p: "pn_parent n = q" "q \<noteq> []" "node_in cl c q = Some p" "\<not> live_node p"
    using Suc.prems(2) by (auto simp: trash_edges_def)
  then have "x \<in> set (trash_chain (Suc k) cl c q)" by (intro Suc.IH [OF q(1)])
  then show ?case using Suc.prems p by simp
qed

lemma trash_chain_iff:
  assumes n: "node_in cl c i = Some n" "\<not> live_node n"
  shows "x \<in> set (trash_chain (Suc (length (cl_nodes cl))) cl c i) \<longleftrightarrow> (x, i) \<in> (trash_edges (node_in cl c))\<^sup>*"
proof
  assume "x \<in> set (trash_chain (Suc (length (cl_nodes cl))) cl c i)"
  then show "(x, i) \<in> (trash_edges (node_in cl c))\<^sup>*" by (blast dest: trash_chain_sound)
next
  let ?R = "trash_edges (node_in cl c)"
  assume x: "(x, i) \<in> ?R\<^sup>*"
  have sub: "?R \<subseteq> edges (node_in cl c)" by (auto simp: trash_edges_def edges_def)
  have fin: "finite ?R" using finite_subset [OF sub] edges_finite by blast
  have "card ?R \<le> length (cl_nodes cl)" using card_mono [OF _ sub] edges_finite [of cl c] by linarith
  moreover obtain k where k: "k \<le> card ?R" "(x, i) \<in> ?R ^^ k" using x rtrancl_finite_eq_relpow [OF fin] by auto
  ultimately have "Suc k \<le> Suc (length (cl_nodes cl))" by linarith
  from subsetD [OF trash_chain_mono [OF this] trash_chain_complete [OF k(2) n]]
  show "x \<in> set (trash_chain (Suc (length (cl_nodes cl))) cl c i)" .
qed

text \<open>Trashed children of selected nodes are selected.\<close>

lemma selected_row: "n \<in> set (selected cl c input) \<Longrightarrow> n \<in> set (cl_nodes cl) \<and> pn_collection n = c \<and> \<not> live_node n"
  by (auto simp: selected_def trashed_def)

lemma selected_closed:
  assumes key: "keyed pn_id (cl_nodes cl)" and n: "node_in cl c j = Some n" "\<not> live_node n" "pn_parent n \<noteq> []"
    and p: "pn_parent n \<in> pn_id ` set (selected cl c input)"
  shows "j \<in> pn_id ` set (selected cl c input)"
proof -
  obtain q where q: "q \<in> set (selected cl c input)" "pn_id q = pn_parent n" using p by auto
  have qn: "node_in cl c (pn_parent n) = Some q" "\<not> live_node q"
    using node_in_mem [OF key, of q] selected_row [OF q(1)] q(2) by auto
  have row: "n \<in> set (cl_nodes cl)" "pn_collection n = c" "pn_id n = j" using node_in_row [OF n(1)] by auto
  have "tp_all input \<or> (\<exists>i. i \<in> set (trash_chain (Suc (length (cl_nodes cl))) cl c (pn_id n)) \<and> i \<in> set (tp_items input))"
  proof (cases "tp_all input")
    case False
    then obtain i where i: "i \<in> set (tp_items input)" "i \<in> set (trash_chain (Suc (length (cl_nodes cl))) cl c (pn_id q))"
      using q(1) unfolding selected_def by (auto simp: list_ex_iff simp del: trash_chain.simps)
    then have "(i, pn_parent n) \<in> (trash_edges (node_in cl c))\<^sup>*" using trash_chain_iff [OF qn] q(2) by metis
    moreover have "(pn_parent n, j) \<in> trash_edges (node_in cl c)" using n qn by (auto simp: trash_edges_def)
    ultimately have "(i, j) \<in> (trash_edges (node_in cl c))\<^sup>*" by (rule rtrancl_into_rtrancl)
    then have "i \<in> set (trash_chain (Suc (length (cl_nodes cl))) cl c j)" unfolding trash_chain_iff [OF n(1,2)] .
    then show ?thesis using i(1) row(3) by blast
  qed simp
  then have "n \<in> set (selected cl c input)"
    using row n(2) unfolding selected_def trashed_def by (auto simp: list_ex_iff simp del: trash_chain.simps)
  then show ?thesis using row(3) by blast
qed

section \<open>The purge\<close>

lemma log_purged_Ok:
  "log_purged c revision ns cl = Inr cl' \<Longrightarrow> cl' = cl\<lparr>cl_changes := cl_changes cl @
     map (\<lambda>n. \<lparr>pc_collection = c, pc_revision = revision, pc_item = pn_id n, pc_snapshot = snapshot (purged_snapshot revision n)\<rparr>) ns\<rparr>"
proof (induction ns arbitrary: cl)
  case Nil
  then show ?case by simp
next
  case (Cons n ns)
  obtain cl1 where 1: "INSERT_change c revision (purged_snapshot revision n) cl = Inr cl1" "log_purged c revision ns cl1 = Inr cl'"
    using Cons.prems by auto
  have "cl1 = cl\<lparr>cl_changes := cl_changes cl @ [\<lparr>pc_collection = c, pc_revision = revision, pc_item = pn_id n, pc_snapshot = snapshot (purged_snapshot revision n)\<rparr>]\<rparr>"
    using 1(1) by (auto simp: INSERT_change_def purged_snapshot_def split: if_splits)
  then show ?case using Cons.IH [OF 1(2)] by simp
qed

text \<open>By the invariant no live node lies in a trashed folder, so the detaching update finds nothing.\<close>

lemma detach_nothing:
  assumes ok: "cloud_ok cl" and "\<And>i. i \<in> gone \<Longrightarrow> \<exists>n. node_in cl c i = Some n \<and> \<not> live_node n"
  shows "detach_children c gone cl = cl"
proof -
  have "\<not> (pn_collection n = c \<and> live_node n \<and> pn_parent n \<in> gone)" if n: "n \<in> set (cl_nodes cl)" for n
  proof
    assume *: "pn_collection n = c \<and> live_node n \<and> pn_parent n \<in> gone"
    then obtain p where p: "node_in cl c (pn_parent n) = Some p" "\<not> live_node p" using assms(2) by blast
    have at: "node_in cl c (pn_id n) = Some n" using node_in_mem [OF cloud_ok_key [OF ok] n] * by simp
    have "pn_parent n \<noteq> []"
      using p ok node_in_row [OF p(1)] by (auto simp: cloud_ok_def rows_ok_def node_check_def)
    then obtain q where "node_in cl c (pn_parent n) = Some q" "live_node n \<longrightarrow> live_node q"
      using forest_parent [OF cloud_ok_forest [OF ok] at] by metis
    then show False using p * by simp
  qed
  then have "upd_where (\<lambda>n. pn_collection n = c \<and> live_node n \<and> pn_parent n \<in> gone) (\<lambda>n. n\<lparr>pn_parent := []\<rparr>) (cl_nodes cl) = cl_nodes cl"
    by (intro upd_where_none) blast
  then show ?thesis unfolding detach_children_def by simp
qed

definition purge_change :: "string \<Rightarrow> int \<Rightarrow> personal_node \<Rightarrow> personal_change" where
  "purge_change c revision n = \<lparr>pc_collection = c, pc_revision = revision, pc_item = pn_id n, pc_snapshot = snapshot (purged_snapshot revision n)\<rparr>"

lemma erase_nodes_Ok:
  assumes "erase_nodes c revision ns now cl = Inr cl'" and ok: "cloud_ok cl"
    and ns: "\<And>n. n \<in> set ns \<Longrightarrow> n \<in> set (cl_nodes cl) \<and> pn_collection n = c \<and> \<not> live_node n"
  shows "cl' = (if ns = [] then cl else set_revision c revision now cl)\<lparr>
       cl_nodes := del_where (\<lambda>n. pn_collection n = c \<and> pn_id n \<in> pn_id ` set ns) (cl_nodes cl),
       cl_changes := del_where (\<lambda>h. pc_collection h = c \<and> pc_item h \<in> pn_id ` set ns) (cl_changes cl) @ map (purge_change c revision) ns,
       cl_grants := del_where (\<lambda>g. fg_collection g = c \<and> fg_folder g \<in> pn_id ` set ns) (cl_grants cl)\<rparr>"
proof (cases "ns = []")
  case True
  have "del_where (\<lambda>x. False) t = t" for t :: "'z list" by (simp add: del_where_def)
  then show ?thesis using assms(1) True by (simp add: erase_nodes_def del_where_def)
next
  case False
  have dead: "\<exists>n. node_in cl c i = Some n \<and> \<not> live_node n" if i: "i \<in> pn_id ` set ns" for i
  proof -
    obtain n where n: "n \<in> set ns" "i = pn_id n" using i by blast
    then show ?thesis using ns [OF n(1)] node_in_mem [OF cloud_ok_key [OF ok], of n] by auto
  qed
  have detached: "detach_children c (pn_id ` set ns) cl = cl" by (rule detach_nothing [OF ok dead])
  have "bindR (log_purged c revision ns (forget_nodes c (pn_id ` set ns) cl)) (\<lambda>cl'. Ok (set_revision c revision now cl')) = Inr cl'"
    using assms(1) False unfolding erase_nodes_def Let_def set_map detached by simp
  then obtain cl1 where cl1: "log_purged c revision ns (forget_nodes c (pn_id ` set ns) cl) = Inr cl1" "cl' = set_revision c revision now cl1"
    by auto
  show ?thesis unfolding cl1(2) log_purged_Ok [OF cl1(1)] using False
    by (simp add: forget_nodes_def set_revision_def purge_change_def [abs_def])
qed

text \<open>What emptying the trash leaves of the tables.\<close>

lemma perform_purge_tables:
  assumes run: "perform_purge owner s input now cl = Inr (x, cl')" and ok: "cloud_ok cl"
  defines "ns \<equiv> selected cl (sr_id s) input"
  shows "cl_nodes cl' = del_where (\<lambda>n. pn_collection n = sr_id s \<and> pn_id n \<in> pn_id ` set ns) (cl_nodes cl)"
    and "cl_changes cl' = filter (\<lambda>h. \<not> (pc_collection h = sr_id s \<and> pc_item h \<in> pn_id ` set ns)) (cl_changes cl)
        @ map (purge_change (sr_id s) (sr_revision s + 1)) ns"
    and "cl_spaces cl' = (if ns = [] then cl_spaces cl else cl_spaces (set_revision (sr_id s) (sr_revision s + 1) now cl))"
    and "\<exists>rs. cl_receipts cl' = cl_receipts cl @ rs"
    and "cl_grants cl' = filter (\<lambda>g. \<not> (fg_collection g = sr_id s \<and> fg_folder g \<in> pn_id ` set ns)) (cl_grants cl)"
proof -
  let ?c = "sr_id s" and ?rev = "sr_revision s + 1"
  obtain cl1 where er: "erase_nodes ?c ?rev ns now cl = Inr cl1"
      and cl': "cl' = INSERT_receipt owner (''purge:'' @ tp_operation input) (ForPurge input) (OfPurge (map pn_id ns)) cl1"
    using run unfolding perform_purge_def Let_def ns_def by (auto split: if_splits)
  have cl1: "cl1 = (if ns = [] then cl else set_revision ?c ?rev now cl)\<lparr>
       cl_nodes := del_where (\<lambda>n. pn_collection n = ?c \<and> pn_id n \<in> pn_id ` set ns) (cl_nodes cl),
       cl_changes := del_where (\<lambda>h. pc_collection h = ?c \<and> pc_item h \<in> pn_id ` set ns) (cl_changes cl) @ map (purge_change ?c ?rev) ns,
       cl_grants := del_where (\<lambda>g. fg_collection g = ?c \<and> fg_folder g \<in> pn_id ` set ns) (cl_grants cl)\<rparr>"
    by (rule erase_nodes_Ok [OF er ok selected_row [of _ cl ?c input, folded ns_def]])
  note eq = cl' cl1 INSERT_receipt_def
  show "cl_nodes cl' = del_where (\<lambda>n. pn_collection n = ?c \<and> pn_id n \<in> pn_id ` set ns) (cl_nodes cl)"
    "cl_changes cl' = filter (\<lambda>h. \<not> (pc_collection h = ?c \<and> pc_item h \<in> pn_id ` set ns)) (cl_changes cl) @ map (purge_change ?c ?rev) ns"
    "cl_spaces cl' = (if ns = [] then cl_spaces cl else cl_spaces (set_revision ?c ?rev now cl))"
    "\<exists>rs. cl_receipts cl' = cl_receipts cl @ rs"
    "cl_grants cl' = filter (\<lambda>g. \<not> (fg_collection g = ?c \<and> fg_folder g \<in> pn_id ` set ns)) (cl_grants cl)"
    unfolding eq by (simp_all add: set_revision_def del_where_def)
qed

lemma purge_cloud_ok:
  assumes run: "perform_purge owner s input now cl = Inr (x, cl')" and ok: "cloud_ok cl" and s: "s \<in> set (cl_spaces cl)"
  shows "cloud_ok cl'"
proof -
  let ?c = "sr_id s" and ?ns = "selected cl (sr_id s) input"
  let ?gone = "pn_id ` set ?ns"
  note tables = perform_purge_tables [OF run ok]
  note nodes = tables(1) and spaces = tables(3) and rcpt = tables(4)
  have at: "node_in cl' e i = (if e = ?c \<and> i \<in> ?gone then None else node_in cl e i)" for e i
  proof -
    have "sel1 (\<lambda>n. pn_collection n = e \<and> pn_id n = i) (del_where (\<lambda>n. pn_collection n = ?c \<and> pn_id n \<in> ?gone) t)
        = (if e = ?c \<and> i \<in> ?gone then None else sel1 (\<lambda>n. pn_collection n = e \<and> pn_id n = i) t)" for t
      unfolding del_where_def by (induction t) auto
    then show ?thesis by (simp only: node_in_def nodes)
  qed
  have "forest_ok (node_in cl' e)" for e
  proof (cases "e = ?c")
    case True
    have dead: "\<not> live_node k" if j: "j \<in> ?gone" "node_in cl ?c j = Some k" for j k
    proof -
      obtain n where n: "n \<in> set ?ns" "j = pn_id n" using j(1) by blast
      then have "node_in cl ?c j = Some n" using node_in_mem [OF cloud_ok_key [OF ok], of n] selected_row [OF n(1)] by auto
      then show ?thesis using j(2) selected_row [OF n(1)] by simp
    qed
    have "forest_ok (forget_forest (node_in cl ?c) ?gone)"
      by (rule forest_forget [OF cloud_ok_forest [OF ok] dead])
         (use selected_closed [OF cloud_ok_key [OF ok]] in blast)+
    moreover have "node_in cl' ?c = forget_forest (node_in cl ?c) ?gone"
      by (rule ext) (simp add: at forget_forest_def restrict_map_def)
    ultimately show ?thesis using True by simp
  next
    case False
    then have "node_in cl' e = node_in cl e" by (intro ext) (simp add: at)
    then show ?thesis using cloud_ok_forest [OF ok] by simp
  qed
  moreover have "rows_ok cl'"
    using cloud_ok_rows [OF ok] by (simp add: rows_ok_def nodes keyed_del_where)
  moreover have "\<exists>s1\<in>set (cl_spaces cl'). node_in_space cl' n s1" if n: "n \<in> set (cl_nodes cl')" for n
  proof -
    obtain s0 where s0: "s0 \<in> set (cl_spaces cl)" "node_in_space cl n s0" using cloud_ok_node [OF ok, of n] n nodes by auto
    obtain rs where rs: "cl_receipts cl' = cl_receipts cl @ rs" using rcpt by blast
    show ?thesis
    proof (cases "?ns = []")
      case True
      have "receipt_of cl' w i \<noteq> None" if "receipt_of cl w i \<noteq> None" for w i
        using that by (auto simp: receipt_of_def rs sel1_append split: option.split)
      then show ?thesis using s0 spaces True by (auto simp: node_in_space_def)
    next
      case False
      then show ?thesis using node_in_space_keep [OF s0(2,1) cloud_ok_spaces [OF ok] s _ rs] spaces by simp
    qed
  qed
  moreover have "\<forall>s\<in>set (cl_spaces cl'). 0 < sr_revision s"
  proof -
    have pos: "\<forall>s\<in>set (cl_spaces cl). 0 < sr_revision s" "0 < sr_revision s + 1" using ok s by (auto simp: cloud_ok_def)
    show ?thesis using set_revision_pos [OF pos, of ?c now] pos(1) by (simp add: spaces)
  qed
  ultimately show ?thesis
    using cloud_ok_spaces [OF ok] cloud_ok_owners [OF ok] by (simp add: cloud_ok_def spaces set_revision_keyed)
qed

lemma PurgePersonalTrash_cases:
  assumes "PurgePersonalTrash owner input now cl = (r, cl')"
  obtains (kept) "cl' = cl"
    | (performed) s x where "space_of cl owner = Some s" "receipt_of cl owner (''purge:'' @ tp_operation input) = None"
        "Purge_Validate input" "perform_purge owner s input now cl = Inr (x, cl')" "r = Inr x"
proof (cases r)
  case (Inl e)
  then show ?thesis using assms kept by (auto simp: PurgePersonalTrash_def cloud_tx_Err)
next
  case (Inr x)
  then show ?thesis using assms that
    by (auto simp: PurgePersonalTrash_def split: if_splits option.splits receipt_response.splits)
qed

lemma PurgePersonalTrash_cloud_ok:
  assumes "PurgePersonalTrash owner input now cl = (r, cl')" "cloud_ok cl"
  shows "cloud_ok cl'"
  using assms(1)
proof (cases rule: PurgePersonalTrash_cases)
  case kept
  then show ?thesis using assms(2) by simp
next
  case (performed s x)
  show ?thesis by (rule purge_cloud_ok [OF performed(4) assms(2) space_of_row(1) [OF performed(1)]])
qed

section \<open>The cloud as a state machine\<close>

lemma cloud_ok_same:
  assumes "cloud_ok cl" "cl_nodes cl' = cl_nodes cl" "cl_spaces cl' = cl_spaces cl @ new" "cl_receipts cl' = cl_receipts cl"
    and "\<And>s. s \<in> set new \<Longrightarrow> 0 < sr_revision s \<and> sr_id s \<notin> sr_id ` set (cl_spaces cl) \<and> sr_owner s \<notin> sr_owner ` set (cl_spaces cl)"
    and "length new \<le> 1"
  shows "cloud_ok cl'"
proof -
  have "node_in cl' = node_in cl" by (intro ext) (simp add: node_in_def assms(2))
  moreover have "keyed sr_id (cl_spaces cl') \<and> keyed sr_owner (cl_spaces cl')"
    using assms(1,3,5,6) by (cases new) (auto simp: cloud_ok_def)
  moreover have "\<exists>s\<in>set (cl_spaces cl'). node_in_space cl' n s" if n: "n \<in> set (cl_nodes cl')" for n
  proof -
    obtain s where s: "s \<in> set (cl_spaces cl)" "node_in_space cl n s" using cloud_ok_node [OF assms(1)] n assms(2) by auto
    then have "node_in_space cl' n s" by (simp add: node_in_space_def receipt_of_def assms(4))
    then show ?thesis using s(1) assms(3) by auto
  qed
  moreover have "\<forall>s\<in>set (cl_spaces cl'). 0 < sr_revision s" using assms(1,3,5) by (auto simp: cloud_ok_def)
  moreover have "rows_ok cl'" using cloud_ok_rows [OF assms(1)] assms(2) by (simp add: rows_ok_def)
  ultimately show ?thesis using cloud_ok_forest [OF assms(1)] by (simp add: cloud_ok_def)
qed

lemma EnsurePersonalSpace_cloud_ok:
  assumes "EnsurePersonalSpace owner now new cl = (r, cl')" "cloud_ok cl"
  shows "cloud_ok cl'"
proof (cases "cl' = cl")
  case True
  then show ?thesis using assms(2) by simp
next
  case False
  then have none: "space_of cl owner = None" "\<not> exists_row (\<lambda>s. sr_id s = new) (cl_spaces cl)"
      "cl' = cl\<lparr>cl_spaces := cl_spaces cl @ [\<lparr>sr_id = new, sr_owner = owner, sr_revision = 1, sr_updated = now\<rparr>]\<rparr>"
    using assms(1) by (auto simp: EnsurePersonalSpace_def Let_def split: if_splits option.splits)
  show ?thesis
  proof (rule cloud_ok_same [OF assms(2), where new = "[\<lparr>sr_id = new, sr_owner = owner, sr_revision = 1, sr_updated = now\<rparr>]"])
  qed (use none in \<open>auto simp: space_of_def sel1_None\<close>)
qed

text \<open>
  The operations of the service on a cloud, and everything else that happens to its tables: uploads,
  scans and purges change the asset store, the sharing operations the grants.
\<close>

inductive cloud_step :: "(string \<Rightarrow> string) \<Rightarrow> cloud \<Rightarrow> cloud \<Rightarrow> bool" for nfc where
  ensure: "cloud_step nfc cl (snd (EnsurePersonalSpace owner now new cl))"
| mutate: "0 < now \<Longrightarrow> cloud_step nfc cl (snd (ApplyPersonalMutation nfc owner m now cl))"
| empty_trash: "0 < now \<Longrightarrow> cloud_step nfc cl (snd (PurgePersonalTrash owner input now cl))"
| quota: "cloud_step nfc cl (snd (SetPersonalQuota actor owner q request now cl))"
| other: "cloud_step nfc cl (cl\<lparr>cl_store := st, cl_grants := gs\<rparr>)"

inductive cloud_reach :: "(string \<Rightarrow> string) \<Rightarrow> cloud \<Rightarrow> bool" for nfc where
  start: "cl_nodes cl = [] \<Longrightarrow> cl_spaces cl = [] \<Longrightarrow> cl_changes cl = [] \<Longrightarrow> cl_receipts cl = [] \<Longrightarrow> cl_grants cl = [] \<Longrightarrow> cloud_reach nfc cl"
| step: "cloud_reach nfc cl \<Longrightarrow> cloud_step nfc cl cl' \<Longrightarrow> cloud_reach nfc cl'"

lemma SetPersonalQuota_frame:
  "cl_nodes (snd (SetPersonalQuota actor owner q request now cl)) = cl_nodes cl"
  "cl_spaces (snd (SetPersonalQuota actor owner q request now cl)) = cl_spaces cl"
  "cl_receipts (snd (SetPersonalQuota actor owner q request now cl)) = cl_receipts cl"
  "cl_changes (snd (SetPersonalQuota actor owner q request now cl)) = cl_changes cl"
  unfolding SetPersonalQuota_def Let_def by (cases q; simp)+

lemma cloud_step_ok: "cloud_step nfc cl cl' \<Longrightarrow> cloud_ok cl \<Longrightarrow> cloud_ok cl'"
proof (induction rule: cloud_step.induct)
  case (ensure cl owner now new)
  then show ?case using EnsurePersonalSpace_cloud_ok [OF prod.collapse [symmetric]] by blast
next
  case (mutate now cl owner m)
  then show ?case using ApplyPersonalMutation_cloud_ok [OF prod.collapse [symmetric]] by simp
next
  case (empty_trash now cl owner input)
  then show ?case using PurgePersonalTrash_cloud_ok [OF prod.collapse [symmetric]] by blast
next
  case (quota cl actor owner q request now)
  show ?case by (rule cloud_ok_same [OF quota, where new = "[]"]) (simp_all add: SetPersonalQuota_frame)
next
  case (other cl st gs)
  show ?case by (rule cloud_ok_same [OF other, where new = "[]"]) simp_all
qed

lemma cloud_reach_ok: "cloud_reach nfc cl \<Longrightarrow> cloud_ok cl"
proof (induction rule: cloud_reach.induct)
  case (start cl)
  have "node_in cl c = Map.empty" for c by (rule ext) (simp add: node_in_def start)
  then have "forest_ok (node_in cl c)" for c
    by (simp add: forest_ok_def parents_ok_def heads_ok_def edges_def acyclic_def)
  then show ?case by (simp add: cloud_ok_def rows_ok_def start)
next
  case (step cl cl')
  then show ?case using cloud_step_ok by blast
qed

section \<open>The tree\<close>

text \<open>
  C32.  The tree of a personal cloud is sound after any sequence of mutations, purges of the trash and
  other operations: the parent of a node is a folder of the same collection, live if the node is, no node
  lies below itself, two live nodes of a folder never share a name and no two live nodes of a space share an
  asset, a node's revision is at most that of its space, and every deletion has its receipt.
\<close>

theorem personal_tree_sound:
  assumes "cloud_reach nfc cl" and n: "n \<in> set (cl_nodes cl)"
  shows "(pn_parent n \<noteq> [] \<longrightarrow> (\<exists>p. node_in cl (pn_collection n) (pn_parent n) = Some p \<and> pn_kind p = Folder
             \<and> (live_node n \<longrightarrow> live_node p)))
       \<and> pn_id n \<notin> set (ancestors cl (pn_collection n) (pn_parent n))
       \<and> (\<forall>k\<in>set (cl_nodes cl). k \<noteq> n \<longrightarrow> pn_id k \<noteq> pn_id n \<and> \<not> node_clash k n)
       \<and> (\<exists>s\<in>set (cl_spaces cl). sr_id s = pn_collection n \<and> 0 < pn_revision n \<and> pn_revision n \<le> sr_revision s
             \<and> (live_node n \<or> receipt_of cl (sr_owner s) (pn_operation n) \<noteq> None))"
proof -
  have ok: "cloud_ok cl" by (rule cloud_reach_ok [OF assms(1)])
  note at = node_in_mem [OF cloud_ok_key [OF ok] n]
  have 1: "\<exists>p. node_in cl (pn_collection n) (pn_parent n) = Some p \<and> pn_kind p = Folder \<and> (live_node n \<longrightarrow> live_node p)"
    if "pn_parent n \<noteq> []"
    using forest_parent [OF cloud_ok_forest [OF ok] at that] by metis
  have 2: "pn_id n \<notin> set (ancestors cl (pn_collection n) (pn_parent n))"
  proof (cases "pn_parent n = []")
    case True
    have "node_in cl (pn_collection n) [] = None"
      using cloud_ok_rows [OF ok] by (auto simp: node_in_def sel1_None rows_ok_def node_check_def)
    then show ?thesis using True by (simp add: ancestors_none)
  next
    case False
    then show ?thesis using 1 cyc_stay [OF cloud_ok_forest [OF ok] at] ancestors_iff [OF cloud_ok_forest [OF ok]] by metis
  qed
  have 3: "\<forall>k\<in>set (cl_nodes cl). k \<noteq> n \<longrightarrow> pn_id k \<noteq> pn_id n \<and> \<not> node_clash k n"
    using cloud_ok_rows [OF ok] keyed_eq [OF cloud_ok_key [OF ok] _ n] n unfolding rows_ok_def by metis
  have 4: "\<exists>s\<in>set (cl_spaces cl). sr_id s = pn_collection n \<and> 0 < pn_revision n \<and> pn_revision n \<le> sr_revision s
             \<and> (live_node n \<or> receipt_of cl (sr_owner s) (pn_operation n) \<noteq> None)"
    using cloud_ok_node [OF ok n] forest_live [OF cloud_ok_forest [OF ok] at] unfolding node_in_space_def by blast
  show ?thesis using 1 2 3 4 by blast
qed

end
