(* ===== verification/Personal_Quota.thy ===== *)
theory Personal_Quota
  imports Personal_Trash
begin

text \<open>
  The quota of a personal cloud: \<open>counted\<close>, the check of \<open>ApplyPersonalMutation\<close>, agrees with what
  \<open>personalUsage\<close> counts, and no mutation takes a cloud above its quota.
\<close>

section \<open>What is counted\<close>

lemma counted_class: "a \<noteq> [] \<Longrightarrow> counted cl c now a \<longleftrightarrow> class_of cl c now a \<noteq> Uncounted"
  by (auto simp: counted_def class_of_def Let_def list_ex_iff)

definition counted_rows :: "cloud \<Rightarrow> string \<Rightarrow> time \<Rightarrow> asset_row \<Rightarrow> bool" where
  "counted_rows cl c now r \<longleftrightarrow> a_purged r = 0 \<and> a_id r \<noteq> [] \<and> counted cl c now (a_id r)"

text \<open>The used bytes are the sizes of the counted assets, each once.\<close>

lemma used_counted:
  assumes "space_of cl owner = Some s"
  shows "pu_used (personalUsage cl owner now)
    = sum_list (map a_size (filter (counted_rows cl (sr_id s) now) (st_assets (cl_store cl))))"
proof -
  let ?k = "\<lambda>r. class_of cl (sr_id s) now (a_id r)"
  have none: "class_of cl (sr_id s) now [] = Uncounted" by (simp add: class_of_def)
  have row: "counted_rows cl (sr_id s) now r \<longleftrightarrow> a_purged r = 0 \<and> ?k r \<noteq> Uncounted" for r
    by (cases "a_id r = []") (simp_all add: counted_class counted_rows_def none)
  have "sum_list (map a_size (filter (\<lambda>r. a_purged r = 0 \<and> ?k r = Active) t))
      + sum_list (map a_size (filter (\<lambda>r. a_purged r = 0 \<and> ?k r = Trash) t))
      + sum_list (map a_size (filter (\<lambda>r. a_purged r = 0 \<and> ?k r = Protected) t))
      = sum_list (map a_size (filter (counted_rows cl (sr_id s) now) t))" for t :: "asset_row list"
  proof (induction t)
    case Nil
    then show ?case by simp
  next
    case (Cons r t)
    then show ?case by (cases "?k r") (simp_all add: row)
  qed
  then show ?thesis using assms by (simp add: personalUsage_def Let_def class_bytes_def)
qed

lemma sum_counted_mono:
  assumes "\<And>r. r \<in> set t \<Longrightarrow> 0 \<le> a_size r" "\<And>r. r \<in> set t \<Longrightarrow> P r \<Longrightarrow> Q r"
  shows "sum_list (map a_size (filter P t)) \<le> sum_list (map a_size (filter Q t))"
  using assms
proof (induction t)
  case Nil
  then show ?case by simp
next
  case (Cons r t)
  have "sum_list (map a_size (filter P t)) \<le> sum_list (map a_size (filter Q t))" using Cons by simp
  moreover have "0 \<le> a_size r" "P r \<Longrightarrow> Q r" using Cons.prems by simp_all
  ultimately show ?case by (auto simp del: sum_list_nonneg)
qed

lemma sum_counted_one:
  assumes "keyed a_id t" "\<And>r. r \<in> set t \<Longrightarrow> 0 \<le> a_size r" "r0 \<in> set t"
    "\<And>r. r \<in> set t \<Longrightarrow> P r \<Longrightarrow> Q r \<or> a_id r = a_id r0"
  shows "sum_list (map a_size (filter P t)) \<le> sum_list (map a_size (filter Q t)) + a_size r0"
  using assms
proof (induction t)
  case Nil
  then show ?case by simp
next
  case (Cons r t)
  show ?case
  proof (cases "r = r0")
    case True
    have "sum_list (map a_size (filter P t)) \<le> sum_list (map a_size (filter Q t))"
    proof (rule sum_counted_mono)
      show "0 \<le> a_size k" if "k \<in> set t" for k using Cons.prems(2) that by simp
      show "Q k" if k: "k \<in> set t" "P k" for k
      proof -
        have "a_id k \<noteq> a_id r0" using Cons.prems(1) True k(1) by (auto simp: rev_image_eqI)
        then show ?thesis using Cons.prems(4) [of k] k by simp
      qed
    qed
    then show ?thesis using True Cons.prems(2) [of r] by auto
  next
    case False
    then have "a_id r \<noteq> a_id r0" using Cons.prems(1,3) by (auto simp: rev_image_eqI)
    then have "P r \<Longrightarrow> Q r" using Cons.prems(4) [of r] by simp
    moreover have "sum_list (map a_size (filter P t)) \<le> sum_list (map a_size (filter Q t)) + a_size r0"
      using Cons False by auto
    ultimately show ?thesis using Cons.prems(2) [of r] by auto
  qed
qed

section \<open>What a mutation counts\<close>

lemma toggle_all_window:
  "toggle_all now m ns cl = Inr (ns', cl') \<Longrightarrow> pm_type m = Restore \<Longrightarrow> k \<in> set ns \<Longrightarrow> pn_deleted k > now - trash_period"
proof (induction ns arbitrary: ns' cl)
  case Nil
  then show ?case by simp
next
  case (Cons n ns)
  then obtain n1 cl1 ns1 where 1: "toggled now m n cl = Inr (n1, cl1)" "toggle_all now m ns cl1 = Inr (ns1, cl')"
    by (auto split: prod.splits)
  have "pn_deleted n > now - trash_period" using 1(1) Cons.prems(2) by (auto simp: toggled_def split: if_splits)
  then show ?case using Cons.IH [OF 1(2) Cons.prems(2)] Cons.prems(3) by auto
qed

lemma attach_content_quota:
  assumes "attach_content cl owner c now m n = Inr (n', cl')"
  obtains r where "r \<in> set (st_assets (cl_store cl))" "pn_asset n' = a_id r" "pn_kind n = File"
    "(if counted cl c now (a_id r) then 0 else a_size r) \<le> pu_quota (personalUsage cl owner now) - pu_used (personalUsage cl owner now)"
  using assms that unfolding attach_content_def Let_def
  by (auto split: if_splits option.splits simp del: counted_def)

definition content :: "mutation_type \<Rightarrow> bool" where
  "content t \<longleftrightarrow> t = CreateFile \<or> t = ReplaceContent"

lemma revised_asset:
  "revised nfc cl owner c now m t n = Inr (n', cl') \<Longrightarrow> \<not> content t \<Longrightarrow> pn_asset n' = pn_asset n"
  by (cases t) (auto simp: content_def split: if_splits)

lemma revised_content:
  "revised nfc cl owner c now m t n = Inr (n', cl') \<Longrightarrow> content t \<Longrightarrow> attach_content cl owner c now m n = Inr (n', cl')"
  by (auto simp: content_def)

lemma toggle_content [simp]: "pn_asset (toggle now m k) = pn_asset k" "pn_kind (toggle now m k) = pn_kind k"
  by (simp_all add: toggle_def)

definition in_trash :: "time \<Rightarrow> personal_node \<Rightarrow> bool" where
  "in_trash now n \<longleftrightarrow> live_node n \<or> pn_deleted n > now - trash_period"

lemma counted_iff: "counted cl c now a \<longleftrightarrow>
    (\<exists>n\<in>set (cl_nodes cl). pn_collection n = c \<and> pn_kind n = File \<and> pn_asset n = a \<and> in_trash now n)
    \<or> (\<exists>h\<in>set (cl_changes cl). pc_collection h = c \<and> pn_asset (pc_snapshot h) = a)
      \<and> (\<forall>n\<in>set (cl_nodes cl). \<not> (pn_collection n = c \<and> pn_kind n = File \<and> pn_asset n = a))"
  by (auto simp: counted_def file_refs_def logged_ref_def list_ex_iff in_trash_def filter_empty_conv)

definition new_content :: "(string \<Rightarrow> string) \<Rightarrow> cloud \<Rightarrow> string \<Rightarrow> space_row \<Rightarrow> time \<Rightarrow> personal_mutation \<Rightarrow> string" where
  "new_content nfc cl owner s now m = (case bindR (starting_node nfc cl (sr_id s) m) (revised nfc cl owner (sr_id s) now m (pm_type m)) of
     Inl _ \<Rightarrow> [] | Inr (n, _) \<Rightarrow> pn_asset n)"

text \<open>After a mutation nothing is counted that was not, but its new content, which fits the quota.\<close>

lemma counted_after:
  assumes run: "perform_mutation nfc owner s m now cl = Inr (x, cl')" and ok: "cloud_ok cl" and a: "a \<noteq> []"
    and now: "counted cl' (sr_id s) now a"
  shows "counted cl (sr_id s) now a \<or> content (pm_type m) \<and> a = new_content nfc cl owner s now m \<and> (\<exists>r\<in>set (st_assets (cl_store cl)). a = a_id r
     \<and> (if counted cl (sr_id s) now a then 0 else a_size r) \<le> pu_quota (personalUsage cl owner now) - pu_used (personalUsage cl owner now))"
  using run ok
proof (cases rule: mutation_rows)
  case (1 n ns)
  let ?c = "sr_id s" and ?rev = "sr_revision s + 1"
  let ?new = "content (pm_type m) \<and> a = new_content nfc cl owner s now m \<and> (\<exists>r\<in>set (st_assets (cl_store cl)). a = a_id r
     \<and> (if counted cl ?c now a then 0 else a_size r) \<le> pu_quota (personalUsage cl owner now) - pu_used (personalUsage cl owner now))"
  obtain n0 n1 cl1 where n0: "starting_node nfc cl ?c m = Inr n0" "revised nfc cl owner ?c now m (pm_type m) n0 = Inr (n1, cl1)"
      "pn_asset n = pn_asset n1" "pn_kind n = pn_kind n0" "pn_deleted n = pn_deleted n0" "pn_id n = pn_id n0" using 1(11) by blast
  have window: "pm_type m = Restore \<Longrightarrow> k \<in> set ns \<Longrightarrow> pn_deleted k > now - trash_period" for k
    using 1(12) toggle_all_window by blast
  have attached: "?new" if cont: "content (pm_type m)" "pn_asset n = a"
  proof -
    obtain r where r: "r \<in> set (st_assets (cl_store cl))" "pn_asset n1 = a_id r"
      "(if counted cl ?c now (a_id r) then 0 else a_size r) \<le> pu_quota (personalUsage cl owner now) - pu_used (personalUsage cl owner now)"
      by (rule attach_content_quota [OF revised_content [OF n0(2) cont(1)]])
    have eq: "a_id r = a" using r(2) n0(3) cont(2) by simp
    have "a = new_content nfc cl owner s now m" using n0 cont(2) by (simp add: new_content_def)
    then show ?thesis using cont(1) r(1) r(3) [unfolded eq] eq [symmetric] by (intro conjI bexI [of _ r])
  qed
  have row: "counted cl ?c now a" if "k \<in> set (cl_nodes cl)" "pn_collection k = ?c" "pn_kind k = File" "pn_asset k = a" "in_trash now k" for k
    using that by (auto simp: counted_iff)
  text \<open>The asset of a changed node was counted before, unless it is the new content.\<close>
  have changed: "counted cl ?c now a \<or> ?new" if k: "k \<in> set ns" "pn_kind k = File" "pn_asset k = a" for k
  proof (cases "creates (pm_type m)")
    case True
    then have "ns = [n]" using 1(9) by blast
    then have kn: "k = n" using k(1) by simp
    show ?thesis
    proof (cases "content (pm_type m)")
      case True
      then show ?thesis using attached [OF True] k(3) unfolding kn by blast
    next
      case False
      then have "pm_type m = CreateFolder" using True by (auto simp: creates_def content_def)
      then have "pn_kind n = Folder" using n0(1,4) by (auto simp: starting_node_def creates_def new_node_def)
      then show ?thesis using k(2) kn by simp
    qed
  next
    case False
    obtain xs where xs: "ns = n # xs" "\<And>k. k \<in> set xs \<longleftrightarrow> (pm_type m = Delete \<or> pm_type m = Restore)
        \<and> node_in cl ?c (pn_id k) = Some k \<and> beneath (node_in cl ?c) (pn_id n) (pn_id k) \<and> reaches (pm_type m) n k"
      using 1(10) [OF False] by blast
    show ?thesis
    proof (cases "k \<in> set xs")
      case True
      then have "node_in cl ?c (pn_id k) = Some k" "pm_type m = Restore \<or> live_node k" using xs(2) by (auto simp: reaches_def)
      then show ?thesis using row [of k] node_in_row [of cl ?c "pn_id k" k] window [OF _ k(1)] k by (auto simp: in_trash_def)
    next
      case other: False
      then have kn: "k = n" using k(1) xs(1) by simp
      show ?thesis
      proof (cases "content (pm_type m)")
        case True
        then show ?thesis using attached [OF True] k(3) unfolding kn by blast
      next
        case no: False
        have at: "node_in cl ?c (pn_id n0) = Some n0" "live_node n0 \<longleftrightarrow> pm_type m \<noteq> Restore"
          using starting_existing [OF n0(1) False] by simp_all
        then have "in_trash now n0" using at(2) window [OF _ k(1)] kn n0(5) by (auto simp: in_trash_def)
        then show ?thesis
          using row [of n0] node_in_row [OF at(1)] k kn n0(3,4) revised_asset [OF n0(2) no] by simp
      qed
    qed
  qed
  from now consider
      (row') k where "k \<in> set (cl_nodes cl')" "pn_collection k = ?c" "pn_kind k = File" "pn_asset k = a" "in_trash now k"
    | (log') h where "h \<in> set (cl_changes cl')" "pc_collection h = ?c" "pn_asset (pc_snapshot h) = a"
        "\<forall>n\<in>set (cl_nodes cl'). \<not> (pn_collection n = ?c \<and> pn_kind n = File \<and> pn_asset n = a)"
    unfolding counted_iff by blast
  then show ?thesis
  proof cases
    case row'
    from 1(5) [OF row'(1)] show ?thesis
    proof
      assume "\<exists>l\<in>set ns. k = (toggle now m l)\<lparr>pn_revision := ?rev\<rparr>"
      then show ?thesis using changed row' by auto
    next
      assume "k \<in> set (cl_nodes cl) \<and> (pn_collection k = ?c \<longrightarrow> pn_id k \<notin> pn_id ` set ns)"
      then show ?thesis using row row' by blast
    qed
  next
    case log'
    have "h \<in> set (cl_changes cl)"
    proof (rule ccontr)
      assume "h \<notin> set (cl_changes cl)"
      then obtain l where l: "l \<in> set ns" "h = change_of ?c ?rev (toggle now m l)" using log'(1) 1(3) by auto
      let ?l = "(toggle now m l)\<lparr>pn_revision := ?rev\<rparr>"
      have "pn_asset ?l = a" "pn_collection ?l = ?c" using l log'(3) 1(1) by (simp_all add: change_of_def snapshot_def)
      moreover have "node_check ?l" using 1(6) [OF l(1)] 1(8) by (simp add: rows_ok_def)
      ultimately have "pn_kind ?l = File" using a by (cases "pn_kind ?l") (auto simp: node_check_def)
      then show False using 1(6) [OF l(1)] log'(4) \<open>pn_asset ?l = a\<close> \<open>pn_collection ?l = ?c\<close> by blast
    qed
    show ?thesis
    proof (cases "\<exists>k\<in>set (cl_nodes cl). pn_collection k = ?c \<and> pn_kind k = File \<and> pn_asset k = a")
      case False
      then have "counted cl ?c now a" using log'(2,3) \<open>h \<in> set (cl_changes cl)\<close> unfolding counted_iff by blast
      then show ?thesis by blast
    next
      case True
      then obtain k where k: "k \<in> set (cl_nodes cl)" "pn_collection k = ?c" "pn_kind k = File" "pn_asset k = a" by blast
      show ?thesis
      proof (cases "in_trash now k")
        case True
        then show ?thesis using row k by blast
      next
        case dead: False
        then have "\<not> live_node k" by (simp add: in_trash_def)
        have gone: "k \<notin> set (cl_nodes cl')" using log'(4) k by blast
        have kin: "node_in cl ?c (pn_id k) = Some k" using node_in_mem [OF cloud_ok_key [OF ok] k(1)] k(2) by simp
        then obtain k' where "node_in cl' ?c (pn_id k) = Some k'" using 1(7) [of ?c "pn_id k"] by force
        note k' = node_in_row [OF this]
        have "k' \<notin> set (cl_nodes cl)" using gone k'(1,3) keyed_eq [OF cloud_ok_key [OF ok] _ k(1)] by metis
        then obtain l where l: "l \<in> set ns" "pn_id l = pn_id k" using 1(5) [OF k'(1)] k'(3) by auto
        have creates: "\<not> creates (pm_type m)" using 1(9) l k(1) by auto
        have "pn_asset l \<noteq> a \<or> pn_kind l \<noteq> File" using 1(6) [OF l(1)] log'(4) 1(1) l(1) by fastforce
        have at: "node_in cl ?c (pn_id n0) = Some n0" "live_node n0 \<longleftrightarrow> pm_type m \<noteq> Restore"
          using starting_existing [OF n0(1) creates] by simp_all
        have "l = n"
        proof (rule ccontr)
          assume "l \<noteq> n"
          obtain xs where "ns = n # xs" "\<And>k. k \<in> set xs \<longleftrightarrow> (pm_type m = Delete \<or> pm_type m = Restore)
              \<and> node_in cl ?c (pn_id k) = Some k \<and> beneath (node_in cl ?c) (pn_id n) (pn_id k) \<and> reaches (pm_type m) n k"
            using 1(10) [OF creates] by blast
          then have "node_in cl ?c (pn_id l) = Some l" using l(1) \<open>l \<noteq> n\<close> by auto
          then have "Some l = Some k" unfolding l(2) kin by simp
          then have "l = k" by (simp only: option.inject)
          then show False using \<open>pn_asset l \<noteq> a \<or> pn_kind l \<noteq> File\<close> k by blast
        qed
        then have same: "pn_id n0 = pn_id k" using l(2) n0(6) by simp
        have "Some k = Some n0" by (rule trans [OF sym [OF kin] at(1) [unfolded same]])
        then have "k = n0" by (simp only: option.inject)
        have "content (pm_type m)"
        proof (rule ccontr)
          assume "\<not> content (pm_type m)"
          from revised_asset [OF n0(2) this] have "pn_asset n = a" "pn_kind n = File"
            using n0(3,4) k(3,4) \<open>k = n0\<close> by simp_all
          then show False using \<open>pn_asset l \<noteq> a \<or> pn_kind l \<noteq> File\<close> \<open>l = n\<close> by blast
        qed
        then have "live_node k" using at(2) \<open>k = n0\<close> by (auto simp: content_def)
        then show ?thesis using \<open>\<not> live_node k\<close> by blast
      qed
    qed
  qed
qed

section \<open>The quota holds\<close>

lemma leased_sum:
  assumes "leased cl cl'" "\<And>r u. P (r\<lparr>ar_download_until := u\<rparr>) = P r"
  shows "sum_list (map a_size (filter P (st_assets (cl_store cl')))) = sum_list (map a_size (filter P (st_assets (cl_store cl))))"
proof -
  let ?f = "\<lambda>r. r\<lparr>ar_download_until := 0\<rparr> :: asset_row"
  have *: "sum_list (map a_size (filter P t)) = sum_list (map a_size (filter P (map ?f t)))" for t
    by (induction t) (simp_all add: assms(2))
  have "map ?f (st_assets (cl_store cl')) = map ?f (st_assets (cl_store cl))" using assms(1) by (auto simp: leased_def)
  then show ?thesis using * by metis
qed

lemma counted_rows_lease: "counted_rows cl c now (r\<lparr>ar_download_until := u\<rparr>) = counted_rows cl c now r"
  by (simp add: counted_rows_def)

lemma mutation_used:
  assumes run: "perform_mutation nfc owner s m now cl = Inr (x, cl')" and ok: "cloud_ok cl" and s: "space_of cl owner = Some s"
    and key: "keyed a_id (st_assets (cl_store cl))" and size: "\<And>r. r \<in> set (st_assets (cl_store cl)) \<Longrightarrow> 0 \<le> a_size r"
  shows "pu_used (personalUsage cl' owner now) \<le> max (pu_used (personalUsage cl owner now)) (pu_quota (personalUsage cl owner now))
       \<and> (\<not> content (pm_type m) \<longrightarrow> pu_used (personalUsage cl' owner now) \<le> pu_used (personalUsage cl owner now))"
proof -
  let ?c = "sr_id s" and ?t = "st_assets (cl_store cl)" and ?u = "personalUsage cl owner now"
  obtain st where st: "leased cl (cl\<lparr>cl_store := st\<rparr>)" "cl_store cl' = st"
      "cl_spaces cl' = cl_spaces (set_revision ?c (sr_revision s + 1) now cl)"
    using run cloud_ok_key [OF ok] cloud_ok_forest [OF ok] by (cases rule: mutation_written) auto
  have "space_of cl' owner = map_option (\<lambda>r. if sr_id r = ?c then r\<lparr>sr_revision := sr_revision s + 1, sr_updated := now\<rparr> else r) (Some s)"
    using s st(3) by (simp add: space_of_def set_revision_def sel1_upd_where)
  then have s': "space_of cl' owner = Some (s\<lparr>sr_revision := sr_revision s + 1, sr_updated := now\<rparr>)" by simp
  have "pu_used (personalUsage cl' owner now) = sum_list (map a_size (filter (counted_rows cl' ?c now) (st_assets st)))"
    using used_counted [OF s', of now] st(2) by simp
  also have "\<dots> = sum_list (map a_size (filter (counted_rows cl' ?c now) ?t))"
    using leased_sum [OF st(1), of "counted_rows cl' ?c now"] by (simp add: counted_rows_lease)
  finally have used': "pu_used (personalUsage cl' owner now) = sum_list (map a_size (filter (counted_rows cl' ?c now) ?t))" .
  have used: "pu_used ?u = sum_list (map a_size (filter (counted_rows cl ?c now) ?t))" by (rule used_counted [OF s])
  have step: "counted_rows cl ?c now r \<or> content (pm_type m) \<and> a_id r = new_content nfc cl owner s now m \<and> (\<exists>r0\<in>set ?t. a_id r = a_id r0 \<and> (if counted cl ?c now (a_id r0) then 0 else a_size r0) \<le> pu_quota ?u - pu_used ?u)"
    if "counted_rows cl' ?c now r" for r
    using counted_after [OF run ok, of "a_id r"] that unfolding counted_rows_def by (metis (no_types, lifting))
  show ?thesis
  proof (cases "\<forall>r\<in>set ?t. counted_rows cl' ?c now r \<longrightarrow> counted_rows cl ?c now r")
    case True
    then have "pu_used (personalUsage cl' owner now) \<le> pu_used ?u"
      unfolding used' used by (intro sum_counted_mono size) simp_all
    then show ?thesis by simp
  next
    case False
    then obtain r where r: "r \<in> set ?t" "counted_rows cl' ?c now r" "\<not> counted_rows cl ?c now r" by blast
    have new: "a_id r = new_content nfc cl owner s now m" using step [OF r(2)] r(3) by blast
    have "content (pm_type m)" using step [OF r(2)] r(3) by blast
    obtain r0 where r0: "r0 \<in> set ?t" "a_id r = a_id r0" "(if counted cl ?c now (a_id r0) then 0 else a_size r0) \<le> pu_quota ?u - pu_used ?u"
      using step [OF r(2)] r(3) by blast
    have "r = r0" by (rule keyed_eq [OF key r(1) r0(1,2)])
    then have "\<not> counted cl ?c now (a_id r0)" using r(2,3) by (simp add: counted_rows_def)
    then have fits: "a_size r0 \<le> pu_quota ?u - pu_used ?u" using r0(3) by simp
    have "pu_used (personalUsage cl' owner now) \<le> pu_used ?u + a_size r0"
      unfolding used' used
    proof (rule sum_counted_one [OF key size r0(1)])
      fix k assume k: "k \<in> set ?t" "counted_rows cl' ?c now k"
      then show "counted_rows cl ?c now k \<or> a_id k = a_id r0" using step [OF k(2)] new r0(2) by auto
    qed simp
    then show ?thesis using fits \<open>content (pm_type m)\<close> by simp
  qed
qed

text \<open>
  C33.  No mutation takes a personal cloud above its quota: afterwards the used bytes are at most the quota,
  or at most what they were before when the quota had been lowered below that.  Moving, renaming, deleting
  and restoring never count an asset that was not counted.
\<close>

theorem personal_quota_holds:
  assumes "cloud_reach nfc cl" and run: "ApplyPersonalMutation nfc owner m now cl = (Ok x, cl')"
    and key: "keyed a_id (st_assets (cl_store cl))" and size: "list_all (\<lambda>r. 0 \<le> a_size r) (st_assets (cl_store cl))"
  shows "pu_used (personalUsage cl' owner now) \<le> max (pu_used (personalUsage cl owner now)) (pu_quota (personalUsage cl owner now))
       \<and> (\<not> content (pm_type m) \<longrightarrow> pu_used (personalUsage cl' owner now) \<le> pu_used (personalUsage cl owner now))"
  using run
proof (cases rule: ApplyPersonalMutation_cases)
  case kept
  then show ?thesis by simp
next
  case (performed s y)
  show ?thesis
    by (rule mutation_used [OF performed(5) cloud_reach_ok [OF assms(1)] performed(1) key]) (use size in \<open>simp add: list_all_iff\<close>)
qed

end
