(* ===== verification/Personal_Demo.thy ===== *)
theory Personal_Demo
  imports Personal_Quota
begin

text \<open>A small personal cloud, on which the properties of the tree and of the quota are evaluated.\<close>

definition anna_file :: asset_row where
  "anna_file = demo_image_row\<lparr>a_id := ''a-1'', a_namespace := ''presenter.personal'', a_owner_service := ''presenter.personal'',
     a_owner_type := ''user'', a_owner_id := ''anna'', a_size := 70, a_deleted := 0, a_purged := 0,
     a_processing_status := ProcessingNotRequired\<rparr>"

definition anna_upload :: upload_session where
  "anna_upload = \<lparr>us_id = ''u-1'', us_asset = ''a-1'', us_key = ''k'', us_caller = ''presenter.personal'', us_operation = ''create'',
     us_fingerprint = ''f'', us_staging_key = ''s'', us_max_size = 70, us_status = UploadCompleted, us_expires = 900, us_created = 10, us_completed = 20\<rparr>"

definition anna_start :: cloud where
  "anna_start = \<lparr>cl_store = empty_store\<lparr>st_assets := [anna_file], st_sessions := [anna_upload]\<rparr>, cl_spaces = [], cl_nodes = [],
     cl_changes = [], cl_receipts = [], cl_quotas = [\<lparr>qr_owner = ''anna'', qr_bytes = 100\<rparr>], cl_quota_audit = [], cl_grants = []\<rparr>"

definition mkdir :: "string \<Rightarrow> string \<Rightarrow> string \<Rightarrow> string \<Rightarrow> personal_mutation" where
  "mkdir operation item parent name = \<lparr>pm_operation = operation, pm_type = CreateFolder, pm_item = item, pm_parent = parent, pm_name = name,
     pm_upload = [], pm_expected = 0, pm_expected_collection = 0\<rparr>"

definition anna_new_file :: personal_mutation where
  "anna_new_file = \<lparr>pm_operation = ''o-3'', pm_type = CreateFile, pm_item = ''n-3'', pm_parent = ''n-2'', pm_name = ''song'',
     pm_upload = ''u-1'', pm_expected = 0, pm_expected_collection = 0\<rparr>"

definition anna_space :: cloud where "anna_space = snd (EnsurePersonalSpace ''anna'' 1000 ''c-1'' anna_start)"

definition anna_folder :: cloud where
  "anna_folder = snd (ApplyPersonalMutation id ''anna'' (mkdir ''o-1'' ''n-1'' [] ''songs'') 2000 anna_space)"

definition anna_nested :: cloud where
  "anna_nested = snd (ApplyPersonalMutation id ''anna'' (mkdir ''o-2'' ''n-2'' ''n-1'' ''old'') 3000 anna_folder)"

definition anna_stored :: cloud where
  "anna_stored = snd (ApplyPersonalMutation id ''anna'' anna_new_file 4000 anna_nested)"

definition anna_trashed :: cloud where
  "anna_trashed = snd (ApplyPersonalMutation id ''anna'' ((mkdir ''o-4'' ''n-1'' [] [])
     \<lparr>pm_type := Delete, pm_expected := 2, pm_expected_collection := 4\<rparr>) 5000 anna_stored)"

lemma anna_reach:
  "cloud_reach id anna_space" "cloud_reach id anna_folder" "cloud_reach id anna_nested" "cloud_reach id anna_stored" "cloud_reach id anna_trashed"
proof -
  have "cloud_reach id anna_start" by (rule cloud_reach.start) (simp_all add: anna_start_def)
  then show 1: "cloud_reach id anna_space" unfolding anna_space_def by (rule cloud_reach.step) (rule cloud_step.ensure)
  show 2: "cloud_reach id anna_folder" unfolding anna_folder_def by (rule cloud_reach.step [OF 1]) (rule cloud_step.mutate, simp)
  show 3: "cloud_reach id anna_nested" unfolding anna_nested_def by (rule cloud_reach.step [OF 2]) (rule cloud_step.mutate, simp)
  show 4: "cloud_reach id anna_stored" unfolding anna_stored_def by (rule cloud_reach.step [OF 3]) (rule cloud_step.mutate, simp)
  show "cloud_reach id anna_trashed" unfolding anna_trashed_def by (rule cloud_reach.step [OF 4]) (rule cloud_step.mutate, simp)
qed

theorem personal_tree_sound_witness:
  "map_option pn_parent (node_in anna_stored ''c-1'' ''n-2'') = Some ''n-1''
   \<and> (\<exists>p. node_in anna_stored ''c-1'' ''n-1'' = Some p \<and> pn_kind p = Folder)
   \<and> ''n-2'' \<notin> set (ancestors anna_stored ''c-1'' ''n-1'')"
proof -
  have 1: "map_option pn_parent (node_in anna_stored ''c-1'' ''n-2'') = Some ''n-1''" by code_simp
  then obtain n where n: "node_in anna_stored ''c-1'' ''n-2'' = Some n" "pn_parent n = ''n-1''" by auto
  note row = node_in_row [OF n(1)]
  show ?thesis using personal_tree_sound [OF anna_reach(4) row(1)] 1 n row by auto
qed

theorem personal_quota_holds_witness:
  "pu_used (personalUsage anna_nested ''anna'' 4000) = 0 \<and> pu_used (personalUsage anna_stored ''anna'' 4000) = 70
   \<and> pu_used (personalUsage anna_stored ''anna'' 4000) \<le> max (pu_used (personalUsage anna_nested ''anna'' 4000)) (pu_quota (personalUsage anna_nested ''anna'' 4000))"
proof -
  have run: "ApplyPersonalMutation id ''anna'' anna_new_file 4000 anna_nested
      = (Ok \<lparr>mr_item = ''n-3'', mr_node_revision = 4, mr_collection_revision = 4\<rparr>, anna_stored)"
  proof -
    have "fst (ApplyPersonalMutation id ''anna'' anna_new_file 4000 anna_nested)
      = Ok \<lparr>mr_item = ''n-3'', mr_node_revision = 4, mr_collection_revision = 4\<rparr>" by code_simp
    then show ?thesis by (metis anna_stored_def prod.collapse)
  qed
  have "keyed a_id (st_assets (cl_store anna_nested))" "list_all (\<lambda>r. 0 \<le> a_size r) (st_assets (cl_store anna_nested))" by code_simp+
  from personal_quota_holds [OF anna_reach(3) run this] show ?thesis
  proof (intro conjI)
    show "pu_used (personalUsage anna_nested ''anna'' 4000) = 0" by code_simp
    show "pu_used (personalUsage anna_stored ''anna'' 4000) = 70" by code_simp
  qed blast
qed

end
