(* ===== verification/Collection_Reads.thy ===== *)
theory Collection_Reads
  imports Collection_Props Paging
begin

text \<open>
  Reading collections (\<open>internal/postgres/store.go\<close>): the access list check, single reads by
  users and by the managing service, the lists with their cursors, and the content tickets.
  Each read is one query, so it sees one state of the store.
\<close>

section \<open>Access\<close>

definition hasCollectionACL :: "store \<Rightarrow> string \<Rightarrow> collection_subject \<Rightarrow> bool" where
  "hasCollectionACL st i subject =
     exists_row (\<lambda>a. acl_collection a = i \<and> acl_permission a = PermissionRead \<and> acl_revoked a = 0
       \<and> ((acl_subject_type a = SubjectUser \<and> acl_subject_id a = cs_user subject)
          \<or> (acl_subject_type a = SubjectRole \<and> acl_subject_id a \<in> set (cs_roles subject)))) (st_acls st)"

definition getLiveCollection :: "store \<Rightarrow> string \<Rightarrow> collection result" where
  "getLiveCollection st i =
     (case sel1 (\<lambda>c. c_id c = i \<and> c_deleted c = 0) (st_collections st) of
        None \<Rightarrow> Err ErrNotFound
      | Some c \<Rightarrow> Ok c)"

definition GetAuthorizedCollection :: "store \<Rightarrow> string \<Rightarrow> collection_subject \<Rightarrow> collection result" where
  "GetAuthorizedCollection st i subject =
     (if cs_user subject = [] then Err ErrForbidden
      else bindR (getLiveCollection st i) (\<lambda>c.
           if \<not> hasCollectionACL st i subject then Err ErrNotFound else Ok c))"

text \<open>The join of an item with its asset, which has to be live and servable.\<close>

definition servable_asset :: "store \<Rightarrow> string \<Rightarrow> asset_row option" where
  "servable_asset st i = sel1 (\<lambda>a. a_id a = i \<and> live a \<and> servable a) (st_assets st)"

definition active_item :: "store \<Rightarrow> string \<Rightarrow> string \<Rightarrow> collection_item option" where
  "active_item st c i = sel1 (\<lambda>r. ci_collection r = c \<and> ci_id r = i \<and> ci_deleted_rev r = 0) (st_items st)"

definition item_media :: "store \<Rightarrow> collection_item \<Rightarrow> collection_item option" where
  "item_media st r = map_option (\<lambda>a. r\<lparr>ci_mime := a_detected_mime a, ci_size := a_size a, ci_etag := a_etag a,
     ci_deleted_rev := 0, ci_deleted := 0\<rparr>) (servable_asset st (ci_asset r))"

text \<open>
  \<open>getAuthorizedCollectionItem\<close>: the collection is the one named or, without a name, the one the
  item is in; the left joins leave the columns empty where the item or its asset is missing.
\<close>

definition getAuthorizedCollectionItem ::
  "store \<Rightarrow> string \<Rightarrow> string \<Rightarrow> collection_subject \<Rightarrow> collection_item result" where
  "getAuthorizedCollectionItem st coll i subject =
     (case sel1 (\<lambda>c. (coll = [] \<and> active_item st (c_id c) i \<noteq> None \<or> c_id c = coll) \<and> c_deleted c = 0)
             (st_collections st) of
        None \<Rightarrow> Err ErrNotFound
      | Some c \<Rightarrow>
          if \<not> hasCollectionACL st (c_id c) subject then Err ErrNotFound
          else case Option.bind (active_item st (c_id c) i) (item_media st) of
            None \<Rightarrow> Err ErrNotFound
          | Some r \<Rightarrow> Ok r)"

definition GetAuthorizedCollectionItem ::
  "store \<Rightarrow> string \<Rightarrow> string \<Rightarrow> collection_subject \<Rightarrow> collection_item result" where
  "GetAuthorizedCollectionItem = getAuthorizedCollectionItem"

definition GetAuthorizedCollectionItemByID :: "store \<Rightarrow> string \<Rightarrow> collection_subject \<Rightarrow> collection_item result" where
  "GetAuthorizedCollectionItemByID st = getAuthorizedCollectionItem st []"

definition managed_by :: "string \<Rightarrow> string \<Rightarrow> collection \<Rightarrow> bool" where
  "managed_by i caller c \<longleftrightarrow> c_id c = i \<and> c_namespace c = ''line.group.media-sync'' \<and> c_created_by c = caller
     \<and> c_deleted c = 0"

definition GetManagedCollectionItem :: "store \<Rightarrow> string \<Rightarrow> string \<Rightarrow> string \<Rightarrow> collection_item result" where
  "GetManagedCollectionItem st coll i caller =
     (if exists_row (managed_by coll caller) (st_collections st)
      then case Option.bind (active_item st coll i) (item_media st) of
             None \<Rightarrow> Err ErrNotFound
           | Some r \<Rightarrow> Ok r
      else Err ErrNotFound)"

definition collectionACLs :: "store \<Rightarrow> string \<Rightarrow> collection_acl list" where
  "collectionACLs st i = sort_key (\<lambda>a. (acl_created a, acl_id a)) (filter (\<lambda>a. acl_collection a = i) (st_acls st))"

definition GetManagedCollection :: "store \<Rightarrow> string \<Rightarrow> string \<Rightarrow> managed_collection result" where
  "GetManagedCollection st i caller = bindR (getLiveCollection st i) (\<lambda>c.
     if c_created_by c \<noteq> caller then Err ErrForbidden
     else Ok \<lparr>mg_collection = c, mg_acls = collectionACLs st i\<rparr>)"

section \<open>Lists\<close>

definition collectionListLimit :: int where "collectionListLimit = 100"

definition boundedCollectionLimit :: "int \<Rightarrow> int" where
  "boundedCollectionLimit limit = (if limit \<le> 0 \<or> limit > collectionListLimit then collectionListLimit else limit)"

fun decodeListCursor :: "list_cursor token \<Rightarrow> list_cursor \<times> bool" where
  "decodeListCursor NoToken = (\<lparr>lc_last = []\<rparr>, True)"
| "decodeListCursor (BadToken v) = (\<lparr>lc_last = []\<rparr>, False)"
| "decodeListCursor (Token c) = (c, lc_last c \<noteq> [])"

text \<open>A page of collections after a cursor: both list queries differ in their condition only.\<close>

definition collection_page ::
  "(collection \<Rightarrow> bool) \<Rightarrow> store \<Rightarrow> list_cursor token \<Rightarrow> int \<Rightarrow> (collection, list_cursor) page" where
  "collection_page P st cursor limit =
     (let last_id = (case decodeListCursor cursor of (c, ok) \<Rightarrow> if ok then lc_last c else []);
          found = sort_key c_id (filter (\<lambda>c. P c \<and> c_deleted c = 0 \<and> last_id < c_id c) (st_collections st));
          n = nat (boundedCollectionLimit limit)
      in case cut_page n found of (rows, surplus) \<Rightarrow>
           \<lparr>pg_rows = rows, pg_cursor = (if surplus then Token \<lparr>lc_last = c_id (last rows)\<rparr> else NoToken),
            pg_more = surplus\<rparr>)"

definition ListAuthorizedCollections ::
  "store \<Rightarrow> collection_subject \<Rightarrow> list_cursor token \<Rightarrow> int \<Rightarrow> (collection, list_cursor) page result" where
  "ListAuthorizedCollections st subject cursor limit =
     (if cs_user subject = [] then Err ErrForbidden
      else Ok (collection_page (\<lambda>c. hasCollectionACL st (c_id c) subject) st cursor limit))"

definition ListManagedCollections ::
  "store \<Rightarrow> string \<Rightarrow> list_cursor token \<Rightarrow> int \<Rightarrow> (managed_collection, list_cursor) page" where
  "ListManagedCollections st caller cursor limit =
     (let p = collection_page (\<lambda>c. c_created_by c = caller) st cursor limit
      in \<lparr>pg_rows = map (\<lambda>c. \<lparr>mg_collection = c, mg_acls = collectionACLs st (c_id c)\<rparr>) (pg_rows p),
          pg_cursor = pg_cursor p, pg_more = pg_more p\<rparr>)"

text \<open>
  The sorted list of items.  A cursor carries the sort value of its last row as text;
  \<open>text_codec\<close> is the formatting of Go (\<open>FormatInt\<close>, \<open>RFC3339Nano\<close>, \<open>FormatBool\<close>) and the casts of
  PostgreSQL that read the text back.
\<close>

record text_codec =
  tc_int :: "int \<Rightarrow> string"
  tc_time :: "time \<Rightarrow> string"
  tc_bool :: "bool \<Rightarrow> string"
  tc_to_int :: "string \<Rightarrow> int option"
  tc_to_time :: "string \<Rightarrow> time option"
  tc_to_bool :: "string \<Rightarrow> bool option"

definition codec_ok :: "text_codec \<Rightarrow> bool" where
  "codec_ok tc \<longleftrightarrow> (\<forall>n. tc_int tc n \<noteq> [] \<and> tc_to_int tc (tc_int tc n) = Some n)
     \<and> (\<forall>t. tc_time tc t \<noteq> [] \<and> tc_to_time tc (tc_time tc t) = Some t)
     \<and> (\<forall>b. tc_bool tc b \<noteq> [] \<and> tc_to_bool tc (tc_bool tc b) = Some b)"

datatype sort_value = SvText string | SvInt int | SvTime time | SvBool bool

fun sv_less :: "sort_value \<Rightarrow> sort_value \<Rightarrow> bool" where
  "sv_less (SvText a) (SvText b) = (a < b)"
| "sv_less (SvInt a) (SvInt b) = (a < b)"
| "sv_less (SvTime a) (SvTime b) = (a < b)"
| "sv_less (SvBool a) (SvBool b) = (\<not> a \<and> b)"
| "sv_less _ _ = False"

definition managed_row :: "store \<Rightarrow> collection_item \<Rightarrow> managed_item" where
  "managed_row st r = (case asset_of st (ci_asset r) of
       None \<Rightarrow> \<lparr>mi_id = ci_id r, mi_name = ci_name r, mi_mime = [], mi_size = 0, mi_created = ci_created r,
                 mi_exempt = ci_exempt r\<rparr>
     | Some a \<Rightarrow> \<lparr>mi_id = ci_id r, mi_name = ci_name r, mi_mime = a_detected_mime a, mi_size = a_size a,
                 mi_created = ci_created r, mi_exempt = ci_exempt r\<rparr>)"

definition sort_of :: "string \<Rightarrow> managed_item \<Rightarrow> sort_value option" where
  "sort_of s r =
     (if s = ''name'' then Some (SvText (mi_name r)) else if s = ''type'' then Some (SvText (mi_mime r))
      else if s = ''size'' then Some (SvInt (mi_size r)) else if s = ''created'' then Some (SvTime (mi_created r))
      else if s = ''retention'' then Some (SvBool (mi_exempt r)) else None)"

text \<open>Reading the value back: a failing cast is an error of the query, \<open>NULLIF\<close> makes empty text NULL.\<close>

definition cast_value :: "text_codec \<Rightarrow> string \<Rightarrow> string \<Rightarrow> sort_value option result" where
  "cast_value tc s v =
     (let nullable = (\<lambda>conv. if v = [] then Ok None else case conv v of None \<Rightarrow> Err (ErrOther ''22P02'') | Some x \<Rightarrow> Ok (Some x))
      in if s = ''size'' then nullable (\<lambda>v. map_option SvInt (tc_to_int tc v))
         else if s = ''created'' then nullable (\<lambda>v. map_option SvTime (tc_to_time tc v))
         else if s = ''retention'' then nullable (\<lambda>v. map_option SvBool (tc_to_bool tc v))
         else Ok (Some (SvText v)))"

definition value_text :: "text_codec \<Rightarrow> string \<Rightarrow> managed_item \<Rightarrow> string" where
  "value_text tc s r =
     (if s = ''type'' then mi_mime r else if s = ''size'' then tc_int tc (mi_size r)
      else if s = ''created'' then tc_time tc (mi_created r) else if s = ''retention'' then tc_bool tc (mi_exempt r)
      else mi_name r)"

fun decodeManagedItemCursor :: "managed_cursor token \<Rightarrow> managed_cursor \<times> bool" where
  "decodeManagedItemCursor NoToken = (\<lparr>mc_value = [], mc_last = [], mc_sort = [], mc_direction = []\<rparr>, True)"
| "decodeManagedItemCursor (BadToken v) = (\<lparr>mc_value = [], mc_last = [], mc_sort = [], mc_direction = []\<rparr>, False)"
| "decodeManagedItemCursor (Token c) = (c, mc_last c \<noteq> [] \<and> mc_sort c \<noteq> [] \<and> mc_direction c \<noteq> [])"

text \<open>The order of the list: by the value and then the id, upwards or downwards.\<close>

definition managed_less :: "bool \<Rightarrow> (sort_value option \<times> string) \<Rightarrow> (sort_value option \<times> string) \<Rightarrow> bool" where
  "managed_less desc x y = (let up = (\<lambda>(a, i) (b, j). case (a, b) of (Some v, Some w) \<Rightarrow> sv_less v w \<or> v = w \<and> i < j | _ \<Rightarrow> False)
     in if desc then up y x else up x y)"

definition to_upper :: "string \<Rightarrow> string" where
  "to_upper s = map (\<lambda>c. if 97 \<le> (of_char c :: nat) \<and> (of_char c :: nat) \<le> 122 then char_of (of_char c - 32 :: nat) else c) s"

definition to_lower :: "string \<Rightarrow> string" where
  "to_lower s = map fold_case s"

definition managed_matches :: "store \<Rightarrow> string \<Rightarrow> string \<Rightarrow> managed_item list" where
  "managed_matches st coll query = map (managed_row st) (filter (\<lambda>r. ci_collection r = coll \<and> ci_deleted_rev r = 0
     \<and> ilike (''%'' @ escape_like query @ ''%'') (ci_name r)) (st_items st))"

definition ListManagedCollectionItems ::
  "text_codec \<Rightarrow> store \<Rightarrow> string \<Rightarrow> string \<Rightarrow> string \<Rightarrow> managed_cursor token \<Rightarrow> int \<Rightarrow> string \<Rightarrow> string
   \<Rightarrow> (managed_item, managed_cursor) page result" where
  "ListManagedCollectionItems tc st coll caller query cursor limit srt direction =
     (case decodeManagedItemCursor cursor of (last_row, ok) \<Rightarrow>
        if \<not> ok \<or> cursor \<noteq> NoToken \<and> (mc_sort last_row \<noteq> srt \<or> mc_direction last_row \<noteq> direction)
        then Err ErrInvalidInput
        else if \<not> exists_row (managed_by coll caller) (st_collections st) then Err ErrNotFound
        else if srt \<notin> {''name'', ''type'', ''size'', ''created'', ''retention''} \<or> to_upper direction \<notin> {''ASC'', ''DESC''}
        then Err (ErrOther ''42601'')
        else
          let n = nat (boundedCollectionLimit limit);
              desc = (to_upper direction = ''DESC'');
              key = (\<lambda>r. (sort_of srt r, mi_id r));
              all = sort_rows (\<lambda>x y. managed_less desc (key x) (key y)) (managed_matches st coll query)
          in bindR (if mc_last last_row = [] then Ok all
                    else bindR (cast_value tc srt (mc_value last_row)) (\<lambda>v.
                         Ok (filter (\<lambda>r. managed_less desc (v, mc_last last_row) (key r)) all)))
               (\<lambda>found. case cut_page n found of (rows, surplus) \<Rightarrow>
                  Ok \<lparr>pg_rows = rows,
                      pg_cursor = (if surplus then let r = last rows in Token \<lparr>mc_value = value_text tc srt r,
                          mc_last = mi_id r, mc_sort = srt, mc_direction = to_lower direction\<rparr> else NoToken),
                      pg_more = surplus\<rparr>))"

section \<open>Content tickets\<close>

definition is_hex64 :: "string \<Rightarrow> bool" where
  "is_hex64 s \<longleftrightarrow> length s = 64 \<and> list_all (\<lambda>c. c \<in> set ''0123456789abcdef'') s"

definition expire_tickets :: "time \<Rightarrow> store \<Rightarrow> store" where
  "expire_tickets now st = st\<lparr>st_tickets := del_where (\<lambda>t. ct_expires t \<le> now) (st_tickets st)\<rparr>"

text \<open>What a ticket opens: a live collection, its active item, the servable asset with the ticket's ETag.\<close>

definition ticket_target :: "store \<Rightarrow> content_ticket \<Rightarrow> (collection \<times> collection_item \<times> asset_row) option" where
  "ticket_target st t =
     Option.bind (sel1 (\<lambda>c. c_id c = ct_collection t \<and> c_deleted c = 0) (st_collections st)) (\<lambda>c.
     Option.bind (active_item st (c_id c) (ct_item t)) (\<lambda>i.
     Option.bind (servable_asset st (ci_asset i)) (\<lambda>a.
       if a_etag a = ct_etag t
          \<and> (ct_access_mode t = ''manager'' \<or> ct_access_mode t = ''reader''
                \<and> hasCollectionACL st (c_id c) \<lparr>cs_user = ct_user t, cs_roles = ct_roles t\<rparr>)
       then Some (c, i, a) else None)))"

definition CreateContentTicket :: "content_ticket \<Rightarrow> time \<Rightarrow> store \<Rightarrow> unit result \<times> store" where
  "CreateContentTicket ticket now st =
     (let st1 = expire_tickets now st;
          mode = (if ct_access_mode ticket = [] then ''reader'' else ct_access_mode ticket);
          t = ticket\<lparr>ct_access_mode := mode\<rparr>
      in if mode \<notin> {''reader'', ''manager''} then (Err ErrNotFound, st)
         else if ticket_target st1 t \<noteq> None \<and> now < ct_expires t \<and> ct_expires t \<le> now + 5 * minute
         then case insert_row (\<lambda>t. is_hex64 (ct_hash t) \<and> ct_etag t \<noteq> [] \<and> ct_user t \<noteq> [])
                     (\<lambda>t u. ct_hash t = ct_hash u) t (st_tickets st1) of
                Inl e \<Rightarrow> (Err e, st)
              | Inr rows \<Rightarrow> (Ok (), st1\<lparr>st_tickets := rows\<rparr>)
         else (Err ErrNotFound, st1))"

definition RedeemContentTicket :: "string \<Rightarrow> time \<Rightarrow> store \<Rightarrow> asset result \<times> store" where
  "RedeemContentTicket hash now st =
     (let st1 = expire_tickets now st
      in case Option.bind (sel1 (\<lambda>t. ct_hash t = hash \<and> now < ct_expires t) (st_tickets st1)) (ticket_target st1) of
           None \<Rightarrow> (Err ErrNotFound, st1)
         | Some (c, i, a) \<Rightarrow>
             (Ok (zero_asset\<lparr>a_id := a_id a, a_namespace := a_namespace a, a_object_key := a_object_key a,
                  a_file_name := ci_name i, a_detected_mime := a_detected_mime a, a_size := a_size a,
                  a_etag := a_etag a, a_upload_status := a_upload_status a, a_scan_status := a_scan_status a,
                  a_processing_status := a_processing_status a, a_visibility := a_visibility a,
                  a_updated := a_updated a\<rparr>), st1))"

section \<open>Reading every page\<close>

definition listed_collections :: "(collection \<Rightarrow> bool) \<Rightarrow> store \<Rightarrow> collection list" where
  "listed_collections P st =
     sort_key c_id (filter (\<lambda>c. P c \<and> c_deleted c = 0 \<and> c_id c \<noteq> []) (st_collections st))"

lemma Nil_less_string: "[] < (s :: string) \<longleftrightarrow> s \<noteq> []"
  by (cases s) auto

lemma bounded_limit_pos: "0 < nat (boundedCollectionLimit limit)"
  by (simp add: boundedCollectionLimit_def collectionListLimit_def)

lemma keyed_sel1_where:
  assumes "keyed k t"
  shows "sel1 (\<lambda>r. k r = k x \<and> P r) t = Some x \<longleftrightarrow> x \<in> set t \<and> P x"
proof
  assume "sel1 (\<lambda>r. k r = k x \<and> P r) t = Some x"
  then show "x \<in> set t \<and> P x" using sel1_Some by fast
next
  assume x: "x \<in> set t \<and> P x"
  show "sel1 (\<lambda>r. k r = k x \<and> P r) t = Some x"
  proof (cases "sel1 (\<lambda>r. k r = k x \<and> P r) t")
    case None
    then show ?thesis using x by (auto simp: sel1_None)
  next
    case (Some y)
    then have "y \<in> set t" "k y = k x" using sel1_Some [OF Some] by auto
    then show ?thesis using Some keyed_eq [OF assms, of y x] x by simp
  qed
qed

interpretation collection_pages: keyset_pages "listed_collections P st" c_id "(<)"
  "nat (boundedCollectionLimit limit)" "\<lambda>c. \<lparr>lc_last = c_id c\<rparr>" lc_last "\<lambda>_. True"
  "\<lambda>c. follow (Ok (collection_page P st (token_of c) limit))"
proof (unfold_locales, goal_cases)
  case (3)
  then show ?case by (rule bounded_limit_pos)
next
  case (5 c)
  have last: "(case decodeListCursor (token_of c) of (m, ok) \<Rightarrow> if ok then lc_last m else [])
      = (case c of None \<Rightarrow> [] | Some m \<Rightarrow> lc_last m)"
    by (cases c) (auto simp: token_of_def)
  have rest: "sort_key c_id (filter (\<lambda>d. P d \<and> c_deleted d = 0 \<and> i < c_id d) (st_collections st))
      = filter (\<lambda>d. i < c_id d) (listed_collections P st)" for i
  proof -
    have "i < c_id d \<longrightarrow> c_id d \<noteq> []" for d by auto
    then have "filter (\<lambda>d. P d \<and> c_deleted d = 0 \<and> i < c_id d) (st_collections st)
        = filter (\<lambda>d. i < c_id d) (filter (\<lambda>d. P d \<and> c_deleted d = 0 \<and> c_id d \<noteq> []) (st_collections st))"
      by (auto intro: filter_cong)
    then show ?thesis by (simp only: listed_collections_def filter_sort)
  qed
  have all: "filter (\<lambda>d. [] < c_id d) (listed_collections P st) = listed_collections P st"
    by (rule filter_True) (simp add: listed_collections_def Nil_less_string)
  have "filter (\<lambda>d. (case c of None \<Rightarrow> [] | Some m \<Rightarrow> lc_last m) < c_id d) (listed_collections P st)
      = (case c of None \<Rightarrow> listed_collections P st | Some m \<Rightarrow> filter (\<lambda>d. lc_last m < c_id d) (listed_collections P st))"
    by (cases c) (simp_all add: all)
  then show ?case
    by (simp add: collection_page_def Let_def last rest cut_page_eq follow_def)
qed auto

lemma listed_in_order:
  assumes "keyed c_id (st_collections st)"
  shows "sorted_wrt (<) (map c_id (listed_collections P st))"
proof -
  have "distinct (map c_id (filter (\<lambda>c. P c \<and> c_deleted c = 0 \<and> c_id c \<noteq> []) (st_collections st)))"
    using assms by (simp add: keyed_def distinct_map_filter)
  then have "distinct (map c_id (listed_collections P st))"
    by (simp add: listed_collections_def distinct_map)
  moreover have "sorted (map c_id (listed_collections P st))" by (simp add: listed_collections_def)
  ultimately show ?thesis by (simp add: strict_sorted_iff)
qed

text \<open>
  C13.  A user who follows the cursors of the list of collections reads, whatever the page size, each
  collection exactly once, in the order of the ids, that the single read would return to the user,
  and no other.
\<close>
theorem authorized_list_complete:
  assumes "cs_user subject \<noteq> []" "keyed c_id (st_collections st)" "\<forall>c\<in>set (st_collections st). c_id c \<noteq> []"
    and "length (st_collections st) < fuel"
  shows "\<exists>rows. read_pages (\<lambda>c. follow (ListAuthorizedCollections st subject (token_of c) limit)) fuel None = Some rows
     \<and> sorted_wrt (<) (map c_id rows)
     \<and> set rows = {c. GetAuthorizedCollection st (c_id c) subject = Ok c}"
proof -
  let ?P = "\<lambda>c. hasCollectionACL st (c_id c) subject"
  let ?rows = "listed_collections ?P st"
  have order: "sorted_wrt (<) (map c_id ?rows)" by (rule listed_in_order [OF assms(2)])
  have "length ?rows \<le> length (st_collections st)" by (simp add: listed_collections_def)
  then have "read_pages (\<lambda>c. follow (Ok (collection_page ?P st (token_of c) limit))) fuel None = Some ?rows"
    using order assms(4)
    by (intro collection_pages.reads_all) (simp_all add: collection_pages.in_order_def sorted_wrt_map)
  moreover have "set ?rows = {c. GetAuthorizedCollection st (c_id c) subject = Ok c}"
  proof -
    have "GetAuthorizedCollection st (c_id c) subject = Ok c \<longleftrightarrow>
        c \<in> set (st_collections st) \<and> c_deleted c = 0 \<and> hasCollectionACL st (c_id c) subject" for c
    proof -
      have "sel1 (\<lambda>d. c_id d = c_id c \<and> c_deleted d = 0) (st_collections st) = Some c
          \<longleftrightarrow> c \<in> set (st_collections st) \<and> c_deleted c = 0"
        by (rule keyed_sel1_where [OF assms(2), of c "\<lambda>d. c_deleted d = 0"])
      then have "getLiveCollection st (c_id c) = Ok c \<longleftrightarrow> c \<in> set (st_collections st) \<and> c_deleted c = 0"
        by (auto simp: getLiveCollection_def split: option.split)
      then show ?thesis using assms(1)
        by (cases "getLiveCollection st (c_id c)") (auto simp: GetAuthorizedCollection_def)
    qed
    then show ?thesis using assms(3) by (auto simp: listed_collections_def)
  qed
  ultimately show ?thesis using order assms(1) by (intro exI [of _ ?rows]) (simp add: ListAuthorizedCollections_def)
qed

definition demo_acl :: collection_acl where
  "demo_acl = \<lparr>acl_id = ''l1'', acl_collection = ''c1'', acl_subject_type = SubjectRole, acl_subject_id = ''staff'',
     acl_permission = PermissionRead, acl_created = 105, acl_revoked = 0\<rparr>"

definition demo_shared :: store where
  "demo_shared = demo_listed\<lparr>st_acls := [demo_acl]\<rparr>"

definition demo_reader :: collection_subject where
  "demo_reader = \<lparr>cs_user = ''u1'', cs_roles = [''staff'']\<rparr>"

lemma demo_shared_tables:
  "st_items demo_shared = st_items demo_listed" "st_collections demo_shared = st_collections demo_listed"
  "st_acls demo_shared = [demo_acl]"
  by (simp_all add: demo_shared_def)

lemma demo_reader_allowed: "hasCollectionACL demo_shared ''c1'' demo_reader"
  by (simp add: hasCollectionACL_def demo_shared_tables demo_acl_def demo_reader_def)

theorem authorized_list_complete_witness:
  "\<exists>rows. read_pages (\<lambda>c. follow (ListAuthorizedCollections demo_shared demo_reader (token_of c) 1)) 2 None = Some rows
     \<and> set rows = {c. GetAuthorizedCollection demo_shared (c_id c) demo_reader = Ok c}"
proof -
  have "cs_user demo_reader \<noteq> []" by (simp add: demo_reader_def)
  moreover have "keyed c_id (st_collections demo_shared)" "\<forall>c\<in>set (st_collections demo_shared). c_id c \<noteq> []"
      "length (st_collections demo_shared) < 2"
    by (simp_all add: demo_shared_tables demo_listed_tables)
  ultimately show ?thesis using authorized_list_complete [of demo_reader demo_shared 2 1] by blast
qed

section \<open>The sorted list of items\<close>

lemma sv_less_trans: "sv_less a b \<Longrightarrow> sv_less b c \<Longrightarrow> sv_less a c"
  by (cases a; cases b; cases c) auto

lemma sv_less_irrefl [simp]: "\<not> sv_less a a"
  by (cases a) auto

definition list_key :: "string \<Rightarrow> managed_item \<Rightarrow> sort_value option \<times> string" where
  "list_key s r = (sort_of s r, mi_id r)"

lemma managed_less_trans: "managed_less desc x y \<Longrightarrow> managed_less desc y z \<Longrightarrow> managed_less desc x z"
  by (cases x; cases y; cases z; cases desc)
     (auto simp: managed_less_def Let_def split: option.splits dest: sv_less_trans)

lemma managed_less_irrefl: "\<not> managed_less desc x x"
  by (cases x; cases desc) (auto simp: managed_less_def Let_def split: option.splits)

definition list_sorts :: "string set" where
  "list_sorts = {''name'', ''type'', ''size'', ''created'', ''retention''}"

lemma sort_of_total:
  assumes "sort_of s r = Some v" "sort_of s q = Some w"
  shows "sv_less v w \<or> v = w \<or> sv_less w v"
  using assms unfolding sort_of_def by (simp split: if_splits) auto

lemma sort_of_known: "s \<in> list_sorts \<Longrightarrow> \<exists>v. sort_of s r = Some v"
  by (auto simp: list_sorts_def sort_of_def)

lemma managed_less_total:
  assumes "s \<in> list_sorts" "mi_id r \<noteq> mi_id q"
  shows "managed_less desc (list_key s r) (list_key s q) \<or> managed_less desc (list_key s q) (list_key s r)"
proof -
  obtain v w where v: "sort_of s r = Some v" "sort_of s q = Some w" using sort_of_known [OF assms(1)] by metis
  have "mi_id r < mi_id q \<or> mi_id q < mi_id r" using assms(2) by (rule neqE) simp_all
  then show ?thesis using sort_of_total [OF v] v by (cases desc) (auto simp: managed_less_def list_key_def)
qed

definition item_rows :: "store \<Rightarrow> string \<Rightarrow> string \<Rightarrow> string \<Rightarrow> bool \<Rightarrow> managed_item list" where
  "item_rows st coll query s desc =
     sort_rows (\<lambda>x y. managed_less desc (list_key s x) (list_key s y)) (managed_matches st coll query)"

lemma managed_row_id [simp]: "mi_id (managed_row st r) = ci_id r" "mi_name (managed_row st r) = ci_name r"
  by (simp_all add: managed_row_def split: option.splits)

lemma item_rows_in_order:
  assumes "keyed ci_id (st_items st)" "s \<in> list_sorts"
  shows "sorted_wrt (\<lambda>x y. managed_less desc (list_key s x) (list_key s y)) (item_rows st coll query s desc)"
  unfolding item_rows_def
proof (rule sorted_sort_rows)
  let ?m = "managed_matches st coll query"
  have ids: "distinct (map mi_id ?m)"
    using assms(1) by (simp add: managed_matches_def comp_def keyed_def distinct_map_filter)
  then show "distinct ?m" by (simp add: distinct_map)
  show "managed_less desc (list_key s x) (list_key s y) \<or> managed_less desc (list_key s y) (list_key s x)"
    if "x \<in> set ?m" "y \<in> set ?m" "x \<noteq> y" for x y
    by (rule managed_less_total [OF assms(2)]) (use ids that in \<open>auto simp: distinct_map inj_on_def\<close>)
qed (rule managed_less_trans)

definition item_mark :: "text_codec \<Rightarrow> string \<Rightarrow> string \<Rightarrow> managed_item \<Rightarrow> managed_cursor" where
  "item_mark tc s direction r = \<lparr>mc_value = value_text tc s r, mc_last = mi_id r, mc_sort = s, mc_direction = direction\<rparr>"

definition item_pos :: "text_codec \<Rightarrow> managed_cursor \<Rightarrow> sort_value option \<times> string" where
  "item_pos tc m = ((case cast_value tc (mc_sort m) (mc_value m) of Inl _ \<Rightarrow> None | Inr v \<Rightarrow> v), mc_last m)"

lemma cast_value_text:
  assumes "codec_ok tc" "s \<in> list_sorts"
  shows "cast_value tc s (value_text tc s r) = Ok (sort_of s r)"
  using assms by (auto simp: list_sorts_def cast_value_def value_text_def sort_of_def codec_ok_def)

text \<open>The cursors this list hands out for its rows.\<close>

definition own_cursor :: "text_codec \<Rightarrow> string \<Rightarrow> string \<Rightarrow> managed_cursor \<Rightarrow> bool" where
  "own_cursor tc s direction m \<longleftrightarrow> mc_sort m = s \<and> mc_direction m = direction \<and> mc_last m \<noteq> []
     \<and> (\<exists>v. cast_value tc s (mc_value m) = Ok v)"

lemma direction_eval:
  "to_upper ''asc'' = ''ASC''" "to_upper ''desc'' = ''DESC''" "to_lower ''ASC'' = ''asc''" "to_lower ''DESC'' = ''desc''"
  "to_lower ''asc'' = ''asc''" "to_lower ''desc'' = ''desc''"
  by code_simp+

lemma direction_case:
  assumes "direction \<in> {''asc'', ''desc''}"
  shows "to_upper direction = (if direction = ''desc'' then ''DESC'' else ''ASC'')" "to_lower (to_upper direction) = direction"
    "to_lower direction = direction"
  using assms by (auto simp: direction_eval)

lemma list_page:
  assumes "codec_ok tc" "s \<in> list_sorts" "direction \<in> {''asc'', ''desc''}"
    and "exists_row (managed_by coll caller) (st_collections st)"
    and "\<And>m. c = Some m \<Longrightarrow> own_cursor tc s direction m"
  shows "follow (ListManagedCollectionItems tc st coll caller query (token_of c) limit s direction) =
    (let rows = item_rows st coll query s (direction = ''desc'');
         rest = (case c of None \<Rightarrow> rows
           | Some m \<Rightarrow> filter (\<lambda>r. managed_less (direction = ''desc'') (item_pos tc m) (list_key s r)) rows);
         n = nat (boundedCollectionLimit limit)
     in (take n rest, if n < length rest then Some (item_mark tc s direction (last (take n rest))) else None))"
proof -
  have dir: "s \<noteq> []" "direction \<noteq> []" "to_upper direction \<in> {''ASC'', ''DESC''}"
    "(to_upper direction = ''DESC'') = (direction = ''desc'')"
    using assms(2,3) direction_case [OF assms(3)] by (auto simp: list_sorts_def)
  show ?thesis
  proof (cases c)
    case None
    then show ?thesis using assms(2,4) dir(3)
      by (simp add: ListManagedCollectionItems_def token_of_def Let_def cut_page_eq follow_def item_rows_def
          list_key_def item_mark_def direction_case [OF assms(3)] list_sorts_def)
  next
    case (Some m)
    then obtain v where m: "mc_sort m = s" "mc_direction m = direction" "mc_last m \<noteq> []"
        "cast_value tc s (mc_value m) = Ok v"
      using assms(5) by (auto simp: own_cursor_def)
    then have pos: "item_pos tc m = (v, mc_last m)" by (simp add: item_pos_def)
    show ?thesis using assms(2,4) dir m Some
      by (simp add: ListManagedCollectionItems_def token_of_def Let_def cut_page_eq follow_def item_rows_def
          list_key_def item_mark_def pos direction_case [OF assms(3)] list_sorts_def)
  qed
qed

text \<open>The list of one collection is a list of keyset pages, for every request.\<close>

lemma item_pages:
  assumes "codec_ok tc" "s \<in> list_sorts" "direction \<in> {''asc'', ''desc''}"
    and "exists_row (managed_by coll caller) (st_collections st)" "\<forall>r\<in>set (st_items st). ci_id r \<noteq> []"
  shows "keyset_pages (item_rows st coll query s (direction = ''desc'')) (list_key s)
    (managed_less (direction = ''desc'')) (nat (boundedCollectionLimit limit)) (item_mark tc s direction)
    (item_pos tc) (own_cursor tc s direction)
    (\<lambda>c. follow (ListManagedCollectionItems tc st coll caller query (token_of c) limit s direction))"
proof (unfold_locales, goal_cases)
  case (1 x y z)
  then show ?case by (rule managed_less_trans)
next
  case (2 x)
  show ?case by (rule managed_less_irrefl)
next
  case 3
  show ?case by (rule bounded_limit_pos)
next
  case (4 r)
  then have "mi_id r \<noteq> []" using assms(5) by (auto simp: item_rows_def managed_matches_def)
  then show ?case using cast_value_text [OF assms(1,2)]
    by (simp add: own_cursor_def item_mark_def item_pos_def list_key_def)
next
  case (5 c)
  show ?case using list_page [OF assms(1-4) 5] by (simp only: Let_def)
qed

text \<open>
  The managing service that follows the cursors of the item list reads, for every sort column,
  direction and page size, each active item of the collection exactly once whose name contains the
  search text (up to letter case, \<open>%\<close>, \<open>_\<close> and the backslash being ordinary characters), in the
  order of the column with the id as tie-break.
\<close>
theorem managed_list_complete:
  assumes "codec_ok tc" "s \<in> list_sorts" "direction \<in> {''asc'', ''desc''}"
    and "exists_row (managed_by coll caller) (st_collections st)"
    and "keyed ci_id (st_items st)" "\<forall>r\<in>set (st_items st). ci_id r \<noteq> []" "length (st_items st) < fuel"
  shows "\<exists>rows. read_pages (\<lambda>c. follow (ListManagedCollectionItems tc st coll caller query (token_of c) limit s direction))
         fuel None = Some rows
     \<and> sorted_wrt (\<lambda>x y. managed_less (direction = ''desc'') (list_key s x) (list_key s y)) rows
     \<and> set rows = managed_row st ` {r \<in> set (st_items st). ci_collection r = coll \<and> ci_deleted_rev r = 0
           \<and> (\<exists>u w v. ci_name r = u @ w @ v \<and> same_folded query w)}"
proof -
  let ?rows = "item_rows st coll query s (direction = ''desc'')"
  have order: "sorted_wrt (\<lambda>x y. managed_less (direction = ''desc'') (list_key s x) (list_key s y)) ?rows"
    by (rule item_rows_in_order [OF assms(5,2)])
  have len: "length ?rows < fuel"
  proof -
    have "length (managed_matches st coll query) \<le> length (st_items st)" by (simp add: managed_matches_def)
    then show ?thesis using assms(7) by (simp add: item_rows_def)
  qed
  have "read_pages (\<lambda>c. follow (ListManagedCollectionItems tc st coll caller query (token_of c) limit s direction))
         fuel None = Some ?rows"
    using keyset_pages.reads_all [OF item_pages [OF assms(1-4,6)] _ len] order
    by (simp add: keyset_pages.in_order_def [OF item_pages [OF assms(1-4,6)]])
  moreover have "set ?rows = managed_row st ` {r \<in> set (st_items st). ci_collection r = coll \<and> ci_deleted_rev r = 0
           \<and> (\<exists>u w v. ci_name r = u @ w @ v \<and> same_folded query w)}"
    unfolding item_rows_def managed_matches_def set_sort_rows set_map set_filter ilike_contains ..
  ultimately show ?thesis using order by blast
qed

text \<open>A codec in unary, to run the list on.\<close>

definition demo_codec :: text_codec where
  "demo_codec = (let enc = (\<lambda>n :: int. (if n < 0 then CHR ''-'' else CHR ''+'') # replicate (nat \<bar>n\<bar>) CHR ''1'');
       dec = (\<lambda>s. case s of [] \<Rightarrow> None | c # cs \<Rightarrow> Some (if c = CHR ''-'' then - int (length cs) else int (length cs)))
     in \<lparr>tc_int = enc, tc_time = enc, tc_bool = (\<lambda>b. if b then ''true'' else ''false''),
         tc_to_int = dec, tc_to_time = dec, tc_to_bool = (\<lambda>s. Some (s = ''true''))\<rparr>)"

lemma demo_codec_ok: "codec_ok demo_codec"
  by (auto simp: codec_ok_def demo_codec_def Let_def)

theorem managed_list_complete_witness:
  "\<exists>rows. read_pages (\<lambda>c. follow (ListManagedCollectionItems demo_codec demo_shared ''c1'' ''hhc-line-function-bot''
         ''HOTO.'' (token_of c) 1 ''created'' ''desc'')) 2 None = Some rows
     \<and> map mi_id rows = [''i1'']"
proof -
  have "''created'' \<in> list_sorts" by (simp add: list_sorts_def)
  moreover have "exists_row (managed_by ''c1'' ''hhc-line-function-bot'') (st_collections demo_shared)"
    by (simp add: demo_shared_tables demo_listed_tables managed_by_def)
  moreover have "keyed ci_id (st_items demo_shared)" "\<forall>r\<in>set (st_items demo_shared). ci_id r \<noteq> []"
      "length (st_items demo_shared) < 2"
    by (simp_all add: demo_shared_tables demo_listed_tables)
  ultimately obtain rows where
    rows: "read_pages (\<lambda>c. follow (ListManagedCollectionItems demo_codec demo_shared ''c1'' ''hhc-line-function-bot''
         ''HOTO.'' (token_of c) 1 ''created'' ''desc'')) 2 None = Some rows"
      "sorted_wrt (\<lambda>x y. managed_less (''desc'' = ''desc'') (list_key ''created'' x) (list_key ''created'' y)) rows"
      "set rows = managed_row demo_shared ` {r \<in> set (st_items demo_shared). ci_collection r = ''c1'' \<and> ci_deleted_rev r = 0
           \<and> (\<exists>u w v. ci_name r = u @ w @ v \<and> same_folded ''HOTO.'' w)}"
    using managed_list_complete [OF demo_codec_ok, of "''created''" "''desc''" "''c1''" "''hhc-line-function-bot''" demo_shared 2 "''HOTO.''" 1]
    by auto
  let ?r = "hd (st_items demo_listed)"
  have "same_folded ''HOTO.'' ''hoto.''" unfolding same_folded_def by code_simp
  define N where "N x \<longleftrightarrow> (\<exists>u w v. x = u @ w @ v \<and> same_folded ''HOTO.'' w)" for x
  have name: "N ''photo.png''"
    unfolding N_def using \<open>same_folded ''HOTO.'' ''hoto.''\<close>
    by (intro exI [of _ "''p''"] exI [of _ "''hoto.''"] exI [of _ "''png''"]) simp
  have r: "ci_name ?r = ''photo.png''" "ci_collection ?r = ''c1''" "ci_deleted_rev ?r = 0"
      "set (st_items demo_shared) = {?r}"
    by (simp_all add: demo_shared_tables demo_listed_tables(1))
  have "{r \<in> set (st_items demo_shared). ci_collection r = ''c1'' \<and> ci_deleted_rev r = 0 \<and> N (ci_name r)} = {?r}"
    unfolding r(4) using name r(1-3) by auto
  then have one: "set rows = {managed_row demo_shared ?r}" using rows(3) unfolding N_def by simp
  have "rows = [managed_row demo_shared ?r]"
  proof (cases rows)
    case (Cons x xs)
    have "xs = []"
    proof (cases xs)
      case (Cons y ys)
      then have "x = y" using one \<open>rows = x # xs\<close> by auto
      then show ?thesis using rows(2) \<open>rows = x # xs\<close> Cons managed_less_irrefl by auto
    qed
    then show ?thesis using one Cons by simp
  qed (use one in simp)
  then show ?thesis using rows(1) by (intro exI [of _ rows]) (simp add: demo_listed_tables(1))
qed

section \<open>Tickets\<close>

lemma ticket_target_tickets [simp]:
  "ticket_target (st\<lparr>st_tickets := x\<rparr>) t = ticket_target st t" "ticket_target (expire_tickets now st) t = ticket_target st t"
  by (simp_all add: ticket_target_def active_item_def servable_asset_def hasCollectionACL_def expire_tickets_def)

text \<open>What redeeming returns for the target of a ticket.\<close>

definition ticket_asset :: "collection_item \<Rightarrow> asset_row \<Rightarrow> asset" where
  "ticket_asset i a = zero_asset\<lparr>a_id := a_id a, a_namespace := a_namespace a, a_object_key := a_object_key a,
     a_file_name := ci_name i, a_detected_mime := a_detected_mime a, a_size := a_size a,
     a_etag := a_etag a, a_upload_status := a_upload_status a, a_scan_status := a_scan_status a,
     a_processing_status := a_processing_status a, a_visibility := a_visibility a, a_updated := a_updated a\<rparr>"

lemma redeem_by_target:
  assumes "keyed ct_hash (st_tickets st)" "t \<in> set (st_tickets st)"
  shows "fst (RedeemContentTicket (ct_hash t) now st) =
    (if now < ct_expires t then (case ticket_target st t of None \<Rightarrow> Err ErrNotFound | Some (c, i, a) \<Rightarrow> Ok (ticket_asset i a))
     else Err ErrNotFound)"
proof -
  have "sel1 (\<lambda>u. ct_hash u = ct_hash t \<and> now < ct_expires u) (st_tickets (expire_tickets now st))
      = (if now < ct_expires t then Some t else None)"
  proof (cases "now < ct_expires t")
    case True
    have "keyed ct_hash (st_tickets (expire_tickets now st))" "t \<in> set (st_tickets (expire_tickets now st))"
      using assms True by (simp_all add: expire_tickets_def keyed_del_where)
    then show ?thesis using keyed_sel1_where [of ct_hash _ t "\<lambda>u. now < ct_expires u"] True by simp
  next
    case False
    have "\<not> (ct_hash u = ct_hash t \<and> now < ct_expires u)" if u: "u \<in> set (st_tickets (expire_tickets now st))" for u
    proof
      assume "ct_hash u = ct_hash t \<and> now < ct_expires u"
      moreover have "u \<in> set (st_tickets st)" using u by (simp add: expire_tickets_def)
      ultimately have "u = t" using keyed_eq [OF assms(1) _ assms(2)] by blast
      then show False using \<open>ct_hash u = ct_hash t \<and> now < ct_expires u\<close> False by simp
    qed
    then have "sel1 (\<lambda>u. ct_hash u = ct_hash t \<and> now < ct_expires u) (st_tickets (expire_tickets now st)) = None"
      unfolding sel1_None by blast
    then show ?thesis using False by simp
  qed
  then show ?thesis
    by (auto simp: RedeemContentTicket_def Let_def ticket_asset_def split: option.splits)
qed

lemma created_ticket:
  assumes "CreateContentTicket ticket now st = (Ok (), st')" "keyed ct_hash (st_tickets st)"
  shows "ct_expires ticket \<le> now + 5 * minute
     \<and> (\<exists>i a. active_item st (ct_collection ticket) (ct_item ticket) = Some i \<and> servable_asset st (ci_asset i) = Some a
          \<and> a_etag a = ct_etag ticket
          \<and> (\<forall>t. fst (RedeemContentTicket (ct_hash ticket) t st')
                   = (if t < ct_expires ticket then Ok (ticket_asset i a) else Err ErrNotFound)))"
proof -
  let ?mode = "if ct_access_mode ticket = [] then ''reader'' else ct_access_mode ticket"
  let ?t = "ticket\<lparr>ct_access_mode := ?mode\<rparr>"
  let ?rows = "st_tickets (expire_tickets now st)"
  have target: "ticket_target st ?t \<noteq> None" "ct_expires ticket \<le> now + 5 * minute"
    and st': "st' = (expire_tickets now st)\<lparr>st_tickets := ?rows @ [?t]\<rparr>" "\<forall>u\<in>set ?rows. ct_hash u \<noteq> ct_hash ticket"
    using assms(1) by (auto simp: CreateContentTicket_def Let_def split: if_splits sum.splits)
  obtain c i a where cia: "ticket_target st ?t = Some (c, i, a)" using target(1) by auto
  then have parts: "c_id c = ct_collection ticket" "active_item st (c_id c) (ct_item ticket) = Some i"
      "servable_asset st (ci_asset i) = Some a" "a_etag a = ct_etag ticket"
    by (auto simp: ticket_target_def bind_eq_Some_conv split: if_splits dest!: sel1_Some)
  have "keyed ct_hash (st_tickets st')"
    using assms(2) st'(2) by (auto simp: st'(1) expire_tickets_def keyed_del_where)
  moreover have "?t \<in> set (st_tickets st')" by (simp add: st'(1))
  ultimately have "fst (RedeemContentTicket (ct_hash ?t) t st')
      = (if t < ct_expires ?t then Ok (ticket_asset i a) else Err ErrNotFound)" for t
    using redeem_by_target [of st' ?t t] cia by (simp add: st'(1))
  then show ?thesis using target(2) parts by auto
qed

text \<open>
  A new ticket works at once and no longer than five minutes: from its creation to its expiry
  it returns the asset of the item it was created for, from then on nothing.
\<close>
theorem ticket_lifetime:
  assumes "CreateContentTicket ticket now st = (Ok (), st')" "keyed ct_hash (st_tickets st)"
  shows "ct_expires ticket \<le> now + 5 * minute
     \<and> (\<exists>i a. active_item st (ct_collection ticket) (ct_item ticket) = Some i \<and> servable_asset st (ci_asset i) = Some a
          \<and> a_etag a = ct_etag ticket
          \<and> (\<forall>t. fst (RedeemContentTicket (ct_hash ticket) t st')
                   = (if t < ct_expires ticket then Ok (ticket_asset i a) else Err ErrNotFound)))"
  by (rule created_ticket [OF assms])

definition demo_ticket :: content_ticket where
  "demo_ticket = \<lparr>ct_hash = replicate 64 CHR ''a'', ct_collection = ''c1'', ct_item = ''i1'', ct_etag = ''e1'',
     ct_user = ''u1'', ct_roles = [''staff''], ct_access_mode = [], ct_expires = 300, ct_created = 120\<rparr>"

lemma demo_shared_asset:
  "servable_asset demo_shared ''a1'' = Some (hd (st_assets demo_listed))" "a_etag (hd (st_assets demo_listed)) = ''e1''"
  "st_tickets demo_shared = []"
  by (simp_all add: demo_shared_def servable_asset_def collection_eval)

lemma demo_ticket_target:
  "ticket_target demo_shared (demo_ticket\<lparr>ct_access_mode := ''reader''\<rparr>)
     = Some (hd (st_collections demo_listed), hd (st_items demo_listed), hd (st_assets demo_listed))"
proof -
  have "\<lparr>cs_user = ''u1'', cs_roles = [''staff'']\<rparr> = demo_reader" by (simp add: demo_reader_def)
  moreover have "sel1 (\<lambda>c. c_id c = ''c1'' \<and> c_deleted c = 0) (st_collections demo_shared) = Some (hd (st_collections demo_listed))"
      "c_id (hd (st_collections demo_listed)) = ''c1''"
      "active_item demo_shared ''c1'' ''i1'' = Some (hd (st_items demo_listed))" "ci_asset (hd (st_items demo_listed)) = ''a1''"
    by (simp_all add: demo_shared_tables demo_listed_tables active_item_def)
  ultimately show ?thesis
    using demo_reader_allowed demo_shared_asset by (simp add: ticket_target_def demo_ticket_def)
qed

lemma demo_ticket_created:
  "CreateContentTicket demo_ticket 120 demo_shared
     = (Ok (), demo_shared\<lparr>st_tickets := [demo_ticket\<lparr>ct_access_mode := ''reader''\<rparr>]\<rparr>)"
proof -
  have "expire_tickets 120 demo_shared = demo_shared"
    using demo_shared_asset(3) by (simp add: expire_tickets_def del_where_def)
  moreover have "is_hex64 (replicate 64 CHR ''a'')" by code_simp
  moreover have "ct_access_mode demo_ticket = []" "ct_expires demo_ticket = 300" "ct_etag demo_ticket \<noteq> []"
      "ct_user demo_ticket \<noteq> []" "ct_hash demo_ticket = replicate 64 CHR ''a''"
    by (simp_all add: demo_ticket_def)
  ultimately show ?thesis
    using demo_ticket_target demo_shared_asset(3)
    by (simp add: CreateContentTicket_def Let_def insert_row_def)
qed

theorem ticket_lifetime_witness:
  "\<exists>i a. servable_asset demo_shared (ci_asset i) = Some a
     \<and> fst (RedeemContentTicket (ct_hash demo_ticket) 299 (snd (CreateContentTicket demo_ticket 120 demo_shared))) = Ok (ticket_asset i a)
     \<and> fst (RedeemContentTicket (ct_hash demo_ticket) 300 (snd (CreateContentTicket demo_ticket 120 demo_shared))) = Err ErrNotFound"
proof -
  have "keyed ct_hash (st_tickets demo_shared)" by (simp add: demo_shared_asset)
  from ticket_lifetime [OF demo_ticket_created this] obtain i a where
    "servable_asset demo_shared (ci_asset i) = Some a"
    "\<forall>t. fst (RedeemContentTicket (ct_hash demo_ticket) t (snd (CreateContentTicket demo_ticket 120 demo_shared)))
       = (if t < ct_expires demo_ticket then Ok (ticket_asset i a) else Err ErrNotFound)"
    unfolding demo_ticket_created snd_conv by blast
  moreover have "ct_expires demo_ticket = 300" by (simp add: demo_ticket_def)
  ultimately show ?thesis by (intro exI [of _ i] exI [of _ a]) simp
qed



end
