(* ===== verification/Change_Feed.thy ===== *)
theory Change_Feed
  imports Collection_Reads "HOL-Library.Product_Lexorder"
begin

text \<open>
  The change feed of a collection: \<open>CollectionChanges\<close>, \<open>collectionResetPage\<close>,
  \<open>collectionDeltaPage\<close> and the cursor functions of \<open>internal/postgres/store.go\<close>.  A reader without
  a valid cursor first reads a snapshot (reset pages), then the events after it (delta pages).  A
  call makes three reads, of the collection, of the rows and again of the collection; other
  transactions may run between them, so each read gets a store of its own.
\<close>

section \<open>Cursors\<close>

definition collectionEventLimit :: nat where "collectionEventLimit = 500"

fun decodeChangeCursor :: "change_cursor token \<Rightarrow> change_cursor option" where
  "decodeChangeCursor NoToken = None"
| "decodeChangeCursor (BadToken v) = None"
| "decodeChangeCursor (Token c) = (if cc_coll c = [] then None else Some c)"

definition validChangeCursor :: "change_cursor \<Rightarrow> string \<Rightarrow> int \<Rightarrow> bool" where
  "validChangeCursor c i revision \<longleftrightarrow>
     cc_coll c = i
     \<and> (if cc_mode c = ModeReset then 0 < cc_high c \<and> cc_high c \<le> revision
        else cc_mode c = ModeDelta \<and> 1 \<le> cc_from c \<and> cc_from c \<le> cc_to c \<and> cc_to c \<le> revision
          \<and> (if cc_after_rev c = 0 then cc_after_kind c = 0 \<and> cc_after_id c = []
             else cc_from c \<le> cc_after_rev c \<and> cc_after_rev c \<le> cc_to c
                \<and> (cc_after_kind c = 0 \<or> cc_after_kind c = 1) \<and> cc_after_id c \<noteq> []))"

definition reset_cursor :: "string \<Rightarrow> int \<Rightarrow> string \<Rightarrow> change_cursor" where
  "reset_cursor i high last_item = \<lparr>cc_mode = ModeReset, cc_coll = i, cc_high = high, cc_last_item = last_item,
     cc_from = 0, cc_to = 0, cc_after_rev = 0, cc_after_kind = 0, cc_after_id = []\<rparr>"

definition delta_cursor :: "string \<Rightarrow> int \<Rightarrow> int \<Rightarrow> int \<Rightarrow> int \<Rightarrow> string \<Rightarrow> change_cursor" where
  "delta_cursor i from to rv kind last_id = \<lparr>cc_mode = ModeDelta, cc_coll = i, cc_high = 0, cc_last_item = [],
     cc_from = from, cc_to = to, cc_after_rev = rv, cc_after_kind = kind, cc_after_id = last_id\<rparr>"

section \<open>The snapshot\<close>

definition feed_item :: "store \<Rightarrow> collection_item \<Rightarrow> collection_item" where
  "feed_item st r = (with_media st r)\<lparr>ci_deleted_rev := 0, ci_deleted := 0\<rparr>"

definition reset_rows :: "store \<Rightarrow> string \<Rightarrow> int \<Rightarrow> string \<Rightarrow> collection_item list" where
  "reset_rows st i high last_item = sort_key ci_id (filter (\<lambda>r. ci_collection r = i \<and> last_item < ci_id r
     \<and> ci_created_rev r \<le> high \<and> (ci_deleted_rev r = 0 \<or> high < ci_deleted_rev r)) (st_items st))"

definition collectionResetPage ::
  "collection \<Rightarrow> change_cursor \<Rightarrow> collection_subject \<Rightarrow> store \<Rightarrow> store \<Rightarrow> change_page result" where
  "collectionResetPage c cursor subject st2 st3 =
     (case cut_page collectionEventLimit (reset_rows st2 (c_id c) (cc_high cursor) (cc_last_item cursor)) of (rows, surplus) \<Rightarrow>
        if surplus then
          Ok \<lparr>cp_collection = c, cp_items = map (feed_item st2) rows, cp_tombstones = [],
              cp_cursor = Token (reset_cursor (c_id c) (cc_high cursor) (ci_id (last rows))), cp_has_more = True, cp_reset = True\<rparr>
        else bindR (GetAuthorizedCollection st3 (c_id c) subject) (\<lambda>current.
          Ok \<lparr>cp_collection = current, cp_items = map (feed_item st2) rows, cp_tombstones = [],
              cp_cursor = Token (delta_cursor (c_id c) (cc_high cursor)
                 (if c_revision current > cc_high cursor then c_revision current else cc_high cursor) 0 0 []),
              cp_has_more = True, cp_reset = True\<rparr>))"

section \<open>The events\<close>

text \<open>An event is a revision, a kind (0 an item, 1 a tombstone) and the item.\<close>

type_synonym event = "int \<times> int \<times> collection_item"

definition event_key :: "event \<Rightarrow> int \<times> int \<times> string" where
  "event_key e = (case e of (n, k, r) \<Rightarrow> (n, k, ci_id r))"

definition item_events :: "collection_item \<Rightarrow> event list" where
  "item_events r = [(ci_updated_rev r, 0, r)] @ (if ci_deleted_rev r = 0 then [] else [(ci_deleted_rev r, 1, r)])"

definition delta_events :: "store \<Rightarrow> string \<Rightarrow> int \<Rightarrow> int \<Rightarrow> int \<times> int \<times> string \<Rightarrow> event list" where
  "delta_events st i from to after = sort_key event_key
     (filter (\<lambda>e. from < fst e \<and> fst e \<le> to \<and> after < event_key e)
        (concat (map item_events (filter (\<lambda>r. ci_collection r = i) (st_items st)))))"

definition event_tombstone :: "collection_item \<Rightarrow> collection_tombstone" where
  "event_tombstone r = \<lparr>t_id = ci_id r, t_remote = ci_remote r, t_deleted_rev = ci_deleted_rev r, t_deleted = ci_deleted r\<rparr>"

definition event_items :: "store \<Rightarrow> event list \<Rightarrow> collection_item list" where
  "event_items st es = map (\<lambda>(n, k, r). feed_item st r) (filter (\<lambda>(n, k, r). k = 0) es)"

definition event_tombstones :: "event list \<Rightarrow> collection_tombstone list" where
  "event_tombstones es = map (\<lambda>(n, k, r). event_tombstone r) (filter (\<lambda>(n, k, r). k \<noteq> 0) es)"

definition collectionDeltaPage ::
  "collection \<Rightarrow> change_cursor \<Rightarrow> collection_subject \<Rightarrow> store \<Rightarrow> store \<Rightarrow> change_page result" where
  "collectionDeltaPage c cursor subject st2 st3 =
     (let to = (if cc_to cursor \<le> cc_from cursor \<and> cc_after_rev cursor = 0 then c_revision c else cc_to cursor);
          after = (if cc_after_rev cursor = 0 then (cc_from cursor, -1, cc_after_id cursor)
                   else (cc_after_rev cursor, cc_after_kind cursor, cc_after_id cursor))
      in case cut_page collectionEventLimit (delta_events st2 (c_id c) (cc_from cursor) to after) of (es, surplus) \<Rightarrow>
        if surplus then
          (case event_key (last es) of (n, k, j) \<Rightarrow>
             Ok \<lparr>cp_collection = c, cp_items = event_items st2 es, cp_tombstones = event_tombstones es,
                 cp_cursor = Token (delta_cursor (c_id c) (cc_from cursor) to n k j), cp_has_more = True, cp_reset = False\<rparr>)
        else bindR (GetAuthorizedCollection st3 (c_id c) subject) (\<lambda>current.
          let behind = c_revision current > to
          in Ok \<lparr>cp_collection = current, cp_items = event_items st2 es, cp_tombstones = event_tombstones es,
                 cp_cursor = Token (delta_cursor (c_id c) to (if behind then c_revision current else to) 0 0 []),
                 cp_has_more = behind, cp_reset = False\<rparr>))"

definition CollectionChanges ::
  "string \<Rightarrow> change_cursor token \<Rightarrow> collection_subject \<Rightarrow> store \<Rightarrow> store \<Rightarrow> store \<Rightarrow> change_page result" where
  "CollectionChanges i cursor subject st1 st2 st3 =
     bindR (GetAuthorizedCollection st1 i subject) (\<lambda>c.
       let start = reset_cursor i (c_revision c) [];
           decoded = (case decodeChangeCursor cursor of
              None \<Rightarrow> start
            | Some d \<Rightarrow> if validChangeCursor d i (c_revision c) then d else start)
       in if cc_mode decoded = ModeReset then collectionResetPage c decoded subject st2 st3
          else collectionDeltaPage c decoded subject st2 st3)"

section \<open>A reader\<close>

text \<open>
  What a client does with a page: a reset page adds its items to a copy that the first reset page
  emptied, a delta page adds its items and then removes its tombstones.  The copy maps the items to
  the revisions of their last change.
\<close>

record reader =
  rd_cursor :: "change_cursor token"
  rd_resetting :: bool
  rd_copy :: "string \<rightharpoonup> int"

definition page_copy :: "collection_item list \<Rightarrow> string \<rightharpoonup> int" where
  "page_copy rs = map_of (map (\<lambda>r. (ci_id r, ci_updated_rev r)) rs)"

definition apply_page :: "bool \<Rightarrow> change_page \<Rightarrow> (string \<rightharpoonup> int) \<Rightarrow> (string \<rightharpoonup> int)" where
  "apply_page fresh p copy = (\<lambda>j. if j \<in> set (map t_id (cp_tombstones p)) then None
     else ((if fresh then Map.empty else copy) ++ page_copy (cp_items p)) j)"

definition take_page :: "change_page \<Rightarrow> reader \<Rightarrow> reader" where
  "take_page p rd = \<lparr>rd_cursor = cp_cursor p, rd_resetting = cp_reset p,
     rd_copy = apply_page (cp_reset p \<and> \<not> rd_resetting rd) p (rd_copy rd)\<rparr>"

text \<open>The reader's requests among the operations of the service.\<close>

inductive reader_step :: "string \<Rightarrow> collection_subject \<Rightarrow> store \<times> reader \<Rightarrow> store \<times> reader \<Rightarrow> bool"
  for i subject where
  server: "collection_step st st' \<Longrightarrow> reader_step i subject (st, rd) (st', rd)"
| read: "collection_step\<^sup>*\<^sup>* st1 st2 \<Longrightarrow> collection_step\<^sup>*\<^sup>* st2 st3
     \<Longrightarrow> CollectionChanges i (rd_cursor rd) subject st1 st2 st3 = Ok p
     \<Longrightarrow> reader_step i subject (st1, rd) (st3, take_page p rd)"

inductive_cases reader_stepE: "reader_step i subject (st, rd) t"

section \<open>Where a reader stands\<close>

definition last_event :: "collection_item \<Rightarrow> int \<times> int \<times> string" where
  "last_event r = (if ci_deleted_rev r = 0 then (ci_updated_rev r, 0, ci_id r) else (ci_deleted_rev r, 1, ci_id r))"

definition shown :: "collection_item \<Rightarrow> int option" where
  "shown r = (if ci_deleted_rev r = 0 then Some (ci_updated_rev r) else None)"

definition in_sync :: "store \<Rightarrow> string \<Rightarrow> (int \<times> int \<times> string \<Rightarrow> string \<Rightarrow> bool) \<Rightarrow> (string \<rightharpoonup> int) \<Rightarrow> bool" where
  "in_sync st i S copy \<longleftrightarrow>
     (\<forall>r\<in>set (st_items st). ci_collection r = i \<longrightarrow> S (last_event r) (ci_id r) \<longrightarrow> copy (ci_id r) = shown r)
     \<and> dom copy \<subseteq> {ci_id r |r. r \<in> set (st_items st) \<and> ci_collection r = i}"

definition ended :: "int \<Rightarrow> int \<times> int \<times> string" where
  "ended n = (n, 2, [])"

definition delta_pos :: "change_cursor \<Rightarrow> int \<times> int \<times> string" where
  "delta_pos d = (if cc_after_rev d = 0 then ended (cc_from d) else (cc_after_rev d, cc_after_kind d, cc_after_id d))"

definition stands :: "store \<Rightarrow> string \<Rightarrow> change_cursor \<Rightarrow> reader \<Rightarrow> bool" where
  "stands st i d rd \<longleftrightarrow> (\<exists>c\<in>set (st_collections st). c_id c = i \<and> validChangeCursor d i (c_revision c)) \<and> rev_inv st
     \<and> (if cc_mode d = ModeReset
        then rd_resetting rd \<and> dom (rd_copy rd) \<subseteq> {..cc_last_item d}
          \<and> in_sync st i (\<lambda>e j. e \<le> ended (cc_high d) \<and> j \<le> cc_last_item d) (rd_copy rd)
        else (cc_after_rev d \<noteq> 0 \<longrightarrow> cc_from d < cc_after_rev d) \<and> in_sync st i (\<lambda>e j. e \<le> delta_pos d) (rd_copy rd))"

definition feed_inv :: "string \<Rightarrow> store \<times> reader \<Rightarrow> bool" where
  "feed_inv i s = (case s of (st, rd) \<Rightarrow>
     rev_inv st \<and> (case decodeChangeCursor (rd_cursor rd) of
         None \<Rightarrow> \<not> rd_resetting rd
       | Some d \<Rightarrow> stands st i d rd))"

text \<open>What had happened by a revision of the collection stays what has happened.\<close>

lemma settled_item:
  assumes h: "hist_le s t" and inv: "rev_inv s" "rev_inv t" and c: "c \<in> set (st_collections s)" "c_id c = i"
    and q: "q \<in> set (st_items t)" "ci_collection q = i" "last_event q \<le> ended n" and n: "n \<le> c_revision c"
  obtains r where "r \<in> set (st_items s)" "ci_collection r = i" "ci_id r = ci_id q"
    "last_event r = last_event q" "shown r = shown q"
proof -
  have far: "\<not> beyond s i m" if "m \<le> n" for m
    using that n c unfolding beyond_def by force
  have "\<exists>h. item_ok h q" using inv(2) q(1) by (auto simp: rev_inv_def)
  then have ok: "ci_created_rev q \<le> n" "ci_updated_rev q \<le> n" "ci_deleted_rev q \<le> n" "0 < n"
    using q(3) by (auto simp: item_ok_def last_event_def ended_def less_eq_prod_simp split: if_splits)
  then obtain r where r: "r \<in> set (st_items s)" "evolves s r q"
    using h q(1,2) far [of "ci_created_rev q"] unfolding hist_le_def by blast
  have "ci_collection r = i" using r(2) q(2) by (simp add: evolves_def)
  moreover from this have "ci_updated_rev q = ci_updated_rev r" "ci_deleted_rev q = ci_deleted_rev r"
    using r(2) far [OF ok(2)] far [OF ok(3)] unfolding evolves_def by metis+
  ultimately show thesis using r q(2) by (intro that [of r]) (simp_all add: evolves_def last_event_def shown_def)
qed

lemma in_sync_later:
  assumes sync: "in_sync s i S copy" and h: "hist_le s t" and inv: "rev_inv s" "rev_inv t"
    and c: "c \<in> set (st_collections s)" "c_id c = i"
    and S: "\<And>e j. S e j \<Longrightarrow> e \<le> ended n" and n: "n \<le> c_revision c"
  shows "in_sync t i S copy"
proof -
  have "copy (ci_id q) = shown q"
    if q: "q \<in> set (st_items t)" "ci_collection q = i" "S (last_event q) (ci_id q)" for q
  proof -
    obtain r where "r \<in> set (st_items s)" "ci_collection r = i" "ci_id r = ci_id q"
      "last_event r = last_event q" "shown r = shown q"
      by (rule settled_item [OF h inv c q(1,2) S [OF q(3)] n])
    then show ?thesis using sync q(3) unfolding in_sync_def by metis
  qed
  moreover have ids: "\<exists>q\<in>set (st_items t). ci_id q = ci_id r \<and> ci_collection q = i"
    if "r \<in> set (st_items s)" "ci_collection r = i" for r
    using h that unfolding hist_le_def evolves_def by metis
  moreover have "j \<in> {ci_id q |q. q \<in> set (st_items t) \<and> ci_collection q = i}" if j: "j \<in> dom copy" for j
  proof -
    obtain r where "j = ci_id r" "r \<in> set (st_items s)" "ci_collection r = i"
      using sync j unfolding in_sync_def by blast
    then show ?thesis using ids [of r] by (metis (mono_tags, lifting) mem_Collect_eq)
  qed
  ultimately show ?thesis unfolding in_sync_def by blast
qed

lemma validChangeCursor_mono: "validChangeCursor d i n \<Longrightarrow> n \<le> m \<Longrightarrow> validChangeCursor d i m"
  by (auto simp: validChangeCursor_def)

lemma delta_pos_le: "validChangeCursor d i n \<Longrightarrow> cc_mode d \<noteq> ModeReset \<Longrightarrow> delta_pos d \<le> ended (cc_to d)"
  by (auto simp: validChangeCursor_def delta_pos_def ended_def less_eq_prod_simp)

lemma stands_later:
  assumes st: "stands s i d rd" and h: "hist_le s t" and inv: "rev_inv t"
  shows "stands t i d rd"
proof -
  obtain c where c: "c \<in> set (st_collections s)" "c_id c = i" "validChangeCursor d i (c_revision c)"
    and s: "rev_inv s" using st by (auto simp: stands_def)
  obtain e where "e \<in> set (st_collections t)" "c_id e = i" "c_revision c \<le> c_revision e"
    using h c(1,2) unfolding hist_le_def by blast
  then have "\<exists>c\<in>set (st_collections t). c_id c = i \<and> validChangeCursor d i (c_revision c)"
    using validChangeCursor_mono [OF c(3)] by blast
  moreover have "in_sync t i (\<lambda>e j. e \<le> ended (cc_high d) \<and> j \<le> cc_last_item d) (rd_copy rd)"
    if "cc_mode d = ModeReset"
    using st that c(3)
    by (intro in_sync_later [OF _ h s inv c(1,2), where n = "cc_high d"])
       (auto simp: stands_def validChangeCursor_def)
  moreover have "in_sync t i (\<lambda>e j. e \<le> delta_pos d) (rd_copy rd)" if "cc_mode d \<noteq> ModeReset"
    using st that c(3) delta_pos_le [OF c(3) that]
    by (intro in_sync_later [OF _ h s inv c(1,2), where n = "cc_to d"])
       (auto simp: stands_def validChangeCursor_def split: if_splits intro: order_trans)
  ultimately show ?thesis using st inv by (simp add: stands_def)
qed

section \<open>One page\<close>

lemma page_copy_None: "j \<notin> ci_id ` set rs \<Longrightarrow> page_copy rs j = None"
  by (auto simp: page_copy_def map_of_eq_None_iff image_iff)

lemma page_copy_row:
  assumes "r \<in> set rs" "\<And>q. q \<in> set rs \<Longrightarrow> ci_id q = ci_id r \<Longrightarrow> ci_updated_rev q = ci_updated_rev r"
  shows "page_copy rs (ci_id r) = Some (ci_updated_rev r)"
proof (cases "page_copy rs (ci_id r)")
  case None
  then show ?thesis using assms(1) by (auto simp: page_copy_def map_of_eq_None_iff image_iff)
next
  case (Some u)
  then have "(ci_id r, u) \<in> set (map (\<lambda>r. (ci_id r, ci_updated_rev r)) rs)"
    unfolding page_copy_def by (rule map_of_SomeD)
  then obtain q where "q \<in> set rs" "ci_id q = ci_id r" "ci_updated_rev q = u" by auto
  then show ?thesis using assms(2) Some by simp
qed

lemma feed_item_keeps [simp]:
  "ci_id (feed_item st r) = ci_id r" "ci_updated_rev (feed_item st r) = ci_updated_rev r"
  by (simp_all add: feed_item_def with_media_def bare_item_def split: option.split)

text \<open>The rows of a page are the smallest keys, and all of those up to the last.\<close>

lemma in_prefix:
  assumes "sorted (map k ys)" "x \<in> set ys" "k x \<le> k (last (take n ys))" "0 < n" "inj_on k (set ys)"
  shows "x \<in> set (take n ys)"
proof (rule ccontr)
  assume no: "x \<notin> set (take n ys)"
  have ne: "take n ys \<noteq> []" using assms(2,4) by (cases ys) auto
  then have l: "last (take n ys) \<in> set (take n ys)" by simp
  have "x \<in> set (drop n ys)" using assms(2) no by (metis UnE append_take_drop_id set_append)
  moreover have "sorted (map k (take n ys) @ map k (drop n ys))"
    using assms(1) by (metis append_take_drop_id map_append)
  ultimately have "k (last (take n ys)) \<le> k x" using l by (auto simp: sorted_append)
  then have "k x = k (last (take n ys))" using assms(3) by simp
  then have "x = last (take n ys)"
    by (rule inj_onD [OF assms(5) _ assms(2)]) (use l in \<open>auto dest: in_set_takeD\<close>)
  then show False using no l by simp
qed

lemma last_prefix:
  assumes "sorted (map k ys)" "x \<in> set (take n ys)"
  shows "k x \<le> k (last (take n ys))"
proof -
  have "sorted (map k (take n ys))" using assms(1) by (metis sorted_wrt_take take_map)
  moreover have "k x \<le> k (last zs)" if "sorted (map k zs)" "x \<in> set zs" for zs
    using that by (induction zs rule: rev_induct) (auto simp: sorted_append)
  ultimately show ?thesis using assms(2) by blast
qed

lemma same_item:
  assumes "rev_inv st" "r \<in> set (st_items st)" "q \<in> set (st_items st)" "ci_id r = ci_id q"
  shows "r = q"
  using assms keyed_eq [of ci_id "st_items st" r q] by (simp add: rev_inv_def)

lemma stored_ok: "rev_inv st \<Longrightarrow> r \<in> set (st_items st) \<Longrightarrow> \<exists>h. item_ok h r"
  by (auto simp: rev_inv_def)

lemma reset_rows_set:
  "r \<in> set (reset_rows st i high l) \<longleftrightarrow> r \<in> set (st_items st) \<and> ci_collection r = i \<and> l < ci_id r
     \<and> ci_created_rev r \<le> high \<and> (ci_deleted_rev r = 0 \<or> high < ci_deleted_rev r)"
  by (auto simp: reset_rows_def)

lemma page_copy_feed:
  assumes inv: "rev_inv st" and ps: "set ps \<subseteq> set (st_items st)" and r: "r \<in> set (st_items st)"
  shows "page_copy (map (feed_item st) ps) (ci_id r) = (if r \<in> set ps then Some (ci_updated_rev r) else None)"
proof (cases "r \<in> set ps")
  case True
  have "page_copy (map (feed_item st) ps) (ci_id (feed_item st r)) = Some (ci_updated_rev (feed_item st r))"
  proof (rule page_copy_row)
    show "feed_item st r \<in> set (map (feed_item st) ps)" using True by simp
    fix q assume "q \<in> set (map (feed_item st) ps)" "ci_id q = ci_id (feed_item st r)"
    then show "ci_updated_rev q = ci_updated_rev (feed_item st r)"
      using same_item [OF inv _ r] ps by fastforce
  qed
  then show ?thesis using True by simp
next
  case False
  have "ci_id r \<notin> ci_id ` set (map (feed_item st) ps)"
    using False same_item [OF inv r] ps by (fastforce simp: image_iff)
  then show ?thesis using False by (simp add: page_copy_None)
qed

lemma dom_page_copy: "dom (page_copy (map (feed_item st) ps)) = ci_id ` set ps"
  by (force simp: page_copy_def dom_map_of_conv_image_fst)

lemma sync_reset_rows:
  assumes inv: "rev_inv st" and sync: "in_sync st i (\<lambda>e j. e \<le> ended high \<and> j \<le> l) copy"
    and l: "dom copy \<subseteq> {..l}" and ps: "set ps \<subseteq> set (reset_rows st i high l)"
    and all: "\<And>r. r \<in> set (reset_rows st i high l) \<Longrightarrow> B (ci_id r) \<Longrightarrow> r \<in> set ps"
  shows "in_sync st i (\<lambda>e j. e \<le> ended high \<and> B j) (copy ++ page_copy (map (feed_item st) ps))"
    (is "in_sync st i _ (copy ++ ?page)")
proof -
  have mem: "q \<in> set (st_items st)" "ci_collection q = i" "l < ci_id q"
      "ci_deleted_rev q = 0 \<or> high < ci_deleted_rev q" if "q \<in> set ps" for q
    using ps that unfolding subset_iff reset_rows_set by blast+
  then have sub: "set ps \<subseteq> set (st_items st)" by blast
  have "(copy ++ ?page) (ci_id r) = shown r"
    if r: "r \<in> set (st_items st)" "ci_collection r = i" "last_event r \<le> ended high" "B (ci_id r)" for r
  proof (cases "ci_id r \<le> l")
    case True
    then have "r \<notin> set ps" using mem(3) by fastforce
    then show ?thesis using sync r True page_copy_feed [OF inv sub r(1)]
      by (simp add: in_sync_def map_add_def)
  next
    case False
    then have out: "copy (ci_id r) = None" using l by (auto simp: domIff)
    have "r \<in> set ps" if live: "ci_deleted_rev r = 0"
    proof -
      have "ci_created_rev r \<le> high"
        using stored_ok [OF inv r(1)] r(3) live
        by (auto simp: item_ok_def last_event_def ended_def less_eq_prod_simp)
      then show ?thesis using r False live by (intro all) (simp_all add: reset_rows_set)
    qed
    moreover have "r \<notin> set ps" if "ci_deleted_rev r \<noteq> 0"
      using mem(4) [of r] r(3) that by (auto simp: last_event_def ended_def less_eq_prod_simp)
    ultimately show ?thesis using out page_copy_feed [OF inv sub r(1)]
      by (auto simp: map_add_def shown_def)
  qed
  moreover have "dom ?page \<subseteq> {ci_id r |r. r \<in> set (st_items st) \<and> ci_collection r = i}"
    using mem(1,2) unfolding dom_page_copy by blast
  ultimately show ?thesis using sync unfolding in_sync_def by (simp add: dom_map_add)
qed

section \<open>Events\<close>

lemma delta_events_set:
  "e \<in> set (delta_events st i from to after) \<longleftrightarrow> (\<exists>r\<in>set (st_items st). ci_collection r = i
     \<and> e \<in> set (item_events r) \<and> from < fst e \<and> fst e \<le> to \<and> after < event_key e)"
  by (auto simp: delta_events_def)

lemma item_events_set:
  "(n, k, q) \<in> set (item_events r) \<longleftrightarrow> q = r \<and> (n = ci_updated_rev r \<and> k = 0
     \<or> n = ci_deleted_rev r \<and> k = 1 \<and> ci_deleted_rev r \<noteq> 0)"
  by (auto simp: item_events_def)

lemma event_before_last:
  assumes "item_ok h r" "(n, k, q) \<in> set (item_events r)"
  shows "event_key (n, k, q) \<le> last_event r"
  using assms by (auto simp: item_events_set item_ok_def event_key_def last_event_def less_eq_prod_simp)

lemma last_event_in:
  "\<exists>n k. (n, k, r) \<in> set (item_events r) \<and> last_event r = event_key (n, k, r) \<and> k = (if ci_deleted_rev r = 0 then 0 else 1)"
  by (auto simp: item_events_set event_key_def last_event_def)

definition upserted :: "event list \<Rightarrow> collection_item list" where
  "upserted es = map (\<lambda>(n, k, r). r) (filter (\<lambda>(n, k, r). k = 0) es)"

lemma page_parts:
  "event_items st es = map (feed_item st) (upserted es)"
  "r \<in> set (upserted es) \<longleftrightarrow> (\<exists>n. (n, 0, r) \<in> set es)"
  "j \<in> set (map t_id (event_tombstones es)) \<longleftrightarrow> (\<exists>n k r. (n, k, r) \<in> set es \<and> k \<noteq> 0 \<and> ci_id r = j)"
  by (force simp: event_items_def upserted_def event_tombstones_def event_tombstone_def)+

lemma delta_event_mem:
  assumes es: "set es \<subseteq> set (delta_events st i from to after)"
    and pos: "\<And>n k j. k \<le> 1 \<Longrightarrow> from < n \<and> after < (n, k, j) \<longleftrightarrow> P < (n, k, j)"
    and e: "(n, k, q) \<in> set es"
  shows "q \<in> set (st_items st) \<and> ci_collection q = i \<and> (n, k, q) \<in> set (item_events q) \<and> P < event_key (n, k, q)"
proof -
  have "(n, k, q) \<in> set (delta_events st i from to after)" using es e by blast
  then obtain r where r: "r \<in> set (st_items st)" "ci_collection r = i" "(n, k, q) \<in> set (item_events r)"
      "from < n" "after < event_key (n, k, q)"
    unfolding delta_events_set by auto
  moreover from r(3) have "q = r" "k \<le> 1" by (auto simp: item_events_set)
  ultimately show ?thesis using pos [of k n "ci_id q"] by (simp add: event_key_def)
qed

lemma delta_page_copy:
  assumes inv: "rev_inv st" and es: "\<And>n k q. (n, k, q) \<in> set es \<Longrightarrow> q \<in> set (st_items st)"
    and p: "cp_items p = event_items st es" "cp_tombstones p = event_tombstones es"
    and r: "r \<in> set (st_items st)"
  shows "apply_page False p copy (ci_id r) = (if \<exists>n k. (n, k, r) \<in> set es \<and> k \<noteq> 0 then None
      else if \<exists>n. (n, 0, r) \<in> set es then Some (ci_updated_rev r) else copy (ci_id r))"
proof -
  have sub: "set (upserted es) \<subseteq> set (st_items st)" using es by (auto simp: page_parts)
  have "ci_id r \<in> set (map t_id (event_tombstones es)) \<longleftrightarrow> (\<exists>n k. (n, k, r) \<in> set es \<and> k \<noteq> 0)"
    using es same_item [OF inv r] unfolding page_parts by metis
  then show ?thesis
    using page_copy_feed [OF inv sub r] by (simp add: apply_page_def p page_parts map_add_def) blast
qed

lemma sync_delta_rows:
  assumes inv: "rev_inv st" and sync: "in_sync st i (\<lambda>e j. e \<le> P) copy"
    and es: "set es \<subseteq> set (delta_events st i from to after)"
    and pos: "\<And>n k j. k \<le> 1 \<Longrightarrow> from < n \<and> after < (n, k, j) \<longleftrightarrow> P < (n, k, j)"
    and all: "\<And>e. e \<in> set (delta_events st i from to after) \<Longrightarrow> event_key e \<le> P' \<Longrightarrow> e \<in> set es"
    and P': "P' \<le> ended to"
    and p: "cp_items p = event_items st es" "cp_tombstones p = event_tombstones es"
  shows "in_sync st i (\<lambda>e j. e \<le> P') (apply_page False p copy)"
proof -
  have mem: "q \<in> set (st_items st) \<and> ci_collection q = i \<and> (n, k, q) \<in> set (item_events q) \<and> P < event_key (n, k, q)"
    if "(n, k, q) \<in> set es" for n k q
    by (rule delta_event_mem [OF es _ that]) (rule pos)
  then have copy': "apply_page False p copy (ci_id r) = (if \<exists>n k. (n, k, r) \<in> set es \<and> k \<noteq> 0 then None
      else if \<exists>n. (n, 0, r) \<in> set es then Some (ci_updated_rev r) else copy (ci_id r))"
    if "r \<in> set (st_items st)" for r
    using delta_page_copy [OF inv _ p that] by blast
  have "apply_page False p copy (ci_id r) = shown r"
    if r: "r \<in> set (st_items st)" "ci_collection r = i" "last_event r \<le> P'" for r
  proof (cases "last_event r \<le> P")
    case True
    obtain h where h: "item_ok h r" using stored_ok [OF inv r(1)] by blast
    have "(n, k, r) \<notin> set es" for n k
      using mem [of n k r] event_before_last [OF h, of n k r] True by force
    then show ?thesis using copy' [OF r(1)] sync r(1,2) True by (simp add: in_sync_def)
  next
    case False
    obtain n k where e: "(n, k, r) \<in> set (item_events r)" "last_event r = event_key (n, k, r)"
        "k = (if ci_deleted_rev r = 0 then 0 else 1)"
      using last_event_in by blast
    have "n \<le> to" using order_trans [OF r(3) P'] e(2) by (auto simp: event_key_def ended_def less_eq_prod_simp)
    moreover have "from < n \<and> after < event_key (n, k, r)"
      using pos [of k n "ci_id r"] False e(2,3) by (simp add: event_key_def)
    ultimately have "(n, k, r) \<in> set (delta_events st i from to after)"
      using r(1,2) e(1) unfolding delta_events_set by auto
    then have es': "(n, k, r) \<in> set es" using all r(3) e(2) by simp
    have "ci_deleted_rev r \<noteq> 0" if "(m, l, r) \<in> set es" "l \<noteq> 0" for m l
      using mem [OF that(1)] that(2) by (simp add: item_events_set)
    moreover have "ci_deleted_rev r \<noteq> 0 \<Longrightarrow> (n, 1, r) \<in> set es" using es' e(3) by simp
    ultimately have tomb: "(\<exists>n k. (n, k, r) \<in> set es \<and> k \<noteq> 0) \<longleftrightarrow> ci_deleted_rev r \<noteq> 0"
      by (metis zero_neq_one)
    have "ci_deleted_rev r = 0 \<Longrightarrow> \<exists>n. (n, 0, r) \<in> set es" using es' e(3) by auto
    then show ?thesis
      using copy' [OF r(1)] unfolding tomb by (cases "ci_deleted_rev r = 0") (simp_all add: shown_def)
  qed
  moreover have "dom (apply_page False p copy) \<subseteq> dom copy \<union> ci_id ` set (upserted es)"
  proof -
    have "dom (apply_page False p copy) \<subseteq> dom (copy ++ page_copy (cp_items p))"
      by (auto simp: apply_page_def dom_def)
    then show ?thesis unfolding dom_map_add p page_parts(1) dom_page_copy by (simp add: Un_commute)
  qed
  moreover have "ci_id ` set (upserted es) \<subseteq> {ci_id r |r. r \<in> set (st_items st) \<and> ci_collection r = i}"
    using mem by (fastforce simp: page_parts(2))
  moreover have "dom copy \<subseteq> {ci_id r |r. r \<in> set (st_items st) \<and> ci_collection r = i}"
    using sync by (simp add: in_sync_def)
  ultimately show ?thesis unfolding in_sync_def by (meson Un_least order_trans)
qed

section \<open>A page moves the reader on\<close>

lemma GetAuthorizedCollection_mem:
  assumes "GetAuthorizedCollection st i subject = Ok c"
  shows "c \<in> set (st_collections st)" "c_id c = i"
  using assms
  by (auto simp: GetAuthorizedCollection_def getLiveCollection_def split: if_splits option.splits)

lemma in_sync_subset: "in_sync st i S copy \<Longrightarrow> (\<And>e j. T e j \<Longrightarrow> S e j) \<Longrightarrow> in_sync st i T copy"
  by (auto simp: in_sync_def)

lemma reset_page_parts:
  assumes "cut_page collectionEventLimit (reset_rows st i high l) = (ps, surplus)"
  shows "set ps \<subseteq> set (reset_rows st i high l)"
    "r \<in> set (reset_rows st i high l) \<Longrightarrow> surplus \<longrightarrow> ci_id r \<le> ci_id (last ps) \<Longrightarrow> inj_on ci_id (set (reset_rows st i high l))
       \<Longrightarrow> r \<in> set ps"
    "surplus \<Longrightarrow> last ps \<in> set ps" "r \<in> set ps \<Longrightarrow> ci_id r \<le> ci_id (last ps)"
proof -
  let ?rows = "reset_rows st i high l"
  have ps: "ps = take 500 ?rows" and s: "surplus \<longleftrightarrow> 500 < length ?rows"
    using assms by (auto simp: cut_page_eq collectionEventLimit_def)
  have sorted: "sorted (map ci_id ?rows)" by (simp add: reset_rows_def)
  show "set ps \<subseteq> set ?rows" unfolding ps by (rule set_take_subset)
  show "r \<in> set ps" if "r \<in> set ?rows" "surplus \<longrightarrow> ci_id r \<le> ci_id (last ps)" "inj_on ci_id (set ?rows)"
    using in_prefix [OF sorted that(1) _ _ that(3), of 500] that(1,2) by (cases surplus) (auto simp: ps s)
  show "last ps \<in> set ps" if surplus
    using that by (intro last_in_set) (auto simp: ps s)
  show "ci_id r \<le> ci_id (last ps)" if "r \<in> set ps"
    using last_prefix [OF sorted] that by (simp add: ps)
qed

lemma reset_page_stands:
  assumes inv: "rev_inv st2" "rev_inv st3" and h: "hist_le st2 st3"
    and c: "c \<in> set (st_collections st2)" "c_id c = i" "0 < high" "high \<le> c_revision c" and i: "i \<noteq> []"
    and sync: "in_sync st2 i (\<lambda>e j. e \<le> ended high \<and> j \<le> l) copy" "dom copy \<subseteq> {..l}"
    and page: "collectionResetPage c1 (reset_cursor i high l) subject st2 st3 = Ok p" "c_id c1 = i"
    and rd: "rd_copy rd = copy ++ page_copy (cp_items p)" "rd_resetting rd"
  shows "cp_reset p \<and> cp_has_more p \<and> (\<exists>d. decodeChangeCursor (cp_cursor p) = Some d \<and> stands st3 i d rd)"
proof -
  obtain ps surplus where cut: "cut_page collectionEventLimit (reset_rows st2 i high l) = (ps, surplus)"
    by fastforce
  note parts = reset_page_parts [OF cut]
  have inj: "inj_on ci_id (set (reset_rows st2 i high l))"
    using same_item [OF inv(1)] by (auto simp: inj_on_def reset_rows_set)
  obtain c3 where c3: "c3 \<in> set (st_collections st3)" "c_id c3 = i" "c_revision c \<le> c_revision c3"
    using h c(1,2) unfolding hist_le_def by blast
  have items: "cp_items p = map (feed_item st2) ps"
    using page cut by (auto simp: collectionResetPage_def reset_cursor_def split: if_splits)
  have synced: "in_sync st3 i (\<lambda>e j. e \<le> ended high \<and> (surplus \<longrightarrow> j \<le> ci_id (last ps))) (rd_copy rd)"
    unfolding rd(1) items
    by (rule in_sync_later [OF sync_reset_rows [OF inv(1) sync parts(1)] h inv c(1,2) _ c(4)])
       (use parts(2) inj in auto)
  show ?thesis
  proof (cases surplus)
    case True
    have "l < ci_id (last ps)" using parts(1) parts(3) [OF True] by (auto simp: reset_rows_set)
    then have "dom copy \<subseteq> {..ci_id (last ps)}" using order_trans [OF sync(2)] by (simp add: less_imp_le)
    moreover have "ci_id ` set ps \<subseteq> {..ci_id (last ps)}" using parts(4) by auto
    ultimately have below: "dom (rd_copy rd) \<subseteq> {..ci_id (last ps)}"
      unfolding rd(1) items dom_map_add dom_page_copy by (rule Un_least [rotated])
    have "validChangeCursor (reset_cursor i high (ci_id (last ps))) i (c_revision c3)"
      using c(3,4) c3(3) by (simp add: validChangeCursor_def reset_cursor_def)
    then have "stands st3 i (reset_cursor i high (ci_id (last ps))) rd"
      using below synced True inv(2) rd(2) c3(1,2) by (auto simp: stands_def reset_cursor_def)
    then show ?thesis using page cut True i
      by (auto simp: collectionResetPage_def reset_cursor_def)
  next
    case False
    obtain e where e: "GetAuthorizedCollection st3 i subject = Ok e"
      and p: "cp_reset p" "cp_has_more p" "cp_cursor p = Token (delta_cursor i high (max (c_revision e) high) 0 0 [])"
      using page cut False by (auto simp: collectionResetPage_def reset_cursor_def max_def)
    note eq = GetAuthorizedCollection_mem [OF e]
    have "c_revision e = c_revision c3"
      using keyed_eq [of c_id "st_collections st3" e c3] inv(2) eq c3(1,2) by (simp add: rev_inv_def)
    then have "validChangeCursor (delta_cursor i high (max (c_revision e) high) 0 0 []) i (c_revision e)"
      using c(3,4) c3(3) by (auto simp: validChangeCursor_def delta_cursor_def)
    then have "stands st3 i (delta_cursor i high (max (c_revision e) high) 0 0 []) rd"
      using synced False inv(2) eq by (auto simp: stands_def delta_cursor_def delta_pos_def)
    then show ?thesis using p i by (simp add: delta_cursor_def)
  qed
qed

lemma delta_page_parts:
  assumes inv: "rev_inv st" and cut: "cut_page collectionEventLimit (delta_events st i from to after) = (es, surplus)"
  shows "set es \<subseteq> set (delta_events st i from to after)"
    "e \<in> set (delta_events st i from to after) \<Longrightarrow> surplus \<longrightarrow> event_key e \<le> event_key (last es) \<Longrightarrow> e \<in> set es"
    "surplus \<Longrightarrow> last es \<in> set es"
proof -
  let ?rows = "delta_events st i from to after"
  have es: "es = take 500 ?rows" and s: "surplus \<longleftrightarrow> 500 < length ?rows"
    using cut by (auto simp: cut_page_eq collectionEventLimit_def)
  have sorted: "sorted (map event_key ?rows)" by (simp add: delta_events_def)
  have inj: "inj_on event_key (set ?rows)"
  proof (rule inj_onI)
    fix x y assume "x \<in> set ?rows" "y \<in> set ?rows" and eq: "event_key x = event_key y"
    then obtain r q where rq: "r \<in> set (st_items st)" "x \<in> set (item_events r)" "q \<in> set (st_items st)"
        "y \<in> set (item_events q)"
      unfolding delta_events_set by blast
    obtain n k r' m l q' where xy: "x = (n, k, r')" "y = (m, l, q')" by (metis prod_cases3)
    then have "r' = r" "q' = q" using rq(2,4) by (auto simp: item_events_set)
    then show "x = y" using eq xy same_item [OF inv rq(1,3)] by (simp add: event_key_def)
  qed
  show "set es \<subseteq> set ?rows" unfolding es by (rule set_take_subset)
  show "e \<in> set es" if "e \<in> set ?rows" "surplus \<longrightarrow> event_key e \<le> event_key (last es)"
    using in_prefix [OF sorted that(1) _ _ inj, of 500] that by (cases surplus) (auto simp: es s)
  show "last es \<in> set es" if surplus
    using that by (intro last_in_set) (auto simp: es s)
qed

definition delta_to :: "collection \<Rightarrow> change_cursor \<Rightarrow> int" where
  "delta_to c d = (if cc_to d \<le> cc_from d \<and> cc_after_rev d = 0 then c_revision c else cc_to d)"

definition delta_after :: "change_cursor \<Rightarrow> int \<times> int \<times> string" where
  "delta_after d = (if cc_after_rev d = 0 then (cc_from d, -1, cc_after_id d)
     else (cc_after_rev d, cc_after_kind d, cc_after_id d))"

lemma delta_page_eq:
  assumes "cut_page collectionEventLimit (delta_events st2 i (cc_from d) (delta_to c d) (delta_after d)) = (es, surplus)"
    "c_id c = i"
  shows "collectionDeltaPage c d subject st2 st3 = (if surplus then
      (case event_key (last es) of (n, k, j) \<Rightarrow>
         Ok \<lparr>cp_collection = c, cp_items = event_items st2 es, cp_tombstones = event_tombstones es,
             cp_cursor = Token (delta_cursor i (cc_from d) (delta_to c d) n k j), cp_has_more = True, cp_reset = False\<rparr>)
    else bindR (GetAuthorizedCollection st3 i subject) (\<lambda>current.
      Ok \<lparr>cp_collection = current, cp_items = event_items st2 es, cp_tombstones = event_tombstones es,
          cp_cursor = Token (delta_cursor i (delta_to c d)
            (if c_revision current > delta_to c d then c_revision current else delta_to c d) 0 0 []),
          cp_has_more = c_revision current > delta_to c d, cp_reset = False\<rparr>))"
  using assms unfolding collectionDeltaPage_def delta_to_def [symmetric] delta_after_def [symmetric] by (simp add: Let_def)

text \<open>The position of a cursor is where the query goes on.\<close>

lemma delta_after_pos:
  assumes "cc_after_rev d \<noteq> 0 \<longrightarrow> cc_from d < cc_after_rev d" "k \<le> 1"
  shows "cc_from d < n \<and> delta_after d < (n, k, j) \<longleftrightarrow> delta_pos d < (n, k, j)"
  using assms by (auto simp: delta_pos_def delta_after_def ended_def less_prod_simp)

lemma delta_page_synced:
  assumes inv: "rev_inv st2" "rev_inv st3" and h: "hist_le st2 st3"
    and c2: "c2 \<in> set (st_collections st2)" "c_id c2 = i" "delta_to c1 d \<le> c_revision c2"
    and d: "cc_after_rev d \<noteq> 0 \<longrightarrow> cc_from d < cc_after_rev d"
    and sync: "in_sync st2 i (\<lambda>e j. e \<le> delta_pos d) copy"
    and cut: "cut_page collectionEventLimit (delta_events st2 i (cc_from d) (delta_to c1 d) (delta_after d)) = (es, surplus)"
    and p: "cp_items p = event_items st2 es" "cp_tombstones p = event_tombstones es"
    and P': "P' \<le> ended (delta_to c1 d)" "surplus \<longrightarrow> P' = event_key (last es)"
  shows "in_sync st3 i (\<lambda>e j. e \<le> P') (apply_page False p copy)"
proof -
  note parts = delta_page_parts [OF inv(1) cut]
  have "in_sync st2 i (\<lambda>e j. e \<le> P') (apply_page False p copy)"
    by (rule sync_delta_rows [OF inv(1) sync parts(1) _ _ P'(1) p])
       (use parts(2) P'(2) delta_after_pos [OF d] in auto)
  then show ?thesis
    by (rule in_sync_later [OF _ h inv c2(1,2) _ c2(3)]) (use P'(1) order_trans in blast)
qed

lemma delta_page_stands:
  assumes inv: "rev_inv st2" "rev_inv st3" and h: "hist_le st2 st3"
    and c2: "c2 \<in> set (st_collections st2)" "c_id c2 = i" "c_revision c1 \<le> c_revision c2" and i: "i \<noteq> []"
    and d: "validChangeCursor d i (c_revision c1)" "cc_mode d \<noteq> ModeReset" "cc_after_rev d \<noteq> 0 \<longrightarrow> cc_from d < cc_after_rev d"
    and sync: "in_sync st2 i (\<lambda>e j. e \<le> delta_pos d) (rd_copy rd)"
    and page: "collectionDeltaPage c1 d subject st2 st3 = Ok p" "c_id c1 = i"
  shows "\<not> cp_reset p \<and> (\<exists>d'. decodeChangeCursor (cp_cursor p) = Some d' \<and> stands st3 i d' (take_page p rd)
     \<and> (\<not> cp_has_more p \<longrightarrow> cc_mode d' = ModeDelta \<and> cc_after_rev d' = 0
          \<and> (\<exists>c\<in>set (st_collections st3). c_id c = i \<and> c_revision c = cc_from d')))"
proof -
  let ?to = "delta_to c1 d"
  have bounds: "1 \<le> cc_from d" "cc_from d \<le> ?to" "?to \<le> c_revision c1"
    using d(1,2) by (auto simp: validChangeCursor_def delta_to_def)
  obtain es surplus where cut: "cut_page collectionEventLimit (delta_events st2 i (cc_from d) ?to (delta_after d)) = (es, surplus)"
    by fastforce
  note parts = delta_page_parts [OF inv(1) cut] and eq = page(1) [unfolded delta_page_eq [OF cut page(2)]]
  have p: "cp_items p = event_items st2 es" "cp_tombstones p = event_tombstones es" "\<not> cp_reset p"
    using eq by (auto split: if_splits prod.splits)
  have to2: "?to \<le> c_revision c2" using bounds(3) c2(3) by simp
  have synced: "in_sync st3 i (\<lambda>e j. e \<le> P') (rd_copy (take_page p rd))"
    if "P' \<le> ended ?to" "surplus \<longrightarrow> P' = event_key (last es)" for P'
    using delta_page_synced [OF inv h c2(1,2) to2 d(3) sync cut p(1,2) that] p(3) by (simp add: take_page_def)
  obtain c3 where c3: "c3 \<in> set (st_collections st3)" "c_id c3 = i" "c_revision c2 \<le> c_revision c3"
    using h c2(1,2) unfolding hist_le_def by blast
  show ?thesis
  proof (cases surplus)
    case True
    obtain n k r where l: "last es = (n, k, r)" by (metis prod_cases3)
    then obtain q where q: "q \<in> set (st_items st2)" "(n, k, r) \<in> set (item_events q)" "cc_from d < n" "n \<le> ?to"
      using parts(1) parts(3) [OF True] unfolding subset_iff delta_events_set by force
    then have "k = 0 \<or> k = 1" "ci_id r \<noteq> []"
      using stored_ok [OF inv(1) q(1)] by (auto simp: item_events_set item_ok_def)
    then have "stands st3 i (delta_cursor i (cc_from d) ?to n k (ci_id r)) (take_page p rd)"
      using synced [of "(n, k, ci_id r)"] inv(2) c3 to2 bounds q(3,4) l
      by (auto simp: stands_def delta_cursor_def validChangeCursor_def delta_pos_def event_key_def ended_def less_eq_prod_simp)
    then show ?thesis using p(3) eq True l i by (auto simp: event_key_def delta_cursor_def)
  next
    case False
    obtain e where e: "GetAuthorizedCollection st3 i subject = Ok e"
      and cur: "cp_has_more p \<longleftrightarrow> c_revision e > ?to"
        "cp_cursor p = Token (delta_cursor i ?to (if c_revision e > ?to then c_revision e else ?to) 0 0 [])"
      using eq False by auto
    note mem = GetAuthorizedCollection_mem [OF e]
    have "c_revision e = c_revision c3"
      using keyed_eq [of c_id "st_collections st3" e c3] inv(2) mem c3(1,2) by (simp add: rev_inv_def)
    then have le: "?to \<le> c_revision e" using to2 c3(3) by simp
    then have "stands st3 i (delta_cursor i ?to (if c_revision e > ?to then c_revision e else ?to) 0 0 []) (take_page p rd)"
      using synced [of "ended ?to"] inv(2) mem bounds False
      by (auto simp: stands_def delta_cursor_def validChangeCursor_def delta_pos_def)
    then show ?thesis using p(3) cur i mem le by (auto simp: delta_cursor_def)
  qed
qed

section \<open>The copy follows the collection\<close>

definition active_copy :: "store \<Rightarrow> string \<Rightarrow> string \<rightharpoonup> int" where
  "active_copy st i j = map_option ci_updated_rev (active_item st i j)"

lemma active_copy_eq:
  assumes "rev_inv st" "c \<in> set (st_collections st)" "c_id c = i"
    and sync: "in_sync st i (\<lambda>e j. e \<le> ended (c_revision c)) copy"
  shows "copy = active_copy st i"
proof
  fix j
  have copy: "copy (ci_id r) = shown r" if r: "r \<in> set (st_items st)" "ci_collection r = i" for r
  proof -
    have "item_ok (c_revision c) r" using items_of_collection_ok [OF assms(1,2) r(1)] r(2) assms(3) by simp
    then have "last_event r \<le> ended (c_revision c)"
      by (auto simp: item_ok_def last_event_def ended_def less_eq_prod_simp)
    then show ?thesis using sync r by (simp add: in_sync_def)
  qed
  show "copy j = active_copy st i j"
  proof (cases "active_item st i j")
    case None
    then have gone: "ci_deleted_rev r \<noteq> 0" if "r \<in> set (st_items st)" "ci_collection r = i" "ci_id r = j" for r
      using that by (auto simp: active_item_def sel1_None)
    have "copy j = None"
    proof (rule ccontr)
      assume "copy j \<noteq> None"
      then obtain r where r: "r \<in> set (st_items st)" "ci_collection r = i" "ci_id r = j"
        using sync unfolding in_sync_def by blast
      then show False using copy [OF r(1,2)] gone [OF r] \<open>copy j \<noteq> None\<close> by (simp add: shown_def)
    qed
    then show ?thesis using None by (simp add: active_copy_def)
  next
    case (Some r)
    then have "r \<in> set (st_items st)" "ci_collection r = i" "ci_id r = j" "ci_deleted_rev r = 0"
      by (auto simp: active_item_def dest!: sel1_Some)
    then show ?thesis using copy [of r] Some by (simp add: shown_def active_copy_def)
  qed
qed

lemma feed_restart:
  assumes "decodeChangeCursor (rd_cursor rd) = None"
  shows "CollectionChanges i (rd_cursor rd) subject st1 st2 st3 = bindR (GetAuthorizedCollection st1 i subject)
     (\<lambda>c. collectionResetPage c (reset_cursor i (c_revision c) []) subject st2 st3)"
  using assms by (simp add: CollectionChanges_def reset_cursor_def)

lemma feed_resume:
  assumes "decodeChangeCursor (rd_cursor rd) = Some d" "stands st1 i d rd"
  shows "CollectionChanges i (rd_cursor rd) subject st1 st2 st3 = bindR (GetAuthorizedCollection st1 i subject)
     (\<lambda>c. if cc_mode d = ModeReset then collectionResetPage c d subject st2 st3 else collectionDeltaPage c d subject st2 st3)"
proof -
  have "validChangeCursor d i (c_revision c)" if "GetAuthorizedCollection st1 i subject = Ok c" for c
    using assms(2) keyed_eq [of c_id "st_collections st1" c] GetAuthorizedCollection_mem [OF that]
    by (force simp: stands_def rev_inv_def)
  then show ?thesis using assms(1)
    by (cases "GetAuthorizedCollection st1 i subject") (auto simp: CollectionChanges_def Let_def)
qed

lemma collectionResetPage_cursor:
  "collectionResetPage c d subject st2 st3 = collectionResetPage c (reset_cursor i (cc_high d) (cc_last_item d)) subject st2 st3"
proof -
  have "cc_high (reset_cursor i (cc_high d) (cc_last_item d)) = cc_high d"
       "cc_last_item (reset_cursor i (cc_high d) (cc_last_item d)) = cc_last_item d"
    by (simp_all add: reset_cursor_def)
  then show ?thesis unfolding collectionResetPage_def by (simp only:)
qed

lemma read_resumes:
  assumes st: "stands st1 i d rd" "stands st2 i d rd"
    and inv: "rev_inv st1" "hist_le st1 st2" "rev_inv st3" "hist_le st2 st3"
    and i: "i \<noteq> []" and c: "GetAuthorizedCollection st1 i subject = Ok c"
    and p: "(if cc_mode d = ModeReset then collectionResetPage c d subject st2 st3
               else collectionDeltaPage c d subject st2 st3) = Ok p"
    and cur: "decodeChangeCursor (rd_cursor rd) = Some d"
  shows "feed_inv i (st3, take_page p rd) \<and> (\<not> cp_has_more p \<longrightarrow> rd_copy (take_page p rd) = active_copy st3 i)"
proof -
  note mem = GetAuthorizedCollection_mem [OF c]
  have inv2: "rev_inv st2" using st(2) by (simp add: stands_def)
  have valid: "validChangeCursor d i (c_revision c)"
    using st(1) keyed_eq [of c_id "st_collections st1" c] mem by (force simp: stands_def rev_inv_def)
  obtain c2 where c2: "c2 \<in> set (st_collections st2)" "c_id c2 = i" "c_revision c \<le> c_revision c2"
    using inv(2) mem unfolding hist_le_def by blast
  show ?thesis
  proof (cases "cc_mode d = ModeReset")
    case True
    then have r: "rd_resetting rd" "dom (rd_copy rd) \<subseteq> {..cc_last_item d}"
        "in_sync st2 i (\<lambda>e j. e \<le> ended (cc_high d) \<and> j \<le> cc_last_item d) (rd_copy rd)"
      using st(2) by (simp_all add: stands_def)
    have pos: "0 < cc_high d" "cc_high d \<le> c_revision c2"
      using valid True c2(3) by (simp_all add: validChangeCursor_def)
    have page: "collectionResetPage c (reset_cursor i (cc_high d) (cc_last_item d)) subject st2 st3 = Ok p"
      using p True collectionResetPage_cursor [of c d] by simp
    let ?rd = "\<lparr>rd_cursor = cp_cursor p, rd_resetting = True, rd_copy = rd_copy rd ++ page_copy (cp_items p)\<rparr>"
    have res: "cp_reset p \<and> cp_has_more p \<and> (\<exists>d. decodeChangeCursor (cp_cursor p) = Some d \<and> stands st3 i d ?rd)"
      by (rule reset_page_stands [OF inv2 inv(3,4) c2(1,2) pos i r(3,2) page mem(2)]) simp_all
    moreover have "cp_tombstones p = []"
      using page by (auto simp: collectionResetPage_def split: prod.splits if_splits)
    ultimately have "take_page p rd = ?rd"
      using r(1) by (simp add: take_page_def apply_page_def)
    then show ?thesis using res inv(3) by (auto simp: feed_inv_def)
  next
    case False
    then have s: "cc_after_rev d \<noteq> 0 \<longrightarrow> cc_from d < cc_after_rev d" "in_sync st2 i (\<lambda>e j. e \<le> delta_pos d) (rd_copy rd)"
      using st(2) by (simp_all add: stands_def)
    have page: "collectionDeltaPage c d subject st2 st3 = Ok p" using p False by simp
    obtain d' where d': "decodeChangeCursor (cp_cursor p) = Some d'" "stands st3 i d' (take_page p rd)"
      and caught_up: "\<not> cp_has_more p \<longrightarrow> cc_mode d' = ModeDelta \<and> cc_after_rev d' = 0
          \<and> (\<exists>c\<in>set (st_collections st3). c_id c = i \<and> c_revision c = cc_from d')"
      using delta_page_stands [OF inv2 inv(3,4) c2 i valid False s page mem(2)] by blast
    have "rd_copy (take_page p rd) = active_copy st3 i" if last: "\<not> cp_has_more p"
    proof -
      obtain e where e: "e \<in> set (st_collections st3)" "c_id e = i" "c_revision e = cc_from d'"
        and m: "cc_mode d' = ModeDelta" "cc_after_rev d' = 0" using caught_up last by blast
      have "in_sync st3 i (\<lambda>e j. e \<le> ended (cc_from d')) (rd_copy (take_page p rd))"
        using d'(2) m by (simp add: stands_def delta_pos_def)
      then show ?thesis using active_copy_eq [OF inv(3) e(1,2)] e(3) by simp
    qed
    then show ?thesis using d' inv(3) by (simp add: feed_inv_def take_page_def)
  qed
qed

lemma read_moves:
  assumes inv: "feed_inv i (st1, rd)" and i: "i \<noteq> []"
    and run: "collection_step\<^sup>*\<^sup>* st1 st2" "collection_step\<^sup>*\<^sup>* st2 st3"
    and page: "CollectionChanges i (rd_cursor rd) subject st1 st2 st3 = Ok p"
  shows "feed_inv i (st3, take_page p rd) \<and> (\<not> cp_has_more p \<longrightarrow> rd_copy (take_page p rd) = active_copy st3 i)"
proof -
  have inv1: "rev_inv st1" using inv by (simp add: feed_inv_def)
  note h12 = collection_steps_keep [OF run(1) inv1]
  note h23 = collection_steps_keep [OF run(2) conjunct1 [OF h12]]
  show ?thesis
  proof (cases "decodeChangeCursor (rd_cursor rd)")
    case None
    then obtain c where c: "GetAuthorizedCollection st1 i subject = Ok c"
      and p: "collectionResetPage c (reset_cursor i (c_revision c) []) subject st2 st3 = Ok p"
      using page feed_restart [OF None] by auto
    note mem = GetAuthorizedCollection_mem [OF c]
    have pos: "0 < c_revision c" using inv1 mem(1) by (force simp: rev_inv_def)
    obtain c2 where c2: "c2 \<in> set (st_collections st2)" "c_id c2 = i" "c_revision c \<le> c_revision c2"
      using h12 mem unfolding hist_le_def by blast
    have "ci_id r \<noteq> []" if "r \<in> set (st_items st2)" for r
      using stored_ok [of st2, OF _ that] h12 by (auto simp: item_ok_def)
    then have start: "in_sync st2 i (\<lambda>e j. e \<le> ended (c_revision c) \<and> j \<le> []) Map.empty"
      by (auto simp: in_sync_def)
    let ?rd = "\<lparr>rd_cursor = cp_cursor p, rd_resetting = True, rd_copy = Map.empty ++ page_copy (cp_items p)\<rparr>"
    have res: "cp_reset p \<and> cp_has_more p \<and> (\<exists>d. decodeChangeCursor (cp_cursor p) = Some d \<and> stands st3 i d ?rd)"
      by (rule reset_page_stands [OF conjunct1 [OF h12] conjunct1 [OF h23] conjunct2 [OF h23] c2(1,2) pos c2(3) i start _ p])
         (use mem(2) in simp_all)
    moreover have "cp_tombstones p = []"
      using p by (auto simp: collectionResetPage_def split: prod.splits if_splits)
    ultimately have "take_page p rd = ?rd"
      using inv None by (auto simp: take_page_def apply_page_def feed_inv_def)
    then show ?thesis using res h23 by (auto simp: feed_inv_def)
  next
    case (Some d)
    then have st1: "stands st1 i d rd" using inv by (simp add: feed_inv_def)
    have st2: "stands st2 i d rd" using stands_later [OF st1] h12 by blast
    obtain c where c: "GetAuthorizedCollection st1 i subject = Ok c"
      and p: "(if cc_mode d = ModeReset then collectionResetPage c d subject st2 st3
               else collectionDeltaPage c d subject st2 st3) = Ok p"
      using page feed_resume [OF Some st1] by auto
    show ?thesis using read_resumes [OF st1 st2 inv1 _ _ _ i c p Some] h12 h23 by blast
  qed
qed

lemma reader_keeps:
  assumes "(reader_step i subject)\<^sup>*\<^sup>* s t" "feed_inv i s" "i \<noteq> []"
  shows "feed_inv i t"
  using assms
proof (induction rule: rtranclp_induct)
  case (step t u)
  obtain st rd where t: "t = (st, rd)" by fastforce
  have inv: "feed_inv i (st, rd)" using step by (simp add: t)
  show ?case
  proof (rule reader_stepE [OF step.hyps(2) [unfolded t]])
    fix st' assume s: "collection_step st st'" and u: "u = (st', rd)"
    have "rev_inv st' \<and> hist_le st st'"
      using inv collection_step_keeps [OF s] by (simp add: feed_inv_def keeps_def)
    then show ?thesis using inv stands_later unfolding u
      by (auto simp: feed_inv_def split: option.splits)
  next
    fix st2 st3 p assume "collection_step\<^sup>*\<^sup>* st st2" "collection_step\<^sup>*\<^sup>* st2 st3"
      "CollectionChanges i (rd_cursor rd) subject st st2 st3 = Ok p" "u = (st3, take_page p rd)"
    then show ?thesis using read_moves [OF inv step.prems(2)] by blast
  qed
qed simp

text \<open>
  C14.  A reader of the change feed of a collection starts without a usable cursor and follows the
  cursors it is given, while any operations on collections run between its requests and between the
  reads inside a request.  Whenever a page tells it that there is nothing more, its copy holds
  exactly the active items of the collection, each at its current revision.
\<close>

theorem feed_copy_exact:
  assumes "(reader_step i subject)\<^sup>*\<^sup>* (st0, rd0) (st1, rd)" "rev_inv st0" "i \<noteq> []"
    and "decodeChangeCursor (rd_cursor rd0) = None" "\<not> rd_resetting rd0"
    and "collection_step\<^sup>*\<^sup>* st1 st2" "collection_step\<^sup>*\<^sup>* st2 st3"
    and "CollectionChanges i (rd_cursor rd) subject st1 st2 st3 = Ok p" "\<not> cp_has_more p"
  shows "rd_copy (take_page p rd) = active_copy st3 i"
proof -
  have "feed_inv i (st1, rd)"
    by (rule reader_keeps [OF assms(1) _ assms(3)]) (use assms(2,4,5) in \<open>simp add: feed_inv_def\<close>)
  then show ?thesis using read_moves [OF _ assms(3,6,7,8)] assms(9) by blast
qed

section \<open>Reading to the end\<close>

fun read_feed :: "string \<Rightarrow> collection_subject \<Rightarrow> store \<Rightarrow> nat \<Rightarrow> reader \<Rightarrow> reader option" where
  "read_feed i subject st 0 rd = None"
| "read_feed i subject st (Suc fuel) rd =
     (case CollectionChanges i (rd_cursor rd) subject st st st of
        Err e \<Rightarrow> None
      | Ok p \<Rightarrow> if cp_has_more p then read_feed i subject st fuel (take_page p rd) else Some (take_page p rd))"

lemma read_feed_exact:
  assumes "feed_inv i (st, rd)" "i \<noteq> []" "read_feed i subject st fuel rd = Some rd'"
  shows "rd_copy rd' = active_copy st i"
  using assms
proof (induction fuel arbitrary: rd)
  case (Suc fuel)
  obtain p where p: "CollectionChanges i (rd_cursor rd) subject st st st = Ok p"
    using Suc.prems(3) by (auto split: sum.splits)
  note moves = read_moves [OF Suc.prems(1,2) rtranclp.rtrancl_refl rtranclp.rtrancl_refl p]
  show ?case
  proof (cases "cp_has_more p")
    case True
    then have "read_feed i subject st fuel (take_page p rd) = Some rd'" using Suc.prems(3) p by simp
    then show ?thesis using Suc.IH [OF conjunct1 [OF moves] Suc.prems(2)] by blast
  next
    case False
    then have "rd' = take_page p rd" using Suc.prems(3) p by simp
    then show ?thesis using moves False by blast
  qed
qed simp

text \<open>Each snapshot page leaves fewer rows, and then the events after the snapshot are none.\<close>

lemma reset_shrinks:
  assumes "cut_page collectionEventLimit (reset_rows st i high l) = (ps, True)"
  shows "length (reset_rows st i high (ci_id (last ps))) < length (reset_rows st i high l)"
proof -
  have l: "last ps \<in> set (reset_rows st i high l)"
    using reset_page_parts(1,3) [OF assms] by blast
  let ?P = "\<lambda>l r. ci_collection r = i \<and> l < ci_id r \<and> ci_created_rev r \<le> high \<and> (ci_deleted_rev r = 0 \<or> high < ci_deleted_rev r)"
  have sub: "?P (ci_id (last ps)) r \<Longrightarrow> ?P l r" for r
    using l by (auto simp: reset_rows_set)
  have "filter (?P (ci_id (last ps))) (st_items st) = filter (?P (ci_id (last ps))) (filter (?P l) (st_items st))"
    using sub by (auto simp: filter_filter intro: filter_cong)
  moreover have "last ps \<in> set (filter (?P l) (st_items st))" using l by (auto simp: reset_rows_set)
  then have "length (filter (?P (ci_id (last ps))) (filter (?P l) (st_items st))) < length (filter (?P l) (st_items st))"
    by (rule length_filter_less) simp
  ultimately show ?thesis by (simp add: reset_rows_def)
qed

lemma delta_at_rest:
  assumes c: "GetAuthorizedCollection st i subject = Ok c" "1 \<le> c_revision c" "i \<noteq> []"
    and cur: "rd_cursor rd = Token (delta_cursor i (c_revision c) (c_revision c) 0 0 [])"
  shows "\<exists>p. CollectionChanges i (rd_cursor rd) subject st st st = Ok p \<and> \<not> cp_has_more p"
proof -
  have "delta_events st i (c_revision c) (c_revision c) after = []" for after
    using delta_events_set [of _ st i "c_revision c" "c_revision c" after]
    by (metis all_not_in_conv linorder_not_less set_empty)
  then show ?thesis
    using c GetAuthorizedCollection_mem [OF c(1)] unfolding cur
    by (simp add: CollectionChanges_def validChangeCursor_def delta_cursor_def collectionDeltaPage_def
        Let_def cut_page_eq event_items_def event_tombstones_def)
qed

lemma reset_reads_on:
  assumes c: "GetAuthorizedCollection st i subject = Ok c" "1 \<le> c_revision c" "i \<noteq> []"
    and start: "CollectionChanges i (rd_cursor rd) subject st st st
      = collectionResetPage c (reset_cursor i (c_revision c) l) subject st st"
    and fuel: "length (reset_rows st i (c_revision c) l) + 2 \<le> fuel"
  shows "\<exists>rd'. read_feed i subject st fuel rd = Some rd'"
  using start fuel
proof (induction fuel arbitrary: l rd)
  case (Suc fuel)
  have ci: "c_id c = i" by (rule GetAuthorizedCollection_mem(2) [OF c(1)])
  obtain ps surplus where cut: "cut_page collectionEventLimit (reset_rows st i (c_revision c) l) = (ps, surplus)"
    by fastforce
  show ?case
  proof (cases surplus)
    case True
    then obtain p where p: "CollectionChanges i (rd_cursor rd) subject st st st = Ok p" "cp_has_more p"
        "cp_cursor p = Token (reset_cursor i (c_revision c) (ci_id (last ps)))"
      using Suc.prems(1) cut ci by (auto simp: collectionResetPage_def reset_cursor_def)
    have "CollectionChanges i (rd_cursor (take_page p rd)) subject st st st
        = collectionResetPage c (reset_cursor i (c_revision c) (ci_id (last ps))) subject st st"
      using c by (simp add: p(3) take_page_def CollectionChanges_def validChangeCursor_def reset_cursor_def)
    moreover have "length (reset_rows st i (c_revision c) (ci_id (last ps))) + 2 \<le> fuel"
      using reset_shrinks [of st i "c_revision c" l ps] cut True Suc.prems(2) by simp
    ultimately have "\<exists>rd'. read_feed i subject st fuel (take_page p rd) = Some rd'" by (rule Suc.IH)
    then show ?thesis using p by simp
  next
    case False
    then obtain p where p: "CollectionChanges i (rd_cursor rd) subject st st st = Ok p" "cp_has_more p"
        "cp_cursor p = Token (delta_cursor i (c_revision c) (c_revision c) 0 0 [])"
      using Suc.prems(1) cut ci c(1) by (auto simp: collectionResetPage_def reset_cursor_def)
    obtain f where f: "fuel = Suc f" using Suc.prems(2) by (cases fuel) auto
    obtain q where "CollectionChanges i (rd_cursor (take_page p rd)) subject st st st = Ok q" "\<not> cp_has_more q"
      using delta_at_rest [OF c, of "take_page p rd"] p(3) by (auto simp: take_page_def)
    then show ?thesis using p f by simp
  qed
qed simp

text \<open>
  C15.  While a collection rests, a reader who may read it reaches the end of its change feed: from
  no cursor, as many requests as there are item rows, and two more, bring it to a page that says
  there is nothing more, and its copy then holds exactly the active items at their revisions.
\<close>

theorem feed_reaches_end:
  assumes "GetAuthorizedCollection st i subject = Ok c" "rev_inv st" "i \<noteq> []"
    and "decodeChangeCursor (rd_cursor rd) = None" "\<not> rd_resetting rd"
    and "length (st_items st) + 2 \<le> fuel"
  shows "\<exists>rd'. read_feed i subject st fuel rd = Some rd' \<and> rd_copy rd' = active_copy st i"
proof -
  have rv: "1 \<le> c_revision c" using assms(2) GetAuthorizedCollection_mem(1) [OF assms(1)] by (simp add: rev_inv_def)
  have "length (reset_rows st i (c_revision c) []) \<le> length (st_items st)" by (simp add: reset_rows_def)
  then have "length (reset_rows st i (c_revision c) []) + 2 \<le> fuel" using assms(6) by simp
  moreover have "CollectionChanges i (rd_cursor rd) subject st st st
      = collectionResetPage c (reset_cursor i (c_revision c) []) subject st st"
    using feed_restart [of rd, OF assms(4)] assms(1) by simp
  ultimately obtain rd' where "read_feed i subject st fuel rd = Some rd'"
    using reset_reads_on [OF assms(1) rv assms(3)] by blast
  moreover have "feed_inv i (st, rd)" using assms(2,4,5) by (simp add: feed_inv_def)
  ultimately show ?thesis using read_feed_exact [OF _ assms(3)] by blast
qed

section \<open>A concrete reader\<close>

definition demo_feed_reader :: reader where
  "demo_feed_reader = \<lparr>rd_cursor = NoToken, rd_resetting = False, rd_copy = Map.empty\<rparr>"

lemma demo_shared_inv: "rev_inv demo_shared"
  by (auto simp: rev_inv_def demo_shared_tables demo_listed_tables item_ok_def)

lemma demo_authorized: "GetAuthorizedCollection demo_shared ''c1'' demo_reader = Ok (hd (st_collections demo_listed))"
proof -
  have "cs_user demo_reader \<noteq> []" by (simp add: demo_reader_def)
  then show ?thesis using demo_reader_allowed
    by (simp add: GetAuthorizedCollection_def getLiveCollection_def demo_shared_tables demo_listed_tables)
qed

lemma demo_active_copy: "active_copy demo_shared ''c1'' ''i1'' = Some 2"
  by (simp add: active_copy_def active_item_def demo_shared_tables demo_listed_tables)

theorem feed_reaches_end_witness:
  "\<exists>rd. read_feed ''c1'' demo_reader demo_shared 3 demo_feed_reader = Some rd \<and> rd_copy rd = active_copy demo_shared ''c1''
     \<and> active_copy demo_shared ''c1'' ''i1'' = Some 2"
proof -
  have "length (st_items demo_shared) + 2 \<le> 3" by (simp add: demo_shared_tables demo_listed_tables)
  moreover have "decodeChangeCursor (rd_cursor demo_feed_reader) = None" "\<not> rd_resetting demo_feed_reader"
    by (simp_all add: demo_feed_reader_def)
  ultimately show ?thesis
    using feed_reaches_end [OF demo_authorized demo_shared_inv, of demo_feed_reader 3] demo_active_copy by simp
qed

definition demo_page :: "change_page" where
  "demo_page = \<lparr>cp_collection = hd (st_collections demo_listed), cp_items = map (feed_item demo_shared) (st_items demo_listed),
     cp_tombstones = [], cp_cursor = Token (delta_cursor ''c1'' 2 2 0 0 []), cp_has_more = True, cp_reset = True\<rparr>"

definition demo_last_page :: "change_page" where
  "demo_last_page = \<lparr>cp_collection = hd (st_collections demo_listed), cp_items = [],
     cp_tombstones = [], cp_cursor = Token (delta_cursor ''c1'' 2 2 0 0 []), cp_has_more = False, cp_reset = False\<rparr>"

lemma demo_pages:
  "CollectionChanges ''c1'' (rd_cursor demo_feed_reader) demo_reader demo_shared demo_shared demo_shared = Ok demo_page"
  "CollectionChanges ''c1'' (cp_cursor demo_page) demo_reader demo_shared demo_shared demo_shared = Ok demo_last_page"
proof -
  have rows: "reset_rows demo_shared ''c1'' 2 [] = st_items demo_listed"
    by (simp add: reset_rows_def demo_shared_tables demo_listed_tables)
  have one: "length (st_items demo_listed) = 1" by (simp add: demo_listed_tables)
  show "CollectionChanges ''c1'' (rd_cursor demo_feed_reader) demo_reader demo_shared demo_shared demo_shared = Ok demo_page"
    unfolding demo_feed_reader_def
    by (simp add: CollectionChanges_def demo_authorized collectionResetPage_def demo_listed_tables(2) reset_cursor_def
        rows cut_page_eq one collectionEventLimit_def demo_page_def)
  have "delta_events demo_shared ''c1'' 2 2 after = []" for after
    by (simp add: delta_events_def demo_shared_tables demo_listed_tables item_events_def)
  then show "CollectionChanges ''c1'' (cp_cursor demo_page) demo_reader demo_shared demo_shared demo_shared = Ok demo_last_page"
    by (simp add: demo_page_def CollectionChanges_def demo_authorized demo_listed_tables(2) delta_cursor_def validChangeCursor_def
        collectionDeltaPage_def Let_def cut_page_eq event_items_def event_tombstones_def demo_last_page_def)
qed

theorem feed_copy_exact_witness:
  "rd_copy (take_page demo_last_page (take_page demo_page demo_feed_reader)) = active_copy demo_shared ''c1''
     \<and> active_copy demo_shared ''c1'' ''i1'' = Some 2"
proof -
  have "reader_step ''c1'' demo_reader (demo_shared, demo_feed_reader) (demo_shared, take_page demo_page demo_feed_reader)"
    by (rule read [OF _ _ demo_pages(1)]) simp_all
  then have run: "(reader_step ''c1'' demo_reader)\<^sup>*\<^sup>* (demo_shared, demo_feed_reader)
      (demo_shared, take_page demo_page demo_feed_reader)" by (rule r_into_rtranclp)
  have "decodeChangeCursor (rd_cursor demo_feed_reader) = None" "\<not> rd_resetting demo_feed_reader"
    by (simp_all add: demo_feed_reader_def)
  moreover have "CollectionChanges ''c1'' (rd_cursor (take_page demo_page demo_feed_reader)) demo_reader
      demo_shared demo_shared demo_shared = Ok demo_last_page"
    using demo_pages(2) by (simp add: take_page_def)
  moreover have "\<not> cp_has_more demo_last_page" by (simp add: demo_last_page_def)
  ultimately show ?thesis
    using feed_copy_exact [OF run demo_shared_inv, of demo_shared demo_shared demo_last_page] demo_active_copy by simp
qed

end
