(* ===== verification/Personal_Feed.thy ===== *)
theory Personal_Feed
  imports Personal_Demo Change_Feed
begin

text \<open>
  The change log of a personal cloud and \<open>PersonalChanges\<close>: the latest entry of every node is the snapshot
  of its row, and a reader who follows the cursors holds, once told that there is nothing more, exactly
  the nodes up to the revision it was given, whatever ran between and during its requests.
\<close>

section \<open>The log\<close>

definition entry_of :: "personal_node \<Rightarrow> personal_change" where
  "entry_of n = \<lparr>pc_collection = pn_collection n, pc_revision = pn_revision n, pc_item = pn_id n, pc_snapshot = snapshot n\<rparr>"

definition same_item :: "personal_change \<Rightarrow> personal_change \<Rightarrow> bool" where
  "same_item h k \<longleftrightarrow> pc_collection h = pc_collection k \<and> pc_item h = pc_item k"

definition latest :: "cloud \<Rightarrow> personal_change \<Rightarrow> bool" where
  "latest cl h \<longleftrightarrow> h \<in> set (cl_changes cl) \<and> (\<forall>k\<in>set (cl_changes cl). same_item h k \<longrightarrow> pc_revision k \<le> pc_revision h)"

definition entry_sound :: "cloud \<Rightarrow> personal_change \<Rightarrow> bool" where
  "entry_sound cl h \<longleftrightarrow> (\<exists>s\<in>set (cl_spaces cl). sr_id s = pc_collection h \<and> pc_revision h \<le> sr_revision s)
     \<and> 0 < pc_revision h \<and> pc_item h \<noteq> [] \<and> pn_id (pc_snapshot h) = pc_item h \<and> pn_revision (pc_snapshot h) = pc_revision h
     \<and> (node_in cl (pc_collection h) (pc_item h) = None \<longrightarrow> pn_purged (pc_snapshot h))"

definition log_ok :: "cloud \<Rightarrow> bool" where
  "log_ok cl \<longleftrightarrow> (\<forall>n\<in>set (cl_nodes cl). latest cl (entry_of n) \<and> \<not> pn_purged n) \<and> (\<forall>h\<in>set (cl_changes cl). entry_sound cl h)
     \<and> keyed (\<lambda>h. (pc_collection h, pc_revision h, pc_item h)) (cl_changes cl)"

lemma change_entry: "pn_collection n = c \<Longrightarrow> change_of c revision n = entry_of (n\<lparr>pn_revision := revision\<rparr>)"
  by (simp add: change_of_def entry_of_def)

text \<open>New entries on top of a log: none of the old ones has their revision or a later one.\<close>

lemma log_ok_grow:
  assumes old: "log_ok cl"
    and changes: "cl_changes cl' = filter keep (cl_changes cl) @ new"
    and top: "\<And>h. h \<in> set (cl_changes cl) \<Longrightarrow> pc_collection h = c \<Longrightarrow> pc_revision h < revision"
    and new: "\<And>h. h \<in> set new \<Longrightarrow> pc_collection h = c \<and> pc_revision h = revision \<and> entry_sound cl' h" "distinct (map pc_item new)"
    and kept: "\<And>h. h \<in> set (cl_changes cl) \<Longrightarrow> keep h \<Longrightarrow> entry_sound cl' h"
    and there: "\<And>n. n \<in> set (cl_nodes cl') \<Longrightarrow> \<not> pn_purged n"
    and nodes: "\<And>n. n \<in> set (cl_nodes cl') \<Longrightarrow> entry_of n \<in> set new
        \<or> n \<in> set (cl_nodes cl) \<and> keep (entry_of n) \<and> (\<forall>h\<in>set new. \<not> same_item (entry_of n) h)"
  shows "log_ok cl'"
  unfolding log_ok_def
proof (intro conjI ballI)
  fix h assume "h \<in> set (cl_changes cl')"
  then show "entry_sound cl' h" using changes new(1) kept by auto
next
  fix n assume n: "n \<in> set (cl_nodes cl')"
  show "\<not> pn_purged n" by (rule there [OF n])
  from nodes [OF n] show "latest cl' (entry_of n)"
  proof
    assume "entry_of n \<in> set new"
    then show ?thesis using changes new(1) top unfolding latest_def same_item_def by (auto intro: less_imp_le)
  next
    assume *: "n \<in> set (cl_nodes cl) \<and> keep (entry_of n) \<and> (\<forall>h\<in>set new. \<not> same_item (entry_of n) h)"
    then have "latest cl (entry_of n)" using old by (simp add: log_ok_def)
    then show ?thesis using changes * unfolding latest_def by auto
  qed
next
  have "distinct (map (\<lambda>h. (pc_collection h, pc_revision h, pc_item h)) new)"
    using new(2) by (auto simp: distinct_map inj_on_def)
  moreover have "distinct (map (\<lambda>h. (pc_collection h, pc_revision h, pc_item h)) (filter keep (cl_changes cl)))"
    using old by (simp add: log_ok_def keyed_def distinct_map_filter)
  ultimately show "keyed (\<lambda>h. (pc_collection h, pc_revision h, pc_item h)) (cl_changes cl')"
    using changes new(1) top by (fastforce simp: keyed_def)
qed

lemma log_ok_same:
  assumes "log_ok cl" "cl_nodes cl' = cl_nodes cl" "cl_changes cl' = cl_changes cl"
    "\<And>s. s \<in> set (cl_spaces cl) \<Longrightarrow> \<exists>s'\<in>set (cl_spaces cl'). sr_id s' = sr_id s \<and> sr_revision s \<le> sr_revision s'"
  shows "log_ok cl'"
proof -
  have "node_in cl' = node_in cl" by (intro ext) (simp add: node_in_def assms(2))
  moreover have "entry_sound cl' h" if "entry_sound cl h" for h
    using that assms(4) calculation unfolding entry_sound_def by (metis order_trans)
  ultimately show ?thesis using assms(1,2,3) by (simp add: log_ok_def latest_def)
qed

lemma log_below:
  assumes "log_ok cl" "cloud_ok cl" "s \<in> set (cl_spaces cl)" "h \<in> set (cl_changes cl)" "pc_collection h = sr_id s"
  shows "pc_revision h < sr_revision s + 1"
proof -
  obtain s' where "s' \<in> set (cl_spaces cl)" "sr_id s' = pc_collection h" "pc_revision h \<le> sr_revision s'"
    using assms(1,4) by (auto simp: log_ok_def entry_sound_def)
  then have "s' = s" using keyed_eq [OF cloud_ok_spaces [OF assms(2)] _ assms(3)] assms(5) by simp
  then show ?thesis using \<open>pc_revision h \<le> sr_revision s'\<close> by simp
qed

text \<open>Old entries stay sound while spaces move on and only purged nodes disappear.\<close>

lemma entry_sound_keep:
  assumes "entry_sound cl h" "cloud_ok cl" "s \<in> set (cl_spaces cl)"
    "cl_spaces cl' = cl_spaces (set_revision (sr_id s) (sr_revision s + 1) now cl)"
    "node_in cl' (pc_collection h) (pc_item h) = None \<Longrightarrow> node_in cl (pc_collection h) (pc_item h) = None"
  shows "entry_sound cl' h"
proof -
  obtain s0 where "s0 \<in> set (cl_spaces cl)" "sr_id s0 = pc_collection h" "pc_revision h \<le> sr_revision s0"
    using assms(1) by (auto simp: entry_sound_def)
  then have "\<exists>s\<in>set (cl_spaces cl'). sr_id s = pc_collection h \<and> pc_revision h \<le> sr_revision s"
    using set_revision_spaces [OF cloud_ok_spaces [OF assms(2)] assms(3), of s0 now] assms(4) by (metis order_trans)
  then show ?thesis using assms(1,5) by (simp add: entry_sound_def)
qed

lemma mutation_log_ok:
  assumes run: "perform_mutation nfc owner s m now cl = Inr (x, cl')" and ok: "cloud_ok cl" "log_ok cl" and s: "s \<in> set (cl_spaces cl)"
  shows "log_ok cl'"
  using run ok(1)
proof (cases rule: mutation_rows)
  case (1 n ns)
  let ?c = "sr_id s" and ?rev = "sr_revision s + 1"
  let ?new = "map (\<lambda>l. entry_of ((toggle now m l)\<lparr>pn_revision := ?rev\<rparr>)) ns"
  have new: "map (change_of ?c ?rev) (map (toggle now m) ns) = ?new" using 1(1) by (auto simp: change_entry)
  have pos: "0 < ?rev" using ok(1) s by (auto simp: cloud_ok_def)
  obtain s1 where s1: "s1 \<in> set (cl_spaces cl')" "sr_id s1 = ?c" "sr_revision s1 = ?rev"
    using set_revision_spaces [OF cloud_ok_spaces [OF ok(1)] s s, of now] 1(4) by auto
  show ?thesis
  proof (rule log_ok_grow [OF ok(2), where keep = "\<lambda>h. True" and new = ?new and c = ?c and revision = ?rev])
    show "cl_changes cl' = filter (\<lambda>h. True) (cl_changes cl) @ ?new" using 1(3) new by simp
    show "pc_revision h < ?rev" if "h \<in> set (cl_changes cl)" "pc_collection h = ?c" for h
      by (rule log_below [OF ok(2,1) s that])
    show "distinct (map pc_item ?new)" using 1(2) by (simp add: comp_def entry_of_def)
    show "pc_collection h = ?c \<and> pc_revision h = ?rev \<and> entry_sound cl' h" if h: "h \<in> set ?new" for h
    proof -
      obtain l where l: "l \<in> set ns" "h = entry_of ((toggle now m l)\<lparr>pn_revision := ?rev\<rparr>)" using h by auto
      have "node_in cl' (pn_collection ((toggle now m l)\<lparr>pn_revision := ?rev\<rparr>)) (pn_id ((toggle now m l)\<lparr>pn_revision := ?rev\<rparr>))
          = Some ((toggle now m l)\<lparr>pn_revision := ?rev\<rparr>)"
        using node_in_mem [OF _ 1(6) [OF l(1)]] 1(8) by (simp add: rows_ok_def)
      moreover have "pn_id l \<noteq> []" using 1(6) [OF l(1)] 1(8) by (auto simp: rows_ok_def node_check_def)
      ultimately have "entry_sound cl' h" using s1 pos l 1(1) by (auto simp: entry_sound_def entry_of_def snapshot_def)
      then show ?thesis using l 1(1) by (simp add: entry_of_def)
    qed
    show "entry_sound cl' h" if h: "h \<in> set (cl_changes cl)" for h
      by (rule entry_sound_keep [OF _ ok(1) s 1(4) 1(7)]) (use ok(2) h in \<open>auto simp: log_ok_def\<close>)
    have kept: "\<not> pn_purged k" if "k \<in> set (cl_nodes cl)" for k using ok(2) that by (simp add: log_ok_def)
    have mine: "\<not> pn_purged l" if l: "l \<in> set ns" for l
    proof -
      obtain n0 where n0: "starting_node nfc cl ?c m = Inr n0" "pn_purged n = pn_purged n0" using 1(11) by blast
      have "\<not> pn_purged n0"
        using n0(1) kept node_in_row(1) by (auto simp: starting_node_def new_node_def split: if_splits option.splits)
      moreover have "l = n \<or> l \<in> set (cl_nodes cl)"
        using 1(9,10) l node_in_row(1) by (cases "creates (pm_type m)") fastforce+
      ultimately show ?thesis using kept n0(2) by blast
    qed
    show "\<not> pn_purged k" if k: "k \<in> set (cl_nodes cl')" for k
      using 1(5) [OF k] mine kept by auto
    show "entry_of k \<in> set ?new \<or> k \<in> set (cl_nodes cl) \<and> True \<and> (\<forall>h\<in>set ?new. \<not> same_item (entry_of k) h)"
      if k: "k \<in> set (cl_nodes cl')" for k
    proof -
      consider l where "l \<in> set ns" "k = (toggle now m l)\<lparr>pn_revision := ?rev\<rparr>"
        | "k \<in> set (cl_nodes cl)" "pn_collection k = ?c \<longrightarrow> pn_id k \<notin> pn_id ` set ns"
        using 1(5) [OF k] by blast
      then show ?thesis
      proof cases
        case 1
        then show ?thesis by simp
      next
        case 2
        then show ?thesis using 1(1) by (auto simp: same_item_def entry_of_def)
      qed
    qed
  qed
qed

lemma purge_log_ok:
  assumes run: "perform_purge owner s input now cl = Inr (x, cl')" and ok: "cloud_ok cl" "log_ok cl" and s: "s \<in> set (cl_spaces cl)"
  shows "log_ok cl'"
proof -
  let ?c = "sr_id s" and ?rev = "sr_revision s + 1" and ?ns = "selected cl (sr_id s) input"
  let ?gone = "pn_id ` set ?ns"
  note tables = perform_purge_tables [OF run ok(1)]
  note nodes = tables(1) and changes = tables(2)
  show ?thesis
  proof (cases "?ns = []")
    case True
    have "cl_spaces cl' = cl_spaces cl" using tables(3) True by simp
    then show ?thesis using True nodes changes by (intro log_ok_same [OF ok(2)]) (auto simp: del_where_def)
  next
    case False
    have spaces: "cl_spaces cl' = cl_spaces (set_revision ?c ?rev now cl)"
      using tables(3) False by simp
    have pos: "0 < ?rev" using ok(1) s by (auto simp: cloud_ok_def)
    obtain s1 where s1: "s1 \<in> set (cl_spaces cl')" "sr_id s1 = ?c" "sr_revision s1 = ?rev"
      using set_revision_spaces [OF cloud_ok_spaces [OF ok(1)] s s, of now] spaces by auto
    have dist: "distinct (map pn_id ?ns)"
      unfolding selected_def by (rule distinct_sort_rows) (use cloud_ok_key [OF ok(1)] in \<open>simp add: keyed_def distinct_map_filter\<close>)
    show ?thesis
    proof (rule log_ok_grow [OF ok(2) changes, where c = ?c and revision = ?rev])
      show "pc_revision h < ?rev" if "h \<in> set (cl_changes cl)" "pc_collection h = ?c" for h
        by (rule log_below [OF ok(2,1) s that])
      show "distinct (map pc_item (map (purge_change ?c ?rev) ?ns))" using dist by (simp add: comp_def purge_change_def)
      show "pc_collection h = ?c \<and> pc_revision h = ?rev \<and> entry_sound cl' h" if "h \<in> set (map (purge_change ?c ?rev) ?ns)" for h
        using that s1 pos selected_row cloud_ok_rows [OF ok(1)]
        by (auto simp: rows_ok_def node_check_def purge_change_def purged_snapshot_def snapshot_def entry_sound_def intro!: bexI [of _ s1])
      show "entry_sound cl' h" if h: "h \<in> set (cl_changes cl)" "\<not> (pc_collection h = ?c \<and> pc_item h \<in> ?gone)" for h
      proof (rule entry_sound_keep [OF _ ok(1) s spaces])
        show "entry_sound cl h" using ok(2) h(1) by (auto simp: log_ok_def)
        assume none: "node_in cl' (pc_collection h) (pc_item h) = None"
        show "node_in cl (pc_collection h) (pc_item h) = None"
        proof (rule ccontr)
          assume "node_in cl (pc_collection h) (pc_item h) \<noteq> None"
          then obtain k where "node_in cl (pc_collection h) (pc_item h) = Some k" by auto
          note row = node_in_row [OF this]
          then have "k \<in> set (cl_nodes cl')" using h(2) nodes by auto
          then show False using none row by (auto simp: node_in_def sel1_None)
        qed
      qed
      show "\<not> pn_purged n" if "n \<in> set (cl_nodes cl')" for n using that nodes ok(2) by (simp add: log_ok_def)
      show "entry_of n \<in> set (map (purge_change ?c ?rev) ?ns) \<or> n \<in> set (cl_nodes cl) \<and> \<not> (pc_collection (entry_of n) = ?c \<and> pc_item (entry_of n) \<in> ?gone)
          \<and> (\<forall>h\<in>set (map (purge_change ?c ?rev) ?ns). \<not> same_item (entry_of n) h)" if "n \<in> set (cl_nodes cl')" for n
        using that nodes by (auto simp: entry_of_def same_item_def purge_change_def)
    qed
  qed
qed

lemma EnsurePersonalSpace_spaces:
  "\<exists>new'. cl_spaces (snd (EnsurePersonalSpace owner now new cl)) = cl_spaces cl @ new'"
  "cl_nodes (snd (EnsurePersonalSpace owner now new cl)) = cl_nodes cl"
  "cl_changes (snd (EnsurePersonalSpace owner now new cl)) = cl_changes cl"
  by (auto simp: EnsurePersonalSpace_def Let_def split: option.split)

lemma cloud_step_log_ok: "cloud_step nfc cl cl' \<Longrightarrow> cloud_ok cl \<Longrightarrow> log_ok cl \<Longrightarrow> log_ok cl'"
proof (induction rule: cloud_step.induct)
  case (ensure cl owner now new)
  obtain new' where "cl_spaces (snd (EnsurePersonalSpace owner now new cl)) = cl_spaces cl @ new'"
    using EnsurePersonalSpace_spaces(1) by blast
  then show ?case by (intro log_ok_same [OF ensure(2)]) (auto simp: EnsurePersonalSpace_spaces)
next
  case (mutate now cl owner m)
  obtain r cl' where run: "ApplyPersonalMutation nfc owner m now cl = (r, cl')" by fastforce
  then have "log_ok cl'"
  proof (cases rule: ApplyPersonalMutation_cases)
    case kept
    then show ?thesis using mutate by simp
  next
    case (performed s x)
    show ?thesis by (rule mutation_log_ok [OF performed(5) mutate(2,3) space_of_row(1) [OF performed(1)]])
  qed
  then show ?case by (simp add: run)
next
  case (empty_trash now cl owner input)
  obtain r cl' where run: "PurgePersonalTrash owner input now cl = (r, cl')" by fastforce
  then have "log_ok cl'"
  proof (cases rule: PurgePersonalTrash_cases)
    case kept
    then show ?thesis using empty_trash by simp
  next
    case (performed s x)
    show ?thesis by (rule purge_log_ok [OF performed(4) empty_trash(2,3) space_of_row(1) [OF performed(1)]])
  qed
  then show ?case by (simp add: run)
next
  case (quota cl actor owner q request now)
  show ?case by (rule log_ok_same [OF quota(2)]) (auto simp: SetPersonalQuota_frame)
next
  case (other cl st gs)
  show ?case by (rule log_ok_same [OF other(2)]) auto
qed

lemma cloud_reach_log_ok: "cloud_reach nfc cl \<Longrightarrow> log_ok cl"
proof (induction rule: cloud_reach.induct)
  case (start cl)
  then show ?case by (simp add: log_ok_def)
next
  case (step cl cl')
  then show ?case using cloud_step_log_ok cloud_reach_ok by blast
qed

section \<open>PersonalChanges\<close>

record personal_page =
  pp_space :: string
  pp_revision :: int
  pp_items :: "personal_node list"
  pp_cursor :: "change_cursor token"
  pp_has_more :: bool
  pp_reset :: bool

definition PersonalReset :: change_mode where "PersonalReset = ModeOther ''personal-reset''"

definition PersonalDelta :: change_mode where "PersonalDelta = ModeOther ''personal-delta''"

definition personal_cursor :: "change_mode \<Rightarrow> string \<Rightarrow> int \<Rightarrow> int \<Rightarrow> change_cursor" where
  "personal_cursor mode c from high = \<lparr>cc_mode = mode, cc_coll = c, cc_high = high, cc_last_item = [], cc_from = from,
     cc_to = 0, cc_after_rev = 0, cc_after_kind = 0, cc_after_id = []\<rparr>"

definition valid_personal_cursor :: "change_cursor \<Rightarrow> string \<Rightarrow> int \<Rightarrow> bool" where
  "valid_personal_cursor d c revision \<longleftrightarrow> cc_coll d = c \<and> (cc_mode d = PersonalReset \<or> cc_mode d = PersonalDelta)
     \<and> 0 \<le> cc_from d \<and> 0 \<le> cc_high d \<and> cc_high d \<le> revision \<and> cc_from d \<le> revision
     \<and> 0 \<le> cc_after_rev d \<and> cc_after_rev d \<le> cc_high d \<and> \<not> (0 < cc_high d \<and> cc_high d < cc_from d)"

definition effective_cursor :: "change_cursor token \<Rightarrow> string \<Rightarrow> int \<Rightarrow> change_cursor" where
  "effective_cursor cursor c revision =
     (let start = personal_cursor PersonalReset c 0 revision;
          d = (case decodeChangeCursor cursor of None \<Rightarrow> start | Some d \<Rightarrow> if valid_personal_cursor d c revision then d else start)
      in if cc_high d = 0 then d\<lparr>cc_high := revision\<rparr> else d)"

text \<open>\<open>DISTINCT ON(item_id) ... ORDER BY item_id,revision DESC\<close>: of each item the entry with the highest revision.\<close>

definition newest_until :: "cloud \<Rightarrow> string \<Rightarrow> int \<Rightarrow> personal_change list" where
  "newest_until cl c high = (let t = filter (\<lambda>h. pc_collection h = c \<and> pc_revision h \<le> high) (cl_changes cl)
     in filter (\<lambda>h. list_all (\<lambda>k. pc_item k = pc_item h \<longrightarrow> pc_revision k \<le> pc_revision h) t) t)"

definition personal_reset_rows :: "cloud \<Rightarrow> change_cursor \<Rightarrow> personal_change list" where
  "personal_reset_rows cl d = sort_key pc_item (filter (\<lambda>h. cc_after_id d < pc_item h) (newest_until cl (cc_coll d) (cc_high d)))"

definition personal_delta_rows :: "cloud \<Rightarrow> change_cursor \<Rightarrow> personal_change list" where
  "personal_delta_rows cl d = sort_key (\<lambda>h. (pc_revision h, pc_item h)) (filter (\<lambda>h. pc_collection h = cc_coll d \<and> cc_from d < pc_revision h
     \<and> pc_revision h \<le> cc_high d \<and> (cc_after_rev d, cc_after_id d) < (pc_revision h, pc_item h)) (cl_changes cl))"

text \<open>The space is read from \<open>cl1\<close>, the rows from \<open>cl2\<close>: other transactions may run in between.\<close>

definition PersonalChanges :: "string \<Rightarrow> change_cursor token \<Rightarrow> int \<Rightarrow> cloud \<Rightarrow> cloud \<Rightarrow> personal_page result" where
  "PersonalChanges owner cursor limit cl1 cl2 =
     (case space_of cl1 owner of
        None \<Rightarrow> Err ErrNotFound
      | Some s \<Rightarrow>
          (let d = effective_cursor cursor (sr_id s) (sr_revision s);
               reset = (cc_mode d = PersonalReset)
           in case cut_page (nat (boundedCollectionLimit limit)) (if reset then personal_reset_rows cl2 d else personal_delta_rows cl2 d) of
                (rows, surplus) \<Rightarrow>
                  (let items = map pc_snapshot rows in
                   Ok \<lparr>pp_space = sr_id s, pp_revision = sr_revision s, pp_items = items,
                       pp_cursor = Token (if surplus
                         then (if reset then d\<lparr>cc_after_id := pn_id (last items)\<rparr>
                               else d\<lparr>cc_after_id := pn_id (last items), cc_after_rev := pn_revision (last items)\<rparr>)
                         else personal_cursor PersonalDelta (cc_coll d) (cc_high d) 0),
                       pp_has_more = surplus, pp_reset = reset\<rparr>)))"

end
