(* ===== verification/Personal_Copy.thy ===== *)
theory Personal_Copy
  imports Personal_Feed
begin

text \<open>A client of the personal feed and what it holds when it is told that there is nothing more.\<close>

section \<open>Pages\<close>

definition apply_items :: "(string \<rightharpoonup> personal_node) \<Rightarrow> personal_node list \<Rightarrow> (string \<rightharpoonup> personal_node)" where
  "apply_items copy ns = foldl (\<lambda>m n. m(pn_id n \<mapsto> n)) copy ns"

lemma apply_items_other: "j \<notin> pn_id ` set ns \<Longrightarrow> apply_items copy ns j = copy j"
  unfolding apply_items_def by (induction ns arbitrary: copy) auto

lemma apply_items_append: "apply_items copy (ns @ ms) = apply_items (apply_items copy ns) ms"
  by (simp add: apply_items_def)

text \<open>Of several entries of a node the one with the largest key stays.\<close>

lemma apply_items_last:
  assumes "sorted_wrt (\<lambda>a b. k a < (k b :: 'k :: linorder)) hs" "h \<in> set hs"
    and "\<And>g. g \<in> set hs \<Longrightarrow> pn_id (pc_snapshot g) = pn_id (pc_snapshot h) \<Longrightarrow> k g \<le> k h"
  shows "apply_items copy (map pc_snapshot hs) (pn_id (pc_snapshot h)) = Some (pc_snapshot h)"
proof -
  obtain xs ys where hs: "hs = xs @ h # ys" using assms(2) by (meson split_list)
  have "pn_id (pc_snapshot h) \<notin> pn_id ` set (map pc_snapshot ys)"
  proof
    assume "pn_id (pc_snapshot h) \<in> pn_id ` set (map pc_snapshot ys)"
    then obtain g where g: "g \<in> set ys" "pn_id (pc_snapshot g) = pn_id (pc_snapshot h)" by auto
    then have "k h < k g" using assms(1) hs by (simp add: sorted_wrt_append)
    then show False using assms(3) [of g] g hs by auto
  qed
  from apply_items_other [OF this, of "apply_items copy (map pc_snapshot (xs @ [h]))"]
  have "apply_items copy (map pc_snapshot (xs @ [h]) @ map pc_snapshot ys) (pn_id (pc_snapshot h))
      = apply_items copy (map pc_snapshot (xs @ [h])) (pn_id (pc_snapshot h))"
    by (simp only: apply_items_append)
  moreover have "map pc_snapshot hs = map pc_snapshot (xs @ [h]) @ map pc_snapshot ys" by (simp add: hs)
  moreover have "apply_items copy (map pc_snapshot (xs @ [h])) (pn_id (pc_snapshot h)) = Some (pc_snapshot h)"
    by (simp add: apply_items_def)
  ultimately show ?thesis by metis
qed

lemma in_first_page:
  assumes "sorted_wrt (\<lambda>a b. k a < (k b :: 'k :: linorder)) hs" "h \<in> set hs" "0 < n" "n < length hs" "k h \<le> k (last (take n hs))"
  shows "h \<in> set (take n hs)"
proof (rule ccontr)
  assume "h \<notin> set (take n hs)"
  then have "h \<in> set (drop n hs)" using assms(2) by (metis Un_iff append_take_drop_id set_append)
  moreover have "last (take n hs) \<in> set (take n hs)" using assms(3,4) by (intro last_in_set) auto
  moreover have "sorted_wrt (\<lambda>a b. k a < k b) (take n hs @ drop n hs)" using assms(1) by simp
  ultimately have "k (last (take n hs)) < k h" unfolding sorted_wrt_append by blast
  then show False using assms(5) by simp
qed

lemma sorted_distinct_key:
  assumes "distinct (map k hs)"
  shows "sorted_wrt (\<lambda>a b. k a < (k b :: 'k :: linorder)) (sort_key k hs)"
proof -
  have "sorted (map k (sort_key k hs))" by simp
  moreover have "distinct (map k (sort_key k hs))"
  proof -
    have "mset (map k (sort_key k hs)) = mset (map k hs)" by simp
    then show ?thesis using assms mset_eq_imp_distinct_iff by blast
  qed
  ultimately have "sorted_wrt (<) (map k (sort_key k hs))" by (simp add: strict_sorted_iff)
  then show ?thesis by (simp add: sorted_wrt_map)
qed

section \<open>What the operations leave\<close>

text \<open>
  A space keeps its identifier and its revision never falls, and an entry at a revision that was already
  reached was there before, as the latest of its node.
\<close>

definition moved_on :: "cloud \<Rightarrow> cloud \<Rightarrow> bool" where
  "moved_on cl cl' \<longleftrightarrow> (\<forall>owner s. space_of cl owner = Some s \<longrightarrow> (\<exists>s'. space_of cl' owner = Some s' \<and> sr_id s' = sr_id s \<and> sr_revision s \<le> sr_revision s'
     \<and> (\<forall>h. latest cl' h \<and> pc_collection h = sr_id s \<and> pc_revision h \<le> sr_revision s \<longrightarrow> latest cl h)))"

lemma moved_on_refl: "moved_on cl cl"
  by (auto simp: moved_on_def)

lemma moved_on_trans: "moved_on a b \<Longrightarrow> moved_on b c \<Longrightarrow> moved_on a c"
  unfolding moved_on_def
proof (intro allI impI)
  assume ab: "\<forall>owner s. space_of a owner = Some s \<longrightarrow> (\<exists>s'. space_of b owner = Some s' \<and> sr_id s' = sr_id s \<and> sr_revision s \<le> sr_revision s'
      \<and> (\<forall>h. latest b h \<and> pc_collection h = sr_id s \<and> pc_revision h \<le> sr_revision s \<longrightarrow> latest a h))"
    and bc: "\<forall>owner s. space_of b owner = Some s \<longrightarrow> (\<exists>s'. space_of c owner = Some s' \<and> sr_id s' = sr_id s \<and> sr_revision s \<le> sr_revision s'
      \<and> (\<forall>h. latest c h \<and> pc_collection h = sr_id s \<and> pc_revision h \<le> sr_revision s \<longrightarrow> latest b h))"
  fix owner s assume "space_of a owner = Some s"
  then obtain s1 where s1: "space_of b owner = Some s1" "sr_id s1 = sr_id s" "sr_revision s \<le> sr_revision s1"
      "\<And>h. latest b h \<and> pc_collection h = sr_id s \<and> pc_revision h \<le> sr_revision s \<Longrightarrow> latest a h" using ab by blast
  then obtain s2 where s2: "space_of c owner = Some s2" "sr_id s2 = sr_id s1" "sr_revision s1 \<le> sr_revision s2"
      "\<And>h. latest c h \<and> pc_collection h = sr_id s1 \<and> pc_revision h \<le> sr_revision s1 \<Longrightarrow> latest b h" using bc by blast
  have "latest a h" if "latest c h \<and> pc_collection h = sr_id s \<and> pc_revision h \<le> sr_revision s" for h
    using s1(2,3,4) s2(4) that by simp
  then show "\<exists>s'. space_of c owner = Some s' \<and> sr_id s' = sr_id s \<and> sr_revision s \<le> sr_revision s'
      \<and> (\<forall>h. latest c h \<and> pc_collection h = sr_id s \<and> pc_revision h \<le> sr_revision s \<longrightarrow> latest a h)"
    using s1 s2 by (intro exI [of _ s2]) simp
qed

lemma moved_on_same:
  assumes "cl_spaces cl' = cl_spaces cl @ new" "cl_changes cl' = cl_changes cl"
  shows "moved_on cl cl'"
  using assms by (auto simp: moved_on_def space_of_def sel1_append latest_def)

lemma moved_on_grow:
  assumes spaces: "cl_spaces cl' = cl_spaces (set_revision (sr_id s) (sr_revision s + 1) now cl)"
    and changes: "cl_changes cl' = filter (\<lambda>h. \<not> (pc_collection h = sr_id s \<and> pc_item h \<in> gone)) (cl_changes cl) @ new"
    and new: "\<forall>h\<in>set new. pc_collection h = sr_id s \<and> pc_revision h = sr_revision s + 1"
    and ok: "cloud_ok cl" and s: "s \<in> set (cl_spaces cl)"
  shows "moved_on cl cl'"
  unfolding moved_on_def
proof (intro allI impI)
  fix owner s0 assume s0: "space_of cl owner = Some s0"
  let ?f = "\<lambda>r. if sr_id r = sr_id s then r\<lparr>sr_revision := sr_revision s + 1, sr_updated := now\<rparr> else r"
  have s': "space_of cl' owner = Some (?f s0)"
    using s0 by (simp add: space_of_def spaces set_revision_def sel1_upd_where)
  have one: "sr_id s0 = sr_id s \<Longrightarrow> s0 = s"
    using keyed_eq [OF cloud_ok_spaces [OF ok] space_of_row(1) [OF s0] s] by blast
  have before: "latest cl h" if h: "latest cl' h" "pc_collection h = sr_id s0" "pc_revision h \<le> sr_revision s0" for h
  proof -
    have "h \<notin> set new" using new h one by fastforce
    then have old: "h \<in> set (cl_changes cl)" "\<not> (pc_collection h = sr_id s \<and> pc_item h \<in> gone)"
      using h(1) changes by (auto simp: latest_def)
    then have "pc_revision k \<le> pc_revision h" if "k \<in> set (cl_changes cl)" "same_item h k" for k
      using that h(1) changes by (auto simp: latest_def same_item_def)
    then show ?thesis using old(1) by (auto simp: latest_def)
  qed
  show "\<exists>s'. space_of cl' owner = Some s' \<and> sr_id s' = sr_id s0 \<and> sr_revision s0 \<le> sr_revision s'
      \<and> (\<forall>h. latest cl' h \<and> pc_collection h = sr_id s0 \<and> pc_revision h \<le> sr_revision s0 \<longrightarrow> latest cl h)"
    using s' one before by (intro exI [of _ "?f s0"]) auto
qed

lemma cloud_step_moved_on: "cloud_step nfc cl cl' \<Longrightarrow> cloud_ok cl \<Longrightarrow> moved_on cl cl'"
proof (induction rule: cloud_step.induct)
  case (ensure cl owner now new)
  obtain new' where "cl_spaces (snd (EnsurePersonalSpace owner now new cl)) = cl_spaces cl @ new'"
    using EnsurePersonalSpace_spaces(1) by blast
  then show ?case by (rule moved_on_same) (simp add: EnsurePersonalSpace_spaces)
next
  case (mutate now cl owner m)
  obtain r cl' where run: "ApplyPersonalMutation nfc owner m now cl = (r, cl')" by fastforce
  then have "moved_on cl cl'"
  proof (cases rule: ApplyPersonalMutation_cases)
    case kept
    then show ?thesis by (simp add: moved_on_refl)
  next
    case (performed s x)
    show ?thesis using performed(5) mutate(2)
    proof (cases rule: mutation_rows)
      case (1 n ns)
      show ?thesis
        by (rule moved_on_grow [where gone = "{}" and new = "map (change_of (sr_id s) (sr_revision s + 1)) (map (toggle now m) ns)",
              OF 1(4) _ _ mutate(2) space_of_row(1) [OF performed(1)]])
           (use 1(3) in \<open>auto simp: change_of_def\<close>)
    qed
  qed
  then show ?case by (simp add: run)
next
  case (empty_trash now cl owner input)
  obtain r cl' where run: "PurgePersonalTrash owner input now cl = (r, cl')" by fastforce
  then have "moved_on cl cl'"
  proof (cases rule: PurgePersonalTrash_cases)
    case kept
    then show ?thesis by (simp add: moved_on_refl)
  next
    case (performed s x)
    note after = perform_purge_tables [OF performed(4) empty_trash(2)]
    show ?thesis
    proof (cases "selected cl (sr_id s) input = []")
      case True
      then show ?thesis using after(2,3) by (intro moved_on_same [where new = "[]"]) simp_all
    next
      case False
      then show ?thesis using after(3)
        by (intro moved_on_grow [OF _ after(2) _ empty_trash(2) space_of_row(1) [OF performed(1)]])
           (auto simp: purge_change_def)
    qed
  qed
  then show ?case by (simp add: run)
next
  case (quota cl actor owner q request now)
  show ?case by (rule moved_on_same [where new = "[]"]) (simp_all add: SetPersonalQuota_frame)
next
  case (other cl st gs)
  show ?case by (rule moved_on_same [where new = "[]"]) simp_all
qed

section \<open>A client\<close>

record sync_client =
  sy_cursor :: "change_cursor token"
  sy_resetting :: bool
  sy_copy :: "string \<rightharpoonup> personal_node"

definition sync_page :: "personal_page \<Rightarrow> sync_client \<Rightarrow> sync_client" where
  "sync_page p y = \<lparr>sy_cursor = pp_cursor p, sy_resetting = pp_reset p,
     sy_copy = apply_items (if pp_reset p \<and> \<not> sy_resetting y then Map.empty else sy_copy y) (pp_items p)\<rparr>"

text \<open>
  The clouds and the client of one owner: the client starts with no cursor and an empty copy, the
  operations of the service go on between its requests and within them.
\<close>

inductive sync_reach :: "(string \<Rightarrow> string) \<Rightarrow> string \<Rightarrow> cloud \<Rightarrow> sync_client \<Rightarrow> bool" for nfc owner where
  start: "cloud_reach nfc cl \<Longrightarrow> sync_reach nfc owner cl \<lparr>sy_cursor = NoToken, sy_resetting = False, sy_copy = Map.empty\<rparr>"
| operation: "sync_reach nfc owner cl y \<Longrightarrow> cloud_step nfc cl cl' \<Longrightarrow> sync_reach nfc owner cl' y"
| request: "sync_reach nfc owner cl1 y \<Longrightarrow> (cloud_step nfc)\<^sup>*\<^sup>* cl1 cl2 \<Longrightarrow> PersonalChanges owner (sy_cursor y) limit cl1 cl2 = Ok p
    \<Longrightarrow> sync_reach nfc owner cl2 (sync_page p y)"

lemma steps_ok:
  assumes "(cloud_step nfc)\<^sup>*\<^sup>* cl cl'" "cloud_ok cl" "log_ok cl"
  shows "cloud_ok cl' \<and> log_ok cl' \<and> moved_on cl cl'"
  using assms
proof (induction rule: rtranclp_induct)
  case base
  then show ?case by (simp add: moved_on_refl)
next
  case (step b c)
  then show ?case using cloud_step_ok cloud_step_log_ok cloud_step_moved_on moved_on_trans by blast
qed

text \<open>What the cursor of a client has behind it.\<close>

definition behind :: "change_cursor \<Rightarrow> personal_change \<Rightarrow> bool" where
  "behind d h \<longleftrightarrow> (if cc_mode d = PersonalReset then pc_revision h \<le> cc_high d \<and> pc_item h \<le> cc_after_id d
     else pc_revision h \<le> cc_from d \<or> (pc_revision h, pc_item h) \<le> (cc_after_rev d, cc_after_id d))"

definition holds_behind :: "cloud \<Rightarrow> change_cursor \<Rightarrow> (string \<rightharpoonup> personal_node) \<Rightarrow> bool" where
  "holds_behind cl d copy \<longleftrightarrow> (\<forall>h. latest cl h \<and> pc_collection h = cc_coll d \<and> behind d h \<longrightarrow> copy (pc_item h) = Some (pc_snapshot h))"

definition synced :: "string \<Rightarrow> cloud \<Rightarrow> sync_client \<Rightarrow> bool" where
  "synced owner cl y \<longleftrightarrow> (case sy_cursor y of Token d \<Rightarrow> (\<exists>s. space_of cl owner = Some s \<and> cc_coll d \<noteq> []
       \<and> valid_personal_cursor d (sr_id s) (sr_revision s) \<and> (cc_mode d = PersonalReset \<longrightarrow> sy_resetting y \<and> 0 < cc_high d)
       \<and> (cc_mode d = PersonalDelta \<longrightarrow> cc_after_rev d \<le> sr_revision s) \<and> holds_behind cl d (sy_copy y))
     | NoToken \<Rightarrow> \<not> sy_resetting y | _ \<Rightarrow> False)"

lemma modes_differ [simp]: "PersonalReset \<noteq> PersonalDelta" "PersonalDelta \<noteq> PersonalReset"
  by (simp_all add: PersonalReset_def PersonalDelta_def)

lemma behind_revision:
  assumes "valid_personal_cursor d c r" "behind d h" "cc_mode d = PersonalDelta \<longrightarrow> cc_after_rev d \<le> r"
  shows "pc_revision h \<le> r"
  using assms by (auto simp: valid_personal_cursor_def behind_def less_eq_prod_def split: if_splits)

lemma synced_moved_on:
  assumes "synced owner cl y" "moved_on cl cl'"
  shows "synced owner cl' y"
proof (cases "sy_cursor y")
  case (Token d)
  then obtain s where s: "space_of cl owner = Some s" "cc_coll d \<noteq> []" "valid_personal_cursor d (sr_id s) (sr_revision s)"
      "cc_mode d = PersonalReset \<longrightarrow> sy_resetting y \<and> 0 < cc_high d" "cc_mode d = PersonalDelta \<longrightarrow> cc_after_rev d \<le> sr_revision s"
      "holds_behind cl d (sy_copy y)"
    using assms(1) by (auto simp: synced_def)
  obtain s' where s': "space_of cl' owner = Some s'" "sr_id s' = sr_id s" "sr_revision s \<le> sr_revision s'"
      "\<And>h. latest cl' h \<and> pc_collection h = sr_id s \<and> pc_revision h \<le> sr_revision s \<Longrightarrow> latest cl h"
    using assms(2) s(1) unfolding moved_on_def by blast
  have "valid_personal_cursor d (sr_id s') (sr_revision s')" using s(3) s'(2,3) by (auto simp: valid_personal_cursor_def)
  moreover have "holds_behind cl' d (sy_copy y)"
    using s(6) s'(4) behind_revision [OF s(3) _ s(5)] s(3) unfolding holds_behind_def valid_personal_cursor_def by metis
  ultimately show ?thesis using Token s s' unfolding synced_def by (auto intro: order_trans)
qed (use assms(1) in \<open>simp_all add: synced_def\<close>)

section \<open>A request\<close>

lemma log_entry:
  assumes "log_ok cl" "h \<in> set (cl_changes cl)"
  shows "pn_id (pc_snapshot h) = pc_item h" "pn_revision (pc_snapshot h) = pc_revision h" "pc_item h \<noteq> []" "0 < pc_revision h"
  using assms by (auto simp: log_ok_def entry_sound_def)

lemma page_holds:
  fixes k :: "personal_change \<Rightarrow> 'k :: linorder"
  assumes log: "log_ok cl" and X: "set X \<subseteq> set (cl_changes cl)" "distinct (map k X)" and n: "0 < n"
    and old: "holds_behind cl d copy" "cc_coll d' = cc_coll d"
    and fresh: "\<And>h g. latest cl h \<Longrightarrow> pc_collection h = cc_coll d \<Longrightarrow> behind d h \<Longrightarrow> g \<in> set X \<Longrightarrow> pc_item g \<noteq> pc_item h"
    and newest: "\<And>h g. latest cl h \<Longrightarrow> pc_collection h = cc_coll d \<Longrightarrow> g \<in> set X \<Longrightarrow> pc_item g = pc_item h \<Longrightarrow> k g \<le> k h"
    and reached: "\<And>h. latest cl h \<Longrightarrow> pc_collection h = cc_coll d \<Longrightarrow> behind d' h \<Longrightarrow> \<not> behind d h
       \<Longrightarrow> h \<in> set X \<and> (n < length X \<longrightarrow> k h \<le> k (last (take n (sort_key k X))))"
  shows "holds_behind cl d' (apply_items copy (map pc_snapshot (take n (sort_key k X))))"
  unfolding holds_behind_def
proof (intro allI impI)
  fix h assume h: "latest cl h \<and> pc_collection h = cc_coll d' \<and> behind d' h"
  let ?page = "take n (sort_key k X)"
  have page: "set ?page \<subseteq> set X" using set_take_subset [of n "sort_key k X"] by simp
  have id: "pn_id (pc_snapshot g) = pc_item g" if "g \<in> set (cl_changes cl)" for g by (rule log_entry(1) [OF log that])
  have hin: "h \<in> set (cl_changes cl)" using h by (simp add: latest_def)
  show "apply_items copy (map pc_snapshot ?page) (pc_item h) = Some (pc_snapshot h)"
  proof (cases "behind d h")
    case True
    have "pc_item h \<notin> pn_id ` set (map pc_snapshot ?page)"
    proof
      assume "pc_item h \<in> pn_id ` set (map pc_snapshot ?page)"
      then obtain g where g: "g \<in> set X" "pc_item h = pn_id (pc_snapshot g)" using page by auto
      then show False using fresh [of h g] h True id [of g] X(1) old(2) by auto
    qed
    moreover have "copy (pc_item h) = Some (pc_snapshot h)" using old h True by (simp add: holds_behind_def)
    ultimately show ?thesis by (simp add: apply_items_other)
  next
    case False
    have srt: "sorted_wrt (\<lambda>a b. k a < k b) (sort_key k X)" by (rule sorted_distinct_key [OF X(2)])
    have reach: "h \<in> set X" "n < length X \<longrightarrow> k h \<le> k (last ?page)" using reached [of h] h False old(2) by auto
    have mem: "h \<in> set ?page"
    proof (cases "n < length X")
      case True
      then show ?thesis using in_first_page [OF srt _ n] reach by simp
    next
      case False
      then show ?thesis using reach(1) by simp
    qed
    have srt': "sorted_wrt (\<lambda>a b. k a < k b) ?page" by (rule sorted_wrt_take [OF srt])
    have "apply_items copy (map pc_snapshot ?page) (pn_id (pc_snapshot h)) = Some (pc_snapshot h)"
    proof (rule apply_items_last [OF srt' mem])
      fix g assume g: "g \<in> set ?page" "pn_id (pc_snapshot g) = pn_id (pc_snapshot h)"
      then have "g \<in> set X" "pc_item g = pc_item h" using page X(1) id hin by auto
      then show "k g \<le> k h" using newest [of h g] h old(2) by simp
    qed
    then show ?thesis using id [OF hin] by simp
  qed
qed

lemma reset_page_holds:
  assumes log: "log_ok cl" and n: "0 < n" and d: "cc_mode d = PersonalReset" "holds_behind cl d copy"
  defines "rows \<equiv> personal_reset_rows cl d"
  defines "d' \<equiv> (if n < length rows then d\<lparr>cc_after_id := pc_item (last (take n rows))\<rparr> else personal_cursor PersonalDelta (cc_coll d) (cc_high d) 0)"
  shows "holds_behind cl d' (apply_items copy (map pc_snapshot (take n rows)))"
proof -
  let ?X = "filter (\<lambda>h. cc_after_id d < pc_item h) (newest_until cl (cc_coll d) (cc_high d))"
  have mem: "h \<in> set (newest_until cl (cc_coll d) (cc_high d)) \<longleftrightarrow> h \<in> set (cl_changes cl) \<and> pc_collection h = cc_coll d \<and> pc_revision h \<le> cc_high d
      \<and> (\<forall>k\<in>set (cl_changes cl). pc_collection k = cc_coll d \<longrightarrow> pc_revision k \<le> cc_high d \<longrightarrow> pc_item k = pc_item h \<longrightarrow> pc_revision k \<le> pc_revision h)" for h
    by (auto simp: newest_until_def Let_def list_all_iff)
  have key: "keyed (\<lambda>h. (pc_collection h, pc_revision h, pc_item h)) (cl_changes cl)" using log by (simp add: log_ok_def)
  have one: "g = h" if "g \<in> set ?X" "h \<in> set ?X" "pc_item g = pc_item h" for g h
  proof -
    have "pc_revision g = pc_revision h" using that by (auto simp: mem intro: antisym)
    then show ?thesis using keyed_eq [OF key, of g h] that by (simp add: mem)
  qed
  have "distinct (cl_changes cl)" using key by (auto simp: keyed_def distinct_map)
  then have "distinct ?X" by (simp add: newest_until_def Let_def)
  then have dist: "distinct (map pc_item ?X)" using one by (auto simp: distinct_map inj_on_def)
  have new: "latest cl h \<Longrightarrow> pc_collection h = cc_coll d \<Longrightarrow> pc_revision h \<le> cc_high d \<Longrightarrow> cc_after_id d < pc_item h \<Longrightarrow> h \<in> set ?X" for h
    by (auto simp: mem latest_def same_item_def)
  show ?thesis
    unfolding rows_def personal_reset_rows_def
  proof (rule page_holds [OF log _ dist n d(2)])
    show "set ?X \<subseteq> set (cl_changes cl)" by (auto simp: mem)
    show "cc_coll d' = cc_coll d" by (simp add: d'_def personal_cursor_def)
    show "pc_item g \<noteq> pc_item h" if "behind d h" "g \<in> set ?X" for h g using that d(1) by (auto simp: behind_def)
    show "pc_item g \<le> pc_item h" if "pc_item g = pc_item h" for h g using that by simp
    show "h \<in> set ?X \<and> (n < length ?X \<longrightarrow> pc_item h \<le> pc_item (last (take n (sort_key pc_item ?X))))"
      if h: "latest cl h" "pc_collection h = cc_coll d" "behind d' h" "\<not> behind d h" for h
    proof -
      have pos: "h \<in> set (cl_changes cl)" using h(1) by (simp add: latest_def)
      have len: "length rows = length ?X" "take n rows = take n (sort_key pc_item ?X)" by (simp_all add: rows_def personal_reset_rows_def)
      have "pc_revision h \<le> cc_high d \<and> (n < length ?X \<longrightarrow> pc_item h \<le> pc_item (last (take n (sort_key pc_item ?X))))"
        using h(3) d(1) log_entry(3,4) [OF log pos] unfolding d'_def len by (auto simp: behind_def personal_cursor_def split: if_splits)
      moreover have "cc_after_id d < pc_item h" using h(4) d(1) calculation by (simp add: behind_def)
      ultimately show ?thesis using new [OF h(1,2)] by blast
    qed
  qed
qed

lemma delta_page_holds:
  assumes log: "log_ok cl" and n: "0 < n" and d: "cc_mode d = PersonalDelta" "holds_behind cl d copy" "cc_from d \<le> cc_high d"
  defines "rows \<equiv> personal_delta_rows cl d"
  defines "d' \<equiv> (if n < length rows then d\<lparr>cc_after_id := pc_item (last (take n rows)), cc_after_rev := pc_revision (last (take n rows))\<rparr>
      else personal_cursor PersonalDelta (cc_coll d) (cc_high d) 0)"
  shows "holds_behind cl d' (apply_items copy (map pc_snapshot (take n rows)))"
proof -
  let ?k = "\<lambda>h. (pc_revision h, pc_item h)"
  let ?X = "filter (\<lambda>h. pc_collection h = cc_coll d \<and> cc_from d < pc_revision h
     \<and> pc_revision h \<le> cc_high d \<and> (cc_after_rev d, cc_after_id d) < ?k h) (cl_changes cl)"
  have rows: "rows = sort_key ?k ?X" by (simp add: rows_def personal_delta_rows_def)
  have key: "keyed (\<lambda>h. (pc_collection h, pc_revision h, pc_item h)) (cl_changes cl)" using log by (simp add: log_ok_def)
  have dist: "distinct (map ?k ?X)"
  proof -
    have "distinct (cl_changes cl)" using key by (auto simp: keyed_def distinct_map)
    moreover have "inj_on ?k (set ?X)" using keyed_eq [OF key] by (auto simp: inj_on_def)
    ultimately show ?thesis by (simp add: distinct_map)
  qed
  have mode: "cc_mode d \<noteq> PersonalReset" using d(1) by simp
  have top: "pc_revision g \<le> pc_revision h" if "latest cl h" "pc_collection h = cc_coll d" "g \<in> set ?X" "pc_item g = pc_item h" for g h
    using that by (auto simp: latest_def same_item_def)
  show ?thesis
    unfolding rows
  proof (rule page_holds [OF log _ dist n d(2)])
    show "set ?X \<subseteq> set (cl_changes cl)" by auto
    show "cc_coll d' = cc_coll d" by (simp add: d'_def personal_cursor_def)
    show "pc_item g \<noteq> pc_item h" if h: "latest cl h" "pc_collection h = cc_coll d" "behind d h" "g \<in> set ?X" for h g
    proof
      assume same: "pc_item g = pc_item h"
      then have le: "pc_revision g \<le> pc_revision h" by (rule top [OF h(1,2,4)])
      have "cc_from d < pc_revision g" "(cc_after_rev d, cc_after_id d) < ?k g" using h(4) by simp_all
      then show False using h(3) mode le same by (auto simp: behind_def less_prod_def less_eq_prod_def)
    qed
    show "?k g \<le> ?k h" if "latest cl h" "pc_collection h = cc_coll d" "g \<in> set ?X" "pc_item g = pc_item h" for h g
      using top [OF that] that(4) by (simp add: less_eq_prod_def)
    show "h \<in> set ?X \<and> (n < length ?X \<longrightarrow> ?k h \<le> ?k (last (take n (sort_key ?k ?X))))"
      if h: "latest cl h" "pc_collection h = cc_coll d" "behind d' h" "\<not> behind d h" for h
    proof -
      have pos: "h \<in> set (cl_changes cl)" using h(1) by (simp add: latest_def)
      have out: "cc_from d < pc_revision h" "(cc_after_rev d, cc_after_id d) < ?k h"
        using h(4) mode by (auto simp: behind_def not_le)
      show ?thesis
      proof (cases "n < length ?X")
        case True
        then have n': "n < length rows" by (simp add: rows)
        let ?l = "last (take n rows)"
        have "take n rows \<noteq> []" using n n' by auto
        then have "?l \<in> set rows" using last_in_set set_take_subset by (metis subsetD)
        then have l: "?l \<in> set ?X" by (simp add: rows)
        have le: "?k h \<le> ?k ?l" using h(3) n' mode out(1) by (simp add: d'_def behind_def)
        then have "pc_revision h \<le> cc_high d" using l by (auto simp: less_eq_prod_def)
        then show ?thesis using pos h(2) out le by (simp add: rows)
      next
        case False
        then have "pc_revision h \<le> cc_high d"
          using h(3) log_entry(4) [OF log pos] by (auto simp: d'_def rows behind_def personal_cursor_def less_eq_prod_def)
        then show ?thesis using False pos h(2) out by simp
      qed
    qed
  qed
qed

text \<open>A request carries the client on, whatever ran between the read of the space and that of the rows.\<close>

definition reads_from :: "cloud \<Rightarrow> cloud \<Rightarrow> bool" where
  "reads_from cl1 cl2 \<longleftrightarrow> cloud_ok cl1 \<and> log_ok cl2 \<and> moved_on cl1 cl2"

lemma effective_start:
  assumes y: "synced owner cl1 y" and s: "space_of cl1 owner = Some s" and r: "reads_from cl1 cl2" and id: "sr_id s \<noteq> []"
  defines "d \<equiv> effective_cursor (sy_cursor y) (sr_id s) (sr_revision s)"
  shows "cc_coll d = sr_id s \<and> (cc_mode d = PersonalReset \<or> cc_mode d = PersonalDelta) \<and> 0 < cc_high d \<and> cc_high d \<le> sr_revision s
    \<and> 0 \<le> cc_from d \<and> cc_from d \<le> cc_high d \<and> 0 \<le> cc_after_rev d \<and> cc_after_rev d \<le> cc_high d
    \<and> holds_behind cl2 d (if cc_mode d = PersonalReset \<and> \<not> sy_resetting y then Map.empty else sy_copy y)"
proof -
  have pos: "0 < sr_revision s" using r space_of_row(1) [OF s] by (auto simp: reads_from_def cloud_ok_def)
  have after: "synced owner cl2 y" using synced_moved_on [OF y] r by (simp add: reads_from_def)
  show ?thesis
  proof (cases "sy_cursor y")
    case NoToken
    then have d: "d = personal_cursor PersonalReset (sr_id s) 0 (sr_revision s)"
      using pos by (simp add: d_def effective_cursor_def Let_def personal_cursor_def)
    have "holds_behind cl2 d copy" for copy
      using r log_entry(3) by (fastforce simp: holds_behind_def d behind_def personal_cursor_def latest_def reads_from_def)
    then show ?thesis using pos by (simp add: d personal_cursor_def)
  next
    case (BadToken v)
    then show ?thesis using y by (simp add: synced_def)
  next
    case (Token e)
    obtain t where t: "space_of cl1 owner = Some t" "cc_coll e \<noteq> []" "valid_personal_cursor e (sr_id t) (sr_revision t)"
        "cc_mode e = PersonalReset \<longrightarrow> sy_resetting y \<and> 0 < cc_high e"
      using y Token by (auto simp: synced_def)
    have hb: "holds_behind cl2 e (sy_copy y)" using after Token by (auto simp: synced_def)
    have ts: "t = s" using t(1) s by simp
    have d: "d = (if cc_high e = 0 then e\<lparr>cc_high := sr_revision s\<rparr> else e)"
      using t(2,3) Token ts by (simp add: d_def effective_cursor_def Let_def)
    have v: "valid_personal_cursor e (sr_id s) (sr_revision s)" using t(3) ts by simp
    have "holds_behind cl2 d (sy_copy y)"
    proof (cases "cc_high e = 0")
      case True
      then have "cc_mode e \<noteq> PersonalReset" using t(4) by auto
      then show ?thesis using hb True by (simp add: d holds_behind_def behind_def)
    next
      case False
      then show ?thesis using hb d by simp
    qed
    then show ?thesis using v t(4) pos by (auto simp: d valid_personal_cursor_def)
  qed
qed

lemma boundedCollectionLimit_pos: "0 < nat (boundedCollectionLimit limit)"
  by (simp add: boundedCollectionLimit_def collectionListLimit_def)

lemma delta_row:
  "h \<in> set (personal_delta_rows cl d) \<Longrightarrow> h \<in> set (cl_changes cl) \<and> cc_from d < pc_revision h \<and> pc_revision h \<le> cc_high d"
  by (auto simp: personal_delta_rows_def)

lemma reset_row: "h \<in> set (personal_reset_rows cl d) \<Longrightarrow> h \<in> set (cl_changes cl)"
  by (auto simp: personal_reset_rows_def newest_until_def Let_def)

lemma last_snapshot:
  assumes "0 < n" "n < length rows" "\<forall>h\<in>set rows. h \<in> set (cl_changes cl)" "log_ok cl"
  shows "pn_id (last (map pc_snapshot (take n rows))) = pc_item (last (take n rows))
       \<and> pn_revision (last (map pc_snapshot (take n rows))) = pc_revision (last (take n rows)) \<and> last (take n rows) \<in> set rows"
proof -
  have ne: "take n rows \<noteq> []" using assms(1,2) by auto
  then have l: "last (take n rows) \<in> set rows" using last_in_set set_take_subset by (metis subsetD)
  then show ?thesis using log_entry(1,2) [OF assms(4), of "last (take n rows)"] assms(3) last_map [OF ne, of pc_snapshot] by simp
qed

lemma PersonalChanges_page:
  assumes run: "PersonalChanges owner cursor limit cl1 cl2 = Ok p" and s: "space_of cl1 owner = Some s"
  defines "d \<equiv> effective_cursor cursor (sr_id s) (sr_revision s)" and "n \<equiv> nat (boundedCollectionLimit limit)"
  defines "rows \<equiv> (if cc_mode d = PersonalReset then personal_reset_rows cl2 d else personal_delta_rows cl2 d)"
  shows "pp_space p = sr_id s \<and> pp_revision p = sr_revision s \<and> pp_items p = map pc_snapshot (take n rows)
    \<and> pp_has_more p = (n < length rows) \<and> pp_reset p = (cc_mode d = PersonalReset)
    \<and> pp_cursor p = Token (if n < length rows
         then (if cc_mode d = PersonalReset then d\<lparr>cc_after_id := pn_id (last (map pc_snapshot (take n rows)))\<rparr>
               else d\<lparr>cc_after_id := pn_id (last (map pc_snapshot (take n rows))), cc_after_rev := pn_revision (last (map pc_snapshot (take n rows)))\<rparr>)
         else personal_cursor PersonalDelta (cc_coll d) (cc_high d) 0)"
proof -
  have "p = \<lparr>pp_space = sr_id s, pp_revision = sr_revision s, pp_items = map pc_snapshot (take n rows),
      pp_cursor = Token (if n < length rows
         then (if cc_mode d = PersonalReset then d\<lparr>cc_after_id := pn_id (last (map pc_snapshot (take n rows)))\<rparr>
               else d\<lparr>cc_after_id := pn_id (last (map pc_snapshot (take n rows))), cc_after_rev := pn_revision (last (map pc_snapshot (take n rows)))\<rparr>)
         else personal_cursor PersonalDelta (cc_coll d) (cc_high d) 0),
      pp_has_more = (n < length rows), pp_reset = (cc_mode d = PersonalReset)\<rparr>"
    using run unfolding PersonalChanges_def s option.case Let_def cut_page_eq prod.case d_def n_def rows_def sum.inject by (rule sym)
  then show ?thesis by simp
qed

lemma synced_page:
  assumes y: "synced owner cl1 y" and s: "space_of cl1 owner = Some s" and r: "reads_from cl1 cl2" and id: "sr_id s \<noteq> []"
    and run: "PersonalChanges owner (sy_cursor y) limit cl1 cl2 = Ok p"
  shows "synced owner cl2 (sync_page p y)"
proof -
  define d where "d = effective_cursor (sy_cursor y) (sr_id s) (sr_revision s)"
  define n where "n = nat (boundedCollectionLimit limit)"
  define rows where "rows = (if cc_mode d = PersonalReset then personal_reset_rows cl2 d else personal_delta_rows cl2 d)"
  let ?copy = "if cc_mode d = PersonalReset \<and> \<not> sy_resetting y then Map.empty else sy_copy y"
  note d = effective_start [OF y s r id, folded d_def]
  note p = PersonalChanges_page [OF run s, folded d_def n_def, folded rows_def]
  have log: "log_ok cl2" using r by (simp add: reads_from_def)
  have n: "0 < n" unfolding n_def by (rule boundedCollectionLimit_pos)
  define d' where "d' = (if n < length rows
      then (if cc_mode d = PersonalReset then d\<lparr>cc_after_id := pc_item (last (take n rows))\<rparr>
            else d\<lparr>cc_after_id := pc_item (last (take n rows)), cc_after_rev := pc_revision (last (take n rows))\<rparr>)
      else personal_cursor PersonalDelta (cc_coll d) (cc_high d) 0)"
  have mem: "\<forall>h\<in>set rows. h \<in> set (cl_changes cl2)" using delta_row reset_row by (auto simp: rows_def)
  have cursor: "pp_cursor p = Token d'"
    using p last_snapshot [OF n _ mem log] unfolding d'_def by (cases "n < length rows") simp_all
  have copy: "sy_copy (sync_page p y) = apply_items ?copy (map pc_snapshot (take n rows))"
    using p by (simp add: sync_page_def)
  have holds: "holds_behind cl2 d' (apply_items ?copy (map pc_snapshot (take n rows)))"
  proof (cases "cc_mode d = PersonalReset")
    case True
    have hb: "holds_behind cl2 d ?copy" using d by blast
    show ?thesis using reset_page_holds [OF log n True hb] True by (simp only: d'_def rows_def if_True if_False simp_thms)
  next
    case False
    then have delta: "cc_mode d = PersonalDelta" using d by blast
    have hb: "holds_behind cl2 d ?copy" "cc_from d \<le> cc_high d" using d by blast+
    show ?thesis using delta_page_holds [OF log n delta hb(1,2)] False by (simp only: d'_def rows_def if_True if_False simp_thms)
  qed
  obtain s' where s': "space_of cl2 owner = Some s'" "sr_id s' = sr_id s" "sr_revision s \<le> sr_revision s'"
    using r s unfolding reads_from_def moved_on_def by blast
  have after: "n < length rows \<Longrightarrow> cc_mode d \<noteq> PersonalReset \<Longrightarrow> 0 < pc_revision (last (take n rows)) \<and> pc_revision (last (take n rows)) \<le> cc_high d"
    using last_snapshot [OF n _ mem log] delta_row log_entry(4) [OF log] mem by (auto simp: rows_def)
  have coll: "cc_coll d' = sr_id s" using d by (simp add: d'_def personal_cursor_def)
  have "valid_personal_cursor d' (sr_id s') (sr_revision s')"
    using d s'(2,3) after coll unfolding d'_def valid_personal_cursor_def by (auto simp: personal_cursor_def)
  moreover have "cc_mode d' = PersonalReset \<Longrightarrow> pp_reset p \<and> 0 < cc_high d'"
    using d p by (auto simp: d'_def personal_cursor_def split: if_splits)
  ultimately show ?thesis
    using s' coll id holds copy unfolding synced_def sync_page_def
    by (auto simp: cursor valid_personal_cursor_def)
qed

section \<open>The copy\<close>

lemma set_revision_ids: "sr_id ` set (cl_spaces (set_revision c r now cl)) = sr_id ` set (cl_spaces cl)"
proof -
  have "map sr_id (cl_spaces (set_revision c r now cl)) = map sr_id (cl_spaces cl)" by (simp add: set_revision_def)
  then show ?thesis by (metis set_map)
qed

lemma cloud_step_ids:
  "cloud_step nfc cl cl' \<Longrightarrow> cloud_ok cl \<Longrightarrow> [] \<notin> sr_id ` set (cl_spaces cl) \<Longrightarrow> [] \<notin> sr_id ` set (cl_spaces cl')"
proof (induction rule: cloud_step.induct)
  case (ensure cl owner now new)
  then show ?case by (auto simp: EnsurePersonalSpace_def Let_def split: option.splits)
next
  case (mutate now cl owner m)
  obtain r cl' where run: "ApplyPersonalMutation nfc owner m now cl = (r, cl')" by fastforce
  then have "sr_id ` set (cl_spaces cl') = sr_id ` set (cl_spaces cl)"
  proof (cases rule: ApplyPersonalMutation_cases)
    case (performed s x)
    show ?thesis using performed(5) mutate(2) by (cases rule: mutation_rows) (simp only: set_revision_ids)
  qed simp
  then show ?case using mutate(3) by (simp add: run)
next
  case (empty_trash now cl owner input)
  obtain r cl' where run: "PurgePersonalTrash owner input now cl = (r, cl')" by fastforce
  then have "sr_id ` set (cl_spaces cl') = sr_id ` set (cl_spaces cl)"
  proof (cases rule: PurgePersonalTrash_cases)
    case (performed s x)
    show ?thesis using perform_purge_tables(3) [OF performed(4) empty_trash(2)] set_revision_ids by simp
  qed simp
  then show ?case using empty_trash(3) by (simp add: run)
next
  case (quota cl actor owner q request now)
  then show ?case by (simp add: SetPersonalQuota_frame)
qed simp

lemma cloud_reach_ids: "cloud_reach nfc cl \<Longrightarrow> [] \<notin> sr_id ` set (cl_spaces cl)"
proof (induction rule: cloud_reach.induct)
  case (step cl cl')
  then show ?case using cloud_step_ids cloud_reach_ok by blast
qed simp

lemma cloud_reach_steps: "(cloud_step nfc)\<^sup>*\<^sup>* cl cl' \<Longrightarrow> cloud_reach nfc cl \<Longrightarrow> cloud_reach nfc cl'"
  by (induction rule: rtranclp_induct) (blast intro: cloud_reach.step)+

lemma request_synced:
  assumes reach: "cloud_reach nfc cl1" and y: "synced owner cl1 y" and steps: "(cloud_step nfc)\<^sup>*\<^sup>* cl1 cl2"
    and run: "PersonalChanges owner (sy_cursor y) limit cl1 cl2 = Ok p"
  shows "synced owner cl2 (sync_page p y)"
proof -
  obtain s where s: "space_of cl1 owner = Some s" using run by (auto simp: PersonalChanges_def split: option.splits)
  have "reads_from cl1 cl2"
    using steps_ok [OF steps cloud_reach_ok [OF reach] cloud_reach_log_ok [OF reach]] cloud_reach_ok [OF reach] by (simp add: reads_from_def)
  moreover have "sr_id s \<noteq> []" using cloud_reach_ids [OF reach] space_of_row(1) [OF s] by force
  ultimately show ?thesis using synced_page [OF y s _ _ run] by blast
qed

lemma sync_reach_synced: "sync_reach nfc owner cl y \<Longrightarrow> cloud_reach nfc cl \<and> synced owner cl y"
proof (induction rule: sync_reach.induct)
  case (start cl)
  then show ?case by (simp add: synced_def)
next
  case (operation cl y cl')
  then show ?case using cloud_reach.step synced_moved_on cloud_step_moved_on cloud_reach_ok by metis
next
  case (request cl1 y cl2 limit p)
  then show ?case using request_synced cloud_reach_steps by blast
qed


definition anna_client :: sync_client where
  "anna_client = \<lparr>sy_cursor = NoToken, sy_resetting = False, sy_copy = Map.empty\<rparr>"

definition anna_page :: personal_page where
  "anna_page = (case PersonalChanges ''anna'' NoToken 0 anna_stored anna_stored of Inr p \<Rightarrow> p)"


text \<open>
  Emptying the trash deletes entries of the log: with the cursor of a reset that is under way a client gets
  other pages than before, although the comment on \<open>PersonalChanges\<close> excludes that.
\<close>

definition anna_purged :: cloud where
  "anna_purged = snd (PurgePersonalTrash ''anna'' \<lparr>tp_operation = ''o-5'', tp_items = [], tp_all = True\<rparr> 6000 anna_trashed)"

lemma purge_alters_pages:
  "map_sum id (\<lambda>p. map pn_id (pp_items p)) (PersonalChanges ''anna'' (Token (personal_cursor PersonalReset ''c-1'' 0 5)) 0 anna_trashed anna_trashed)
     = Inr [''n-1'', ''n-2'', ''n-3'']
   \<and> map_sum id (\<lambda>p. map pn_id (pp_items p)) (PersonalChanges ''anna'' (Token (personal_cursor PersonalReset ''c-1'' 0 5)) 0 anna_purged anna_purged)
     = Inr []"
  by code_simp

end
