(* ===== verification/Personal_Sharing.thy ===== *)
theory Personal_Sharing
  imports Personal_Copy
begin

text \<open>
  Shared folders: the grants of \<open>internal/postgres/personal_sharing.go\<close>, the folders and files a recipient
  sees through them, and \<open>PersonalContentAssetID\<close>, the owner's own way to the content of a file.
\<close>

section \<open>Grants\<close>

definition owned_by :: "cloud \<Rightarrow> string \<Rightarrow> string \<Rightarrow> bool" where
  "owned_by cl owner c \<longleftrightarrow> exists_row (\<lambda>s. sr_id s = c \<and> sr_owner s = owner) (cl_spaces cl)"

definition has_space :: "cloud \<Rightarrow> string \<Rightarrow> bool" where
  "has_space cl c \<longleftrightarrow> exists_row (\<lambda>s. sr_id s = c) (cl_spaces cl)"

definition own_folder :: "cloud \<Rightarrow> string \<Rightarrow> string \<Rightarrow> personal_node option" where
  "own_folder cl owner item = sel1 (\<lambda>n. pn_id n = item \<and> owned_by cl owner (pn_collection n) \<and> pn_kind n = Folder \<and> live_node n) (cl_nodes cl)"

definition active_grant :: "folder_grant \<Rightarrow> bool" where
  "active_grant g \<longleftrightarrow> fg_revoked g = 0"

definition CreatePersonalFolderGrant :: "string \<Rightarrow> string \<Rightarrow> string \<Rightarrow> time \<Rightarrow> string \<Rightarrow> cloud \<Rightarrow> folder_grant result \<times> cloud" where
  "CreatePersonalFolderGrant owner item grantee now new cl = cloud_tx cl
     (if owner = grantee then Err ErrConflict
      else case own_folder cl owner item of
        None \<Rightarrow> Err ErrNotFound
      | Some n \<Rightarrow>
          (let g = \<lparr>fg_id = new, fg_collection = pn_collection n, fg_folder = item, fg_owner = owner, fg_grantee = grantee,
                    fg_created = now, fg_revoked = 0\<rparr>
           in case sel1 (\<lambda>h. fg_collection h = pn_collection n \<and> fg_folder h = item \<and> fg_grantee h = grantee \<and> active_grant h) (cl_grants cl) of
                Some h \<Rightarrow> Ok (h, cl)
              | None \<Rightarrow> bindR (insert_row (\<lambda>g. fg_id g \<noteq> [] \<and> fg_owner g \<noteq> [] \<and> fg_grantee g \<noteq> []) (\<lambda>g h. fg_id g = fg_id h) g (cl_grants cl))
                          (\<lambda>t. Ok (g, cl\<lparr>cl_grants := t\<rparr>))))"

definition ListPersonalFolderGrants :: "string \<Rightarrow> string \<Rightarrow> cloud \<Rightarrow> folder_grant list result" where
  "ListPersonalFolderGrants owner item cl =
     (if own_folder cl owner item = None then Err ErrNotFound
      else Ok (sort_key (\<lambda>g. (fg_created g, fg_id g)) (filter (\<lambda>g. fg_owner g = owner \<and> fg_folder g = item \<and> active_grant g
        \<and> owned_by cl owner (fg_collection g)
        \<and> (case node_in cl (fg_collection g) (fg_folder g) of None \<Rightarrow> False | Some n \<Rightarrow> live_node n)) (cl_grants cl))))"

definition revoke_where :: "(folder_grant \<Rightarrow> bool) \<Rightarrow> time \<Rightarrow> cloud \<Rightarrow> unit result \<times> cloud" where
  "revoke_where P now cl = (if affected P (cl_grants cl) = 0 then Err ErrNotFound else Ok (),
     cl\<lparr>cl_grants := upd_where P (\<lambda>g. g\<lparr>fg_revoked := if fg_revoked g = 0 then now else fg_revoked g\<rparr>) (cl_grants cl)\<rparr>)"

definition RevokePersonalFolderGrant :: "string \<Rightarrow> string \<Rightarrow> string \<Rightarrow> time \<Rightarrow> cloud \<Rightarrow> unit result \<times> cloud" where
  "RevokePersonalFolderGrant owner item grant now cl =
     revoke_where (\<lambda>g. fg_id g = grant \<and> fg_owner g = owner \<and> fg_folder g = item) now cl"

definition LeaveSharedFolder :: "string \<Rightarrow> string \<Rightarrow> time \<Rightarrow> cloud \<Rightarrow> unit result \<times> cloud" where
  "LeaveSharedFolder recipient grant now cl = revoke_where (\<lambda>g. fg_id g = grant \<and> fg_grantee g = recipient) now cl"

section \<open>What a recipient sees\<close>

text \<open>The recursive query \<open>ancestors\<close> over the folders above a root.\<close>

definition folders_above :: "cloud \<Rightarrow> personal_node \<Rightarrow> string list" where
  "folders_above cl n = (if pn_parent n = [] then [] else ancestors cl (pn_collection n) (pn_parent n))"

definition above_live :: "cloud \<Rightarrow> personal_node \<Rightarrow> bool" where
  "above_live cl n \<longleftrightarrow> list_all (\<lambda>i. case node_in cl (pn_collection n) i of None \<Rightarrow> True | Some p \<Rightarrow> live_node p) (folders_above cl n)"

definition grant_root :: "cloud \<Rightarrow> folder_grant \<Rightarrow> personal_node option" where
  "grant_root cl g = (case node_in cl (fg_collection g) (fg_folder g) of
       None \<Rightarrow> None
     | Some n \<Rightarrow> if has_space cl (fg_collection g) \<and> live_node n \<and> above_live cl n then Some n else None)"

definition granted_to :: "cloud \<Rightarrow> string \<Rightarrow> string \<Rightarrow> folder_grant option" where
  "granted_to cl recipient grant = sel1 (\<lambda>g. fg_id g = grant \<and> fg_grantee g = recipient \<and> active_grant g) (cl_grants cl)"

record shared_root =
  sf_grant :: string
  sf_owner :: string
  sf_root :: personal_node
  sf_revision :: int

definition shared_root_of :: "cloud \<Rightarrow> string \<Rightarrow> folder_grant \<Rightarrow> shared_root option" where
  "shared_root_of cl recipient g =
     (case (grant_root cl g, sel1 (\<lambda>s. sr_id s = fg_collection g) (cl_spaces cl)) of
        (Some n, Some s) \<Rightarrow>
          if fg_grantee g = recipient \<and> active_grant g \<and> pn_kind n = Folder
             \<and> \<not> exists_row (\<lambda>h. fg_collection h = fg_collection g \<and> fg_folder h \<in> set (folders_above cl n)
                   \<and> fg_grantee h = recipient \<and> active_grant h) (cl_grants cl)
          then Some \<lparr>sf_grant = fg_id g, sf_owner = fg_owner g, sf_root = n, sf_revision = sr_revision s\<rparr> else None
      | _ \<Rightarrow> None)"

definition ListSharedFolderRoots :: "string \<Rightarrow> cloud \<Rightarrow> shared_root list result" where
  "ListSharedFolderRoots recipient cl =
     Ok (sort_key (\<lambda>r. (pn_name (sf_root r), sf_grant r)) (List.map_filter (shared_root_of cl recipient) (cl_grants cl)))"

text \<open>The recursive query \<open>readable\<close>: what live children lead to from the root, read upwards.\<close>

fun live_chain :: "nat \<Rightarrow> cloud \<Rightarrow> string \<Rightarrow> string \<Rightarrow> string list" where
  "live_chain 0 cl c i = []"
| "live_chain (Suc k) cl c i =
     (case node_in cl c i of
        None \<Rightarrow> []
      | Some n \<Rightarrow> if live_node n then i # (if pn_parent n = [] then [] else live_chain k cl c (pn_parent n)) else [])"

definition readable_file :: "cloud \<Rightarrow> personal_node \<Rightarrow> string \<Rightarrow> personal_node option" where
  "readable_file cl root item =
     (case node_in cl (pn_collection root) item of
        None \<Rightarrow> None
      | Some n \<Rightarrow> if pn_kind n = File \<and> pn_id root \<in> set (live_chain (Suc (length (cl_nodes cl))) cl (pn_collection root) item)
                  then Some n else None)"

definition leasable :: "time \<Rightarrow> asset_row \<Rightarrow> bool" where
  "leasable now r \<longleftrightarrow> a_namespace r = ''presenter.personal'' \<and> usable r \<and> a_deleted r = 0 \<and> a_purged r = 0 \<and> unclaimed_at now r"

text \<open>\<open>UPDATE assets ... RETURNING a.id\<close>: the lease and the identifier of the asset that got it.\<close>

definition lease_asset :: "(asset_row \<Rightarrow> bool) \<Rightarrow> time \<Rightarrow> cloud \<Rightarrow> string result \<times> cloud" where
  "lease_asset P now cl = (case sel1 P (st_assets (cl_store cl)) of
       None \<Rightarrow> (Err ErrNotFound, cl)
     | Some r \<Rightarrow> (Ok (a_id r), download_lease P now cl))"

definition SharedFolderContentAssetID :: "string \<Rightarrow> string \<Rightarrow> string \<Rightarrow> time \<Rightarrow> cloud \<Rightarrow> string result \<times> cloud" where
  "SharedFolderContentAssetID recipient grant item now cl =
     lease_asset (\<lambda>r. (case granted_to cl recipient grant of
           None \<Rightarrow> False
         | Some g \<Rightarrow> (case grant_root cl g of
               None \<Rightarrow> False
             | Some root \<Rightarrow> (case readable_file cl root item of None \<Rightarrow> False | Some n \<Rightarrow> pn_asset n \<noteq> [] \<and> a_id r = pn_asset n)))
         \<and> leasable now r) now cl"

text \<open>
  The owner's access: revision \<open>0\<close> is the current content of a node, live or in the trash, any other the
  content its log names for that revision unless it was deleted then.
\<close>

definition own_file :: "cloud \<Rightarrow> string \<Rightarrow> string \<Rightarrow> time \<Rightarrow> personal_node option" where
  "own_file cl owner item now = sel1 (\<lambda>n. pn_id n = item \<and> owned_by cl owner (pn_collection n) \<and> pn_kind n = File
     \<and> (live_node n \<or> pn_deleted n > now - trash_period)) (cl_nodes cl)"

definition content_at :: "cloud \<Rightarrow> personal_node \<Rightarrow> int \<Rightarrow> string \<Rightarrow> bool" where
  "content_at cl n revision a \<longleftrightarrow> a \<noteq> [] \<and> (if revision = 0 then pn_asset n = a
     else exists_row (\<lambda>h. pc_collection h = pn_collection n \<and> pc_item h = pn_id n \<and> pc_revision h = revision
        \<and> pn_asset (pc_snapshot h) = a \<and> live_node (pc_snapshot h)) (cl_changes cl))"

definition PersonalContentAssetID :: "string \<Rightarrow> string \<Rightarrow> int \<Rightarrow> time \<Rightarrow> cloud \<Rightarrow> string result \<times> cloud" where
  "PersonalContentAssetID owner item revision now cl =
     lease_asset (\<lambda>r. (case own_file cl owner item now of None \<Rightarrow> False | Some n \<Rightarrow> content_at cl n revision (a_id r))
        \<and> a_owner_id r = owner \<and> leasable now r) now cl"

definition GetPersonalNode :: "string \<Rightarrow> string \<Rightarrow> cloud \<Rightarrow> personal_node result" where
  "GetPersonalNode owner i cl = (case sel1 (\<lambda>n. pn_id n = i \<and> owned_by cl owner (pn_collection n)) (cl_nodes cl) of
       None \<Rightarrow> Err ErrNotFound | Some n \<Rightarrow> Ok n)"

definition PersonalUploadAssetID :: "string \<Rightarrow> string \<Rightarrow> cloud \<Rightarrow> string result" where
  "PersonalUploadAssetID owner upload cl =
     (case sel1 (\<lambda>r. uploaded_by cl upload r \<and> personal_asset owner r) (st_assets (cl_store cl)) of
        None \<Rightarrow> Err ErrNotFound | Some r \<Rightarrow> Ok (a_id r))"

section \<open>The pages of a shared folder\<close>

record shared_cursor =
  sc_recipient :: string
  sc_grant :: string
  sc_revision :: int
  sc_after :: string

record shared_page =
  sh_grant :: string
  sh_revision :: int
  sh_items :: "personal_node list"
  sh_cursor :: "shared_cursor token"
  sh_has_more :: bool
  sh_reset :: bool

definition snapshot_shown :: "personal_change \<Rightarrow> bool" where
  "snapshot_shown h \<longleftrightarrow> live_node (pc_snapshot h) \<and> \<not> pn_purged (pc_snapshot h)"

text \<open>The recursive query \<open>subtree\<close> over the latest snapshots, read upwards.\<close>

fun snapshot_chain :: "nat \<Rightarrow> personal_change list \<Rightarrow> string \<Rightarrow> string list" where
  "snapshot_chain 0 t i = []"
| "snapshot_chain (Suc k) t i =
     (case sel1 (\<lambda>h. pc_item h = i) t of
        None \<Rightarrow> []
      | Some h \<Rightarrow> if snapshot_shown h then i # (if pn_parent (pc_snapshot h) = [] then [] else snapshot_chain k t (pn_parent (pc_snapshot h))) else [])"

definition decorated :: "cloud \<Rightarrow> personal_node \<Rightarrow> personal_node" where
  "decorated cl n = (case asset_of (cl_store cl) (pn_asset n) of
       None \<Rightarrow> n\<lparr>pn_mime := [], pn_size := 0, pn_etag := []\<rparr>
     | Some r \<Rightarrow> n\<lparr>pn_mime := (if a_detected_mime r = [] then a_expected_mime r else a_detected_mime r), pn_size := a_size r, pn_etag := a_etag r\<rparr>)"

definition shared_rows :: "cloud \<Rightarrow> string \<Rightarrow> string \<Rightarrow> int \<Rightarrow> string \<Rightarrow> personal_change list" where
  "shared_rows cl c root revision after_id = (let t = newest_until cl c revision
     in sort_key pc_item (filter (\<lambda>h. after_id < pc_item h \<and> root \<in> set (snapshot_chain (Suc (length t)) t (pc_item h))) t))"

definition SharedFolderSnapshot :: "string \<Rightarrow> string \<Rightarrow> shared_cursor token \<Rightarrow> int \<Rightarrow> cloud \<Rightarrow> shared_page result" where
  "SharedFolderSnapshot recipient grant cursor limit cl =
     (case granted_to cl recipient grant of
        None \<Rightarrow> Err ErrNotFound
      | Some g \<Rightarrow>
          (case (grant_root cl g, sel1 (\<lambda>s. sr_id s = fg_collection g) (cl_spaces cl)) of
             (Some root, Some s) \<Rightarrow>
               (let start = \<lparr>sc_recipient = recipient, sc_grant = grant, sc_revision = sr_revision s, sc_after = []\<rparr>;
                    refused = (case cursor of NoToken \<Rightarrow> False | BadToken _ \<Rightarrow> True
                      | Token d \<Rightarrow> sc_recipient d \<noteq> recipient \<or> sc_grant d \<noteq> grant \<or> sc_revision d \<le> 0 \<or> sc_revision d > sr_revision s);
                    d = (case cursor of Token d \<Rightarrow> d | _ \<Rightarrow> start)
                in if refused then Err ErrInvalidInput
                   else case cut_page (nat (boundedCollectionLimit limit)) (shared_rows cl (fg_collection g) (pn_id root) (sc_revision d) (sc_after d)) of
                     (rows, surplus) \<Rightarrow>
                       (let items = map (decorated cl \<circ> pc_snapshot) rows in
                        Ok \<lparr>sh_grant = grant, sh_revision = sc_revision d, sh_items = items,
                            sh_cursor = (if surplus then Token (d\<lparr>sc_after := pn_id (last items)\<rparr>) else NoToken),
                            sh_has_more = surplus, sh_reset = True\<rparr>))
           | _ \<Rightarrow> Err ErrNotFound))"

end
