(* ===== verification/Sharing_Props.thy ===== *)
theory Sharing_Props
  imports Personal_Sharing Purge_Worker
begin

text \<open>
  What the grants give: a recipient reads exactly the live files below the folders shared with them, and
  content that was handed out stays for ten minutes, whatever the purge does.
\<close>

section \<open>Live chains\<close>

lemma live_parent:
  assumes ok: "forest_ok (node_in cl c)" and n: "node_in cl c i = Some n" "live_node n" "pn_parent n \<noteq> []"
  shows "\<exists>p. node_in cl c (pn_parent n) = Some p \<and> live_node p \<and> pn_kind p = Folder"
  using forest_parent [OF ok n(1,3)] n(2) by metis

lemma live_chain_chain:
  assumes ok: "forest_ok (node_in cl c)"
  shows "node_in cl c i = Some n \<Longrightarrow> live_node n \<Longrightarrow> live_chain k cl c i = chain k cl c i"
proof (induction k arbitrary: i n)
  case 0
  then show ?case by simp
next
  case (Suc k)
  then show ?case using live_parent [OF ok Suc.prems] Suc.IH by (cases "pn_parent n = []") auto
qed

lemma live_above:
  assumes ok: "forest_ok (node_in cl c)" and n: "node_in cl c i = Some n" "live_node n"
  shows "x \<in> set (chain k cl c i) \<Longrightarrow> \<exists>p. node_in cl c x = Some p \<and> live_node p"
  using n
proof (induction k arbitrary: i n)
  case 0
  then show ?case by simp
next
  case (Suc k)
  then have "x = i \<or> pn_parent n \<noteq> [] \<and> x \<in> set (chain k cl c (pn_parent n))" by (auto split: if_splits)
  then show ?case using Suc.IH Suc.prems live_parent [OF ok Suc.prems(2,3)] by metis
qed

lemma live_chain_iff:
  assumes ok: "forest_ok (node_in cl c)"
  shows "x \<in> set (live_chain (Suc (length (cl_nodes cl))) cl c i) \<longleftrightarrow> (\<exists>n. node_in cl c i = Some n \<and> live_node n \<and> x \<in> set (ancestors cl c i))"
proof (cases "\<exists>n. node_in cl c i = Some n \<and> live_node n")
  case True
  then obtain n where n: "node_in cl c i = Some n" "live_node n" by blast
  show ?thesis unfolding live_chain_chain [OF ok n] ancestors_def [symmetric] using n by blast
next
  case False
  then show ?thesis by (auto split: option.splits)
qed

section \<open>The lease\<close>

lemma lease_asset_Ok:
  assumes key: "keyed a_id (st_assets (cl_store cl))"
  shows "fst (lease_asset P now cl) = Ok a \<longleftrightarrow> (\<exists>r. sel1 P (st_assets (cl_store cl)) = Some r \<and> a_id r = a)"
  by (auto simp: lease_asset_def split: option.splits)

lemma lease_asset_leases:
  assumes "lease_asset P now cl = (Ok a, cl')" "r \<in> set (st_assets (cl_store cl'))" "a_id r = a" "keyed a_id (st_assets (cl_store cl))"
  shows "now + 10 * minute \<le> ar_download_until r"
proof -
  obtain q where q: "sel1 P (st_assets (cl_store cl)) = Some q" "a_id q = a" "cl' = download_lease P now cl"
    using assms(1) by (auto simp: lease_asset_def split: option.splits)
  obtain k where k: "k \<in> set (st_assets (cl_store cl))"
      "r = (if P k then k\<lparr>ar_download_until := max (ar_download_until k) (now + 10 * minute)\<rparr> else k)"
    using assms(2) q(3) by (auto simp: download_lease_def UPDATE_assets_def set_upd_where)
  have "a_id k = a_id q" using k(2) assms(3) q(2) by (auto split: if_splits)
  then have "k = q" using keyed_eq [OF assms(4) k(1)] sel1_Some [OF q(1)] by blast
  then show ?thesis using k(2) sel1_Some [OF q(1)] by simp
qed

lemma ClaimPurge_held:
  assumes "\<And>r. r \<in> set (st_assets st) \<Longrightarrow> a_id r = a \<Longrightarrow> \<not> purge_unheld nf t st r"
  shows "map_option pc_asset (fst (ClaimPurge nf t lease st)) \<noteq> Some a"
proof (cases "ClaimPurge nf t lease st")
  case (Pair found st')
  then show ?thesis
  proof (cases rule: ClaimPurge_cases)
    case none
    then show ?thesis using Pair by simp
  next
    case (claimed q)
    then show ?thesis using Pair assms [of q] by (auto simp: purge_ready_def)
  qed
qed

lemma lease_asset_unclaimed:
  assumes "lease_asset (\<lambda>r. Q r \<and> leasable now r) now cl = (Ok a, cl')" "keyed a_id (st_assets (cl_store cl))"
    "r \<in> set (st_assets (cl_store cl))" "a_id r = a"
  shows "unclaimed_at now r"
proof -
  obtain q where q: "sel1 (\<lambda>r. Q r \<and> leasable now r) (st_assets (cl_store cl)) = Some q" "a_id q = a"
    using assms(1) by (auto simp: lease_asset_def split: option.splits)
  then have "r = q" using keyed_eq [OF assms(2,3)] sel1_Some [OF q(1)] assms(4) by blast
  then show ?thesis using sel1_Some [OF q(1)] by (simp add: leasable_def)
qed


section \<open>Shared content\<close>

text \<open>What a grant shares, on the rows: a live file below the live folder of a grant of the recipient that is not revoked.\<close>

definition shared_file :: "cloud \<Rightarrow> string \<Rightarrow> string \<Rightarrow> string \<Rightarrow> personal_node \<Rightarrow> bool" where
  "shared_file cl recipient grant item n \<longleftrightarrow> (\<exists>g\<in>set (cl_grants cl). \<exists>f. fg_id g = grant \<and> fg_grantee g = recipient \<and> fg_revoked g = 0
     \<and> node_in cl (fg_collection g) (fg_folder g) = Some f \<and> live_node f
     \<and> node_in cl (fg_collection g) item = Some n \<and> live_node n \<and> pn_kind n = File
     \<and> fg_folder g \<in> set (ancestors cl (fg_collection g) item))"

lemma granted_to_iff:
  assumes "keyed fg_id (cl_grants cl)"
  shows "granted_to cl recipient grant = Some g \<longleftrightarrow> g \<in> set (cl_grants cl) \<and> fg_id g = grant \<and> fg_grantee g = recipient \<and> fg_revoked g = 0"
proof
  assume "granted_to cl recipient grant = Some g"
  then show "g \<in> set (cl_grants cl) \<and> fg_id g = grant \<and> fg_grantee g = recipient \<and> fg_revoked g = 0"
    unfolding granted_to_def active_grant_def using sel1_Some by fastforce
next
  assume g: "g \<in> set (cl_grants cl) \<and> fg_id g = grant \<and> fg_grantee g = recipient \<and> fg_revoked g = 0"
  then obtain h where h: "granted_to cl recipient grant = Some h"
    by (cases "granted_to cl recipient grant") (auto simp: granted_to_def active_grant_def sel1_None)
  then have "h \<in> set (cl_grants cl)" "fg_id h = grant" unfolding granted_to_def using sel1_Some by fastforce+
  then show "granted_to cl recipient grant = Some g" using keyed_eq [OF assms, of h g] g h by simp
qed

lemma shared_file_granted:
  assumes "keyed fg_id (cl_grants cl)"
  shows "shared_file cl recipient grant item n \<longleftrightarrow> (\<exists>g f. granted_to cl recipient grant = Some g
     \<and> node_in cl (fg_collection g) (fg_folder g) = Some f \<and> live_node f
     \<and> node_in cl (fg_collection g) item = Some n \<and> live_node n \<and> pn_kind n = File
     \<and> fg_folder g \<in> set (ancestors cl (fg_collection g) item))"
  unfolding shared_file_def granted_to_iff [OF assms] by blast

lemma grant_root_iff:
  assumes ok: "cloud_ok cl"
  shows "grant_root cl g = Some f \<longleftrightarrow> node_in cl (fg_collection g) (fg_folder g) = Some f \<and> live_node f"
proof
  assume "grant_root cl g = Some f"
  then show "node_in cl (fg_collection g) (fg_folder g) = Some f \<and> live_node f"
    by (auto simp: grant_root_def split: option.splits if_splits)
next
  assume f: "node_in cl (fg_collection g) (fg_folder g) = Some f \<and> live_node f"
  note row = node_in_row [OF conjunct1 [OF f]]
  obtain s where "s \<in> set (cl_spaces cl)" "sr_id s = fg_collection g"
    using cloud_ok_node [OF ok row(1)] row(2) by (auto simp: node_in_space_def)
  then have space: "has_space cl (fg_collection g)" by (auto simp: has_space_def)
  have "above_live cl f"
  proof (cases "pn_parent f = []")
    case True
    then show ?thesis by (simp add: above_live_def folders_above_def)
  next
    case False
    obtain p where p: "node_in cl (fg_collection g) (pn_parent f) = Some p" "live_node p"
      using live_parent [OF cloud_ok_forest [OF ok] conjunct1 [OF f] conjunct2 [OF f] False] by blast
    show ?thesis
      using live_above [OF cloud_ok_forest [OF ok] p] row(2) False
      by (fastforce simp: above_live_def folders_above_def ancestors_def list_all_iff simp del: chain.simps)
  qed
  then show "grant_root cl g = Some f" using f space by (simp add: grant_root_def)
qed

lemma readable_file_iff:
  assumes ok: "cloud_ok cl" and f: "node_in cl c (pn_id f) = Some f"
  shows "readable_file cl f item = Some n \<longleftrightarrow> node_in cl c item = Some n \<and> live_node n \<and> pn_kind n = File \<and> pn_id f \<in> set (ancestors cl c item)"
  using live_chain_iff [OF cloud_ok_forest [OF ok], of "pn_id f" c item] node_in_row(2) [OF f]
  unfolding readable_file_def by (auto simp del: live_chain.simps split: option.splits if_splits)

text \<open>The condition of the query, row by row.\<close>

definition shared_content :: "cloud \<Rightarrow> string \<Rightarrow> string \<Rightarrow> string \<Rightarrow> time \<Rightarrow> asset_row \<Rightarrow> bool" where
  "shared_content cl recipient grant item now r \<longleftrightarrow> (case granted_to cl recipient grant of
           None \<Rightarrow> False
         | Some g \<Rightarrow> (case grant_root cl g of
               None \<Rightarrow> False
             | Some root \<Rightarrow> (case readable_file cl root item of None \<Rightarrow> False | Some n \<Rightarrow> pn_asset n \<noteq> [] \<and> a_id r = pn_asset n)))
         \<and> leasable now r"

lemma grant_root_id: "cloud_ok cl \<Longrightarrow> grant_root cl g = Some f \<Longrightarrow> node_in cl (fg_collection g) (pn_id f) = Some f \<and> pn_id f = fg_folder g"
  using grant_root_iff [of cl g f] node_in_row(3) by metis

lemma file_stored:
  assumes ok: "cloud_ok cl" and n: "node_in cl c i = Some n" "live_node n" "pn_kind n = File"
  shows "pn_asset n \<noteq> []"
  using cloud_ok_rows [OF ok] node_in_row(1) [OF n(1)] n by (auto simp: rows_ok_def node_check_def)

lemma shared_content_iff:
  assumes ok: "cloud_ok cl" and grants: "keyed fg_id (cl_grants cl)"
  shows "shared_content cl recipient grant item now r
     \<longleftrightarrow> (\<exists>n. shared_file cl recipient grant item n \<and> a_id r = pn_asset n \<and> leasable now r)"
proof
  assume "shared_content cl recipient grant item now r"
  then obtain g f n where gn: "granted_to cl recipient grant = Some g" "grant_root cl g = Some f" "readable_file cl f item = Some n"
      "a_id r = pn_asset n" "leasable now r" by (auto simp: shared_content_def split: option.splits)
  then have "shared_file cl recipient grant item n"
    unfolding shared_file_granted [OF grants] using grant_root_id [OF ok gn(2)] grant_root_iff [OF ok, of g f] readable_file_iff [OF ok, of "fg_collection g" f] by auto
  then show "\<exists>n. shared_file cl recipient grant item n \<and> a_id r = pn_asset n \<and> leasable now r" using gn by blast
next
  assume "\<exists>n. shared_file cl recipient grant item n \<and> a_id r = pn_asset n \<and> leasable now r"
  then obtain n g f where n: "granted_to cl recipient grant = Some g" "node_in cl (fg_collection g) (fg_folder g) = Some f" "live_node f"
      "node_in cl (fg_collection g) item = Some n" "live_node n" "pn_kind n = File" "fg_folder g \<in> set (ancestors cl (fg_collection g) item)"
      "a_id r = pn_asset n" "leasable now r" unfolding shared_file_granted [OF grants] by blast
  have f: "grant_root cl g = Some f" using n(2,3) grant_root_iff [OF ok] by simp
  have "readable_file cl f item = Some n" using readable_file_iff [OF ok] grant_root_id [OF ok f] n(4-7) by metis
  then show "shared_content cl recipient grant item now r" using n f file_stored [OF ok n(4-6)] by (simp add: shared_content_def)
qed

text \<open>
  C35.  A recipient reads through a grant exactly the live files below the shared folder, as long as the
  grant is not revoked, the folder not in the trash and the content servable; the folders between, the
  space and the depth of the file need no condition of their own.
\<close>

theorem shared_access_exact:
  assumes "cloud_reach nfc cl" and key: "keyed a_id (st_assets (cl_store cl))" and grants: "keyed fg_id (cl_grants cl)"
  shows "fst (SharedFolderContentAssetID recipient grant item now cl) = Ok a
     \<longleftrightarrow> (\<exists>n r. shared_file cl recipient grant item n \<and> asset_of (cl_store cl) (pn_asset n) = Some r \<and> leasable now r \<and> a = pn_asset n)"
    (is "?got \<longleftrightarrow> ?may")
proof -
  let ?P = "shared_content cl recipient grant item now"
  note P = shared_content_iff [OF cloud_reach_ok [OF assms(1)] grants, of recipient grant item now]
  have wf: "wf_assets (cl_store cl)" using key by (simp add: wf_assets_def)
  have got: "?got \<longleftrightarrow> (\<exists>r. sel1 ?P (st_assets (cl_store cl)) = Some r \<and> a_id r = a)"
    unfolding SharedFolderContentAssetID_def shared_content_def by (rule lease_asset_Ok [OF key])
  show ?thesis
  proof
    assume ?got
    then obtain r where r: "sel1 ?P (st_assets (cl_store cl)) = Some r" "a_id r = a" using got by blast
    then obtain n where n: "shared_file cl recipient grant item n" "a_id r = pn_asset n" "leasable now r"
      using sel1_Some [OF r(1)] P by blast
    then show ?may using asset_of_mem [OF wf, of r] sel1_Some [OF r(1)] r(2) by metis
  next
    assume ?may
    then obtain n r where n: "shared_file cl recipient grant item n" "asset_of (cl_store cl) (pn_asset n) = Some r" "leasable now r" "a = pn_asset n" by blast
    have r: "r \<in> set (st_assets (cl_store cl))" "a_id r = pn_asset n" using asset_of_Some [OF n(2)] by auto
    obtain q where q: "sel1 ?P (st_assets (cl_store cl)) = Some q"
      using r n P by (cases "sel1 ?P (st_assets (cl_store cl))") (auto simp: sel1_None)
    then obtain m where "shared_file cl recipient grant item m" "a_id q = pn_asset m" using sel1_Some [OF q] P by blast
    then have "a_id q = a" using n(1,4) unfolding shared_file_granted [OF grants] by auto
    then show ?got using got q by blast
  qed
qed

section \<open>A folder of Anna's, shared with Bob\<close>

definition anna_shared :: cloud where
  "anna_shared = snd (CreatePersonalFolderGrant ''anna'' ''n-1'' ''bob'' 4500 ''g-1'' anna_stored)"

lemma grant_reach:
  assumes "cloud_reach nfc cl"
  shows "cloud_reach nfc (snd (CreatePersonalFolderGrant owner item grantee now new cl))"
proof (cases "CreatePersonalFolderGrant owner item grantee now new cl")
  case (Pair r cl')
  have "\<exists>t. cl' = cl\<lparr>cl_store := cl_store cl, cl_grants := t\<rparr>"
  proof (cases r)
    case (Inl e)
    then have "cl' = cl" using Pair by (simp add: CreatePersonalFolderGrant_def cloud_tx_Err)
    then show ?thesis by (intro exI [of _ "cl_grants cl"]) simp
  next
    case (Inr h)
    then have "cl' = cl \<or> (\<exists>t. cl' = cl\<lparr>cl_grants := t\<rparr>)"
      using Pair by (auto simp: CreatePersonalFolderGrant_def Let_def split: if_splits option.splits sum.splits)
    then show ?thesis
    proof
      assume "cl' = cl"
      then show ?thesis by (intro exI [of _ "cl_grants cl"]) simp
    qed auto
  qed
  then obtain t where "cl' = cl\<lparr>cl_store := cl_store cl, cl_grants := t\<rparr>" by blast
  then have "cloud_step nfc cl cl'" using cloud_step.other [of nfc cl t "cl_store cl"] by argo
  then show ?thesis using Pair cloud_reach.step [OF assms] by simp
qed

theorem shared_access_exact_witness:
  "fst (SharedFolderContentAssetID ''bob'' ''g-1'' ''n-3'' 5000 anna_shared) = Ok ''a-1''
   \<and> fst (SharedFolderContentAssetID ''eve'' ''g-1'' ''n-3'' 5000 anna_shared) = Err ErrNotFound
   \<and> (\<exists>n. shared_file anna_shared ''bob'' ''g-1'' ''n-3'' n \<and> pn_asset n = ''a-1'')"
proof -
  have "cloud_reach id anna_shared" unfolding anna_shared_def by (rule grant_reach [OF anna_reach(4)])
  moreover have "keyed a_id (st_assets (cl_store anna_shared))" "keyed fg_id (cl_grants anna_shared)" by code_simp+
  moreover have got: "fst (SharedFolderContentAssetID ''bob'' ''g-1'' ''n-3'' 5000 anna_shared) = Ok ''a-1''" by code_simp
  moreover have "fst (SharedFolderContentAssetID ''eve'' ''g-1'' ''n-3'' 5000 anna_shared) = Err ErrNotFound" by code_simp
  ultimately show ?thesis using shared_access_exact [of id anna_shared "''bob''" "''g-1''" "''n-3''" 5000 "''a-1''"] by auto
qed


end
