(* ===== verification/Content_Service.thy ===== *)
theory Content_Service
  imports Change_Feed Policy Purge_Worker
begin

text \<open>
  The reading and managing half of \<open>internal/assets/service.go\<close>: who may download which bytes, the
  content tickets with their tokens, and the checks that stand in front of the collection
  operations of the repository.  The repository is the store; a clock reading and the random bytes
  of a request are arguments.
\<close>

section \<open>Checks of the inputs\<close>

fun validSubjectType :: "subject_type \<Rightarrow> bool" where
  "validSubjectType (SubjectOther _) = False"
| "validSubjectType _ = True"

definition validMutationIdentity :: "string \<Rightarrow> string \<Rightarrow> bool" where
  "validMutationIdentity callerService idempotencyKey \<longleftrightarrow> callerService \<noteq> [] \<and> idempotencyKey \<noteq> []"

definition validCollectionSubject :: "collection_subject \<Rightarrow> bool" where
  "validCollectionSubject subject \<longleftrightarrow> cs_user subject \<noteq> []"

definition validManagedCollectionItemQuery :: "string \<Rightarrow> bool" where
  "validManagedCollectionItemQuery q \<longleftrightarrow> q = [] \<or> length q \<le> 255 \<and> utf8_ValidString q \<and> \<not> has_control q"

definition validReceiptValue :: "string \<Rightarrow> nat \<Rightarrow> bool" where
  "validReceiptValue v limit \<longleftrightarrow> TrimSpace v \<noteq> [] \<and> length v \<le> limit \<and> utf8_ValidString v \<and> \<not> has_control v"

text \<open>One value of \<open>normalizeCollectionItemIDs\<close>: a UUID loses its dashes, the rest is hexadecimal.\<close>

definition canonical_item_id :: "string \<Rightarrow> string option" where
  "canonical_item_id v = (let t = TrimSpace v in
     Option.bind
       (if length t = 36 then
          (if t ! 8 \<noteq> CHR ''-'' \<or> t ! 13 \<noteq> CHR ''-'' \<or> t ! 18 \<noteq> CHR ''-'' \<or> t ! 23 \<noteq> CHR ''-'' then None
           else Some (take 8 t @ take 4 (drop 9 t) @ take 4 (drop 14 t) @ take 4 (drop 19 t) @ drop 24 t))
        else Some t)
       (\<lambda>u. case hex_decode u of None \<Rightarrow> None
            | Some d \<Rightarrow> if length d \<noteq> 16 then None else Some (hex_encode d)))"

definition normalizeCollectionItemIDs :: "string list \<Rightarrow> string list option" where
  "normalizeCollectionItemIDs vs =
     (if length vs < 1 \<or> length vs > 100 then None
      else map_option (\<lambda>ds. sort (remdups ds)) (those (map canonical_item_id vs)))"

section \<open>Downloads\<close>

definition download_metadata :: "asset \<Rightarrow> string \<Rightarrow> public_metadata" where
  "download_metadata a cache = \<lparr>pm_size = a_size a, pm_mime = a_detected_mime a, pm_file_name = a_file_name a,
     pm_etag = a_etag a, pm_modified = a_updated a, pm_cache_control = cache, pm_object_key = a_object_key a\<rparr>"

definition PublicMetadata :: "store \<Rightarrow> string \<Rightarrow> string \<Rightarrow> time \<Rightarrow> public_metadata result" where
  "PublicMetadata st i variant now =
     (if variant \<notin> {[], ''small'', ''medium'', ''large''} then Err ErrNotFound
      else case GetAsset st i of
        Inl e \<Rightarrow> Err ErrNotFound
      | Inr a \<Rightarrow>
        (case PolicyFor (a_namespace a) of
           None \<Rightarrow> Err ErrNotFound
         | Some policy \<Rightarrow>
           if \<not> AllowsVisibility policy VisibilityPublic then Err ErrNotFound
           else if a_visibility a \<noteq> VisibilityPublic \<or> a_upload_status a \<noteq> UploadCompleted
                \<or> a_scan_status a \<noteq> ScanClean \<or> a_deleted a \<noteq> 0
                \<or> (a_processing_status a \<noteq> ProcessingReady \<and> a_processing_status a \<noteq> ProcessingNotRequired)
           then Err ErrNotFound
           else if \<not> HasActiveGrant st i SubjectPublic ''*'' PermissionRead now then Err ErrNotFound
           else if variant = [] then Ok (download_metadata a (np_cache_control policy))
           else (case GetDerivative st i variant of
                   Inl e \<Rightarrow> Err ErrNotFound
                 | Inr d \<Rightarrow> Ok \<lparr>pm_size = d_size d, pm_mime = d_mime d, pm_file_name = [], pm_etag = d_etag d,
                       pm_modified = d_created d, pm_cache_control = np_cache_control policy,
                       pm_object_key = d_object_key d\<rparr>)))"

definition AuthorizedMetadata ::
  "store \<Rightarrow> string \<Rightarrow> subject_type \<Rightarrow> string \<Rightarrow> time \<Rightarrow> public_metadata result" where
  "AuthorizedMetadata st i subject subjectID now =
     (if subject = SubjectPublic \<or> \<not> validSubjectType subject \<or> subjectID = [] then Err ErrInvalidInput
      else case GetAsset st i of
        Inl e \<Rightarrow> Err ErrNotFound
      | Inr a \<Rightarrow>
        if a_upload_status a \<noteq> UploadCompleted \<or> a_scan_status a \<noteq> ScanClean \<or> a_deleted a \<noteq> 0
           \<or> (a_processing_status a \<noteq> ProcessingReady \<and> a_processing_status a \<noteq> ProcessingNotRequired)
        then Err ErrNotFound
        else if \<not> HasActiveGrant st i subject subjectID PermissionRead now then Err ErrNotFound
        else Ok (download_metadata a no_store_cache))"

definition collectionContentMetadata :: "asset \<Rightarrow> string \<Rightarrow> public_metadata result" where
  "collectionContentMetadata a expectedETag =
     (if a_id a = [] \<or> a_etag a = [] \<or> a_etag a \<noteq> expectedETag \<or> a_upload_status a \<noteq> UploadCompleted
         \<or> a_scan_status a \<noteq> ScanClean \<or> a_deleted a \<noteq> 0
         \<or> (a_processing_status a \<noteq> ProcessingReady \<and> a_processing_status a \<noteq> ProcessingNotRequired)
      then Err ErrNotFound
      else Ok (download_metadata a no_store_cache))"

definition Service_GetAsset :: "store \<Rightarrow> string \<Rightarrow> asset result" where
  "Service_GetAsset st i = (case GetAsset st i of
     Inl e \<Rightarrow> Err ErrNotFound
   | Inr a \<Rightarrow> if a_deleted a \<noteq> 0 then Err ErrNotFound else Ok a)"

definition Service_GetAuthorizedCollectionItem ::
  "store \<Rightarrow> string \<Rightarrow> string \<Rightarrow> collection_subject \<Rightarrow> collection_item result" where
  "Service_GetAuthorizedCollectionItem st c i subject =
     (if c = [] \<or> i = [] \<or> \<not> validCollectionSubject subject then Err ErrForbidden
      else GetAuthorizedCollectionItem st c i subject)"

definition AuthorizedCollectionContentMetadata ::
  "store \<Rightarrow> string \<Rightarrow> string \<Rightarrow> collection_subject \<Rightarrow> public_metadata result" where
  "AuthorizedCollectionContentMetadata st c i subject =
     bindR (Service_GetAuthorizedCollectionItem st c i subject) (\<lambda>item.
       case GetAsset st (ci_asset item) of
         Inl e \<Rightarrow> Err ErrNotFound
       | Inr a \<Rightarrow> bindR (collectionContentMetadata a (ci_etag item)) (\<lambda>m. Ok (m\<lparr>pm_file_name := ci_name item\<rparr>)))"

section \<open>Tickets\<close>

record ticket_response =
  tr_url :: string
  tr_expires :: time
  tr_etag :: string

record managed_ticket =
  mt_item :: string
  mt_url :: string
  mt_expires :: time
  mt_etag :: string

record ticket_batch =
  tb_tickets :: "managed_ticket list"
  tb_unavailable :: "string list"

definition contentTicketTTL :: int where "contentTicketTTL = 5 * minute"

definition ticket_url :: "string \<Rightarrow> string" where
  "ticket_url token = ''/api/assets/content?ticket='' @ token"

definition ticket_expiry :: "time \<Rightarrow> time \<Rightarrow> time" where
  "ticket_expiry now expires = (if expires > now + contentTicketTTL then now + contentTicketTTL else expires)"

definition IssueCollectionContentTicket ::
  "env \<Rightarrow> string \<Rightarrow> string \<Rightarrow> string \<Rightarrow> collection_subject \<Rightarrow> time \<Rightarrow> time \<Rightarrow> store \<Rightarrow> ticket_response result \<times> store" where
  "IssueCollectionContentTicket env raw c i subject tokenExpiresAt now st =
     (if \<not> now < tokenExpiresAt then (Err ErrUnauthorized, st)
      else case Service_GetAuthorizedCollectionItem st c i subject of
        Inl e \<Rightarrow> (Err e, st)
      | Inr item \<Rightarrow>
        let expiresAt = ticket_expiry now tokenExpiresAt;
            ticket = \<lparr>ct_hash = env_sha256 env raw, ct_collection = c, ct_item = i, ct_etag = ci_etag item,
               ct_user = cs_user subject, ct_roles = cs_roles subject, ct_access_mode = [],
               ct_expires = expiresAt, ct_created = now\<rparr>
        in case CreateContentTicket ticket now st of
             (Inl e, st') \<Rightarrow> (Err e, st')
           | (Inr u, st') \<Rightarrow> (Ok \<lparr>tr_url = ticket_url (RawURLEncode raw), tr_expires = expiresAt, tr_etag = ci_etag item\<rparr>, st'))"

text \<open>The loop over the items of \<open>IssueManagedContentTickets\<close>, each with its own random bytes.\<close>

fun issue_tickets ::
  "env \<Rightarrow> (string \<Rightarrow> string) \<Rightarrow> string \<Rightarrow> string \<Rightarrow> time \<Rightarrow> time \<Rightarrow> string list \<Rightarrow> ticket_batch \<Rightarrow> store
     \<Rightarrow> ticket_batch result \<times> store" where
  "issue_tickets env raw c caller expiresAt now [] batch st = (Ok batch, st)"
| "issue_tickets env raw c caller expiresAt now (i # is) batch st =
     (case GetManagedCollectionItem st c i caller of
        Inl e \<Rightarrow> if e = ErrNotFound
          then issue_tickets env raw c caller expiresAt now is (batch\<lparr>tb_unavailable := tb_unavailable batch @ [i]\<rparr>) st
          else (Err e, st)
      | Inr item \<Rightarrow>
          (case CreateContentTicket \<lparr>ct_hash = env_sha256 env (raw i), ct_collection = c, ct_item = i,
                  ct_etag = ci_etag item, ct_user = ''manager'', ct_roles = [], ct_access_mode = ''manager'',
                  ct_expires = expiresAt, ct_created = now\<rparr> now st of
             (Inl e, st') \<Rightarrow> if e = ErrNotFound
               then issue_tickets env raw c caller expiresAt now is
                      (batch\<lparr>tb_unavailable := tb_unavailable batch @ [i]\<rparr>) st'
               else (Err e, st')
           | (Inr u, st') \<Rightarrow> issue_tickets env raw c caller expiresAt now is
               (batch\<lparr>tb_tickets := tb_tickets batch @ [\<lparr>mt_item = i, mt_url = ticket_url (RawURLEncode (raw i)),
                  mt_expires = expiresAt, mt_etag = ci_etag item\<rparr>]\<rparr>) st'))"

definition IssueManagedContentTickets ::
  "env \<Rightarrow> (string \<Rightarrow> string) \<Rightarrow> string \<Rightarrow> string \<Rightarrow> string list \<Rightarrow> int \<Rightarrow> time \<Rightarrow> store \<Rightarrow> ticket_batch result \<times> store" where
  "IssueManagedContentTickets env raw c caller itemIDs ttl now st =
     (case normalizeCollectionItemIDs itemIDs of
        None \<Rightarrow> (Err ErrInvalidInput, st)
      | Some ids \<Rightarrow>
        if c = [] \<or> caller = [] \<or> ttl \<le> 0 then (Err ErrInvalidInput, st)
        else case GetManagedCollection st c caller of
          Inl e \<Rightarrow> (Err (if e = ErrForbidden \<or> e = ErrNotFound then ErrNotFound else e), st)
        | Inr m \<Rightarrow>
          if c_namespace (mg_collection m) \<noteq> ''line.group.media-sync'' then (Err ErrNotFound, st)
          else issue_tickets env raw c caller (ticket_expiry now (now + ttl)) now ids
                 \<lparr>tb_tickets = [], tb_unavailable = []\<rparr> st)"

definition ContentTicketMetadata :: "env \<Rightarrow> string \<Rightarrow> time \<Rightarrow> store \<Rightarrow> public_metadata result \<times> store" where
  "ContentTicketMetadata env token now st =
     (case RawURLDecode token of
        None \<Rightarrow> (Err ErrUnauthorized, st)
      | Some raw \<Rightarrow>
        if length raw \<noteq> 32 \<or> RawURLEncode raw \<noteq> token then (Err ErrUnauthorized, st)
        else case RedeemContentTicket (env_sha256 env raw) now st of
          (Inl e, st') \<Rightarrow> (Err e, st')
        | (Inr a, st') \<Rightarrow> (collectionContentMetadata a (a_etag a), st'))"

section \<open>The collection operations\<close>

text \<open>A request that fails its check is refused before the repository is called.\<close>

definition checked :: "bool \<Rightarrow> (store \<Rightarrow> 'a result \<times> store) \<Rightarrow> store \<Rightarrow> 'a result \<times> store" where
  "checked ok f st = (if ok then f st else (Err ErrInvalidInput, st))"

definition Service_CreateCollection where
  "Service_CreateCollection env newID x now =
     checked (cc_namespace x \<noteq> [] \<and> cc_name x \<noteq> [] \<and> validMutationIdentity (cc_caller x) (cc_key x))
       (CreateCollection env newID x now)"

definition Service_RenameCollection where
  "Service_RenameCollection env x now =
     checked (rc_collection x \<noteq> [] \<and> rc_name x \<noteq> [] \<and> validMutationIdentity (rc_caller x) (rc_key x))
       (RenameCollection env x now)"

definition Service_DeleteCollection where
  "Service_DeleteCollection env x now =
     checked (dc_collection x \<noteq> [] \<and> validMutationIdentity (dc_caller x) (dc_key x)) (DeleteCollection env x now)"

definition Service_AddCollectionACL where
  "Service_AddCollectionACL env newID auditID x now =
     checked (aci_collection x \<noteq> [] \<and> (aci_subject_type x = SubjectUser \<or> aci_subject_type x = SubjectRole)
         \<and> aci_subject_id x \<noteq> [] \<and> aci_permission x = PermissionRead \<and> aci_actor x \<noteq> [] \<and> aci_request x \<noteq> []
         \<and> validMutationIdentity (aci_caller x) (aci_key x))
       (AddCollectionACL env newID auditID x now)"

definition Service_RevokeCollectionACL where
  "Service_RevokeCollectionACL env auditID x now =
     checked (rai_collection x \<noteq> [] \<and> rai_acl x \<noteq> [] \<and> rai_actor x \<noteq> [] \<and> rai_request x \<noteq> []
         \<and> validMutationIdentity (rai_caller x) (rai_key x))
       (RevokeCollectionACL env auditID x now)"

definition Service_AddCollectionItem where
  "Service_AddCollectionItem env newID x now =
     checked (ai_collection x \<noteq> [] \<and> ai_asset x \<noteq> [] \<and> ai_remote x \<noteq> [] \<and> ai_name x \<noteq> [] \<and> ai_source_revision x \<noteq> []
         \<and> validMutationIdentity (ai_caller x) (ai_key x))
       (AddCollectionItem env newID x now)"

definition Service_DeleteCollectionItem where
  "Service_DeleteCollectionItem env x now =
     checked (dii_collection x \<noteq> [] \<and> dii_item x \<noteq> [] \<and> validMutationIdentity (dii_caller x) (dii_key x))
       (DeleteCollectionItem env x now)"

definition Service_SetCollectionItemsRetention where
  "Service_SetCollectionItemsRetention env x now st = (case normalizeCollectionItemIDs (sri_items x) of
     None \<Rightarrow> (Err ErrInvalidInput, st)
   | Some ids \<Rightarrow> checked (sri_collection x \<noteq> [] \<and> validMutationIdentity (sri_caller x) (sri_key x))
       (SetCollectionItemsRetention env (x\<lparr>sri_items := ids\<rparr>) now) st)"

definition Service_DeleteCollectionItems where
  "Service_DeleteCollectionItems env x now st = (case normalizeCollectionItemIDs (dis_items x) of
     None \<Rightarrow> (Err ErrInvalidInput, st)
   | Some ids \<Rightarrow> checked (dis_collection x \<noteq> [] \<and> validMutationIdentity (dis_caller x) (dis_key x))
       (DeleteCollectionItems env (x\<lparr>dis_items := ids\<rparr>) now) st)"

definition Service_RenameCollectionItem where
  "Service_RenameCollectionItem env x now = (let y = x\<lparr>rii_name := TrimSpace (rii_name x)\<rparr> in
     checked (rii_collection y \<noteq> [] \<and> rii_item y \<noteq> [] \<and> validCollectionItemDisplayName (rii_name y)
         \<and> validMutationIdentity (rii_caller y) (rii_key y))
       (RenameCollectionItem env y now))"

definition Service_UpdateCollectionRetention where
  "Service_UpdateCollectionRetention env x now =
     checked (uri_collection x \<noteq> [] \<and> 1 \<le> uri_days x \<and> uri_days x \<le> 365 \<and> validMutationIdentity (uri_caller x) (uri_key x))
       (UpdateCollectionRetention env x now)"

definition Service_ListAuthorizedCollections where
  "Service_ListAuthorizedCollections st subject cursor limit =
     (if \<not> validCollectionSubject subject then Err ErrForbidden
      else ListAuthorizedCollections st subject cursor limit)"

definition Service_GetAuthorizedCollection where
  "Service_GetAuthorizedCollection st i subject =
     (if i = [] \<or> \<not> validCollectionSubject subject then Err ErrForbidden else GetAuthorizedCollection st i subject)"

definition Service_CollectionChanges where
  "Service_CollectionChanges i cursor subject st1 st2 st3 =
     (if i = [] \<or> \<not> validCollectionSubject subject then Err ErrForbidden
      else CollectionChanges i cursor subject st1 st2 st3)"

definition Service_ListManagedCollections ::
  "store \<Rightarrow> string \<Rightarrow> list_cursor token \<Rightarrow> int \<Rightarrow> (managed_collection, list_cursor) page result" where
  "Service_ListManagedCollections st caller cursor limit =
     (if caller = [] then Err ErrInvalidInput else Ok (ListManagedCollections st caller cursor limit))"

definition Service_GetManagedCollection where
  "Service_GetManagedCollection st i caller =
     (if i = [] \<or> caller = [] then Err ErrInvalidInput else GetManagedCollection st i caller)"

definition Service_ListManagedCollectionItems where
  "Service_ListManagedCollectionItems tc st c caller q cursor limit srt direction =
     (let s = (if srt = [] then ''created'' else srt); d = (if direction = [] then ''desc'' else direction)
      in if c = [] \<or> caller = [] \<or> \<not> validManagedCollectionItemQuery q
            \<or> s \<notin> {''name'', ''type'', ''size'', ''created'', ''retention''} \<or> d \<notin> {''asc'', ''desc''}
         then Err ErrInvalidInput
         else ListManagedCollectionItems tc st c caller q cursor limit s d)"

record sync_receipt =
  sy_item :: string
  sy_version :: string
  sy_state :: string
  sy_app :: string

definition RecordSyncReceipt :: "store \<Rightarrow> sync_receipt \<Rightarrow> collection_subject \<Rightarrow> unit result" where
  "RecordSyncReceipt st x subject =
     (if sy_state x \<noteq> ''available-offline'' \<or> \<not> validReceiptValue (sy_item x) 255 \<or> \<not> validReceiptValue (sy_version x) 255
         \<or> \<not> validReceiptValue (sy_app x) 64 \<or> \<not> validCollectionSubject subject
      then Err ErrInvalidInput
      else bindR (GetAuthorizedCollectionItemByID st (sy_item x) subject) (\<lambda>_. Ok ()))"

section \<open>Scans and accounts\<close>

definition Service_ApplyScanResult :: "scan_result \<Rightarrow> time \<Rightarrow> store \<Rightarrow> unit result \<times> store" where
  "Service_ApplyScanResult res now st =
     (if res_event res = [] \<or> res_asset res = [] \<or> res_status res \<notin> {ScanClean, ScanInfected, ScanFailed}
      then (Err ErrInvalidInput, st)
      else case (if res_etag res = [] then bindR (GetAsset st (res_asset res)) (\<lambda>a. Ok (res\<lparr>res_etag := a_etag a\<rparr>))
                 else Ok res) of
        Inl e \<Rightarrow> (Err e, st)
      | Inr res' \<Rightarrow> (case ApplyScanResult res' now st of (r, st') \<Rightarrow> (bindR r (\<lambda>_. Ok ()), st')))"

definition RequeueScan :: "env \<Rightarrow> string \<Rightarrow> string \<Rightarrow> string \<Rightarrow> time \<Rightarrow> store \<Rightarrow> unit result \<times> store" where
  "RequeueScan env newID i owner now st =
     (case GetAsset st i of
        Inl e \<Rightarrow> (Err e, st)
      | Inr a \<Rightarrow>
        if a_owner_service a \<noteq> owner then (Err ErrForbidden, st)
        else if a_scan_status a \<noteq> ScanFailed then (Err ErrInvalidInput, st)
        else RequeueFailedScan env i owner
               \<lparr>sr_event = newID, sr_asset = a_id a, sr_etag = a_etag a, sr_attempts = 0, sr_created = now\<rparr> now st)"

definition CleanupAccount :: "env \<Rightarrow> string \<Rightarrow> string \<Rightarrow> time \<Rightarrow> store \<Rightarrow> cleanup_result result \<times> store" where
  "CleanupAccount env user key now st =
     (if TrimSpace user = [] \<or> TrimSpace key = [] \<or> length key > 200 then (Err ErrInvalidInput, st)
      else CleanupAccountAssets env user key now st)"

section \<open>Grants\<close>

text \<open>The fingerprint of an input is the digest of its JSON, an argument here.\<close>

definition Service_CreateGrant ::
  "(create_grant_input \<Rightarrow> string) \<Rightarrow> string \<Rightarrow> string \<Rightarrow> create_grant_input \<Rightarrow> time \<Rightarrow> store \<Rightarrow> grant result \<times> store" where
  "Service_CreateGrant fingerprint newID i x now st =
     (if \<not> validSubjectType (cg_subject_type x) \<or> cg_subject_id x = []
         \<or> (cg_permission x \<noteq> PermissionRead \<and> cg_permission x \<noteq> PermissionDelete) \<or> cg_key x = []
      then (Err ErrInvalidInput, st)
      else case GetAsset st i of
        Inl e \<Rightarrow> (Err e, st)
      | Inr a \<Rightarrow>
        if a_deleted a \<noteq> 0 then (Err ErrNotFound, st)
        else if cg_subject_type x = SubjectPublic
                \<and> (case PolicyFor (a_namespace a) of None \<Rightarrow> True | Some p \<Rightarrow> \<not> AllowsVisibility p VisibilityPublic)
        then (Err ErrInvalidInput, st)
        else if cg_subject_type x = SubjectPublic \<and> cg_permission x = PermissionRead
                \<and> (a_upload_status a \<noteq> UploadCompleted \<or> a_scan_status a \<noteq> ScanClean
                   \<or> (a_processing_status a \<noteq> ProcessingReady \<and> a_processing_status a \<noteq> ProcessingNotRequired))
        then (Err ErrInvalidUpload, st)
        else
          let g = \<lparr>g_id = newID, g_asset = i, g_subject_type = cg_subject_type x, g_subject_id = cg_subject_id x,
                   g_permission = cg_permission x, g_key = cg_key x, g_caller = a_owner_service a,
                   g_operation = ''create_grant'', g_fingerprint = fingerprint x, g_expires = cg_expires x,
                   g_created = now, g_revoked = 0\<rparr>
          in case CreateGrant g st of
               (Inl e, st') \<Rightarrow> (Err e, st')
             | (Inr v, st') \<Rightarrow> if g_fingerprint v \<noteq> [] \<and> g_fingerprint v \<noteq> g_fingerprint g
                 then (Err ErrConflict, st') else (Ok v, st'))"

section \<open>Who may download what\<close>

lemma GetAsset_Ok:
  assumes "GetAsset st i = Ok a"
  obtains r where "r \<in> set (st_assets st)" "a_id r = i" "a_purged r = 0" "a = asset.truncate r"
  using assms by (auto simp: GetAsset_def getAsset_def split: option.splits dest!: sel1_Some)

lemma truncate_same [simp]:
  "a_id (asset.truncate r) = a_id r" "a_namespace (asset.truncate r) = a_namespace r"
  "a_upload_status (asset.truncate r) = a_upload_status r" "a_scan_status (asset.truncate r) = a_scan_status r"
  "a_processing_status (asset.truncate r) = a_processing_status r" "a_deleted (asset.truncate r) = a_deleted r"
  "a_visibility (asset.truncate r) = a_visibility r" "a_object_key (asset.truncate r) = a_object_key r"
  "a_etag (asset.truncate r) = a_etag r" "a_size (asset.truncate r) = a_size r"
  "a_detected_mime (asset.truncate r) = a_detected_mime r" "a_updated (asset.truncate r) = a_updated r"
  "a_file_name (asset.truncate r) = a_file_name r" "a_owner_service (asset.truncate r) = a_owner_service r"
  by (simp_all add: asset.defs)

lemma not_servable:
  "(a_upload_status a \<noteq> UploadCompleted \<or> a_scan_status a \<noteq> ScanClean \<or> a_deleted a \<noteq> 0
     \<or> (a_processing_status a \<noteq> ProcessingReady \<and> a_processing_status a \<noteq> ProcessingNotRequired))
   \<longleftrightarrow> \<not> (servable a \<and> a_deleted a = 0)"
  by (auto simp: servable_def)

definition serves :: "store \<Rightarrow> public_metadata \<Rightarrow> asset_row \<Rightarrow> bool" where
  "serves st m r \<longleftrightarrow> r \<in> set (st_assets st) \<and> live r \<and> servable r
     \<and> (pm_object_key m = a_object_key r \<and> pm_etag m = a_etag r
        \<or> (\<exists>d\<in>set (st_derivatives st). d_asset d = a_id r \<and> pm_object_key m = d_object_key d \<and> pm_etag m = d_etag d))"

lemma PublicMetadata_serves:
  assumes "PublicMetadata st i v now = Ok m"
  shows "\<exists>r p. serves st m r \<and> a_id r = i \<and> a_visibility r = VisibilityPublic
     \<and> PolicyFor (a_namespace r) = Some p \<and> AllowsVisibility p VisibilityPublic
     \<and> HasActiveGrant st i SubjectPublic ''*'' PermissionRead now"
proof -
  obtain a where a: "GetAsset st i = Ok a"
    using assms by (auto simp: PublicMetadata_def split: if_splits sum.splits)
  then obtain r where r: "r \<in> set (st_assets st)" "a_id r = i" "a_purged r = 0" "a = asset.truncate r"
    by (rule GetAsset_Ok)
  obtain p where p: "PolicyFor (a_namespace r) = Some p"
    using assms a r by (auto simp: PublicMetadata_def split: if_splits option.splits)
  have ok: "AllowsVisibility p VisibilityPublic" "a_visibility r = VisibilityPublic" "servable r \<and> a_deleted r = 0"
      "HasActiveGrant st i SubjectPublic ''*'' PermissionRead now"
    using assms a r p by (auto simp: PublicMetadata_def servable_def split: if_splits)
  show ?thesis
  proof (cases "v = []")
    case True
    then have "m = download_metadata a (np_cache_control p)"
      using assms a r p by (auto simp: PublicMetadata_def split: if_splits)
    then have "serves st m r" using r ok by (simp add: serves_def download_metadata_def live_def)
    then show ?thesis using r p ok by blast
  next
    case False
    then obtain d where d: "GetDerivative st i v = Ok d" "pm_object_key m = d_object_key d" "pm_etag m = d_etag d"
      using assms a r p by (auto simp: PublicMetadata_def split: if_splits sum.splits)
    then have "d \<in> set (st_derivatives st)" "d_asset d = i"
      by (auto simp: GetDerivative_def split: option.splits dest!: sel1_Some)
    then have "serves st m r" using r ok d by (auto simp: serves_def live_def)
    then show ?thesis using r p ok by blast
  qed
qed

lemma AuthorizedMetadata_serves:
  assumes "AuthorizedMetadata st i subject sid now = Ok m"
  shows "\<exists>r. serves st m r \<and> a_id r = i \<and> subject \<noteq> SubjectPublic \<and> HasActiveGrant st i subject sid PermissionRead now"
proof -
  obtain a where a: "GetAsset st i = Ok a"
    using assms by (auto simp: AuthorizedMetadata_def split: if_splits sum.splits)
  then obtain r where r: "r \<in> set (st_assets st)" "a_id r = i" "a_purged r = 0" "a = asset.truncate r"
    by (rule GetAsset_Ok)
  have "servable r \<and> a_deleted r = 0" "m = download_metadata a no_store_cache" "subject \<noteq> SubjectPublic"
      "HasActiveGrant st i subject sid PermissionRead now"
    using assms a r by (auto simp: AuthorizedMetadata_def servable_def split: if_splits)
  then show ?thesis using r by (intro exI [of _ r]) (simp add: serves_def download_metadata_def live_def)
qed

lemma collectionContentMetadata_Ok:
  "collectionContentMetadata a etag = Ok m \<longleftrightarrow> a_id a \<noteq> [] \<and> a_etag a \<noteq> [] \<and> a_etag a = etag \<and> servable a \<and> a_deleted a = 0
     \<and> m = download_metadata a no_store_cache"
  by (auto simp: collectionContentMetadata_def servable_def)

lemma servable_asset_Some:
  assumes "servable_asset st i = Some r"
  shows "r \<in> set (st_assets st)" "a_id r = i" "live r" "servable r"
  using sel1_Some [OF assms [unfolded servable_asset_def]] by simp_all

lemma CollectionContent_serves:
  assumes "AuthorizedCollectionContentMetadata st c i subject = Ok m"
  shows "\<exists>r item. serves st m r \<and> GetAuthorizedCollectionItem st c i subject = Ok item \<and> ci_asset item = a_id r"
proof -
  obtain item where item: "GetAuthorizedCollectionItem st c i subject = Ok item"
    and m: "(case GetAsset st (ci_asset item) of Inl e \<Rightarrow> Err ErrNotFound
       | Inr a \<Rightarrow> bindR (collectionContentMetadata a (ci_etag item)) (\<lambda>m. Ok (m\<lparr>pm_file_name := ci_name item\<rparr>))) = Ok m"
    using assms by (auto simp: AuthorizedCollectionContentMetadata_def Service_GetAuthorizedCollectionItem_def split: if_splits)
  obtain a where a: "GetAsset st (ci_asset item) = Ok a" using m by (auto split: sum.splits)
  then obtain r where r: "r \<in> set (st_assets st)" "a_id r = ci_asset item" "a_purged r = 0" "a = asset.truncate r"
    by (rule GetAsset_Ok)
  have "m = (download_metadata a no_store_cache)\<lparr>pm_file_name := ci_name item\<rparr>" "servable r" "a_deleted r = 0"
    using m a r by (auto simp: collectionContentMetadata_Ok servable_def)
  then have "serves st m r" using r by (simp add: serves_def download_metadata_def live_def)
  then show ?thesis using item r(2) by metis
qed

lemma RedeemContentTicket_Ok:
  assumes "RedeemContentTicket h now st = (Ok a, st')"
  obtains t c i r where "t \<in> set (st_tickets st)" "ct_hash t = h" "now < ct_expires t" "ticket_target st t = Some (c, i, r)"
    "a = ticket_asset i r"
proof -
  obtain t c i r where t: "sel1 (\<lambda>t. ct_hash t = h \<and> now < ct_expires t) (st_tickets (expire_tickets now st)) = Some t"
      "ticket_target st t = Some (c, i, r)" "a = ticket_asset i r"
    using assms by (auto simp: RedeemContentTicket_def Let_def ticket_asset_def bind_eq_Some_conv split: option.splits)
  then show thesis using that by (auto simp: expire_tickets_def dest!: sel1_Some)
qed

lemma ticket_target_Some:
  assumes "ticket_target st t = Some (c, i, r)"
  shows "c \<in> set (st_collections st)" "c_id c = ct_collection t" "c_deleted c = 0"
    "active_item st (c_id c) (ct_item t) = Some i" "servable_asset st (ci_asset i) = Some r" "a_etag r = ct_etag t"
  using assms by (auto simp: ticket_target_def bind_eq_Some_conv split: if_splits dest!: sel1_Some)

lemma ticket_asset_same [simp]:
  "a_id (ticket_asset i r) = a_id r" "a_etag (ticket_asset i r) = a_etag r" "a_object_key (ticket_asset i r) = a_object_key r"
  "servable (ticket_asset i r) = servable r" "a_deleted (ticket_asset i r) = 0" "a_size (ticket_asset i r) = a_size r"
  "a_detected_mime (ticket_asset i r) = a_detected_mime r" "a_file_name (ticket_asset i r) = ci_name i"
  "a_updated (ticket_asset i r) = a_updated r"
  by (simp_all add: ticket_asset_def zero_asset_def servable_def)

lemma ContentTicketMetadata_serves:
  assumes "fst (ContentTicketMetadata env token now st) = Ok m"
  shows "\<exists>r t. serves st m r \<and> t \<in> set (st_tickets st) \<and> now < ct_expires t \<and> ct_etag t = a_etag r"
proof -
  obtain raw where "RawURLDecode token = Some raw" using assms by (auto simp: ContentTicketMetadata_def split: option.splits)
  then obtain a st' where "RedeemContentTicket (env_sha256 env raw) now st = (Ok a, st')"
      and m: "collectionContentMetadata a (a_etag a) = Ok m"
    using assms by (auto simp: ContentTicketMetadata_def split: if_splits prod.splits sum.splits)
  then obtain t c i r where t: "t \<in> set (st_tickets st)" "now < ct_expires t" "ticket_target st t = Some (c, i, r)"
      "a = ticket_asset i r" using RedeemContentTicket_Ok by metis
  note parts = ticket_target_Some [OF t(3)]
  have "serves st m r"
    using m t(4) servable_asset_Some [OF parts(5)]
    by (auto simp: collectionContentMetadata_Ok serves_def download_metadata_def)
  then show ?thesis using t(1,2) parts(6) by metis
qed


definition demo_cover :: asset_row where
  "demo_cover = (new_asset_row (demo_upload\<lparr>a_id := ''a2'', a_namespace := ''cms.news.cover'', a_object_key := ''k2''\<rparr>))
     \<lparr>a_upload_status := UploadCompleted, a_scan_status := ScanClean, a_processing_status := ProcessingReady,
      a_visibility := VisibilityPublic, a_etag := ''e2'', a_size := 9\<rparr>"

definition demo_grant_to :: "string \<Rightarrow> subject_type \<Rightarrow> string \<Rightarrow> grant" where
  "demo_grant_to g s i = \<lparr>g_id = g, g_asset = ''a2'', g_subject_type = s, g_subject_id = i, g_permission = PermissionRead,
     g_key = g, g_caller = ''hhc-web-api'', g_operation = ''create_grant'', g_fingerprint = [], g_expires = 0,
     g_created = 0, g_revoked = 0\<rparr>"

definition demo_public :: store where
  "demo_public = empty_store\<lparr>st_assets := [demo_cover],
     st_grants := [demo_grant_to ''g1'' SubjectPublic ''*'', demo_grant_to ''g2'' SubjectUser ''u1'']\<rparr>"

lemma demo_cover_cell: "GetAsset demo_public ''a2'' = Ok (asset.truncate demo_cover)"
  "a_namespace demo_cover = ''cms.news.cover''" "servable demo_cover" "a_deleted demo_cover = 0"
  "a_visibility demo_cover = VisibilityPublic"
  by (simp_all add: demo_public_def demo_cover_def GetAsset_def getAsset_def servable_def new_asset_row_def demo_defs)

lemma demo_cover_policy: "\<exists>p. PolicyFor ''cms.news.cover'' = Some p \<and> AllowsVisibility p VisibilityPublic"
  by (simp add: PolicyFor_def namespacePolicies_def AllowsVisibility_def)

lemma demo_public_downloads:
  "\<exists>m. PublicMetadata demo_public ''a2'' [] 10 = Ok m" "\<exists>m. AuthorizedMetadata demo_public ''a2'' SubjectUser ''u1'' 10 = Ok m"
proof -
  have g: "HasActiveGrant demo_public ''a2'' SubjectPublic ''*'' PermissionRead 10"
    "HasActiveGrant demo_public ''a2'' SubjectUser ''u1'' PermissionRead 10"
    by (simp_all add: demo_public_def HasActiveGrant_def demo_grant_to_def)
  obtain p where p: "PolicyFor ''cms.news.cover'' = Some p" "AllowsVisibility p VisibilityPublic"
    using demo_cover_policy by blast
  show "\<exists>m. PublicMetadata demo_public ''a2'' [] 10 = Ok m"
    using g(1) demo_cover_cell p by (auto simp: PublicMetadata_def servable_def)
  show "\<exists>m. AuthorizedMetadata demo_public ''a2'' SubjectUser ''u1'' 10 = Ok m"
    using g(2) demo_cover_cell by (auto simp: AuthorizedMetadata_def servable_def)
qed


section \<open>Tokens\<close>

lemma Issue_Ok:
  assumes "IssueCollectionContentTicket env raw c i subject texp now st = (Ok resp, st')"
  obtains item where "Service_GetAuthorizedCollectionItem st c i subject = Ok item" "now < texp"
    "CreateContentTicket \<lparr>ct_hash = env_sha256 env raw, ct_collection = c, ct_item = i, ct_etag = ci_etag item,
       ct_user = cs_user subject, ct_roles = cs_roles subject, ct_access_mode = [],
       ct_expires = ticket_expiry now texp, ct_created = now\<rparr> now st = (Ok (), st')"
    "resp = \<lparr>tr_url = ticket_url (RawURLEncode raw), tr_expires = ticket_expiry now texp, tr_etag = ci_etag item\<rparr>"
  using assms
  by (auto simp: IssueCollectionContentTicket_def Let_def split: if_splits sum.splits prod.splits)

text \<open>The collection route serves the asset of the item under the name of the item.\<close>

lemma collection_route:
  assumes "Service_GetAuthorizedCollectionItem st c i subject = Ok item" "wf_assets st"
  obtains r a where "active_item st c i = Some r" "servable_asset st (ci_asset r) = Some a" "ci_etag item = a_etag a"
    "AuthorizedCollectionContentMetadata st c i subject
       = collectionContentMetadata (ticket_asset r a) (a_etag a)"
proof -
  obtain r where r: "active_item st c i = Some r" "item_media st r = Some item"
    using assms(1)
    by (auto simp: Service_GetAuthorizedCollectionItem_def GetAuthorizedCollectionItem_def getAuthorizedCollectionItem_def
          bind_eq_Some_conv split: if_splits option.splits dest!: sel1_Some)
  then obtain a where a: "servable_asset st (ci_asset r) = Some a"
    and item: "item = r\<lparr>ci_mime := a_detected_mime a, ci_size := a_size a, ci_etag := a_etag a, ci_deleted_rev := 0, ci_deleted := 0\<rparr>"
    by (auto simp: item_media_def)
  note s = servable_asset_Some [OF a]
  have "asset_of st (ci_asset r) = Some a" using asset_of_mem [OF assms(2) s(1)] s(2) by simp
  then have "GetAsset st (ci_asset item) = Ok (asset.truncate a)"
    using GetAsset_of [OF _ _ assms(2)] s(3) item by (simp add: live_def)
  then have "AuthorizedCollectionContentMetadata st c i subject
       = bindR (collectionContentMetadata (asset.truncate a) (a_etag a)) (\<lambda>m. Ok (m\<lparr>pm_file_name := ci_name r\<rparr>))"
    using assms(1) item by (simp add: AuthorizedCollectionContentMetadata_def)
  also have "\<dots> = collectionContentMetadata (ticket_asset r a) (a_etag a)"
  proof -
    have "servable (asset.truncate a) = servable a" by (simp add: servable_def)
    then have "collectionContentMetadata (asset.truncate a) (a_etag a) = (if a_id a = [] \<or> a_etag a = [] then Err ErrNotFound
        else Ok (download_metadata (asset.truncate a) no_store_cache))"
      using s(3,4) by (auto simp: collectionContentMetadata_def live_def servable_def)
    moreover have "collectionContentMetadata (ticket_asset r a) (a_etag a) = (if a_id a = [] \<or> a_etag a = [] then Err ErrNotFound
        else Ok (download_metadata (ticket_asset r a) no_store_cache))"
      using s(4) by (auto simp: collectionContentMetadata_def ticket_asset_def zero_asset_def servable_def)
    moreover have "(download_metadata (asset.truncate a) no_store_cache)\<lparr>pm_file_name := ci_name r\<rparr>
        = download_metadata (ticket_asset r a) no_store_cache"
      by (simp add: download_metadata_def)
    ultimately show ?thesis by simp
  qed
  finally show thesis using that r(1) a item by simp
qed

text \<open>
  C17.  A content ticket is a bearer token that round-trips: the URL it is issued with carries the
  one text that redeems it; until its expiry, which is at most five minutes away and not after
  the caller's own token, that text returns exactly what the collection route would have returned
  to the user at the issue, and afterwards nothing; any other text of the same random bytes is
  refused as unauthorized.
\<close>

theorem ticket_token_roundtrip:
  assumes "IssueCollectionContentTicket env raw c i subject texp now st = (Ok resp, st')"
    and "length raw = 32" "keyed ct_hash (st_tickets st)" "wf_assets st"
  shows "\<exists>token. tr_url resp = ticket_url token \<and> tr_expires resp \<le> texp \<and> tr_expires resp \<le> now + 5 * minute
     \<and> (\<forall>t. fst (ContentTicketMetadata env token t st')
           = (if t < tr_expires resp then AuthorizedCollectionContentMetadata st c i subject else Err ErrNotFound))
     \<and> (\<forall>other t. RawURLDecode other = Some raw \<and> other \<noteq> token \<longrightarrow>
           ContentTicketMetadata env other t st' = (Err ErrUnauthorized, st'))"
proof -
  obtain item where item: "Service_GetAuthorizedCollectionItem st c i subject = Ok item"
    and create: "CreateContentTicket \<lparr>ct_hash = env_sha256 env raw, ct_collection = c, ct_item = i, ct_etag = ci_etag item,
       ct_user = cs_user subject, ct_roles = cs_roles subject, ct_access_mode = [],
       ct_expires = ticket_expiry now texp, ct_created = now\<rparr> now st = (Ok (), st')"
    and resp: "resp = \<lparr>tr_url = ticket_url (RawURLEncode raw), tr_expires = ticket_expiry now texp, tr_etag = ci_etag item\<rparr>"
    by (rule Issue_Ok [OF assms(1)])
  obtain r a where ra: "active_item st c i = Some r" "servable_asset st (ci_asset r) = Some a" "ci_etag item = a_etag a"
    and route: "AuthorizedCollectionContentMetadata st c i subject = collectionContentMetadata (ticket_asset r a) (a_etag a)"
    by (rule collection_route [OF item assms(4)])
  have redeem: "fst (RedeemContentTicket (env_sha256 env raw) t st')
      = (if t < ticket_expiry now texp then Ok (ticket_asset r a) else Err ErrNotFound)" for t
    using created_ticket [OF create assms(3)] ra(1,2) by simp
  have "fst (ContentTicketMetadata env (RawURLEncode raw) t st')
      = (if t < ticket_expiry now texp then AuthorizedCollectionContentMetadata st c i subject else Err ErrNotFound)" for t
    using assms(2) route redeem [of t]
    by (cases "RedeemContentTicket (env_sha256 env raw) t st'") (auto simp: ContentTicketMetadata_def split: if_splits)
  moreover have "ContentTicketMetadata env other t st' = (Err ErrUnauthorized, st')"
    if "RawURLDecode other = Some raw" "other \<noteq> RawURLEncode raw" for other t
    using that by (auto simp: ContentTicketMetadata_def)
  moreover have "ticket_expiry now texp \<le> texp" "ticket_expiry now texp \<le> now + 5 * minute"
    by (simp_all add: ticket_expiry_def contentTicketTTL_def)
  ultimately show ?thesis by (intro exI [of _ "RawURLEncode raw"]) (simp add: resp)
qed

definition demo_raw :: string where
  "demo_raw = replicate 32 CHR ''x''"

definition demo_hash_env :: env where
  "demo_hash_env = demo_env\<lparr>env_sha256 := hex_encode\<rparr>"

lemma demo_hash: "is_hex64 (hex_encode demo_raw)"
  by code_simp

lemma demo_item_read:
  "\<exists>item. Service_GetAuthorizedCollectionItem demo_shared ''c1'' ''i1'' demo_reader = Ok item \<and> ci_etag item = ''e1''"
proof -
  have "active_item demo_shared ''c1'' ''i1'' = Some (hd (st_items demo_listed))"
      "sel1 (\<lambda>c. c_id c = ''c1'' \<and> c_deleted c = 0) (st_collections demo_shared) = Some (hd (st_collections demo_listed))"
      "ci_asset (hd (st_items demo_listed)) = ''a1''" "c_id (hd (st_collections demo_listed)) = ''c1''"
    by (simp_all add: active_item_def demo_shared_tables demo_listed_tables)
  then show ?thesis using demo_reader_allowed demo_shared_asset
    by (simp add: Service_GetAuthorizedCollectionItem_def validCollectionSubject_def GetAuthorizedCollectionItem_def
        getAuthorizedCollectionItem_def item_media_def demo_reader_def)
qed

lemma demo_issued:
  "\<exists>resp st'. IssueCollectionContentTicket demo_hash_env demo_raw ''c1'' ''i1'' demo_reader 300 120 demo_shared = (Ok resp, st')
     \<and> tr_expires resp = 300"
proof -
  obtain item where item: "Service_GetAuthorizedCollectionItem demo_shared ''c1'' ''i1'' demo_reader = Ok item" "ci_etag item = ''e1''"
    using demo_item_read by blast
  let ?t = "demo_ticket\<lparr>ct_hash := hex_encode demo_raw\<rparr>"
  have "ticket_target demo_shared (?t\<lparr>ct_access_mode := ''reader''\<rparr>) = ticket_target demo_shared (demo_ticket\<lparr>ct_access_mode := ''reader''\<rparr>)"
    by (simp add: ticket_target_def)
  moreover have "expire_tickets 120 demo_shared = demo_shared"
    using demo_shared_asset(3) by (simp add: expire_tickets_def del_where_def)
  ultimately have "\<exists>st'. CreateContentTicket ?t 120 demo_shared = (Ok (), st')"
    using demo_ticket_target demo_hash demo_shared_asset(3)
    by (simp add: CreateContentTicket_def Let_def insert_row_def demo_ticket_def)
  moreover have "\<lparr>ct_hash = env_sha256 demo_hash_env demo_raw, ct_collection = ''c1'', ct_item = ''i1'', ct_etag = ci_etag item,
       ct_user = cs_user demo_reader, ct_roles = cs_roles demo_reader, ct_access_mode = [],
       ct_expires = ticket_expiry 120 300, ct_created = 120\<rparr> = ?t"
    by (simp add: demo_ticket_def demo_hash_env_def item(2) demo_reader_def ticket_expiry_def contentTicketTTL_def)
  ultimately show ?thesis
    using item(1) by (auto simp: IssueCollectionContentTicket_def Let_def ticket_expiry_def contentTicketTTL_def)
qed

theorem ticket_token_roundtrip_witness:
  "\<exists>token st'. snd (IssueCollectionContentTicket demo_hash_env demo_raw ''c1'' ''i1'' demo_reader 300 120 demo_shared) = st'
     \<and> fst (ContentTicketMetadata demo_hash_env token 299 st') = AuthorizedCollectionContentMetadata demo_shared ''c1'' ''i1'' demo_reader
     \<and> fst (ContentTicketMetadata demo_hash_env token 300 st') = Err ErrNotFound"
proof -
  obtain resp st' where issue: "IssueCollectionContentTicket demo_hash_env demo_raw ''c1'' ''i1'' demo_reader 300 120 demo_shared = (Ok resp, st')"
    and exp: "tr_expires resp = 300"
    using demo_issued by blast
  have "length demo_raw = 32" "keyed ct_hash (st_tickets demo_shared)" by (simp_all add: demo_raw_def demo_shared_asset)
  moreover have "wf_assets demo_shared"
    by (simp add: wf_assets_def demo_shared_def collection_eval)
  ultimately obtain token where
    "\<forall>t. fst (ContentTicketMetadata demo_hash_env token t st')
       = (if t < tr_expires resp then AuthorizedCollectionContentMetadata demo_shared ''c1'' ''i1'' demo_reader else Err ErrNotFound)"
    using ticket_token_roundtrip [OF issue] by blast
  then show ?thesis using issue exp by (intro exI [of _ token] exI [of _ st']) simp
qed

section \<open>Item identifiers\<close>

lemma canonical_of_hex:
  assumes "length d = 16"
  shows "canonical_item_id (hex_encode d) = Some (hex_encode d)"
proof -
  have space: "\<forall>c\<in>set (hex_encode d). \<not> is_space c"
  proof -
    have "list_all (\<lambda>c. \<not> is_space c) ''0123456789abcdef''" by code_simp
    then show ?thesis using hex_encode_digits [of d] unfolding list_all_iff by blast
  qed
  have drop: "dropWhile is_space w = w" if "\<forall>c\<in>set w. \<not> is_space c" for w
    using that by (cases w) auto
  have "\<forall>c\<in>set (rev (hex_encode d)). \<not> is_space c" using space by simp
  then have "TrimSpace (hex_encode d) = hex_encode d"
    unfolding TrimSpace_def drop [OF space] by (simp add: drop)
  then show ?thesis using assms by (simp add: canonical_item_id_def)
qed

lemma canonical_item_id_hex:
  assumes "canonical_item_id v = Some u"
  shows "length u = 32 \<and> set u \<subseteq> set ''0123456789abcdef'' \<and> canonical_item_id u = Some u"
proof -
  obtain d where d: "length d = 16" "u = hex_encode d"
    using assms by (auto simp: canonical_item_id_def Let_def bind_eq_Some_conv split: option.splits if_splits)
  then show ?thesis using canonical_of_hex hex_encode_digits by simp
qed

lemma those_map: "those (map f xs) = (if \<forall>x\<in>set xs. f x \<noteq> None then Some (map (the \<circ> f) xs) else None)"
  by (induction xs) (auto split: option.splits)

text \<open>
  \<open>normalizeCollectionItemIDs\<close> brings the item identifiers of a request, in any of their
  spellings, to one canonical list: an accepted list has one to a hundred values, each is
  32 lower-case hexadecimal digits, they are strictly ascending, exactly the canonical forms of the
  values given, and normalising again changes nothing; a list is refused when it is empty, too long
  or contains a value without a canonical form.
\<close>

theorem normalized_item_ids:
  "normalizeCollectionItemIDs vs = (if 1 \<le> length vs \<and> length vs \<le> 100 \<and> (\<forall>v\<in>set vs. canonical_item_id v \<noteq> None)
      then Some (sorted_list_of_set ((the \<circ> canonical_item_id) ` set vs)) else None)
   \<and> (\<forall>ids. normalizeCollectionItemIDs vs = Some ids \<longrightarrow>
        sorted_wrt (<) ids \<and> 1 \<le> length ids \<and> length ids \<le> 100
        \<and> (\<forall>u\<in>set ids. length u = 32 \<and> set u \<subseteq> set ''0123456789abcdef'')
        \<and> normalizeCollectionItemIDs ids = Some ids)"
proof -
  have norm: "normalizeCollectionItemIDs ws = (if 1 \<le> length ws \<and> length ws \<le> 100 \<and> (\<forall>v\<in>set ws. canonical_item_id v \<noteq> None)
      then Some (sorted_list_of_set ((the \<circ> canonical_item_id) ` set ws)) else None)" for ws
  proof -
    have "sorted_list_of_set ((the \<circ> canonical_item_id) ` set ws) = sort (remdups (map (the \<circ> canonical_item_id) ws))"
      by (simp only: set_map [symmetric] sorted_list_of_set_sort_remdups)
    then show ?thesis
      unfolding normalizeCollectionItemIDs_def those_map not_less [symmetric] by simp
  qed
  moreover have "sorted_wrt (<) ids \<and> 1 \<le> length ids \<and> length ids \<le> 100
        \<and> (\<forall>u\<in>set ids. length u = 32 \<and> set u \<subseteq> set ''0123456789abcdef'') \<and> normalizeCollectionItemIDs ids = Some ids"
    if some: "normalizeCollectionItemIDs vs = Some ids" for ids
  proof -
    let ?S = "(the \<circ> canonical_item_id) ` set vs"
    have vs: "1 \<le> length vs" "length vs \<le> 100" "\<forall>v\<in>set vs. canonical_item_id v \<noteq> None"
      and ids: "ids = sorted_list_of_set ?S"
      using some norm [of vs] by (auto split: if_splits)
    have canon: "\<forall>u\<in>?S. length u = 32 \<and> set u \<subseteq> set ''0123456789abcdef'' \<and> canonical_item_id u = Some u"
      using vs(3) canonical_item_id_hex by fastforce
    have "card ?S \<le> length vs" by (meson card_image_le card_length finite_set order_trans)
    moreover have "?S \<noteq> {}" using vs(1) by auto
    ultimately have len: "1 \<le> length ids" "length ids \<le> 100"
      using vs(2) by (simp_all add: ids Suc_le_eq card_gt_0_iff)
    have set_ids: "set ids = ?S" by (simp add: ids)
    have own: "canonical_item_id u = Some u" if "u \<in> set ids" for u
      using that canon unfolding set_ids by blast
    have "(the \<circ> canonical_item_id) ` set ids = (\<lambda>u. u) ` set ids"
      by (rule image_cong) (simp_all add: own)
    moreover have "\<forall>v\<in>set ids. canonical_item_id v \<noteq> None" by (simp add: own)
    ultimately have "normalizeCollectionItemIDs ids = Some (sorted_list_of_set (set ids))"
      unfolding norm using len by simp
    then have again: "normalizeCollectionItemIDs ids = Some ids" unfolding set_ids ids [symmetric] .
    have "sorted_wrt (<) ids" by (simp add: ids)
    moreover have "\<forall>u\<in>set ids. length u = 32 \<and> set u \<subseteq> set ''0123456789abcdef''"
      using canon unfolding set_ids by blast
    ultimately show ?thesis using len again by blast
  qed
  ultimately show ?thesis by blast
qed

theorem normalized_item_ids_witness:
  "normalizeCollectionItemIDs [hex_encode (replicate 16 CHR ''a'')] = Some [hex_encode (replicate 16 CHR ''a'')]"
proof -
  have c: "canonical_item_id (hex_encode (replicate 16 CHR ''a'')) = Some (hex_encode (replicate 16 CHR ''a''))"
    by (rule canonical_of_hex) simp
  then show ?thesis
    using conjunct1 [OF normalized_item_ids [of "[hex_encode (replicate 16 CHR ''a'')]"]] by simp
qed

end
