(* ===== verification/Personal_Service.thy ===== *)
theory Personal_Service
  imports Sharing_Props Upload_Props Content_Service
begin

text \<open>
  The service in front of the personal cloud: \<open>personal_service.go\<close>, \<open>personal_sharing.go\<close> and
  \<open>personal_upload.go\<close> of \<open>internal/assets\<close>.  Every operation checks the user and the form of its input
  and hands over to the repository; personal uploads go through the general upload service, with the
  bytes sent to the service itself instead of to a signed URL.
\<close>

section \<open>The checks in front of the repository\<close>

definition for_user :: "string \<Rightarrow> bool \<Rightarrow> (cloud \<Rightarrow> 'a result \<times> cloud) \<Rightarrow> cloud \<Rightarrow> 'a result \<times> cloud" where
  "for_user user ok f cl = (if user = [] then (Err ErrUnauthorized, cl) else if \<not> ok then (Err ErrInvalidInput, cl) else f cl)"

definition user_reads :: "string \<Rightarrow> bool \<Rightarrow> (cloud \<Rightarrow> 'a result) \<Rightarrow> cloud \<Rightarrow> 'a result" where
  "user_reads user ok f cl = (if user = [] then Err ErrUnauthorized else if \<not> ok then Err ErrInvalidInput else f cl)"

definition Service_EnsurePersonalSpace :: "string \<Rightarrow> time \<Rightarrow> string \<Rightarrow> cloud \<Rightarrow> personal_space result \<times> cloud" where
  "Service_EnsurePersonalSpace owner now new = for_user owner True (EnsurePersonalSpace owner now new)"

definition Service_PersonalChanges :: "string \<Rightarrow> change_cursor token \<Rightarrow> int \<Rightarrow> cloud \<Rightarrow> cloud \<Rightarrow> personal_page result" where
  "Service_PersonalChanges owner cursor limit cl1 = user_reads owner True (PersonalChanges owner cursor limit cl1)"

definition Service_ApplyPersonalMutation ::
  "(string \<Rightarrow> string) \<Rightarrow> string \<Rightarrow> personal_mutation \<Rightarrow> time \<Rightarrow> cloud \<Rightarrow> personal_mutation_result result \<times> cloud" where
  "Service_ApplyPersonalMutation nfc owner m now = for_user owner (Mutation_Validate m) (ApplyPersonalMutation nfc owner m now)"

definition Service_PersonalUsage :: "string \<Rightarrow> time \<Rightarrow> cloud \<Rightarrow> personal_usage result" where
  "Service_PersonalUsage owner now = user_reads owner True (\<lambda>cl. PersonalUsage cl owner now)"

definition Service_SetPersonalQuota ::
  "string \<Rightarrow> string \<Rightarrow> int option \<Rightarrow> string \<Rightarrow> time \<Rightarrow> cloud \<Rightarrow> personal_usage result \<times> cloud" where
  "Service_SetPersonalQuota actor owner quota request now = for_user actor
     (owner \<noteq> [] \<and> length owner \<le> 128 \<and> request \<noteq> [] \<and> length request \<le> 128 \<and> (case quota of None \<Rightarrow> True | Some n \<Rightarrow> 0 < n))
     (SetPersonalQuota actor owner quota request now)"

definition Service_PurgePersonalTrash :: "string \<Rightarrow> trash_purge_input \<Rightarrow> time \<Rightarrow> cloud \<Rightarrow> string list result \<times> cloud" where
  "Service_PurgePersonalTrash owner input now = for_user owner (Purge_Validate input) (PurgePersonalTrash owner input now)"

definition Service_CreatePersonalFolderGrant ::
  "string \<Rightarrow> string \<Rightarrow> string \<Rightarrow> time \<Rightarrow> string \<Rightarrow> cloud \<Rightarrow> folder_grant result \<times> cloud" where
  "Service_CreatePersonalFolderGrant owner item grantee now new = for_user owner
     (item \<noteq> [] \<and> grantee \<noteq> [] \<and> owner \<noteq> grantee) (CreatePersonalFolderGrant owner item grantee now new)"

definition Service_ListPersonalFolderGrants :: "string \<Rightarrow> string \<Rightarrow> cloud \<Rightarrow> folder_grant list result" where
  "Service_ListPersonalFolderGrants owner item = user_reads owner (item \<noteq> []) (ListPersonalFolderGrants owner item)"

definition Service_RevokePersonalFolderGrant :: "string \<Rightarrow> string \<Rightarrow> string \<Rightarrow> time \<Rightarrow> cloud \<Rightarrow> unit result \<times> cloud" where
  "Service_RevokePersonalFolderGrant owner item grant now = for_user owner (item \<noteq> [] \<and> grant \<noteq> [])
     (RevokePersonalFolderGrant owner item grant now)"

definition Service_ListSharedFolderRoots :: "string \<Rightarrow> cloud \<Rightarrow> shared_root list result" where
  "Service_ListSharedFolderRoots recipient = user_reads recipient True (ListSharedFolderRoots recipient)"

definition Service_SharedFolderSnapshot :: "string \<Rightarrow> string \<Rightarrow> shared_cursor token \<Rightarrow> int \<Rightarrow> cloud \<Rightarrow> shared_page result" where
  "Service_SharedFolderSnapshot recipient grant cursor limit = user_reads recipient (grant \<noteq> [])
     (SharedFolderSnapshot recipient grant cursor limit)"

definition Service_LeaveSharedFolder :: "string \<Rightarrow> string \<Rightarrow> time \<Rightarrow> cloud \<Rightarrow> unit result \<times> cloud" where
  "Service_LeaveSharedFolder recipient grant now = for_user recipient (grant \<noteq> []) (LeaveSharedFolder recipient grant now)"

text \<open>
  The metadata of content: the lease and the read of the asset are two requests to the repository, between
  which \<open>meanwhile\<close> is what others do.
\<close>

definition leased_metadata :: "(cloud \<Rightarrow> string result \<times> cloud) \<Rightarrow> (cloud \<Rightarrow> cloud) \<Rightarrow> cloud \<Rightarrow> public_metadata result \<times> cloud" where
  "leased_metadata f meanwhile cl = (case f cl of
       (Inl e, cl1) \<Rightarrow> (Err e, cl1)
     | (Inr i, cl1) \<Rightarrow> (let cl2 = meanwhile cl1 in
         (bindR (GetAsset (cl_store cl2) i) (\<lambda>a. collectionContentMetadata a (a_etag a)), cl2)))"

definition PersonalContentMetadata ::
  "string \<Rightarrow> string \<Rightarrow> int \<Rightarrow> time \<Rightarrow> (cloud \<Rightarrow> cloud) \<Rightarrow> cloud \<Rightarrow> public_metadata result \<times> cloud" where
  "PersonalContentMetadata owner item revision now meanwhile = for_user owner (0 \<le> revision)
     (leased_metadata (PersonalContentAssetID owner item revision now) meanwhile)"

definition SharedFolderContentMetadata ::
  "string \<Rightarrow> string \<Rightarrow> string \<Rightarrow> time \<Rightarrow> (cloud \<Rightarrow> cloud) \<Rightarrow> cloud \<Rightarrow> public_metadata result \<times> cloud" where
  "SharedFolderContentMetadata recipient grant item now meanwhile = for_user recipient (grant \<noteq> [] \<and> item \<noteq> [])
     (leased_metadata (SharedFolderContentAssetID recipient grant item now) meanwhile)"

section \<open>Personal uploads\<close>

record personal_upload_input =
  pi_file_name :: string
  pi_mime :: string
  pi_size :: int

record personal_upload_state =
  px_id :: string
  px_path :: string
  px_expires :: time
  px_upload :: upload_status
  px_scan :: scan_status
  px_processing :: processing_status

definition personalUploadState :: "asset \<Rightarrow> upload_session \<Rightarrow> personal_upload_state" where
  "personalUploadState a u = \<lparr>px_id = us_id u, px_path = ''/api/assets/personal-space/uploads/'' @ us_id u @ ''/content'',
     px_expires = (us_expires u div 1000) * 1000, px_upload = a_upload_status a, px_scan = a_scan_status a,
     px_processing = a_processing_status a\<rparr>"

text \<open>The state of an upload: the personal cloud and a blob store.\<close>

definition in_cloud :: "('b, 'a) action \<Rightarrow> cloud \<times> 'b \<Rightarrow> 'a result \<times> (cloud \<times> 'b)" where
  "in_cloud f = (\<lambda>(cl, b). case f (cl_store cl, b) of (r, (st, b')) \<Rightarrow> (r, (cl\<lparr>cl_store := st\<rparr>, b')))"

definition personal_upload_input_ok :: "string \<Rightarrow> personal_upload_input \<Rightarrow> bool" where
  "personal_upload_input_ok key input \<longleftrightarrow> TrimSpace key \<noteq> [] \<and> length key \<le> 128 \<and> TrimSpace (pi_file_name input) \<noteq> []
     \<and> length (pi_file_name input) \<le> 1024
     \<and> list_all (\<lambda>c. c \<noteq> CHR ''/'' \<and> c \<noteq> CHR 0x5C \<and> c \<noteq> CHR 0x00) (pi_file_name input)"

text \<open>The idempotency key of the upload service is scoped to the account.\<close>

definition scoped_key :: "service \<Rightarrow> string \<Rightarrow> string \<Rightarrow> string" where
  "scoped_key sv owner key = hex_encode (env_sha256 (sv_env sv) (owner @ CHR 0x00 # key))"

definition personal_request :: "string \<Rightarrow> personal_upload_input \<Rightarrow> create_upload_input" where
  "personal_request owner input = \<lparr>cu_namespace = PersonalNamespace, cu_owner_service = PersonalNamespace, cu_owner_type = ''user'',
     cu_owner_id = owner, cu_purpose = ''personal-sync'', cu_locale = [], cu_file_name = pi_file_name input, cu_mime = pi_mime input,
     cu_max_size = pi_size input, cu_visibility = VisibilityPrivate\<rparr>"

definition CreatePersonalUpload ::
  "service \<Rightarrow> 'b blob_ops \<Rightarrow> string \<Rightarrow> personal_upload_input \<Rightarrow> string \<Rightarrow> string \<Rightarrow> string \<Rightarrow> time \<Rightarrow> cloud
     \<Rightarrow> personal_upload_state result \<times> cloud" where
  "CreatePersonalUpload sv ops owner input key i sid now = for_user owner (personal_upload_input_ok key input)
     (\<lambda>cl. case CreateUploadSession sv ops (personal_request owner input) (scoped_key sv owner key) i sid now (cl_store cl) of
        (Inl e, st) \<Rightarrow> (Err e, cl\<lparr>cl_store := st\<rparr>)
      | (Inr c, st) \<Rightarrow> (Ok (personalUploadState (cr_asset c) (cr_session c)), cl\<lparr>cl_store := st\<rparr>))"

text \<open>The reads of one request see one store.\<close>

definition personalUpload :: "string \<Rightarrow> string \<Rightarrow> cloud \<Rightarrow> (asset \<times> upload_session) result" where
  "personalUpload owner upload cl =
     (if owner = [] then Err ErrUnauthorized
      else bindR (PersonalUploadAssetID owner upload cl) (\<lambda>i.
        bindR (GetAsset (cl_store cl) i) (\<lambda>a.
          if a_owner_id a \<noteq> owner \<or> a_owner_service a \<noteq> PersonalNamespace \<or> a_owner_type a \<noteq> ''user''
             \<or> a_namespace a \<noteq> PersonalNamespace \<or> a_deleted a \<noteq> 0
          then Err ErrNotFound
          else bindR (GetUploadSession (cl_store cl) i) (\<lambda>u. if us_id u \<noteq> upload then Err ErrNotFound else Ok (a, u)))))"

definition Service_PersonalUpload :: "string \<Rightarrow> string \<Rightarrow> cloud \<Rightarrow> personal_upload_state result" where
  "Service_PersonalUpload owner upload cl = bindR (personalUpload owner upload cl) (\<lambda>(a, u). Ok (personalUploadState a u))"

text \<open>
  \<open>PutPersonalUpload\<close>: \<open>put_once\<close> is the \<open>PutOnce\<close> of the blob store, on the key, the bytes, the size and the
  type; a \<open>sent\<close> below zero is a request without a length.  \<open>meanwhile\<close> is what others do while the bytes
  arrive, before the session is read again; a completion may have removed the staging object by then.
\<close>

definition PutPersonalUpload ::
  "'b blob_ops \<Rightarrow> (string \<Rightarrow> string \<Rightarrow> int \<Rightarrow> string \<Rightarrow> 'b \<Rightarrow> blob_properties result \<times> 'b) \<Rightarrow> string \<Rightarrow> string \<Rightarrow> int \<Rightarrow> string
     \<Rightarrow> time \<Rightarrow> time \<Rightarrow> (cloud \<times> 'b \<Rightarrow> cloud \<times> 'b) \<Rightarrow> cloud \<times> 'b \<Rightarrow> unit result \<times> (cloud \<times> 'b)" where
  "PutPersonalUpload ops put_once owner upload sent body now rejected meanwhile = (\<lambda>(cl, b).
     case personalUpload owner upload cl of
       Inl e \<Rightarrow> (Err e, (cl, b))
     | Inr (a, u) \<Rightarrow>
       if us_status u \<noteq> UploadCreated \<or> \<not> now < us_expires u then (Err ErrConflict, (cl, b))
       else if us_max_size u \<le> 0 \<or> PersonalMaxFileSize < us_max_size u \<or> (0 \<le> sent \<and> sent \<noteq> us_max_size u)
       then (Err ErrInvalidInput, (cl, b))
       else (case put_once (us_staging_key u) (take (nat (us_max_size u + 1)) body) (us_max_size u) (a_expected_mime a) b of
          (Inl e, b1) \<Rightarrow> (Err e, (cl, b1))
        | (Inr p, b1) \<Rightarrow>
          (case meanwhile (cl, b1) of (cl2, b2) \<Rightarrow>
             if bp_size p \<noteq> us_max_size u then in_cloud (refuse ops a u rejected) (cl2, b2)
             else (case GetUploadSession (cl_store cl2) (a_id a) of
                Inl e \<Rightarrow> (Err e, (cl2, b2))
              | Inr v \<Rightarrow>
                  if us_status v = UploadCreated then (Ok (), (cl2, b2))
                  else (case bl_delete ops (us_staging_key u) b2 of
                     (Some e, b3) \<Rightarrow> (Err e, (cl2, b3))
                   | (None, b3) \<Rightarrow> (Err ErrConflict, (cl2, b3)))))))"

definition CompletePersonalUpload ::
  "service \<Rightarrow> 'b blob_ops \<Rightarrow> string \<Rightarrow> string \<Rightarrow> complete_upload_input \<Rightarrow> string \<Rightarrow> time \<Rightarrow> time \<Rightarrow> cloud \<times> 'b
     \<Rightarrow> personal_upload_state result \<times> (cloud \<times> 'b)" where
  "CompletePersonalUpload sv ops owner upload input event seen now = (\<lambda>(cl, b).
     case personalUpload owner upload cl of
       Inl e \<Rightarrow> (Err e, (cl, b))
     | Inr (a, u) \<Rightarrow>
       if co_size input \<noteq> us_max_size u \<or> co_mime input \<noteq> a_expected_mime a then (Err ErrInvalidUpload, (cl, b))
       else (case in_cloud (Service_CompleteUpload sv ops (a_id a) input event seen now) (cl, b) of
          (Inl e, w) \<Rightarrow> (Err e, w)
        | (Inr a', w) \<Rightarrow> (Ok (personalUploadState a' u), w)))"

section \<open>Sending the bytes\<close>

definition local_put_once :: "local_env \<Rightarrow> time \<Rightarrow> string \<Rightarrow> string \<Rightarrow> int \<Rightarrow> string \<Rightarrow> local_files \<Rightarrow> blob_properties result \<times> local_files" where
  "local_put_once le mtime key body n mime = Local_PutOnce le key body n mtime"

lemma local_put_once_cases:
  assumes "plain_key key" "0 < n"
  obtains (stored) p where "length body = nat n" "fs key = None" "bp_size p = n"
      "local_put_once le mtime key (take (nat (n + 1)) body) n mime fs = (Ok p, fs(key \<mapsto> \<lparr>lf_bytes = body, lf_mtime = mtime\<rparr>))"
    | (refused) e where "local_put_once le mtime key (take (nat (n + 1)) body) n mime fs = (Err e, fs)"
proof (cases "int (length body) = n \<and> fs key = None")
  case True
  then have "nat (n + 1) = Suc (length body)" by linarith
  then have "take (nat (n + 1)) body = body" by simp
  then show thesis using stored [of "\<lparr>bp_size = n, bp_mime = detected_mime le body, bp_checksum = le_digest le body,
      bp_etag = file_etag \<lparr>lf_bytes = body, lf_mtime = mtime\<rparr>\<rparr>"] assms True
    by (auto simp: local_put_once_def Local_PutOnce_def Local_put_def plain_key_def inspect_plain Let_def)
next
  case False
  then have "int (length (take (nat (n + 1)) body)) \<noteq> n \<or> fs key \<noteq> None" using assms(2) by (auto simp: min_def)
  then have "\<exists>e. local_put_once le mtime key (take (nat (n + 1)) body) n mime fs = (Err e, fs)" using assms
    by (auto simp: local_put_once_def Local_PutOnce_def Local_put_def plain_key_def Let_def)
  then show thesis using refused by blast
qed

lemma personalUpload_Ok:
  assumes "personalUpload owner upload cl = Ok (a, u)"
  shows "GetAsset (cl_store cl) (a_id a) = Ok a" "GetUploadSession (cl_store cl) (a_id a) = Ok u" "us_id u = upload"
    "a_owner_id a = owner" "owner \<noteq> []" "a_namespace a = PersonalNamespace"
proof -
  obtain i where i: "GetAsset (cl_store cl) i = Ok a" "GetUploadSession (cl_store cl) i = Ok u" "us_id u = upload"
      "a_owner_id a = owner" "owner \<noteq> []" "a_namespace a = PersonalNamespace"
    using assms by (auto simp: personalUpload_def split: if_splits)
  moreover have "a_id a = i" using i(1) by (auto simp: GetAsset_row dest: sel1_Some)
  ultimately show "GetAsset (cl_store cl) (a_id a) = Ok a" "GetUploadSession (cl_store cl) (a_id a) = Ok u" "us_id u = upload"
    "a_owner_id a = owner" "owner \<noteq> []" "a_namespace a = PersonalNamespace" by simp_all
qed

text \<open>
  C37.  Sending the bytes of a personal upload settles: a request that succeeds stored exactly the announced
  number of bytes under a key that was free, in a session of the user that was open before and is still
  open after all that others did meanwhile; a request that fails stores nothing, or, when the session was
  settled meanwhile, leaves no bytes behind.
\<close>

theorem personal_put_settled:
  assumes run: "PutPersonalUpload (local_ops le) (local_put_once le mtime) owner upload sent body now rejected meanwhile (cl, fs) = (r, (cl', fs'))"
    and mine: "personalUpload owner upload cl = Ok (a, u)" and key: "plain_key (us_staging_key u)"
  shows "(r = Ok () \<longrightarrow> us_status u = UploadCreated \<and> now < us_expires u \<and> int (length body) = us_max_size u
            \<and> us_max_size u \<le> PersonalMaxFileSize \<and> fs (us_staging_key u) = None
            \<and> (cl', fs') = meanwhile (cl, fs(us_staging_key u \<mapsto> \<lparr>lf_bytes = body, lf_mtime = mtime\<rparr>))
            \<and> (\<exists>v. GetUploadSession (cl_store cl') (a_id a) = Ok v \<and> us_status v = UploadCreated))
       \<and> (r \<noteq> Ok () \<and> (\<exists>v. GetUploadSession (cl_store cl') (a_id a) = Ok v) \<longrightarrow> (cl', fs') = (cl, fs) \<or> fs' (us_staging_key u) = None)"
proof (cases "us_status u = UploadCreated \<and> now < us_expires u \<and> 0 < us_max_size u \<and> us_max_size u \<le> PersonalMaxFileSize
    \<and> \<not> (0 \<le> sent \<and> sent \<noteq> us_max_size u)")
  case False
  then have "r \<noteq> Ok () \<and> (cl', fs') = (cl, fs)" using run mine by (auto simp: PutPersonalUpload_def split: if_splits)
  then show ?thesis by simp
next
  case open': True
  show ?thesis
  proof (cases rule: local_put_once_cases [OF key, of "us_max_size u" body fs le mtime "a_expected_mime a"])
    case 1
    then show ?case using open' by simp
  next
    case (2 p)
    obtain cl2 fs2 where m: "meanwhile (cl, fs(us_staging_key u \<mapsto> \<lparr>lf_bytes = body, lf_mtime = mtime\<rparr>)) = (cl2, fs2)" by fastforce
    have gone: "bl_delete (local_ops le) (us_staging_key u) fs2 = (None, fs2(us_staging_key u := None))"
      using key by (simp add: local_ops_def Local_Delete_def plain_key_def)
    show ?thesis using run mine open' 2 m gone
      by (auto simp: PutPersonalUpload_def split: sum.splits if_splits)
  next
    case (3 e)
    then have "r = Err e \<and> (cl', fs') = (cl, fs)" using run mine open' by (auto simp: PutPersonalUpload_def)
    then show ?thesis by simp
  qed
qed

text \<open>An open upload of six bytes, and the request that sends them.\<close>

definition ida_opened :: cloud where
  "ida_opened = anna_start\<lparr>cl_store := empty_store\<lparr>
     st_assets := [anna_file\<lparr>a_owner_id := ''ida'', a_upload_status := UploadCreated, a_scan_status := ScanPending\<rparr>],
     st_sessions := [anna_upload\<lparr>us_staging_key := ''ida/s'', us_max_size := 6, us_status := UploadCreated\<rparr>]\<rparr>\<rparr>"

definition ida_file :: local_file where "ida_file = \<lparr>lf_bytes = ''%PDF-1'', lf_mtime = 7\<rparr>"

definition ida_put :: "unit result \<times> (cloud \<times> local_files)" where
  "ida_put = PutPersonalUpload (local_ops demo_local) (local_put_once demo_local 7) ''ida'' ''u-1'' 6 ''%PDF-1'' 800 850 id (ida_opened, Map.empty)"

lemma ida_upload:
  obtains a u where "personalUpload ''ida'' ''u-1'' ida_opened = Ok (a, u)" "us_staging_key u = ''ida/s''"
proof -
  have "map_sum id (\<lambda>(a, u). us_staging_key u) (personalUpload ''ida'' ''u-1'' ida_opened) = Ok ''ida/s''" by code_simp
  then show thesis using that by (cases "personalUpload ''ida'' ''u-1'' ida_opened") auto
qed

theorem personal_put_settled_witness:
  "fst ida_put = Ok () \<and> snd ida_put = (ida_opened, [''ida/s'' \<mapsto> ida_file])"
proof -
  obtain a u where u: "personalUpload ''ida'' ''u-1'' ida_opened = Ok (a, u)" "us_staging_key u = ''ida/s''" by (rule ida_upload)
  have "plain_key ''ida/s''" unfolding plain_key_def by code_simp
  then have key: "plain_key (us_staging_key u)" by (simp add: u)
  obtain cl' fs' where run: "ida_put = (fst ida_put, (cl', fs'))" by (metis prod.collapse)
  have r: "fst ida_put = Ok ()" by code_simp
  show ?thesis using personal_put_settled [OF run [unfolded ida_put_def] u(1) key] r run u(2)
    by (simp add: ida_put_def ida_file_def)
qed

end
