(* ===== verification/Recording_Inventory.thy ===== *)
theory Recording_Inventory
  imports Complex_Main "HOL-Library.List_Lexorder" "HOL-Library.Char_ord" Blob_Store Media_Validation
begin

text \<open>
  The declared content of a recording package, \<open>internal/assets/recording_package.go\<close>: the inventory of
  objects and renditions, its digest and the check of the whole graph.  A \<open>float64\<close> decoded from JSON is
  finite and stands here as a rational number, the rate \<open>30000.0/1001\<close> as that quotient; sums, differences
  and comparisons of such values are exact, the rounding of \<open>float64\<close> is not modelled.  \<open>json.Marshal\<close> and
  SHA-256 are the fields of \<open>rec_env\<close>.
\<close>

section \<open>Limits and patterns\<close>

definition RecordingSourceMaxBytes :: int where "RecordingSourceMaxBytes = 50000000000"
definition RecordingPackageMaxBytes :: int where "RecordingPackageMaxBytes = 10000000000"
definition RecordingObjectMaxBytes :: int where "RecordingObjectMaxBytes = 134217728"
definition RecordingInventoryMaxBytes :: int where "RecordingInventoryMaxBytes = 8388608"
definition RecordingPlaylistMaxBytes :: int where "RecordingPlaylistMaxBytes = 1048576"
definition RecordingPackageMaxObjects :: int where "RecordingPackageMaxObjects = 13000"
definition RecordingMaxSegments :: nat where "RecordingMaxSegments = 4320"
definition RecordingTenSecondPreset :: string where "RecordingTenSecondPreset = ''obs-hls-10s-v1''"
definition RecordingMaxDurationSeconds :: rat where "RecordingMaxDurationSeconds = 43200"

definition ntsc_rate :: rat where "ntsc_rate = 30000 / 1001"

definition alnum :: "char \<Rightarrow> bool" where
  "alnum c \<longleftrightarrow> (let n = of_char c :: nat in 48 \<le> n \<and> n \<le> 57 \<or> 65 \<le> n \<and> n \<le> 90 \<or> 97 \<le> n \<and> n \<le> 122)"

definition hex_char :: "char \<Rightarrow> bool" where
  "hex_char c \<longleftrightarrow> unhex c \<noteq> None"

text \<open>\<open>presetVersionPattern\<close>, \<open>mediaID\<close>, \<open>captureUUID\<close> and \<open>captureOperationKey\<close>.\<close>

definition preset_version :: "string \<Rightarrow> bool" where
  "preset_version s \<longleftrightarrow> s \<noteq> [] \<and> alnum (hd s) \<and> length s \<le> 64 \<and> list_all (\<lambda>c. alnum c \<or> c \<in> set ''._-'') (tl s)"

definition mediaID :: "string \<Rightarrow> bool" where
  "mediaID s \<longleftrightarrow> s \<noteq> [] \<and> length s \<le> 80 \<and> list_all (\<lambda>c. alnum c \<or> c = CHR ''-'') s"

definition captureUUID :: "string \<Rightarrow> bool" where
  "captureUUID s \<longleftrightarrow> length s = 36
     \<and> list_all (\<lambda>i. if i \<in> {8, 13, 18, 23} then s ! i = CHR ''-'' else hex_char (s ! i)) [0..<36]"

definition captureOperationKey :: "string \<Rightarrow> bool" where
  "captureOperationKey s \<longleftrightarrow> s \<noteq> [] \<and> length s \<le> 128 \<and> list_all (\<lambda>c. alnum c \<or> c \<in> set ''._:-'') s"

section \<open>The inventory\<close>

record package_object =
  po_path :: string
  po_size :: int
  po_sha :: string

record rendition =
  rn_name :: string
  rn_width :: int
  rn_height :: int
  rn_rate :: rat
  rn_video :: int
  rn_audio :: int
  rn_duration :: rat
  rn_segments :: int

record inventory =
  in_schema :: int
  in_preset :: string
  in_objects :: "package_object list"
  in_renditions :: "rendition list"
  in_digest :: string

record rec_env =
  re_json :: "inventory \<Rightarrow> string"
  re_sha256 :: "string \<Rightarrow> string"

text \<open>\<open>fmt.Sprintf("%06d", n)\<close> and the names of the segments.\<close>

definition padded :: "nat \<Rightarrow> nat \<Rightarrow> string" where
  "padded width n = (let d = dec_nat n in replicate (width - length d) CHR ''0'' @ d)"

definition segment_name :: "nat \<Rightarrow> string" where
  "segment_name n = ''seg-'' @ padded 6 n @ ''.m4s''"

definition rendition_paths :: "rendition \<Rightarrow> string list" where
  "rendition_paths r = map (\<lambda>f. rn_name r @ ''/'' @ f)
     (''index.m3u8'' # ''init.mp4'' # map segment_name [0..<nat (rn_segments r)])"

definition expected_paths :: "rendition list \<Rightarrow> string list" where
  "expected_paths rs = ''master.m3u8'' # concat (map rendition_paths rs)"

definition ValidateRecordingSourceSize :: "int \<Rightarrow> unit result" where
  "ValidateRecordingSourceSize n =
     (if n \<le> 0 then Err ErrInvalidInput else if RecordingSourceMaxBytes < n then Err ErrRecordingSourceTooLarge else Ok ())"

definition canonical_inventory :: "inventory \<Rightarrow> inventory" where
  "canonical_inventory iv = iv\<lparr>in_digest := [], in_objects := sort_key po_path (in_objects iv),
     in_renditions := sort_key rn_name (in_renditions iv)\<rparr>"

definition RecordingInventoryDigest :: "rec_env \<Rightarrow> inventory \<Rightarrow> string" where
  "RecordingInventoryDigest e iv = hex_encode (re_sha256 e (re_json e (canonical_inventory iv)))"

section \<open>The check of the graph\<close>

definition rendition_bounds :: "string \<Rightarrow> (int \<times> int) option" where
  "rendition_bounds name = (if name = ''1080p'' then Some (1920, 1080) else if name = ''480p'' then Some (854, 480)
     else if name = ''720p'' then Some (1280, 720) else None)"

definition rendition_ok :: "string \<Rightarrow> rendition \<Rightarrow> bool" where
  "rendition_ok preset r \<longleftrightarrow> (case rendition_bounds (rn_name r) of
       None \<Rightarrow> False
     | Some (w, h) \<Rightarrow> 0 < rn_width r \<and> rn_width r \<le> w \<and> rn_width r mod 2 = 0
         \<and> 0 < rn_height r \<and> rn_height r \<le> h \<and> rn_height r mod 2 = 0
         \<and> 0 < rn_rate r \<and> rn_rate r \<le> 30
         \<and> 0 < rn_duration r \<and> rn_duration r \<le> RecordingMaxDurationSeconds
         \<and> 1 \<le> rn_segments r \<and> rn_segments r \<le> int RecordingMaxSegments
         \<and> rn_audio r = 128000 \<and> 500000 \<le> rn_video r \<and> rn_video r \<le> 8000000)
     \<and> (preset = RecordingTenSecondPreset \<longrightarrow> rn_rate r = ntsc_rate)
     \<and> (preset \<noteq> RecordingTenSecondPreset \<longrightarrow> rn_segments r \<le> 1440)"

definition same_timeline :: "rendition \<Rightarrow> rendition \<Rightarrow> bool" where
  "same_timeline a r \<longleftrightarrow> rn_rate r = rn_rate a \<and> \<bar>rn_duration r - rn_duration a\<bar> \<le> 1 / rn_rate a"

fun renditions_ok :: "string \<Rightarrow> rendition option \<Rightarrow> string list \<Rightarrow> rendition list \<Rightarrow> bool" where
  "renditions_ok preset a seen [] = True"
| "renditions_ok preset a seen (r # rs) =
     (rn_name r \<notin> set seen \<and> rendition_ok preset r
      \<and> (case a of None \<Rightarrow> True | Some f \<Rightarrow> same_timeline f r)
      \<and> renditions_ok preset (case a of None \<Rightarrow> Some r | Some f \<Rightarrow> Some f) (rn_name r # seen) rs)"

definition rendition_below :: "rendition \<Rightarrow> rendition \<Rightarrow> bool" where
  "rendition_below low high \<longleftrightarrow> rn_height low < rn_height high \<and> rn_video low \<le> rn_video high
     \<and> rn_name low \<noteq> ''1080p'' \<and> rn_name high \<noteq> ''480p''"

definition ladder_ok :: "rendition list \<Rightarrow> bool" where
  "ladder_ok rs \<longleftrightarrow> successively rendition_below (sort_key rn_height rs)"

definition checksum_ok :: "string \<Rightarrow> bool" where
  "checksum_ok s \<longleftrightarrow> (case hex_decode s of None \<Rightarrow> False | Some d \<Rightarrow> length d = 32) \<and> ToLower s = s"

definition ends_with :: "string \<Rightarrow> string \<Rightarrow> bool" where
  "ends_with suf s \<longleftrightarrow> length suf \<le> length s \<and> drop (length s - length suf) s = suf"

definition object_ok :: "package_object \<Rightarrow> bool" where
  "object_ok ob \<longleftrightarrow> 0 < po_size ob \<and> po_size ob \<le> RecordingObjectMaxBytes
     \<and> (ends_with ''.m3u8'' (po_path ob) \<longrightarrow> po_size ob \<le> RecordingPlaylistMaxBytes) \<and> checksum_ok (po_sha ob)"

text \<open>The loop over the objects: each takes its path off the expected ones and adds to the sum.\<close>

fun take_objects :: "string list \<Rightarrow> package_object list \<Rightarrow> int \<Rightarrow> int result" where
  "take_objects expected [] acc = Ok acc"
| "take_objects expected (ob # obs) acc =
     (if po_path ob \<notin> set expected \<or> \<not> object_ok ob then Err ErrInvalidInput
      else if RecordingPackageMaxBytes < acc + po_size ob then Err ErrRecordingPackageTooLarge
      else take_objects (filter (\<lambda>p. p \<noteq> po_path ob) expected) obs (acc + po_size ob))"

definition inventory_head_ok :: "inventory \<Rightarrow> bool" where
  "inventory_head_ok iv \<longleftrightarrow> in_schema iv = 1 \<and> preset_version (in_preset iv)
     \<and> int (length (in_objects iv)) \<le> RecordingPackageMaxObjects
     \<and> 1 \<le> length (in_renditions iv) \<and> length (in_renditions iv) \<le> 3"

definition ValidateRecordingInventory :: "rec_env \<Rightarrow> inventory \<Rightarrow> int result" where
  "ValidateRecordingInventory e iv =
     (let expected = expected_paths (in_renditions iv); data = re_json e iv in
      if \<not> inventory_head_ok iv \<or> \<not> renditions_ok (in_preset iv) None [] (in_renditions iv)
         \<or> ''720p'' \<notin> rn_name ` set (in_renditions iv)
         \<or> length (in_objects iv) \<noteq> length (remdups expected)
         \<or> \<not> ladder_ok (in_renditions iv) \<or> RecordingInventoryMaxBytes < int (length data)
      then Err ErrInvalidInput
      else bindR (take_objects expected (in_objects iv) (int (length data))) (\<lambda>acc.
        if in_digest iv \<noteq> [] \<and> RecordingInventoryDigest e iv \<noteq> in_digest iv then Err ErrInvalidInput else Ok acc))"

text \<open>\<open>DecodeRecordingInventory\<close>: the JSON decoder, which refuses unknown fields and trailing text, is an argument.\<close>

definition DecodeRecordingInventory :: "rec_env \<Rightarrow> (string \<Rightarrow> inventory option) \<Rightarrow> string \<Rightarrow> inventory result" where
  "DecodeRecordingInventory e decode body =
     (if RecordingInventoryMaxBytes < int (length body) then Err ErrInvalidInput
      else case decode body of
        None \<Rightarrow> Err ErrInvalidInput
      | Some iv \<Rightarrow>
          if in_digest iv = [] then Err ErrInvalidInput
          else bindR (ValidateRecordingInventory e iv) (\<lambda>_. Ok iv))"

section \<open>What an accepted inventory is\<close>

definition object_bytes :: "'a package_object_scheme list \<Rightarrow> int" where
  "object_bytes obs = sum_list (map po_size obs)"

lemma object_bytes_simps [simp]: "object_bytes [] = 0" "object_bytes (ob # obs) = po_size ob + object_bytes obs"
  "object_bytes (obs @ obs') = object_bytes obs + object_bytes obs'"
  by (simp_all add: object_bytes_def)

lemma object_bytes_pos: "\<forall>ob\<in>set obs. object_ok ob \<Longrightarrow> 0 \<le> object_bytes obs"
  by (induction obs) (auto simp: object_ok_def)

lemma take_objects_iff:
  "take_objects expected obs acc = Ok n \<longleftrightarrow> distinct (map po_path obs) \<and> po_path ` set obs \<subseteq> set expected
     \<and> (\<forall>ob\<in>set obs. object_ok ob) \<and> n = acc + object_bytes obs \<and> (obs \<noteq> [] \<longrightarrow> n \<le> RecordingPackageMaxBytes)"
proof (induction obs arbitrary: expected acc)
  case Nil
  then show ?case by auto
next
  case (Cons ob obs)
  let ?ex = "filter (\<lambda>p. p \<noteq> po_path ob) expected"
  have sub: "po_path ` set obs \<subseteq> set ?ex \<longleftrightarrow> po_path ob \<notin> po_path ` set obs \<and> po_path ` set obs \<subseteq> set expected" by (auto simp: image_iff)
  show ?case
  proof (cases "po_path ob \<in> set expected \<and> object_ok ob \<and> (\<forall>ob\<in>set obs. object_ok ob)")
    case True
    then have "0 \<le> object_bytes obs" using object_bytes_pos by blast
    then show ?thesis using True Cons.IH [of ?ex "acc + po_size ob"] sub by (auto simp: add.assoc)
  next
    case False
    then show ?thesis using Cons.IH [of ?ex "acc + po_size ob"] by auto
  qed
qed

lemma renditions_ok_iff:
  "renditions_ok preset a seen rs \<longleftrightarrow> distinct (map rn_name rs) \<and> rn_name ` set rs \<inter> set seen = {}
     \<and> (\<forall>r\<in>set rs. rendition_ok preset r)
     \<and> (case a of None \<Rightarrow> (\<forall>r\<in>set (tl rs). same_timeline (hd rs) r) | Some f \<Rightarrow> (\<forall>r\<in>set rs. same_timeline f r))"
  by (induction rs arbitrary: a seen) (auto split: option.splits)

lemma same_timeline_refl: "rendition_ok preset r \<Longrightarrow> same_timeline r r"
  by (auto simp: same_timeline_def rendition_ok_def split: option.splits)

text \<open>The quality of a rendition by its name, and what the ladder asks of it.\<close>

definition quality :: "rendition \<Rightarrow> nat" where
  "quality r = (if rn_name r = ''480p'' then 0 else if rn_name r = ''720p'' then 1 else 2)"

lemma rendition_name: "rendition_ok preset r \<Longrightarrow> rn_name r = ''480p'' \<or> rn_name r = ''720p'' \<or> rn_name r = ''1080p''"
  by (auto simp: rendition_ok_def rendition_bounds_def split: if_splits)

lemma quality_below:
  assumes "rendition_below a b" "rendition_ok p a" "rendition_ok p b" "rn_name a \<noteq> rn_name b"
  shows "quality a < quality b"
  using assms rendition_name [of p a] rendition_name [of p b] by (auto simp: rendition_below_def quality_def)

lemma ladder_ordered:
  assumes "ladder_ok rs" "\<forall>r\<in>set rs. rendition_ok p r" "distinct (map rn_name rs)"
    and "a \<in> set rs" "b \<in> set rs" "quality a < quality b"
  shows "rn_height a < rn_height b \<and> rn_video a \<le> rn_video b"
proof -
  define ss where "ss = sort_key rn_height rs"
  have s: "successively rendition_below ss" "set ss = set rs" using assms(1) by (simp_all add: ladder_ok_def ss_def)
  have step: "rn_height x < rn_height y \<and> rn_video x \<le> rn_video y \<and> quality x < quality y" if "rendition_below x y" "x \<in> set rs" "y \<in> set rs" for x y
  proof -
    have "rn_name x \<noteq> rn_name y"
      using that assms(3) by (auto simp: distinct_map rendition_below_def dest: inj_onD)
    then show ?thesis using quality_below [OF that(1)] assms(2) that by (auto simp: rendition_below_def)
  qed
  let ?R = "\<lambda>x y. rn_height x < rn_height y \<and> rn_video x \<le> rn_video y \<and> quality x < quality y"
  have "successively ?R ss"
    by (rule successively_mono [OF s(1)]) (use step s(2) in auto)
  then have sorted: "sorted_wrt ?R ss" by (subst (asm) successively_iff_sorted_wrt_strong) (auto intro: order_less_trans)
  obtain i j where ij: "i < length ss" "ss ! i = a" "j < length ss" "ss ! j = b"
    using assms(4,5) s(2) by (metis in_set_conv_nth)
  consider "i < j" | "i = j" | "j < i" by linarith
  then show ?thesis
  proof cases
    case 1
    then show ?thesis using sorted_wrt_nth_less [OF sorted 1 ij(3)] ij by simp
  next
    case 2
    then show ?thesis using ij assms(6) by simp
  next
    case 3
    then show ?thesis using sorted_wrt_nth_less [OF sorted 3 ij(1)] ij assms(6) by simp
  qed
qed

text \<open>
  C38.  An accepted inventory is a closed graph: its objects are exactly the files its renditions name, each
  once and within its limits, the sum of all bytes with the inventory itself is the result and within the
  limit of a package, the renditions are distinct, share one frame rate and one duration up to a frame,
  and grow in height and bitrate with their quality, 720p among them; a digest belongs to the content.
\<close>

theorem inventory_closed:
  assumes "ValidateRecordingInventory e iv = Ok n"
  shows "po_path ` set (in_objects iv) = set (expected_paths (in_renditions iv)) \<and> distinct (map po_path (in_objects iv))
     \<and> (\<forall>ob\<in>set (in_objects iv). 0 < po_size ob \<and> po_size ob \<le> RecordingObjectMaxBytes \<and> checksum_ok (po_sha ob))
     \<and> n = int (length (re_json e iv)) + object_bytes (in_objects iv) \<and> n \<le> RecordingPackageMaxBytes
     \<and> distinct (map rn_name (in_renditions iv)) \<and> ''720p'' \<in> rn_name ` set (in_renditions iv)
     \<and> (\<forall>a\<in>set (in_renditions iv). \<forall>b\<in>set (in_renditions iv). rn_rate a = rn_rate b
          \<and> \<bar>rn_duration a - rn_duration (hd (in_renditions iv))\<bar> \<le> 1 / rn_rate a
          \<and> (quality a < quality b \<longrightarrow> rn_height a < rn_height b \<and> rn_video a \<le> rn_video b))
     \<and> (in_digest iv \<noteq> [] \<longrightarrow> RecordingInventoryDigest e iv = in_digest iv)"
proof -
  let ?ex = "expected_paths (in_renditions iv)" and ?rs = "in_renditions iv" and ?p = "in_preset iv"
  have c: "inventory_head_ok iv" "renditions_ok ?p None [] ?rs" "''720p'' \<in> rn_name ` set ?rs"
    "length (in_objects iv) = length (remdups ?ex)" "ladder_ok ?rs"
    "take_objects ?ex (in_objects iv) (int (length (re_json e iv))) = Ok n"
    "in_digest iv \<noteq> [] \<longrightarrow> RecordingInventoryDigest e iv = in_digest iv"
    using assms by (auto simp: ValidateRecordingInventory_def Let_def split: if_splits)
  have t: "distinct (map po_path (in_objects iv))" "po_path ` set (in_objects iv) \<subseteq> set ?ex" "\<forall>ob\<in>set (in_objects iv). object_ok ob"
    "n = int (length (re_json e iv)) + object_bytes (in_objects iv)" "in_objects iv \<noteq> [] \<longrightarrow> n \<le> RecordingPackageMaxBytes"
    using c(6) unfolding take_objects_iff by blast+
  have card: "card (po_path ` set (in_objects iv)) = length (in_objects iv)"
    using distinct_card [OF t(1)] by simp
  then have all: "po_path ` set (in_objects iv) = set ?ex"
    using card_subset_eq [OF _ t(2)] c(4) by (simp add: length_remdups_card_conv)
  then have "in_objects iv \<noteq> []" by (auto simp: expected_paths_def)
  then have le: "n \<le> RecordingPackageMaxBytes" using t(5) by simp
  have r: "distinct (map rn_name ?rs)" "\<forall>r\<in>set ?rs. rendition_ok ?p r" "\<forall>r\<in>set (tl ?rs). same_timeline (hd ?rs) r"
    using c(2) unfolding renditions_ok_iff by auto
  have ne: "?rs \<noteq> []" using c(1) by (auto simp: inventory_head_ok_def)
  then have same: "same_timeline (hd ?rs) r" if "r \<in> set ?rs" for r
    using r(2,3) that same_timeline_refl by (cases ?rs) auto
  then have rate: "rn_rate r = rn_rate (hd ?rs)" if "r \<in> set ?rs" for r using that by (simp add: same_timeline_def)
  show ?thesis
    using all t(1,3,4) le r(1) c(3,7) same rate ladder_ordered [OF c(5) r(2,1)]
    by (auto simp: object_ok_def same_timeline_def)
qed

definition demo_rec_env :: rec_env where
  "demo_rec_env = \<lparr>re_json = (\<lambda>iv. in_preset iv), re_sha256 = (\<lambda>s. s)\<rparr>"

definition demo_rendition :: rendition where
  "demo_rendition = \<lparr>rn_name = ''720p'', rn_width = 1280, rn_height = 720, rn_rate = 30, rn_video = 1500000, rn_audio = 128000,
     rn_duration = 25, rn_segments = 1\<rparr>"

definition demo_sha :: string where "demo_sha = replicate 64 CHR ''a''"

definition demo_object :: "string \<Rightarrow> int \<Rightarrow> package_object" where
  "demo_object path n = \<lparr>po_path = path, po_size = n, po_sha = demo_sha\<rparr>"

definition demo_inventory :: inventory where
  "demo_inventory = \<lparr>in_schema = 1, in_preset = ''v1'', in_objects = [demo_object ''master.m3u8'' 100, demo_object ''720p/index.m3u8'' 90,
     demo_object ''720p/init.mp4'' 800, demo_object ''720p/seg-000000.m4s'' 5000], in_renditions = [demo_rendition], in_digest = ''7631''\<rparr>"

lemma demo_checksum: "checksum_ok demo_sha"
  by code_simp

lemma demo_objects_taken:
  "take_objects (expected_paths [demo_rendition]) (in_objects demo_inventory) 2 = Ok 5992"
proof -
  have paths: "expected_paths [demo_rendition] = map po_path (in_objects demo_inventory)" by code_simp
  have ok: "list_all object_ok (in_objects demo_inventory)"
    using demo_checksum by (simp add: demo_inventory_def demo_object_def object_ok_def RecordingObjectMaxBytes_def RecordingPlaylistMaxBytes_def ends_with_def)
  have "distinct (map po_path (in_objects demo_inventory))" by code_simp
  moreover have "object_bytes (in_objects demo_inventory) = 5990" by (simp add: demo_inventory_def demo_object_def)
  ultimately show ?thesis unfolding take_objects_iff paths using ok by (auto simp: list_all_iff RecordingPackageMaxBytes_def)
qed

theorem inventory_closed_witness:
  "ValidateRecordingInventory demo_rec_env demo_inventory = Ok 5992 \<and> object_bytes (in_objects demo_inventory) = 5990"
proof -
  have parts: "inventory_head_ok demo_inventory" "renditions_ok (in_preset demo_inventory) None [] [demo_rendition]"
    "length (in_objects demo_inventory) = length (remdups (expected_paths [demo_rendition]))" "ladder_ok [demo_rendition]"
    "RecordingInventoryDigest demo_rec_env demo_inventory = ''7631''"
    by code_simp+
  have ok: "ValidateRecordingInventory demo_rec_env demo_inventory = Ok 5992"
    using parts demo_objects_taken
    by (simp add: ValidateRecordingInventory_def Let_def demo_rec_env_def demo_inventory_def demo_rendition_def RecordingInventoryMaxBytes_def)
  have "int (length (re_json demo_rec_env demo_inventory)) = 2" by code_simp
  then show ?thesis using inventory_closed [OF ok] ok by simp
qed

end
