(* ===== verification/Recording_Live.thy ===== *)
theory Recording_Live
  imports Recording_Inventory
begin

text \<open>
  The live half of a recording: \<open>recording_live.go\<close> and \<open>recording_broadcast_range.go\<close> of \<open>internal/assets\<close>.
  A batch of three decoded fragments, one per rendition, extends the common history; a broadcast range says
  which part of it members may watch.  A Go map is an association list with distinct keys.
\<close>

section \<open>The history\<close>

record live_validation =
  lv_init_etag :: string
  lv_segment_etag :: string
  lv_version :: string
  lv_init :: package_object
  lv_segment :: package_object

record live_fragment =
  fr_validation :: "live_validation option"
  fr_frames :: int
  fr_rate :: rat
  fr_start :: rat
  fr_end :: rat
  fr_codecs :: string

record live_segment =
  ls_sequence :: int
  ls_renditions :: "(string \<times> live_fragment) list"

definition LiveRenditions :: "rendition list" where
  "LiveRenditions = [
     \<lparr>rn_name = ''1080p'', rn_width = 1920, rn_height = 1080, rn_rate = 30, rn_video = 3000000, rn_audio = 128000, rn_duration = 0, rn_segments = 0\<rparr>,
     \<lparr>rn_name = ''720p'', rn_width = 1280, rn_height = 720, rn_rate = 30, rn_video = 1500000, rn_audio = 128000, rn_duration = 0, rn_segments = 0\<rparr>,
     \<lparr>rn_name = ''480p'', rn_width = 854, rn_height = 480, rn_rate = 30, rn_video = 800000, rn_audio = 128000, rn_duration = 0, rn_segments = 0\<rparr>]"

definition live_names :: "string list" where "live_names = map rn_name LiveRenditions"

text \<open>\<open>liveCodecs\<close>: \<open>avc1.\<close>, six hexadecimal digits and the AAC profile.\<close>

definition live_codecs :: "string \<Rightarrow> bool" where
  "live_codecs s \<longleftrightarrow> (let h = take 6 (drop 5 s) in length h = 6 \<and> list_all hex_char h \<and> s = ''avc1.'' @ h @ '',mp4a.40.2'')"

definition historicalLiveFrameRate :: "live_fragment \<Rightarrow> rat" where
  "historicalLiveFrameRate f = (if fr_rate f = 0 then 30 else fr_rate f)"

text \<open>A missing rendition of an old segment reads as the zero value.\<close>

definition no_fragment :: live_fragment where
  "no_fragment = \<lparr>fr_validation = None, fr_frames = 0, fr_rate = 0, fr_start = 0, fr_end = 0, fr_codecs = []\<rparr>"

definition fragment :: "live_segment \<Rightarrow> string \<Rightarrow> live_fragment" where
  "fragment s name = (case map_of (ls_renditions s) name of None \<Rightarrow> no_fragment | Some f \<Rightarrow> f)"

definition nominal :: "int \<Rightarrow> rat" where
  "nominal frames = (if frames = 300 then 1001 / 100 else 30)"

definition tolerance :: "live_fragment \<Rightarrow> rat" where
  "tolerance f = 1 / fr_rate f + 1 / 1000"

definition duration :: "live_fragment \<Rightarrow> rat" where
  "duration f = fr_end f - fr_start f"

definition fragment_ok :: "int \<Rightarrow> live_fragment \<Rightarrow> bool" where
  "fragment_ok frames v \<longleftrightarrow> (frames = 300 \<longrightarrow> fr_rate v = ntsc_rate \<and> 1 \<le> fr_frames v \<and> fr_frames v \<le> 300)
     \<and> (fr_rate v = 30 \<or> fr_rate v = ntsc_rate)
     \<and> 0 < duration v \<and> duration v \<le> nominal frames + tolerance v \<and> live_codecs (fr_codecs v)"

definition follows :: "int \<Rightarrow> live_segment list \<Rightarrow> string \<Rightarrow> live_fragment \<Rightarrow> bool" where
  "follows frames history name v \<longleftrightarrow>
     (if history = [] then - 1 / 10 \<le> fr_start v \<and> fr_start v \<le> 1 / 4
      else let p = last history; f = fragment p name in
        (frames = 300 \<longrightarrow> fr_frames f = 300) \<and> map_of (ls_renditions p) name \<noteq> None
        \<and> ls_sequence p = int (length history) - 1
        \<and> \<bar>fr_end f - fr_start v\<bar> \<le> tolerance v \<and> fr_codecs f = fr_codecs v \<and> historicalLiveFrameRate f = fr_rate v
        \<and> \<bar>duration f - nominal frames\<bar> \<le> tolerance v)"

definition within_duration :: "live_segment list \<Rightarrow> string \<Rightarrow> live_fragment \<Rightarrow> bool" where
  "within_duration history name v \<longleftrightarrow>
     fr_end v - (if history = [] then fr_start v else fr_start (fragment (hd history) name)) \<le> RecordingMaxDurationSeconds + 1 / 1000000"

definition aligned :: "live_fragment \<Rightarrow> live_fragment \<Rightarrow> bool" where
  "aligned r v \<longleftrightarrow> fr_rate v = fr_rate r \<and> \<bar>fr_start v - fr_start r\<bar> \<le> tolerance v \<and> \<bar>fr_end v - fr_end r\<bar> \<le> tolerance v"

definition too_short :: "int \<Rightarrow> live_fragment \<Rightarrow> bool" where
  "too_short frames v \<longleftrightarrow> duration v < nominal frames - tolerance v \<or> frames = 300 \<and> fr_frames v \<noteq> 300"

text \<open>The loop over the renditions: the first is the reference, a short fragment waits for the seal.\<close>

fun live_loop ::
  "int \<Rightarrow> live_segment list \<Rightarrow> (string \<times> live_fragment) list \<Rightarrow> bool \<Rightarrow> live_fragment option \<Rightarrow> bool \<Rightarrow> string list \<Rightarrow> bool result" where
  "live_loop frames history batch tail_ok ref waits [] = Ok waits"
| "live_loop frames history batch tail_ok ref waits (name # names) =
     (case map_of batch name of
        None \<Rightarrow> Err ErrCaptureMissingObjects
      | Some v \<Rightarrow>
          if \<not> fragment_ok frames v \<or> \<not> follows frames history name v \<or> \<not> within_duration history name v
             \<or> (case ref of None \<Rightarrow> False | Some r \<Rightarrow> \<not> aligned r v)
          then Err ErrInvalidUpload
          else live_loop frames history batch tail_ok (case ref of None \<Rightarrow> Some v | Some r \<Rightarrow> Some r)
                 (waits \<or> \<not> tail_ok \<and> too_short frames v) names)"

definition AppendLiveSegment ::
  "live_segment list \<Rightarrow> (string \<times> live_fragment) list \<Rightarrow> bool \<Rightarrow> int \<Rightarrow> live_segment list result" where
  "AppendLiveSegment history batch normalTail profile =
     (let frames = (if profile = 0 then 900 else profile) in
      if frames \<noteq> 900 \<and> frames \<noteq> 300 then Err ErrInvalidInput
      else if length batch \<noteq> 3 then Err ErrCaptureMissingObjects
      else if RecordingMaxSegments \<le> length history then Err ErrInvalidUpload
      else bindR (live_loop frames history batch normalTail None False live_names) (\<lambda>waits.
        if waits then Err ErrCaptureMissingObjects
        else Ok (history @ [\<lparr>ls_sequence = int (length history),
               ls_renditions = map (\<lambda>name. (name, the (map_of batch name))) live_names\<rparr>])))"

section \<open>Broadcast ranges\<close>

datatype member_state = MemberBlocked | MemberLive | MemberVod | MemberOther string

record broadcast_range =
  br_recording :: string
  br_epoch :: int
  br_revision :: int
  br_start :: "int option"
  br_end :: "int option"
  br_revoked :: bool
  br_state :: member_state

definition BroadcastMaxRevision :: int where "BroadcastMaxRevision = 9007199254740991"

definition sequence_ok :: "int option \<Rightarrow> bool" where
  "sequence_ok v \<longleftrightarrow> (case v of None \<Rightarrow> True | Some n \<Rightarrow> 0 \<le> n \<and> n \<le> 2147483647)"

definition range_wellformed :: "broadcast_range \<Rightarrow> bool" where
  "range_wellformed p \<longleftrightarrow> br_state p \<in> {MemberBlocked, MemberLive, MemberVod} \<and> captureUUID (br_recording p)
     \<and> 1 \<le> br_epoch p \<and> br_epoch p \<le> BroadcastMaxRevision \<and> 1 \<le> br_revision p \<and> br_revision p \<le> BroadcastMaxRevision
     \<and> sequence_ok (br_start p) \<and> sequence_ok (br_end p)
     \<and> (case br_end p of None \<Rightarrow> True | Some e \<Rightarrow> (case br_start p of None \<Rightarrow> False | Some s \<Rightarrow> s < e))"

definition ValidateBroadcastRangeChange :: "broadcast_range option \<Rightarrow> broadcast_range \<Rightarrow> unit result" where
  "ValidateBroadcastRangeChange current q =
     (if \<not> range_wellformed q then Err ErrInvalidInput
      else case current of
        None \<Rightarrow> Ok ()
      | Some p \<Rightarrow>
          if br_epoch q \<noteq> br_epoch p \<or> br_recording q \<noteq> br_recording p \<or> br_revision q < br_revision p then Err ErrConflict
          else if br_revision q = br_revision p then (if p = q then Ok () else Err ErrConflict)
          else if br_start p \<noteq> None \<and> br_start p \<noteq> br_start q \<or> br_end p \<noteq> None \<and> br_end p \<noteq> br_end q \<or> br_revoked p \<and> \<not> br_revoked q
          then Err ErrConflict
          else Ok ())"

datatype projection_state = ProjectionPending | ProjectionReady | ProjectionFailed

record projection =
  pj_epoch :: int
  pj_range_revision :: int
  pj_state :: projection_state
  pj_start :: "int option"
  pj_end :: "int option"
  pj_media_start :: "rat option"
  pj_duration :: "rat option"
  pj_revision :: int

definition BroadcastProjection :: "broadcast_range \<Rightarrow> live_segment list \<Rightarrow> int \<Rightarrow> bool \<Rightarrow> projection" where
  "BroadcastProjection p history revision ended =
     (let pending = \<lparr>pj_epoch = br_epoch p, pj_range_revision = br_revision p, pj_state = ProjectionPending, pj_start = br_start p,
            pj_end = br_end p, pj_media_start = None, pj_duration = None, pj_revision = max 1 revision\<rparr>
      in if br_revoked p then pending\<lparr>pj_state := ProjectionFailed\<rparr>
         else case br_start p of
           None \<Rightarrow> pending
         | Some s \<Rightarrow>
             let n = int (length history); e = (case br_end p of None \<Rightarrow> n | Some e \<Rightarrow> e) in
             if n \<le> s \<or> n < e then (if ended then pending\<lparr>pj_state := ProjectionFailed\<rparr> else pending)
             else if e \<le> s then pending\<lparr>pj_state := ProjectionFailed\<rparr>
             else let origin = fr_start (fragment (history ! nat s) ''1080p'') in
               pending\<lparr>pj_media_start := Some origin,
                       pj_duration := Some (fr_end (fragment (history ! nat (e - 1)) ''1080p'') - origin),
                       pj_state := ProjectionReady\<rparr>)"

section \<open>The timeline\<close>

text \<open>The histories that batches build, each accepted with or without the right to be the tail.\<close>

inductive live_history :: "int \<Rightarrow> live_segment list \<Rightarrow> bool" for profile where
  empty: "live_history profile []"
| append: "live_history profile h \<Longrightarrow> AppendLiveSegment h batch tail_ok profile = Ok h' \<Longrightarrow> live_history profile h'"

definition profile_frames :: "int \<Rightarrow> int" where
  "profile_frames profile = (if profile = 0 then 900 else profile)"

lemma live_names_eq: "live_names = [''1080p'', ''720p'', ''480p'']"
  by (simp add: live_names_def LiveRenditions_def)

lemma live_loop_Ok:
  assumes "live_loop frames h batch tail_ok ref waits names = Ok w"
  shows "\<forall>name\<in>set names. \<exists>v. map_of batch name = Some v \<and> fragment_ok frames v \<and> follows frames h name v \<and> within_duration h name v
      \<and> (case ref of None \<Rightarrow> True | Some r \<Rightarrow> aligned r v) \<and> (\<not> w \<and> \<not> tail_ok \<longrightarrow> \<not> too_short frames v)"
    and "w \<or> \<not> waits"
    and "case (ref, names) of (None, m # ms) \<Rightarrow> (\<forall>name\<in>set ms. aligned (the (map_of batch m)) (the (map_of batch name))) | _ \<Rightarrow> True"
proof -
  have "(\<forall>name\<in>set names. \<exists>v. map_of batch name = Some v \<and> fragment_ok frames v \<and> follows frames h name v \<and> within_duration h name v
      \<and> (case ref of None \<Rightarrow> True | Some r \<Rightarrow> aligned r v) \<and> (\<not> w \<and> \<not> tail_ok \<longrightarrow> \<not> too_short frames v)) \<and> (w \<or> \<not> waits)"
    if "live_loop frames h batch tail_ok ref waits names = Ok w" for names ref waits
    using that by (induction names arbitrary: ref waits) (fastforce split: option.splits if_splits)+
  note all = this
  show "\<forall>name\<in>set names. \<exists>v. map_of batch name = Some v \<and> fragment_ok frames v \<and> follows frames h name v \<and> within_duration h name v
      \<and> (case ref of None \<Rightarrow> True | Some r \<Rightarrow> aligned r v) \<and> (\<not> w \<and> \<not> tail_ok \<longrightarrow> \<not> too_short frames v)" "w \<or> \<not> waits"
    using all [OF assms] by blast+
  show "case (ref, names) of (None, m # ms) \<Rightarrow> (\<forall>name\<in>set ms. aligned (the (map_of batch m)) (the (map_of batch name))) | _ \<Rightarrow> True"
  proof (cases ref)
    case None
    show ?thesis
    proof (cases names)
      case (Cons m ms)
      then obtain v where v: "map_of batch m = Some v" "live_loop frames h batch tail_ok (Some v) (waits \<or> \<not> tail_ok \<and> too_short frames v) ms = Ok w"
        using assms None by (auto split: option.splits if_splits)
      show ?thesis using all [OF v(2)] v(1) None Cons by fastforce
    qed (simp add: None)
  qed simp
qed

lemma AppendLiveSegment_Ok:
  assumes "AppendLiveSegment h batch tail_ok profile = Ok h'"
  obtains s where "h' = h @ [s]" "ls_sequence s = int (length h)" "length h < RecordingMaxSegments"
    "profile_frames profile = 900 \<or> profile_frames profile = 300"
    "\<And>name. name \<in> set live_names \<Longrightarrow> fragment_ok (profile_frames profile) (fragment s name) \<and> follows (profile_frames profile) h name (fragment s name)
        \<and> within_duration h name (fragment s name) \<and> map_of (ls_renditions s) name = Some (fragment s name)
        \<and> (tail_ok \<or> \<not> too_short (profile_frames profile) (fragment s name))"
    "aligned (fragment s ''1080p'') (fragment s ''720p'')" "aligned (fragment s ''1080p'') (fragment s ''480p'')"
proof -
  let ?f = "profile_frames profile"
  define s where "s = \<lparr>ls_sequence = int (length h), ls_renditions = map (\<lambda>name. (name, the (map_of batch name))) live_names\<rparr>"
  have a: "?f = 900 \<or> ?f = 300" "length h < RecordingMaxSegments" "live_loop ?f h batch tail_ok None False live_names = Ok False" "h' = h @ [s]"
    using assms by (auto simp: AppendLiveSegment_def Let_def profile_frames_def s_def split: if_splits)
  have frag: "map_of (ls_renditions s) name = Some (the (map_of batch name))" if "name \<in> set live_names" for name
    using that by (auto simp: s_def live_names_eq)
  then have eq: "fragment s name = the (map_of batch name)" if "name \<in> set live_names" for name
    using that by (simp add: fragment_def)
  show thesis
    using that [OF a(4) _ a(2,1)] live_loop_Ok(1,3) [OF a(3)] frag eq by (fastforce simp: s_def live_names_eq)
qed

text \<open>The step from one fragment of a rendition to the next.\<close>

definition continues :: "int \<Rightarrow> live_fragment \<Rightarrow> live_fragment \<Rightarrow> bool" where
  "continues frames f v \<longleftrightarrow> \<bar>fr_end f - fr_start v\<bar> \<le> tolerance v \<and> \<bar>duration f - nominal frames\<bar> \<le> tolerance v
     \<and> fr_codecs v = fr_codecs f \<and> fr_rate v = fr_rate f"

definition timeline_ok :: "int \<Rightarrow> live_segment list \<Rightarrow> bool" where
  "timeline_ok frames h \<longleftrightarrow> length h \<le> RecordingMaxSegments
     \<and> (\<forall>i<length h. ls_sequence (h ! i) = int i
         \<and> aligned (fragment (h ! i) ''1080p'') (fragment (h ! i) ''720p'') \<and> aligned (fragment (h ! i) ''1080p'') (fragment (h ! i) ''480p''))
     \<and> (\<forall>name\<in>set live_names. (\<forall>i<length h. fragment_ok frames (fragment (h ! i) name)
            \<and> fr_end (fragment (h ! i) name) - fr_start (fragment (h ! 0) name) \<le> RecordingMaxDurationSeconds + 1 / 1000000)
         \<and> (\<forall>i. Suc i < length h \<longrightarrow> continues frames (fragment (h ! i) name) (fragment (h ! Suc i) name)))"

lemma fragment_ok_rate: "fragment_ok frames v \<Longrightarrow> historicalLiveFrameRate v = fr_rate v"
  by (auto simp: fragment_ok_def historicalLiveFrameRate_def ntsc_rate_def)

lemma timeline_append:
  assumes t: "timeline_ok (profile_frames profile) h" and run: "AppendLiveSegment h batch tail_ok profile = Ok h'"
  shows "timeline_ok (profile_frames profile) h'"
proof -
  obtain s where s: "h' = h @ [s]" "ls_sequence s = int (length h)" "length h < RecordingMaxSegments"
    and each: "\<And>name. name \<in> set live_names \<Longrightarrow> fragment_ok (profile_frames profile) (fragment s name)
        \<and> follows (profile_frames profile) h name (fragment s name) \<and> within_duration h name (fragment s name)"
    and al: "aligned (fragment s ''1080p'') (fragment s ''720p'')" "aligned (fragment s ''1080p'') (fragment s ''480p'')"
    by (rule AppendLiveSegment_Ok [OF run]) blast
  let ?F = "profile_frames profile"
  have i: "i < length h' \<longleftrightarrow> i < length h \<or> i = length h" for i using s(1) by auto
  have fst': "h' ! 0 = (if h = [] then s else hd h)" using s(1) by (cases h) auto
  have cont: "continues ?F (fragment (h' ! i) name) (fragment (h' ! Suc i) name)" if "name \<in> set live_names" "Suc i < length h'" for name i
  proof (cases "Suc i < length h")
    case True
    then show ?thesis using t that s(1) by (simp add: timeline_ok_def nth_append)
  next
    case False
    then have l: "length h = Suc i" using that(2) s(1) by simp
    then have ne: "h \<noteq> []" by auto
    then have h: "h \<noteq> []" "last h = h ! i" using l by (simp_all add: last_conv_nth)
    have "fragment_ok ?F (fragment (h ! i) name)" using t that(1) l by (simp add: timeline_ok_def)
    then show ?thesis using each [OF that(1)] h l s(1) fragment_ok_rate
      by (auto simp: follows_def continues_def Let_def nth_append)
  qed
  have within: "fr_end (fragment (h' ! i) name) - fr_start (fragment (h' ! 0) name) \<le> RecordingMaxDurationSeconds + 1 / 1000000"
    if "name \<in> set live_names" "i < length h'" for name i
  proof (cases "i < length h")
    case True
    then have "h \<noteq> []" by auto
    then show ?thesis using t that True s(1) by (simp add: timeline_ok_def nth_append)
  next
    case False
    then have "h' ! i = s" using that(2) s(1) by (simp add: nth_append)
    then show ?thesis using each [OF that(1)] fst' by (auto simp: within_duration_def split: if_splits)
  qed
  have fok: "fragment_ok ?F (fragment (h' ! i) name)" if "name \<in> set live_names" "i < length h'" for name i
    using that each [OF that(1)] t s(1) by (cases "i < length h") (simp_all add: timeline_ok_def nth_append)
  show ?thesis unfolding timeline_ok_def
  proof (intro conjI)
    show "length h' \<le> RecordingMaxSegments" using s by simp
    show "\<forall>i<length h'. ls_sequence (h' ! i) = int i
         \<and> aligned (fragment (h' ! i) ''1080p'') (fragment (h' ! i) ''720p'') \<and> aligned (fragment (h' ! i) ''1080p'') (fragment (h' ! i) ''480p'')"
      using t s al by (auto simp: timeline_ok_def nth_append)
    show "\<forall>name\<in>set live_names. (\<forall>i<length h'. fragment_ok ?F (fragment (h' ! i) name)
            \<and> fr_end (fragment (h' ! i) name) - fr_start (fragment (h' ! 0) name) \<le> RecordingMaxDurationSeconds + 1 / 1000000)
         \<and> (\<forall>i. Suc i < length h' \<longrightarrow> continues ?F (fragment (h' ! i) name) (fragment (h' ! Suc i) name))"
      using cont within fok by blast
  qed
qed

lemma live_history_timeline: "live_history profile h \<Longrightarrow> timeline_ok (profile_frames profile) h"
  by (induction rule: live_history.induct) (simp_all add: timeline_ok_def [of _ "[]"] timeline_append)

lemma tolerance_bounds:
  assumes "fragment_ok frames v"
  shows "0 < tolerance v" "tolerance v < 1 / 10"
proof -
  have "fr_rate v = 30 \<or> fr_rate v = 30000 / 1001" using assms unfolding fragment_ok_def ntsc_rate_def by blast
  then have "1 / fr_rate v = 1 / 30 \<or> 1 / fr_rate v = 1001 / 30000" by (elim disjE) (simp_all only:, simp_all)
  then show "0 < tolerance v" "tolerance v < 1 / 10" by (auto simp: tolerance_def)
qed

lemma starts_grow:
  assumes t: "timeline_ok frames h" and name: "name \<in> set live_names"
  shows "i \<le> j \<Longrightarrow> j < length h \<Longrightarrow> fr_start (fragment (h ! i) name) \<le> fr_start (fragment (h ! j) name)"
proof (induction j)
  case (Suc j)
  show ?case
  proof (cases "i = Suc j")
    case False
    let ?f = "fragment (h ! j) name" and ?v = "fragment (h ! Suc j) name"
    have c: "continues frames ?f ?v" "fragment_ok frames ?v" using t name Suc.prems(2) by (simp_all add: timeline_ok_def)
    have "10 \<le> nominal frames" by (simp add: nominal_def)
    moreover have "fr_end ?f - fr_start ?v \<le> tolerance ?v" "nominal frames - duration ?f \<le> tolerance ?v"
      using c(1) unfolding continues_def by (simp_all add: abs_le_iff)
    ultimately have "fr_start ?f \<le> fr_start ?v" using tolerance_bounds [OF c(2)] by (simp add: duration_def)
    then show ?thesis using Suc False by simp
  qed simp
qed simp

text \<open>
  C39.  The common history of a live recording is a timeline: its segments are numbered without a gap, at most
  4,320 of them, and in every rendition each fragment starts where the one before ended and every fragment but
  the last has the nominal length, up to a frame and a millisecond; codecs and frame rate never change, the
  renditions run within a frame of each other, and nothing goes past twelve hours.  A broadcast range that is
  ready lies within the history, and what members may watch of it has a positive length within these hours.
\<close>

theorem live_timeline_sound:
  assumes "live_history profile h"
  shows "length h \<le> RecordingMaxSegments
     \<and> (\<forall>i<length h. ls_sequence (h ! i) = int i
          \<and> aligned (fragment (h ! i) ''1080p'') (fragment (h ! i) ''720p'') \<and> aligned (fragment (h ! i) ''1080p'') (fragment (h ! i) ''480p'')
          \<and> (\<forall>name\<in>set live_names. 0 < duration (fragment (h ! i) name)
               \<and> fr_end (fragment (h ! i) name) - fr_start (fragment (h ! 0) name) \<le> RecordingMaxDurationSeconds + 1 / 1000000
               \<and> (Suc i < length h \<longrightarrow> continues (profile_frames profile) (fragment (h ! i) name) (fragment (h ! Suc i) name))))
     \<and> (pj_state (BroadcastProjection p h revision ended) = ProjectionReady \<and> range_wellformed p \<longrightarrow>
          (\<exists>s e d. br_start p = Some s \<and> 0 \<le> s \<and> s < e \<and> e \<le> int (length h) \<and> (br_end p = None \<or> br_end p = Some e)
             \<and> pj_media_start (BroadcastProjection p h revision ended) = Some (fr_start (fragment (h ! nat s) ''1080p''))
             \<and> pj_duration (BroadcastProjection p h revision ended) = Some d
             \<and> 0 < d \<and> d \<le> RecordingMaxDurationSeconds + 1 / 1000000))"
proof -
  have t: "timeline_ok (profile_frames profile) h" by (rule live_history_timeline [OF assms])
  have pos: "0 < duration (fragment (h ! i) name)" if "i < length h" "name \<in> set live_names" for i name
    using t that by (auto simp: timeline_ok_def fragment_ok_def)
  have window: "0 < d \<and> d \<le> RecordingMaxDurationSeconds + 1 / 1000000"
    if "0 \<le> s" "s < e" "e \<le> int (length h)" "d = fr_end (fragment (h ! nat (e - 1)) ''1080p'') - fr_start (fragment (h ! nat s) ''1080p'')" for s e d
  proof -
    have i: "nat s \<le> nat (e - 1)" "nat (e - 1) < length h" "nat s < length h" "''1080p'' \<in> set live_names" using that by (auto simp: live_names_eq)
    have "fr_start (fragment (h ! 0) ''1080p'') \<le> fr_start (fragment (h ! nat s) ''1080p'')"
      "fr_start (fragment (h ! nat s) ''1080p'') \<le> fr_start (fragment (h ! nat (e - 1)) ''1080p'')"
      using starts_grow [OF t i(4)] i by simp_all
    moreover have "fr_end (fragment (h ! nat (e - 1)) ''1080p'') - fr_start (fragment (h ! 0) ''1080p'') \<le> RecordingMaxDurationSeconds + 1 / 1000000"
      using t i(2,4) by (simp add: timeline_ok_def)
    ultimately show ?thesis using pos [OF i(2,4)] that(4) by (simp add: duration_def)
  qed
  have ready: "\<exists>s e d. br_start p = Some s \<and> 0 \<le> s \<and> s < e \<and> e \<le> int (length h) \<and> (br_end p = None \<or> br_end p = Some e)
             \<and> pj_media_start (BroadcastProjection p h revision ended) = Some (fr_start (fragment (h ! nat s) ''1080p''))
             \<and> pj_duration (BroadcastProjection p h revision ended) = Some d
             \<and> 0 < d \<and> d \<le> RecordingMaxDurationSeconds + 1 / 1000000"
    if r: "pj_state (BroadcastProjection p h revision ended) = ProjectionReady" and wf: "range_wellformed p"
  proof -
    obtain s where s: "br_start p = Some s" "\<not> br_revoked p" using r by (auto simp: BroadcastProjection_def Let_def split: if_splits option.splits)
    define e where "e = (case br_end p of None \<Rightarrow> int (length h) | Some e \<Rightarrow> e)"
    have "0 \<le> s" using wf s(1) by (simp add: range_wellformed_def sequence_ok_def)
    moreover have "s < e" "e \<le> int (length h)" "br_end p = None \<or> br_end p = Some e"
      using r s by (auto simp: BroadcastProjection_def Let_def e_def split: if_splits option.splits)
    moreover have "pj_media_start (BroadcastProjection p h revision ended) = Some (fr_start (fragment (h ! nat s) ''1080p''))"
      "pj_duration (BroadcastProjection p h revision ended) = Some (fr_end (fragment (h ! nat (e - 1)) ''1080p'') - fr_start (fragment (h ! nat s) ''1080p''))"
      using r s by (auto simp: BroadcastProjection_def Let_def e_def split: if_splits option.splits)
    ultimately show ?thesis using s(1) window by blast
  qed
  show ?thesis using t pos ready unfolding timeline_ok_def by blast
qed

definition demo_fragment :: "rat \<Rightarrow> rat \<Rightarrow> live_fragment" where
  "demo_fragment a b = \<lparr>fr_validation = None, fr_frames = 900, fr_rate = 30, fr_start = a, fr_end = b, fr_codecs = ''avc1.64001f,mp4a.40.2''\<rparr>"

definition demo_batch :: "rat \<Rightarrow> rat \<Rightarrow> (string \<times> live_fragment) list" where
  "demo_batch a b = map (\<lambda>name. (name, demo_fragment a b)) live_names"

definition demo_history :: "live_segment list" where
  "demo_history = [\<lparr>ls_sequence = 0, ls_renditions = demo_batch 0 30\<rparr>, \<lparr>ls_sequence = 1, ls_renditions = demo_batch 30 45\<rparr>]"

definition demo_range :: broadcast_range where
  "demo_range = \<lparr>br_recording = ''0a1b2c3d-0000-1111-2222-333344445555'', br_epoch = 1, br_revision = 2, br_start = Some 0, br_end = Some 2,
     br_revoked = False, br_state = MemberLive\<rparr>"

lemma demo_history_built: "live_history 900 demo_history"
proof -
  have "live_history 900 []" by (rule live_history.empty)
  moreover have "AppendLiveSegment [] (demo_batch 0 30) False 900 = Ok [hd demo_history]" by code_simp
  ultimately have "live_history 900 [hd demo_history]" by (rule live_history.append)
  moreover have "AppendLiveSegment [hd demo_history] (demo_batch 30 45) True 900 = Ok demo_history" by code_simp
  ultimately show ?thesis by (rule live_history.append)
qed

theorem live_timeline_sound_witness:
  "length demo_history = 2 \<and> AppendLiveSegment demo_history (demo_batch 45 75) True 900 = Err ErrInvalidUpload
   \<and> pj_state (BroadcastProjection demo_range demo_history 3 True) = ProjectionReady
   \<and> (\<exists>d. pj_duration (BroadcastProjection demo_range demo_history 3 True) = Some d \<and> 0 < d)"
proof -
  have 1: "length demo_history = 2 \<and> AppendLiveSegment demo_history (demo_batch 45 75) True 900 = Err ErrInvalidUpload" by code_simp
  have 2: "pj_state (BroadcastProjection demo_range demo_history 3 True) = ProjectionReady" "range_wellformed demo_range" by code_simp+
  then have "\<exists>d. pj_duration (BroadcastProjection demo_range demo_history 3 True) = Some d \<and> 0 < d"
    using live_timeline_sound [OF demo_history_built, of demo_range 3 True] by blast
  then show ?thesis using 1 2(1) by blast
qed

end
