(* ===== verification/Object_Authority.thy ===== *)
theory Object_Authority
  imports Recording_Live
begin

text \<open>
  Objects in R2 that several workers advance, \<open>internal/storage/r2/broadcast.go\<close> and \<open>live.go\<close>: the scope of
  a broadcast and the pointer to the published part of a live recording.  Both are replaced by a conditional
  PUT that is retried three times; what other writers do between the GET and the PUT, and what the network
  does to either request, are arguments.  The JSON of an object stands as the value it reads back to.
\<close>

section \<open>An object under conditional replacement\<close>

record 'v cell =
  ce_value :: 'v
  ce_etag :: nat

datatype net_outcome = Reachable | ReadFails go_error | WriteFails bool go_error

definition ErrLiveConflict :: go_error where "ErrLiveConflict = ErrOther ''live pointer conflict''"

definition etag_of :: "'v cell option \<Rightarrow> nat option" where "etag_of cell = map_option ce_etag cell"

text \<open>What a decision says about the stored value: an error, nothing to do, or replace it.\<close>

type_synonym 'v decision = "'v option \<Rightarrow> 'v \<Rightarrow> bool result"

fun put_loop ::
  "'v decision \<Rightarrow> (nat \<Rightarrow> 'v cell option \<Rightarrow> 'v cell option) \<Rightarrow> (nat \<Rightarrow> net_outcome) \<Rightarrow> (nat \<Rightarrow> nat) \<Rightarrow> nat \<Rightarrow> 'v
     \<Rightarrow> 'v cell option \<Rightarrow> unit result \<times> 'v cell option" where
  "put_loop decide world net fresh 0 v cell = (Err ErrLiveConflict, cell)"
| "put_loop decide world net fresh (Suc k) v cell =
     (case net k of
        ReadFails e \<Rightarrow> (Err e, cell)
      | out \<Rightarrow>
          (case decide (map_option ce_value cell) v of
             Inl e \<Rightarrow> (Err e, cell)
           | Inr False \<Rightarrow> (Ok (), cell)
           | Inr True \<Rightarrow>
               let cell' = world k cell; written = Some \<lparr>ce_value = v, ce_etag = fresh k\<rparr>; met = (etag_of cell' = etag_of cell) in
               (case out of
                  WriteFails took e \<Rightarrow> (Err e, if took \<and> met then written else cell')
                | _ \<Rightarrow> if met then (Ok (), written) else put_loop decide world net fresh k v cell')))"

definition RecordingPutAttempts :: nat where "RecordingPutAttempts = 3"

text \<open>
  The contract of such a decision: values are ordered, a replacement goes up, and a value that is not written
  is covered by the stored one.  Writers that keep the order and change the entity tag with every value then
  never lose an update and never take one back.
\<close>

locale authority =
  fixes le :: "'v \<Rightarrow> 'v \<Rightarrow> bool" and decide :: "'v decision"
  assumes refl: "le x x"
    and trans: "le x y \<Longrightarrow> le y z \<Longrightarrow> le x z"
    and replaces: "decide (Some p) v = Ok True \<Longrightarrow> le p v"
    and covered: "decide (Some p) v = Ok False \<Longrightarrow> le v p"
    and creates: "decide None v = Ok b \<Longrightarrow> b"
begin

definition grown :: "'v cell option \<Rightarrow> 'v cell option \<Rightarrow> bool" where
  "grown c c' \<longleftrightarrow> (case c of None \<Rightarrow> True | Some a \<Rightarrow> (case c' of None \<Rightarrow> False | Some b \<Rightarrow> le (ce_value a) (ce_value b)))"

definition fair :: "(nat \<Rightarrow> 'v cell option \<Rightarrow> 'v cell option) \<Rightarrow> bool" where
  "fair world \<longleftrightarrow> (\<forall>k c. grown c (world k c) \<and> (etag_of (world k c) = etag_of c \<longrightarrow> world k c = c))"

lemma grown_refl: "grown c c"
  using refl by (auto simp: grown_def split: option.splits)

lemma grown_trans: "grown a b \<Longrightarrow> grown b c \<Longrightarrow> grown a c"
  using trans by (auto simp: grown_def split: option.splits)

lemma put_loop_grows:
  assumes "fair world"
  shows "grown cell (snd (put_loop decide world net fresh k v cell))
     \<and> (fst (put_loop decide world net fresh k v cell) = Ok () \<longrightarrow>
          (\<exists>c. snd (put_loop decide world net fresh k v cell) = Some c \<and> le v (ce_value c)))"
proof (induction k arbitrary: cell)
  case 0
  then show ?case by (simp add: grown_refl)
next
  case (Suc k)
  let ?w = "Some \<lparr>ce_value = v, ce_etag = fresh k\<rparr>"
  have w: "grown cell (world k cell)" "etag_of (world k cell) = etag_of cell \<Longrightarrow> world k cell = cell"
    using assms by (auto simp: fair_def)
  have up: "grown cell ?w" if "decide (map_option ce_value cell) v = Ok True"
    using that replaces by (cases cell) (auto simp: grown_def)
  have down: "\<exists>c. cell = Some c \<and> le v (ce_value c)" if "decide (map_option ce_value cell) v = Ok False"
    using that covered creates by (cases cell) auto
  have rest: "grown cell (snd (put_loop decide world net fresh k v (world k cell)))"
    using grown_trans [OF w(1)] Suc.IH by blast
  show ?case
    using up down rest w Suc.IH [of "world k cell"] grown_refl refl
    by (auto simp: Let_def split: net_outcome.splits sum.splits bool.splits)
qed

end

section \<open>The scope of a broadcast\<close>

definition sourceAttemptID :: "string \<Rightarrow> bool" where
  "sourceAttemptID s \<longleftrightarrow> length s = 32 \<and> list_all (\<lambda>c. hex_char c \<and> (of_char c :: nat) \<notin> {65..70}) s"

definition validateBroadcastRangeChange :: "broadcast_range option \<Rightarrow> broadcast_range \<Rightarrow> unit result" where
  "validateBroadcastRangeChange current q =
     (if \<not> range_wellformed q then Err ErrLiveConflict
      else case current of
        None \<Rightarrow> Ok ()
      | Some p \<Rightarrow>
          if br_recording p \<noteq> br_recording q \<or> br_epoch p \<noteq> br_epoch q \<or> br_revision q < br_revision p
             \<or> br_revision q = br_revision p \<and> p \<noteq> q \<or> br_start p \<noteq> None \<and> br_start p \<noteq> br_start q
             \<or> br_end p \<noteq> None \<and> br_end p \<noteq> br_end q \<or> br_revoked p \<and> \<not> br_revoked q
          then Err ErrLiveConflict else Ok ())"

text \<open>The object as it reads back: \<open>parseBroadcastRange\<close> refuses a scope that is not well-formed.\<close>

definition parseBroadcastRange :: "broadcast_range \<Rightarrow> broadcast_range result" where
  "parseBroadcastRange p = (if range_wellformed p then Ok p else Err (ErrOther ''invalid broadcast authority''))"

definition ReadBroadcastRange :: "string \<Rightarrow> broadcast_range cell option \<Rightarrow> broadcast_range result" where
  "ReadBroadcastRange i cell =
     (if \<not> sourceAttemptID i then Err ErrLiveConflict
      else case cell of None \<Rightarrow> Err (ErrOther ''NoSuchKey'') | Some c \<Rightarrow> parseBroadcastRange (ce_value c))"

definition decide_range :: "broadcast_range decision" where
  "decide_range stored q =
     (case stored of
        None \<Rightarrow> Ok True
      | Some s \<Rightarrow> bindR (parseBroadcastRange s) (\<lambda>p. bindR (validateBroadcastRangeChange (Some p) q) (\<lambda>_.
          Ok (br_revision p \<noteq> br_revision q))))"

definition PutBroadcastRange ::
  "(nat \<Rightarrow> broadcast_range cell option \<Rightarrow> broadcast_range cell option) \<Rightarrow> (nat \<Rightarrow> net_outcome) \<Rightarrow> (nat \<Rightarrow> nat) \<Rightarrow> string
     \<Rightarrow> broadcast_range \<Rightarrow> broadcast_range cell option \<Rightarrow> unit result \<times> broadcast_range cell option" where
  "PutBroadcastRange world net fresh i q cell =
     (case bindR (parseBroadcastRange q) (\<lambda>_. if \<not> sourceAttemptID i then Err ErrLiveConflict else validateBroadcastRangeChange None q) of
        Inl e \<Rightarrow> (Err e, cell)
      | Inr _ \<Rightarrow> put_loop decide_range world net fresh RecordingPutAttempts q cell)"

text \<open>Scopes only narrow: the bounds stay once they are set, a revocation stays.\<close>

definition narrows :: "broadcast_range \<Rightarrow> broadcast_range \<Rightarrow> bool" where
  "narrows p q \<longleftrightarrow> br_recording q = br_recording p \<and> br_epoch q = br_epoch p
     \<and> (br_revision p < br_revision q \<or> p = q)
     \<and> (br_start p = None \<or> br_start p = br_start q) \<and> (br_end p = None \<or> br_end p = br_end q)
     \<and> (br_revoked p \<longrightarrow> br_revoked q)"

lemma narrows_refl [simp]: "narrows p p" by (simp add: narrows_def)

lemma narrows_trans: "narrows p q \<Longrightarrow> narrows q r \<Longrightarrow> narrows p r"
  unfolding narrows_def by auto

lemma range_change_narrows: "ValidateBroadcastRangeChange (Some p) q = Ok () \<longleftrightarrow> range_wellformed q \<and> narrows p q"
proof (cases "br_revision p < br_revision q")
  case True
  then show ?thesis by (simp add: ValidateBroadcastRangeChange_def narrows_def conj_commute disj_commute) blast
next
  case False
  then have "br_revision q < br_revision p \<or> br_revision q = br_revision p" by linarith
  then show ?thesis using False by (cases "p = q") (auto simp only: ValidateBroadcastRangeChange_def narrows_def if_True if_False simp_thms option.case split: if_splits)
qed

lemma authority_change_narrows: "validateBroadcastRangeChange (Some p) q = Ok () \<longleftrightarrow> range_wellformed q \<and> narrows p q"
proof (cases "br_revision p < br_revision q")
  case True
  then show ?thesis by (simp add: validateBroadcastRangeChange_def narrows_def conj_commute disj_commute) blast
next
  case False
  then have "br_revision q < br_revision p \<or> br_revision q = br_revision p" by linarith
  then show ?thesis using False by (cases "p = q") (auto simp only: validateBroadcastRangeChange_def narrows_def if_True if_False simp_thms option.case split: if_splits)
qed

interpretation scope: authority narrows decide_range
proof
  show "narrows x z" if "narrows x y" "narrows y z" for x y z using that by (rule narrows_trans)
  show "narrows p v" if "decide_range (Some p) v = Ok True" for p v
    using that authority_change_narrows [of p v] by (auto simp: decide_range_def parseBroadcastRange_def split: if_splits)
  show "narrows v p" if "decide_range (Some p) v = Ok False" for p v
  proof -
    have "narrows p v" "br_revision p = br_revision v"
      using that authority_change_narrows [of p v] by (auto simp: decide_range_def parseBroadcastRange_def split: if_splits)
    then show ?thesis by (auto simp: narrows_def)
  qed
  show "b" if "decide_range None v = Ok b" for v b using that by (simp add: decide_range_def)
qed simp

section \<open>The pointer of a live recording\<close>

record live_pointer =
  lp_revision :: int
  lp_sequence :: int

definition pointer_ok :: "live_pointer \<Rightarrow> bool" where
  "pointer_ok p \<longleftrightarrow> 1 \<le> lp_revision p \<and> lp_revision p \<le> 4321 \<and> 0 \<le> lp_sequence p \<and> lp_sequence p \<le> 4319"

definition decide_pointer :: "live_pointer decision" where
  "decide_pointer stored q =
     (case stored of
        None \<Rightarrow> Ok True
      | Some p \<Rightarrow>
          if \<not> pointer_ok p then Err (ErrOther ''invalid stored live pointer'')
          else if lp_revision q \<le> lp_revision p
          then (if lp_sequence p < lp_sequence q \<or> lp_revision p = lp_revision q \<and> lp_sequence p \<noteq> lp_sequence q
                then Err ErrLiveConflict else Ok False)
          else if lp_sequence q < lp_sequence p then Err ErrLiveConflict
          else Ok True)"

definition AdvanceLivePointer ::
  "(nat \<Rightarrow> live_pointer cell option \<Rightarrow> live_pointer cell option) \<Rightarrow> (nat \<Rightarrow> net_outcome) \<Rightarrow> (nat \<Rightarrow> nat) \<Rightarrow> string
     \<Rightarrow> live_pointer \<Rightarrow> live_pointer cell option \<Rightarrow> unit result \<times> live_pointer cell option" where
  "AdvanceLivePointer world net fresh i q cell =
     (if \<not> sourceAttemptID i \<or> \<not> pointer_ok q then (Err (ErrOther ''invalid live pointer''), cell)
      else put_loop decide_pointer world net fresh RecordingPutAttempts q cell)"

definition AdvanceLivePreviewPointer ::
  "(nat \<Rightarrow> live_pointer cell option \<Rightarrow> live_pointer cell option) \<Rightarrow> (nat \<Rightarrow> net_outcome) \<Rightarrow> (nat \<Rightarrow> nat) \<Rightarrow> string
     \<Rightarrow> int \<Rightarrow> live_pointer cell option \<Rightarrow> unit result \<times> live_pointer cell option" where
  "AdvanceLivePreviewPointer world net fresh i n cell =
     (if \<not> sourceAttemptID i \<or> n < 0 \<or> 4319 < n then (Err (ErrOther ''invalid preview pointer''), cell)
      else put_loop decide_pointer world net fresh RecordingPutAttempts \<lparr>lp_revision = n + 1, lp_sequence = n\<rparr> cell)"

definition pointer_le :: "live_pointer \<Rightarrow> live_pointer \<Rightarrow> bool" where
  "pointer_le p q \<longleftrightarrow> p = q \<or> lp_revision p < lp_revision q \<and> lp_sequence p \<le> lp_sequence q"

lemma pointer_eqI: "lp_revision p = lp_revision q \<Longrightarrow> lp_sequence p = lp_sequence q \<Longrightarrow> p = (q :: live_pointer)"
  by (cases p; cases q) simp

interpretation pointer: authority pointer_le decide_pointer
proof
  show "pointer_le p v" if "decide_pointer (Some p) v = Ok True" for p v
    using that by (auto simp: decide_pointer_def pointer_le_def split: if_splits)
  show "pointer_le v p" if "decide_pointer (Some p) v = Ok False" for p v
    using that pointer_eqI [of v p] by (auto simp: decide_pointer_def pointer_le_def split: if_splits)
  show "b" if "decide_pointer None v = Ok b" for v b using that by (simp add: decide_pointer_def)
qed (auto simp: pointer_le_def)


definition demo_attempt_id :: string where "demo_attempt_id = replicate 32 CHR ''a''"

text \<open>Another publisher advances the pointer before the first conditional PUT.\<close>

definition demo_rival :: "nat \<Rightarrow> live_pointer cell option \<Rightarrow> live_pointer cell option" where
  "demo_rival k cell = (case cell of
       Some c \<Rightarrow> if ce_value c = \<lparr>lp_revision = 1, lp_sequence = 0\<rparr> then Some \<lparr>ce_value = \<lparr>lp_revision = 2, lp_sequence = 1\<rparr>, ce_etag = Suc (ce_etag c)\<rparr> else cell
     | None \<Rightarrow> None)"

definition demo_cell :: "int \<Rightarrow> int \<Rightarrow> nat \<Rightarrow> live_pointer cell option" where
  "demo_cell r n tag = Some \<lparr>ce_value = \<lparr>lp_revision = r, lp_sequence = n\<rparr>, ce_etag = tag\<rparr>"

lemma demo_rival_fair: "pointer.fair demo_rival"
  by (auto simp: pointer.fair_def pointer.grown_def demo_rival_def pointer_le_def etag_of_def split: option.splits)


end
