(* ===== verification/Recording_Capture.thy ===== *)
theory Recording_Capture
  imports Recording_Live
begin

text \<open>
  The capture of a recording, \<open>recording_capture.go\<close>, \<open>recording_recovery.go\<close> and \<open>recording_capture_signal.go\<close> of
  \<open>internal/assets\<close>: an uploader declares the objects of a recording while it runs, uploads and confirms them,
  and seals the whole.  The operations are the callbacks that the service gives to the repository, which runs
  them on the locked row; the repository is \<open>Recording_Store\<close>.  \<open>0\<close> is the absent time, \<open>''''\<close> the absent text,
  and the digest of a request stands as the request it is made of.  The clock readings within one callback are one.
\<close>

section \<open>The state\<close>

datatype rec_state = RecUploading | RecFreezing | RecValidating | RecReady | RecFailed | RecExpired | RecAborted

datatype object_state = ObDeclared | ObQueued | ObVerified | ObFailed

record capture_object = package_object +
  ob_state :: object_state

datatype capture_operation = OpCreate | OpDeclare | OpConfirm | OpSeal | OpAbort

datatype capture_request =
    CreateRequest string string int int string
  | DeclareRequest "package_object list"
  | ConfirmRequest "string list"
  | SealRequest string
  | AbortRequest string

record capture_receipt =
  ct_key :: string
  ct_operation :: capture_operation
  ct_accepted :: time
  ct_capture :: string

record stored_receipt =
  sd_request :: capture_request
  sd_receipt :: capture_receipt

record recovery =
  ry_version :: string
  ry_active :: bool
  ry_activation :: time
  ry_baseline :: int
  ry_segment :: int
  ry_common :: int
  ry_accepted :: time
  ry_deadline :: time

record live_progress =
  pg_revision :: int
  pg_first :: int
  pg_last :: int
  pg_media_end :: rat
  pg_advanced :: time
  pg_ended_at :: time
  pg_ended :: bool

record capture =
  ca_recovery :: recovery
  ca_media_at :: time
  ca_cutoff :: "int option"
  ca_frames :: int
  ca_id :: string
  ca_actor :: string
  ca_recording :: string
  ca_key :: string
  ca_state :: rec_state
  ca_created :: time
  ca_expires :: time
  ca_bytes :: int
  ca_count :: int
  ca_objects :: "capture_object list"
  ca_receipts :: "(string \<times> stored_receipt) list"
  ca_package :: string
  ca_terminal :: time
  ca_reason :: string
  ca_progress :: live_progress
  ca_epoch :: int
  ca_grant_until :: time
  ca_inventory :: "inventory option"

definition Truncate_us :: "time \<Rightarrow> time" where "Truncate_us t = (t div 1000) * 1000"

definition RecordingUploadTTL :: int where "RecordingUploadTTL = 24 * hour"
definition RecordingPartURLTTL :: int where "RecordingPartURLTTL = 15 * minute"

definition RecordingRecoveryVersion :: string where "RecordingRecoveryVersion = ''common-watermark-v1''"
definition recordingRecoveryWindow :: int where "recordingRecoveryWindow = 5 * minute"

section \<open>The page of a capture\<close>

record capture_status =
  cs_id :: string
  cs_recording :: string
  cs_state :: rec_state
  cs_created :: time
  cs_expires :: time
  cs_bytes :: int
  cs_count :: int
  cs_objects :: "capture_object list"
  cs_next :: string
  cs_package :: string
  cs_terminal :: time
  cs_reason :: string
  cs_progress :: live_progress

definition index_of :: "string \<Rightarrow> capture_object list \<Rightarrow> nat option" where
  "index_of path obs = (let n = length (takeWhile (\<lambda>ob. po_path ob \<noteq> path) obs) in if n < length obs then Some n else None)"

definition captureStatus :: "capture \<Rightarrow> string \<Rightarrow> nat \<Rightarrow> capture_status result" where
  "captureStatus c cursor limit =
     (let obs = sort_key po_path (ca_objects c) in
      case (if cursor = [] then Some 0 else map_option Suc (index_of cursor obs)) of
        None \<Rightarrow> Err ErrInvalidInput
      | Some start \<Rightarrow>
          let stop = min (start + limit) (length obs) in
          Ok \<lparr>cs_id = ca_id c, cs_recording = ca_recording c, cs_state = ca_state c, cs_created = ca_created c, cs_expires = ca_expires c,
              cs_bytes = ca_bytes c, cs_count = ca_count c, cs_objects = take (stop - start) (drop start obs),
              cs_next = (if stop < length obs then po_path (obs ! (stop - 1)) else []), cs_package = ca_package c,
              cs_terminal = ca_terminal c, cs_reason = ca_reason c, cs_progress = ca_progress c\<rparr>)"

definition captureOwner :: "capture \<Rightarrow> string \<Rightarrow> unit result" where
  "captureOwner c actor = (if actor = [] \<or> ca_actor c \<noteq> actor then Err ErrForbidden else Ok ())"

section \<open>Recovery\<close>

definition capture_prefixes :: "string list" where "capture_prefixes = [''480p/'', ''720p/'', ''1080p/'']"

definition confirmed :: "capture_object list \<Rightarrow> string \<Rightarrow> bool" where
  "confirmed obs path \<longleftrightarrow> list_ex (\<lambda>ob. po_path ob = path \<and> (ob_state ob = ObQueued \<or> ob_state ob = ObVerified)) obs"

fun confirmed_from :: "nat \<Rightarrow> capture_object list \<Rightarrow> nat \<Rightarrow> nat" where
  "confirmed_from 0 obs n = n"
| "confirmed_from (Suc k) obs n =
     (if list_all (\<lambda>q. confirmed obs (q @ segment_name n)) capture_prefixes then confirmed_from k obs (Suc n) else n)"

definition confirmedCaptureEnd :: "capture \<Rightarrow> int" where
  "confirmedCaptureEnd c = int (confirmed_from RecordingMaxSegments (ca_objects c) 0)"

definition segment_duration :: "int \<Rightarrow> rat \<Rightarrow> int option" where
  "segment_duration frames rate =
     (if frames = 300 \<and> rate = ntsc_rate then Some (10010 * millisecond)
      else if (frames = 0 \<or> frames = 900) \<and> rate = 30 then Some (30 * second)
      else if (frames = 0 \<or> frames = 900) \<and> rate = ntsc_rate then Some (30030 * millisecond)
      else None)"

definition set_active :: "bool \<Rightarrow> capture \<Rightarrow> capture" where
  "set_active b c = c\<lparr>ca_recovery := (ca_recovery c)\<lparr>ry_active := b\<rparr>\<rparr>"

definition ArmCaptureRecovery :: "broadcast_range \<Rightarrow> rat \<Rightarrow> time \<Rightarrow> capture \<Rightarrow> capture result" where
  "ArmCaptureRecovery p rate now c =
     (let r = ca_recovery c in
      if ry_version r \<noteq> RecordingRecoveryVersion then Ok c
      else if br_state p \<noteq> MemberLive \<or> br_revoked p \<or> br_end p \<noteq> None \<or> ca_terminal c \<noteq> 0 \<or> ca_state c \<noteq> RecUploading
      then Ok (set_active False c)
      else case br_start p of
        None \<Rightarrow> Ok c
      | Some s \<Rightarrow>
          if ca_cutoff c \<noteq> None \<or> ry_activation r \<noteq> 0 then Ok c
          else (case segment_duration (ca_frames c) rate of
             None \<Rightarrow> Err ErrConflict
           | Some d \<Rightarrow>
               let e = confirmedCaptureEnd c; stamp = Truncate_us now in
               if e \<le> s then Err ErrCaptureMissingObjects
               else Ok (c\<lparr>ca_recovery := \<lparr>ry_version = RecordingRecoveryVersion, ry_active = True, ry_activation = stamp, ry_baseline = e,
                      ry_segment = d, ry_common = e, ry_accepted = stamp, ry_deadline = stamp + recordingRecoveryWindow\<rparr>\<rparr>)))"

definition closeExpiredCaptureRecovery :: "time \<Rightarrow> capture \<Rightarrow> capture" where
  "closeExpiredCaptureRecovery now c =
     (let r = ca_recovery c in
      if ry_active r \<and> ry_deadline r \<noteq> 0 \<and> ry_deadline r \<le> now \<and> ca_cutoff c = None \<and> 0 < ry_common r
      then c\<lparr>ca_cutoff := Some (ry_common r), ca_recovery := r\<lparr>ry_active := False\<rparr>\<rparr> else c)"

definition advanceCaptureRecovery :: "time \<Rightarrow> capture \<Rightarrow> capture" where
  "advanceCaptureRecovery now c =
     (let r = ca_recovery c; e = confirmedCaptureEnd c; stamp = Truncate_us now;
          freshness = min stamp (ry_activation r + (e - ry_baseline r) * ry_segment r)
      in if \<not> ry_active r \<or> ry_activation r = 0 \<or> ry_deadline r = 0 \<or> ca_cutoff c \<noteq> None
            \<or> ry_accepted r \<noteq> 0 \<and> now < ry_accepted r \<or> e \<le> ry_common r
         then c
         else c\<lparr>ca_recovery := r\<lparr>ry_common := e, ry_accepted := stamp, ry_deadline := freshness + recordingRecoveryWindow\<rparr>\<rparr>)"

section \<open>The gate of every operation\<close>

definition receipt_limit :: "capture_operation \<Rightarrow> int" where
  "receipt_limit op' = 2 * RecordingPackageMaxObjects + 2 + (if op' = OpAbort then 1 else 0)"

definition add_receipt :: "string \<Rightarrow> capture_operation \<Rightarrow> capture_request \<Rightarrow> time \<Rightarrow> capture \<Rightarrow> capture" where
  "add_receipt key op' req now c = c\<lparr>ca_receipts := ca_receipts c @
     [(key, \<lparr>sd_request = req, sd_receipt = \<lparr>ct_key = key, ct_operation = op', ct_accepted = Truncate_us now, ct_capture = ca_id c\<rparr>\<rparr>)]\<rparr>"

definition mutate_capture ::
  "time \<Rightarrow> string \<Rightarrow> string \<Rightarrow> capture_operation \<Rightarrow> capture_request \<Rightarrow> (capture \<Rightarrow> capture result) \<Rightarrow> capture \<Rightarrow> capture result" where
  "mutate_capture now actor key op' req f c = bindR (captureOwner c actor) (\<lambda>_.
     case map_of (ca_receipts c) key of
       Some s \<Rightarrow> if sd_request s \<noteq> req \<or> ct_operation (sd_receipt s) \<noteq> op' then Err ErrConflict else Ok c
     | None \<Rightarrow>
         if ca_state c = RecExpired then Err ErrCaptureExpired
         else if ca_state c \<noteq> RecUploading \<and> \<not> (op' = OpAbort \<and> (ca_state c = RecFreezing \<or> ca_state c = RecValidating))
         then Err ErrConflict
         else if ca_expires c \<le> now then Err ErrCaptureExpired
         else if receipt_limit op' \<le> int (length (ca_receipts c)) then Err ErrConflict
         else bindR (f c) (\<lambda>c'. Ok (add_receipt key op' req now c')))"

section \<open>Declaring objects\<close>

definition capture_path :: "string \<Rightarrow> bool" where
  "capture_path p \<longleftrightarrow> p = ''master.m3u8'' \<or> list_ex (\<lambda>q. take (length q) p = q \<and>
     (let f = drop (length q) p in f = ''index.m3u8'' \<or> f = ''init.mp4''
        \<or> length f = 14 \<and> take 4 f = ''seg-'' \<and> list_all is_digit (take 6 (drop 4 f)) \<and> drop 10 f = ''.m4s'')) capture_prefixes"

definition validCaptureObject :: "package_object \<Rightarrow> bool" where
  "validCaptureObject ob \<longleftrightarrow> capture_path (po_path ob) \<and> object_ok ob"

fun declare_objects :: "package_object list \<Rightarrow> capture \<Rightarrow> capture result" where
  "declare_objects [] c = Ok c"
| "declare_objects (ob # obs) c =
     (case sel1 (\<lambda>k. po_path k = po_path ob) (ca_objects c) of
        Some old \<Rightarrow> if package_object.truncate old \<noteq> ob then Err ErrConflict else declare_objects obs c
      | None \<Rightarrow>
          if RecordingPackageMaxObjects \<le> ca_count c \<or> RecordingPackageMaxBytes - ca_bytes c < po_size ob
          then Err ErrRecordingPackageTooLarge
          else declare_objects obs (c\<lparr>ca_objects := ca_objects c @ [package_object.extend ob \<lparr>ob_state = ObDeclared\<rparr>],
                 ca_count := ca_count c + 1, ca_bytes := ca_bytes c + po_size ob\<rparr>))"

definition declare_input_ok :: "package_object list \<Rightarrow> bool" where
  "declare_input_ok obs \<longleftrightarrow> 1 \<le> length obs \<and> length obs \<le> 100 \<and> list_all validCaptureObject obs \<and> distinct (map po_path obs)"

section \<open>Confirming objects\<close>

definition capturePaths :: "capture \<Rightarrow> string list \<Rightarrow> unit result" where
  "capturePaths c paths = (if paths = [] \<or> 100 < length paths \<or> \<not> distinct paths \<or> \<not> set paths \<subseteq> po_path ` set (ca_objects c)
     then Err ErrInvalidInput else Ok ())"

definition declared_as :: "capture \<Rightarrow> string \<Rightarrow> package_object option" where
  "declared_as c path = map_option package_object.truncate (sel1 (\<lambda>k. po_path k = path) (ca_objects c))"

definition state_of :: "capture \<Rightarrow> string \<Rightarrow> object_state option" where
  "state_of c path = map_option ob_state (sel1 (\<lambda>k. po_path k = path) (ca_objects c))"

definition queue_objects :: "string list \<Rightarrow> time \<Rightarrow> capture \<Rightarrow> capture" where
  "queue_objects paths now c = c\<lparr>
     ca_media_at := (if list_ex (\<lambda>k. po_path k \<in> set paths \<and> ob_state k = ObDeclared \<and> ends_with ''.m4s'' (po_path k)) (ca_objects c) then now else ca_media_at c),
     ca_objects := upd_where (\<lambda>k. po_path k \<in> set paths \<and> ob_state k = ObDeclared) (\<lambda>k. k\<lparr>ob_state := ObQueued\<rparr>) (ca_objects c)\<rparr>"

text \<open>Both readings of the storage evidence: a failed object, then a missing or different size.\<close>

fun check_sizes :: "(string \<Rightarrow> int option) \<Rightarrow> capture \<Rightarrow> string list \<Rightarrow> unit result" where
  "check_sizes sizes c [] = Ok ()"
| "check_sizes sizes c (p # ps) =
     (if state_of c p = Some ObFailed then Err ErrConflict
      else if (case sizes p of None \<Rightarrow> 0 | Some n \<Rightarrow> n) \<noteq> (case declared_as c p of None \<Rightarrow> 0 | Some ob \<Rightarrow> po_size ob)
      then Err ErrCaptureMissingObjects
      else check_sizes sizes c ps)"

text \<open>The second half of a confirmation: \<open>before\<close> is the capture the listing was asked for.\<close>

definition confirm_objects :: "capture \<Rightarrow> (string \<Rightarrow> int option) result \<Rightarrow> string list \<Rightarrow> time \<Rightarrow> capture \<Rightarrow> capture result" where
  "confirm_objects before listing paths now c =
     (if ca_recording c \<noteq> ca_recording before \<or> ca_epoch c \<noteq> ca_epoch before then Err ErrConflict
      else bindR (capturePaths c paths) (\<lambda>_.
        if list_ex (\<lambda>p. declared_as c p \<noteq> declared_as before p) paths then Err ErrConflict
        else bindR listing (\<lambda>sizes.
          bindR (check_sizes sizes c paths) (\<lambda>_.
            Ok (advanceCaptureRecovery now (queue_objects paths now (closeExpiredCaptureRecovery now c)))))))"

section \<open>Sealing and aborting\<close>

definition sealed_object :: "capture \<Rightarrow> package_object \<Rightarrow> unit result" where
  "sealed_object c ob =
     (if declared_as c (po_path ob) \<noteq> Some ob then Err ErrConflict
      else if state_of c (po_path ob) = Some ObQueued \<or> state_of c (po_path ob) = Some ObVerified then Ok ()
      else Err ErrCaptureMissingObjects)"

fun sealed_objects :: "capture \<Rightarrow> package_object list \<Rightarrow> unit result" where
  "sealed_objects c [] = Ok ()"
| "sealed_objects c (ob # obs) = bindR (sealed_object c ob) (\<lambda>_. sealed_objects c obs)"

definition seal_capture :: "inventory \<Rightarrow> capture \<Rightarrow> capture result" where
  "seal_capture iv c =
     (if (ca_frames c = 300) \<noteq> (in_preset iv = RecordingTenSecondPreset) then Err ErrInvalidInput
      else if length (in_objects iv) \<noteq> length (ca_objects c) then Err ErrCaptureMissingObjects
      else bindR (sealed_objects c (in_objects iv)) (\<lambda>_.
        Ok (c\<lparr>ca_state := RecFreezing, ca_package := ca_id c, ca_inventory := Some iv\<rparr>)))"

definition abort_capture :: "string \<Rightarrow> time \<Rightarrow> capture \<Rightarrow> capture result" where
  "abort_capture reason now c = Ok (c\<lparr>ca_state := RecAborted, ca_terminal := Truncate_us now, ca_reason := reason\<rparr>)"

definition abort_reasons :: "string list" where
  "abort_reasons = [''user_abort'', ''disk_limit'', ''encoder_failure'', ''capture_incomplete'']"

section \<open>The signal of a broadcast\<close>

datatype signal_state = SignalWaiting | SignalHealthy | SignalInterrupted | SignalEnded

record broadcast_signal =
  bs_recovery :: string
  bs_common_at :: time
  bs_common_end :: "int option"
  bs_reason :: string
  bs_state :: signal_state
  bs_media_at :: time
  bs_deadline :: time
  bs_end :: "int option"

definition no_signal :: broadcast_signal where
  "no_signal = \<lparr>bs_recovery = [], bs_common_at = 0, bs_common_end = None, bs_reason = [], bs_state = SignalWaiting, bs_media_at = 0,
     bs_deadline = 0, bs_end = None\<rparr>"

definition recovery_signal :: "bool \<Rightarrow> time \<Rightarrow> capture \<Rightarrow> broadcast_signal \<times> capture" where
  "recovery_signal allowClose now c =
     (let r = ca_recovery c;
          running = (ry_active r \<and> ca_state c = RecUploading \<and> ca_terminal c = 0 \<and> ry_deadline r \<noteq> 0);
          late = (ry_deadline r - recordingRecoveryWindow + 30 * second \<le> now);
          c' = (if running \<and> allowClose then closeExpiredCaptureRecovery now c else c);
          s = no_signal\<lparr>bs_recovery := RecordingRecoveryVersion, bs_media_at := ca_media_at c, bs_common_at := ry_accepted r,
                bs_deadline := ry_deadline r, bs_common_end := (if ry_activation r \<noteq> 0 then Some (ry_common r) else None),
                bs_state := (if running then (if late then SignalInterrupted else SignalHealthy) else SignalWaiting), bs_end := ca_cutoff c'\<rparr>
      in (if ca_cutoff c' \<noteq> None then s\<lparr>bs_state := SignalEnded, bs_reason := ''idle_timeout''\<rparr> else s, c'))"

definition arrival_signal :: "bool \<Rightarrow> time \<Rightarrow> capture \<Rightarrow> broadcast_signal \<times> capture" where
  "arrival_signal allowClose now c =
     (let s = no_signal\<lparr>bs_media_at := ca_media_at c, bs_end := ca_cutoff c\<rparr> in
      if ca_cutoff c \<noteq> None then (s\<lparr>bs_state := SignalEnded\<rparr>, c)
      else if ca_media_at c = 0 \<or> ca_state c \<noteq> RecUploading \<or> ca_terminal c \<noteq> 0 then (s, c)
      else let frames = (if ca_frames c = 0 then 900 else ca_frames c);
               expected = ca_media_at c + (frames * 1001 * second) div 30000;
               deadline = expected + minute;
               s' = s\<lparr>bs_deadline := deadline, bs_state := SignalHealthy\<rparr>
           in if now < expected + 10 * second then (s', c)
              else if now < deadline \<or> \<not> allowClose \<or> confirmedCaptureEnd c \<le> 0 then (s'\<lparr>bs_state := SignalInterrupted\<rparr>, c)
              else (s'\<lparr>bs_state := SignalEnded, bs_end := Some (confirmedCaptureEnd c)\<rparr>, c\<lparr>ca_cutoff := Some (confirmedCaptureEnd c)\<rparr>))"

definition BroadcastSignal :: "string \<Rightarrow> bool \<Rightarrow> time \<Rightarrow> capture \<Rightarrow> (broadcast_signal \<times> capture) result" where
  "BroadcastSignal actor allowClose now c = bindR (captureOwner c actor) (\<lambda>_.
     if ca_epoch c < 1 then Err ErrConflict
     else Ok (if ry_version (ca_recovery c) = RecordingRecoveryVersion then recovery_signal allowClose now c else arrival_signal allowClose now c))"

end
