(* ===== verification/Spec2Isabelle.thy ===== *)
theory Spec2Isabelle
  imports Derivative_Jobs Personal_Service Object_Authority Recording_Capture
begin

text \<open>Verification of the asset service.\<close>

end
